(* ===== verification/Zcrt_Prelude.thy ===== *)
theory Zcrt_Prelude
  imports Main "HOL-Library.Word"
begin

text \<open>
  Shared vocabulary of the development: the machine integers of \<^verbatim>\<open>zcrt/ztype.h\<close>,
  the faults a C statement can run into, results with faults, byte pointers into allocated
  blocks, and the rewrite rules the component theories use for them.
\<close>

unbundle bit_operations_syntax

section \<open>Machine integers\<close>

type_synonym u8 = "8 word"
type_synonym u16 = "16 word"
type_synonym u32 = "32 word"
type_synonym u64 = "64 word"
type_synonym s32 = "32 word"
type_synonym s64 = "64 word"

named_theorems wsimps \<open>rewriting of word values to natural numbers\<close>
named_theorems zcrt_mem \<open>loads, stores and pointer arithmetic on allocated blocks\<close>

section \<open>Results with faults\<close>

text \<open>
  A statement that has no defined outcome stops the program: a null or dangling pointer is
  followed, a block is left, an assertion fails, or a loop never ends. Every operation of the
  model returns \<^verbatim>\<open>Inl\<close> such a fault or \<^verbatim>\<open>Inr\<close> its result.
\<close>

datatype fault = NullDeref | OutOfBounds | AssertFailed | DivByZero | NoReturn

type_synonym 'a res = "fault + 'a"

fun rbind :: "'a res \<Rightarrow> ('a \<Rightarrow> 'b res) \<Rightarrow> 'b res" where
  "rbind (Inl e) f = Inl e"
| "rbind (Inr x) f = f x"

definition zassert :: "bool \<Rightarrow> unit res" where
  "zassert c = (if c then Inr () else Inl AssertFailed)"

definition returned :: "'a option \<Rightarrow> 'a res" where
  "returned r = (case r of None \<Rightarrow> Inl NoReturn | Some x \<Rightarrow> Inr x)"

definition deref :: "'a option \<Rightarrow> 'a res" where
  "deref r = (case r of None \<Rightarrow> Inl NullDeref | Some x \<Rightarrow> Inr x)"

text \<open>A loop whose body can fault: no result at all when the loop never ends.\<close>

definition run :: "'a res option \<Rightarrow> 'a res" where
  "run r = (case r of None \<Rightarrow> Inl NoReturn | Some x \<Rightarrow> x)"

lemma run_simps [simp]: "run None = Inl NoReturn" "run (Some x) = x"
  by (simp_all add: run_def)

lemma rbind_eq_Inr: "rbind m f = Inr y \<longleftrightarrow> (\<exists>x. m = Inr x \<and> f x = Inr y)"
  by (cases m) auto

lemma rbind_eq_Inl: "rbind m f = Inl e \<longleftrightarrow> m = Inl e \<or> (\<exists>x. m = Inr x \<and> f x = Inl e)"
  by (cases m) auto

lemma rbind_assoc: "rbind (rbind m f) g = rbind m (\<lambda>x. rbind (f x) g)"
  by (cases m) auto

lemma rbind_Inr_right [simp]: "rbind m Inr = m"
  by (cases m) auto

lemma rbind_cong [fundef_cong]:
  "m = m' \<Longrightarrow> (\<And>x. m' = Inr x \<Longrightarrow> f x = f' x) \<Longrightarrow> rbind m f = rbind m' f'"
  by (cases m') auto

lemma zassert_simps [simp]: "zassert True = Inr ()" "zassert False = Inl AssertFailed"
  by (simp_all add: zassert_def)

lemma zassert_Inr [simp]: "zassert c = Inr u \<longleftrightarrow> c"
  by (simp add: zassert_def)

lemma zassert_Inl [simp]: "zassert c = Inl e \<longleftrightarrow> \<not> c \<and> e = AssertFailed"
  by (auto simp: zassert_def)

lemma returned_simps [simp]: "returned None = Inl NoReturn" "returned (Some x) = Inr x"
  by (simp_all add: returned_def)

lemma returned_Inr [simp]: "returned r = Inr x \<longleftrightarrow> r = Some x"
  by (auto simp: returned_def split: option.splits)

lemma deref_simps [simp]: "deref None = Inl NullDeref" "deref (Some x) = Inr x"
  by (simp_all add: deref_def)

lemma deref_Inr [simp]: "deref r = Inr x \<longleftrightarrow> r = Some x"
  by (auto simp: deref_def split: option.splits)

section \<open>Byte pointers\<close>

text \<open>
  A byte pointer is a block with an index into it; the block is the whole allocation, so its
  length is the capacity the allocator gave. The null pointer has no block; arithmetic on it
  gives a pointer that still has none.
\<close>

type_synonym block = "u8 list"
type_synonym bptr = "block option \<times> nat"

abbreviation null_ptr :: bptr where
  "null_ptr \<equiv> (None, 0)"

definition padd :: "bptr \<Rightarrow> nat \<Rightarrow> bptr" where
  "padd p n = (fst p, snd p + n)"

definition load8 :: "bptr \<Rightarrow> nat \<Rightarrow> u8 res" where
  "load8 p k = rbind (deref (fst p)) (\<lambda>blk.
     if snd p + k < length blk then Inr (blk ! (snd p + k)) else Inl OutOfBounds)"

definition store :: "block option \<Rightarrow> nat \<Rightarrow> u8 list \<Rightarrow> block res" where
  "store b i bs = rbind (deref b) (\<lambda>blk.
     if i + length bs \<le> length blk then Inr (take i blk @ bs @ drop (i + length bs) blk)
     else Inl OutOfBounds)"

definition load_n :: "bptr \<Rightarrow> nat \<Rightarrow> u8 list res" where
  "load_n p n = (if n = 0 then Inr [] else rbind (deref (fst p)) (\<lambda>blk.
     if snd p + n \<le> length blk then Inr (take n (drop (snd p) blk)) else Inl OutOfBounds))"

lemma load8_Some [zcrt_mem]:
  "load8 (Some blk, i) k = (if i + k < length blk then Inr (blk ! (i + k)) else Inl OutOfBounds)"
  by (simp add: load8_def)

lemma load8_None [simp]: "load8 (None, i) k = Inl NullDeref"
  by (simp add: load8_def)

lemma store_Some [zcrt_mem]:
  "store (Some blk) i bs =
    (if i + length bs \<le> length blk then Inr (take i blk @ bs @ drop (i + length bs) blk)
     else Inl OutOfBounds)"
  by (simp add: store_def)

lemma padd_Pair [simp]: "padd (b, i) n = (b, i + n)"
  by (simp add: padd_def)

lemma store_length: "store b i bs = Inr blk \<Longrightarrow> length blk = length (the b)"
  by (cases b) (auto simp: store_def split: if_splits)

lemma take_store:
  "store (Some blk) i bs = Inr blk' \<Longrightarrow> take (i + length bs) blk' = take i blk @ bs"
  by (auto simp: store_def split: if_splits)

section \<open>Words as natural numbers\<close>

lemma unat_add_small [wsimps]:
  fixes a b :: "'a::len word"
  shows "unat a + unat b < 2 ^ LENGTH('a) \<Longrightarrow> unat (a + b) = unat a + unat b"
  by (metis unat_add_lem)

lemma unat_add_u32: "unat (a + b :: u32) = (unat a + unat b) mod 4294967296"
  by (simp add: unat_word_ariths)

lemma unat_of_nat_u32: "unat (of_nat n :: u32) = n mod 4294967296"
  by (simp add: unat_of_nat)

lemma unat_of_nat_u32_small [wsimps]: "n < 4294967296 \<Longrightarrow> unat (of_nat n :: u32) = n"
  by (simp add: unat_of_nat)

lemma u32_bound [simp]: "unat (x :: u32) < 4294967296"
  using unsigned_less [where ?'a = nat, of x] by simp

lemma u64_bound [simp]: "unat (x :: u64) < 18446744073709551616"
  using unsigned_less [where ?'a = nat, of x] by simp

lemma u8_bound [simp]: "unat (x :: u8) < 256"
  using unsigned_less [where ?'a = nat, of x] by simp

lemma u16_bound [simp]: "unat (x :: u16) < 65536"
  using unsigned_less [where ?'a = nat, of x] by simp

lemma unat_pow2: "n < LENGTH('a) \<Longrightarrow> unat ((2::'a::len word) ^ n) = 2 ^ n"
proof -
  assume n: "n < LENGTH('a)"
  have "(2::'a word) ^ n = of_nat (2 ^ n)" by simp
  then show ?thesis using n by (simp only: unat_of_nat) simp
qed

lemma unat_succ_u32: "unat (x + 1 :: u32) = (if x = 0xFFFFFFFF then 0 else unat x + 1)"
proof -
  have "unat x = 4294967295 \<or> Suc (unat x) < 4294967296" using u32_bound [of x] by linarith
  then have "Suc (unat x) mod 4294967296 = (if unat x = 4294967295 then 0 else Suc (unat x))"
    by auto
  then show ?thesis by (simp add: unat_word_ariths word_unat_eq_iff)
qed

lemma unat_add_u32_small:
  "unat a + unat b < 4294967296 \<Longrightarrow> unat (a + b :: u32) = unat a + unat b"
  by (simp add: unat_add_u32)

section \<open>Slices\<close>

lemma slice_append: "a + n \<le> length xs \<Longrightarrow> take n (drop a (xs @ ys)) = take n (drop a xs)"
  by simp

lemma slice_take: "a + n \<le> m \<Longrightarrow> take n (drop a (take m xs)) = take n (drop a xs)"
  by (simp add: drop_take min_def)

section \<open>Removing the first match\<close>

definition del_first :: "('a \<Rightarrow> bool) \<Rightarrow> 'a list \<Rightarrow> 'a list" where
  "del_first P xs = takeWhile (\<lambda>x. \<not> P x) xs @ tl (dropWhile (\<lambda>x. \<not> P x) xs)"

lemma del_first_split: "\<forall>x \<in> set xs. \<not> P x \<Longrightarrow> P y \<Longrightarrow> del_first P (xs @ y # ys) = xs @ ys"
  by (simp add: del_first_def takeWhile_append dropWhile_append)

lemma del_first_none: "\<forall>x \<in> set xs. \<not> P x \<Longrightarrow> del_first P xs = xs"
  by (simp add: del_first_def takeWhile_eq_all_conv [THEN iffD2] dropWhile_eq_Nil_conv [THEN iffD2])

end
