(* ===== verification/Zcrt_Macro.thy ===== *)
theory Zcrt_Macro
  imports Zcrt_Prelude
begin

text \<open>
  The constants and enumerations of \<^verbatim>\<open>zcrt/zmacro.h\<close>, \<^verbatim>\<open>zcrt/zerrcode.h\<close>,
  \<^verbatim>\<open>zcrt/zevent.h\<close>, \<^verbatim>\<open>zcrt/zschedule.h\<close> and \<^verbatim>\<open>zcrt/zlog.h\<close>.
\<close>

section \<open>Error codes\<close>

datatype EZCRTErr =
    EZCRTErr_success
  | EZCRTErr_paramErr
  | EZCRTErr_invalidCrtModule
  | EZCRTErr_full
  | EZCRTErr_noMem
  | EZCRTErr_timeout
  | EZCRTErr_badObject
  | EZCRTErr_sockInitErr
  | EZCRTErr_existed
  | EZCRTErr_ipcCommonHdrErr
  | EZCRTErr_ipcBodyErr
  | EZCRTErr_ipcNotSupport
  | EZCRTErr_ipcNoModule
  | EZCRTErr_ipcNoAct
  | EZCRTErr_ipcTLVErr
  | EZCRTErr_ipcArgsErr

fun err_code :: "EZCRTErr \<Rightarrow> int" where
  "err_code EZCRTErr_success = 0"
| "err_code EZCRTErr_paramErr = -100"
| "err_code EZCRTErr_invalidCrtModule = -99"
| "err_code EZCRTErr_full = -98"
| "err_code EZCRTErr_noMem = -97"
| "err_code EZCRTErr_timeout = -96"
| "err_code EZCRTErr_badObject = -95"
| "err_code EZCRTErr_sockInitErr = -94"
| "err_code EZCRTErr_existed = -93"
| "err_code EZCRTErr_ipcCommonHdrErr = -79"
| "err_code EZCRTErr_ipcBodyErr = -78"
| "err_code EZCRTErr_ipcNotSupport = -77"
| "err_code EZCRTErr_ipcNoModule = -76"
| "err_code EZCRTErr_ipcNoAct = -75"
| "err_code EZCRTErr_ipcTLVErr = -74"
| "err_code EZCRTErr_ipcArgsErr = -73"

definition err_word :: "EZCRTErr \<Rightarrow> s32" where
  "err_word e = word_of_int (err_code e)"

lemma err_code_range: "-100 \<le> err_code e \<and> err_code e \<le> 0"
  by (cases e) simp_all

lemma err_code_inj: "err_code e = err_code e' \<Longrightarrow> e = e'"
  by (cases e; cases e'; simp)

lemma sint_err_word: "sint (err_word e) = err_code e"
  by (cases e) (simp_all add: err_word_def)

section \<open>Four-character tags\<close>

definition ZCRT_MAKE_FOURCC :: "u8 \<Rightarrow> u8 \<Rightarrow> u8 \<Rightarrow> u8 \<Rightarrow> u32" where
  "ZCRT_MAKE_FOURCC a b c d =
     ucast a OR push_bit 8 (ucast b) OR push_bit 16 (ucast c) OR push_bit 24 (ucast d)"

lemma fourcc_inj:
  assumes "ZCRT_MAKE_FOURCC a b c d = ZCRT_MAKE_FOURCC a' b' c' d'"
  shows "a = a' \<and> b = b' \<and> c = c' \<and> d = d'"
proof -
  have sel: "(ucast (ZCRT_MAKE_FOURCC a b c d) :: u8) = a"
    "(ucast (drop_bit 8 (ZCRT_MAKE_FOURCC a b c d)) :: u8) = b"
    "(ucast (drop_bit 16 (ZCRT_MAKE_FOURCC a b c d)) :: u8) = c"
    "(ucast (drop_bit 24 (ZCRT_MAKE_FOURCC a b c d)) :: u8) = d" for a b c d
    by (rule bit_word_eqI;
        auto simp: ZCRT_MAKE_FOURCC_def bit_simps dest: bit_imp_le_length)+
  show ?thesis
    using sel [of a b c d] sel [of a' b' c' d'] unfolding assms by simp
qed

section \<open>Aligning\<close>

definition ZCRT_ULONG_ALIGN :: "u32 \<Rightarrow> u32" where
  "ZCRT_ULONG_ALIGN addr = addr + addr mod 4"

text \<open>An even address is rounded up to a multiple of four; an odd one never is.\<close>

lemma align_odd_fails: "ZCRT_ULONG_ALIGN 1 = 2" "ZCRT_ULONG_ALIGN 3 = 6" "ZCRT_ULONG_ALIGN 2 = 4"
  by (simp_all add: ZCRT_ULONG_ALIGN_def)

section \<open>Versions\<close>

definition ZCRT_MAKE_VERSION :: "s32 \<Rightarrow> s32 \<Rightarrow> s32 \<Rightarrow> s32" where
  "ZCRT_MAKE_VERSION major minor macro = push_bit 24 major OR push_bit 16 minor OR macro"

lemma bit_small: "x < 2 ^ k \<Longrightarrow> k \<le> LENGTH('a) \<Longrightarrow> bit (x :: 'a::len word) n \<Longrightarrow> n < k"
  by (metis bit_take_bit_iff less_mask_eq take_bit_eq_mask)

lemma make_version:
  assumes "major < 128" "minor < 256" "macro < 65536"
  shows "sint (ZCRT_MAKE_VERSION major minor macro) = uint major * 16777216 + uint minor * 65536 + uint macro"
proof -
  have j: "n < 8" if "bit major n" for n using bit_small [of major 8 n] that assms(1) by (simp add: word_less_nat_alt)
  have i: "n < 8" if "bit minor n" for n using bit_small [of minor 8 n] that assms(2) by simp
  have m: "n < 16" if "bit macro n" for n using bit_small [of macro 16 n] that assms(3) by simp
  have "push_bit 24 major OR push_bit 16 minor = push_bit 24 major + push_bit 16 minor"
    by (rule disjunctive_add [symmetric]) (auto simp: bit_simps dest: i)
  moreover have "push_bit 24 major OR push_bit 16 minor OR macro = (push_bit 24 major OR push_bit 16 minor) + macro"
    unfolding or.assoc [symmetric] by (rule disjunctive_add [symmetric]) (auto simp: bit_simps dest: m)
  ultimately have s: "ZCRT_MAKE_VERSION major minor macro = major * 16777216 + minor * 65536 + macro"
    by (simp add: ZCRT_MAKE_VERSION_def push_bit_eq_mult)
  have b: "uint major < 128" "uint minor < 256" "uint macro < 65536" using assms by (simp_all add: word_less_def)
  then have u: "uint (ZCRT_MAKE_VERSION major minor macro) = uint major * 16777216 + uint minor * 65536 + uint macro"
    unfolding s by (simp add: uint_word_ariths)
  then have "uint (ZCRT_MAKE_VERSION major minor macro) < 2 ^ 31" using b by simp
  moreover have "- (2 ^ 31) \<le> uint (ZCRT_MAKE_VERSION major minor macro)" by (rule order_trans [of _ 0]) simp_all
  ultimately have "signed_take_bit 31 (uint (ZCRT_MAKE_VERSION major minor macro)) = uint (ZCRT_MAKE_VERSION major minor macro)"
    by (intro signed_take_bit_int_eq_self)
  then show ?thesis unfolding u [symmetric] by (simp add: sint_uint)
qed

lemma less_digits:
  fixes x y q r k :: int
  assumes "0 \<le> x" "x < k" "0 \<le> y" "y < k"
  shows "q * k + x < r * k + y \<longleftrightarrow> q < r \<or> q = r \<and> x < y"
proof (cases q r rule: linorder_cases)
  case less
  then have "(q + 1) * k \<le> r * k" using assms by (intro mult_right_mono) simp_all
  then show ?thesis using less assms by (simp add: distrib_right)
next
  case greater
  then have "(r + 1) * k \<le> q * k" using assms by (intro mult_right_mono) simp_all
  then show ?thesis using greater assms by (simp add: distrib_right)
qed simp

text \<open>Comparing versions as integers compares them by major, minor and macro number; a major number of 128 makes them
  negative.\<close>

lemma version_order:
  assumes "a < 128" "b < 256" "c < 65536" "a' < 128" "b' < 256" "c' < 65536"
  shows "ZCRT_MAKE_VERSION a b c <s ZCRT_MAKE_VERSION a' b' c' \<longleftrightarrow> a < a' \<or> a = a' \<and> (b < b' \<or> b = b' \<and> c < c')"
proof -
  have bd: "uint a < 128" "uint b < 256" "uint c < 65536" "uint a' < 128" "uint b' < 256" "uint c' < 65536"
    using assms by (simp_all add: word_less_def)
  have d: "uint a * 256 + uint b < uint a' * 256 + uint b' \<longleftrightarrow> uint a < uint a' \<or> uint a = uint a' \<and> uint b < uint b'"
    "uint a' * 256 + uint b' < uint a * 256 + uint b \<longleftrightarrow> uint a' < uint a \<or> uint a' = uint a \<and> uint b' < uint b"
    "(uint a * 256 + uint b) * 65536 + uint c < (uint a' * 256 + uint b') * 65536 + uint c' \<longleftrightarrow>
      uint a * 256 + uint b < uint a' * 256 + uint b' \<or> uint a * 256 + uint b = uint a' * 256 + uint b' \<and> uint c < uint c'"
    by (rule less_digits; use bd in simp)+
  have "uint a * 256 + uint b = uint a' * 256 + uint b' \<longleftrightarrow> uint a = uint a' \<and> uint b = uint b'" using d(1,2) by linarith
  with d have "(uint a * 256 + uint b) * 65536 + uint c < (uint a' * 256 + uint b') * 65536 + uint c' \<longleftrightarrow>
      uint a < uint a' \<or> uint a = uint a' \<and> (uint b < uint b' \<or> uint b = uint b' \<and> uint c < uint c')" by blast
  then show ?thesis using assms by (simp add: word_sless_alt make_version word_less_def word_uint_eq_iff distrib_right mult.commute [of 16777216])
qed

lemma version_128: "ZCRT_MAKE_VERSION 128 0 0 <s ZCRT_MAKE_VERSION 1 0 0"
  by code_simp

section \<open>Limits\<close>

definition ZCRT_MAX_EVT :: nat where "ZCRT_MAX_EVT = 256"
definition ZCRT_NAME_LEN :: nat where "ZCRT_NAME_LEN = 64"
definition ZCRT_CB_MAX_ARGS :: nat where "ZCRT_CB_MAX_ARGS = 6"
definition ZTIMER_INVALID_CONTAINER :: u16 where "ZTIMER_INVALID_CONTAINER = 0"
definition ZTIMER_CONTAINER_CONSTID :: u16 where "ZTIMER_CONTAINER_CONSTID = 0xfff"

end
