(* ===== verification/Zcrt_Buf.thy ===== *)
theory Zcrt_Buf
  imports Zcrt_Macro
begin

text \<open>
  The growing byte buffer of \<^verbatim>\<open>zcrtlib/zbuf.c\<close>. A buffer pointer is an option
  (\<^verbatim>\<open>None\<close> is \<^verbatim>\<open>NULL\<close>); the block a buffer owns is a byte list whose length is the
  capacity the allocator really gave, so a write past it is the fault \<^verbatim>\<open>OutOfBounds\<close>.
  The C library's \<^verbatim>\<open>realloc\<close> is an argument of the operations that call it.
\<close>

section \<open>State\<close>

record zbuf =
  zb_tag :: u32
  zb_maxlen :: u32
  zb_len :: u32
  zb_offset :: u32
  zb_buf :: "block option"
  zb_next :: "nat option"

type_synonym zbufp = "zbuf option"
type_synonym realloc_fn = "block option \<Rightarrow> nat \<Rightarrow> block option"

definition zbuf_zero :: zbuf where
  "zbuf_zero = \<lparr>zb_tag = 0, zb_maxlen = 0, zb_len = 0, zb_offset = 0, zb_buf = None, zb_next = None\<rparr>"

text \<open>
  What the C standard says of \<^verbatim>\<open>realloc\<close>: a block it returns has the requested size and
  keeps the bytes both blocks have; the other bytes are unspecified, and it may return
  \<^verbatim>\<open>NULL\<close>.
\<close>

definition realloc_ok :: "realloc_fn \<Rightarrow> bool" where
  "realloc_ok ra \<longleftrightarrow> (\<forall>p n q. ra p n = Some q \<longrightarrow>
     length q = n \<and> (case p of None \<Rightarrow> True | Some b \<Rightarrow> take (length b) q = take n b))"

definition realloc_total :: "realloc_fn \<Rightarrow> bool" where
  "realloc_total ra \<longleftrightarrow> realloc_ok ra \<and> (\<forall>p n. ra p n \<noteq> None)"

definition realloc_bytes :: "nat \<Rightarrow> block \<Rightarrow> block" where
  "realloc_bytes n b = take n b @ replicate (n - length b) 0"

definition realloc_zero :: realloc_fn where
  "realloc_zero p n = Some (realloc_bytes n (case p of None \<Rightarrow> [] | Some b \<Rightarrow> b))"
definition zcrt_realloc :: "realloc_fn \<Rightarrow> block option \<Rightarrow> u32 \<Rightarrow> u32 \<Rightarrow> block option" where
  "zcrt_realloc ra p n tag = ra p (unat n)"

definition zcrt_malloc :: "bool \<Rightarrow> u32 \<Rightarrow> u32 \<Rightarrow> block option" where
  "zcrt_malloc ok n tag = (if ok then Some (replicate (unat n) 0) else None)"

section \<open>Operations\<close>

definition zcrt_buf_init :: "bool \<Rightarrow> zbufp \<Rightarrow> u32 \<Rightarrow> u32 \<Rightarrow> zbufp" where
  "zcrt_buf_init mok v len memtag = (case v of None \<Rightarrow> None | Some _ \<Rightarrow>
     let b = zbuf_zero\<lparr>zb_tag := memtag\<rparr> in
     Some (if len \<noteq> 0 then b\<lparr>zb_buf := zcrt_malloc mok len memtag, zb_maxlen := len\<rparr> else b))"

definition zcrt_buf_destory :: "zbufp \<Rightarrow> zbufp" where
  "zcrt_buf_destory v = (case v of None \<Rightarrow> None | Some b \<Rightarrow>
     (case zb_buf b of None \<Rightarrow> Some b | Some _ \<Rightarrow> Some zbuf_zero))"

text \<open>\<^verbatim>\<open>while (cap <= len + 1) cap *= 2;\<close> on 32-bit values; no result when it never ends.\<close>

partial_function (option) cap_loop :: "u32 \<Rightarrow> u32 \<Rightarrow> u32 option" where
  "cap_loop len cap = (if cap \<le> len + 1 then cap_loop len (cap * 2) else Some cap)"

definition zcrt_buf_realloc :: "realloc_fn \<Rightarrow> zbufp \<Rightarrow> u32 \<Rightarrow> (u32 \<times> zbufp) res" where
  "zcrt_buf_realloc ra v len = (case v of None \<Rightarrow> Inr (0, None) | Some b \<Rightarrow>
     if len = 0 then Inr (0, Some b)
     else if zb_maxlen b < len then
       rbind (returned (cap_loop len 1)) (\<lambda>cap.
         Inr (len, Some (b\<lparr>zb_buf := zcrt_realloc ra (zb_buf b) cap (zb_tag b), zb_maxlen := len\<rparr>)))
     else Inr (len, Some b))"

definition zcrt_buf_append :: "realloc_fn \<Rightarrow> zbufp \<Rightarrow> bptr \<Rightarrow> u32 \<Rightarrow> (u32 \<times> zbufp) res" where
  "zcrt_buf_append ra v src len = (case v of None \<Rightarrow> Inr (0, None) | Some b \<Rightarrow>
     if src = null_ptr \<or> len = 0 then Inr (0, Some b)
     else let newlen = zb_len b + len in
       rbind (zcrt_buf_realloc ra (Some b) newlen) (\<lambda>(_, v1).
       rbind (deref v1) (\<lambda>b1.
       rbind (load_n src (unat len)) (\<lambda>bytes.
       rbind (store (zb_buf b1) (unat (zb_len b1)) bytes) (\<lambda>blk.
         Inr (len, Some (b1\<lparr>zb_buf := Some blk, zb_len := newlen\<rparr>)))))))"

definition zcrt_buf_get :: "zbufp \<Rightarrow> u32 \<Rightarrow> bptr \<times> zbufp" where
  "zcrt_buf_get v len = (case v of None \<Rightarrow> (null_ptr, None) | Some b \<Rightarrow>
     if len = 0 then (null_ptr, Some b)
     else let off = zb_offset b in
       if off + len > zb_len b then (null_ptr, Some b)
       else (padd (zb_buf b, 0) (unat off), Some (b\<lparr>zb_offset := zb_offset b + len\<rparr>)))"

definition zcrt_buf_clear :: "zbufp \<Rightarrow> zbufp" where
  "zcrt_buf_clear v = map_option (\<lambda>b. b\<lparr>zb_len := 0, zb_offset := 0, zb_next := None\<rparr>) v"

text \<open>
  \<^verbatim>\<open>zstr_t\<close> of \<^verbatim>\<open>zcrt/ztype.h\<close>: a length and a pointer, here into the block of the
  buffer the string was read from. \<^verbatim>\<open>zcrt_buf_getstr\<close> follows its buffer pointer without a
  check.
\<close>

record zstr =
  zs_len :: u32
  zs_ptr :: bptr

definition zcrt_buf_getstr :: "zbufp \<Rightarrow> u32 \<Rightarrow> (bool \<times> zstr \<times> zbufp) res" where
  "zcrt_buf_getstr v len = rbind (deref v) (\<lambda>b.
     let str = \<lparr>zs_len = len, zs_ptr = padd (zb_buf b, 0) (unat (zb_offset b))\<rparr>;
         b1 = b\<lparr>zb_offset := zb_offset b + len\<rparr>
     in if zb_offset b1 > zb_len b1
        then Inr (False, \<lparr>zs_len = 0, zs_ptr = null_ptr\<rparr>, Some (b1\<lparr>zb_offset := zb_len b1\<rparr>))
        else Inr (True, str, Some b1))"

section \<open>Invariant and abstraction\<close>

text \<open>
  A buffer is well formed when the bytes in use lie within \<^verbatim>\<open>maxlen\<close> and \<^verbatim>\<open>maxlen\<close> lies
  within the block. Its contents are the first \<^verbatim>\<open>len\<close> bytes of the block.
\<close>

definition cap_of :: "block option \<Rightarrow> nat" where
  "cap_of p = (case p of None \<Rightarrow> 0 | Some b \<Rightarrow> length b)"

definition buf_wf :: "zbuf \<Rightarrow> bool" where
  "buf_wf b \<longleftrightarrow> unat (zb_maxlen b) \<le> cap_of (zb_buf b) \<and> zb_len b \<le> zb_maxlen b"

definition contents :: "zbuf \<Rightarrow> u8 list" where
  "contents b = take (unat (zb_len b)) (case zb_buf b of None \<Rightarrow> [] | Some blk \<Rightarrow> blk)"

lemma cap_of_simps [simp]: "cap_of None = 0" "cap_of (Some b) = length b"
  by (simp_all add: cap_of_def)

lemma buf_wf_len_cap: "buf_wf b \<Longrightarrow> unat (zb_len b) \<le> cap_of (zb_buf b)"
  by (auto simp: buf_wf_def word_le_nat_alt)

lemma length_contents: "buf_wf b \<Longrightarrow> length (contents b) = unat (zb_len b)"
  using buf_wf_len_cap [of b] by (auto simp: contents_def cap_of_def split: option.splits)

section \<open>The capacity loop\<close>

text \<open>Once the doubling has wrapped to 0 it stays there, and the loop has no result.\<close>

lemma cap_loop_zero: "cap_loop len 0 = None"
proof (rule ccontr)
  assume "cap_loop len 0 \<noteq> None"
  then obtain r where r: "cap_loop len 0 = Some r" by auto
  have "(0::u32) \<noteq> 0"
  proof (rule cap_loop.raw_induct [where P = "\<lambda>l c r. c \<noteq> 0", OF _ r])
    fix f l c r
    assume IH: "\<And>l c r. f l c = Some r \<Longrightarrow> c \<noteq> (0::u32)"
      and eq: "(if c \<le> l + 1 then f l (c * 2) else Some c) = Some r"
    show "c \<noteq> 0"
    proof
      assume "c = 0"
      with eq have "f l (0 * 2) = Some r" by simp
      then show False using IH by fastforce
    qed
  qed
  then show False by simp
qed

lemma cap_loop_grows:
  assumes "unat (len + 1) < 2 ^ 31" "k \<le> 31"
  shows "\<exists>j. k \<le> j \<and> j \<le> 31 \<and> cap_loop len (2 ^ k) = Some (2 ^ j) \<and> unat (len + 1) < 2 ^ j \<and>
    (j = k \<or> 2 ^ (j - 1) \<le> unat (len + 1))"
  using assms(2)
proof (induction k rule: inc_induct)
  case base
  have "\<not> (2::u32) ^ 31 \<le> len + 1"
    using assms(1) unat_pow2 [of 31, where ?'a = 32] by (simp add: word_le_nat_alt)
  then have "cap_loop len (2 ^ 31) = Some (2 ^ 31)" by (subst cap_loop.simps) simp
  with assms(1) show ?case by auto
next
  case (step k)
  have u: "unat ((2::u32) ^ k) = 2 ^ k" using step.hyps by (intro unat_pow2) simp
  show ?case
  proof (cases "2 ^ k \<le> unat (len + 1)")
    case True
    then have "(2::u32) ^ k \<le> len + 1" using u by (simp add: word_le_nat_alt)
    then have "cap_loop len (2 ^ k) = cap_loop len (2 ^ Suc k)"
      by (subst cap_loop.simps) (simp add: mult.commute)
    moreover obtain j where "Suc k \<le> j" "j \<le> 31" "cap_loop len (2 ^ Suc k) = Some (2 ^ j)"
      "unat (len + 1) < 2 ^ j" "j = Suc k \<or> 2 ^ (j - 1) \<le> unat (len + 1)"
      using step.IH by auto
    ultimately show ?thesis using True by (intro exI [of _ j]) auto
  next
    case False
    then have "\<not> (2::u32) ^ k \<le> len + 1" using u by (simp add: word_le_nat_alt)
    then have "cap_loop len (2 ^ k) = Some (2 ^ k)" by (subst cap_loop.simps) simp
    with False step.hyps show ?thesis by auto
  qed
qed

lemma cap_loop_stuck:
  assumes "2 ^ 31 \<le> unat (len + 1)" "k \<le> 32"
  shows "cap_loop len (2 ^ k) = None"
  using assms(2)
proof (induction k rule: inc_induct)
  case base
  have "(2::u32) ^ 32 = 0" by simp
  then show ?case using cap_loop_zero by metis
next
  case (step k)
  have "(2::nat) ^ k \<le> 2 ^ 31" using step.hyps by (intro power_increasing) auto
  then have "unat ((2::u32) ^ k) \<le> unat (len + 1)"
    using step.hyps assms(1) unat_pow2 [of k, where ?'a = 32] by (simp add: le_trans)
  then have "cap_loop len (2 ^ k) = cap_loop len (2 ^ Suc k)"
    by (subst cap_loop.simps) (simp add: mult.commute word_le_nat_alt)
  with step.IH show ?case by simp
qed

lemma cap_loop_returns:
  "cap_loop len 1 \<noteq> None \<longleftrightarrow> unat len + 1 < 2 ^ 31 \<or> len = 0xFFFFFFFF"
proof (cases "unat (len + 1) < 2 ^ 31")
  case True
  then have "cap_loop len 1 \<noteq> None" using cap_loop_grows [of len 0] by auto
  with True show ?thesis by (simp add: unat_succ_u32 split: if_splits)
next
  case False
  then have "cap_loop len 1 = None" using cap_loop_stuck [of len 0] by simp
  with False show ?thesis by (simp add: unat_succ_u32 split: if_splits)
qed

lemma cap_loop_size:
  assumes "cap_loop len 1 = Some cap" "len \<noteq> 0xFFFFFFFF"
  shows "unat len + 1 < unat cap \<and> unat cap \<le> 2 * unat len + 2"
proof -
  from assms cap_loop_returns [of len] have "unat (len + 1) < 2 ^ 31"
    by (auto simp: unat_succ_u32)
  then obtain j where j: "j \<le> 31" "cap_loop len 1 = Some (2 ^ j)" "unat (len + 1) < 2 ^ j"
    "j = 0 \<or> 2 ^ (j - 1) \<le> unat (len + 1)"
    using cap_loop_grows [of len 0] by auto
  moreover have "unat ((2::u32) ^ j) = 2 ^ j" using j(1) by (intro unat_pow2) simp
  ultimately show ?thesis
    using assms by (cases j) (auto simp: unat_succ_u32)
qed

section \<open>Growing and appending\<close>

definition same_stream :: "zbuf \<Rightarrow> zbuf \<Rightarrow> bool" where
  "same_stream b b' \<longleftrightarrow> contents b' = contents b \<and> zb_len b' = zb_len b \<and>
     zb_offset b' = zb_offset b \<and> zb_tag b' = zb_tag b \<and> zb_next b' = zb_next b"

lemma same_stream_refl [simp]: "same_stream b b"
  by (simp add: same_stream_def)

lemma realloc_ok_length: "realloc_ok ra \<Longrightarrow> ra p n = Some q \<Longrightarrow> length q = n"
  by (auto simp: realloc_ok_def)

lemma realloc_ok_take:
  assumes "realloc_ok ra" "ra (Some b) n = Some q" "k \<le> length b" "k \<le> n"
  shows "take k q = take k b"
proof -
  from assms(1,2) have "case Some b of None \<Rightarrow> True | Some b \<Rightarrow> take (length b) q = take n b"
    unfolding realloc_ok_def by blast
  then have "take (length b) q = take n b" by simp
  then have "take k (take (length b) q) = take k (take n b)" by (rule arg_cong)
  with assms(3,4) show ?thesis by (simp add: min_def)
qed

lemma realloc_total_ok: "realloc_total ra \<Longrightarrow> realloc_ok ra"
  by (simp add: realloc_total_def)

lemma realloc_total_Some:
  assumes "realloc_total ra" obtains q where "ra p n = Some q" "length q = n"
  using assms realloc_ok_length unfolding realloc_total_def by blast

lemma realloc_zero_total: "realloc_total realloc_zero"
proof -
  have "length (realloc_bytes n b) = n" "take (length b) (realloc_bytes n b) = take n b" for n b
    by (cases "n \<le> length b"; simp add: realloc_bytes_def)+
  then show ?thesis
    by (auto simp: realloc_total_def realloc_ok_def realloc_zero_def split: option.splits)
qed

lemma regrown:
  assumes wf: "buf_wf b" and ok: "realloc_ok ra"
    and q: "ra (zb_buf b) n = Some q" and n: "unat m \<le> n" "zb_maxlen b < m"
  defines "b' \<equiv> b\<lparr>zb_buf := Some q, zb_maxlen := m\<rparr>"
  shows "buf_wf b' \<and> same_stream b b'"
proof -
  have len: "length q = n" using ok q by (rule realloc_ok_length)
  have le: "unat (zb_len b) \<le> n" "zb_len b \<le> m"
    using wf n by (auto simp: buf_wf_def word_le_nat_alt word_less_nat_alt)
  have "take (unat (zb_len b)) q = contents b"
  proof (cases "zb_buf b")
    case None
    with wf have "zb_len b = 0" by (auto simp: buf_wf_def word_le_nat_alt unat_eq_0)
    with None show ?thesis by (simp add: contents_def)
  next
    case (Some blk)
    with buf_wf_len_cap [OF wf] realloc_ok_take [OF ok, of blk n q] q le(1) show ?thesis
      by (simp add: contents_def)
  qed
  then show ?thesis
    using len n(1) le(2) by (simp add: b'_def buf_wf_def same_stream_def contents_def)
qed

lemma realloc_grow:
  assumes wf: "buf_wf b" and ra: "realloc_total ra" and n: "unat n + 1 < 2 ^ 31"
  obtains b' where "zcrt_buf_realloc ra (Some b) n = Inr (n, Some b')"
    "buf_wf b'" "n \<le> zb_maxlen b'" "same_stream b b'"
proof (cases "n \<noteq> 0 \<and> zb_maxlen b < n")
  case False
  then have "zcrt_buf_realloc ra (Some b) n = Inr (n, Some b)" "n \<le> zb_maxlen b"
    by (auto simp: zcrt_buf_realloc_def)
  with wf that show ?thesis by simp
next
  case True
  obtain cap where cap: "cap_loop n 1 = Some cap" using n cap_loop_returns by auto
  obtain q where q: "ra (zb_buf b) (unat cap) = Some q" using ra by (rule realloc_total_Some)
  have "n \<noteq> 0xFFFFFFFF" using n by auto
  then have "unat n \<le> unat cap" using cap_loop_size [OF cap] by simp
  with regrown [OF wf realloc_total_ok [OF ra] q] True
  have "buf_wf (b\<lparr>zb_buf := Some q, zb_maxlen := n\<rparr>)"
    "same_stream b (b\<lparr>zb_buf := Some q, zb_maxlen := n\<rparr>)" by auto
  with True cap q that show ?thesis by (simp add: zcrt_buf_realloc_def zcrt_realloc_def)
qed

lemma load_n_length: "load_n p n = Inr bs \<Longrightarrow> length bs = n"
  by (auto simp: load_n_def rbind_eq_Inr split: if_splits)

lemma store_at_len:
  assumes wf: "buf_wf b" and fit: "unat (zb_len b) + length bs \<le> unat (zb_maxlen b)"
    and ne: "bs \<noteq> []"
  obtains blk where "store (zb_buf b) (unat (zb_len b)) bs = Inr blk"
    "length blk = cap_of (zb_buf b)" "take (unat (zb_len b) + length bs) blk = contents b @ bs"
proof (cases "zb_buf b")
  case None
  with wf fit ne show ?thesis by (simp add: buf_wf_def)
next
  case (Some blk)
  with wf fit have fit': "unat (zb_len b) + length bs \<le> length blk" by (simp add: buf_wf_def)
  let ?blk = "take (unat (zb_len b)) blk @ bs @ drop (unat (zb_len b) + length bs) blk"
  have "store (zb_buf b) (unat (zb_len b)) bs = Inr ?blk" using Some fit' by (simp add: zcrt_mem)
  moreover have "length ?blk = cap_of (zb_buf b)" using Some fit' by simp
  moreover have "take (unat (zb_len b) + length bs) ?blk = contents b @ bs"
    using Some fit' by (simp add: contents_def)
  ultimately show ?thesis by (rule that)
qed

text \<open>Writing bytes at the end of a buffer with room: the step every writer shares.\<close>

lemma write_end:
  assumes wf: "buf_wf b" and fit: "unat (zb_len b) + length bs \<le> unat (zb_maxlen b)"
    and ne: "bs \<noteq> []" and n: "n = zb_len b + of_nat (length bs)"
  obtains blk where "store (zb_buf b) (unat (zb_len b)) bs = Inr blk"
    "buf_wf (b\<lparr>zb_buf := Some blk, zb_len := n\<rparr>)"
    "contents (b\<lparr>zb_buf := Some blk, zb_len := n\<rparr>) = contents b @ bs"
    "unat n = unat (zb_len b) + length bs"
proof -
  obtain blk where blk: "store (zb_buf b) (unat (zb_len b)) bs = Inr blk"
    "length blk = cap_of (zb_buf b)" "take (unat (zb_len b) + length bs) blk = contents b @ bs"
    using wf fit ne by (rule store_at_len)
  have "unat (zb_len b) + length bs < 4294967296" using fit u32_bound [of "zb_maxlen b"] by linarith
  then have un: "unat n = unat (zb_len b) + length bs"
    by (simp add: n unat_word_ariths unat_of_nat)
  show ?thesis
    by (rule that [OF blk(1)])
      (use wf fit blk un in \<open>auto simp: buf_wf_def contents_def word_le_nat_alt\<close>)
qed

lemma append_spec:
  assumes wf: "buf_wf b" and ra: "realloc_total ra" and src: "load_n src (unat n) = Inr bytes"
    and fit: "unat (zb_len b) + unat n + 1 < 2 ^ 31"
  obtains b' where "zcrt_buf_append ra (Some b) src n = Inr (n, Some b')" "buf_wf b'"
    "contents b' = contents b @ bytes" "unat (zb_len b') = unat (zb_len b) + unat n"
    "zb_offset b' = zb_offset b"
proof (cases "n = 0")
  case True
  with src that wf show ?thesis by (simp add: zcrt_buf_append_def load_n_def)
next
  case False
  have sum: "unat (zb_len b + n) = unat (zb_len b) + unat n" using fit by (simp add: wsimps)
  with fit have "unat (zb_len b + n) + 1 < 2 ^ 31" by simp
  then obtain b1 where b1: "zcrt_buf_realloc ra (Some b) (zb_len b + n) = Inr (zb_len b + n, Some b1)"
    "buf_wf b1" "zb_len b + n \<le> zb_maxlen b1" "same_stream b b1"
    using realloc_grow [OF wf ra] by blast
  have len: "length bytes = unat n" using src by (rule load_n_length)
  have s: "zb_len b1 = zb_len b" "contents b1 = contents b" "zb_offset b1 = zb_offset b"
    using b1(4) by (auto simp: same_stream_def)
  have "unat (zb_len b1) + length bytes \<le> unat (zb_maxlen b1)"
    using b1(3) sum len s(1) by (simp add: word_le_nat_alt)
  moreover have "bytes \<noteq> []" using False len by (auto simp: unat_eq_0)
  moreover have "zb_len b + n = zb_len b1 + of_nat (length bytes)" using len s(1) by simp
  ultimately obtain blk where blk: "store (zb_buf b1) (unat (zb_len b1)) bytes = Inr blk"
    "buf_wf (b1\<lparr>zb_buf := Some blk, zb_len := zb_len b + n\<rparr>)"
    "contents (b1\<lparr>zb_buf := Some blk, zb_len := zb_len b + n\<rparr>) = contents b1 @ bytes"
    using write_end [OF b1(2)] by metis
  have "src \<noteq> null_ptr" using src False by (auto simp: load_n_def unat_eq_0)
  with False b1(1) src blk(1)
  have "zcrt_buf_append ra (Some b) src n =
      Inr (n, Some (b1\<lparr>zb_buf := Some blk, zb_len := zb_len b + n\<rparr>))"
    by (simp add: zcrt_buf_append_def)
  then show ?thesis using that blk s sum by simp
qed


section \<open>Reading\<close>

lemma contents_Some:
  "zb_buf b = Some blk \<Longrightarrow> contents b = take (unat (zb_len b)) blk"
  by (simp add: contents_def)

lemma load_contents:
  assumes wf: "buf_wf b" and i: "i + k \<le> unat (zb_len b)"
  shows "load_n (zb_buf b, i) k = Inr (take k (drop i (contents b)))"
proof (cases "zb_buf b")
  case None
  with wf i have "k = 0" by (auto simp: buf_wf_def word_le_nat_alt)
  then show ?thesis by (simp add: load_n_def)
next
  case (Some blk)
  with wf i have "i + k \<le> length blk" using buf_wf_len_cap [OF wf] by simp
  with Some i show ?thesis by (simp add: load_n_def contents_def drop_take min_def)
qed

lemma buf_get_spec:
  assumes wf: "buf_wf b" and n: "n \<noteq> 0" and fit: "unat (zb_offset b) + unat n \<le> unat (zb_len b)"
  obtains b' p where "zcrt_buf_get (Some b) n = (p, Some b')"
    "load_n p (unat n) = Inr (take (unat n) (drop (unat (zb_offset b)) (contents b)))"
    "unat (zb_offset b') = unat (zb_offset b) + unat n" "b' = b\<lparr>zb_offset := zb_offset b'\<rparr>"
proof -
  have sum: "unat (zb_offset b + n) = unat (zb_offset b) + unat n"
    using fit u32_bound [of "zb_len b"] by (intro unat_add_u32_small) linarith
  then have "\<not> zb_len b < zb_offset b + n" using fit by (simp add: word_less_nat_alt)
  then have "zcrt_buf_get (Some b) n =
      ((zb_buf b, unat (zb_offset b)), Some (b\<lparr>zb_offset := zb_offset b + n\<rparr>))"
    using n by (simp add: zcrt_buf_get_def Let_def)
  then show ?thesis using that load_contents [OF wf fit] sum by simp
qed

lemma getstr_no_wrap:
  assumes wf: "buf_wf b" and nw: "unat (zb_offset b) + unat n < 2 ^ 32"
  shows "zcrt_buf_getstr (Some b) n =
    (if unat (zb_offset b) + unat n \<le> unat (zb_len b)
     then Inr (True, \<lparr>zs_len = n, zs_ptr = (zb_buf b, unat (zb_offset b))\<rparr>,
            Some (b\<lparr>zb_offset := zb_offset b + n\<rparr>))
     else Inr (False, \<lparr>zs_len = 0, zs_ptr = null_ptr\<rparr>, Some (b\<lparr>zb_offset := zb_len b\<rparr>)))"
proof -
  have "unat (zb_offset b + n) = unat (zb_offset b) + unat n"
    using nw by (intro unat_add_small) simp
  then show ?thesis by (auto simp: zcrt_buf_getstr_def Let_def word_less_nat_alt)
qed

text \<open>C38. The capacity loop of zcrt_buf_realloc ends for every request it has to grow for except
  those from 0x7FFFFFFF to 0xFFFFFFFE, where doubling a 32-bit capacity wraps to 0 and the loop
  never ends.\<close>

theorem buf_realloc_returns:
  "zcrt_buf_realloc ra (Some b) n = Inl NoReturn \<longleftrightarrow>
     zb_maxlen b < n \<and> 0x7FFFFFFF \<le> n \<and> n \<noteq> 0xFFFFFFFF"
proof -
  have "cap_loop n 1 = None \<longleftrightarrow> 0x7FFFFFFF \<le> n \<and> n \<noteq> 0xFFFFFFFF"
    using cap_loop_returns [of n] by (auto simp: word_le_nat_alt)
  then show ?thesis
    by (cases "cap_loop n 1") (auto simp: zcrt_buf_realloc_def)
qed

text \<open>With an allocator that does not fail, appending n bytes to a well-formed buffer succeeds,
  leaves the buffer well formed, adds exactly those bytes behind its contents and does not move the
  read offset.\<close>

theorem buf_append_contents:
  assumes "buf_wf b" "realloc_total ra" "load_n src (unat n) = Inr bytes"
    "unat (zb_len b) + unat n + 1 < 2 ^ 31"
  shows "\<exists>b'. zcrt_buf_append ra (Some b) src n = Inr (n, Some b') \<and> buf_wf b' \<and>
    contents b' = contents b @ bytes \<and> zb_offset b' = zb_offset b"
  using append_spec [OF assms] by metis

theorem buf_append_contents_witness:
  "\<exists>b'. zcrt_buf_append realloc_zero (Some zbuf_zero) (Some [7, 8, 9], 1) 2 = Inr (2, Some b') \<and>
    contents b' = [8, 9]"
proof -
  have wf: "buf_wf zbuf_zero" by (simp add: buf_wf_def zbuf_zero_def)
  have src: "load_n (Some [7, 8, 9], 1) (unat (2::u32)) = Inr [8, 9]" by (simp add: load_n_def)
  have "contents zbuf_zero = []" by (simp add: contents_def zbuf_zero_def)
  then show ?thesis
    using buf_append_contents [OF wf realloc_zero_total src] by (auto simp: zbuf_zero_def)
qed


lemma realloc_cases:
  assumes wf: "buf_wf b" and ra: "realloc_ok ra" and n: "n \<noteq> 0xFFFFFFFF"
    and r: "zcrt_buf_realloc ra (Some b) n = Inr (k, v')"
  obtains (kept) b' where "v' = Some b'" "buf_wf b'" "same_stream b b'" "n \<le> zb_maxlen b'"
  | (lost) b' cap where "v' = Some b'" "zb_buf b' = None" "ra (zb_buf b) cap = None"
proof (cases "n \<noteq> 0 \<and> zb_maxlen b < n")
  case False
  then have "zcrt_buf_realloc ra (Some b) n = Inr (n, Some b)" "n \<le> zb_maxlen b"
    by (auto simp: zcrt_buf_realloc_def)
  with r wf kept show ?thesis by auto
next
  case True
  with r obtain cap where cap: "cap_loop n 1 = Some cap"
    and v': "v' = Some (b\<lparr>zb_buf := ra (zb_buf b) (unat cap), zb_maxlen := n\<rparr>)"
    by (auto simp: zcrt_buf_realloc_def zcrt_realloc_def rbind_eq_Inr)
  show ?thesis
  proof (cases "ra (zb_buf b) (unat cap)")
    case None
    with v' lost True show ?thesis by simp
  next
    case (Some q)
    have "unat n \<le> unat cap" using cap_loop_size [OF cap n] by simp
    with regrown [OF wf ra Some] True v' Some kept show ?thesis by simp
  qed
qed

text \<open>Appending to a well-formed buffer from readable bytes never writes outside its block: the
  only faults are the null pointer left by a realloc that failed (the code does not test its result)
  and the endless capacity loop of a total of 0x7FFFFFFF bytes or more.\<close>

theorem buf_append_faults:
  assumes wf: "buf_wf b" and ra: "realloc_ok ra" and src: "load_n src (unat n) = Inr bytes"
    and nw: "unat (zb_len b) + unat n < 0xFFFFFFFF"
    and f: "zcrt_buf_append ra (Some b) src n = Inl e"
  shows "e = NullDeref \<and> (\<exists>p k. ra p k = None) \<or>
    e = NoReturn \<and> 0x7FFFFFFF \<le> unat (zb_len b) + unat n"
proof -
  let ?m = "zb_len b + n"
  have sum: "unat ?m = unat (zb_len b) + unat n" using nw by (intro unat_add_u32_small) linarith
  then have m: "?m \<noteq> 0xFFFFFFFF" using nw by auto
  have ne: "n \<noteq> 0" "src \<noteq> null_ptr" using f by (auto simp: zcrt_buf_append_def split: if_splits)
  show ?thesis
  proof (cases "zcrt_buf_realloc ra (Some b) ?m")
    case (Inl e')
    then have "e' = NoReturn" "cap_loop ?m 1 = None"
      by (auto simp: zcrt_buf_realloc_def rbind_eq_Inl returned_def split: if_splits option.splits)
    moreover have "e = e'" using f ne Inl by (simp add: zcrt_buf_append_def)
    ultimately show ?thesis using cap_loop_returns [of ?m] sum by auto
  next
    case (Inr kv)
    then obtain k v' where kv: "zcrt_buf_realloc ra (Some b) ?m = Inr (k, v')" by (cases kv) auto
    from wf ra m kv show ?thesis
    proof (cases rule: realloc_cases)
      case (kept b')
      have fit: "unat (zb_len b') + length bytes \<le> unat (zb_maxlen b')"
        using kept sum load_n_length [OF src] by (simp add: same_stream_def word_le_nat_alt)
      have "bytes \<noteq> []" using ne load_n_length [OF src] by (auto simp: unat_eq_0)
      with store_at_len [OF kept(2) fit] obtain blk
        where "store (zb_buf b') (unat (zb_len b')) bytes = Inr blk" by blast
      with f ne kv kept(1) src show ?thesis by (simp add: zcrt_buf_append_def)
    next
      case (lost b' cap)
      with f ne kv src have "e = NullDeref" by (simp add: zcrt_buf_append_def store_def)
      moreover have "\<exists>p k. ra p k = None"
        using lost(3) by blast
      ultimately show ?thesis by simp
    qed
  qed
qed

theorem buf_append_faults_witness:
  "zcrt_buf_append (\<lambda>_ _. None) (Some zbuf_zero) (Some [7], 0) 1 = Inl NullDeref \<and>
   (NullDeref = NullDeref \<and> (\<exists>p k. (\<lambda>_ _. None :: block option) p (k::nat) = (None :: block option)) \<or>
    NullDeref = NoReturn \<and> 0x7FFFFFFF \<le> unat (zb_len zbuf_zero) + unat (1::u32))"
proof -
  let ?ra = "\<lambda>(_::block option) (_::nat). None :: block option"
  have wf: "buf_wf zbuf_zero" by (simp add: buf_wf_def zbuf_zero_def)
  have ra: "realloc_ok ?ra" by (simp add: realloc_ok_def)
  have src: "load_n (Some [7::u8], 0) (unat (1::u32)) = Inr [7]" by (simp add: load_n_def)
  have nw: "unat (zb_len zbuf_zero) + unat (1::u32) < 0xFFFFFFFF" by (simp add: zbuf_zero_def)
  have "cap_loop 1 1 = Some 4" by (simp add: cap_loop.simps)
  then have f: "zcrt_buf_append ?ra (Some zbuf_zero) (Some [7], 0) 1 = Inl NullDeref"
    by (simp add: zcrt_buf_append_def zcrt_buf_realloc_def zbuf_zero_def zcrt_realloc_def load_n_def store_def)
  from buf_append_faults [OF wf ra src nw f] f show ?thesis by blast
qed

text \<open>What zcrt_buf_append puts behind everything already read, the next zcrt_buf_get of the same
  length hands back byte for byte.\<close>

theorem buf_append_get_roundtrip:
  assumes wf: "buf_wf b" and ra: "realloc_total ra" and n: "n \<noteq> 0"
    and src: "load_n src (unat n) = Inr bytes" and fit: "unat (zb_len b) + unat n + 1 < 2 ^ 31"
    and off: "zb_offset b = zb_len b"
  shows "\<exists>b1 b2 p. zcrt_buf_append ra (Some b) src n = Inr (n, Some b1) \<and>
    zcrt_buf_get (Some b1) n = (p, Some b2) \<and> load_n p (unat n) = Inr bytes \<and>
    zb_offset b2 = zb_len b1"
proof -
  obtain b1 where b1: "zcrt_buf_append ra (Some b) src n = Inr (n, Some b1)" "buf_wf b1"
    "contents b1 = contents b @ bytes" "unat (zb_len b1) = unat (zb_len b) + unat n"
    "zb_offset b1 = zb_offset b"
    using append_spec [OF wf ra src fit] by metis
  have "unat (zb_offset b1) + unat n \<le> unat (zb_len b1)" using b1 off by simp
  then obtain b2 p where b2: "zcrt_buf_get (Some b1) n = (p, Some b2)"
    "load_n p (unat n) = Inr (take (unat n) (drop (unat (zb_offset b1)) (contents b1)))"
    "unat (zb_offset b2) = unat (zb_offset b1) + unat n"
    using buf_get_spec [OF b1(2) n] by metis
  have "take (unat n) (drop (unat (zb_offset b1)) (contents b1)) = bytes"
    using b1(3,5) off length_contents [OF wf] load_n_length [OF src] by simp
  moreover have "zb_offset b2 = zb_len b1" using b2(3) b1(4,5) off by (simp add: word_unat_eq_iff)
  ultimately show ?thesis using b1(1) b2(1,2) by metis
qed

theorem buf_append_get_roundtrip_witness:
  "\<exists>b1 b2 p. zcrt_buf_append realloc_zero (Some zbuf_zero) (Some [5, 6], 0) 2 = Inr (2, Some b1) \<and>
    zcrt_buf_get (Some b1) 2 = (p, Some b2) \<and> load_n p 2 = Inr [5, 6] \<and> zb_offset b2 = zb_len b1"
proof -
  have wf: "buf_wf zbuf_zero" by (simp add: buf_wf_def zbuf_zero_def)
  have src: "load_n (Some [5, 6], 0) (unat (2::u32)) = Inr [5, 6]" by (simp add: load_n_def)
  show ?thesis
    using buf_append_get_roundtrip [OF wf realloc_zero_total _ src] by (simp add: zbuf_zero_def)
qed

text \<open>While offset + len does not wrap, zcrt_buf_getstr accepts exactly the strings that lie
  within the used bytes of the buffer, and the pointer it hands out reads those bytes.\<close>

theorem getstr_in_bounds:
  assumes "buf_wf b" "unat (zb_offset b) + unat n < 2 ^ 32"
    "zcrt_buf_getstr (Some b) n = Inr (r, s, v')"
  shows "r = (unat (zb_offset b) + unat n \<le> unat (zb_len b)) \<and>
    (r \<longrightarrow> zs_len s = n \<and>
      load_n (zs_ptr s) (unat n) = Inr (take (unat n) (drop (unat (zb_offset b)) (contents b))))"
  using getstr_no_wrap [OF assms(1,2)] assms(3) load_contents [OF assms(1), of "unat (zb_offset b)" "unat n"]
  by (auto split: if_splits)

theorem getstr_in_bounds_witness:
  "load_n (Some [1, 2, 3], 1) (unat (2::u32)) = Inr [2, 3]"
proof -
  let ?b = "zbuf_zero\<lparr>zb_buf := Some [1, 2, 3], zb_maxlen := 3, zb_len := 3, zb_offset := 1\<rparr>"
  have 1: "buf_wf ?b" by (simp add: buf_wf_def zbuf_zero_def)
  have 2: "unat (zb_offset ?b) + unat (2::u32) < 2 ^ 32" by (simp add: zbuf_zero_def)
  have 3: "zcrt_buf_getstr (Some ?b) 2 =
      Inr (True, \<lparr>zs_len = 2, zs_ptr = (Some [1, 2, 3], 1)\<rparr>, Some (?b\<lparr>zb_offset := 3\<rparr>))"
    by (simp add: zcrt_buf_getstr_def zbuf_zero_def)
  from getstr_in_bounds [OF 1 2 3] show ?thesis by (simp add: contents_def zbuf_zero_def)
qed

text \<open>The bounds test of zcrt_buf_getstr is done after a 32-bit addition that can wrap: for any
  buffer whose read offset is not 0, the length 2^32 - offset is accepted, the string handed out is
  longer than the buffer can be, and the offset is set back to 0.\<close>

theorem getstr_wraps:
  assumes off: "0 < zb_offset b"
  shows "\<exists>s. zcrt_buf_getstr (Some b) (- zb_offset b) = Inr (True, s, Some (b\<lparr>zb_offset := 0\<rparr>)) \<and>
    unat (zs_len s) = 2 ^ 32 - unat (zb_offset b)"
proof -
  have "unat (0 - zb_offset b) = 2 ^ 32 - unat (zb_offset b)"
    using off by (subst unat_sub_if_size) (auto simp: word_size word_gt_0 unat_eq_0)
  then show ?thesis by (simp add: zcrt_buf_getstr_def)
qed

theorem getstr_wraps_witness:
  "\<exists>s. zcrt_buf_getstr (Some (zbuf_zero\<lparr>zb_buf := Some [1, 2], zb_maxlen := 2, zb_len := 2,
      zb_offset := 1\<rparr>)) (- 1) =
    Inr (True, s, Some (zbuf_zero\<lparr>zb_buf := Some [1, 2], zb_maxlen := 2, zb_len := 2\<rparr>)) \<and>
    unat (zs_len s) = 4294967295"
proof -
  let ?b = "zbuf_zero\<lparr>zb_buf := Some [1, 2], zb_maxlen := 2, zb_len := 2, zb_offset := 1\<rparr>"
  have "0 < zb_offset ?b" by simp
  from getstr_wraps [OF this] show ?thesis by (simp add: zbuf_zero_def)
qed

section \<open>Buffers the operations can make\<close>

text \<open>
  The buffers a program gets from \<^verbatim>\<open>zcrt_buf_init\<close> by any sequence of operations with any
  arguments that return, with whatever the allocator does. The flag says whether something has gone wrong since the
  buffer was made or destroyed: memory for it was refused, or it was made to hold 2^32 - 1 bytes, for which the
  capacity wraps to 1.
\<close>

inductive buf_reach :: "realloc_fn \<Rightarrow> bool \<Rightarrow> zbuf \<Rightarrow> bool" for ra where
  init: "zcrt_buf_init mok (Some b0) k tag = Some b \<Longrightarrow> buf_reach ra (k \<noteq> 0 \<and> \<not> mok) b"
| destory: "buf_reach ra t b \<Longrightarrow> zcrt_buf_destory (Some b) = Some b1 \<Longrightarrow> buf_reach ra (t \<and> zb_buf b = None) b1"
| append: "buf_reach ra t b \<Longrightarrow> zcrt_buf_append ra (Some b) src n = Inr (r, Some b1) \<Longrightarrow> buf_reach ra t b1"
| get: "buf_reach ra t b \<Longrightarrow> zcrt_buf_get (Some b) n = (p, Some b1) \<Longrightarrow> buf_reach ra t b1"
| regrow: "buf_reach ra t b \<Longrightarrow> zcrt_buf_realloc ra (Some b) n = Inr (r, Some b1) \<Longrightarrow>
    buf_reach ra (t \<or> zb_maxlen b < n \<and> (zb_buf b1 = None \<or> n = 0xFFFFFFFF)) b1"
| getstr: "buf_reach ra t b \<Longrightarrow> zcrt_buf_getstr (Some b) n = Inr (ok, s, Some b1) \<Longrightarrow> buf_reach ra t b1"
| clear: "buf_reach ra t b \<Longrightarrow> zcrt_buf_clear (Some b) = Some b1 \<Longrightarrow> buf_reach ra t b1"

definition buf_inv :: "zbuf \<Rightarrow> bool" where
  "buf_inv b \<longleftrightarrow> zb_offset b \<le> zb_len b \<and> zb_len b \<le> zb_maxlen b \<and> (case zb_buf b of None \<Rightarrow> True | Some blk \<Rightarrow>
     length blk < 2 ^ 32 \<and> (unat (zb_maxlen b) \<le> length blk \<or> zb_maxlen b = 0xFFFFFFFF \<and> length blk = 1))"

text \<open>What growing leaves, if it returns.\<close>

lemma realloc_result:
  assumes ra: "realloc_ok ra" and r: "zcrt_buf_realloc ra (Some b) n = Inr (k, Some b1)"
  shows "b1 = b \<and> n \<le> zb_maxlen b \<or>
    (\<exists>p. b1 = b\<lparr>zb_buf := p, zb_maxlen := n\<rparr> \<and> zb_maxlen b < n \<and>
      (\<forall>q. p = Some q \<longrightarrow> length q < 2 ^ 32 \<and> (unat n \<le> length q \<or> n = 0xFFFFFFFF \<and> length q = 1)))"
proof (cases "n \<noteq> 0 \<and> zb_maxlen b < n")
  case False
  then show ?thesis using r by (auto simp: zcrt_buf_realloc_def split: if_splits)
next
  case True
  with r obtain cap where cap: "cap_loop n 1 = Some cap"
    and b1: "b1 = b\<lparr>zb_buf := ra (zb_buf b) (unat cap), zb_maxlen := n\<rparr>"
    by (auto simp: zcrt_buf_realloc_def zcrt_realloc_def rbind_eq_Inr)
  have "length q < 2 ^ 32 \<and> (unat n \<le> length q \<or> n = 0xFFFFFFFF \<and> length q = 1)" if "ra (zb_buf b) (unat cap) = Some q" for q
  proof (cases "n = 0xFFFFFFFF")
    case True
    have "cap_loop (- 1) 1 = Some 1" by (subst cap_loop.simps) (simp add: word_le_nat_alt)
    moreover have "n = - 1" using True by simp
    ultimately have "cap = 1" using cap by simp
    then show ?thesis using True realloc_ok_length [OF ra that] by simp
  next
    case False
    then show ?thesis using cap_loop_size [OF cap] realloc_ok_length [OF ra that] u32_bound [of cap] by simp
  qed
  then show ?thesis using b1 True by blast
qed

lemma buf_inv_regrow:
  assumes ra: "realloc_ok ra" and inv: "buf_inv b" and r: "zcrt_buf_realloc ra (Some b) n = Inr (k, Some b1)"
  shows "buf_inv b1" "buf_wf b \<Longrightarrow> \<not> (zb_maxlen b < n \<and> (zb_buf b1 = None \<or> n = 0xFFFFFFFF)) \<Longrightarrow> buf_wf b1"
    "zb_len b1 = zb_len b" "zb_offset b1 = zb_offset b" "n \<le> zb_maxlen b1" "zb_maxlen b \<le> zb_maxlen b1"
    "b1 = b \<or> zb_maxlen b1 = n"
  using realloc_result [OF ra r] inv
  by (auto simp: buf_inv_def buf_wf_def cap_of_def split: option.splits)

text \<open>Appending returns only when all bytes fit the block, so the sum of the lengths has not wrapped.\<close>

lemma buf_inv_append:
  assumes ra: "realloc_ok ra" and inv: "buf_inv b" and a: "zcrt_buf_append ra (Some b) src n = Inr (r, Some b1)"
  shows "buf_inv b1 \<and> (buf_wf b \<longrightarrow> buf_wf b1)"
proof (cases "src = null_ptr \<or> n = 0")
  case True
  then show ?thesis using a inv by (auto simp: zcrt_buf_append_def)
next
  case False
  let ?m = "zb_len b + n"
  obtain v b0 bytes blk where s: "zcrt_buf_realloc ra (Some b) ?m = Inr (v, Some b0)" "load_n src (unat n) = Inr bytes"
    "store (zb_buf b0) (unat (zb_len b0)) bytes = Inr blk" "b1 = b0\<lparr>zb_buf := Some blk, zb_len := ?m\<rparr>"
    using a False by (auto simp: zcrt_buf_append_def Let_def rbind_eq_Inr)
  note g = buf_inv_regrow [OF ra inv s(1)]
  have nb: "0 < unat n" using False by (simp add: unat_gt_0)
  obtain old where old: "zb_buf b0 = Some old" "unat (zb_len b) + unat n \<le> length old" "length blk = length old"
    using s(3) load_n_length [OF s(2)] g(3) by (auto simp: store_def rbind_eq_Inr deref_def split: if_splits option.splits)
  have lt: "length old < 2 ^ 32" using g(1) old(1) by (simp add: buf_inv_def)
  then have m: "unat ?m = unat (zb_len b) + unat n" using old(2) by (intro unat_add_u32_small) simp
  have off: "zb_offset b \<le> ?m" using inv m by (auto simp: buf_inv_def word_le_nat_alt)
  have le: "unat ?m \<le> length blk" "length blk < 2 ^ 32" using old lt m by simp_all
  from realloc_result [OF ra s(1)] show ?thesis
  proof (elim disjE exE conjE)
    assume "b0 = b" "?m \<le> zb_maxlen b"
    then show ?thesis using inv old off le s(4) by (auto simp: buf_inv_def buf_wf_def)
  next
    fix p assume "b0 = b\<lparr>zb_buf := p, zb_maxlen := ?m\<rparr>" "zb_maxlen b < ?m"
    then show ?thesis using inv off le s(4) by (auto simp: buf_inv_def buf_wf_def)
  qed
qed

text \<open>C37. After any sequence of zcrt_buf_init, zcrt_buf_destory, zcrt_buf_append, zcrt_buf_get, zcrt_buf_realloc, zcrt_buf_getstr and
  zcrt_buf_clear that return, whatever their arguments and whether the allocator succeeds or not, the read offset lies within the
  bytes in use, those within maxlen, and if the buffer has a block at all, maxlen lies within the block, but for a block of one
  byte that was to have 2^32 - 1. Unless memory was refused or so many bytes were asked for, the block is there and the buffer
  is well formed.\<close>

theorem buf_reach_wf:
  assumes "realloc_ok ra" "buf_reach ra trouble b"
  shows "zb_offset b \<le> zb_len b \<and> zb_len b \<le> zb_maxlen b \<and>
    (\<forall>blk. zb_buf b = Some blk \<longrightarrow> length blk < 2 ^ 32 \<and>
      (unat (zb_maxlen b) \<le> length blk \<or> zb_maxlen b = 0xFFFFFFFF \<and> length blk = 1)) \<and>
    (\<not> trouble \<longrightarrow> buf_wf b)"
proof -
  have "buf_inv b \<and> (\<not> trouble \<longrightarrow> buf_wf b)"
    using assms(2)
  proof (induction rule: buf_reach.induct)
    case (init mok b0 k tag b)
    then show ?case using u32_bound [of k]
      by (cases "k = 0"; cases mok) (auto simp: zcrt_buf_init_def Let_def zbuf_zero_def zcrt_malloc_def buf_wf_def buf_inv_def)
  next
    case (destory t b b1)
    then show ?case by (cases "zb_buf b") (auto simp: zcrt_buf_destory_def zbuf_zero_def buf_wf_def buf_inv_def)
  next
    case (append t b src n r b1)
    then show ?case using buf_inv_append [OF assms(1)] by blast
  next
    case (get t b n p b1)
    then show ?case by (auto simp: zcrt_buf_get_def Let_def buf_wf_def buf_inv_def split: if_splits option.splits)
  next
    case (regrow t b n r b1)
    then show ?case using buf_inv_regrow(1,2) [OF assms(1) _ regrow.hyps(2)] by blast
  next
    case (getstr t b n ok s b1)
    then show ?case by (auto simp: zcrt_buf_getstr_def Let_def buf_wf_def buf_inv_def split: if_splits option.splits)
  next
    case (clear t b b1)
    then show ?case by (auto simp: zcrt_buf_clear_def buf_wf_def buf_inv_def split: option.splits)
  qed
  then show ?thesis by (auto simp: buf_inv_def)
qed

text \<open>What the flag stands for: after a refused allocation maxlen speaks of memory that is not there, and 2^32 - 1
  bytes are asked for as one.\<close>

lemma refused_init: "zcrt_buf_init False (Some b0) 8 tag = Some (zbuf_zero\<lparr>zb_tag := tag, zb_maxlen := 8\<rparr>)"
  by (simp add: zcrt_buf_init_def zcrt_malloc_def zbuf_zero_def)

lemma realloc_wraps: "zcrt_buf_realloc realloc_zero (Some zbuf_zero) (- 1) = Inr (- 1, Some (zbuf_zero\<lparr>zb_buf := Some [0], zb_maxlen := - 1\<rparr>))"
proof -
  have "cap_loop (- 1) 1 = Some 1" by (subst cap_loop.simps) (simp add: word_le_nat_alt)
  then show ?thesis
    by (simp add: zcrt_buf_realloc_def zbuf_zero_def zcrt_realloc_def realloc_zero_def realloc_bytes_def returned_def word_gt_0)
qed

text \<open>A buffer whose memory was refused and that has grown afterwards is well formed again.\<close>

theorem buf_reach_wf_witness:
  "\<exists>b b1 blk. zcrt_buf_init False (Some zbuf_zero) 8 0 = Some b \<and> zcrt_buf_realloc realloc_zero (Some b) 9 = Inr (9, Some b1) \<and>
    zb_buf b1 = Some blk \<and> 9 \<le> length blk"
proof -
  let ?b = "zbuf_zero\<lparr>zb_maxlen := 8\<rparr>"
  have b: "zcrt_buf_init False (Some zbuf_zero) 8 0 = Some ?b" using refused_init [of zbuf_zero 0] by (simp add: zbuf_zero_def)
  have c: "cap_loop 9 1 = Some 16" by (simp add: cap_loop.simps)
  obtain b1 blk where b1: "zcrt_buf_realloc realloc_zero (Some ?b) 9 = Inr (9, Some b1)" "zb_buf b1 = Some blk" "zb_maxlen b1 = 9"
    using c by (simp add: zcrt_buf_realloc_def zbuf_zero_def zcrt_realloc_def realloc_zero_def returned_def)
  have "buf_reach realloc_zero True b1"
    using buf_reach.regrow [OF buf_reach.init [OF b] b1(1)] by simp
  from buf_reach_wf [OF realloc_total_ok [OF realloc_zero_total] this] b1(2,3) have "9 \<le> length blk" by simp
  then show ?thesis using b b1 by blast
qed

end
