(* ===== verification/Zcrt_Str.thy ===== *)
theory Zcrt_Str
  imports Zcrt_Buf
begin

text \<open>
  The counted strings of \<^verbatim>\<open>zcrtlib/zstr.c\<close> and the C string functions the runtime calls on
  byte pointers. A string is a length and a pointer; the bytes it stands for are those the pointer
  reads.
\<close>

section \<open>C strings\<close>

definition strlen_c :: "bptr \<Rightarrow> nat res" where
  "strlen_c p = rbind (deref (fst p)) (\<lambda>blk. let s = drop (snd p) blk in
     if 0 \<in> set s then Inr (length (takeWhile (\<lambda>c. c \<noteq> 0) s)) else Inl OutOfBounds)"

fun strncmp_list :: "u8 list \<Rightarrow> u8 list \<Rightarrow> nat \<Rightarrow> int res" where
  "strncmp_list s t 0 = Inr 0"
| "strncmp_list (a # s) (b # t) (Suc n) =
     (if a \<noteq> b then Inr (uint a - uint b) else if a = 0 then Inr 0 else strncmp_list s t n)"
| "strncmp_list s t (Suc n) = Inl OutOfBounds"

definition strncmp_c :: "bptr \<Rightarrow> bptr \<Rightarrow> nat \<Rightarrow> int res" where
  "strncmp_c p q n = (if n = 0 then Inr 0 else
     rbind (deref (fst p)) (\<lambda>s. rbind (deref (fst q)) (\<lambda>t.
       strncmp_list (drop (snd p) s) (drop (snd q) t) n)))"

text \<open>A string literal of the source: its characters and the final NUL.\<close>

definition str_u8 :: "string \<Rightarrow> u8 list" where
  "str_u8 s = map (\<lambda>c. of_nat (of_char c)) s"

definition cstr :: "u8 list \<Rightarrow> bptr" where
  "cstr bs = (Some (bs @ [0]), 0)"

section \<open>Operations\<close>

definition zstr_cmp :: "zstr \<Rightarrow> zstr \<Rightarrow> int res" where
  "zstr_cmp s1 s2 =
     (if zs_len s1 \<noteq> zs_len s2 then Inr (sint (zs_len s1 - zs_len s2))
      else strncmp_c (zs_ptr s1) (zs_ptr s2) (unat (zs_len s1)))"

definition zstr_buf_cmp :: "zstr \<Rightarrow> bptr \<Rightarrow> int res" where
  "zstr_buf_cmp s1 buf = rbind (strlen_c buf) (\<lambda>n. let len = (of_nat n :: u32) in
     if zs_len s1 \<noteq> len then Inr (sint (zs_len s1 - len))
     else strncmp_c (zs_ptr s1) buf (unat (zs_len s1)))"

definition zstr_new_len :: "bool \<Rightarrow> bptr \<Rightarrow> u32 \<Rightarrow> zstr res" where
  "zstr_new_len mok buf len =
     rbind (deref (zcrt_malloc mok (len + 1) 0)) (\<lambda>blk.
     rbind (load_n buf (unat len)) (\<lambda>bytes.
     rbind (store (Some blk) 0 bytes) (\<lambda>blk'.
       Inr \<lparr>zs_len = len, zs_ptr = (Some blk', 0)\<rparr>)))"

definition zstr_new :: "bool \<Rightarrow> bptr \<Rightarrow> zstr res" where
  "zstr_new mok buf = rbind (strlen_c buf) (\<lambda>n. zstr_new_len mok buf (of_nat n))"

text \<open>\<^verbatim>\<open>zstr_delete\<close> hands its pointer to \<^verbatim>\<open>zcrt_free\<close>; the model returns the pointer freed.\<close>

definition zstr_delete :: "zstr option \<Rightarrow> bptr option" where
  "zstr_delete s1 = (case s1 of None \<Rightarrow> None
     | Some s \<Rightarrow> if zs_ptr s \<noteq> null_ptr then Some (zs_ptr s) else None)"

section \<open>Comparison\<close>

lemma uint_eq [simp]: "uint (a :: 'a::len word) = uint b \<longleftrightarrow> a = b"
  by (auto simp: word_uint_eq_iff)

lemma strncmp_list_eq:
  assumes "n \<le> length s" "n \<le> length t" "0 \<notin> set (take n t)"
  shows "\<exists>r. strncmp_list s t n = Inr r \<and> (r = 0 \<longleftrightarrow> take n s = take n t)"
  using assms by (induction s t n rule: strncmp_list.induct) auto

lemma load_n_Inr:
  "load_n p n = Inr bs \<Longrightarrow> n \<noteq> 0 \<Longrightarrow>
    \<exists>blk. fst p = Some blk \<and> n \<le> length (drop (snd p) blk) \<and> bs = take n (drop (snd p) blk)"
  by (auto simp: load_n_def rbind_eq_Inr split: if_splits)

lemma strncmp_c_eq:
  assumes s: "load_n p n = Inr s" and t: "load_n q n = Inr t" and nz: "0 \<notin> set t"
  shows "\<exists>r. strncmp_c p q n = Inr r \<and> (r = 0 \<longleftrightarrow> s = t)"
proof (cases "n = 0")
  case True
  with s t show ?thesis by (simp add: strncmp_c_def load_n_def)
next
  case False
  obtain b1 b2 where b: "fst p = Some b1" "n \<le> length (drop (snd p) b1)" "s = take n (drop (snd p) b1)"
    "fst q = Some b2" "n \<le> length (drop (snd q) b2)" "t = take n (drop (snd q) b2)"
    using load_n_Inr [OF s False] load_n_Inr [OF t False] by blast
  then show ?thesis
    using strncmp_list_eq [OF b(2,5)] nz False by (simp add: strncmp_c_def)
qed

lemma strlen_cstr: "0 \<notin> set name \<Longrightarrow> strlen_c (cstr name) = Inr (length name)"
proof -
  assume "0 \<notin> set name"
  then have "takeWhile (\<lambda>c. c \<noteq> 0) (name @ [0]) = name"
    by (subst takeWhile_append2) auto
  then show ?thesis by (simp add: strlen_c_def cstr_def)
qed

lemma load_cstr: "load_n (cstr name) (length name) = Inr name"
  by (simp add: load_n_def cstr_def)

lemma sint_diff_zero: "sint (a - b :: u32) = 0 \<longleftrightarrow> a = b"
  using signed_word_eqI [of "a - b" 0] by auto

lemma zstr_buf_cmp_name:
  assumes s: "load_n (zs_ptr s) (unat (zs_len s)) = Inr bs"
    and name: "0 \<notin> set name" "length name < 2 ^ 32"
  shows "\<exists>r. zstr_buf_cmp s (cstr name) = Inr r \<and> (r = 0 \<longleftrightarrow> bs = name)"
proof -
  have len: "length bs = unat (zs_len s)" using s by (rule load_n_length)
  have un: "unat (of_nat (length name) :: u32) = length name" using name by (simp add: unat_of_nat)
  show ?thesis
  proof (cases "zs_len s = of_nat (length name)")
    case False
    then have "length bs \<noteq> length name" using len un by (auto simp: word_unat_eq_iff)
    with False name show ?thesis
      by (auto simp: zstr_buf_cmp_def strlen_cstr sint_diff_zero)
  next
    case True
    then have n: "unat (zs_len s) = length name" using un by simp
    have "load_n (cstr name) (unat (zs_len s)) = Inr name" using n load_cstr by simp
    with strncmp_c_eq [OF s] name True show ?thesis
      by (simp add: zstr_buf_cmp_def strlen_cstr)
  qed
qed

text \<open>Comparing a counted string with a C string gives 0 exactly when the two hold the same
  bytes, whatever the counted string holds (embedded NULs included), and never reads outside either.\<close>

theorem zstr_buf_cmp_equal:
  assumes "load_n (zs_ptr s) (unat (zs_len s)) = Inr bs" "0 \<notin> set name" "length name < 2 ^ 32"
  shows "\<exists>r. zstr_buf_cmp s (cstr name) = Inr r \<and> (r = 0 \<longleftrightarrow> bs = name)"
  using assms by (rule zstr_buf_cmp_name)

theorem zstr_buf_cmp_equal_witness:
  "\<exists>r. zstr_buf_cmp \<lparr>zs_len = 2, zs_ptr = (Some [9, 115, 110], 1)\<rparr> (cstr (str_u8 ''sn'')) = Inr r \<and>
     (r = 0 \<longleftrightarrow> [115, 110] = str_u8 ''sn'')"
proof -
  have s: "load_n (zs_ptr \<lparr>zs_len = 2, zs_ptr = (Some [9, 115, 110], 1)\<rparr>)
      (unat (zs_len \<lparr>zs_len = 2, zs_ptr = (Some [9 :: u8, 115, 110], 1)\<rparr>)) = Inr [115, 110]"
    by (simp add: load_n_def)
  show ?thesis by (rule zstr_buf_cmp_equal [OF s]) (simp_all add: str_u8_def)
qed

text \<open>A string made by zstr_new compares equal to the C string it was made from.\<close>

theorem zstr_new_cmp:
  assumes name: "0 \<notin> set name" "length name + 1 < 2 ^ 32"
  shows "\<exists>s. zstr_new True (cstr name) = Inr s \<and> unat (zs_len s) = length name \<and>
    zstr_buf_cmp s (cstr name) = Inr 0"
proof -
  let ?n = "of_nat (length name) :: u32"
  have un: "unat ?n = length name" "unat (?n + 1) = length name + 1"
    using name by (simp_all add: unat_of_nat unat_word_ariths)
  let ?blk = "name @ drop (length name) (replicate (length name + 1) 0)"
  have new: "zstr_new True (cstr name) = Inr \<lparr>zs_len = ?n, zs_ptr = (Some ?blk, 0)\<rparr>"
    using name un
    by (simp add: zstr_new_def strlen_cstr zstr_new_len_def zcrt_malloc_def zcrt_mem load_cstr)
  let ?s = "\<lparr>zs_len = ?n, zs_ptr = (Some ?blk, 0)\<rparr>"
  have "load_n (zs_ptr ?s) (unat (zs_len ?s)) = Inr name" using un by (simp add: load_n_def)
  from zstr_buf_cmp_name [OF this, of name] name
  obtain r where "zstr_buf_cmp ?s (cstr name) = Inr r" "r = 0" by auto
  with new un show ?thesis by auto
qed

theorem zstr_new_cmp_witness:
  "\<exists>s. zstr_new True (cstr (str_u8 ''req'')) = Inr s \<and> unat (zs_len s) = 3 \<and>
    zstr_buf_cmp s (cstr (str_u8 ''req'')) = Inr 0"
  using zstr_new_cmp [of "str_u8 ''req''"] by (simp add: str_u8_def numeral_3_eq_3)

end
