(* ===== verification/Zcrt_Array.thy ===== *)
theory Zcrt_Array
  imports Zcrt_Buf
begin

text \<open>
  The growing array of \<^verbatim>\<open>zcrtlib/zarraylist.c\<close>: fixed-size elements in one allocated block,
  addressed by byte offset. Sizes are computed in 32 bits as the code computes them.
\<close>

section \<open>State\<close>

record zarray =
  za_len :: u32
  za_unitsize :: u32
  za_alloced :: u32
  za_memtag :: u32
  za_step :: u32
  za_data :: "block option"

section \<open>Operations\<close>

text \<open>\<^verbatim>\<open>mok\<close> and \<^verbatim>\<open>dok\<close> say whether the two allocations succeed.\<close>

definition zarray_new :: "bool \<Rightarrow> bool \<Rightarrow> u32 \<Rightarrow> u32 \<Rightarrow> u32 \<Rightarrow> u32 \<Rightarrow> zarray res" where
  "zarray_new mok dok n unitsize step tag =
     (if \<not> mok then Inl NullDeref else
      let n1 = (if n = 0 then 1 else n) in
      Inr \<lparr>za_len = 0, za_unitsize = unitsize, za_alloced = n1, za_memtag = tag, za_step = step,
           za_data = zcrt_malloc dok (unitsize * n1) tag\<rparr>)"

text \<open>The blocks handed to \<^verbatim>\<open>zcrt_free\<close> besides the header.\<close>

definition zarray_delete :: "zarray option \<Rightarrow> block option list" where
  "zarray_delete v = (case v of None \<Rightarrow> [] | Some a \<Rightarrow> [za_data a])"

definition zarray_setlength :: "realloc_fn \<Rightarrow> zarray \<Rightarrow> u32 \<Rightarrow> zarray res" where
  "zarray_setlength ra v len =
     (let v1 = v\<lparr>za_len := len\<rparr> in
      rbind (zassert (len < 0xfffff)) (\<lambda>_.
      if za_alloced v1 > len then Inr v1
      else
        let nlen = (if len - za_alloced v1 < za_step v1 then za_alloced v1 + za_step v1 else len);
            data = zcrt_realloc ra (za_data v1) (za_unitsize v1 * nlen) (za_memtag v1);
            fill = za_unitsize v1 * (nlen - za_alloced v1)
        in if fill = 0 then Inr (v1\<lparr>za_data := data, za_alloced := nlen\<rparr>)
           else rbind (store data (unat (za_alloced v1 * za_unitsize v1)) (replicate (unat fill) 0))
                  (\<lambda>blk. Inr (v1\<lparr>za_data := Some blk, za_alloced := nlen\<rparr>))))"

definition zarray_getlength :: "zarray option \<Rightarrow> u32" where
  "zarray_getlength v = (case v of None \<Rightarrow> 0 | Some a \<Rightarrow> za_len a)"

definition zarray_get :: "zarray \<Rightarrow> u32 \<Rightarrow> bptr" where
  "zarray_get v idx =
     (if idx \<ge> za_len v then null_ptr else padd (za_data v, 0) (unat (idx * za_unitsize v)))"

definition zarray_increase :: "realloc_fn \<Rightarrow> zarray \<Rightarrow> (bptr \<times> zarray) res" where
  "zarray_increase ra v =
     (let len = zarray_getlength (Some v) in
      rbind (zarray_setlength ra v (len + 1)) (\<lambda>v1. Inr (zarray_get v1 len, v1)))"

definition zarray_decrease :: "realloc_fn \<Rightarrow> zarray \<Rightarrow> zarray res" where
  "zarray_decrease ra v = zarray_setlength ra v (zarray_getlength (Some v) - 1)"

text \<open>Writing a value of the element type, \<^verbatim>\<open>*(T*)zarray_get(arr,idx) = val\<close>, as its bytes.\<close>

definition zarray_put :: "zarray \<Rightarrow> u32 \<Rightarrow> u8 list \<Rightarrow> zarray res" where
  "zarray_put v idx val = (let p = zarray_get v idx in
     rbind (store (fst p) (snd p) val) (\<lambda>blk. Inr (v\<lparr>za_data := Some blk\<rparr>)))"

definition ZARRAY_APPEND :: "realloc_fn \<Rightarrow> zarray \<Rightarrow> u8 list \<Rightarrow> zarray res" where
  "ZARRAY_APPEND ra arr val =
     (let idx = zarray_getlength (Some arr) in
      rbind (zarray_setlength ra arr (idx + 1)) (\<lambda>v1. zarray_put v1 idx val))"

section \<open>Invariant and abstraction\<close>

definition arr_wf :: "zarray \<Rightarrow> bool" where
  "arr_wf v \<longleftrightarrow> unat (za_unitsize v) * unat (za_alloced v) < 2 ^ 32 \<and> za_len v \<le> za_alloced v \<and>
     cap_of (za_data v) = unat (za_unitsize v) * unat (za_alloced v) \<and> za_data v \<noteq> None"

definition elem :: "zarray \<Rightarrow> nat \<Rightarrow> u8 list" where
  "elem v i = take (unat (za_unitsize v)) (drop (i * unat (za_unitsize v)) (the (za_data v)))"

definition elems :: "zarray \<Rightarrow> u8 list list" where
  "elems v = map (elem v) [0..<unat (za_len v)]"

lemma unat_mult_small:
  "unat a * unat b < 4294967296 \<Longrightarrow> unat (a * b :: u32) = unat a * unat b"
  by (simp add: unat_word_ariths)

lemma arr_wfE:
  assumes "arr_wf v"
  obtains blk where "za_data v = Some blk" "length blk = unat (za_unitsize v) * unat (za_alloced v)"
    "unat (za_unitsize v) * unat (za_alloced v) < 4294967296" "unat (za_len v) \<le> unat (za_alloced v)"
  using assms by (auto simp: arr_wf_def word_le_nat_alt)

lemma new_wf:
  assumes "unat u * (if n = 0 then 1 else unat n) < 2 ^ 32"
  shows "\<exists>v. zarray_new True True n u step tag = Inr v \<and> arr_wf v \<and> elems v = []"
  using assms
  by (auto simp: zarray_new_def arr_wf_def zcrt_malloc_def elems_def unat_mult_small)

section \<open>Growing\<close>

lemma setlength_keep:
  assumes "len < 0xfffff" "len < za_alloced v"
  shows "zarray_setlength ra v len = Inr (v\<lparr>za_len := len\<rparr>)"
  using assms by (simp add: zarray_setlength_def)

text \<open>The capacity a request for \<^verbatim>\<open>len\<close> elements ends with.\<close>

definition new_cap :: "zarray \<Rightarrow> u32 \<Rightarrow> nat" where
  "new_cap v len = (if len < za_alloced v then unat (za_alloced v)
     else if unat len - unat (za_alloced v) < unat (za_step v)
     then unat (za_alloced v) + unat (za_step v) else unat len)"

lemma setlength_unfold:
  assumes "len < 0xfffff" "\<not> len < za_alloced v"
    and "nlen = (if len - za_alloced v < za_step v then za_alloced v + za_step v else len)"
  shows "zarray_setlength ra v len =
    (let data = ra (za_data v) (unat (za_unitsize v * nlen));
         fill = za_unitsize v * (nlen - za_alloced v)
     in if fill = 0 then Inr (v\<lparr>za_len := len, za_data := data, za_alloced := nlen\<rparr>)
        else rbind (store data (unat (za_alloced v * za_unitsize v)) (replicate (unat fill) 0))
          (\<lambda>blk. Inr (v\<lparr>za_len := len, za_data := Some blk, za_alloced := nlen\<rparr>)))"
  using assms by (simp add: zarray_setlength_def zcrt_realloc_def Let_def)

lemma elem_prefix:
  assumes "take (length blk) blk' = blk" "length blk = unat (za_unitsize v) * m" "i < m"
    and "za_data v = Some blk" "za_data v' = Some blk'" "za_unitsize v' = za_unitsize v"
  shows "elem v' i = elem v i"
proof -
  let ?u = "unat (za_unitsize v)"
  have "i * ?u + ?u \<le> length blk"
    using assms(2,3) by (metis Suc_leI add.commute mult.commute mult_Suc mult_le_mono2)
  moreover have "take ?u (drop (i * ?u) (take (length blk) blk')) = take ?u (drop (i * ?u) blk')"
    using calculation by (simp add: drop_take min_def)
  ultimately show ?thesis using assms by (simp add: elem_def)
qed

lemma setlength_grow:
  assumes wf: "arr_wf v" and ra: "realloc_total ra" and len: "len < 0xfffff" "za_alloced v \<le> len"
    and cap: "unat (za_unitsize v) * new_cap v len < 2 ^ 32" "new_cap v len < 2 ^ 32"
  obtains v' blk' where "zarray_setlength ra v len = Inr v'" "arr_wf v'" "za_len v' = len"
    "za_unitsize v' = za_unitsize v" "za_step v' = za_step v" "unat (za_alloced v') = new_cap v len"
    "za_data v' = Some (the (za_data v) @ blk')" "set blk' \<subseteq> {0}"
proof -
  let ?u = "za_unitsize v" and ?al = "za_alloced v" and ?n = "new_cap v len"
  obtain blk where blk: "za_data v = Some blk" "length blk = unat ?u * unat ?al"
    "unat ?u * unat ?al < 4294967296" using wf by (rule arr_wfE)
  define nlen where "nlen = (if len - ?al < za_step v then ?al + za_step v else len)"
  have dif: "unat (len - ?al) = unat len - unat ?al"
    using len(2) by (simp add: unat_sub word_le_nat_alt)
  have nlen: "unat nlen = ?n"
    using len(2) cap(2) dif by (auto simp: nlen_def new_cap_def word_less_nat_alt unat_add_u32 word_le_nat_alt not_less)
  have ge: "unat ?al \<le> ?n" using len(2) by (auto simp: new_cap_def word_le_nat_alt)
  obtain q where q: "ra (Some blk) (unat ?u * ?n) = Some q" "length q = unat ?u * ?n"
    using ra by (rule realloc_total_Some)
  have qt: "take (length blk) q = blk"
  proof -
    have "length blk \<le> unat ?u * ?n" using ge blk(2) by (simp add: mult_le_mono2)
    then show ?thesis
      using realloc_ok_take [OF realloc_total_ok [OF ra] q(1), of "length blk"] by simp
  qed
  have m: "unat (?u * nlen) = unat ?u * ?n" "unat (?al * ?u) = length blk"
    using cap(1) nlen blk by (simp_all add: unat_mult_small mult.commute)
  have fill: "unat (?u * (nlen - ?al)) = unat ?u * (?n - unat ?al)"
  proof -
    have "unat ?u * (?n - unat ?al) \<le> unat ?u * ?n" by simp
    from le_less_trans [OF this cap(1)] have "unat ?u * (?n - unat ?al) < 4294967296" by simp
    moreover have "unat (nlen - ?al) = ?n - unat ?al"
      using nlen ge by (simp add: unat_sub word_le_nat_alt)
    ultimately show ?thesis using \<open>unat ?u * (?n - unat ?al) < 4294967296\<close>
      by (simp add: unat_mult_small)
  qed
  let ?z = "replicate (unat ?u * (?n - unat ?al)) (0::u8)"
  have lz: "length blk + length ?z = unat ?u * ?n"
    using ge blk(2) by (simp add: diff_mult_distrib2 mult_le_mono2)
  let ?v' = "v\<lparr>za_len := len, za_data := Some (blk @ ?z), za_alloced := nlen\<rparr>"
  note unfold = setlength_unfold [OF len(1) _ nlen_def, of ra]
  have eq: "zarray_setlength ra v len = Inr ?v'"
  proof (cases "?u * (nlen - ?al) = 0")
    case True
    then have "?z = []" using fill by simp
    moreover have "q = blk" using lz q(2) qt \<open>?z = []\<close> by simp
    ultimately show ?thesis
      using len(2) True q(1) blk(1) m by (simp add: unfold not_less)
  next
    case False
    have "store (Some q) (length blk) ?z = Inr (blk @ ?z)"
      using lz q(2) qt by (simp add: zcrt_mem)
    then show ?thesis
      using len(2) False q(1) blk(1) m fill by (simp add: unfold not_less)
  qed
  have "arr_wf ?v'"
    using lz cap(1) nlen ge len(2)
    by (auto simp: arr_wf_def word_le_nat_alt word_less_nat_alt new_cap_def split: if_splits)
  then show ?thesis
    using that [OF eq] nlen blk(1) by (auto simp: set_replicate_conv_if)
qed

lemma elem_append_zeros:
  assumes "za_data v = Some blk" "length blk = unat (za_unitsize v) * m"
    and "za_data v' = Some (blk @ z)" "set z \<subseteq> {0}" "za_unitsize v' = za_unitsize v"
    and "length (blk @ z) = unat (za_unitsize v) * m'" "m \<le> i" "i < m'"
  shows "elem v' i = replicate (unat (za_unitsize v)) 0"
proof -
  let ?u = "unat (za_unitsize v)"
  have le: "length blk \<le> i * ?u" using assms(2,7) by (simp add: mult.commute)
  have fit: "i * ?u + ?u \<le> length (blk @ z)"
    using assms(6,8) by (metis Suc_leI add.commute mult.commute mult_Suc mult_le_mono2)
  have "take ?u (drop (i * ?u) (blk @ z)) = take ?u (drop (i * ?u - length blk) z)"
    using le by simp
  moreover have "length (take ?u (drop (i * ?u - length blk) z)) = ?u" using le fit by simp
  moreover have "set (take ?u (drop (i * ?u - length blk) z)) \<subseteq> {0}"
    using assms(4) by (meson set_drop_subset set_take_subset subset_trans)
  ultimately have "take ?u (drop (i * ?u) (blk @ z)) = replicate ?u 0"
    by (intro replicate_eqI) auto
  then show ?thesis using assms(3,5) by (simp add: elem_def)
qed

lemma setlength_elems:
  assumes wf: "arr_wf v" and ra: "realloc_total ra" and len: "len < 0xfffff"
    and cap: "unat (za_unitsize v) * new_cap v len < 2 ^ 32" "new_cap v len < 2 ^ 32"
  obtains v' where "zarray_setlength ra v len = Inr v'" "arr_wf v'" "za_len v' = len"
    "za_unitsize v' = za_unitsize v" "za_step v' = za_step v"
    "\<And>i. i < unat (za_alloced v) \<Longrightarrow> elem v' i = elem v i"
    "\<And>i. unat (za_alloced v) \<le> i \<Longrightarrow> i < unat len \<Longrightarrow> elem v' i = replicate (unat (za_unitsize v)) 0"
    "unat (za_alloced v') = new_cap v len"
proof (cases "len < za_alloced v")
  case True
  show ?thesis
  proof (rule that [OF setlength_keep [OF len True]])
    show "arr_wf (v\<lparr>za_len := len\<rparr>)" using wf True by (simp add: arr_wf_def)
    show "elem (v\<lparr>za_len := len\<rparr>) i = elem v i" for i by (simp add: elem_def)
    show "elem (v\<lparr>za_len := len\<rparr>) i = replicate (unat (za_unitsize v)) 0"
      if "unat (za_alloced v) \<le> i" "i < unat len" for i
      using that True by (simp add: word_less_nat_alt)
    show "unat (za_alloced (v\<lparr>za_len := len\<rparr>)) = new_cap v len" using True by (simp add: new_cap_def)
  qed simp_all
next
  case False
  then have ge: "za_alloced v \<le> len" by simp
  obtain blk where blk: "za_data v = Some blk" "length blk = unat (za_unitsize v) * unat (za_alloced v)"
    using wf by (rule arr_wfE)
  obtain v' z where v': "zarray_setlength ra v len = Inr v'" "arr_wf v'" "za_len v' = len"
    "za_unitsize v' = za_unitsize v" "za_step v' = za_step v" "unat (za_alloced v') = new_cap v len"
    "za_data v' = Some (the (za_data v) @ z)" "set z \<subseteq> {0}"
    using setlength_grow [OF wf ra len ge cap] by blast
  have d: "za_data v' = Some (blk @ z)" using v'(7) blk(1) by simp
  have l: "length (blk @ z) = unat (za_unitsize v) * new_cap v len"
    using v'(2,4,6) d by (simp add: arr_wf_def)
  have up: "unat len \<le> new_cap v len" using ge by (auto simp: new_cap_def word_le_nat_alt word_less_nat_alt)
  show ?thesis
  proof (rule that [OF v'(1-5)])
    show "elem v' i = elem v i" if "i < unat (za_alloced v)" for i
      by (rule elem_prefix [OF _ blk(2) that blk(1) d v'(4)]) simp
    show "elem v' i = replicate (unat (za_unitsize v)) 0"
      if "unat (za_alloced v) \<le> i" "i < unat len" for i
      using elem_append_zeros [OF blk d v'(8,4) l that(1)] that(2) up by simp
  qed (rule v'(6))
qed

section \<open>Element access\<close>

lemma elem_put:
  assumes wf: "arr_wf v" and i: "idx < za_len v" and val: "length val = unat (za_unitsize v)"
  obtains v' where "zarray_put v idx val = Inr v'" "arr_wf v'" "za_len v' = za_len v"
    "za_unitsize v' = za_unitsize v" "elem v' (unat idx) = val"
    "\<And>j. j \<noteq> unat idx \<Longrightarrow> elem v' j = elem v j"
proof -
  let ?u = "unat (za_unitsize v)" and ?i = "unat idx"
  obtain blk where blk: "za_data v = Some blk" "length blk = ?u * unat (za_alloced v)"
    "?u * unat (za_alloced v) < 4294967296" "unat (za_len v) \<le> unat (za_alloced v)"
    using wf by (rule arr_wfE)
  have lt: "?i < unat (za_alloced v)" using i blk(4) by (simp add: word_less_nat_alt)
  then have fit: "?i * ?u + ?u \<le> length blk"
    using blk(2) by (metis Suc_leI add.commute mult.commute mult_Suc mult_le_mono2)
  have off: "unat (idx * za_unitsize v) = ?i * ?u"
    using fit blk(2,3) by (intro unat_mult_small) linarith
  let ?blk = "take (?i * ?u) blk @ val @ drop (?i * ?u + ?u) blk"
  let ?v' = "v\<lparr>za_data := Some ?blk\<rparr>"
  have "\<not> za_len v \<le> idx" using i by simp
  then have eq: "zarray_put v idx val = Inr ?v'"
    using blk(1) fit off val by (simp add: zarray_put_def zarray_get_def zcrt_mem Let_def)
  have len: "length ?blk = length blk" using fit val by simp
  show ?thesis
  proof (rule that [OF eq])
    show "arr_wf ?v'" using wf len blk by (simp add: arr_wf_def)
    show "elem ?v' ?i = val" using fit val by (simp add: elem_def)
    show "elem ?v' j = elem v j" if "j \<noteq> ?i" for j
    proof (cases "j < ?i")
      case True
      then have "j * ?u + ?u \<le> ?i * ?u" by (metis Suc_leI add.commute mult_Suc mult_le_mono1)
      then show ?thesis using fit blk(1) by (simp add: elem_def slice_append slice_take)
    next
      case False
      with that have "?i * ?u + ?u \<le> j * ?u" by (metis Suc_leI add.commute linorder_neqE_nat mult_Suc mult_le_mono1)
      then obtain k where k: "j * ?u = ?i * ?u + ?u + k" by (metis le_Suc_ex)
      show ?thesis using fit blk(1) val by (simp add: elem_def k add.commute)
    qed
  qed simp_all
qed

lemma elems_put:
  assumes "arr_wf v" "idx < za_len v" "length val = unat (za_unitsize v)"
  obtains v' where "zarray_put v idx val = Inr v'" "arr_wf v'" "za_unitsize v' = za_unitsize v"
    "za_len v' = za_len v" "elems v' = (elems v)[unat idx := val]"
proof -
  obtain v' where v': "zarray_put v idx val = Inr v'" "arr_wf v'" "za_len v' = za_len v"
    "za_unitsize v' = za_unitsize v" "elem v' (unat idx) = val"
    "\<And>j. j \<noteq> unat idx \<Longrightarrow> elem v' j = elem v j"
    using elem_put [OF assms] by metis
  have "elems v' = (elems v)[unat idx := val]"
    using assms(2)
    by (intro nth_equalityI) (auto simp: elems_def v' nth_list_update word_less_nat_alt)
  then show ?thesis using that v' by metis
qed

lemma zarray_get_elem:
  assumes wf: "arr_wf v" and i: "idx < za_len v"
  shows "load_n (zarray_get v idx) (unat (za_unitsize v)) = Inr (elems v ! unat idx)"
proof -
  let ?u = "unat (za_unitsize v)" and ?i = "unat idx"
  obtain blk where blk: "za_data v = Some blk" "length blk = ?u * unat (za_alloced v)"
    "?u * unat (za_alloced v) < 4294967296" "unat (za_len v) \<le> unat (za_alloced v)"
    using wf by (rule arr_wfE)
  have "?i < unat (za_alloced v)" using i blk(4) by (simp add: word_less_nat_alt)
  then have fit: "?i * ?u + ?u \<le> length blk"
    using blk(2) by (metis Suc_leI add.commute mult.commute mult_Suc mult_le_mono2)
  have "unat (idx * za_unitsize v) = ?i * ?u"
    using fit blk(2,3) by (intro unat_mult_small) linarith
  moreover have "\<not> za_len v \<le> idx" using i by simp
  moreover have "unat idx < unat (za_len v)" using i by (simp add: word_less_nat_alt)
  ultimately show ?thesis
    using fit blk(1) by (simp add: zarray_get_def load_n_def elems_def elem_def)
qed

section \<open>Properties\<close>

lemma succ_len: "len < (0xfffff :: u32) \<Longrightarrow> unat (len + 1) = unat len + 1"
  by (auto simp: unat_succ_u32 word_less_nat_alt)

lemma append_elems:
  assumes wf: "arr_wf v" and ra: "realloc_total ra" and len: "za_len v + 1 < 0xfffff"
    and cap: "unat (za_unitsize v) * new_cap v (za_len v + 1) < 2 ^ 32" "new_cap v (za_len v + 1) < 2 ^ 32"
    and val: "length val = unat (za_unitsize v)" and nw: "za_len v < 0xfffff"
  obtains v' where "ZARRAY_APPEND ra v val = Inr v'" "arr_wf v'" "elems v' = elems v @ [val]"
proof -
  let ?n = "za_len v"
  obtain v1 where v1: "zarray_setlength ra v (?n + 1) = Inr v1" "arr_wf v1" "za_len v1 = ?n + 1"
    "za_unitsize v1 = za_unitsize v" "\<And>i. i < unat (za_alloced v) \<Longrightarrow> elem v1 i = elem v i"
    using setlength_elems [OF wf ra len cap] by metis
  have lt: "?n < za_len v1" using v1(3) succ_len [OF nw] by (simp add: word_less_nat_alt)
  obtain v2 where v2: "zarray_put v1 ?n val = Inr v2" "arr_wf v2"
    "elems v2 = (elems v1)[unat ?n := val]"
    using elems_put [OF v1(2) lt] val v1(4) by metis
  have "unat ?n \<le> unat (za_alloced v)" using wf by (rule arr_wfE)
  then have "map (elem v1) [0..<unat ?n] = elems v" by (simp add: elems_def v1(5))
  then have "elems v1 = elems v @ [elem v1 (unat ?n)]"
    by (simp add: elems_def v1(3) succ_len [OF nw])
  then have "elems v2 = elems v @ [val]" using v2(3) by (simp add: elems_def list_update_append)
  then show ?thesis
    using that v1(1) v2(1,2) by (simp add: ZARRAY_APPEND_def zarray_getlength_def)
qed

text \<open>Setting the length of a well-formed array keeps every element below the old capacity,
  zeroes the elements the array grows by, and leaves it well formed, as long as the byte size of the
  new capacity fits in 32 bits.\<close>

theorem setlength_spec:
  assumes "arr_wf v" "realloc_total ra" "len < 0xfffff"
    "unat (za_unitsize v) * new_cap v len < 2 ^ 32" "new_cap v len < 2 ^ 32"
  shows "\<exists>v'. zarray_setlength ra v len = Inr v' \<and> arr_wf v' \<and> za_len v' = len \<and>
    (\<forall>i < unat len. elem v' i =
      (if i < unat (za_alloced v) then elem v i else replicate (unat (za_unitsize v)) 0))"
proof -
  obtain v' where "zarray_setlength ra v len = Inr v'" "arr_wf v'" "za_len v' = len"
    "\<And>i. i < unat (za_alloced v) \<Longrightarrow> elem v' i = elem v i"
    "\<And>i. unat (za_alloced v) \<le> i \<Longrightarrow> i < unat len \<Longrightarrow> elem v' i = replicate (unat (za_unitsize v)) 0"
    using setlength_elems [OF assms] by metis
  then show ?thesis by (intro exI [of _ v']) auto
qed

definition arr_example :: zarray where
  "arr_example = \<lparr>za_len = 1, za_unitsize = 2, za_alloced = 1, za_memtag = 0, za_step = 1,
     za_data = Some [7, 8]\<rparr>"

theorem setlength_spec_witness:
  "\<exists>v'. zarray_setlength realloc_zero arr_example 3 = Inr v' \<and> elem v' 0 = [7, 8] \<and> elem v' 2 = [0, 0]"
proof -
  have wf: "arr_wf arr_example" by (simp add: arr_wf_def arr_example_def)
  have cap: "new_cap arr_example 3 = 3" by (simp add: new_cap_def arr_example_def)
  obtain v' where v': "zarray_setlength realloc_zero arr_example 3 = Inr v'"
    and el: "\<forall>i < unat (3::u32). elem v' i = (if i < unat (za_alloced arr_example)
      then elem arr_example i else replicate (unat (za_unitsize arr_example)) 0)"
    using setlength_spec [OF wf realloc_zero_total, of 3] cap by (auto simp: arr_example_def)
  from el have "elem v' 0 = elem arr_example 0" "elem v' 2 = replicate 2 0"
    by (simp_all add: arr_example_def)
  moreover have "elem arr_example 0 = [7, 8]" by (simp add: elem_def arr_example_def)
  moreover have "replicate 2 (0::u8) = [0, 0]" by (simp add: numeral_2_eq_2)
  ultimately show ?thesis using v' by auto
qed

text \<open>ZARRAY_APPEND adds its value behind the elements of the array.\<close>

theorem array_append_spec:
  assumes "arr_wf v" "realloc_total ra" "za_len v + 1 < 0xfffff" "za_len v < 0xfffff"
    "unat (za_unitsize v) * new_cap v (za_len v + 1) < 2 ^ 32" "new_cap v (za_len v + 1) < 2 ^ 32"
    "length val = unat (za_unitsize v)"
  shows "\<exists>v'. ZARRAY_APPEND ra v val = Inr v' \<and> arr_wf v' \<and> elems v' = elems v @ [val]"
  using append_elems [OF assms(1-3,5-7,4)] by metis

theorem array_append_spec_witness:
  "\<exists>v'. ZARRAY_APPEND realloc_zero arr_example [3, 4] = Inr v' \<and> elems v' = [[7, 8], [3, 4]]"
proof -
  have "arr_wf arr_example" by (simp add: arr_wf_def arr_example_def)
  from array_append_spec [OF this realloc_zero_total, of "[3, 4]"]
  have "\<exists>v'. ZARRAY_APPEND realloc_zero arr_example [3, 4] = Inr v' \<and> arr_wf v' \<and>
      elems v' = elems arr_example @ [[3, 4]]"
    by (simp add: arr_example_def new_cap_def)
  moreover have "elems arr_example = [[7, 8]]" by (simp add: elems_def elem_def arr_example_def)
  ultimately show ?thesis by auto
qed

end
