(* ===== verification/Zcrt_Chain.thy ===== *)
theory Zcrt_Chain
  imports Zcrt_Prelude "HOL-Library.Multiset"
begin

text \<open>
  Singly linked lists in a heap of nodes. The hash table, the event list, the timer list and the job
  queues of the runtime are all such lists; their nodes live in a map from addresses, and
  \<^verbatim>\<open>chain nx h p as q\<close> says that following the link field \<^verbatim>\<open>nx\<close> from the pointer
  \<^verbatim>\<open>p\<close> visits exactly the addresses \<^verbatim>\<open>as\<close> and arrives at the pointer \<^verbatim>\<open>q\<close>.
  Function pointers and \<^verbatim>\<open>void*\<close> arguments the lists only pass on are numbers.
\<close>

type_synonym addr = nat
type_synonym ptr = nat
type_synonym 'n heap = "addr \<Rightarrow> 'n option"

named_theorems chain_simps \<open>frame and update rules for linked lists in a heap\<close>

definition hget :: "'n heap \<Rightarrow> addr option \<Rightarrow> 'n res" where
  "hget h p = (case p of None \<Rightarrow> Inl NullDeref | Some a \<Rightarrow> deref (h a))"

lemma hget_simps [simp]: "hget h None = Inl NullDeref" "hget h (Some a) = deref (h a)"
  by (simp_all add: hget_def)

fun chain :: "('n \<Rightarrow> addr option) \<Rightarrow> 'n heap \<Rightarrow> addr option \<Rightarrow> addr list \<Rightarrow> addr option \<Rightarrow> bool" where
  "chain nx h p [] q \<longleftrightarrow> p = q"
| "chain nx h p (a # as) q \<longleftrightarrow> p = Some a \<and> (\<exists>n. h a = Some n \<and> chain nx h (nx n) as q)"

lemma chain_append [chain_simps]:
  "chain nx h p (as @ bs) q \<longleftrightarrow> (\<exists>m. chain nx h p as m \<and> chain nx h m bs q)"
  by (induction as arbitrary: p) auto

lemma chain_frame:
  "(\<And>a. a \<in> set as \<Longrightarrow> map_option nx (h' a) = map_option nx (h a)) \<Longrightarrow>
    chain nx h' p as q \<longleftrightarrow> chain nx h p as q"
proof (induction as arbitrary: p)
  case (Cons a as)
  have "map_option nx (h' a) = map_option nx (h a)" using Cons.prems by simp
  then show ?case using Cons.IH Cons.prems by (cases "h a"; cases "h' a") auto
qed simp

lemma chain_upd [chain_simps]: "a \<notin> set as \<Longrightarrow> chain nx (h(a := v)) p as q \<longleftrightarrow> chain nx h p as q"
  by (rule chain_frame) auto

lemma chain_upd_same [chain_simps]:
  "h a = Some n \<Longrightarrow> nx n' = nx n \<Longrightarrow> chain nx (h(a \<mapsto> n')) p as q \<longleftrightarrow> chain nx h p as q"
  by (rule chain_frame) auto

lemma chain_dom: "chain nx h p as q \<Longrightarrow> a \<in> set as \<Longrightarrow> \<exists>n. h a = Some n"
  by (induction as arbitrary: p) auto

lemma chain_alloc: "chain nx h p as q \<Longrightarrow> h new = None \<Longrightarrow> chain nx (h(new \<mapsto> n)) p as q"
  using chain_dom [of nx h p as q new] by (subst chain_upd) auto

lemma chain_None [simp]: "chain nx h None as q \<longleftrightarrow> as = [] \<and> q = None"
  by (cases as) auto

lemma chain_fun: "chain nx h p as None \<Longrightarrow> chain nx h p bs None \<Longrightarrow> as = bs"
proof (induction as arbitrary: p bs)
  case Nil
  then show ?case by simp
next
  case (Cons a as)
  then show ?case by (cases bs) auto
qed

lemma chain_distinct: "chain nx h p as None \<Longrightarrow> distinct as"
proof (rule ccontr)
  assume ch: "chain nx h p as None" and "\<not> distinct as"
  then obtain xs ys zs a where as: "as = xs @ [a] @ ys @ [a] @ zs" using not_distinct_decomp by blast
  have "chain nx h (Some a) (a # ys @ [a] @ zs) None" "chain nx h (Some a) (a # zs) None"
    using ch unfolding as by (auto simp: chain_append)
  then show False using chain_fun by fastforce
qed

lemma chain_head: "chain nx h p as None \<Longrightarrow> p = (case as of [] \<Rightarrow> None | a # _ \<Rightarrow> Some a)"
  by (cases as) auto

text \<open>Linking the last node of a segment elsewhere, and taking a node out.\<close>

lemma chain_relink:
  assumes "chain nx h p (as @ [a]) q" "a \<notin> set as" "nx n' = q'"
  shows "chain nx (h(a \<mapsto> n')) p (as @ [a]) q'"
  using assms by (auto simp: chain_append chain_upd)

lemma chain_splice:
  assumes "chain nx h p (as @ [a] @ bs @ cs) None" "nx n' = q"
    and "chain nx h q cs None"
  shows "chain nx (h(a \<mapsto> n')) p (as @ [a] @ cs) None"
proof -
  have d: "distinct (as @ [a] @ bs @ cs)" using assms(1) by (rule chain_distinct)
  obtain m where "chain nx h p (as @ [a]) m" using assms(1) by (auto simp: chain_append)
  then have "chain nx (h(a \<mapsto> n')) p (as @ [a]) q"
    using assms(2) d by (intro chain_relink) auto
  moreover have "chain nx (h(a \<mapsto> n')) q cs None" using assms(3) d by (subst chain_upd) auto
  ultimately show ?thesis unfolding append.assoc [symmetric] chain_append [of _ _ _ "as @ [a]"] by blast
qed

text \<open>Where a tail pointer of the list points.\<close>

definition last_of :: "addr list \<Rightarrow> addr option" where
  "last_of as = (if as = [] then None else Some (last as))"

lemma last_of_out: "distinct (xs @ a # ys) \<Longrightarrow>
  last_of (xs @ ys) = (if last_of (xs @ a # ys) = Some a then last_of xs else last_of (xs @ a # ys))"
  by (cases ys rule: rev_cases) (auto simp: last_of_def)

lemma last_of_Some: "distinct (xs @ a # ys) \<Longrightarrow> last_of (xs @ a # ys) = Some a \<longleftrightarrow> ys = []"
  by (cases ys rule: rev_cases) (auto simp: last_of_def)

section \<open>Families of disjoint lists\<close>

lemma concat_update:
  "k < length xs \<Longrightarrow> mset (concat (xs[k := ys])) + mset (xs ! k) = mset (concat xs) + mset ys"
proof (induction xs arbitrary: k)
  case (Cons x xs)
  then show ?case by (cases k) (simp_all add: union_ac)
qed simp

lemma concat_nth: "k < length xs \<Longrightarrow> a \<in> set (xs ! k) \<Longrightarrow> a \<in> set (concat xs)"
  using nth_mem by fastforce

lemma concat_disjoint:
  "distinct (concat xs) \<Longrightarrow> j < length xs \<Longrightarrow> k < length xs \<Longrightarrow> j \<noteq> k \<Longrightarrow> a \<in> set (xs ! j) \<Longrightarrow> a \<notin> set (xs ! k)"
proof (induction xs arbitrary: j k)
  case (Cons x xs)
  have dj: "set x \<inter> set (concat xs) = {}" "distinct (concat xs)" using Cons.prems(1) by simp_all
  show ?case
  proof (cases j)
    case 0
    then obtain k' where k': "k = Suc k'" using Cons.prems(4) by (cases k) auto
    then have "a \<in> set (xs ! k') \<Longrightarrow> a \<in> set (concat xs)" using Cons.prems(3) by (intro concat_nth) simp_all
    then show ?thesis using 0 k' dj(1) Cons.prems(5) by (simp only: nth_Cons_0 nth_Cons_Suc) blast
  next
    case j: (Suc j')
    show ?thesis
    proof (cases k)
      case 0
      have "a \<in> set (concat xs)" using Cons.prems(2,5) j by (intro concat_nth [of j']) simp_all
      then show ?thesis using 0 dj(1) by (simp only: nth_Cons_0) blast
    next
      case (Suc k')
      then show ?thesis using Cons.IH [OF dj(2), of j' k'] Cons.prems(2-5) j by simp
    qed
  qed
qed simp

text \<open>The heads \<^verbatim>\<open>ps\<close> of several lists that share no node.\<close>

definition chains :: "('n \<Rightarrow> addr option) \<Rightarrow> 'n heap \<Rightarrow> addr option list \<Rightarrow> addr list list \<Rightarrow> bool" where
  "chains nx h ps ass \<longleftrightarrow> list_all2 (\<lambda>p as. chain nx h p as None) ps ass \<and> distinct (concat ass)"

lemma chainsD:
  assumes "chains nx h ps ass"
  shows "length ass = length ps" "distinct (concat ass)"
    "k < length ps \<Longrightarrow> chain nx h (ps ! k) (ass ! k) None"
  using assms by (auto simp: chains_def list_all2_conv_all_nth)

lemma chains_dom: "chains nx h ps ass \<Longrightarrow> a \<in> set (concat ass) \<Longrightarrow> \<exists>n. h a = Some n"
proof -
  assume c: "chains nx h ps ass" and "a \<in> set (concat ass)"
  then obtain as where "a \<in> set as" "as \<in> set ass" by auto
  then obtain k where "k < length ass" "a \<in> set (ass ! k)" by (metis in_set_conv_nth)
  then show ?thesis using chain_dom chainsD(1,3) [OF c] by metis
qed

lemma chains_update:
  assumes c: "chains nx h ps ass" and k: "k < length ps" and ch: "chain nx h' p bs None"
    and same: "\<And>a. a \<in> set (concat ass) \<Longrightarrow> a \<notin> set (ass ! k) \<Longrightarrow> map_option nx (h' a) = map_option nx (h a)"
    and d: "distinct (concat (ass[k := bs]))"
  shows "chains nx h' (ps[k := p]) (ass[k := bs])"
proof -
  note w = chainsD [OF c]
  have "chain nx h' (ps ! j) (ass ! j) None" if j: "j < length ps" "j \<noteq> k" for j
  proof -
    have "map_option nx (h' a) = map_option nx (h a)" if a: "a \<in> set (ass ! j)" for a
    proof (rule same)
      show "a \<in> set (concat ass)" using a j w(1) by (simp only: concat_nth)
      show "a \<notin> set (ass ! k)" using concat_disjoint [OF w(2)] a j k w(1) by simp
    qed
    then show ?thesis using w(3) [OF j(1)] by (subst chain_frame [where h = h]) auto
  qed
  then show ?thesis
    using w(1) k ch d by (auto simp: chains_def list_all2_conv_all_nth nth_list_update)
qed

text \<open>Taking a node out of list \<^verbatim>\<open>k\<close> and putting a new one into it, on the addresses.\<close>

lemma distinct_concat_out:
  assumes "distinct (concat ass)" "k < length ass" "ass ! k = xs @ a # ys"
  shows "distinct (concat (ass[k := xs @ ys])) \<and> set (concat (ass[k := xs @ ys])) = set (concat ass) - {a}"
proof -
  have ms: "mset (concat ass) = mset (a # concat (ass[k := xs @ ys]))"
    using concat_update [OF assms(2), of "xs @ ys"] assms(3) by simp
  have "distinct (a # concat (ass[k := xs @ ys]))" using mset_eq_imp_distinct_iff [OF ms] assms(1) by blast
  moreover have "set (concat ass) = set (a # concat (ass[k := xs @ ys]))" using mset_eq_setD [OF ms] .
  ultimately show ?thesis by auto
qed

lemma distinct_concat_in:
  assumes "distinct (concat ass)" "k < length ass" "ass ! k = xs @ ys" "a \<notin> set (concat ass)"
  shows "distinct (concat (ass[k := xs @ a # ys])) \<and> set (concat (ass[k := xs @ a # ys])) = insert a (set (concat ass))"
proof -
  have ms: "mset (concat (ass[k := xs @ a # ys])) = mset (a # concat ass)"
    using concat_update [OF assms(2), of "xs @ a # ys"] assms(3) by simp
  have "distinct (concat (ass[k := xs @ a # ys]))" using mset_eq_imp_distinct_iff [OF ms] assms(1,4) by simp
  then show ?thesis using mset_eq_setD [OF ms] by simp
qed

text \<open>
  List 0 of a family is used as a free list: taking its first node, adding a fresh address to the
  heap, and giving a node back.
\<close>

lemma chains_pop:
  assumes c: "chains nx h (Some a # ps) (fs # ass)"
  obtains n rest where "fs = a # rest" "h a = Some n" "a \<notin> set (concat (rest # ass))"
    "\<And>job. chains nx (h(a \<mapsto> job)) (nx n # ps) (rest # ass)"
proof -
  obtain n rest where f: "fs = a # rest" "h a = Some n" "chain nx h (nx n) rest None"
    using chainsD(3) [OF c, of 0] by (cases fs) auto
  have d: "a \<notin> set (concat (rest # ass))" "distinct (concat (rest # ass))"
    using chainsD(2) [OF c] f(1) by auto
  have "chains nx (h(a \<mapsto> job)) ((Some a # ps)[0 := nx n]) ((fs # ass)[0 := rest])" for job
  proof (rule chains_update [OF c])
    show "chain nx (h(a \<mapsto> job)) (nx n) rest None" using f(3) d(1) by (simp add: chain_upd)
    show "map_option nx ((h(a \<mapsto> job)) b) = map_option nx (h b)"
      if "b \<in> set (concat (fs # ass))" "b \<notin> set ((fs # ass) ! 0)" for b using that f(1) by auto
    show "distinct (concat ((fs # ass)[0 := rest]))" using d by simp
  qed simp
  then show ?thesis using that f(1,2) d(1) by simp
qed

lemma chains_frame:
  assumes "chains nx h ps ass" "\<And>a. a \<in> set (concat ass) \<Longrightarrow> map_option nx (h' a) = map_option nx (h a)"
  shows "chains nx h' ps ass"
  unfolding chains_def
proof
  show "list_all2 (\<lambda>p as. chain nx h' p as None) ps ass"
  proof (rule list.rel_mono_strong [OF assms(1) [unfolded chains_def, THEN conjunct1]])
    fix p as assume "as \<in> set ass" "chain nx h p as None"
    then show "chain nx h' p as None" using assms(2) by (subst chain_frame [where h = h]) auto
  qed
  show "distinct (concat ass)" by (rule chainsD(2) [OF assms(1)])
qed

lemma chains_fresh:
  assumes "chains nx h ps ass" "h a = None"
  shows "chains nx (h(a \<mapsto> n)) ps ass" "a \<notin> set (concat ass)"
proof -
  show "a \<notin> set (concat ass)" using chains_dom [OF assms(1), of a] assms(2) by auto
  then show "chains nx (h(a \<mapsto> n)) ps ass" by (intro chains_frame [OF assms(1)]) auto
qed

lemma chains_push:
  assumes c: "chains nx h (p # ps) (fs # ass)" and a: "a \<notin> set (concat (fs # ass))" and n: "nx n = p"
  shows "chains nx (h(a \<mapsto> n)) (Some a # ps) ((a # fs) # ass)"
proof -
  have "chains nx (h(a \<mapsto> n)) ((p # ps)[0 := Some a]) ((fs # ass)[0 := a # fs])"
  proof (rule chains_update [OF c])
    show "chain nx (h(a \<mapsto> n)) (Some a) (a # fs) None"
      using chainsD(3) [OF c, of 0] a n by (simp add: chain_upd)
    show "map_option nx ((h(a \<mapsto> n)) b) = map_option nx (h b)" if "b \<in> set (concat (fs # ass))" for b
      using that a by auto
    show "distinct (concat ((fs # ass)[0 := a # fs]))" using chainsD(2) [OF c] a by simp
  qed simp
  then show ?thesis by simp
qed

text \<open>A node is available: the free list has one, or \<^verbatim>\<open>malloc\<close> gave a fresh address.\<close>

definition can_alloc :: "'n heap \<Rightarrow> addr option \<Rightarrow> addr option \<Rightarrow> bool" where
  "can_alloc h free new \<longleftrightarrow> free \<noteq> None \<or> (\<exists>a. new = Some a \<and> h a = None)"

section \<open>Nodes with a settable link\<close>

text \<open>
  What the list operations of the runtime need from a node type: the link can be read and set, and
  setting it changes nothing else. The part of a node that is not its link is the node with the link
  cleared.
\<close>

definition contents_of :: "(addr option \<Rightarrow> 'n \<Rightarrow> 'n) \<Rightarrow> 'n heap \<Rightarrow> addr list \<Rightarrow> 'n list" where
  "contents_of set_nx h as = map (\<lambda>a. set_nx None (the (h a))) as"

lemma contents_of_simps [simp]:
  "contents_of f h [] = []" "contents_of f h (a # as) = f None (the (h a)) # contents_of f h as"
  "contents_of f h (as @ bs) = contents_of f h as @ contents_of f h bs"
  "length (contents_of f h as) = length as"
  by (simp_all add: contents_of_def)

lemma contents_of_cong:
  "(\<And>a. a \<in> set as \<Longrightarrow> f None (the (h' a)) = f None (the (h a))) \<Longrightarrow> contents_of f h' as = contents_of f h as"
  by (simp add: contents_of_def)

locale linked =
  fixes nx :: "'n \<Rightarrow> addr option" and set_nx :: "addr option \<Rightarrow> 'n \<Rightarrow> 'n"
  assumes nx_set: "nx (set_nx q n) = q"
    and set_set: "set_nx p (set_nx q n) = set_nx p n"
begin

lemma contents_of_frame:
  "(\<And>a. a \<in> set as \<Longrightarrow> map_option (set_nx None) (h' a) = map_option (set_nx None) (h a)) \<Longrightarrow>
    (\<And>a. a \<in> set as \<Longrightarrow> \<exists>n. h a = Some n) \<Longrightarrow> contents_of set_nx h' as = contents_of set_nx h as"
  by (fastforce simp: contents_of_def)

lemma contents_of_upd: "a \<notin> set as \<Longrightarrow> contents_of set_nx (h(a := v)) as = contents_of set_nx h as"
  by (auto simp: contents_of_def)

lemma contents_of_relink:
  "h l = Some n \<Longrightarrow> contents_of set_nx (h(l \<mapsto> set_nx q n)) as = contents_of set_nx h as"
  by (auto simp: contents_of_def set_set)

lemma splice_in_front:
  assumes "chain nx h p as None" "a \<notin> set as" "nx n = p"
  shows "chain nx (h(a \<mapsto> n)) (Some a) (a # as) None"
  using assms by (simp add: chain_upd)

lemma splice_in:
  assumes "chain nx h p (xs @ [l]) q" "chain nx h q ys None" "h l = Some m"
    and "a \<notin> set (xs @ l # ys)" "nx n = q"
  shows "chain nx (h(a \<mapsto> n, l \<mapsto> set_nx (Some a) m)) p (xs @ l # a # ys) None"
proof -
  have ch: "chain nx h p (xs @ l # ys) None" using assms(1,2) by (auto simp: chain_append)
  have d: "distinct (xs @ l # ys)" by (rule chain_distinct [OF ch])
  let ?h = "h(a \<mapsto> n)"
  have a: "a \<noteq> l" using assms(4) by auto
  have "chain nx ?h p (xs @ [l]) q" "chain nx ?h q ys None"
    using assms(1,2,4) by (simp_all add: chain_upd)
  then have 1: "chain nx (?h(l \<mapsto> set_nx (Some a) m)) p (xs @ [l]) (Some a)"
    using d nx_set by (intro chain_relink) auto
  have "chain nx (?h(l \<mapsto> set_nx (Some a) m)) q ys None"
    using \<open>chain nx ?h q ys None\<close> d by (simp add: chain_upd)
  then have 2: "chain nx (?h(l \<mapsto> set_nx (Some a) m)) (Some a) (a # ys) None"
    using a assms(5) by simp
  have "chain nx (?h(l \<mapsto> set_nx (Some a) m)) p ((xs @ [l]) @ a # ys) None"
    unfolding chain_append [of _ _ _ "xs @ [l]"] using 1 2 by blast
  then show ?thesis by simp
qed

lemma splice_out:
  assumes "chain nx h p (xs @ l # a # ys) None" "h l = Some m" "h a = Some n"
  shows "chain nx (h(l \<mapsto> set_nx (nx n) m)) p (xs @ l # ys) None"
proof -
  have "chain nx h (nx n) ys None" using assms(1,3) by (auto simp: chain_append)
  then have "chain nx (h(l \<mapsto> set_nx (nx n) m)) p (xs @ [l] @ ys) None"
    using assms(1) nx_set by (intro chain_splice [where bs = "[a]" and q = "nx n"]) auto
  then show ?thesis by simp
qed

lemma append_last:
  assumes "chain nx h p (xs @ [l]) None" "h l = Some m" "a \<notin> set (xs @ [l])" "nx n = None"
  shows "chain nx (h(a \<mapsto> n, l \<mapsto> set_nx (Some a) m)) p (xs @ [l, a]) None"
  using splice_in [of h p xs l None "[]" m a n] assms by simp

text \<open>The same at list \<^verbatim>\<open>k\<close> of a family.\<close>

lemma chains_insert_front:
  assumes c: "chains nx h ps ass" and k: "k < length ps" and a: "a \<notin> set (concat ass)" "nx n = ps ! k"
  shows "chains nx (h(a \<mapsto> n)) (ps[k := Some a]) (ass[k := a # ass ! k])"
proof (rule chains_update [OF c k])
  have kl: "k < length ass" using k chainsD(1) [OF c] by simp
  then have "a \<notin> set (ass ! k)" using a(1) concat_nth by metis
  then show "chain nx (h(a \<mapsto> n)) (Some a) (a # ass ! k) None"
    using splice_in_front chainsD(3) [OF c k] a(2) by blast
  show "map_option nx ((h(a \<mapsto> n)) b) = map_option nx (h b)" if "b \<in> set (concat ass)" for b
    using that a(1) by auto
  show "distinct (concat (ass[k := a # ass ! k]))"
    using distinct_concat_in [OF chainsD(2) [OF c] kl _ a(1), of "[]"] by simp
qed

lemma chains_insert_after:
  assumes c: "chains nx h ps ass" and k: "k < length ps" and at: "ass ! k = xs @ l # ys"
    and a: "a \<notin> set (concat ass)" "h l = Some m" "nx n = nx m"
  shows "chains nx (h(a \<mapsto> n, l \<mapsto> set_nx (Some a) m)) ps (ass[k := xs @ l # a # ys])"
proof -
  have kl: "k < length ass" using k chainsD(1) [OF c] by simp
  have ch: "chain nx h (ps ! k) (xs @ l # ys) None" using chainsD(3) [OF c k] at by simp
  have la: "l \<in> set (ass ! k)" using at by simp
  have na: "a \<notin> set (xs @ l # ys)" using concat_nth [OF kl, of a] a(1) at by auto
  let ?h = "h(a \<mapsto> n, l \<mapsto> set_nx (Some a) m)"
  have "chains nx ?h (ps[k := ps ! k]) (ass[k := xs @ l # a # ys])"
  proof (rule chains_update [OF c k])
    have seg: "chain nx h (ps ! k) (xs @ [l]) (nx m)" "chain nx h (nx m) ys None"
      using ch a(2) by (auto simp: chain_append)
    show "chain nx ?h (ps ! k) (xs @ l # a # ys) None"
      by (rule splice_in [OF seg a(2) na a(3)])
    show "map_option nx (?h b) = map_option nx (h b)" if "b \<in> set (concat ass)" "b \<notin> set (ass ! k)" for b
      using that a(1) la by auto
    show "distinct (concat (ass[k := xs @ l # a # ys]))"
      using distinct_concat_in [OF chainsD(2) [OF c] kl, of "xs @ [l]" ys a] at a(1) by simp
  qed
  then show ?thesis by simp
qed

lemma chains_out_front:
  assumes c: "chains nx h ps ass" and k: "k < length ps" and at: "ass ! k = a # ys" and a: "h a = Some n"
  shows "chains nx h (ps[k := nx n]) (ass[k := ys])" "a \<notin> set (concat (ass[k := ys]))"
proof -
  have kl: "k < length ass" using k chainsD(1) [OF c] by simp
  have d: "distinct (concat (ass[k := ys])) \<and> set (concat (ass[k := ys])) = set (concat ass) - {a}"
    using distinct_concat_out [OF chainsD(2) [OF c] kl, of "[]" a ys] at by simp
  show "chains nx h (ps[k := nx n]) (ass[k := ys])"
    using chainsD(3) [OF c k] at a d by (intro chains_update [OF c k]) auto
  show "a \<notin> set (concat (ass[k := ys]))" using d by blast
qed

lemma chains_out_after:
  assumes c: "chains nx h ps ass" and k: "k < length ps" and at: "ass ! k = xs @ l # a # ys"
    and a: "h l = Some m" "h a = Some n"
  shows "chains nx (h(l \<mapsto> set_nx (nx n) m)) ps (ass[k := xs @ l # ys])"
    "a \<notin> set (concat (ass[k := xs @ l # ys]))"
proof -
  have kl: "k < length ass" using k chainsD(1) [OF c] by simp
  have d: "distinct (concat (ass[k := xs @ l # ys])) \<and> set (concat (ass[k := xs @ l # ys])) = set (concat ass) - {a}"
    using distinct_concat_out [OF chainsD(2) [OF c] kl, of "xs @ [l]" a ys] at by simp
  have ch: "chain nx h (ps ! k) (xs @ l # a # ys) None" using chainsD(3) [OF c k] at by simp
  have "chains nx (h(l \<mapsto> set_nx (nx n) m)) (ps[k := ps ! k]) (ass[k := xs @ l # ys])"
  proof (rule chains_update [OF c k splice_out [OF ch a]])
    show "map_option nx ((h(l \<mapsto> set_nx (nx n) m)) b) = map_option nx (h b)"
      if "b \<in> set (concat ass)" "b \<notin> set (ass ! k)" for b
      using that at by auto
  qed (use d in blast)
  then show "chains nx (h(l \<mapsto> set_nx (nx n) m)) ps (ass[k := xs @ l # ys])" by simp
  show "a \<notin> set (concat (ass[k := xs @ l # ys]))" using d by blast
qed

text \<open>Linking a node behind the last one of list \<^verbatim>\<open>k\<close>.\<close>

lemma chains_append_empty:
  assumes c: "chains nx h ps ass" and k: "k < length ps" and e: "ass ! k = []"
    and a: "a \<notin> set (concat ass)" "h a = Some n" "nx n = None"
  shows "chains nx h (ps[k := Some a]) (ass[k := [a]])"
proof -
  have "ps ! k = None" using chainsD(3) [OF c k] e by simp
  then show ?thesis using chains_insert_front [OF c k a(1), of n] a e by (simp add: fun_upd_idem)
qed

lemma chains_append_last:
  assumes c: "chains nx h ps ass" and k: "k < length ps" and at: "ass ! k = xs @ [l]"
    and a: "a \<notin> set (concat ass)" "h a = Some n" "nx n = None" and l: "h l = Some m"
  shows "chains nx (h(l \<mapsto> set_nx (Some a) m)) ps (ass[k := ass ! k @ [a]])"
proof -
  have "nx m = None" using chainsD(3) [OF c k] at l by (auto simp: chain_append)
  then show ?thesis using chains_insert_after [OF c k at a(1) l, of n] a at by (simp add: fun_upd_idem)
qed

end

section \<open>Freeing a list\<close>

text \<open>\<^verbatim>\<open>while (p) { n = p->next; zcrt_free(p); p = n; }\<close>, which the event, timer and schedule
  managers share.\<close>

partial_function (option) free_nodes :: "('n \<Rightarrow> addr option) \<Rightarrow> 'n heap \<Rightarrow> addr option \<Rightarrow> 'n heap res option" where
  "free_nodes nx h p = (case p of
     None \<Rightarrow> Some (Inr h)
   | Some a \<Rightarrow> (case h a of
       None \<Rightarrow> Some (Inl NullDeref)
     | Some n \<Rightarrow> free_nodes nx (h(a := None)) (nx n)))"

fun free_lists :: "('n \<Rightarrow> addr option) \<Rightarrow> 'n heap \<Rightarrow> addr option list \<Rightarrow> 'n heap res" where
  "free_lists nx h [] = Inr h"
| "free_lists nx h (p # ps) = rbind (run (free_nodes nx h p)) (\<lambda>h1. free_lists nx h1 ps)"

lemma free_nodes_chain:
  assumes "chain nx h p as None"
  shows "free_nodes nx h p = Some (Inr (\<lambda>a. if a \<in> set as then None else h a))"
  using assms
proof (induction as arbitrary: p h)
  case Nil
  then show ?case by (subst free_nodes.simps) simp
next
  case (Cons a as)
  then obtain n where n: "p = Some a" "h a = Some n" "chain nx h (nx n) as None" by auto
  have "a \<notin> set as" using chain_distinct [OF Cons.prems] by simp
  then have "chain nx (h(a := None)) (nx n) as None" using n(3) by (simp add: chain_simps)
  moreover have "(\<lambda>b. if b \<in> set as then None else (h(a := None)) b) =
      (\<lambda>b. if b \<in> set (a # as) then None else h b)" by auto
  ultimately have "free_nodes nx (h(a := None)) (nx n) =
      Some (Inr (\<lambda>b. if b \<in> set (a # as) then None else h b))"
    using Cons.IH by (simp only:)
  then show ?case using n(1,2) by (subst free_nodes.simps) simp
qed

lemma free_lists_chains:
  assumes "chains nx h ps ass"
  shows "free_lists nx h ps = Inr (\<lambda>a. if a \<in> set (concat ass) then None else h a)"
proof -
  have "list_all2 (\<lambda>p as. chain nx h p as None) ps ass" "distinct (concat ass)"
    using assms by (simp_all add: chains_def)
  then show ?thesis
  proof (induction ps arbitrary: h ass)
    case Nil
    then show ?case by simp
  next
    case (Cons p ps)
    then obtain as rest where a: "ass = as # rest" "chain nx h p as None"
      "list_all2 (\<lambda>p as. chain nx h p as None) ps rest" by (auto simp: list_all2_Cons1)
    let ?h = "\<lambda>a. if a \<in> set as then None else h a"
    have "list_all2 (\<lambda>p as. chain nx ?h p as None) ps rest"
    proof (rule list.rel_mono_strong [OF a(3)])
      fix q bs assume "q \<in> set ps" "bs \<in> set rest" and ch: "chain nx h q bs None"
      then have "set bs \<inter> set as = {}" using Cons.prems(2) a(1) by auto
      then show "chain nx ?h q bs None" using ch by (subst chain_frame [where h = h]) auto
    qed
    from Cons.IH [OF this] show ?case
      using Cons.prems(2) free_nodes_chain [OF a(2)] a(1) by (auto simp: fun_eq_iff)
  qed
qed

end
