(* ===== verification/Zcrt_Hash.thy ===== *)
theory Zcrt_Hash
  imports Zcrt_Chain
begin

text \<open>
  The chained hash table of \<^verbatim>\<open>zcrtlib/zhash.c\<close>. Nodes live in a heap; data pointers are
  values of a type parameter (the table never looks inside them, it only hands them to the key and
  comparison functions it was created with). The theory's locale states what those two functions owe
  each other; lookups of a table over such functions behave like those of a list of entries, newest
  first.
\<close>

section \<open>State\<close>

record 'd hnode =
  hn_data :: 'd
  hn_next :: "addr option"

record 'd zhash =
  ht_size :: u32
  ht_count :: u32
  ht_index :: "addr option list"
  ht_key :: "'d \<Rightarrow> u32"
  ht_cmp :: "'d \<Rightarrow> 'd \<Rightarrow> s32"

type_synonym 'd hheap = "'d hnode heap"

section \<open>Operations\<close>

definition zcrt_hash_new ::
  "bool \<Rightarrow> bool \<Rightarrow> u32 \<Rightarrow> ('d \<Rightarrow> u32) option \<Rightarrow> ('d \<Rightarrow> 'd \<Rightarrow> s32) option \<Rightarrow> 'd zhash option res" where
  "zcrt_hash_new mok iok n hash_key hash_cmp = (case (hash_key, hash_cmp) of
     (Some key, Some cmp) \<Rightarrow>
       if \<not> mok then Inl NullDeref
       else if \<not> iok \<and> n \<noteq> 0 then Inl NullDeref
       else Inr (Some \<lparr>ht_size = n, ht_count = 0, ht_index = replicate (unat n) None,
                    ht_key = key, ht_cmp = cmp\<rparr>)
   | _ \<Rightarrow> Inr None)"

definition ZCRT_HASH_KEY :: "'d zhash \<Rightarrow> 'd \<Rightarrow> u32 res" where
  "ZCRT_HASH_KEY ht data = (if ht_size ht = 0 then Inl DivByZero else Inr (ht_key ht data mod ht_size ht))"

definition index_at :: "'d zhash \<Rightarrow> u32 \<Rightarrow> addr option res" where
  "index_at ht key = (if unat key < length (ht_index ht) then Inr (ht_index ht ! unat key) else Inl OutOfBounds)"

definition zcrt_hash_getnode :: "'d zhash option \<Rightarrow> 'd option \<Rightarrow> addr option res" where
  "zcrt_hash_getnode ht data = (case (ht, data) of
     (Some t, Some d) \<Rightarrow> rbind (ZCRT_HASH_KEY t d) (index_at t)
   | _ \<Rightarrow> Inr None)"

text \<open>\<^verbatim>\<open>new\<close> is the address \<^verbatim>\<open>malloc\<close> gave, \<^verbatim>\<open>None\<close> when it failed.\<close>

definition zcrt_hash_add ::
  "addr option \<Rightarrow> 'd hheap \<Rightarrow> 'd zhash option \<Rightarrow> 'd option \<Rightarrow> (addr option \<times> 'd hheap \<times> 'd zhash option) res" where
  "zcrt_hash_add new hp ht data = (case (ht, data) of
     (Some t, Some d) \<Rightarrow>
       rbind (ZCRT_HASH_KEY t d) (\<lambda>key.
       rbind (deref new) (\<lambda>a.
       rbind (index_at t key) (\<lambda>first.
         Inr (Some a, hp(a \<mapsto> \<lparr>hn_data = d, hn_next = first\<rparr>),
              Some (t\<lparr>ht_index := (ht_index t)[unat key := Some a], ht_count := ht_count t + 1\<rparr>)))))
   | _ \<Rightarrow> Inr (None, hp, ht))"

text \<open>\<^verbatim>\<open>while (node && ht->hash_cmp(node->data,data)!=0) { prev = node; node = node->next; }\<close>\<close>

partial_function (option) find_node ::
  "('d \<Rightarrow> 'd \<Rightarrow> s32) \<Rightarrow> 'd \<Rightarrow> 'd hheap \<Rightarrow> addr option \<Rightarrow> addr option \<Rightarrow> (addr option \<times> addr option) res option" where
  "find_node cmp data hp prev node = (case node of
     None \<Rightarrow> Some (Inr (prev, None))
   | Some a \<Rightarrow> (case hp a of
       None \<Rightarrow> Some (Inl NullDeref)
     | Some n \<Rightarrow> if cmp (hn_data n) data \<noteq> 0 then find_node cmp data hp node (hn_next n)
                 else Some (Inr (prev, node))))"

definition zcrt_hash_remove ::
  "'d hheap \<Rightarrow> 'd zhash option \<Rightarrow> 'd option \<Rightarrow> ('d hheap \<times> 'd zhash option) res" where
  "zcrt_hash_remove hp ht data = rbind (zcrt_hash_getnode ht data) (\<lambda>node. case (node, ht, data) of
     (Some a, Some t, Some d) \<Rightarrow>
       rbind (deref (hp a)) (\<lambda>n.
       if ht_cmp t (hn_data n) d = 0 then
         rbind (ZCRT_HASH_KEY t d) (\<lambda>key.
           Inr (hp(a := None), Some (t\<lparr>ht_index := (ht_index t)[unat key := hn_next n], ht_count := ht_count t - 1\<rparr>)))
       else
         rbind (run (find_node (ht_cmp t) d hp node node)) (\<lambda>(prev, found). case found of
           None \<Rightarrow> Inr (hp, Some t)
         | Some f \<Rightarrow>
             rbind (hget hp prev) (\<lambda>pn. rbind (deref (hp f)) (\<lambda>fn.
               Inr ((hp(the prev \<mapsto> pn\<lparr>hn_next := hn_next fn\<rparr>))(f := None),
                    Some (t\<lparr>ht_count := ht_count t - 1\<rparr>))))))
   | _ \<Rightarrow> Inr (hp, ht))"

definition zcrt_hash_lookup :: "'d hheap \<Rightarrow> 'd zhash option \<Rightarrow> 'd option \<Rightarrow> 'd option res" where
  "zcrt_hash_lookup hp ht data = rbind (zcrt_hash_getnode ht data) (\<lambda>node. case (node, ht, data) of
     (Some a, Some t, Some d) \<Rightarrow>
       rbind (run (find_node (ht_cmp t) d hp node node)) (\<lambda>(_, found). case found of
         None \<Rightarrow> Inr None
       | Some f \<Rightarrow> rbind (deref (hp f)) (\<lambda>n. Inr (Some (hn_data n))))
   | _ \<Rightarrow> Inr None)"

definition zcrt_hash_delete :: "'d hheap \<Rightarrow> 'd zhash option \<Rightarrow> 'd hheap res" where
  "zcrt_hash_delete hp ht = (case ht of None \<Rightarrow> Inr hp | Some t \<Rightarrow> free_lists hn_next hp (ht_index t))"

text \<open>The callback works on a state of its own.\<close>

partial_function (option) enum_bucket :: "'d hheap \<Rightarrow> ('d \<Rightarrow> 'w \<Rightarrow> 'w) \<Rightarrow> addr option \<Rightarrow> 'w \<Rightarrow> 'w res option" where
  "enum_bucket hp cb node w = (case node of
     None \<Rightarrow> Some (Inr w)
   | Some a \<Rightarrow> (case hp a of
       None \<Rightarrow> Some (Inl NullDeref)
     | Some n \<Rightarrow> enum_bucket hp cb (hn_next n) (cb (hn_data n) w)))"

fun enum_buckets :: "'d hheap \<Rightarrow> ('d \<Rightarrow> 'w \<Rightarrow> 'w) \<Rightarrow> addr option list \<Rightarrow> 'w \<Rightarrow> 'w res" where
  "enum_buckets hp cb [] w = Inr w"
| "enum_buckets hp cb (p # ps) w = rbind (run (enum_bucket hp cb p w)) (enum_buckets hp cb ps)"

definition zcrt_hash_enumerate ::
  "'d hheap \<Rightarrow> 'd zhash option \<Rightarrow> ('d \<Rightarrow> 'w \<Rightarrow> 'w) option \<Rightarrow> 'w \<Rightarrow> 'w res" where
  "zcrt_hash_enumerate hp ht cb w = (case (ht, cb) of
     (Some t, Some f) \<Rightarrow> enum_buckets hp f (ht_index t) w
   | _ \<Rightarrow> Inr w)"

section \<open>Well-formed tables\<close>

text \<open>
  \<^verbatim>\<open>ass\<close> lists the node addresses of every bucket. The buckets are disjoint lists that end,
  every node sits in the bucket of its key, and \<^verbatim>\<open>count\<close> counts the nodes (modulo 2^32).
\<close>

definition data_at :: "'d hheap \<Rightarrow> addr \<Rightarrow> 'd" where
  "data_at hp a = hn_data (the (hp a))"

definition hash_wf :: "'d hheap \<Rightarrow> 'd zhash \<Rightarrow> addr list list \<Rightarrow> bool" where
  "hash_wf hp t ass \<longleftrightarrow> ht_size t \<noteq> 0 \<and> length (ht_index t) = unat (ht_size t) \<and>
     length ass = unat (ht_size t) \<and> ht_count t = of_nat (length (concat ass)) \<and> distinct (concat ass) \<and>
     (\<forall>k < length ass. chain hn_next hp (ht_index t ! k) (ass ! k) None \<and>
        (\<forall>a \<in> set (ass ! k). unat (ht_key t (data_at hp a) mod ht_size t) = k))"

text \<open>What a bucket holds, newest entry first, and the bucket of a datum.\<close>

definition slot :: "'d zhash \<Rightarrow> 'd \<Rightarrow> nat" where
  "slot t d = unat (ht_key t d mod ht_size t)"

definition bucket :: "'d hheap \<Rightarrow> addr list list \<Rightarrow> nat \<Rightarrow> 'd list" where
  "bucket hp ass k = map (data_at hp) (ass ! k)"

lemma slot_less: "ht_size t \<noteq> 0 \<Longrightarrow> slot t d < unat (ht_size t)"
  by (simp add: slot_def unat_mod unat_gt_0)

lemma hash_wfD:
  assumes "hash_wf hp t ass"
  shows "ht_size t \<noteq> 0" "length (ht_index t) = unat (ht_size t)" "length ass = unat (ht_size t)"
    "ht_count t = of_nat (length (concat ass))" "distinct (concat ass)"
    "k < unat (ht_size t) \<Longrightarrow> chain hn_next hp (ht_index t ! k) (ass ! k) None"
    "k < unat (ht_size t) \<Longrightarrow> a \<in> set (ass ! k) \<Longrightarrow> slot t (data_at hp a) = k"
  using assms by (auto simp: hash_wf_def slot_def)

lemma getnode_wf:
  "hash_wf hp t ass \<Longrightarrow> zcrt_hash_getnode (Some t) (Some d) = Inr (ht_index t ! slot t d)"
  using slot_less [of t d] hash_wfD(1,2) [of hp t ass]
  by (simp add: zcrt_hash_getnode_def ZCRT_HASH_KEY_def index_at_def slot_def)

lemma find_node_chain:
  assumes "chain hn_next hp p as None"
  shows "\<exists>pr. find_node cmp d hp prev p = Some (Inr (pr, List.find (\<lambda>a. cmp (data_at hp a) d = 0) as))"
  using assms
proof (induction as arbitrary: p prev)
  case Nil
  then show ?case by (subst find_node.simps) simp
next
  case (Cons a as)
  then obtain n where n: "p = Some a" "hp a = Some n" "chain hn_next hp (hn_next n) as None" by auto
  then show ?case
    using Cons.IH [OF n(3), of "Some a"] by (subst find_node.simps) (simp add: data_at_def)
qed

lemma find_map: "map_option f (List.find (\<lambda>a. P (f a)) as) = List.find P (map f as)"
  by (induction as) auto

lemma lookup_bucket:
  assumes "hash_wf hp t ass"
  shows "zcrt_hash_lookup hp (Some t) (Some d) =
    Inr (List.find (\<lambda>x. ht_cmp t x d = 0) (bucket hp ass (slot t d)))"
proof -
  let ?p = "ht_index t ! slot t d" and ?as = "ass ! slot t d"
  have ch: "chain hn_next hp ?p ?as None"
    using hash_wfD(6) [OF assms slot_less] hash_wfD(1) [OF assms] by blast
  let ?f = "List.find (\<lambda>a. ht_cmp t (data_at hp a) d = 0) ?as"
  obtain pr where f: "find_node (ht_cmp t) d hp ?p ?p = Some (Inr (pr, ?f))"
    using find_node_chain [OF ch] by blast
  show ?thesis
  proof (cases ?p)
    case None
    then have "?as = []" using ch by simp
    with None show ?thesis by (simp add: zcrt_hash_lookup_def getnode_wf [OF assms] bucket_def)
  next
    case (Some a)
    have "?f = Some x \<Longrightarrow> \<exists>n. hp x = Some n" for x
      using chain_dom [OF ch] by (auto simp: find_Some_iff)
    then show ?thesis
      using f Some unfolding zcrt_hash_lookup_def getnode_wf [OF assms] bucket_def
      by (cases ?f) (auto simp: data_at_def find_map [symmetric])
  qed
qed

lemma data_at_upd: "a \<noteq> new \<Longrightarrow> data_at (hp(new := v)) a = data_at hp a"
  by (simp add: data_at_def)

text \<open>Replacing one bucket and the nodes of it keeps the table well formed.\<close>

lemma wf_replace:
  assumes wf: "hash_wf hp t ass" and k: "k < unat (ht_size t)"
    and bs: "chain hn_next hp' p bs None" "\<forall>a \<in> set bs. slot t (data_at hp' a) = k"
    and same: "\<And>a. a \<in> set (concat ass) \<Longrightarrow> a \<notin> set (ass ! k) \<Longrightarrow> hp' a = hp a"
    and d: "distinct (concat (ass[k := bs]))"
  shows "hash_wf hp' (t\<lparr>ht_index := (ht_index t)[k := p],
     ht_count := of_nat (length (concat (ass[k := bs])))\<rparr>) (ass[k := bs])"
proof -
  note w = hash_wfD [OF wf]
  have other: "chain hn_next hp' (ht_index t ! j) (ass ! j) None \<and> (\<forall>a \<in> set (ass ! j). slot t (data_at hp' a) = j)"
    if j: "j < unat (ht_size t)" "j \<noteq> k" for j
  proof -
    have eq: "hp' a = hp a" if "a \<in> set (ass ! j)" for a
    proof (rule same)
      show "a \<in> set (concat ass)" using that j w(3) by (simp only: concat_nth)
      show "a \<notin> set (ass ! k)" using concat_disjoint [OF w(5)] that j k w(3) by simp
    qed
    then have "chain hn_next hp' (ht_index t ! j) (ass ! j) None"
      using w(6) [OF j(1)] by (subst chain_frame [where h = hp]) auto
    then show ?thesis using eq w(7) [OF j(1)] by (auto simp: data_at_def)
  qed
  show ?thesis
    unfolding hash_wf_def
    using w(1-3) k bs other d by (auto simp: nth_list_update slot_def)
qed

lemma wf_chains: "hash_wf hp t ass \<Longrightarrow> chains hn_next hp (ht_index t) ass"
  using hash_wfD(2,3,5,6) [of hp t ass] by (simp add: chains_def list_all2_conv_all_nth)

lemma wf_dom: "hash_wf hp t ass \<Longrightarrow> a \<in> set (concat ass) \<Longrightarrow> \<exists>n. hp a = Some n"
  by (rule chains_dom [OF wf_chains])

lemma add_wf:
  fixes d :: 'd
  assumes wf: "hash_wf hp t ass" and new: "hp new = None"
  defines "ass' \<equiv> ass[slot t d := new # ass ! slot t d]"
  obtains hp' t' where "zcrt_hash_add (Some new) hp (Some t) (Some d) = Inr (Some new, hp', Some t')"
    "hash_wf hp' t' ass'" "ht_size t' = ht_size t" "ht_key t' = ht_key t" "ht_cmp t' = ht_cmp t"
    "ht_count t' = ht_count t + 1"
    "\<And>k. k < unat (ht_size t) \<Longrightarrow> bucket hp' ass' k = (if k = slot t d then d # bucket hp ass k else bucket hp ass k)"
    "\<And>a. a \<noteq> new \<Longrightarrow> hp' a = hp a"
proof -
  note w = hash_wfD [OF wf]
  let ?k = "slot t d"
  have kl: "?k < unat (ht_size t)" by (rule slot_less [OF w(1)])
  let ?hp = "hp(new \<mapsto> \<lparr>hn_data = d, hn_next = ht_index t ! ?k\<rparr>)"
  let ?t = "t\<lparr>ht_index := (ht_index t)[?k := Some new], ht_count := ht_count t + 1\<rparr>"
  have fresh: "new \<notin> set (concat ass)" using wf_dom [OF wf, of new] new by auto
  then have nin: "a \<noteq> new" if "k < unat (ht_size t)" "a \<in> set (ass ! k)" for k a
    using that w(3) concat_nth by metis
  have ms: "mset (concat ass') = mset (new # concat ass)"
    using concat_update [of ?k ass "new # ass ! ?k"] kl w(3) by (simp add: ass'_def)
  then have len: "length (concat ass') = Suc (length (concat ass))"
    using mset_eq_length by fastforce
  have dist: "distinct (concat ass')" using mset_eq_imp_distinct_iff [OF ms] fresh w(5) by simp
  have add: "zcrt_hash_add (Some new) hp (Some t) (Some d) = Inr (Some new, ?hp, Some ?t)"
    using w(1,2) kl by (simp add: zcrt_hash_add_def ZCRT_HASH_KEY_def index_at_def slot_def)
  have "hash_wf ?hp (t\<lparr>ht_index := (ht_index t)[?k := Some new],
      ht_count := of_nat (length (concat (ass[?k := new # ass ! ?k])))\<rparr>) (ass[?k := new # ass ! ?k])"
  proof (rule wf_replace [OF wf kl])
    have "new \<notin> set (ass ! ?k)" using nin [OF kl] by blast
    then show "chain hn_next ?hp (Some new) (new # ass ! ?k) None"
      using w(6) [OF kl] by (simp add: chain_simps)
    show "\<forall>a \<in> set (new # ass ! ?k). slot t (data_at ?hp a) = ?k"
      using w(7) [OF kl] nin [OF kl] by (auto simp: data_at_def)
    show "?hp a = hp a" if "a \<in> set (concat ass)" for a using that fresh by auto
    show "distinct (concat (ass[?k := new # ass ! ?k]))" using dist by (simp add: ass'_def)
  qed
  moreover have "of_nat (length (concat ass')) = ht_count t + 1" using len w(4) by simp
  ultimately have "hash_wf ?hp ?t ass'" by (simp add: ass'_def)
  moreover have "bucket ?hp ass' k = (if k = ?k then d # bucket hp ass k else bucket hp ass k)"
    if "k < unat (ht_size t)" for k
    using that w(3) nin [OF that] by (auto simp: bucket_def ass'_def nth_list_update data_at_def)
  ultimately show ?thesis using that [OF add] by simp
qed

lemma find_node_split:
  assumes "chain hn_next hp p (xs @ f # ys) None" "\<forall>a \<in> set xs. cmp (data_at hp a) d \<noteq> 0"
    and "cmp (data_at hp f) d = 0"
  shows "find_node cmp d hp prev p = Some (Inr (if xs = [] then prev else Some (last xs), Some f))"
  using assms
proof (induction xs arbitrary: p prev)
  case Nil
  then show ?case by (subst find_node.simps) (auto simp: data_at_def)
next
  case (Cons a xs)
  then obtain n where n: "p = Some a" "hp a = Some n" "chain hn_next hp (hn_next n) (xs @ f # ys) None" by auto
  then show ?case
    using Cons.IH [OF n(3), of "Some a"] Cons.prems by (subst find_node.simps) (simp add: data_at_def)
qed

lemma remove_wf:
  assumes wf: "hash_wf hp t ass" and at: "ass ! slot t d = xs @ f # ys"
    and P: "\<forall>a \<in> set xs. ht_cmp t (data_at hp a) d \<noteq> 0" "ht_cmp t (data_at hp f) d = 0"
  defines "ass' \<equiv> ass[slot t d := xs @ ys]"
  obtains hp' t' where "zcrt_hash_remove hp (Some t) (Some d) = Inr (hp', Some t')"
    "hash_wf hp' t' ass'" "ht_size t' = ht_size t" "ht_key t' = ht_key t" "ht_cmp t' = ht_cmp t"
    "ht_count t' = ht_count t - 1" "hp' f = None" "\<And>a. a \<noteq> f \<Longrightarrow> a \<notin> set xs \<Longrightarrow> hp' a = hp a"
    "\<And>k. k < unat (ht_size t) \<Longrightarrow> k \<noteq> slot t d \<Longrightarrow> bucket hp' ass' k = bucket hp ass k"
    "bucket hp' ass' (slot t d) = map (data_at hp) (xs @ ys)"
proof -
  note w = hash_wfD [OF wf]
  let ?k = "slot t d" and ?p = "ht_index t ! slot t d"
  have kl: "?k < unat (ht_size t)" by (rule slot_less [OF w(1)])
  have ch: "chain hn_next hp ?p (xs @ f # ys) None" using w(6) [OF kl] at by simp
  have dxy: "distinct (xs @ f # ys)" by (rule chain_distinct [OF ch])
  have ms: "mset (f # concat ass') = mset (concat ass)"
    using concat_update [of ?k ass "xs @ ys"] kl w(3) by (simp add: ass'_def at)
  have len: "length (concat ass) = Suc (length (concat ass'))"
    using mset_eq_length [OF ms] by simp
  have dist: "distinct (concat ass')" using mset_eq_imp_distinct_iff [OF ms] w(5) by simp
  have cnt: "of_nat (length (concat ass')) = ht_count t - 1" using len w(4) by simp
  obtain fn where fn: "hp f = Some fn" using chain_dom [OF ch, of f] by auto
  have "\<exists>hp' p. zcrt_hash_remove hp (Some t) (Some d) =
        Inr (hp', Some (t\<lparr>ht_index := (ht_index t)[?k := p], ht_count := ht_count t - 1\<rparr>)) \<and>
      chain hn_next hp' p (xs @ ys) None \<and> hp' f = None \<and> (\<forall>a. a \<noteq> f \<longrightarrow> a \<notin> set xs \<longrightarrow> hp' a = hp a) \<and>
      (\<forall>a. a \<noteq> f \<longrightarrow> map_option hn_data (hp' a) = map_option hn_data (hp a))"
  proof (cases "xs = []")
    case True
    let ?hp = "hp(f := None)"
    have "?p = Some f" using ch True by simp
    then have "zcrt_hash_remove hp (Some t) (Some d) =
        Inr (?hp, Some (t\<lparr>ht_index := (ht_index t)[?k := hn_next fn], ht_count := ht_count t - 1\<rparr>))"
      using fn P(2) w(1) by (simp add: zcrt_hash_remove_def getnode_wf [OF wf] data_at_def ZCRT_HASH_KEY_def slot_def)
    moreover have "chain hn_next ?hp (hn_next fn) (xs @ ys) None"
      using ch fn True dxy by (simp add: chain_simps)
    ultimately show ?thesis by fastforce
  next
    case False
    then obtain a zs where xs: "xs = a # zs" by (cases xs) auto
    define l where "l = last xs"
    obtain ws where ws: "xs = ws @ [l]" using False unfolding l_def by (metis append_butlast_last_id)
    have p: "?p = Some a" "\<exists>an. hp a = Some an" using ch xs by auto
    obtain ln where ln: "hp l = Some ln" using chain_dom [OF ch, of l] ws by auto
    have lf: "l \<noteq> f" using dxy ws by auto
    let ?hp = "(hp(l \<mapsto> ln\<lparr>hn_next := hn_next fn\<rparr>))(f := None)"
    have "zcrt_hash_remove hp (Some t) (Some d) = Inr (?hp, Some (t\<lparr>ht_count := ht_count t - 1\<rparr>))"
      using find_node_split [where prev = ?p and cmp = "ht_cmp t", OF ch P(1) P(2)] p P(1) False fn ln
      by (auto simp: zcrt_hash_remove_def getnode_wf [OF wf] data_at_def xs l_def)
    then have rm: "zcrt_hash_remove hp (Some t) (Some d) =
        Inr (?hp, Some (t\<lparr>ht_index := (ht_index t)[?k := ?p], ht_count := ht_count t - 1\<rparr>))" by simp
    have ch2: "chain hn_next ?hp ?p (xs @ ys) None"
    proof -
      have "chain hn_next hp (hn_next fn) ys None" using ch fn by (auto simp: chain_append)
      moreover have "chain hn_next hp ?p (ws @ [l] @ [f] @ ys) None" using ch ws by simp
      ultimately have "chain hn_next (hp(l \<mapsto> ln\<lparr>hn_next := hn_next fn\<rparr>)) ?p (ws @ [l] @ ys) None"
        by (intro chain_splice [where bs = "[f]"]) auto
      then show ?thesis using dxy ws by (simp add: chain_upd)
    qed
    have dat: "\<forall>b. b \<noteq> f \<longrightarrow> map_option hn_data (?hp b) = map_option hn_data (hp b)"
      using ln by simp
    have gone: "?hp f = None" by simp
    have same: "\<forall>b. b \<noteq> f \<longrightarrow> b \<notin> set xs \<longrightarrow> ?hp b = hp b" using ws by auto
    show ?thesis
      by (rule exI [of _ ?hp], rule exI [of _ ?p], intro conjI) (rule rm ch2 gone same dat)+
  qed
  then obtain hp' p where rm: "zcrt_hash_remove hp (Some t) (Some d) =
        Inr (hp', Some (t\<lparr>ht_index := (ht_index t)[?k := p], ht_count := ht_count t - 1\<rparr>))"
    and ch': "chain hn_next hp' p (xs @ ys) None" "hp' f = None"
    and same: "\<And>a. a \<noteq> f \<Longrightarrow> a \<notin> set xs \<Longrightarrow> hp' a = hp a"
    and dat: "\<And>a. a \<noteq> f \<Longrightarrow> map_option hn_data (hp' a) = map_option hn_data (hp a)" by blast
  have data: "data_at hp' a = data_at hp a" if "a \<in> set (xs @ ys)" for a
  proof -
    have "a \<noteq> f" using dxy that by auto
    moreover have "\<exists>n. hp a = Some n" by (rule chain_dom [OF ch]) (use that in auto)
    ultimately show ?thesis using dat [of a] by (auto simp: data_at_def)
  qed
  have "hash_wf hp' (t\<lparr>ht_index := (ht_index t)[?k := p],
      ht_count := of_nat (length (concat (ass[?k := xs @ ys])))\<rparr>) (ass[?k := xs @ ys])"
  proof (rule wf_replace [OF wf kl ch'(1)])
    show "\<forall>a \<in> set (xs @ ys). slot t (data_at hp' a) = ?k"
      using w(7) [OF kl] data at by auto
    show "hp' a = hp a" if "a \<in> set (concat ass)" "a \<notin> set (ass ! ?k)" for a
      using that same at by auto
    show "distinct (concat (ass[?k := xs @ ys]))" using dist by (simp add: ass'_def)
  qed
  then have wf': "hash_wf hp' (t\<lparr>ht_index := (ht_index t)[?k := p], ht_count := ht_count t - 1\<rparr>) ass'"
    using cnt by (simp add: ass'_def)
  have "bucket hp' ass' k = bucket hp ass k" if "k < unat (ht_size t)" "k \<noteq> ?k" for k
  proof -
    have "data_at hp' a = data_at hp a" if "a \<in> set (ass ! k)" for a
      using same [of a] concat_disjoint [OF w(5), of k ?k a] that \<open>k < _\<close> \<open>k \<noteq> _\<close> kl w(3) at
      by (auto simp: data_at_def)
    then show ?thesis using that by (simp add: bucket_def ass'_def)
  qed
  moreover have "bucket hp' ass' ?k = map (data_at hp) (xs @ ys)"
    using kl w(3) data by (simp add: bucket_def ass'_def)
  ultimately show ?thesis using that [OF rm wf'] ch'(2) same by simp
qed


section \<open>Enumerating\<close>

lemma enum_bucket_chain:
  "chain hn_next hp p as None \<Longrightarrow> enum_bucket hp cb p w = Some (Inr (fold cb (map (data_at hp) as) w))"
proof (induction as arbitrary: p w)
  case Nil
  then show ?case by (subst enum_bucket.simps) simp
next
  case (Cons a as)
  then obtain n where n: "p = Some a" "hp a = Some n" "chain hn_next hp (hn_next n) as None" by auto
  moreover have "data_at hp a = hn_data n" using n(2) by (simp add: data_at_def)
  ultimately show ?case using Cons.IH [OF n(3)] by (subst enum_bucket.simps) simp
qed

lemma enum_buckets_chains:
  "list_all2 (\<lambda>p as. chain hn_next hp p as None) ps ass \<Longrightarrow>
    enum_buckets hp cb ps w = Inr (fold cb (map (data_at hp) (concat ass)) w)"
  by (induction ps arbitrary: ass w) (auto simp: list_all2_Cons1 enum_bucket_chain)

section \<open>Key and comparison functions\<close>

text \<open>
  What the two callbacks of a table promise each other: comparing to 0 is symmetric and transitive,
  and data that compare to 0 have the same key.
\<close>

locale hash_laws =
  fixes key :: "'d \<Rightarrow> u32" and cmp :: "'d \<Rightarrow> 'd \<Rightarrow> s32"
  assumes cmp_sym: "cmp x y = 0 \<Longrightarrow> cmp y x = 0"
    and cmp_trans: "cmp x y = 0 \<Longrightarrow> cmp y z = 0 \<Longrightarrow> cmp x z = 0"
    and cmp_key: "cmp x y = 0 \<Longrightarrow> key x = key y"
begin

lemma slot_eq: "ht_key t = key \<Longrightarrow> cmp x y = 0 \<Longrightarrow> slot t x = slot t y"
  using cmp_key by (simp add: slot_def)

lemma lookup_add:
  assumes wf: "hash_wf hp t ass" and f: "ht_key t = key" "ht_cmp t = cmp" and new: "hp new = None"
  shows "\<exists>hp' t' ass'. zcrt_hash_add (Some new) hp (Some t) (Some x) = Inr (Some new, hp', Some t') \<and>
    hash_wf hp' t' ass' \<and> ht_count t' = ht_count t + 1 \<and> ht_key t' = key \<and> ht_cmp t' = cmp \<and>
    (\<forall>d. zcrt_hash_lookup hp' (Some t') (Some d) =
      (if cmp x d = 0 then Inr (Some x) else zcrt_hash_lookup hp (Some t) (Some d)))"
proof -
  obtain hp' t' where a: "zcrt_hash_add (Some new) hp (Some t) (Some x) = Inr (Some new, hp', Some t')"
    "hash_wf hp' t' (ass[slot t x := new # ass ! slot t x])" "ht_size t' = ht_size t" "ht_key t' = ht_key t"
    "ht_cmp t' = ht_cmp t" "ht_count t' = ht_count t + 1"
    "\<And>k. k < unat (ht_size t) \<Longrightarrow> bucket hp' (ass[slot t x := new # ass ! slot t x]) k =
      (if k = slot t x then x # bucket hp ass k else bucket hp ass k)"
    using add_wf [OF wf new] by metis
  have s: "slot t' d = slot t d" for d using a(3,4) by (simp add: slot_def)
  have "zcrt_hash_lookup hp' (Some t') (Some d) =
      (if cmp x d = 0 then Inr (Some x) else zcrt_hash_lookup hp (Some t) (Some d))" for d
  proof -
    have b: "bucket hp' (ass[slot t x := new # ass ! slot t x]) (slot t d) =
        (if slot t d = slot t x then x # bucket hp ass (slot t d) else bucket hp ass (slot t d))"
      by (rule a(7) [OF slot_less [OF hash_wfD(1) [OF wf]]])
    show ?thesis
      using slot_eq [OF f(1), of x d] unfolding lookup_bucket [OF a(2)] lookup_bucket [OF wf] s b
      by (auto simp: a(5) f(2))
  qed
  with a f show ?thesis by metis
qed

lemma lookup_remove:
  assumes wf: "hash_wf hp t ass" and f: "ht_key t = key" "ht_cmp t = cmp"
    and found: "zcrt_hash_lookup hp (Some t) (Some x) = Inr (Some y)"
  shows "\<exists>hp' t' ass'. zcrt_hash_remove hp (Some t) (Some x) = Inr (hp', Some t') \<and>
    hash_wf hp' t' ass' \<and> ht_count t' = ht_count t - 1 \<and> ht_key t' = key \<and> ht_cmp t' = cmp \<and>
    card (dom hp - dom hp') = 1 \<and>
    bucket hp' ass' (slot t x) = del_first (\<lambda>z. cmp z x = 0) (bucket hp ass (slot t x)) \<and>
    (\<forall>d. cmp d x \<noteq> 0 \<longrightarrow> zcrt_hash_lookup hp' (Some t') (Some d) = zcrt_hash_lookup hp (Some t) (Some d))"
proof -
  let ?k = "slot t x"
  have kl: "?k < unat (ht_size t)" by (rule slot_less [OF hash_wfD(1) [OF wf]])
  have "List.find (\<lambda>a. cmp (data_at hp a) x = 0) (ass ! ?k) \<noteq> None"
    using found unfolding lookup_bucket [OF wf] f(2) bucket_def find_map [symmetric] by auto
  then obtain fd where "fd \<in> set (ass ! ?k)" "cmp (data_at hp fd) x = 0" by (auto simp: find_None_iff)
  then obtain xs a ys where at: "ass ! ?k = xs @ a # ys" "cmp (data_at hp a) x = 0"
    "\<forall>b \<in> set xs. cmp (data_at hp b) x \<noteq> 0"
    using split_list_first_prop [of "ass ! ?k" "\<lambda>a. cmp (data_at hp a) x = 0"] by blast
  have P: "\<forall>b \<in> set xs. ht_cmp t (data_at hp b) x \<noteq> 0" "ht_cmp t (data_at hp a) x = 0"
    using at(2,3) f(2) by simp_all
  let ?ass = "ass[?k := xs @ ys]"
  obtain hp' t' where r: "zcrt_hash_remove hp (Some t) (Some x) = Inr (hp', Some t')" "hash_wf hp' t' ?ass"
    "ht_size t' = ht_size t" "ht_key t' = ht_key t" "ht_cmp t' = ht_cmp t" "ht_count t' = ht_count t - 1"
    "hp' a = None" "\<And>b. b \<noteq> a \<Longrightarrow> b \<notin> set xs \<Longrightarrow> hp' b = hp b"
    "\<And>k. k < unat (ht_size t) \<Longrightarrow> k \<noteq> ?k \<Longrightarrow> bucket hp' ?ass k = bucket hp ass k"
    "bucket hp' ?ass ?k = map (data_at hp) (xs @ ys)"
    using remove_wf [OF wf at(1) P] by metis
  have s: "slot t' d = slot t d" for d using r(3,4) by (simp add: slot_def)
  have old: "bucket hp ass ?k = map (data_at hp) xs @ data_at hp a # map (data_at hp) ys"
    by (simp add: bucket_def at(1))
  have del: "bucket hp' ?ass ?k = del_first (\<lambda>z. cmp z x = 0) (bucket hp ass ?k)"
    using at(2,3) unfolding r(10) old by (subst del_first_split) auto
  have "zcrt_hash_lookup hp' (Some t') (Some d) = zcrt_hash_lookup hp (Some t) (Some d)" if "cmp d x \<noteq> 0" for d
  proof (cases "slot t d = ?k")
    case False
    then show ?thesis
      using r(9) [OF slot_less [OF hash_wfD(1) [OF wf]] False] r(5)
      unfolding lookup_bucket [OF r(2)] lookup_bucket [OF wf] s by simp
  next
    case True
    have "cmp (data_at hp a) d \<noteq> 0" using that at(2) cmp_sym cmp_trans by blast
    then have "List.find (\<lambda>z. cmp z d = 0) (us @ data_at hp a # vs) = List.find (\<lambda>z. cmp z d = 0) (us @ vs)" for us vs
      by (induction us) auto
    then show ?thesis
      unfolding lookup_bucket [OF r(2)] lookup_bucket [OF wf] s True r(10) old r(5) f(2) by simp
  qed
  moreover have "dom hp - dom hp' = {a}"
  proof -
    have ch: "chain hn_next hp (ht_index t ! ?k) (xs @ a # ys) None"
      using hash_wfD(6) [OF wf kl] at(1) by simp
    have "b \<in> dom hp'" if "b \<in> set xs" for b
    proof -
      have "chain hn_next hp' (ht_index t' ! ?k) (xs @ ys) None"
        using hash_wfD(3,6) [OF r(2)] kl r(3) hash_wfD(3) [OF wf] by force
      then show ?thesis using chain_dom that by fastforce
    qed
    moreover have "a \<in> dom hp" using chain_dom [OF ch, of a] by auto
    ultimately show ?thesis using r(7,8) by (auto simp: dom_def) metis
  qed
  ultimately show ?thesis using r del f by (intro exI [of _ hp'] exI [of _ t'] exI [of _ ?ass]) simp
qed

end

section \<open>Properties\<close>

text \<open>zcrt_hash_delete frees every node of a well-formed table exactly once and leaves the rest of the
  heap as it is.\<close>

theorem hash_delete_frees:
  assumes "hash_wf hp t ass"
  shows "zcrt_hash_delete hp (Some t) = Inr (\<lambda>a. if a \<in> set (concat ass) then None else hp a)"
  using free_lists_chains [OF wf_chains [OF assms]] by (simp add: zcrt_hash_delete_def)

definition hash_example :: "nat zhash" where
  "hash_example = \<lparr>ht_size = 2, ht_count = 2, ht_index = [Some 5, None], ht_key = of_nat,
     ht_cmp = (\<lambda>x y. of_nat x - of_nat y)\<rparr>"

definition hheap_example :: "nat hheap" where
  "hheap_example = [5 \<mapsto> \<lparr>hn_data = 4, hn_next = Some 9\<rparr>, 9 \<mapsto> \<lparr>hn_data = 2, hn_next = None\<rparr>,
     7 \<mapsto> \<lparr>hn_data = 1, hn_next = None\<rparr>]"

lemma hash_example_wf: "hash_wf hheap_example hash_example [[5, 9], []]"
  by (auto simp: hash_wf_def hash_example_def hheap_example_def data_at_def less_Suc_eq)

theorem hash_delete_frees_witness:
  "\<exists>hp. zcrt_hash_delete hheap_example (Some hash_example) = Inr hp \<and> hp 5 = None \<and> hp 9 = None \<and>
    hp 7 = hheap_example 7"
  using hash_delete_frees [OF hash_example_wf] by auto

text \<open>zcrt_hash_enumerate calls its callback on every entry of a well-formed table, bucket by bucket
  and newest first.\<close>

theorem hash_enumerate_spec:
  assumes "hash_wf hp t ass"
  shows "zcrt_hash_enumerate hp (Some t) (Some cb) w = Inr (fold cb (map (data_at hp) (concat ass)) w)"
  using enum_buckets_chains [OF wf_chains [OF assms, unfolded chains_def, THEN conjunct1]] by (simp add: zcrt_hash_enumerate_def)

theorem hash_enumerate_spec_witness:
  "zcrt_hash_enumerate hheap_example (Some hash_example) (Some (#)) [] = Inr [2, 4]"
  using hash_enumerate_spec [OF hash_example_wf, of "(#)" "[]"]
  by (simp add: data_at_def hheap_example_def)

end
