(* ===== verification/Zcrt_Event.thy ===== *)
theory Zcrt_Event
  imports Zcrt_Chain Zcrt_Macro
begin

text \<open>
  The event manager of \<^verbatim>\<open>zcrtlib/zevent.c\<close>: for each of 256 event ids a list of
  subscriptions ordered by priority, and a list of free subscription nodes. A module without an event
  manager and a null module are both \<^verbatim>\<open>None\<close>; function pointers and the \<^verbatim>\<open>void*\<close>
  arguments are numbers, and what a callback does is an argument of the functions that call it. The
  manager's mutex is recursive and held by one thread at a time: the operations are the critical
  sections.
\<close>

section \<open>State\<close>

datatype EZCRTEvtType = EZCRTEvtType_all | EZCRTEvtType_local | EZCRTEvtType_remote

record zEventCB =
  ec_fn :: "ptr option"
  ec_pri :: u8
  ec_type :: EZCRTEvtType
  ec_p1 :: ptr
  ec_p2 :: ptr
  ec_next :: "addr option"

record zEvent =
  ev_heap :: "zEventCB heap"
  ev_freelist :: "addr option"
  ev_freesize :: s32
  ev_last :: u32
  ev_list :: "addr option list"

section \<open>Operations\<close>

definition zcrt_event_manage_init :: "bool \<Rightarrow> zEventCB heap \<Rightarrow> zEvent option" where
  "zcrt_event_manage_init mok h = (if \<not> mok then None else
     Some \<lparr>ev_heap = h, ev_freelist = None, ev_freesize = 0, ev_last = 0,
           ev_list = replicate ZCRT_MAX_EVT None\<rparr>)"

definition zcrt_Event_malloc_cb ::
  "addr option \<Rightarrow> zEvent \<Rightarrow> u8 \<Rightarrow> EZCRTEvtType \<Rightarrow> ptr \<Rightarrow> ptr \<Rightarrow> ptr \<Rightarrow> (addr option \<times> zEvent) res" where
  "zcrt_Event_malloc_cb new mng priority evtType fn p1 p2 =
     (let job = \<lparr>ec_fn = Some fn, ec_pri = priority, ec_type = evtType, ec_p1 = p1, ec_p2 = p2, ec_next = None\<rparr> in
      case ev_freelist mng of
        Some a \<Rightarrow> rbind (deref (ev_heap mng a)) (\<lambda>n.
          Inr (Some a, mng\<lparr>ev_freelist := ec_next n, ev_freesize := ev_freesize mng - 1,
                           ev_heap := (ev_heap mng)(a \<mapsto> job)\<rparr>))
      | None \<Rightarrow> (case new of
          None \<Rightarrow> Inr (None, mng)
        | Some a \<Rightarrow> Inr (Some a, mng\<lparr>ev_heap := (ev_heap mng)(a \<mapsto> job)\<rparr>)))"

definition zcrt_Event_free_cb_no_protected :: "zEvent \<Rightarrow> addr \<Rightarrow> zEvent res" where
  "zcrt_Event_free_cb_no_protected mng a = rbind (deref (ev_heap mng a)) (\<lambda>n.
     Inr (mng\<lparr>ev_heap := (ev_heap mng)(a \<mapsto> n\<lparr>ec_next := ev_freelist mng, ec_fn := None\<rparr>),
              ev_freelist := Some a, ev_freesize := ev_freesize mng + 1\<rparr>))"

definition zcrt_event_manage_delete :: "zEvent option \<Rightarrow> zEventCB heap option res" where
  "zcrt_event_manage_delete mng = (case mng of None \<Rightarrow> Inr None | Some m \<Rightarrow>
     rbind (free_lists ec_next (ev_heap m) (ev_list m)) (\<lambda>h.
       map_sum id Some (run (free_nodes ec_next h (ev_freelist m)))))"

text \<open>The two search loops; both return the previous and the current node.\<close>

partial_function (option) find_pri ::
  "zEventCB heap \<Rightarrow> u8 \<Rightarrow> addr option \<Rightarrow> addr option \<Rightarrow> (addr option \<times> addr option) res option" where
  "find_pri h priority prev cur = (case cur of
     None \<Rightarrow> Some (Inr (prev, None))
   | Some a \<Rightarrow> (case h a of
       None \<Rightarrow> Some (Inl NullDeref)
     | Some n \<Rightarrow> if ec_pri n \<ge> priority then find_pri h priority cur (ec_next n)
                 else Some (Inr (prev, cur))))"

partial_function (option) find_cb ::
  "zEventCB heap \<Rightarrow> ptr \<Rightarrow> ptr \<Rightarrow> ptr \<Rightarrow> addr option \<Rightarrow> addr option \<Rightarrow> (addr option \<times> addr option) res option" where
  "find_cb h cb p1 p2 prev cur = (case cur of
     None \<Rightarrow> Some (Inr (prev, None))
   | Some a \<Rightarrow> (case h a of
       None \<Rightarrow> Some (Inl NullDeref)
     | Some n \<Rightarrow> if ec_fn n \<noteq> Some cb \<or> ec_p1 n \<noteq> p1 \<or> ec_p2 n \<noteq> p2
                 then find_cb h cb p1 p2 cur (ec_next n)
                 else Some (Inr (prev, cur))))"

definition zcrt_event_register_ex ::
  "addr option \<Rightarrow> zEvent option \<Rightarrow> u8 \<Rightarrow> u32 \<Rightarrow> EZCRTEvtType \<Rightarrow> ptr option \<Rightarrow> ptr \<Rightarrow> ptr \<Rightarrow>
    (EZCRTErr \<times> zEvent option) res" where
  "zcrt_event_register_ex new module priority evtid evtType cb p1 p2 = (case module of
     None \<Rightarrow> Inr (EZCRTErr_invalidCrtModule, None)
   | Some m \<Rightarrow> (case cb of
       None \<Rightarrow> Inr (EZCRTErr_paramErr, Some m)
     | Some fn \<Rightarrow>
         if unat evtid \<ge> ZCRT_MAX_EVT then Inr (EZCRTErr_paramErr, Some m) else
         rbind (zcrt_Event_malloc_cb new m priority evtType fn p1 p2) (\<lambda>(job, mng).
           let i = unat evtid; h = ev_heap mng; head = ev_list mng ! i in
           if head = None then Inr (EZCRTErr_success, Some (mng\<lparr>ev_list := (ev_list mng)[i := job]\<rparr>))
           else rbind (run (find_pri h priority None head)) (\<lambda>(prev, _). case prev of
             None \<Rightarrow>
               rbind (deref job) (\<lambda>j. rbind (deref (h j)) (\<lambda>jn.
                 Inr (EZCRTErr_success,
                   Some (mng\<lparr>ev_heap := h(j \<mapsto> jn\<lparr>ec_next := head\<rparr>), ev_list := (ev_list mng)[i := job]\<rparr>))))
           | Some p \<Rightarrow>
               rbind (deref job) (\<lambda>j. rbind (deref (h p)) (\<lambda>pn. rbind (deref (h j)) (\<lambda>jn.
                 let h1 = h(j \<mapsto> jn\<lparr>ec_next := ec_next pn\<rparr>) in
                 rbind (deref (h1 p)) (\<lambda>pn1.
                 Inr (EZCRTErr_success, Some (mng\<lparr>ev_heap := h1(p \<mapsto> pn1\<lparr>ec_next := Some j\<rparr>)\<rparr>))))))))))"

definition zcrt_event_register ::
  "addr option \<Rightarrow> zEvent option \<Rightarrow> u8 \<Rightarrow> u32 \<Rightarrow> ptr option \<Rightarrow> ptr \<Rightarrow> ptr \<Rightarrow> (EZCRTErr \<times> zEvent option) res" where
  "zcrt_event_register new module priority evtid cb p1 p2 =
     zcrt_event_register_ex new module priority evtid EZCRTEvtType_all cb p1 p2"

definition zcrt_event_unregister ::
  "zEvent option \<Rightarrow> u32 \<Rightarrow> ptr option \<Rightarrow> ptr \<Rightarrow> ptr \<Rightarrow> zEvent option res" where
  "zcrt_event_unregister module evtid cb p1 p2 = (case (module, cb) of
     (Some mng, Some fn) \<Rightarrow>
       if unat evtid \<ge> ZCRT_MAX_EVT then Inr module else
       rbind (zassert (ev_last mng \<noteq> evtid)) (\<lambda>_.
       let i = unat evtid; h = ev_heap mng; head = ev_list mng ! i in
       if head = None then Inr (Some mng)
       else rbind (run (find_cb h fn p1 p2 None head)) (\<lambda>(prev, cur). case cur of
         None \<Rightarrow> Inr (Some mng)
       | Some c \<Rightarrow> rbind (deref (h c)) (\<lambda>cn.
           if cur \<noteq> head then
             rbind (deref prev) (\<lambda>p. rbind (deref (h p)) (\<lambda>pn.
               map_sum id Some (zcrt_Event_free_cb_no_protected
                 (mng\<lparr>ev_heap := h(p \<mapsto> pn\<lparr>ec_next := ec_next cn\<rparr>)\<rparr>) c)))
           else map_sum id Some (zcrt_Event_free_cb_no_protected
                 (mng\<lparr>ev_list := (ev_list mng)[i := ec_next cn]\<rparr>) c))))
   | _ \<Rightarrow> Inr module)"

text \<open>
  A callback is called with the event, its data and the two arguments on the manager and the rest of
  the program's state; it may call the manager itself. The next pointer is read after the callback.
\<close>

type_synonym 'w ev_call = "ptr \<Rightarrow> u32 \<Rightarrow> ptr \<Rightarrow> ptr \<Rightarrow> ptr \<Rightarrow> zEvent \<times> 'w \<Rightarrow> (zEvent \<times> 'w) res"

partial_function (option) send_loop ::
  "'w ev_call \<Rightarrow> u32 \<Rightarrow> EZCRTEvtType \<Rightarrow> ptr \<Rightarrow> addr option \<Rightarrow> zEvent \<times> 'w \<Rightarrow> (zEvent \<times> 'w) res option" where
  "send_loop call evtid evtType evtdata cur s = (case cur of
     None \<Rightarrow> Some (Inr s)
   | Some a \<Rightarrow> (case ev_heap (fst s) a of
       None \<Rightarrow> Some (Inl NullDeref)
     | Some n \<Rightarrow>
         if ec_type n = evtType \<or> ec_type n = EZCRTEvtType_all \<or> evtType = EZCRTEvtType_all then
           (case rbind (deref (ec_fn n)) (\<lambda>f. call f evtid evtdata (ec_p1 n) (ec_p2 n) s) of
              Inl e \<Rightarrow> Some (Inl e)
            | Inr s1 \<Rightarrow> (case ev_heap (fst s1) a of
                None \<Rightarrow> Some (Inl NullDeref)
              | Some n1 \<Rightarrow> send_loop call evtid evtType evtdata (ec_next n1) s1))
         else send_loop call evtid evtType evtdata (ec_next n) s))"

definition zcrt_event_send_ex ::
  "'w ev_call \<Rightarrow> zEvent option \<Rightarrow> 'w \<Rightarrow> u32 \<Rightarrow> EZCRTEvtType \<Rightarrow> ptr \<Rightarrow> (zEvent option \<times> 'w) res" where
  "zcrt_event_send_ex call module w evtid evtType evtdata = (case module of
     None \<Rightarrow> Inr (None, w)
   | Some m \<Rightarrow>
       if unat evtid \<ge> ZCRT_MAX_EVT then Inr (Some m, w) else
       let mng = m\<lparr>ev_last := evtid\<rparr> in
       rbind (run (send_loop call evtid evtType evtdata (ev_list mng ! unat evtid) (mng, w))) (\<lambda>(mng1, w1).
         Inr (Some (mng1\<lparr>ev_last := 0\<rparr>), w1)))"

definition zcrt_event_send ::
  "'w ev_call \<Rightarrow> zEvent option \<Rightarrow> 'w \<Rightarrow> u32 \<Rightarrow> ptr \<Rightarrow> (zEvent option \<times> 'w) res" where
  "zcrt_event_send call module w evtid evtdata =
     zcrt_event_send_ex call module w evtid EZCRTEvtType_all evtdata"

section \<open>Well-formed managers\<close>

definition ec_set_next :: "addr option \<Rightarrow> zEventCB \<Rightarrow> zEventCB" where
  "ec_set_next q n = n\<lparr>ec_next := q\<rparr>"

interpretation ev: linked ec_next ec_set_next
  by unfold_locales (simp_all add: ec_set_next_def)

text \<open>
  \<^verbatim>\<open>fs\<close> lists the free nodes and \<^verbatim>\<open>ass\<close> the nodes subscribed to each event. The free
  list is list 0 of one family of disjoint lists; every subscribed node has a callback.
\<close>

definition ev_wf :: "zEvent \<Rightarrow> addr list \<Rightarrow> addr list list \<Rightarrow> bool" where
  "ev_wf m fs ass \<longleftrightarrow> chains ec_next (ev_heap m) (ev_freelist m # ev_list m) (fs # ass) \<and>
     length (ev_list m) = ZCRT_MAX_EVT \<and> ev_freesize m = of_nat (length fs) \<and>
     (\<forall>a \<in> set (concat ass). ec_fn (the (ev_heap m a)) \<noteq> None)"

text \<open>The subscriptions of an event, in the order they are called.\<close>

definition subs :: "zEvent \<Rightarrow> addr list list \<Rightarrow> nat \<Rightarrow> zEventCB list" where
  "subs m ass k = contents_of ec_set_next (ev_heap m) (ass ! k)"

definition new_sub :: "u8 \<Rightarrow> EZCRTEvtType \<Rightarrow> ptr \<Rightarrow> ptr \<Rightarrow> ptr \<Rightarrow> zEventCB" where
  "new_sub priority evtType fn p1 p2 =
     \<lparr>ec_fn = Some fn, ec_pri = priority, ec_type = evtType, ec_p1 = p1, ec_p2 = p2, ec_next = None\<rparr>"

text \<open>Where a subscription goes: behind every other of at least its priority at the front.\<close>

definition insert_sub :: "zEventCB \<Rightarrow> zEventCB list \<Rightarrow> zEventCB list" where
  "insert_sub x xs = takeWhile (\<lambda>y. ec_pri y \<ge> ec_pri x) xs @ x # dropWhile (\<lambda>y. ec_pri y \<ge> ec_pri x) xs"

definition by_pri :: "zEventCB list \<Rightarrow> bool" where
  "by_pri xs \<longleftrightarrow> sorted_wrt (\<lambda>x y. ec_pri x \<ge> ec_pri y) xs"

lemma by_pri_insert: "by_pri xs \<Longrightarrow> by_pri (insert_sub x xs)"
proof -
  assume s: "by_pri xs"
  let ?P = "\<lambda>y. ec_pri y \<ge> ec_pri x"
  have t: "by_pri (takeWhile ?P xs)" "by_pri (dropWhile ?P xs)"
    "\<forall>a \<in> set (takeWhile ?P xs). \<forall>b \<in> set (dropWhile ?P xs). ec_pri a \<ge> ec_pri b"
  proof -
    have "by_pri (takeWhile ?P xs @ dropWhile ?P xs)" using s by simp
    then show "by_pri (takeWhile ?P xs)" "by_pri (dropWhile ?P xs)"
      "\<forall>a \<in> set (takeWhile ?P xs). \<forall>b \<in> set (dropWhile ?P xs). ec_pri a \<ge> ec_pri b"
      unfolding by_pri_def sorted_wrt_append by blast+
  qed
  have hi: "\<forall>a \<in> set (takeWhile ?P xs). ?P a" by (auto dest: set_takeWhileD)
  have lo: "\<forall>b \<in> set (dropWhile ?P xs). ec_pri b \<le> ec_pri x"
  proof (cases "dropWhile ?P xs")
    case (Cons b bs)
    then have "\<not> ?P b" by (metis hd_dropWhile list.distinct(1) list.sel(1))
    moreover have "\<forall>c \<in> set bs. ec_pri c \<le> ec_pri b" using t(2) Cons by (simp add: by_pri_def)
    ultimately have "\<forall>c \<in> set (b # bs). ec_pri c \<le> ec_pri x" by fastforce
    then show ?thesis unfolding Cons .
  next
    case Nil
    then show ?thesis by (simp only: list.set ball_empty)
  qed
  show ?thesis
    using t hi lo unfolding insert_sub_def by_pri_def sorted_wrt_append sorted_wrt.simps list.set by blast
qed

lemma find_pri_chain:
  assumes "chain ec_next h p as None"
  shows "find_pri h pri prev p = Some (Inr
    (if takeWhile (\<lambda>a. ec_pri (the (h a)) \<ge> pri) as = [] then prev
       else Some (last (takeWhile (\<lambda>a. ec_pri (the (h a)) \<ge> pri) as)),
     case dropWhile (\<lambda>a. ec_pri (the (h a)) \<ge> pri) as of [] \<Rightarrow> None | a # _ \<Rightarrow> Some a))"
  using assms
proof (induction as arbitrary: p prev)
  case Nil
  then show ?case by (subst find_pri.simps) simp
next
  case (Cons a as)
  then obtain n where n: "p = Some a" "h a = Some n" "chain ec_next h (ec_next n) as None" by auto
  then show ?case
    using Cons.IH [OF n(3), of "Some a"] by (subst find_pri.simps) simp
qed

lemma ev_wfD:
  assumes "ev_wf m fs ass"
  shows "chains ec_next (ev_heap m) (ev_freelist m # ev_list m) (fs # ass)"
    "length (ev_list m) = 256" "length ass = 256" "ev_freesize m = of_nat (length fs)"
    "a \<in> set (concat ass) \<Longrightarrow> ec_fn (the (ev_heap m a)) \<noteq> None"
    "k < 256 \<Longrightarrow> chain ec_next (ev_heap m) (ev_list m ! k) (ass ! k) None"
    "chain ec_next (ev_heap m) (ev_freelist m) fs None"
proof -
  show c: "chains ec_next (ev_heap m) (ev_freelist m # ev_list m) (fs # ass)"
    using assms by (simp add: ev_wf_def)
  show l: "length (ev_list m) = 256" using assms by (simp add: ev_wf_def ZCRT_MAX_EVT_def)
  then show "length ass = 256" using chainsD(1) [OF c] by simp
  show "ev_freesize m = of_nat (length fs)" using assms by (simp add: ev_wf_def)
  show "a \<in> set (concat ass) \<Longrightarrow> ec_fn (the (ev_heap m a)) \<noteq> None"
    using assms unfolding ev_wf_def by blast
  show "k < 256 \<Longrightarrow> chain ec_next (ev_heap m) (ev_list m ! k) (ass ! k) None"
    using chainsD(3) [OF c, of "Suc k"] l by simp
  show "chain ec_next (ev_heap m) (ev_freelist m) fs None" using chainsD(3) [OF c, of 0] by simp
qed

lemma malloc_cb_wf:
  assumes wf: "ev_wf m fs ass" and al: "can_alloc (ev_heap m) (ev_freelist m) new"
  obtains a m1 where "zcrt_Event_malloc_cb new m pri ty fn p1 p2 = Inr (Some a, m1)"
    "ev_wf m1 (tl fs) ass" "ev_list m1 = ev_list m" "ev_last m1 = ev_last m" "a \<notin> set (concat (tl fs # ass))"
    "ev_heap m1 = (ev_heap m)(a \<mapsto> new_sub pri ty fn p1 p2)"
proof (cases "ev_freelist m")
  case None
  then have fs: "fs = []" using ev_wfD(7) [OF wf] by simp
  obtain a where a: "new = Some a" "ev_heap m a = None" using al None by (auto simp: can_alloc_def)
  note f = chains_fresh [OF ev_wfD(1) [OF wf] a(2)]
  have "zcrt_Event_malloc_cb new m pri ty fn p1 p2 =
      Inr (Some a, m\<lparr>ev_heap := (ev_heap m)(a \<mapsto> new_sub pri ty fn p1 p2)\<rparr>)"
    using None a(1) by (simp add: zcrt_Event_malloc_cb_def new_sub_def)
  then show ?thesis using that f wf fs by (fastforce simp: ev_wf_def)
next
  case (Some a)
  obtain n rest where f: "fs = a # rest" "ev_heap m a = Some n" "a \<notin> set (concat (rest # ass))"
    "\<And>job. chains ec_next ((ev_heap m)(a \<mapsto> job)) (ec_next n # ev_list m) (rest # ass)"
    using chains_pop ev_wfD(1) [OF wf] Some by metis
  have "zcrt_Event_malloc_cb new m pri ty fn p1 p2 =
      Inr (Some a, m\<lparr>ev_freelist := ec_next n, ev_freesize := ev_freesize m - 1,
        ev_heap := (ev_heap m)(a \<mapsto> new_sub pri ty fn p1 p2)\<rparr>)"
    using Some f(2) by (simp add: zcrt_Event_malloc_cb_def new_sub_def)
  then show ?thesis using that f wf by (fastforce simp: ev_wf_def)
qed

section \<open>Registering\<close>

lemma subs_len: "length (subs m ass k) = length (ass ! k)"
  by (simp add: subs_def contents_of_def)

text \<open>Node \<^verbatim>\<open>a\<close> enters list \<^verbatim>\<open>k\<close> between the addresses \<^verbatim>\<open>xs\<close> and \<^verbatim>\<open>ys\<close>.\<close>

lemma insert_wf:
  assumes wf: "ev_wf m fs ass" and k: "k < 256" and at: "ass ! k = xs @ ys"
    and a: "a \<notin> set (concat (fs # ass))" "ec_fn x \<noteq> None"
    and m': "m' = m\<lparr>ev_heap := h', ev_list := ps'\<rparr>"
    and ch: "chains ec_next h' (ev_freelist m # ps') (fs # ass[k := xs @ a # ys])"
    and view: "\<And>b. map_option (ec_set_next None) (h' b) =
      (if b = a then Some (ec_set_next None x) else map_option (ec_set_next None) (ev_heap m b))"
  shows "ev_wf m' fs (ass[k := xs @ a # ys]) \<and>
    subs m' (ass[k := xs @ a # ys]) k =
      contents_of ec_set_next (ev_heap m) xs @ ec_set_next None x # contents_of ec_set_next (ev_heap m) ys \<and>
    (\<forall>j. j \<noteq> k \<longrightarrow> j < 256 \<longrightarrow> subs m' (ass[k := xs @ a # ys]) j = subs m ass j)"
proof -
  have l: "length ass = 256" by (rule ev_wfD(3) [OF wf])
  have dom: "\<exists>n. ev_heap m b = Some n" if "b \<in> set (concat ass)" for b
    using chains_dom [OF ev_wfD(1) [OF wf]] that by auto
  have same: "ec_set_next None (the (h' b)) = ec_set_next None (the (ev_heap m b))" if "b \<in> set (concat ass)" for b
  proof -
    have "b \<noteq> a" using that a(1) by auto
    with view [of b] dom [OF that] show ?thesis by (cases "h' b") auto
  qed
  have xa: "ec_set_next None (the (h' a)) = ec_set_next None x" using view [of a] by (cases "h' a") auto
  have fn: "ec_fn (ec_set_next None n) = ec_fn n" for n by (simp add: ec_set_next_def)
  have in_k: "b \<in> set (concat ass)" if "b \<in> set (ass ! j)" "j < 256" for b j
    using that l concat_nth by metis
  have set': "set (concat (ass[k := xs @ a # ys])) = insert a (set (concat ass))"
    using distinct_concat_in [of ass k xs ys a] chainsD(2) [OF ev_wfD(1) [OF wf]] l k at a(1) by simp
  have "\<forall>b \<in> set (concat (ass[k := xs @ a # ys])). ec_fn (the (h' b)) \<noteq> None"
  proof
    fix b assume "b \<in> set (concat (ass[k := xs @ a # ys]))"
    then consider "b = a" | "b \<in> set (concat ass)" using set' by blast
    then show "ec_fn (the (h' b)) \<noteq> None"
    proof cases
      case 1
      have "ec_fn (the (h' a)) = ec_fn x" using arg_cong [OF xa, of ec_fn] by (simp only: fn)
      then show ?thesis using 1 a(2) by simp
    next
      case 2
      have "ec_fn (the (h' b)) = ec_fn (the (ev_heap m b))" using arg_cong [OF same [OF 2], of ec_fn] by (simp only: fn)
      then show ?thesis using ev_wfD(5) [OF wf 2] by simp
    qed
  qed
  moreover have "length ps' = 256" using chainsD(1) [OF ch] l by simp
  ultimately have "ev_wf m' fs (ass[k := xs @ a # ys])"
    using ch m' ev_wfD(4) [OF wf] by (simp add: ev_wf_def ZCRT_MAX_EVT_def)
  moreover have "subs m' (ass[k := xs @ a # ys]) k =
      contents_of ec_set_next (ev_heap m) xs @ ec_set_next None x # contents_of ec_set_next (ev_heap m) ys"
  proof -
    have "b \<in> set (concat ass)" if "b \<in> set xs \<union> set ys" for b
      using in_k [of b k] that at k by auto
    then have "contents_of ec_set_next h' xs = contents_of ec_set_next (ev_heap m) xs"
      "contents_of ec_set_next h' ys = contents_of ec_set_next (ev_heap m) ys"
      using same by (auto intro: contents_of_cong)
    then show ?thesis using k l m' xa by (simp add: subs_def)
  qed
  moreover have "subs m' (ass[k := xs @ a # ys]) j = subs m ass j" if "j \<noteq> k" "j < 256" for j
    using that m' same in_k [of _ j] by (auto simp: subs_def intro: contents_of_cong)
  ultimately show ?thesis by blast
qed

lemma takeWhile_contents:
  "(\<And>n. P (ec_set_next None n) = P n) \<Longrightarrow>
    takeWhile P (contents_of ec_set_next h as) = contents_of ec_set_next h (takeWhile (\<lambda>a. P (the (h a))) as) \<and>
    dropWhile P (contents_of ec_set_next h as) = contents_of ec_set_next h (dropWhile (\<lambda>a. P (the (h a))) as)"
  by (induction as) auto

lemma register_spec:
  assumes wf: "ev_wf m fs ass" and al: "can_alloc (ev_heap m) (ev_freelist m) new" and k: "unat evtid < 256"
  obtains m' fs' ass' where
    "zcrt_event_register_ex new (Some m) pri evtid ty (Some fn) p1 p2 = Inr (EZCRTErr_success, Some m')"
    "ev_wf m' fs' ass'" "ev_last m' = ev_last m"
    "subs m' ass' (unat evtid) = insert_sub (new_sub pri ty fn p1 p2) (subs m ass (unat evtid))"
    "\<And>j. j \<noteq> unat evtid \<Longrightarrow> j < 256 \<Longrightarrow> subs m' ass' j = subs m ass j"
proof -
  let ?k = "unat evtid" and ?x = "new_sub pri ty fn p1 p2"
  obtain a m1 where m1: "zcrt_Event_malloc_cb new m pri ty fn p1 p2 = Inr (Some a, m1)"
    "ev_wf m1 (tl fs) ass" "ev_list m1 = ev_list m" "ev_last m1 = ev_last m" "a \<notin> set (concat (tl fs # ass))"
    "ev_heap m1 = (ev_heap m)(a \<mapsto> ?x)"
    using malloc_cb_wf [OF wf al] by metis
  let ?h = "ev_heap m1" and ?ps = "ev_freelist m1 # ev_list m1"
  note w = ev_wfD [OF m1(2)]
  have ha: "?h a = Some ?x" using m1(6) by simp
  have xf: "ec_fn ?x \<noteq> None" "ec_next ?x = None" "ec_set_next None ?x = ?x" "ec_pri ?x = pri"
    by (simp_all add: new_sub_def ec_set_next_def)
  have ch: "chain ec_next ?h (ev_list m1 ! ?k) (ass ! ?k) None" by (rule w(6) [OF k])
  have subs1: "subs m1 ass j = subs m ass j" if "j < 256" for j
  proof -
    have "a \<notin> set (ass ! j)" using m1(5) concat_nth [of j ass a] that w(3) by auto
    then show ?thesis by (simp add: subs_def m1(6) ev.contents_of_upd)
  qed
  let ?P = "\<lambda>b. ec_pri (the (?h b)) \<ge> pri"
  let ?t = "takeWhile ?P (ass ! ?k)" and ?d = "dropWhile ?P (ass ! ?k)"
  have at: "ass ! ?k = ?t @ ?d" by simp
  have ins: "insert_sub ?x (subs m1 ass ?k) =
      contents_of ec_set_next ?h ?t @ ?x # contents_of ec_set_next ?h ?d"
    using takeWhile_contents [of "\<lambda>n. ec_pri n \<ge> pri" ?h "ass ! ?k"]
    by (simp add: insert_sub_def subs_def xf(4) ec_set_next_def)
  have "\<exists>m' h' ps'. zcrt_event_register_ex new (Some m) pri evtid ty (Some fn) p1 p2 = Inr (EZCRTErr_success, Some m') \<and>
      m' = m1\<lparr>ev_heap := h', ev_list := ps'\<rparr> \<and>
      chains ec_next h' (ev_freelist m1 # ps') (tl fs # ass[?k := ?t @ a # ?d]) \<and>
      (\<forall>b. map_option (ec_set_next None) (h' b) =
        (if b = a then Some (ec_set_next None ?x) else map_option (ec_set_next None) (?h b)))"
  proof (cases "?t = []")
    case True
    then have d: "?d = ass ! ?k" using at by simp
    let ?n = "?x\<lparr>ec_next := ev_list m1 ! ?k\<rparr>"
    have c: "chains ec_next (?h(a \<mapsto> ?n)) (ev_freelist m1 # (ev_list m1)[?k := Some a]) (tl fs # ass[?k := a # ass ! ?k])"
      using ev.chains_insert_front [OF w(1), of "Suc ?k" a ?n] k w(2) m1(5) by simp
    have "zcrt_event_register_ex new (Some m) pri evtid ty (Some fn) p1 p2 =
        Inr (EZCRTErr_success, Some (m1\<lparr>ev_heap := ?h(a \<mapsto> ?n), ev_list := (ev_list m1)[?k := Some a]\<rparr>))"
    proof (cases "ev_list m1 ! ?k")
      case None
      then have "?n = ?x" using xf(2) by (simp add: new_sub_def)
      then have "?h(a \<mapsto> ?n) = ?h" using ha by (simp add: fun_upd_idem)
      then show ?thesis using None m1(1) k by (simp add: zcrt_event_register_ex_def ZCRT_MAX_EVT_def Let_def)
    next
      case (Some b)
      then show ?thesis using m1(1) k ha find_pri_chain [OF ch, of pri None] True
        by (simp add: zcrt_event_register_ex_def ZCRT_MAX_EVT_def Let_def)
    qed
    moreover have "\<forall>b. map_option (ec_set_next None) ((?h(a \<mapsto> ?n)) b) =
        (if b = a then Some (ec_set_next None ?x) else map_option (ec_set_next None) (?h b))"
      by (simp add: ec_set_next_def)
    moreover have "chains ec_next (?h(a \<mapsto> ?n)) (ev_freelist m1 # (ev_list m1)[?k := Some a]) (tl fs # ass[?k := ?t @ a # ?d])"
      using c True d by simp
    ultimately show ?thesis by blast
  next
    case False
    define l where "l = last ?t"
    obtain ws where ws: "?t = ws @ [l]" using False unfolding l_def by (metis append_butlast_last_id)
    have atl: "ass ! ?k = ws @ l # ?d" using at ws by simp
    then have "l \<in> set (ass ! ?k)" by (metis in_set_conv_decomp)
    then have lin: "l \<in> set (concat ass)" using concat_nth [of ?k ass l] k w(3) by simp
    then obtain ln where ln: "?h l = Some ln" using chains_dom [OF w(1), of l] by auto
    have la: "l \<noteq> a" using lin m1(5) by auto
    obtain hd where head: "ev_list m1 ! ?k = Some hd" using ch atl by (cases "ass ! ?k") auto
    let ?n = "?x\<lparr>ec_next := ec_next ln\<rparr>"
    let ?h' = "?h(a \<mapsto> ?n, l \<mapsto> ec_set_next (Some a) ln)"
    have c: "chains ec_next ?h' (ev_freelist m1 # ev_list m1) (tl fs # ass[?k := ws @ l # a # ?d])"
      using ev.chains_insert_after [OF w(1), of "Suc ?k" ws l ?d a ln ?n] k w(2) m1(5) atl ln by simp
    have "zcrt_event_register_ex new (Some m) pri evtid ty (Some fn) p1 p2 =
        Inr (EZCRTErr_success, Some (m1\<lparr>ev_heap := ?h'\<rparr>))"
      using m1(1) k ha head find_pri_chain [OF ch, of pri None] False ln la
      by (simp add: zcrt_event_register_ex_def ZCRT_MAX_EVT_def Let_def l_def [symmetric] ec_set_next_def)
    moreover have "\<forall>b. map_option (ec_set_next None) (?h' b) =
        (if b = a then Some (ec_set_next None ?x) else map_option (ec_set_next None) (?h b))"
      using la ln by (simp add: ec_set_next_def)
    moreover have "ws @ l # a # ?d = ?t @ a # ?d" using ws by simp
    moreover have "m1\<lparr>ev_heap := ?h'\<rparr> = m1\<lparr>ev_heap := ?h', ev_list := ev_list m1\<rparr>" by simp
    ultimately show ?thesis using c by metis
  qed
  then obtain m' h' ps' where r: "zcrt_event_register_ex new (Some m) pri evtid ty (Some fn) p1 p2 = Inr (EZCRTErr_success, Some m')"
    "m' = m1\<lparr>ev_heap := h', ev_list := ps'\<rparr>"
    "chains ec_next h' (ev_freelist m1 # ps') (tl fs # ass[?k := ?t @ a # ?d])"
    "\<And>b. map_option (ec_set_next None) (h' b) =
        (if b = a then Some (ec_set_next None ?x) else map_option (ec_set_next None) (?h b))" by blast
  note i = insert_wf [OF m1(2) k at m1(5) xf(1) r(2,3,4)]
  show ?thesis
  proof (rule that [OF r(1)])
    show "ev_wf m' (tl fs) (ass[?k := ?t @ a # ?d])" using i by blast
    show "ev_last m' = ev_last m" using r(2) m1(4) by simp
    show "subs m' (ass[?k := ?t @ a # ?d]) ?k = insert_sub ?x (subs m ass ?k)"
      using i ins xf(3) subs1 [OF k] by simp
    show "subs m' (ass[?k := ?t @ a # ?d]) j = subs m ass j" if "j \<noteq> ?k" "j < 256" for j
      using i that subs1 by simp
  qed
qed

section \<open>Unregistering\<close>

definition is_sub :: "ptr \<Rightarrow> ptr \<Rightarrow> ptr \<Rightarrow> zEventCB \<Rightarrow> bool" where
  "is_sub fn p1 p2 n \<longleftrightarrow> ec_fn n = Some fn \<and> ec_p1 n = p1 \<and> ec_p2 n = p2"

lemma is_sub_set_next [simp]: "is_sub fn p1 p2 (ec_set_next q n) = is_sub fn p1 p2 n"
  by (simp add: is_sub_def ec_set_next_def)

lemma find_cb_split:
  assumes "chain ec_next h p (xs @ c # ys) None" "\<forall>a \<in> set xs. \<not> is_sub fn p1 p2 (the (h a))"
    and "is_sub fn p1 p2 (the (h c))"
  shows "find_cb h fn p1 p2 prev p = Some (Inr (if xs = [] then prev else Some (last xs), Some c))"
  using assms
proof (induction xs arbitrary: p prev)
  case Nil
  then show ?case by (subst find_cb.simps) (auto simp: is_sub_def)
next
  case (Cons a xs)
  then obtain n where n: "p = Some a" "h a = Some n" "chain ec_next h (ec_next n) (xs @ c # ys) None" by auto
  then show ?case
    using Cons.IH [OF n(3), of "Some a"] Cons.prems by (subst find_cb.simps) (auto simp: is_sub_def)
qed

lemma find_cb_none:
  assumes "chain ec_next h p as None" "\<forall>a \<in> set as. \<not> is_sub fn p1 p2 (the (h a))"
  shows "\<exists>prev'. find_cb h fn p1 p2 prev p = Some (Inr (prev', None))"
  using assms
proof (induction as arbitrary: p prev)
  case Nil
  then show ?case by (subst find_cb.simps) simp
next
  case (Cons a as)
  then obtain n where n: "p = Some a" "h a = Some n" "chain ec_next h (ec_next n) as None" by auto
  then show ?case
    using Cons.IH [OF n(3), of "Some a"] Cons.prems by (subst find_cb.simps) (auto simp: is_sub_def)
qed

text \<open>
  What both branches of the removal end with: the node is out of its list, which now starts at the
  heads \<^verbatim>\<open>ps'\<close> in the heap \<^verbatim>\<open>h1\<close>, and goes to the free list.
\<close>

lemma sub_remove_wf:
  assumes wf: "ev_wf m fs ass" and k: "k < 256" and at: "ass ! k = xs @ c # ys"
    and ch: "chains ec_next h1 (ev_freelist m # ps') (fs # ass[k := xs @ ys])"
    and view: "\<And>b. map_option (ec_set_next None) (h1 b) = map_option (ec_set_next None) (ev_heap m b)"
  shows "\<exists>m'. zcrt_Event_free_cb_no_protected (m\<lparr>ev_heap := h1, ev_list := ps'\<rparr>) c = Inr m' \<and>
    ev_wf m' (c # fs) (ass[k := xs @ ys]) \<and> ev_last m' = ev_last m \<and>
    subs m' (ass[k := xs @ ys]) k = contents_of ec_set_next (ev_heap m) (xs @ ys) \<and>
    (\<forall>j. j \<noteq> k \<longrightarrow> j < 256 \<longrightarrow> subs m' (ass[k := xs @ ys]) j = subs m ass j)"
proof -
  have l: "length ass = 256" by (rule ev_wfD(3) [OF wf])
  have dc: "distinct (concat (fs # ass))" using chainsD(2) [OF ev_wfD(1) [OF wf]] .
  have set': "set (concat (ass[k := xs @ ys])) = set (concat ass) - {c}"
    using distinct_concat_out [of ass k xs c ys] dc l k at by simp
  have cin: "c \<in> set (concat ass)" using concat_nth [of k ass c] l k at by simp
  then obtain cn0 where cn0: "ev_heap m c = Some cn0" using chains_dom [OF ev_wfD(1) [OF wf], of c] by auto
  then obtain cn where cn: "h1 c = Some cn" using view [of c] by (cases "h1 c") auto
  let ?n = "cn\<lparr>ec_next := ev_freelist m, ec_fn := None\<rparr>"
  let ?m = "m\<lparr>ev_heap := h1(c \<mapsto> ?n), ev_list := ps', ev_freelist := Some c, ev_freesize := ev_freesize m + 1\<rparr>"
  have out: "c \<notin> set (concat (fs # ass[k := xs @ ys]))" using set' cin dc by auto
  have c2: "chains ec_next (h1(c \<mapsto> ?n)) (Some c # ps') ((c # fs) # ass[k := xs @ ys])"
    by (rule chains_push [OF ch out]) simp
  have same: "ec_set_next None (the ((h1(c \<mapsto> ?n)) b)) = ec_set_next None (the (ev_heap m b))"
    if "b \<in> set (concat ass)" "b \<noteq> c" for b
  proof -
    have "\<exists>n. ev_heap m b = Some n" by (rule chains_dom [OF ev_wfD(1) [OF wf]]) (use that(1) in simp)
    then show ?thesis using view [of b] that(2) by (cases "h1 b") auto
  qed
  have fn: "ec_fn (ec_set_next None n) = ec_fn n" for n by (simp add: ec_set_next_def)
  have "\<forall>b \<in> set (concat (ass[k := xs @ ys])). ec_fn (the ((h1(c \<mapsto> ?n)) b)) \<noteq> None"
  proof
    fix b assume "b \<in> set (concat (ass[k := xs @ ys]))"
    then have b: "b \<in> set (concat ass)" "b \<noteq> c" using set' by auto
    have "ec_fn (the ((h1(c \<mapsto> ?n)) b)) = ec_fn (the (ev_heap m b))"
      using arg_cong [OF same [OF b], of ec_fn] by (simp only: fn)
    then show "ec_fn (the ((h1(c \<mapsto> ?n)) b)) \<noteq> None" using ev_wfD(5) [OF wf b(1)] by simp
  qed
  moreover have "length ps' = 256" using chainsD(1) [OF ch] l by simp
  ultimately have wf': "ev_wf ?m (c # fs) (ass[k := xs @ ys])"
    using c2 ev_wfD(4) [OF wf] by (simp add: ev_wf_def ZCRT_MAX_EVT_def)
  have "b \<in> set (concat ass) \<and> b \<noteq> c" if "b \<in> set (xs @ ys)" for b
  proof -
    have "b \<in> set (concat (ass[k := xs @ ys]))" using that k l by (intro concat_nth [of k]) simp_all
    then show ?thesis using set' by auto
  qed
  then have "contents_of ec_set_next (ev_heap ?m) (xs @ ys) = contents_of ec_set_next (ev_heap m) (xs @ ys)"
    using same by (intro contents_of_cong) simp
  then have "subs ?m (ass[k := xs @ ys]) k = contents_of ec_set_next (ev_heap m) (xs @ ys)"
    using k l by (simp add: subs_def)
  moreover have "subs ?m (ass[k := xs @ ys]) j = subs m ass j" if j: "j \<noteq> k" "j < 256" for j
  proof -
    have "b \<in> set (concat ass) \<and> b \<noteq> c" if "b \<in> set (ass ! j)" for b
    proof -
      have "b \<in> set (concat (ass[k := xs @ ys]))" using that j l by (intro concat_nth [of j]) simp_all
      then show ?thesis using set' by auto
    qed
    then have "contents_of ec_set_next (ev_heap ?m) (ass ! j) = contents_of ec_set_next (ev_heap m) (ass ! j)"
      using same by (intro contents_of_cong) simp
    then show ?thesis using j by (simp add: subs_def)
  qed
  moreover have "zcrt_Event_free_cb_no_protected (m\<lparr>ev_heap := h1, ev_list := ps'\<rparr>) c = Inr ?m"
    using cn by (simp add: zcrt_Event_free_cb_no_protected_def)
  moreover have "ev_last ?m = ev_last m" by simp
  ultimately show ?thesis using wf' by blast
qed

lemma unregister_spec:
  assumes wf: "ev_wf m fs ass" and k: "unat evtid < 256" and idle: "ev_last m \<noteq> evtid"
  obtains m' fs' ass' where "zcrt_event_unregister (Some m) evtid (Some fn) p1 p2 = Inr (Some m')"
    "ev_wf m' fs' ass'" "ev_last m' = ev_last m"
    "subs m' ass' (unat evtid) = del_first (is_sub fn p1 p2) (subs m ass (unat evtid))"
    "\<And>j. j \<noteq> unat evtid \<Longrightarrow> j < 256 \<Longrightarrow> subs m' ass' j = subs m ass j"
proof -
  let ?k = "unat evtid" and ?h = "ev_heap m"
  note w = ev_wfD [OF wf]
  have ch: "chain ec_next ?h (ev_list m ! ?k) (ass ! ?k) None" by (rule w(6) [OF k])
  show ?thesis
  proof (cases "\<exists>c \<in> set (ass ! ?k). is_sub fn p1 p2 (the (?h c))")
    case False
    then obtain pr where "find_cb ?h fn p1 p2 None (ev_list m ! ?k) = Some (Inr (pr, None))"
      using find_cb_none [OF ch] by blast
    then have "zcrt_event_unregister (Some m) evtid (Some fn) p1 p2 = Inr (Some m)"
      using idle k by (simp add: zcrt_event_unregister_def ZCRT_MAX_EVT_def Let_def)
    moreover have "del_first (is_sub fn p1 p2) (subs m ass ?k) = subs m ass ?k"
      using False by (intro del_first_none) (auto simp: subs_def contents_of_def)
    ultimately show ?thesis using that wf by simp
  next
    case True
    then obtain xs c ys where at: "ass ! ?k = xs @ c # ys" "is_sub fn p1 p2 (the (?h c))"
      "\<forall>a \<in> set xs. \<not> is_sub fn p1 p2 (the (?h a))"
      using split_list_first_prop [of "ass ! ?k" "\<lambda>a. is_sub fn p1 p2 (the (?h a))"] by blast
    note fc = find_cb_split [OF ch [unfolded at(1)] at(3,2), of None]
    have cin: "c \<in> set (concat ass)" using concat_nth [of ?k ass c] w(3) k at(1) by simp
    then obtain cn where cn: "?h c = Some cn" using chains_dom [OF w(1), of c] by auto
    obtain hd where head: "ev_list m ! ?k = Some hd" using ch at(1) by (cases xs) auto
    have "\<exists>h1 ps'. zcrt_event_unregister (Some m) evtid (Some fn) p1 p2 =
          map_sum id Some (zcrt_Event_free_cb_no_protected (m\<lparr>ev_heap := h1, ev_list := ps'\<rparr>) c) \<and>
        chains ec_next h1 (ev_freelist m # ps') (fs # ass[?k := xs @ ys]) \<and>
        (\<forall>b. map_option (ec_set_next None) (h1 b) = map_option (ec_set_next None) (?h b))"
    proof (cases "xs = []")
      case True
      have "hd = c" using ch head at(1) True by simp
      then have "zcrt_event_unregister (Some m) evtid (Some fn) p1 p2 =
          map_sum id Some (zcrt_Event_free_cb_no_protected
            (m\<lparr>ev_heap := ?h, ev_list := (ev_list m)[?k := ec_next cn]\<rparr>) c)"
        using idle k fc True head cn by (simp add: zcrt_event_unregister_def ZCRT_MAX_EVT_def Let_def)
      moreover have "chains ec_next ?h (ev_freelist m # (ev_list m)[?k := ec_next cn]) (fs # ass[?k := xs @ ys])"
        using ev.chains_out_front [OF w(1), of "Suc ?k" c ys cn] at(1) True cn k w(2) by simp
      ultimately show ?thesis by blast
    next
      case False
      then obtain ws l where ws: "xs = ws @ [l]" by (metis append_butlast_last_id)
      have lin: "l \<in> set (concat ass)" using concat_nth [of ?k ass l] w(3) k at(1) ws by simp
      then obtain ln where ln: "?h l = Some ln" using chains_dom [OF w(1), of l] by auto
      have "distinct (ass ! ?k)" by (rule chain_distinct [OF ch])
      then have "c \<noteq> hd" using ch head at(1) ws by (cases ws) auto
      then have "zcrt_event_unregister (Some m) evtid (Some fn) p1 p2 =
          map_sum id Some (zcrt_Event_free_cb_no_protected
            (m\<lparr>ev_heap := ?h(l \<mapsto> ec_set_next (ec_next cn) ln), ev_list := ev_list m\<rparr>) c)"
        using idle k fc ws head cn ln
        by (simp add: zcrt_event_unregister_def ZCRT_MAX_EVT_def Let_def ec_set_next_def)
      moreover have "chains ec_next (?h(l \<mapsto> ec_set_next (ec_next cn) ln)) (ev_freelist m # ev_list m) (fs # ass[?k := xs @ ys])"
        using ev.chains_out_after [OF w(1), of "Suc ?k" ws l c ys ln cn] at(1) ws cn ln k w(2) by simp
      moreover have "\<forall>b. map_option (ec_set_next None) ((?h(l \<mapsto> ec_set_next (ec_next cn) ln)) b) =
          map_option (ec_set_next None) (?h b)"
        using ln by (simp add: ec_set_next_def)
      ultimately show ?thesis by blast
    qed
    then obtain h1 ps' where u: "zcrt_event_unregister (Some m) evtid (Some fn) p1 p2 =
          map_sum id Some (zcrt_Event_free_cb_no_protected (m\<lparr>ev_heap := h1, ev_list := ps'\<rparr>) c)"
      "chains ec_next h1 (ev_freelist m # ps') (fs # ass[?k := xs @ ys])"
      "\<And>b. map_option (ec_set_next None) (h1 b) = map_option (ec_set_next None) (?h b)" by blast
    obtain m' where m': "zcrt_Event_free_cb_no_protected (m\<lparr>ev_heap := h1, ev_list := ps'\<rparr>) c = Inr m'"
      "ev_wf m' (c # fs) (ass[?k := xs @ ys])" "ev_last m' = ev_last m"
      "subs m' (ass[?k := xs @ ys]) ?k = contents_of ec_set_next ?h (xs @ ys)"
      "\<forall>j. j \<noteq> ?k \<longrightarrow> j < 256 \<longrightarrow> subs m' (ass[?k := xs @ ys]) j = subs m ass j"
      using sub_remove_wf [OF wf k at(1) u(2,3)] by blast
    have "del_first (is_sub fn p1 p2) (subs m ass ?k) = contents_of ec_set_next ?h (xs @ ys)"
      using at(2,3) by (simp add: subs_def at(1) del_first_split contents_of_def)
    with m' u(1) that show ?thesis by simp
  qed
qed

section \<open>Sending\<close>

definition wants :: "EZCRTEvtType \<Rightarrow> zEventCB \<Rightarrow> bool" where
  "wants ty n \<longleftrightarrow> ec_type n = ty \<or> ec_type n = EZCRTEvtType_all \<or> ty = EZCRTEvtType_all"

lemma wants_next [simp]: "wants ty (ec_set_next q n) = wants ty n"
  by (simp add: wants_def ec_set_next_def)

text \<open>A callback that leaves the manager alone acts on the rest of the state only.\<close>

definition outside :: "'w ev_call \<Rightarrow> (ptr \<Rightarrow> u32 \<Rightarrow> ptr \<Rightarrow> ptr \<Rightarrow> ptr \<Rightarrow> 'w \<Rightarrow> 'w) \<Rightarrow> bool" where
  "outside call act \<longleftrightarrow> (\<forall>f e d p1 p2 m w. call f e d p1 p2 (m, w) = Inr (m, act f e d p1 p2 w))"

text \<open>Callbacks that are called one after the other and leave the manager as it is.\<close>

inductive acts :: "'w ev_call \<Rightarrow> zEvent \<Rightarrow> u32 \<Rightarrow> ptr \<Rightarrow> zEventCB list \<Rightarrow> 'w \<Rightarrow> 'w \<Rightarrow> bool"
  for call :: "'w ev_call" and m :: zEvent and evtid :: u32 and d :: ptr where
  no_act: "acts call m evtid d [] w w"
| act: "ec_fn n = Some f \<Longrightarrow> call f evtid d (ec_p1 n) (ec_p2 n) (m, w) = Inr (m, w1) \<Longrightarrow> acts call m evtid d ns w1 w2 \<Longrightarrow>
    acts call m evtid d (n # ns) w w2"

inductive_cases acts_NilE: "acts call m evtid d [] w w1"
inductive_cases acts_ConsE: "acts call m evtid d (n # ns) w w1"

lemma send_loop_acts:
  assumes "chain ec_next (ev_heap m) p as None"
    and "acts call m evtid d (filter (wants ty) (contents_of ec_set_next (ev_heap m) as)) w w1"
  shows "send_loop call evtid ty d p (m, w) = Some (Inr (m, w1))"
  using assms
proof (induction as arbitrary: p w)
  case Nil
  then show ?case by (subst send_loop.simps) (auto elim: acts_NilE)
next
  case (Cons a as)
  then obtain n where n: "p = Some a" "ev_heap m a = Some n" "chain ec_next (ev_heap m) (ec_next n) as None" by auto
  show ?case
  proof (cases "wants ty n")
    case True
    then have "acts call m evtid d (ec_set_next None n # filter (wants ty) (contents_of ec_set_next (ev_heap m) as)) w w1"
      using Cons.prems(2) n(2) by simp
    then obtain f w2 where f: "ec_fn n = Some f" "call f evtid d (ec_p1 n) (ec_p2 n) (m, w) = Inr (m, w2)"
      "acts call m evtid d (filter (wants ty) (contents_of ec_set_next (ev_heap m) as)) w2 w1"
      by (auto elim: acts_ConsE simp: ec_set_next_def)
    show ?thesis using n f(1,2) Cons.IH [OF n(3) f(3)] True by (subst send_loop.simps) (simp add: wants_def)
  next
    case False
    then have "acts call m evtid d (filter (wants ty) (contents_of ec_set_next (ev_heap m) as)) w w1"
      using Cons.prems(2) n(2) by simp
    from Cons.IH [OF n(3) this] show ?thesis using n False by (subst send_loop.simps) (simp add: wants_def)
  qed
qed

lemma outside_acts:
  assumes "outside call act" "\<forall>n \<in> set ns. ec_fn n \<noteq> None"
  shows "acts call m evtid d ns w (fold (\<lambda>n. act (the (ec_fn n)) evtid d (ec_p1 n) (ec_p2 n)) ns w)"
  using assms(2)
proof (induction ns arbitrary: w)
  case (Cons n ns)
  then obtain f where "ec_fn n = Some f" by auto
  then show ?case using Cons assms(1) by (auto simp: outside_def intro!: acts.act)
qed (simp add: acts.no_act)

section \<open>Reachable managers\<close>

text \<open>
  The manager from its creation on, changed by registrations (with a node at hand), removals and sends
  whose callbacks leave it alone.
\<close>

inductive ev_reach :: "zEvent \<Rightarrow> bool" where
  init: "zcrt_event_manage_init True h = Some m \<Longrightarrow> ev_reach m"
| register: "ev_reach m \<Longrightarrow> can_alloc (ev_heap m) (ev_freelist m) new \<Longrightarrow>
    zcrt_event_register_ex new (Some m) pri evtid ty cb p1 p2 = Inr (r, Some m') \<Longrightarrow> ev_reach m'"
| unregister: "ev_reach m \<Longrightarrow> zcrt_event_unregister (Some m) evtid cb p1 p2 = Inr (Some m') \<Longrightarrow> ev_reach m'"
| send: "ev_reach m \<Longrightarrow> outside call act \<Longrightarrow>
    zcrt_event_send_ex (call :: unit ev_call) (Some m) w evtid ty d = Inr (Some m', w') \<Longrightarrow> ev_reach m'"

definition ev_inv :: "zEvent \<Rightarrow> bool" where
  "ev_inv m \<longleftrightarrow> (\<exists>fs ass. ev_wf m fs ass \<and> (\<forall>k < 256. by_pri (subs m ass k)) \<and> ev_last m = 0)"

lemma init_wf: "zcrt_event_manage_init True h = Some m \<Longrightarrow>
  ev_wf m [] (replicate 256 []) \<and> (\<forall>k < 256. subs m (replicate 256 []) k = []) \<and> ev_last m = 0"
proof -
  assume "zcrt_event_manage_init True h = Some m"
  then have m: "m = \<lparr>ev_heap = h, ev_freelist = None, ev_freesize = 0, ev_last = 0, ev_list = replicate 256 None\<rparr>"
    by (simp add: zcrt_event_manage_init_def ZCRT_MAX_EVT_def)
  have "concat (replicate n []) = ([] :: addr list)" for n by (induction n) auto
  then show ?thesis
    unfolding m ev_wf_def chains_def by (simp add: ZCRT_MAX_EVT_def list_all2_conv_all_nth nth_Cons' subs_def)
qed

lemma by_pri_del_first: "by_pri xs \<Longrightarrow> by_pri (del_first P xs)"
proof -
  assume "by_pri xs"
  then have "by_pri (takeWhile (\<lambda>x. \<not> P x) xs @ dropWhile (\<lambda>x. \<not> P x) xs)" by simp
  moreover have "by_pri (t @ d) \<Longrightarrow> by_pri (t @ tl d)" for t d
    by (cases d) (auto simp: by_pri_def sorted_wrt_append)
  ultimately show ?thesis unfolding del_first_def by blast
qed

lemma send_acts:
  assumes wf: "ev_wf m fs ass" and k: "unat evtid < 256"
    and a: "acts call (m\<lparr>ev_last := evtid\<rparr>) evtid d (filter (wants ty) (subs m ass (unat evtid))) w w1"
  shows "zcrt_event_send_ex call (Some m) w evtid ty d = Inr (Some (m\<lparr>ev_last := 0\<rparr>), w1)"
proof -
  let ?m = "m\<lparr>ev_last := evtid\<rparr>"
  have "chain ec_next (ev_heap ?m) (ev_list m ! unat evtid) (ass ! unat evtid) None"
    using ev_wfD(6) [OF wf k] by simp
  from send_loop_acts [OF this, of call evtid d ty w w1] show ?thesis
    using k a by (simp add: zcrt_event_send_ex_def ZCRT_MAX_EVT_def Let_def subs_def)
qed

lemma send_spec:
  assumes wf: "ev_wf m fs ass" and out: "outside call act" and k: "unat evtid < 256"
  shows "zcrt_event_send_ex call (Some m) w evtid ty d = Inr (Some (m\<lparr>ev_last := 0\<rparr>),
    fold (\<lambda>n. act (the (ec_fn n)) evtid d (ec_p1 n) (ec_p2 n)) (filter (wants ty) (subs m ass (unat evtid))) w)"
proof -
  have "\<forall>a \<in> set (ass ! unat evtid). ec_fn (the (ev_heap m a)) \<noteq> None"
    using ev_wfD(3,5) [OF wf] concat_nth [of "unat evtid" ass] k by simp
  then have "\<forall>n \<in> set (filter (wants ty) (subs m ass (unat evtid))). ec_fn n \<noteq> None"
    by (auto simp: subs_def contents_of_def ec_set_next_def)
  from send_acts [OF wf k outside_acts [OF out this]] show ?thesis .
qed

lemma ev_inv_frame: "ev_inv m \<Longrightarrow> ev_inv (m\<lparr>ev_last := 0\<rparr>)"
  by (auto simp: ev_inv_def ev_wf_def subs_def)

lemma ev_reach_inv: "ev_reach m \<Longrightarrow> ev_inv m"
proof (induction rule: ev_reach.induct)
  case (init h m)
  have "\<forall>k < 256. by_pri (subs m (replicate 256 []) k)" using init_wf [OF init] by (simp add: by_pri_def)
  then show ?case using init_wf [OF init] unfolding ev_inv_def by blast
next
  case (register m new pri evtid ty cb p1 p2 r m')
  then obtain fs ass where i: "ev_wf m fs ass" "\<forall>k < 256. by_pri (subs m ass k)" "ev_last m = 0"
    by (auto simp: ev_inv_def)
  show ?case
  proof (cases "unat evtid < 256 \<and> cb \<noteq> None")
    case False
    then have "m' = m"
      using register.hyps by (cases cb) (auto simp: zcrt_event_register_ex_def ZCRT_MAX_EVT_def)
    with i show ?thesis by (auto simp: ev_inv_def)
  next
    case True
    then obtain fn where fn: "cb = Some fn" "unat evtid < 256" by auto
    obtain m1 fs' ass' where r: "zcrt_event_register_ex new (Some m) pri evtid ty (Some fn) p1 p2 = Inr (EZCRTErr_success, Some m1)"
      "ev_wf m1 fs' ass'" "ev_last m1 = ev_last m"
      "subs m1 ass' (unat evtid) = insert_sub (new_sub pri ty fn p1 p2) (subs m ass (unat evtid))"
      "\<And>j. j \<noteq> unat evtid \<Longrightarrow> j < 256 \<Longrightarrow> subs m1 ass' j = subs m ass j"
      using register_spec [OF i(1) register.hyps(2) fn(2)] by metis
    have "by_pri (subs m1 ass' j)" if "j < 256" for j
      using i(2) r(4,5) that by (cases "j = unat evtid") (simp_all add: by_pri_insert)
    moreover have "m' = m1" using r(1) register.hyps(3) fn(1) by simp
    ultimately show ?thesis using r(2,3) i(3) by (auto simp: ev_inv_def)
  qed
next
  case (unregister m evtid cb p1 p2 m')
  then obtain fs ass where i: "ev_wf m fs ass" "\<forall>k < 256. by_pri (subs m ass k)" "ev_last m = 0"
    by (auto simp: ev_inv_def)
  show ?case
  proof (cases "unat evtid < 256 \<and> cb \<noteq> None")
    case False
    then have "m' = m"
      using unregister.hyps by (cases cb) (auto simp: zcrt_event_unregister_def ZCRT_MAX_EVT_def)
    with i show ?thesis by (auto simp: ev_inv_def)
  next
    case True
    then obtain fn where fn: "cb = Some fn" "unat evtid < 256" by auto
    have idle: "ev_last m \<noteq> evtid"
      using unregister.hyps(2) fn by (auto simp: zcrt_event_unregister_def ZCRT_MAX_EVT_def rbind_eq_Inr)
    obtain m1 fs' ass' where r: "zcrt_event_unregister (Some m) evtid (Some fn) p1 p2 = Inr (Some m1)"
      "ev_wf m1 fs' ass'" "ev_last m1 = ev_last m"
      "subs m1 ass' (unat evtid) = del_first (is_sub fn p1 p2) (subs m ass (unat evtid))"
      "\<And>j. j \<noteq> unat evtid \<Longrightarrow> j < 256 \<Longrightarrow> subs m1 ass' j = subs m ass j"
      using unregister_spec [OF i(1) fn(2) idle] by metis
    have "by_pri (subs m1 ass' j)" if "j < 256" for j
      using i(2) r(4,5) that by (cases "j = unat evtid") (simp_all add: by_pri_del_first)
    moreover have "m' = m1" using r(1) unregister.hyps(2) fn(1) by simp
    ultimately show ?thesis using r(2,3) i(3) by (auto simp: ev_inv_def)
  qed
next
  case (send m call act w evtid ty d m' w')
  show ?case
  proof (cases "unat evtid < 256")
    case True
    obtain fs ass where "ev_wf m fs ass" using send.IH by (auto simp: ev_inv_def)
    then have "m' = m\<lparr>ev_last := 0\<rparr>"
      using send_spec [OF _ send.hyps(2) True] send.hyps(3) by auto
    with ev_inv_frame [OF send.IH] show ?thesis by simp
  next
    case False
    then have "m' = m" using send.hyps(3) by (simp add: zcrt_event_send_ex_def ZCRT_MAX_EVT_def)
    with send.IH show ?thesis by simp
  qed
qed


section \<open>Properties\<close>

text \<open>Registering with a node at hand succeeds and puts the subscription behind every subscription
  of the event that has at least its priority at the front of the list; the lists of the other events
  do not change.\<close>

theorem event_register_spec:
  assumes "ev_wf m fs ass" "can_alloc (ev_heap m) (ev_freelist m) new" "unat evtid < 256"
  shows "\<exists>m' fs' ass'. zcrt_event_register_ex new (Some m) pri evtid ty (Some fn) p1 p2 = Inr (EZCRTErr_success, Some m') \<and>
    ev_wf m' fs' ass' \<and>
    (\<forall>j < 256. subs m' ass' j =
      (if j = unat evtid then insert_sub (new_sub pri ty fn p1 p2) (subs m ass j) else subs m ass j))"
proof -
  obtain m' fs' ass' where "zcrt_event_register_ex new (Some m) pri evtid ty (Some fn) p1 p2 = Inr (EZCRTErr_success, Some m')"
    "ev_wf m' fs' ass'" "subs m' ass' (unat evtid) = insert_sub (new_sub pri ty fn p1 p2) (subs m ass (unat evtid))"
    "\<And>j. j \<noteq> unat evtid \<Longrightarrow> j < 256 \<Longrightarrow> subs m' ass' j = subs m ass j"
    using register_spec [OF assms] by metis
  then show ?thesis by (intro exI [of _ m'] exI [of _ fs'] exI [of _ ass']) auto
qed

definition ev_empty :: zEvent where
  "ev_empty = \<lparr>ev_heap = Map.empty, ev_freelist = None, ev_freesize = 0, ev_last = 0,
     ev_list = replicate 256 None\<rparr>"

lemma ev_empty_init: "zcrt_event_manage_init True Map.empty = Some ev_empty"
  by (simp add: zcrt_event_manage_init_def ev_empty_def ZCRT_MAX_EVT_def)

lemmas ev_empty_wf = init_wf [OF ev_empty_init, THEN conjunct1]
  init_wf [OF ev_empty_init, THEN conjunct2, THEN conjunct1, rule_format]

theorem event_register_spec_witness:
  "\<exists>m' fs' ass'. zcrt_event_register_ex (Some 1) (Some ev_empty) 5 7 EZCRTEvtType_all (Some 42) 0 0 =
      Inr (EZCRTErr_success, Some m') \<and> ev_wf m' fs' ass' \<and>
    subs m' ass' 7 = [new_sub 5 EZCRTEvtType_all 42 0 0] \<and> subs m' ass' 8 = []"
proof -
  have "can_alloc (ev_heap ev_empty) (ev_freelist ev_empty) (Some 1)" by (simp add: can_alloc_def ev_empty_def)
  from event_register_spec [OF ev_empty_wf(1) this, of 7 5 EZCRTEvtType_all 42 0 0]
  obtain m' fs' ass' where r: "zcrt_event_register_ex (Some 1) (Some ev_empty) 5 7 EZCRTEvtType_all (Some 42) 0 0 =
      Inr (EZCRTErr_success, Some m')" "ev_wf m' fs' ass'"
    "\<And>j. j < 256 \<Longrightarrow> subs m' ass' j = (if j = 7 then insert_sub (new_sub 5 EZCRTEvtType_all 42 0 0)
      (subs ev_empty (replicate 256 []) j) else subs ev_empty (replicate 256 []) j)" by auto
  then show ?thesis using ev_empty_wf(2) [of 7] ev_empty_wf(2) [of 8]
    by (intro exI [of _ m'] exI [of _ fs'] exI [of _ ass']) (simp add: insert_sub_def)
qed

text \<open>While the event is not being sent, unregistering removes the first subscription with the same
  callback and arguments, if there is one, and nothing else.\<close>

theorem event_unregister_spec:
  assumes "ev_wf m fs ass" "unat evtid < 256" "ev_last m \<noteq> evtid"
  shows "\<exists>m' fs' ass'. zcrt_event_unregister (Some m) evtid (Some fn) p1 p2 = Inr (Some m') \<and>
    ev_wf m' fs' ass' \<and>
    (\<forall>j < 256. subs m' ass' j =
      (if j = unat evtid then del_first (is_sub fn p1 p2) (subs m ass j) else subs m ass j))"
proof -
  obtain m' fs' ass' where "zcrt_event_unregister (Some m) evtid (Some fn) p1 p2 = Inr (Some m')"
    "ev_wf m' fs' ass'" "subs m' ass' (unat evtid) = del_first (is_sub fn p1 p2) (subs m ass (unat evtid))"
    "\<And>j. j \<noteq> unat evtid \<Longrightarrow> j < 256 \<Longrightarrow> subs m' ass' j = subs m ass j"
    using unregister_spec [OF assms] by metis
  then show ?thesis by (intro exI [of _ m'] exI [of _ fs'] exI [of _ ass']) auto
qed

definition ev_one :: zEvent where
  "ev_one = ev_empty\<lparr>ev_heap := [1 \<mapsto> new_sub 5 EZCRTEvtType_all 42 0 0], ev_list := (replicate 256 None)[7 := Some 1]\<rparr>"

lemma ev_one_wf: "ev_wf ev_one [] ((replicate 256 [])[7 := [1]])"
proof -
  have c: "concat ((replicate n [])[7 := [1]]) = (if 7 < n then [1] else [] :: addr list)" for n
  proof -
    have e: "concat (replicate k []) = ([] :: addr list)" for k by (induction k) auto
    show ?thesis
    proof (cases "7 < n")
      case True
      then have "(replicate n ([] :: addr list))[7 := [1]] = replicate 7 [] @ [1] # replicate (n - 8) []"
        by (intro nth_equalityI) (auto simp: nth_list_update nth_append nth_Cons')
      then show ?thesis using True by (simp add: e)
    qed (simp add: e list_update_beyond)
  qed
  have 1: "list_all2 (\<lambda>p as. chain ec_next (ev_heap ev_one) p as None) (ev_list ev_one) ((replicate 256 [])[7 := [1]])"
    by (simp add: list_all2_conv_all_nth ev_one_def nth_list_update new_sub_def)
  have 2: "concat ((replicate 256 [])[7 := [1]]) = ([1] :: addr list)" using c [of 256] by simp
  have 3: "ec_fn (the (ev_heap ev_one 1)) \<noteq> None" by (simp add: ev_one_def new_sub_def)
  have 4: "ev_freelist ev_one = None" "length (ev_list ev_one) = 256" "ev_freesize ev_one = 0"
    by (simp_all add: ev_one_def ev_empty_def)
  show ?thesis
    unfolding ev_wf_def chains_def concat.simps append_Nil 2 4 using 1 3
    by (simp add: ZCRT_MAX_EVT_def)
qed

theorem event_unregister_spec_witness:
  "\<exists>m' fs' ass'. zcrt_event_unregister (Some ev_one) 7 (Some 42) 0 0 = Inr (Some m') \<and>
    ev_wf m' fs' ass' \<and> subs m' ass' 7 = []"
proof -
  have "ev_last ev_one \<noteq> 7" by (simp add: ev_one_def ev_empty_def)
  from event_unregister_spec [OF ev_one_wf _ this, of 42 0 0]
  obtain m' fs' ass' where r: "zcrt_event_unregister (Some ev_one) 7 (Some 42) 0 0 = Inr (Some m')" "ev_wf m' fs' ass'"
    "subs m' ass' 7 = del_first (is_sub 42 0 0) (subs ev_one ((replicate 256 [])[7 := [1]]) 7)" by auto
  moreover have "subs ev_one ((replicate 256 [])[7 := [1]]) 7 = [new_sub 5 EZCRTEvtType_all 42 0 0]"
    by (simp add: subs_def ev_one_def new_sub_def ec_set_next_def)
  ultimately have "subs m' ass' 7 = []" by (simp add: del_first_def is_sub_def new_sub_def)
  with r show ?thesis by blast
qed

text \<open>C22. Sending calls, in list order, the callback of every subscription of the event whose type fits,
  with its own arguments, when the callbacks leave the manager alone.\<close>

theorem event_send_spec:
  assumes "ev_wf m fs ass" "outside call act" "unat evtid < 256"
  shows "zcrt_event_send_ex call (Some m) w evtid ty d = Inr (Some (m\<lparr>ev_last := 0\<rparr>),
    fold (\<lambda>n. act (the (ec_fn n)) evtid d (ec_p1 n) (ec_p2 n)) (filter (wants ty) (subs m ass (unat evtid))) w)"
  using assms by (rule send_spec)

theorem event_send_spec_witness:
  "zcrt_event_send_ex (\<lambda>f e d p1 p2 (m, w). Inr (m, w @ [f])) (Some ev_one) [] 7 EZCRTEvtType_local 0 =
     Inr (Some (ev_one\<lparr>ev_last := 0\<rparr>), [42])"
proof -
  have out: "outside (\<lambda>f e d p1 p2 (m, w). Inr (m, w @ [f])) (\<lambda>f e d p1 p2 w. w @ [f])"
    by (simp add: outside_def)
  have "subs ev_one ((replicate 256 [])[7 := [1]]) 7 = [new_sub 5 EZCRTEvtType_all 42 0 0]"
    by (simp add: subs_def ev_one_def new_sub_def ec_set_next_def)
  then show ?thesis
    using event_send_spec [OF ev_one_wf out, of 7 "[]" EZCRTEvtType_local 0] by (simp add: wants_def new_sub_def)
qed

text \<open>C21. In every reachable manager the 256 lists and the free list are disjoint and end, every
  subscription has a callback, and every list is ordered by falling priority.\<close>

theorem event_reach_sorted:
  assumes "ev_reach m"
  shows "\<exists>fs ass. ev_wf m fs ass \<and> (\<forall>k < 256. by_pri (subs m ass k))"
  using ev_reach_inv [OF assms] by (auto simp: ev_inv_def)

theorem event_reach_sorted_witness: "\<exists>fs ass. ev_wf ev_empty fs ass \<and> (\<forall>k < 256. by_pri (subs ev_empty ass k))"
  by (rule event_reach_sorted [OF ev_reach.init [OF ev_empty_init]])

text \<open>The guard of zcrt_event_unregister against removing the event being sent takes 0 for no event:
  in every reachable manager, with nothing being sent, unregistering event 0 fails the assertion.\<close>

theorem event_zero_unregister:
  assumes "ev_reach m"
  shows "zcrt_event_unregister (Some m) 0 (Some fn) p1 p2 = Inl AssertFailed"
  using ev_reach_inv [OF assms] by (auto simp: ev_inv_def zcrt_event_unregister_def ZCRT_MAX_EVT_def)

theorem event_zero_unregister_witness: "zcrt_event_unregister (Some ev_empty) 0 (Some 42) 0 0 = Inl AssertFailed"
  by (rule event_zero_unregister [OF ev_reach.init [OF ev_empty_init]])

text \<open>When no node can be had, zcrt_event_register_ex reports success for an event without
  subscriptions, although nothing is registered, and follows the null pointer for any other.\<close>

theorem event_register_nomem:
  assumes wf: "ev_wf m fs ass" and free: "ev_freelist m = None" and k: "unat evtid < 256"
  shows "zcrt_event_register_ex None (Some m) pri evtid ty (Some fn) p1 p2 =
    (if ass ! unat evtid = [] then Inr (EZCRTErr_success, Some m) else Inl NullDeref)"
proof -
  let ?k = "unat evtid"
  have ch: "chain ec_next (ev_heap m) (ev_list m ! ?k) (ass ! ?k) None" by (rule ev_wfD(6) [OF wf k])
  show ?thesis
  proof (cases "ass ! ?k")
    case Nil
    then have "ev_list m ! ?k = None" using ch by simp
    then have "(ev_list m)[?k := None] = ev_list m" by (metis list_update_id)
    with Nil \<open>ev_list m ! ?k = None\<close> free k show ?thesis
      by (simp add: zcrt_event_register_ex_def zcrt_Event_malloc_cb_def ZCRT_MAX_EVT_def Let_def)
  next
    case (Cons a as)
    then obtain hd where "ev_list m ! ?k = Some hd" using ch by auto
    with Cons free k find_pri_chain [OF ch, of pri None] show ?thesis
      by (auto simp: zcrt_event_register_ex_def zcrt_Event_malloc_cb_def ZCRT_MAX_EVT_def Let_def split: option.splits)
  qed
qed

theorem event_register_nomem_witness:
  "zcrt_event_register_ex None (Some ev_empty) 5 7 EZCRTEvtType_all (Some 42) 0 0 = Inr (EZCRTErr_success, Some ev_empty) \<and>
   zcrt_event_register_ex None (Some ev_one) 5 7 EZCRTEvtType_all (Some 42) 0 0 = Inl NullDeref"
  using event_register_nomem [OF ev_empty_wf(1), of 7 5 EZCRTEvtType_all 42 0 0]
    event_register_nomem [OF ev_one_wf, of 7 5 EZCRTEvtType_all 42 0 0]
  by (simp add: ev_one_def ev_empty_def)

end
