(* ===== verification/Zcrt_Timer.thy ===== *)
theory Zcrt_Timer
  imports Zcrt_Chain Zcrt_Macro
begin

text \<open>
  The timer manager of \<^verbatim>\<open>zcrtlib/ztimer.c\<close>: a list of pending timers with a tail pointer, a
  free list, and a table of 1000 containers that callers group their timers in. The timer thread scans
  the list every 50 ms; one scan is the unit the model runs, the thread repeats it. Callbacks are an
  argument; they work on the manager and on the rest of the program's state, so they may add and delete
  timers.
\<close>

section \<open>State\<close>

definition ZTIMER_CONTAINER_MAX :: nat where "ZTIMER_CONTAINER_MAX = 1000"
definition TIMER_TICK :: u32 where "TIMER_TICK = 50"

definition ZTIMER_IS_VALID_CONTAINER_ID :: "u16 \<Rightarrow> bool" where
  "ZTIMER_IS_VALID_CONTAINER_ID cid \<longleftrightarrow>
     (unat cid < ZTIMER_CONTAINER_MAX \<and> cid \<noteq> ZTIMER_INVALID_CONTAINER) \<or> cid = ZTIMER_CONTAINER_CONSTID"

record zTimerCB =
  tm_left :: u32
  tm_fn :: "ptr option"
  tm_argn :: u32
  tm_con :: u16
  tm_args :: "ptr list"
  tm_next :: "addr option"

record zTimer =
  tq_heap :: "zTimerCB heap"
  tq_job :: "addr option"
  tq_tail :: "addr option"
  tq_free :: "addr option"
  tq_freesize :: s32
  tq_lastid :: u16
  tq_con :: "u8 list"
  tq_run :: bool

section \<open>Nodes\<close>

definition zcrt_timer_malloc_cb :: "addr option \<Rightarrow> zTimer \<Rightarrow> u32 \<Rightarrow> ptr \<Rightarrow> (addr option \<times> zTimer) res" where
  "zcrt_timer_malloc_cb new mng period fn =
     (let job = \<lparr>tm_left = period, tm_fn = Some fn, tm_argn = 0, tm_con = 0,
                 tm_args = replicate ZCRT_CB_MAX_ARGS 0, tm_next = None\<rparr> in
      case tq_free mng of
        Some a \<Rightarrow> rbind (deref (tq_heap mng a)) (\<lambda>n.
          Inr (Some a, mng\<lparr>tq_free := tm_next n, tq_freesize := tq_freesize mng - 1,
                           tq_heap := (tq_heap mng)(a \<mapsto> job)\<rparr>))
      | None \<Rightarrow> (case new of
          None \<Rightarrow> Inr (None, mng)
        | Some a \<Rightarrow> Inr (Some a, mng\<lparr>tq_heap := (tq_heap mng)(a \<mapsto> job)\<rparr>)))"

definition zcrt_timer_free_cb :: "zTimer \<Rightarrow> addr \<Rightarrow> zTimer res" where
  "zcrt_timer_free_cb mng a = rbind (deref (tq_heap mng a)) (\<lambda>n.
     Inr (mng\<lparr>tq_heap := (tq_heap mng)(a \<mapsto>
                n\<lparr>tm_next := tq_free mng, tm_fn := None, tm_con := ZTIMER_INVALID_CONTAINER\<rparr>),
              tq_free := Some a, tq_freesize := tq_freesize mng + 1\<rparr>))"

section \<open>Creation, containers\<close>

definition zcrt_timer_manage_init :: "bool \<Rightarrow> zTimerCB heap \<Rightarrow> zTimer option" where
  "zcrt_timer_manage_init mok h = (if \<not> mok then None else
     Some \<lparr>tq_heap = h, tq_job = None, tq_tail = None, tq_free = None, tq_freesize = 0, tq_lastid = 0,
           tq_con = replicate ZTIMER_CONTAINER_MAX 0, tq_run = True\<rparr>)"

definition zcrt_timer_manage_delete :: "zTimer option \<Rightarrow> zTimer option" where
  "zcrt_timer_manage_delete h = map_option (\<lambda>mng. mng\<lparr>tq_run := False\<rparr>) h"

text \<open>
  \<^verbatim>\<open>for (i = conlastid; i < conlastid + ZTIMER_CONTAINER_MAX; i++)\<close>: the bound is an
  \<^verbatim>\<open>int\<close>, \<^verbatim>\<open>i\<close> a 16-bit number that wraps.
\<close>

partial_function (option) con_loop :: "u8 list \<Rightarrow> u16 \<Rightarrow> u16 \<Rightarrow> (u16 \<times> nat) option option" where
  "con_loop con lastid i =
     (if unat i < unat lastid + ZTIMER_CONTAINER_MAX then
        (let idx = unat i mod ZTIMER_CONTAINER_MAX in
         if idx \<noteq> unat ZTIMER_INVALID_CONTAINER \<and> con ! idx = 0 then Some (Some (i, idx))
         else con_loop con lastid (i + 1))
      else Some None)"

definition zcrt_timer_container_new :: "zTimer option \<Rightarrow> (u16 \<times> zTimer option) res" where
  "zcrt_timer_container_new module = (case module of
     None \<Rightarrow> Inr (ZTIMER_INVALID_CONTAINER, None)
   | Some mng \<Rightarrow> rbind (returned (con_loop (tq_con mng) (tq_lastid mng) (tq_lastid mng))) (\<lambda>r. case r of
       None \<Rightarrow> Inr (ZTIMER_INVALID_CONTAINER, Some mng)
     | Some (i, idx) \<Rightarrow>
         Inr (of_nat idx, Some (mng\<lparr>tq_con := (tq_con mng)[idx := 1], tq_lastid := i\<rparr>))))"

definition zcrt_timer_container_delete :: "zTimer option \<Rightarrow> u16 \<Rightarrow> zTimer option" where
  "zcrt_timer_container_delete module container_id = (case module of
     None \<Rightarrow> None
   | Some mng \<Rightarrow>
       if \<not> ZTIMER_IS_VALID_CONTAINER_ID container_id \<or> container_id = ZTIMER_CONTAINER_CONSTID then Some mng
       else Some (mng\<lparr>tq_con := (tq_con mng)[unat container_id := 0]\<rparr>))"

section \<open>Adding and deleting\<close>

definition zcrt_timer_insert_cb_has_mutex :: "zTimer \<Rightarrow> addr \<Rightarrow> zTimer res" where
  "zcrt_timer_insert_cb_has_mutex mng job = (case tq_job mng of
     Some _ \<Rightarrow>
       rbind (zassert (tq_tail mng \<noteq> None)) (\<lambda>_.
       rbind (deref (tq_tail mng)) (\<lambda>t.
       rbind (deref (tq_heap mng t)) (\<lambda>tn.
         Inr (mng\<lparr>tq_heap := (tq_heap mng)(t \<mapsto> tn\<lparr>tm_next := Some job\<rparr>), tq_tail := Some job\<rparr>))))
   | None \<Rightarrow>
       rbind (zassert (tq_tail mng = None)) (\<lambda>_.
         Inr (mng\<lparr>tq_job := Some job, tq_tail := Some job\<rparr>)))"

text \<open>The test of the container both add functions make, before a node is taken.\<close>

definition con_dead :: "zTimer \<Rightarrow> u16 \<Rightarrow> bool" where
  "con_dead mng cid \<longleftrightarrow> cid \<noteq> ZTIMER_CONTAINER_CONSTID \<and> tq_con mng ! unat cid = ucast ZTIMER_INVALID_CONTAINER"

definition zcrt_timercon_add ::
  "addr option \<Rightarrow> zTimer option \<Rightarrow> u16 \<Rightarrow> u32 \<Rightarrow> ptr option \<Rightarrow> ptr \<Rightarrow> ptr \<Rightarrow> (EZCRTErr \<times> zTimer option) res" where
  "zcrt_timercon_add new module container_id period cb p1 p2 = (case module of
     None \<Rightarrow> Inr (EZCRTErr_invalidCrtModule, None)
   | Some mng \<Rightarrow>
       if \<not> ZTIMER_IS_VALID_CONTAINER_ID container_id then Inr (EZCRTErr_invalidCrtModule, Some mng)
       else (case cb of None \<Rightarrow> Inr (EZCRTErr_paramErr, Some mng) | Some fn \<Rightarrow>
         if con_dead mng container_id then Inr (EZCRTErr_badObject, Some mng)
         else rbind (zcrt_timer_malloc_cb new mng period fn) (\<lambda>(job, m1). case job of
           None \<Rightarrow> Inr (EZCRTErr_noMem, Some m1)
         | Some j \<Rightarrow> rbind (deref (tq_heap m1 j)) (\<lambda>n.
             let n1 = n\<lparr>tm_argn := 2, tm_args := (tm_args n)[0 := p1, 1 := p2], tm_con := container_id\<rparr> in
             rbind (zcrt_timer_insert_cb_has_mutex (m1\<lparr>tq_heap := (tq_heap m1)(j \<mapsto> n1)\<rparr>) j) (\<lambda>m2.
               Inr (EZCRTErr_success, Some m2))))))"

text \<open>\<^verbatim>\<open>args\<close> are the variable arguments, of which the first \<^verbatim>\<open>argn\<close> are stored.\<close>

definition zcrt_timercon_add_argn ::
  "addr option \<Rightarrow> zTimer option \<Rightarrow> u16 \<Rightarrow> u32 \<Rightarrow> ptr option \<Rightarrow> u32 \<Rightarrow> ptr list \<Rightarrow> (EZCRTErr \<times> zTimer option) res" where
  "zcrt_timercon_add_argn new module container_id period cb argn args = (case module of
     None \<Rightarrow> Inr (EZCRTErr_invalidCrtModule, None)
   | Some mng \<Rightarrow>
       if \<not> ZTIMER_IS_VALID_CONTAINER_ID container_id then Inr (EZCRTErr_invalidCrtModule, Some mng)
       else (case cb of None \<Rightarrow> Inr (EZCRTErr_paramErr, Some mng) | Some fn \<Rightarrow>
         if argn = 0 \<or> unat argn > ZCRT_CB_MAX_ARGS then Inr (EZCRTErr_paramErr, Some mng)
         else if con_dead mng container_id then Inr (EZCRTErr_badObject, Some mng)
         else rbind (zcrt_timer_malloc_cb new mng period fn) (\<lambda>(job, m1). case job of
           None \<Rightarrow> Inr (EZCRTErr_noMem, Some m1)
         | Some j \<Rightarrow> rbind (deref (tq_heap m1 j)) (\<lambda>n.
             let k = unat argn; n1 = n\<lparr>tm_argn := argn, tm_args := take k args @ drop k (tm_args n)\<rparr> in
             rbind (zcrt_timer_insert_cb_has_mutex (m1\<lparr>tq_heap := (tq_heap m1)(j \<mapsto> n1)\<rparr>) j) (\<lambda>m2.
               Inr (EZCRTErr_success, Some m2))))))"

text \<open>The macros of \<^verbatim>\<open>zcrt/ztimer.h\<close> add to the container that is never deleted.\<close>

definition zcrt_timer_add :: "addr option \<Rightarrow> zTimer option \<Rightarrow> u32 \<Rightarrow> ptr option \<Rightarrow> ptr \<Rightarrow> ptr \<Rightarrow> (EZCRTErr \<times> zTimer option) res" where
  "zcrt_timer_add new module period cb p1 p2 = zcrt_timercon_add new module ZTIMER_CONTAINER_CONSTID period cb p1 p2"

definition zcrt_timer_add_argn :: "addr option \<Rightarrow> zTimer option \<Rightarrow> u32 \<Rightarrow> ptr option \<Rightarrow> u32 \<Rightarrow> ptr list \<Rightarrow> (EZCRTErr \<times> zTimer option) res" where
  "zcrt_timer_add_argn new module period cb argn args = zcrt_timercon_add_argn new module ZTIMER_CONTAINER_CONSTID period cb argn args"

definition is_timer :: "ptr \<Rightarrow> ptr \<Rightarrow> ptr \<Rightarrow> zTimerCB \<Rightarrow> bool" where
  "is_timer cb p1 p2 n \<longleftrightarrow> tm_fn n = Some cb \<and> tm_args n ! 0 = p1 \<and> tm_args n ! 1 = p2"

partial_function (option) find_timer ::
  "zTimerCB heap \<Rightarrow> ptr \<Rightarrow> ptr \<Rightarrow> ptr \<Rightarrow> addr option \<Rightarrow> addr option \<Rightarrow> (addr option \<times> addr option) res option" where
  "find_timer h cb p1 p2 prev job = (case job of
     None \<Rightarrow> Some (Inr (prev, None))
   | Some a \<Rightarrow> (case h a of
       None \<Rightarrow> Some (Inl NullDeref)
     | Some n \<Rightarrow> if \<not> is_timer cb p1 p2 n then find_timer h cb p1 p2 job (tm_next n)
                 else Some (Inr (prev, job))))"

definition zcrt_timer_delete :: "zTimer option \<Rightarrow> ptr option \<Rightarrow> ptr \<Rightarrow> ptr \<Rightarrow> (EZCRTErr \<times> zTimer option) res" where
  "zcrt_timer_delete module cb p1 p2 = (case module of
     None \<Rightarrow> Inr (EZCRTErr_invalidCrtModule, None)
   | Some mng \<Rightarrow> (case cb of None \<Rightarrow> Inr (EZCRTErr_paramErr, Some mng) | Some fn \<Rightarrow>
       (case tq_job mng of
         None \<Rightarrow> Inr (EZCRTErr_success, Some mng)
       | Some j \<Rightarrow> rbind (deref (tq_heap mng j)) (\<lambda>jn.
           if is_timer fn p1 p2 jn then
             let m1 = mng\<lparr>tq_job := tm_next jn\<rparr>;
                 m2 = (if tm_next jn = None then m1\<lparr>tq_tail := None\<rparr> else m1)
             in rbind (zcrt_timer_free_cb m2 j) (\<lambda>m3. Inr (EZCRTErr_success, Some m3))
           else
             rbind (run (find_timer (tq_heap mng) fn p1 p2 (Some j) (Some j))) (\<lambda>(prev, job). case job of
               None \<Rightarrow>
                 if tq_tail mng = None then Inl NullDeref else Inr (EZCRTErr_success, Some mng)
             | Some c \<Rightarrow>
                 rbind (deref (tq_heap mng c)) (\<lambda>cn.
                 rbind (deref prev) (\<lambda>p. rbind (deref (tq_heap mng p)) (\<lambda>pn.
                 let m1 = mng\<lparr>tq_heap := (tq_heap mng)(p \<mapsto> pn\<lparr>tm_next := tm_next cn\<rparr>)\<rparr> in
                 rbind (if tq_tail mng = Some c
                        then rbind (zassert (tm_next cn = None)) (\<lambda>_. Inr (m1\<lparr>tq_tail := prev\<rparr>))
                        else Inr m1) (\<lambda>m2.
                 rbind (zcrt_timer_free_cb m2 c) (\<lambda>m3. Inr (EZCRTErr_success, Some m3)))))))))))"

section \<open>The timer thread\<close>

type_synonym 'w tm_call = "ptr \<Rightarrow> ptr list \<Rightarrow> zTimer \<times> 'w \<Rightarrow> (zTimer \<times> 'w) res"

text \<open>Whether the callback of a timer is called: its container is valid and exists.\<close>

definition timer_live :: "zTimer \<Rightarrow> zTimerCB \<Rightarrow> bool" where
  "timer_live mng n \<longleftrightarrow> ZTIMER_IS_VALID_CONTAINER_ID (tm_con n) \<and>
     (tm_con n = ZTIMER_CONTAINER_CONSTID \<or> tq_con mng ! unat (tm_con n) \<noteq> ucast ZTIMER_INVALID_CONTAINER)"

text \<open>The branch of the scan for a timer \<^verbatim>\<open>a\<close> that has expired.\<close>

definition timer_fire ::
  "'w tm_call \<Rightarrow> addr \<Rightarrow> addr option \<Rightarrow> zTimer \<times> 'w \<Rightarrow> (addr option \<times> zTimer \<times> 'w) res" where
  "timer_fire call a prev s = (case s of (mng, w) \<Rightarrow>
     rbind (deref (tq_heap mng a)) (\<lambda>n.
     rbind (if tq_job mng = Some a then Inr (tm_next n, mng\<lparr>tq_job := tm_next n\<rparr>)
            else rbind (deref prev) (\<lambda>p. rbind (deref (tq_heap mng p)) (\<lambda>pn.
              Inr (prev, mng\<lparr>tq_heap := (tq_heap mng)(p \<mapsto> pn\<lparr>tm_next := tm_next n\<rparr>)\<rparr>)))) (\<lambda>(prev1, m1).
     rbind (if tq_tail m1 = Some a
            then rbind (zassert (tm_next n = None)) (\<lambda>_. Inr (m1\<lparr>tq_tail := prev1\<rparr>))
            else Inr m1) (\<lambda>m2.
     rbind (zassert (tm_fn n \<noteq> None)) (\<lambda>_.
     rbind (if timer_live m2 n then rbind (deref (tm_fn n)) (\<lambda>f. call f (tm_args n) (m2, w))
            else Inr (m2, w)) (\<lambda>(m3, w3).
     rbind (zcrt_timer_free_cb m3 a) (\<lambda>m4. Inr (prev1, m4, w3))))))))"

partial_function (option) timer_scan ::
  "'w tm_call \<Rightarrow> addr option \<Rightarrow> addr option \<Rightarrow> zTimer \<times> 'w \<Rightarrow> (zTimer \<times> 'w) res option" where
  "timer_scan call job prev s = (case job of
     None \<Rightarrow> Some (Inr s)
   | Some a \<Rightarrow> (case tq_heap (fst s) a of
       None \<Rightarrow> Some (Inl NullDeref)
     | Some n \<Rightarrow>
         if tm_left n < TIMER_TICK then
           (case timer_fire call a prev s of
              Inl e \<Rightarrow> Some (Inl e)
            | Inr (prev1, s1) \<Rightarrow> timer_scan call (tq_job (fst s1)) prev1 s1)
         else
           timer_scan call (tm_next n) job
             ((fst s)\<lparr>tq_heap := (tq_heap (fst s))(a \<mapsto> n\<lparr>tm_left := tm_left n - TIMER_TICK\<rparr>)\<rparr>, snd s)))"

definition timer_tick :: "'w tm_call \<Rightarrow> zTimer \<times> 'w \<Rightarrow> (zTimer \<times> 'w) res" where
  "timer_tick call s = run (timer_scan call (tq_job (fst s)) (tq_job (fst s)) s)"

text \<open>
  The thread: scans while \<^verbatim>\<open>run\<close> is set, for as many rounds as \<^verbatim>\<open>stop\<close> (what
  \<^verbatim>\<open>zcrt_thread_should_stop\<close> answers in each round) lets it, then frees both lists.
\<close>

definition timer_exit :: "zTimer \<Rightarrow> zTimerCB heap res" where
  "timer_exit mng = free_lists tm_next (tq_heap mng) [tq_job mng, tq_free mng]"

fun zcrt_timer_proc :: "'w tm_call \<Rightarrow> bool list \<Rightarrow> zTimer \<times> 'w \<Rightarrow> (zTimerCB heap \<times> 'w) res option" where
  "zcrt_timer_proc call [] s = None"
| "zcrt_timer_proc call (stop # stops) s =
     (if tq_run (fst s) \<and> \<not> stop then
        (case timer_tick call s of Inl e \<Rightarrow> Some (Inl e) | Inr s1 \<Rightarrow> zcrt_timer_proc call stops s1)
      else Some (map_sum id (\<lambda>h. (h, snd s)) (timer_exit (fst s))))"

section \<open>Well-formed managers\<close>

definition tm_set_next :: "addr option \<Rightarrow> zTimerCB \<Rightarrow> zTimerCB" where
  "tm_set_next q n = n\<lparr>tm_next := q\<rparr>"

interpretation tm: linked tm_next tm_set_next
  by unfold_locales (simp_all add: tm_set_next_def)

text \<open>
  \<^verbatim>\<open>fs\<close> are the free nodes and \<^verbatim>\<open>as\<close> the pending timers in list order: two disjoint
  lists, the tail pointer at the last timer, a callback in every timer.
\<close>

definition tm_wf :: "zTimer \<Rightarrow> addr list \<Rightarrow> addr list \<Rightarrow> bool" where
  "tm_wf m fs as \<longleftrightarrow> chains tm_next (tq_heap m) [tq_free m, tq_job m] [fs, as] \<and> tq_tail m = last_of as \<and>
     tq_freesize m = of_nat (length fs) \<and> length (tq_con m) = ZTIMER_CONTAINER_MAX \<and>
     (\<forall>a \<in> set as. tm_fn (the (tq_heap m a)) \<noteq> None)"

definition timers :: "zTimer \<Rightarrow> addr list \<Rightarrow> zTimerCB list" where
  "timers m as = contents_of tm_set_next (tq_heap m) as"

lemma tm_wfD:
  assumes "tm_wf m fs as"
  shows "chains tm_next (tq_heap m) [tq_free m, tq_job m] [fs, as]" "tq_tail m = last_of as"
    "tq_freesize m = of_nat (length fs)" "length (tq_con m) = ZTIMER_CONTAINER_MAX"
    "a \<in> set as \<Longrightarrow> tm_fn (the (tq_heap m a)) \<noteq> None"
    "chain tm_next (tq_heap m) (tq_job m) as None" "distinct as" "set fs \<inter> set as = {}"
    "a \<in> set as \<Longrightarrow> \<exists>n. tq_heap m a = Some n"
proof -
  show c: "chains tm_next (tq_heap m) [tq_free m, tq_job m] [fs, as]" using assms by (simp add: tm_wf_def)
  show ch: "chain tm_next (tq_heap m) (tq_job m) as None" using chainsD(3) [OF c, of 1] by simp
  show "distinct as" "set fs \<inter> set as = {}" using chainsD(2) [OF c] by auto
  show "a \<in> set as \<Longrightarrow> \<exists>n. tq_heap m a = Some n" by (rule chain_dom [OF ch])
qed (use assms in \<open>simp_all add: tm_wf_def\<close>)

lemma tm_view_fn: "tm_fn (tm_set_next q n) = tm_fn n"
  by (simp add: tm_set_next_def)

lemma tm_malloc_wf:
  assumes wf: "tm_wf m fs as" and al: "can_alloc (tq_heap m) (tq_free m) new"
  obtains a n m1 where "zcrt_timer_malloc_cb new m period fn = Inr (Some a, m1)"
    "\<And>n'. chains tm_next ((tq_heap m1)(a \<mapsto> n')) [tq_free m1, tq_job m1] [tl fs, as]"
    "tq_job m1 = tq_job m" "tq_tail m1 = tq_tail m" "tq_con m1 = tq_con m" "a \<notin> set (tl fs @ as)"
    "tq_freesize m1 = of_nat (length (tl fs))" "tq_heap m1 = (tq_heap m)(a \<mapsto> n)"
    "n = \<lparr>tm_left = period, tm_fn = Some fn, tm_argn = 0, tm_con = 0, tm_args = replicate ZCRT_CB_MAX_ARGS 0, tm_next = None\<rparr>"
proof (cases "tq_free m")
  case None
  have fs: "fs = []" using chainsD(3) [OF tm_wfD(1) [OF wf], of 0] None by simp
  obtain a where a: "new = Some a" "tq_heap m a = None" using al None by (auto simp: can_alloc_def)
  note f = chains_fresh [OF tm_wfD(1) [OF wf] a(2)]
  show ?thesis
    by (rule that [of a "m\<lparr>tq_heap := (tq_heap m)(a \<mapsto> \<lparr>tm_left = period, tm_fn = Some fn, tm_argn = 0, tm_con = 0,
        tm_args = replicate ZCRT_CB_MAX_ARGS 0, tm_next = None\<rparr>)\<rparr>"])
      (use None a f fs tm_wfD(3) [OF wf] in \<open>simp_all add: zcrt_timer_malloc_cb_def\<close>)
next
  case (Some a)
  obtain n rest where f: "fs = a # rest" "tq_heap m a = Some n" "a \<notin> set (concat [rest, as])"
    "\<And>job. chains tm_next ((tq_heap m)(a \<mapsto> job)) [tm_next n, tq_job m] [rest, as]"
    using chains_pop tm_wfD(1) [OF wf] Some by metis
  show ?thesis
    by (rule that [of a "m\<lparr>tq_free := tm_next n, tq_freesize := tq_freesize m - 1,
        tq_heap := (tq_heap m)(a \<mapsto> \<lparr>tm_left = period, tm_fn = Some fn, tm_argn = 0, tm_con = 0,
        tm_args = replicate ZCRT_CB_MAX_ARGS 0, tm_next = None\<rparr>)\<rparr>"])
      (use Some f tm_wfD(3) [OF wf] in \<open>simp_all add: zcrt_timer_malloc_cb_def\<close>)
qed

lemma insert_tail:
  assumes c: "chains tm_next (tq_heap m) [tq_free m, tq_job m] [fs, as]" and t: "tq_tail m = last_of as"
    and fz: "tq_freesize m = of_nat (length fs)" "length (tq_con m) = ZTIMER_CONTAINER_MAX"
    and fn: "\<forall>b \<in> set as. tm_fn (the (tq_heap m b)) \<noteq> None"
    and a: "a \<notin> set (fs @ as)" "tq_heap m a = Some n" "tm_next n = None" "tm_fn n \<noteq> None"
  obtains m' where "zcrt_timer_insert_cb_has_mutex m a = Inr m'" "tm_wf m' fs (as @ [a])"
    "timers m' (as @ [a]) = timers m as @ [tm_set_next None n]" "tq_con m' = tq_con m"
proof (cases as rule: rev_cases)
  case Nil
  then have j: "tq_job m = None" "tq_tail m = None" using chainsD(3) [OF c, of 1] t by (simp_all add: last_of_def)
  have "(tq_heap m)(a \<mapsto> n) = tq_heap m" using a(2) by (simp add: fun_upd_idem)
  then have "chains tm_next (tq_heap m) ([tq_free m, tq_job m][1 := Some a]) ([fs, as][1 := a # [fs, as] ! 1])"
    using tm.chains_insert_front [OF c, of 1 a n] a j by simp
  then have "tm_wf (m\<lparr>tq_job := Some a, tq_tail := Some a\<rparr>) fs (as @ [a])"
    using Nil fz a by (simp add: tm_wf_def last_of_def)
  moreover have "zcrt_timer_insert_cb_has_mutex m a = Inr (m\<lparr>tq_job := Some a, tq_tail := Some a\<rparr>)"
    using j by (simp add: zcrt_timer_insert_cb_has_mutex_def)
  ultimately show ?thesis using that a(2) Nil by (simp add: timers_def)
next
  case (snoc xs l)
  have ch: "chain tm_next (tq_heap m) (tq_job m) (xs @ [l]) None" using chainsD(3) [OF c, of 1] snoc by simp
  obtain ln where ln: "tq_heap m l = Some ln" using chain_dom [OF ch, of l] by auto
  have lnext: "tm_next ln = None" using ch ln by (auto simp: chain_append)
  obtain hd where hd: "tq_job m = Some hd" using ch by (cases xs) auto
  have tl: "tq_tail m = Some l" using t snoc by (simp add: last_of_def)
  have al: "a \<noteq> l" using a(1) snoc by auto
  let ?h = "(tq_heap m)(l \<mapsto> tm_set_next (Some a) ln)"
  let ?m = "m\<lparr>tq_heap := ?h, tq_tail := Some a\<rparr>"
  have upd: "(tq_heap m)(a \<mapsto> n, l \<mapsto> tm_set_next (Some a) ln) = ?h"
    using a(2) by (simp add: fun_upd_idem)
  have "chains tm_next ((tq_heap m)(a \<mapsto> n, l \<mapsto> tm_set_next (Some a) ln)) [tq_free m, tq_job m]
      ([fs, as][1 := xs @ l # a # []])"
    using a snoc ln lnext by (intro tm.chains_insert_after [OF c]) simp_all
  then have "chains tm_next ?h [tq_free m, tq_job m] [fs, as @ [a]]" using snoc by (simp only: upd) simp
  moreover have "tm_fn (the (?h b)) \<noteq> None" if "b \<in> set (as @ [a])" for b
  proof -
    have "tm_fn (the (?h b)) = tm_fn (the (tq_heap m b))" using ln by (simp add: tm_set_next_def)
    then show ?thesis using that fn a(2,4) by auto
  qed
  ultimately have "tm_wf ?m fs (as @ [a])" using fz by (simp add: tm_wf_def last_of_def)
  moreover have "zcrt_timer_insert_cb_has_mutex m a = Inr ?m"
    using hd tl ln by (simp add: zcrt_timer_insert_cb_has_mutex_def tm_set_next_def)
  moreover have "timers ?m (as @ [a]) = timers m as @ [tm_set_next None n]"
    using a(2) al tm.contents_of_relink [of "tq_heap m" l ln "Some a" as] ln by (simp add: timers_def)
  ultimately show ?thesis using that by simp
qed


section \<open>Adding\<close>

definition new_timer :: "u32 \<Rightarrow> ptr \<Rightarrow> u32 \<Rightarrow> u16 \<Rightarrow> ptr list \<Rightarrow> zTimerCB" where
  "new_timer period fn argn cid args = \<lparr>tm_left = period, tm_fn = Some fn, tm_argn = argn, tm_con = cid,
     tm_args = args @ replicate (ZCRT_CB_MAX_ARGS - length args) 0, tm_next = None\<rparr>"

lemma timer_add_wf:
  assumes wf: "tm_wf m fs as" and al: "can_alloc (tq_heap m) (tq_free m) new"
    and n: "tm_next n = None" "tm_fn n \<noteq> None"
  obtains a m1 m2 where "zcrt_timer_malloc_cb new m period fn = Inr (Some a, m1)"
    "tq_heap m1 a = Some (new_timer period fn 0 0 [])"
    "zcrt_timer_insert_cb_has_mutex (m1\<lparr>tq_heap := (tq_heap m1)(a \<mapsto> n)\<rparr>) a = Inr m2"
    "tm_wf m2 (tl fs) (as @ [a])" "timers m2 (as @ [a]) = timers m as @ [n]" "tq_con m2 = tq_con m"
proof -
  obtain a n0 m1 where m1: "zcrt_timer_malloc_cb new m period fn = Inr (Some a, m1)"
    "\<And>n'. chains tm_next ((tq_heap m1)(a \<mapsto> n')) [tq_free m1, tq_job m1] [tl fs, as]"
    "tq_job m1 = tq_job m" "tq_tail m1 = tq_tail m" "tq_con m1 = tq_con m" "a \<notin> set (tl fs @ as)"
    "tq_freesize m1 = of_nat (length (tl fs))" "tq_heap m1 = (tq_heap m)(a \<mapsto> n0)"
    "n0 = \<lparr>tm_left = period, tm_fn = Some fn, tm_argn = 0, tm_con = 0, tm_args = replicate ZCRT_CB_MAX_ARGS 0, tm_next = None\<rparr>"
    using tm_malloc_wf [OF wf al] by metis
  let ?m = "m1\<lparr>tq_heap := (tq_heap m1)(a \<mapsto> n)\<rparr>"
  have fn': "\<forall>b \<in> set as. tm_fn (the (tq_heap ?m b)) \<noteq> None"
    using tm_wfD(5) [OF wf] m1(6,8) by auto
  obtain m2 where m2: "zcrt_timer_insert_cb_has_mutex ?m a = Inr m2" "tm_wf m2 (tl fs) (as @ [a])"
    "timers m2 (as @ [a]) = timers ?m as @ [tm_set_next None n]" "tq_con m2 = tq_con ?m"
    by (rule insert_tail [of ?m "tl fs" as a n])
      (use m1 n fn' tm_wfD(2,4) [OF wf] in simp_all)
  have "timers ?m as = timers m as"
    using m1(6,8) by (simp add: timers_def tm.contents_of_upd)
  moreover have "tm_set_next None n = n" using n(1) by (simp add: tm_set_next_def)
  ultimately show ?thesis using that [OF m1(1)] m1(5,8,9) m2 by (simp add: new_timer_def)
qed

lemma timercon_add_ok:
  assumes wf: "tm_wf m fs as" and al: "can_alloc (tq_heap m) (tq_free m) new"
    and c: "ZTIMER_IS_VALID_CONTAINER_ID cid" "\<not> con_dead m cid"
  obtains m' a where "zcrt_timercon_add new (Some m) cid period (Some fn) p1 p2 = Inr (EZCRTErr_success, Some m')"
    "tm_wf m' (tl fs) (as @ [a])" "timers m' (as @ [a]) = timers m as @ [new_timer period fn 2 cid [p1, p2]]"
    "tq_con m' = tq_con m"
proof -
  let ?n = "new_timer period fn 2 cid [p1, p2]"
  have n: "tm_next ?n = None" "tm_fn ?n \<noteq> None" by (simp_all add: new_timer_def)
  obtain a m1 m2 where m: "zcrt_timer_malloc_cb new m period fn = Inr (Some a, m1)"
    "tq_heap m1 a = Some (new_timer period fn 0 0 [])"
    "zcrt_timer_insert_cb_has_mutex (m1\<lparr>tq_heap := (tq_heap m1)(a \<mapsto> ?n)\<rparr>) a = Inr m2"
    "tm_wf m2 (tl fs) (as @ [a])" "timers m2 (as @ [a]) = timers m as @ [?n]" "tq_con m2 = tq_con m"
    using timer_add_wf [OF wf al n] by metis
  have "(new_timer period fn 0 0 [])\<lparr>tm_argn := 2, tm_args := (tm_args (new_timer period fn 0 0 []))[0 := p1, 1 := p2],
      tm_con := cid\<rparr> = ?n"
    by (simp add: new_timer_def ZCRT_CB_MAX_ARGS_def eval_nat_numeral)
  then have "zcrt_timercon_add new (Some m) cid period (Some fn) p1 p2 = Inr (EZCRTErr_success, Some m2)"
    using m(1-3) c by (simp add: zcrt_timercon_add_def Let_def)
  then show ?thesis using that m(4-6) by blast
qed

lemma timercon_add_argn_ok:
  assumes wf: "tm_wf m fs as" and al: "can_alloc (tq_heap m) (tq_free m) new"
    and c: "ZTIMER_IS_VALID_CONTAINER_ID cid" "\<not> con_dead m cid"
    and k: "argn \<noteq> 0" "unat argn \<le> ZCRT_CB_MAX_ARGS" "length args = unat argn"
  obtains m' a where "zcrt_timercon_add_argn new (Some m) cid period (Some fn) argn args = Inr (EZCRTErr_success, Some m')"
    "tm_wf m' (tl fs) (as @ [a])" "timers m' (as @ [a]) = timers m as @ [new_timer period fn argn 0 args]"
    "tq_con m' = tq_con m"
proof -
  let ?n = "new_timer period fn argn 0 args"
  have n: "tm_next ?n = None" "tm_fn ?n \<noteq> None" by (simp_all add: new_timer_def)
  obtain a m1 m2 where m: "zcrt_timer_malloc_cb new m period fn = Inr (Some a, m1)"
    "tq_heap m1 a = Some (new_timer period fn 0 0 [])"
    "zcrt_timer_insert_cb_has_mutex (m1\<lparr>tq_heap := (tq_heap m1)(a \<mapsto> ?n)\<rparr>) a = Inr m2"
    "tm_wf m2 (tl fs) (as @ [a])" "timers m2 (as @ [a]) = timers m as @ [?n]" "tq_con m2 = tq_con m"
    using timer_add_wf [OF wf al n] by metis
  have "(new_timer period fn 0 0 [])\<lparr>tm_argn := argn,
      tm_args := take (unat argn) args @ drop (unat argn) (tm_args (new_timer period fn 0 0 []))\<rparr> = ?n"
    using k by (simp add: new_timer_def)
  then have "zcrt_timercon_add_argn new (Some m) cid period (Some fn) argn args = Inr (EZCRTErr_success, Some m2)"
    using m(1-3) c k by (simp add: zcrt_timercon_add_argn_def Let_def not_less)
  then show ?thesis using that m(4-6) by blast
qed

section \<open>Taking a timer out\<close>

text \<open>The free list takes a node that is in neither list.\<close>

lemma timer_free_wf:
  assumes c: "chains tm_next h [p, q] [fs, bs]" and a: "a \<notin> set (fs @ bs)" "h a = Some n"
    and m: "tq_heap m = h" "tq_free m = p" "tq_job m = q" "tq_tail m = last_of bs"
    "tq_freesize m = of_nat (length fs)" "length (tq_con m) = ZTIMER_CONTAINER_MAX"
    and fn: "\<forall>b \<in> set bs. tm_fn (the (h b)) \<noteq> None"
  obtains m' where "zcrt_timer_free_cb m a = Inr m'" "tm_wf m' (a # fs) bs"
    "timers m' bs = contents_of tm_set_next h bs" "tq_con m' = tq_con m"
proof -
  let ?n = "n\<lparr>tm_next := p, tm_fn := None, tm_con := ZTIMER_INVALID_CONTAINER\<rparr>"
  let ?m = "m\<lparr>tq_heap := h(a \<mapsto> ?n), tq_free := Some a, tq_freesize := tq_freesize m + 1\<rparr>"
  have "chains tm_next (h(a \<mapsto> ?n)) [Some a, q] [a # fs, bs]"
    by (rule chains_push [OF c]) (use a in simp_all)
  moreover have "\<forall>b \<in> set bs. tm_fn (the ((h(a \<mapsto> ?n)) b)) \<noteq> None" using fn a(1) by auto
  ultimately have "tm_wf ?m (a # fs) bs" using m by (simp add: tm_wf_def)
  moreover have "zcrt_timer_free_cb m a = Inr ?m" using a(2) m by (simp add: zcrt_timer_free_cb_def)
  moreover have "timers ?m bs = contents_of tm_set_next h bs"
    using a(1) by (simp add: timers_def tm.contents_of_upd)
  ultimately show ?thesis using that [of ?m] by simp
qed

text \<open>Unlinking node \<^verbatim>\<open>a\<close>, at the head or behind a predecessor.\<close>

lemma unlink_wf:
  assumes wf: "tm_wf m fs (xs @ a # ys)" and a: "tq_heap m a = Some n"
  shows "tm_next n = (case ys of [] \<Rightarrow> None | y # _ \<Rightarrow> Some y)" "tq_job m = Some a \<longleftrightarrow> xs = []"
    "xs = [] \<Longrightarrow> chains tm_next (tq_heap m) [tq_free m, tm_next n] [fs, xs @ ys]"
    "xs = ws @ [l] \<Longrightarrow> \<exists>ln. tq_heap m l = Some ln \<and>
      chains tm_next ((tq_heap m)(l \<mapsto> tm_set_next (tm_next n) ln)) [tq_free m, tq_job m] [fs, xs @ ys]"
proof -
  note w = tm_wfD [OF wf]
  have seg: "chain tm_next (tq_heap m) (tm_next n) ys None" using w(6) a by (auto simp: chain_append)
  then show "tm_next n = (case ys of [] \<Rightarrow> None | y # _ \<Rightarrow> Some y)" by (cases ys) auto
  show "tq_job m = Some a \<longleftrightarrow> xs = []" using w(6,7) by (cases xs) auto
  show "xs = [] \<Longrightarrow> chains tm_next (tq_heap m) [tq_free m, tm_next n] [fs, xs @ ys]"
    using tm.chains_out_front [OF w(1), of 1 a ys n] a by simp
  assume xs: "xs = ws @ [l]"
  obtain ln where ln: "tq_heap m l = Some ln" using w(9) [of l] xs by auto
  show "\<exists>ln. tq_heap m l = Some ln \<and>
      chains tm_next ((tq_heap m)(l \<mapsto> tm_set_next (tm_next n) ln)) [tq_free m, tq_job m] [fs, xs @ ys]"
    using tm.chains_out_after [OF w(1), of 1 ws l a ys ln n] a ln xs by (intro exI [of _ ln]) simp
qed

lemma unlinked_nodes:
  assumes wf: "tm_wf m fs (xs @ a # ys)"
    and h: "h = tq_heap m \<or> (\<exists>l ln q. tq_heap m l = Some ln \<and> h = (tq_heap m)(l \<mapsto> tm_set_next q ln))"
  shows "\<forall>b \<in> set (xs @ ys). tm_fn (the (h b)) \<noteq> None"
    "contents_of tm_set_next h (xs @ ys) = contents_of tm_set_next (tq_heap m) (xs @ ys)"
proof -
  have "tm_fn (the (h b)) = tm_fn (the (tq_heap m b))" for b
    using h by (auto simp: tm_view_fn)
  then show "\<forall>b \<in> set (xs @ ys). tm_fn (the (h b)) \<noteq> None" using tm_wfD(5) [OF wf] by auto
  show "contents_of tm_set_next h (xs @ ys) = contents_of tm_set_next (tq_heap m) (xs @ ys)"
    using h tm.contents_of_relink by metis
qed


lemma find_timer_split:
  assumes "chain tm_next h p (xs @ c # ys) None" "\<forall>a \<in> set xs. \<not> is_timer fn p1 p2 (the (h a))"
    and "is_timer fn p1 p2 (the (h c))"
  shows "find_timer h fn p1 p2 prev p = Some (Inr (if xs = [] then prev else Some (last xs), Some c))"
  using assms
proof (induction xs arbitrary: p prev)
  case Nil
  then show ?case by (subst find_timer.simps) auto
next
  case (Cons a xs)
  then obtain n where n: "p = Some a" "h a = Some n" "chain tm_next h (tm_next n) (xs @ c # ys) None" by auto
  then show ?case
    using Cons.IH [OF n(3), of "Some a"] Cons.prems by (subst find_timer.simps) auto
qed

lemma find_timer_none:
  assumes "chain tm_next h p as None" "\<forall>a \<in> set as. \<not> is_timer fn p1 p2 (the (h a))"
  shows "\<exists>prev'. find_timer h fn p1 p2 prev p = Some (Inr (prev', None))"
  using assms
proof (induction as arbitrary: p prev)
  case Nil
  then show ?case by (subst find_timer.simps) simp
next
  case (Cons a as)
  then obtain n where n: "p = Some a" "h a = Some n" "chain tm_next h (tm_next n) as None" by auto
  then show ?case
    using Cons.IH [OF n(3), of "Some a"] Cons.prems by (subst find_timer.simps) auto
qed

lemma is_timer_set_next [simp]: "is_timer fn p1 p2 (tm_set_next q n) = is_timer fn p1 p2 n"
  by (simp add: is_timer_def tm_set_next_def)

lemma delete_found:
  assumes wf: "tm_wf m fs (xs @ c # ys)" and c: "is_timer fn p1 p2 (the (tq_heap m c))"
    and xs: "\<forall>a \<in> set xs. \<not> is_timer fn p1 p2 (the (tq_heap m a))"
  obtains m' where "zcrt_timer_delete (Some m) (Some fn) p1 p2 = Inr (EZCRTErr_success, Some m')"
    "tm_wf m' (c # fs) (xs @ ys)" "timers m' (xs @ ys) = timers m (xs @ ys)" "tq_con m' = tq_con m"
proof -
  note w = tm_wfD [OF wf]
  obtain cn where cn: "tq_heap m c = Some cn" using w(9) [of c] by auto
  have out: "c \<notin> set (fs @ xs @ ys)" using w(7,8) by auto
  note ul = unlink_wf [OF wf cn]
  note tl = last_of_out [OF w(7)] last_of_Some [OF w(7)]
  show ?thesis
  proof (cases "xs = []")
    case True
    let ?m = "m\<lparr>tq_job := tm_next cn, tq_tail := last_of ys\<rparr>"
    obtain m' where m': "zcrt_timer_free_cb ?m c = Inr m'" "tm_wf m' (c # fs) (xs @ ys)"
      "timers m' (xs @ ys) = contents_of tm_set_next (tq_heap m) (xs @ ys)" "tq_con m' = tq_con ?m"
      by (rule timer_free_wf [OF ul(3) [OF True] out cn, of ?m])
        (use True w unlinked_nodes(1) [OF wf, of "tq_heap m"] in simp_all)
    have "(if tm_next cn = None then m\<lparr>tq_job := tm_next cn, tq_tail := None\<rparr> else m\<lparr>tq_job := tm_next cn\<rparr>) = ?m"
      using ul(1) w(2) tl(1) True by (cases ys) (auto simp: last_of_def)
    then have "zcrt_timer_delete (Some m) (Some fn) p1 p2 = Inr (EZCRTErr_success, Some m')"
      using ul(2) True cn c m'(1) by (simp add: zcrt_timer_delete_def Let_def)
    with that m' show ?thesis by (simp add: timers_def)
  next
    case False
    then obtain ws l where ws: "xs = ws @ [l]" by (metis append_butlast_last_id)
    obtain ln where ln: "tq_heap m l = Some ln"
      and ch: "chains tm_next ((tq_heap m)(l \<mapsto> tm_set_next (tm_next cn) ln)) [tq_free m, tq_job m] [fs, xs @ ys]"
      using ul(4) [OF ws] by blast
    define h where h: "h = (tq_heap m)(l \<mapsto> tm_set_next (tm_next cn) ln)"
    have un: "\<forall>b \<in> set (xs @ ys). tm_fn (the (h b)) \<noteq> None"
      "contents_of tm_set_next h (xs @ ys) = contents_of tm_set_next (tq_heap m) (xs @ ys)"
      using unlinked_nodes [OF wf, of h] ln h by blast+
    let ?m = "m\<lparr>tq_heap := h, tq_tail := last_of (xs @ ys)\<rparr>"
    have hc: "h c = Some cn" using cn out ws h by auto
    obtain m' where m': "zcrt_timer_free_cb ?m c = Inr m'" "tm_wf m' (c # fs) (xs @ ys)"
      "timers m' (xs @ ys) = contents_of tm_set_next h (xs @ ys)" "tq_con m' = tq_con ?m"
      by (rule timer_free_wf [OF ch [folded h] out hc, of ?m]) (use w un(1) in simp_all)
    obtain hd where hd: "tq_job m = Some hd" "hd \<in> set xs" using w(6) ws by (cases ws) auto
    obtain hn where hn: "tq_heap m hd = Some hn" using w(9) [of hd] hd(2) by auto
    have nh: "\<not> is_timer fn p1 p2 hn" using xs hd(2) hn by force
    have ft: "find_timer (tq_heap m) fn p1 p2 (Some hd) (Some hd) = Some (Inr (Some l, Some c))"
      using find_timer_split [OF w(6) [unfolded] xs c, of "Some hd"] hd(1) ws by simp
    have "zcrt_timer_delete (Some m) (Some fn) p1 p2 = Inr (EZCRTErr_success, Some m')"
    proof (cases "ys = []")
      case True
      then have "tm_next cn = None" "tq_tail m = Some c" using ul(1) w(2) tl(2) by simp_all
      moreover have "last_of (xs @ ys) = Some l" using True ws by (simp add: last_of_def)
      moreover have "(tq_heap m)(l \<mapsto> ln\<lparr>tm_next := None\<rparr>) = h"
        using h calculation(1) by (simp add: tm_set_next_def)
      ultimately show ?thesis
        using hd(1) hn nh ft cn ln m'(1) by (simp add: zcrt_timer_delete_def Let_def)
    next
      case f: False
      then have "tq_tail m \<noteq> Some c" "?m = m\<lparr>tq_heap := h\<rparr>" using w(2) tl by simp_all
      then show ?thesis
        using hd(1) hn nh ft cn ln m'(1) by (simp add: zcrt_timer_delete_def Let_def h [unfolded tm_set_next_def, symmetric])
    qed
    with that m' un(2) show ?thesis by (simp add: timers_def)
  qed
qed

lemma delete_none:
  assumes wf: "tm_wf m fs as" and no: "\<forall>a \<in> set as. \<not> is_timer fn p1 p2 (the (tq_heap m a))"
  shows "zcrt_timer_delete (Some m) (Some fn) p1 p2 = Inr (EZCRTErr_success, Some m)"
proof (cases as)
  case Nil
  then have "tq_job m = None" using tm_wfD(6) [OF wf] by simp
  then show ?thesis by (simp add: zcrt_timer_delete_def)
next
  case (Cons a bs)
  note w = tm_wfD [OF wf]
  have j: "tq_job m = Some a" using w(6) Cons by simp
  obtain n where n: "tq_heap m a = Some n" using w(9) [of a] Cons by auto
  have nt: "\<not> is_timer fn p1 p2 n" using no n Cons by force
  obtain pr where "find_timer (tq_heap m) fn p1 p2 (Some a) (Some a) = Some (Inr (pr, None))"
    using find_timer_none [OF w(6) no, of "Some a"] j by auto
  moreover have "tq_tail m \<noteq> None" using w(2) Cons by (simp add: last_of_def)
  ultimately show ?thesis using j n nt by (simp add: zcrt_timer_delete_def)
qed

lemma timer_delete_ok:
  assumes wf: "tm_wf m fs as"
  obtains m' fs' as' where "zcrt_timer_delete (Some m) (Some fn) p1 p2 = Inr (EZCRTErr_success, Some m')"
    "tm_wf m' fs' as'" "timers m' as' = del_first (is_timer fn p1 p2) (timers m as)" "tq_con m' = tq_con m"
proof (cases "\<exists>c \<in> set as. is_timer fn p1 p2 (the (tq_heap m c))")
  case False
  then have "del_first (is_timer fn p1 p2) (timers m as) = timers m as"
    by (intro del_first_none) (auto simp: timers_def contents_of_def)
  then show ?thesis using that delete_none [OF wf] False wf by simp
next
  case True
  then obtain xs c ys where at: "as = xs @ c # ys" "is_timer fn p1 p2 (the (tq_heap m c))"
    "\<forall>a \<in> set xs. \<not> is_timer fn p1 p2 (the (tq_heap m a))"
    using split_list_first_prop [of as "\<lambda>a. is_timer fn p1 p2 (the (tq_heap m a))"] by blast
  have "del_first (is_timer fn p1 p2) (timers m as) = timers m (xs @ ys)"
    using at(2,3) by (simp add: timers_def at(1) del_first_split contents_of_def)
  moreover obtain m' where "zcrt_timer_delete (Some m) (Some fn) p1 p2 = Inr (EZCRTErr_success, Some m')"
    "tm_wf m' (c # fs) (xs @ ys)" "timers m' (xs @ ys) = timers m (xs @ ys)" "tq_con m' = tq_con m"
    using delete_found [OF wf [unfolded at(1)] at(2,3)] by metis
  ultimately show ?thesis using that by metis
qed

section \<open>Scanning\<close>

definition tm_outside :: "'w tm_call \<Rightarrow> (ptr \<Rightarrow> ptr list \<Rightarrow> 'w \<Rightarrow> 'w) \<Rightarrow> bool" where
  "tm_outside call act \<longleftrightarrow> (\<forall>f args m w. call f args (m, w) = Inr (m, act f args w))"

lemma timer_live_con: "tq_con m' = tq_con m \<Longrightarrow> timer_live m' n = timer_live m n"
  by (simp add: timer_live_def)

lemma fire_wf:
  assumes wf: "tm_wf m fs (xs @ a # ys)" and out: "tm_outside call act" and a: "tq_heap m a = Some n"
    and prev: "xs \<noteq> [] \<Longrightarrow> prev = Some (last xs)"
  obtains prev' m' where "timer_fire call a prev (m, w) =
      Inr (prev', m', if timer_live m n then act (the (tm_fn n)) (tm_args n) w else w)"
    "tm_wf m' (a # fs) (xs @ ys)" "timers m' (xs @ ys) = timers m (xs @ ys)" "tq_con m' = tq_con m"
proof -
  note W = tm_wfD [OF wf]
  have gone: "a \<notin> set (fs @ xs @ ys)" using W(7,8) by auto
  note ul = unlink_wf [OF wf a]
  note tl = last_of_out [OF W(7)] last_of_Some [OF W(7)]
  have fn: "\<exists>f. tm_fn n = Some f" using W(5) [of a] a by auto
  have "\<exists>h job prev1. (if tq_job m = Some a then Inr (tm_next n, m\<lparr>tq_job := tm_next n\<rparr>)
            else rbind (deref prev) (\<lambda>p. rbind (deref (tq_heap m p)) (\<lambda>pn.
              Inr (prev, m\<lparr>tq_heap := (tq_heap m)(p \<mapsto> pn\<lparr>tm_next := tm_next n\<rparr>)\<rparr>)))) =
          Inr (prev1, m\<lparr>tq_heap := h, tq_job := job\<rparr>) \<and>
        chains tm_next h [tq_free m, job] [fs, xs @ ys] \<and> (ys = [] \<longrightarrow> prev1 = last_of xs) \<and> h a = Some n \<and>
        (h = tq_heap m \<or> (\<exists>l ln q. tq_heap m l = Some ln \<and> h = (tq_heap m)(l \<mapsto> tm_set_next q ln)))"
  proof (cases "xs = []")
    case True
    then show ?thesis using ul(1,2) ul(3) [OF True] a
      by (intro exI [of _ "tq_heap m"] exI [of _ "tm_next n"] exI [of _ "tm_next n"]) (simp add: last_of_def)
  next
    case False
    then obtain ws l where ws: "xs = ws @ [l]" by (metis append_butlast_last_id)
    obtain ln where ln: "tq_heap m l = Some ln"
      and ch: "chains tm_next ((tq_heap m)(l \<mapsto> tm_set_next (tm_next n) ln)) [tq_free m, tq_job m] [fs, xs @ ys]"
      using ul(4) [OF ws] by blast
    have "((tq_heap m)(l \<mapsto> tm_set_next (tm_next n) ln)) a = Some n" using a gone ws by auto
    then show ?thesis using ul(2) False prev ws ln ch
      by (intro exI [of _ "(tq_heap m)(l \<mapsto> tm_set_next (tm_next n) ln)"] exI [of _ "tq_job m"] exI [of _ prev])
        (auto simp: tm_set_next_def last_of_def)
  qed
  then obtain h job prev1 where u: "(if tq_job m = Some a then Inr (tm_next n, m\<lparr>tq_job := tm_next n\<rparr>)
            else rbind (deref prev) (\<lambda>p. rbind (deref (tq_heap m p)) (\<lambda>pn.
              Inr (prev, m\<lparr>tq_heap := (tq_heap m)(p \<mapsto> pn\<lparr>tm_next := tm_next n\<rparr>)\<rparr>)))) =
          Inr (prev1, m\<lparr>tq_heap := h, tq_job := job\<rparr>)"
    "chains tm_next h [tq_free m, job] [fs, xs @ ys]" "ys = [] \<Longrightarrow> prev1 = last_of xs" "h a = Some n"
    "h = tq_heap m \<or> (\<exists>l ln q. tq_heap m l = Some ln \<and> h = (tq_heap m)(l \<mapsto> tm_set_next q ln))" by blast
  note un = unlinked_nodes [OF wf u(5)]
  let ?m1 = "m\<lparr>tq_heap := h, tq_job := job\<rparr>"
  let ?m2 = "m\<lparr>tq_heap := h, tq_job := job, tq_tail := last_of (xs @ ys)\<rparr>"
  have t: "(if tq_tail ?m1 = Some a then rbind (zassert (tm_next n = None)) (\<lambda>_. Inr (?m1\<lparr>tq_tail := prev1\<rparr>))
      else Inr ?m1) = Inr ?m2"
    using W(2) tl ul(1) u(3) by (auto simp: last_of_def)
  obtain m' where m': "zcrt_timer_free_cb ?m2 a = Inr m'" "tm_wf m' (a # fs) (xs @ ys)"
    "timers m' (xs @ ys) = contents_of tm_set_next h (xs @ ys)" "tq_con m' = tq_con ?m2"
    by (rule timer_free_wf [OF u(2) gone u(4), of ?m2]) (use W un(1) in simp_all)
  have live: "timer_live ?m2 n = timer_live m n" by (rule timer_live_con) simp
  have "timer_fire call a prev (m, w) =
      Inr (prev1, m', if timer_live m n then act (the (tm_fn n)) (tm_args n) w else w)"
    unfolding timer_fire_def prod.case a deref_simps rbind.simps u(1) t
    using fn out m'(1) live by (auto simp: tm_outside_def)
  then show ?thesis using that m' un(2) by (simp add: timers_def)
qed

text \<open>
  One scan as a function on the list of pending timers: \<^verbatim>\<open>pre\<close> have been counted down,
  \<^verbatim>\<open>post\<close> are to come. After every expired timer it starts over from the front.
\<close>

function abs_scan ::
  "(zTimerCB \<Rightarrow> bool) \<Rightarrow> (zTimerCB \<Rightarrow> 'w \<Rightarrow> 'w) \<Rightarrow> zTimerCB list \<Rightarrow> zTimerCB list \<Rightarrow> 'w \<Rightarrow> zTimerCB list \<times> 'w" where
  "abs_scan live fire pre [] w = (pre, w)"
| "abs_scan live fire pre (n # post) w =
     (if tm_left n < TIMER_TICK
      then abs_scan live fire [] (pre @ post) (if live n then fire n w else w)
      else abs_scan live fire (pre @ [n\<lparr>tm_left := tm_left n - TIMER_TICK\<rparr>]) post w)"
  by pat_completeness auto
termination
  by (relation "measures [\<lambda>(_, _, pre, post, _). length pre + length post, \<lambda>(_, _, pre, post, _). length post]") auto

definition fire_act :: "(ptr \<Rightarrow> ptr list \<Rightarrow> 'w \<Rightarrow> 'w) \<Rightarrow> zTimerCB \<Rightarrow> 'w \<Rightarrow> 'w" where
  "fire_act act n w = act (the (tm_fn n)) (tm_args n) w"

lemma scan_wf:
  assumes out: "tm_outside call act" and wf: "tm_wf m fs as"
    and parts: "timers m as = pre @ post" "as = xs @ ys" "length pre = length xs"
    and prev: "xs \<noteq> [] \<Longrightarrow> prev = Some (last xs)"
    and live: "\<And>n. live n = timer_live m n"
  shows "\<exists>m' fs' as'. timer_scan call (case ys of [] \<Rightarrow> None | y # _ \<Rightarrow> Some y) prev (m, w) =
      Some (Inr (m', snd (abs_scan live (fire_act act) pre post w))) \<and> tm_wf m' fs' as' \<and>
      timers m' as' = fst (abs_scan live (fire_act act) pre post w) \<and> tq_con m' = tq_con m"
  using wf parts prev live
proof (induction live "fire_act act" pre post w arbitrary: m fs as xs ys prev rule: abs_scan.induct)
  case (1 live pre w)
  have "length (timers m as) = length as" by (simp add: timers_def)
  then have ys: "ys = []" using 1(2-4) by simp
  have "timer_scan call None prev (m, w) = Some (Inr (m, w))" by (subst timer_scan.simps) simp
  then show ?case using ys 1(1,2) by (intro exI [of _ m] exI [of _ fs] exI [of _ as]) simp
next
  case (2 live pre n post w)
  note IH = 2(1,2) and wf = 2(3) and parts = 2(4-6) and prev = 2(7) and live = 2(8)
  note W = tm_wfD [OF wf]
  have len: "length (timers m as) = length as" by (simp add: timers_def)
  then obtain a zs where ys: "ys = a # zs" using parts by (cases ys) auto
  have cut: "timers m xs = pre" "timers m (a # zs) = n # post"
    using parts ys by (simp_all add: timers_def append_eq_append_conv)
  obtain cn where cn: "tq_heap m a = Some cn" using W(9) [of a] parts(2) ys by auto
  have n: "n = tm_set_next None cn" "post = timers m zs" using cut(2) cn by (simp_all add: timers_def)
  have nf: "tm_left n = tm_left cn" "tm_fn n = tm_fn cn" "tm_args n = tm_args cn" "timer_live m n = timer_live m cn"
    using n(1) by (simp_all add: tm_set_next_def timer_live_def)
  show ?case
  proof (cases "tm_left n < TIMER_TICK")
    case True
    obtain prev' m1 where f: "timer_fire call a prev (m, w) =
        Inr (prev', m1, if timer_live m cn then act (the (tm_fn cn)) (tm_args cn) w else w)"
      "tm_wf m1 (a # fs) (xs @ zs)" "timers m1 (xs @ zs) = timers m (xs @ zs)" "tq_con m1 = tq_con m"
      using fire_wf [OF wf [unfolded parts(2) ys] out cn prev] by metis
    let ?w = "if live n then fire_act act n w else w"
    have w: "(if timer_live m cn then act (the (tm_fn cn)) (tm_args cn) w else w) = ?w"
      using live nf by (simp add: fire_act_def)
    have t1: "timers m1 (xs @ zs) = [] @ (pre @ post)" using f(3) cut n(2) by (simp add: timers_def)
    have l1: "live n' = timer_live m1 n'" for n' using live timer_live_con [OF f(4)] by simp
    obtain m' fs' as' where r: "timer_scan call (case xs @ zs of [] \<Rightarrow> None | y # _ \<Rightarrow> Some y) prev' (m1, ?w) =
        Some (Inr (m', snd (abs_scan live (fire_act act) [] (pre @ post) ?w)))" "tm_wf m' fs' as'"
      "timers m' as' = fst (abs_scan live (fire_act act) [] (pre @ post) ?w)" "tq_con m' = tq_con m1"
      using IH(1) [OF True f(2) t1 _ _ _ l1, of "[]" "xs @ zs" prev'] by auto
    have "tq_job m1 = (case xs @ zs of [] \<Rightarrow> None | y # _ \<Rightarrow> Some y)"
      by (rule chain_head [OF tm_wfD(6) [OF f(2)]])
    then have "timer_scan call (Some a) prev (m, w) =
        timer_scan call (case xs @ zs of [] \<Rightarrow> None | y # _ \<Rightarrow> Some y) prev' (m1, ?w)"
      using cn True nf(1) f(1) w by (subst timer_scan.simps) simp
    with r ys True f(4) show ?thesis by (intro exI [of _ m'] exI [of _ fs'] exI [of _ as']) simp
  next
    case False
    let ?cn = "cn\<lparr>tm_left := tm_left cn - TIMER_TICK\<rparr>"
    let ?m = "m\<lparr>tq_heap := (tq_heap m)(a \<mapsto> ?cn)\<rparr>"
    have "chains tm_next ((tq_heap m)(a \<mapsto> ?cn)) [tq_free m, tq_job m] [fs, as]"
      using cn by (intro chains_frame [OF W(1)]) auto
    moreover have "tm_fn (the (((tq_heap m)(a \<mapsto> ?cn)) b)) = tm_fn (the (tq_heap m b))" for b using cn by simp
    ultimately have wf': "tm_wf ?m fs as" using W(2-5) by (simp add: tm_wf_def)
    have na: "a \<notin> set xs" "a \<notin> set zs" using W(7) parts(2) ys by auto
    have "timers ?m as = (pre @ [n\<lparr>tm_left := tm_left n - TIMER_TICK\<rparr>]) @ post"
      using cut n na unfolding parts(2) ys
      by (simp add: timers_def tm.contents_of_upd tm_set_next_def)
    moreover have "live n' = timer_live ?m n'" for n' using live timer_live_con [of ?m m] by simp
    ultimately obtain m' fs' as' where r:
      "timer_scan call (case zs of [] \<Rightarrow> None | y # _ \<Rightarrow> Some y) (Some a) (?m, w) =
        Some (Inr (m', snd (abs_scan live (fire_act act) (pre @ [n\<lparr>tm_left := tm_left n - TIMER_TICK\<rparr>]) post w)))"
      "tm_wf m' fs' as'"
      "timers m' as' = fst (abs_scan live (fire_act act) (pre @ [n\<lparr>tm_left := tm_left n - TIMER_TICK\<rparr>]) post w)"
      "tq_con m' = tq_con ?m"
      using IH(2) [OF False wf', of "xs @ [a]" zs "Some a"] parts ys by auto
    have "tm_next cn = (case zs of [] \<Rightarrow> None | y # _ \<Rightarrow> Some y)"
      by (rule unlink_wf(1) [OF wf [unfolded parts(2) ys] cn])
    then have "timer_scan call (Some a) prev (m, w) =
        timer_scan call (case zs of [] \<Rightarrow> None | y # _ \<Rightarrow> Some y) (Some a) (?m, w)"
      using cn False nf(1) by (subst timer_scan.simps) simp
    with r ys False show ?thesis by (intro exI [of _ m'] exI [of _ fs'] exI [of _ as']) simp
  qed
qed

lemma tick_wf:
  assumes "tm_outside call act" "tm_wf m fs as"
  obtains m' fs' as' where
    "timer_tick call (m, w) = Inr (m', snd (abs_scan (timer_live m) (fire_act act) [] (timers m as) w))"
    "tm_wf m' fs' as'" "timers m' as' = fst (abs_scan (timer_live m) (fire_act act) [] (timers m as) w)"
    "tq_con m' = tq_con m"
proof -
  have "tq_job m = (case as of [] \<Rightarrow> None | y # _ \<Rightarrow> Some y)" by (rule chain_head [OF tm_wfD(6) [OF assms(2)]])
  then show ?thesis
    using scan_wf [OF assms, of "[]" "timers m as" "[]" as "tq_job m" "timer_live m" w] that
    by (auto simp: timer_tick_def)
qed

section \<open>Containers\<close>

text \<open>With a free container the search finds one; without one it ends unless the 16-bit counter wraps
  below its bound.\<close>

lemma con_loop_found:
  assumes "unat i + k < 65536" "unat i + k < unat lastid + 1000"
    "(unat i + k) mod 1000 \<noteq> 0" "con ! ((unat i + k) mod 1000) = 0"
  shows "\<exists>j \<le> k. con_loop con lastid i = Some (Some (i + of_nat j, (unat i + j) mod 1000)) \<and>
    (unat i + j) mod 1000 \<noteq> 0 \<and> con ! ((unat i + j) mod 1000) = 0"
  using assms
proof (induction k arbitrary: i)
  case 0
  then show ?case
    by (subst con_loop.simps) (simp add: ZTIMER_CONTAINER_MAX_def ZTIMER_INVALID_CONTAINER_def Let_def)
next
  case (Suc k)
  show ?case
  proof (cases "unat i mod 1000 \<noteq> 0 \<and> con ! (unat i mod 1000) = 0")
    case True
    then show ?thesis using Suc.prems
      by (subst con_loop.simps) (auto simp: ZTIMER_CONTAINER_MAX_def ZTIMER_INVALID_CONTAINER_def Let_def)
  next
    case False
    have u: "unat (i + 1) = unat i + 1" using Suc.prems(1) by (simp add: unat_word_ariths)
    have "con_loop con lastid i = con_loop con lastid (i + 1)"
      using False Suc.prems(2)
      by (subst con_loop.simps) (auto simp: ZTIMER_CONTAINER_MAX_def ZTIMER_INVALID_CONTAINER_def Let_def)
    moreover obtain j where "j \<le> k" "con_loop con lastid (i + 1) = Some (Some (i + 1 + of_nat j, (unat (i + 1) + j) mod 1000))"
      "(unat (i + 1) + j) mod 1000 \<noteq> 0" "con ! ((unat (i + 1) + j) mod 1000) = 0"
      using Suc.IH [of "i + 1"] Suc.prems u by auto
    ultimately show ?thesis using u by (intro exI [of _ "Suc j"]) (simp add: add.assoc)
  qed
qed

lemma con_loop_skip:
  assumes "unat i + k < 65536" "unat i + k \<le> unat lastid + 1000"
    "\<forall>j < k. (unat i + j) mod 1000 = 0 \<or> con ! ((unat i + j) mod 1000) \<noteq> 0"
  shows "con_loop con lastid i = con_loop con lastid (i + of_nat k)"
  using assms
proof (induction k arbitrary: i)
  case (Suc k)
  have u: "unat (i + 1) = unat i + 1" using Suc.prems(1) by (simp add: unat_word_ariths)
  have "\<not> (unat i mod 1000 \<noteq> 0 \<and> con ! (unat i mod 1000) = 0)" using Suc.prems(3) by force
  then have "con_loop con lastid i = con_loop con lastid (i + 1)"
    using Suc.prems(2)
    by (subst con_loop.simps) (auto simp: ZTIMER_CONTAINER_MAX_def ZTIMER_INVALID_CONTAINER_def Let_def)
  also have "\<dots> = con_loop con lastid (i + 1 + of_nat k)"
  proof (rule Suc.IH)
    show "\<forall>j < k. (unat (i + 1) + j) mod 1000 = 0 \<or> con ! ((unat (i + 1) + j) mod 1000) \<noteq> 0"
    proof (intro allI impI)
      fix j assume "j < k"
      moreover have "unat (i + 1) + j = unat i + Suc j" using u by simp
      ultimately show "(unat (i + 1) + j) mod 1000 = 0 \<or> con ! ((unat (i + 1) + j) mod 1000) \<noteq> 0"
        using Suc.prems(3) by (simp only: Suc_less_eq)
    qed
  qed (use Suc.prems(1,2) u in simp_all)
  finally show ?case by (simp add: ac_simps)
qed simp

definition free_con :: "u8 list \<Rightarrow> nat \<Rightarrow> bool" where
  "free_con con k \<longleftrightarrow> k \<noteq> 0 \<and> k < ZTIMER_CONTAINER_MAX \<and> con ! k = 0"

lemma con_hit:
  assumes "unat i + k < 65536" "unat i + k < unat lastid + 1000" "free_con con ((unat i + k) mod 1000)"
  shows "\<exists>i' idx. con_loop con lastid i = Some (Some (i', idx)) \<and> free_con con idx"
  using con_loop_found [of i k lastid con] assms by (fastforce simp: free_con_def ZTIMER_CONTAINER_MAX_def)

lemma con_loop_some:
  assumes k: "free_con con k"
  shows "\<exists>i idx. con_loop con lastid lastid = Some (Some (i, idx)) \<and> free_con con idx"
proof -
  have k1: "k \<noteq> 0" "k < 1000" using k by (simp_all add: free_con_def ZTIMER_CONTAINER_MAX_def)
  define d where "d = (k + 1000 - unat lastid mod 1000) mod 1000"
  have d: "d < 1000" by (simp add: d_def)
  have dk: "(unat lastid + d) mod 1000 = k"
  proof -
    have cut: "r < 1000 \<Longrightarrow> a = 1000 * q + r \<Longrightarrow> a + (k + 1000 - r) = k + 1000 * (q + 1)" for a q r :: nat
      by simp
    have "unat lastid + (k + 1000 - unat lastid mod 1000) = k + 1000 * (unat lastid div 1000 + 1)"
      by (rule cut) simp_all
    then have "(unat lastid + (k + 1000 - unat lastid mod 1000)) mod 1000 = k mod 1000"
      by (simp only: mod_mult_self2)
    moreover have "(unat lastid + d) mod 1000 = (unat lastid + (k + 1000 - unat lastid mod 1000)) mod 1000"
      unfolding d_def by (rule mod_add_right_eq)
    ultimately show ?thesis using k1 by simp
  qed
  show ?thesis
  proof (cases "unat lastid + d < 65536")
    case True
    then show ?thesis using con_hit [of lastid d lastid con] d dk k by simp
  next
    case False
    let ?m = "65535 - unat lastid"
    have m: "unat lastid + ?m = 65535" using u16_bound [of lastid] by linarith
    show ?thesis
    proof (cases "\<exists>j \<le> ?m. free_con con ((unat lastid + j) mod 1000)")
      case True
      then obtain j where j: "j \<le> ?m" "free_con con ((unat lastid + j) mod 1000)" by blast
      then have "unat lastid + j < 65536" "unat lastid + j < unat lastid + 1000" using m False d by linarith+
      then show ?thesis using con_hit j(2) by blast
    next
      case no: False
      have "con_loop con lastid lastid = con_loop con lastid (lastid + of_nat ?m)"
        using no m False d by (intro con_loop_skip) (auto simp: free_con_def ZTIMER_CONTAINER_MAX_def)
      also have e: "lastid + of_nat ?m = (65535 :: u16)"
      proof -
        have "(of_nat (unat lastid + ?m) :: u16) = of_nat 65535" using m by simp
        then show ?thesis by simp
      qed
      also have "con_loop con lastid 65535 = con_loop con lastid 0"
      proof -
        have nf: "\<not> free_con con (65535 mod 1000)" using no m by (metis le_refl)
        have z: "(65536 :: u16) = 0" by simp
        show ?thesis using False d nf
          by (subst con_loop.simps)
            (auto simp: z free_con_def ZTIMER_CONTAINER_MAX_def ZTIMER_INVALID_CONTAINER_def Let_def)
      qed
      finally have "con_loop con lastid lastid = con_loop con lastid 0" .
      then show ?thesis using con_hit [of 0 k lastid con] k1 k by simp
    qed
  qed
qed

lemma con_loop_full:
  assumes no: "\<And>k. \<not> free_con con k" and l: "unat lastid < 64536"
  shows "con_loop con lastid lastid = Some None"
proof -
  have "con_loop con lastid lastid = con_loop con lastid (lastid + of_nat 1000)"
    using l no by (intro con_loop_skip) (auto simp: free_con_def ZTIMER_CONTAINER_MAX_def)
  moreover have "unat (lastid + of_nat 1000) = unat lastid + 1000"
    using l by (simp add: unat_word_ariths)
  ultimately show ?thesis
    by (simp only:) (subst con_loop.simps, simp add: ZTIMER_CONTAINER_MAX_def)
qed

lemma con_loop_endless:
  assumes no: "\<And>k. \<not> free_con con k" and l: "64536 \<le> unat lastid"
  shows "con_loop con lastid i = None"
proof -
  have False if r: "con_loop con lastid i = Some r" for r
  proof -
    have "con = con \<longrightarrow> lastid = lastid \<longrightarrow> False"
    proof (rule con_loop.raw_induct [where P = "\<lambda>c s i r. c = con \<longrightarrow> s = lastid \<longrightarrow> False", OF _ r], intro impI)
      fix rec c s r and i :: u16
      assume IH: "\<And>c s i r. rec c s i = Some r \<Longrightarrow> c = con \<longrightarrow> s = lastid \<longrightarrow> False"
        and eq: "(if unat i < unat s + ZTIMER_CONTAINER_MAX
          then let idx = unat i mod ZTIMER_CONTAINER_MAX in
            if idx \<noteq> unat ZTIMER_INVALID_CONTAINER \<and> c ! idx = 0 then Some (Some (i, idx)) else rec c s (i + 1)
          else Some None) = Some r" and cs: "c = con" "s = lastid"
      have "unat i < unat lastid + ZTIMER_CONTAINER_MAX"
        using l u16_bound [of i] unfolding ZTIMER_CONTAINER_MAX_def by linarith
      moreover have "\<not> (unat i mod ZTIMER_CONTAINER_MAX \<noteq> unat ZTIMER_INVALID_CONTAINER \<and>
          con ! (unat i mod ZTIMER_CONTAINER_MAX) = 0)"
        using no [of "unat i mod 1000"] by (simp add: free_con_def ZTIMER_CONTAINER_MAX_def ZTIMER_INVALID_CONTAINER_def)
      ultimately have "rec con lastid (i + 1) = Some r" using eq cs by (auto simp: Let_def split: if_splits)
      then show False using IH by blast
    qed
    then show False by blast
  qed
  then show ?thesis by (cases "con_loop con lastid i") blast+
qed

text \<open>zcrt_timer_container_new hands out an unused container identifier from 1 to 999 and marks it used
  whenever one is unused, whatever the 16-bit search counter is.\<close>

theorem container_new_spec:
  assumes "free_con (tq_con m) k"
  shows "\<exists>cid m'. zcrt_timer_container_new (Some m) = Inr (cid, Some m') \<and> free_con (tq_con m) (unat cid) \<and>
    tq_con m' = (tq_con m)[unat cid := 1]"
proof -
  obtain i idx where l: "con_loop (tq_con m) (tq_lastid m) (tq_lastid m) = Some (Some (i, idx))"
    "free_con (tq_con m) idx" using con_loop_some [OF assms, of "tq_lastid m"] by blast
  have "unat (of_nat idx :: u16) = idx"
    using l(2) by (simp add: free_con_def ZTIMER_CONTAINER_MAX_def unat_of_nat)
  then show ?thesis using l by (simp add: zcrt_timer_container_new_def)
qed

text \<open>C36. With all 999 containers in use, zcrt_timer_container_new answers ZTIMER_INVALID_CONTAINER while its
  counter is below 64536; from there on the counter wraps below its bound and the search never ends.\<close>

theorem container_new_full:
  assumes "\<And>k. \<not> free_con (tq_con m) k"
  shows "zcrt_timer_container_new (Some m) =
    (if unat (tq_lastid m) < 64536 then Inr (ZTIMER_INVALID_CONTAINER, Some m) else Inl NoReturn)"
  using con_loop_full [OF assms, of "tq_lastid m"] con_loop_endless [OF assms, of "tq_lastid m"]
  by (simp add: zcrt_timer_container_new_def)


definition full_con_timers :: "zTimer" where
  "full_con_timers = \<lparr>tq_heap = Map.empty, tq_job = None, tq_tail = None, tq_free = None, tq_freesize = 0,
     tq_lastid = 65000, tq_con = replicate ZTIMER_CONTAINER_MAX 1, tq_run = True\<rparr>"

lemma container_new_spec_witness:
  "\<exists>m' cid. zcrt_timer_container_new (zcrt_timer_manage_init True Map.empty) = Inr (cid, Some m') \<and>
    free_con (replicate ZTIMER_CONTAINER_MAX 0) (unat cid) \<and>
    tq_con m' = (replicate ZTIMER_CONTAINER_MAX 0)[unat cid := 1]"
  using container_new_spec [of "the (zcrt_timer_manage_init True Map.empty)" 5]
  by (auto simp: free_con_def ZTIMER_CONTAINER_MAX_def zcrt_timer_manage_init_def)

lemma container_new_full_witness: "zcrt_timer_container_new (Some full_con_timers) = Inl NoReturn"
  using container_new_full [of full_con_timers]
  by (simp add: full_con_timers_def free_con_def)

section \<open>Properties\<close>

definition no_timers :: "zTimer" where
  "no_timers = \<lparr>tq_heap = Map.empty, tq_job = None, tq_tail = None, tq_free = None, tq_freesize = 0,
     tq_lastid = 0, tq_con = replicate ZTIMER_CONTAINER_MAX 0, tq_run = True\<rparr>"

lemma no_timers_wf: "tm_wf no_timers [] []" "zcrt_timer_manage_init True Map.empty = Some no_timers"
  by (simp_all add: no_timers_def tm_wf_def chains_def last_of_def zcrt_timer_manage_init_def)

lemma const_con: "ZTIMER_IS_VALID_CONTAINER_ID ZTIMER_CONTAINER_CONSTID" "\<not> con_dead m ZTIMER_CONTAINER_CONSTID"
  "tm_con n = ZTIMER_CONTAINER_CONSTID \<Longrightarrow> timer_live m n"
  by (simp_all add: ZTIMER_IS_VALID_CONTAINER_ID_def con_dead_def timer_live_def)

text \<open>A timer without a container needs nothing but a node.\<close>

lemma timer_add_const:
  assumes "tm_wf m fs as" "can_alloc (tq_heap m) (tq_free m) new"
  shows "\<exists>m' a. zcrt_timer_add new (Some m) period (Some fn) p1 p2 = Inr (EZCRTErr_success, Some m') \<and>
    tm_wf m' (tl fs) (as @ [a]) \<and> timers m' (as @ [a]) = timers m as @ [new_timer period fn 2 ZTIMER_CONTAINER_CONSTID [p1, p2]]"
  unfolding zcrt_timer_add_def using timercon_add_ok [OF assms const_con(1,2)] by metis

text \<open>Adding a timer to an existing container with a node at hand succeeds and puts the timer, with its
  period, callback and two arguments, behind every pending one.\<close>

theorem timer_add_spec:
  assumes "tm_wf m fs as" "can_alloc (tq_heap m) (tq_free m) new"
    and "ZTIMER_IS_VALID_CONTAINER_ID cid" "\<not> con_dead m cid"
  shows "\<exists>m' a. zcrt_timercon_add new (Some m) cid period (Some fn) p1 p2 = Inr (EZCRTErr_success, Some m') \<and>
    tm_wf m' (tl fs) (as @ [a]) \<and> timers m' (as @ [a]) = timers m as @ [new_timer period fn 2 cid [p1, p2]]"
  using timercon_add_ok [OF assms] by metis

lemma timer_add_spec_witness:
  "\<exists>m' a. zcrt_timercon_add (Some 7) (Some no_timers) ZTIMER_CONTAINER_CONSTID 120 (Some 3) 1 2 = Inr (EZCRTErr_success, Some m') \<and>
    tm_wf m' [] [a] \<and> timers m' [a] = [new_timer 120 3 2 ZTIMER_CONTAINER_CONSTID [1, 2]]"
  using timer_add_spec [OF no_timers_wf(1) _ const_con(1,2), of "Some 7" 120 3 1 2]
  by (simp add: can_alloc_def timers_def) (simp add: no_timers_def)

text \<open>Deleting takes out the first pending timer with the same callback and arguments, keeps all others in
  order, and succeeds also when there is none.\<close>

theorem timer_delete_spec:
  assumes "tm_wf m fs as"
  shows "\<exists>m' fs' as'. zcrt_timer_delete (Some m) (Some fn) p1 p2 = Inr (EZCRTErr_success, Some m') \<and>
    tm_wf m' fs' as' \<and> timers m' as' = del_first (is_timer fn p1 p2) (timers m as)"
  using timer_delete_ok [OF assms] by metis

definition test_timer :: "u32 \<Rightarrow> ptr \<Rightarrow> addr option \<Rightarrow> zTimerCB" where
  "test_timer p f q = (new_timer p f 2 ZTIMER_CONTAINER_CONSTID [0, 0])\<lparr>tm_next := q\<rparr>"

lemma test_timer_sel [simp]:
  "tm_left (test_timer p f q) = p" "tm_fn (test_timer p f q) = Some f"
  "tm_con (test_timer p f q) = ZTIMER_CONTAINER_CONSTID" "(test_timer p f q)\<lparr>tm_left := p'\<rparr> = test_timer p' f q"
  by (simp_all add: test_timer_def new_timer_def)

definition two_timers :: "zTimer" where
  "two_timers = no_timers\<lparr>tq_heap := [10 \<mapsto> test_timer 120 3 (Some 11), 11 \<mapsto> test_timer 10 4 None],
     tq_job := Some 10, tq_tail := Some 11\<rparr>"

lemma two_timers_wf: "tm_wf two_timers [] [10, 11]"
  "timers two_timers [10, 11] = [test_timer 120 3 None, test_timer 10 4 None]"
  by (simp_all add: two_timers_def no_timers_def tm_wf_def chains_def last_of_def timers_def test_timer_def
      tm_set_next_def new_timer_def)

lemma timer_delete_spec_witness:
  "\<exists>m' fs' as'. zcrt_timer_delete (Some two_timers) (Some 4) 0 0 = Inr (EZCRTErr_success, Some m') \<and>
    tm_wf m' fs' as' \<and> timers m' as' = [test_timer 120 3 None]"
  using timer_delete_spec [OF two_timers_wf(1), of 4 0 0]
  by (simp add: two_timers_wf(2) del_first_def is_timer_def test_timer_def new_timer_def)

text \<open>C12. With callbacks that leave the timers alone, one scan of the timer thread never faults, ends, keeps the
  lists well formed, and does to the pending timers and the rest of the program what abs_scan says: the
  expired timers are fired and removed, the scan starting over behind each.\<close>

theorem timer_tick_spec:
  assumes "tm_outside call act" "tm_wf m fs as"
  shows "\<exists>m' fs' as' rest w'. abs_scan (timer_live m) (fire_act act) [] (timers m as) w = (rest, w') \<and>
    timer_tick call (m, w) = Inr (m', w') \<and> tm_wf m' fs' as' \<and> timers m' as' = rest"
  using tick_wf [OF assms, of w] by (metis prod.collapse)

definition log_call :: "(ptr \<times> ptr list) list tm_call" where
  "log_call f args s = Inr (fst s, snd s @ [(f, args)])"

abbreviation (input) log_act :: "ptr \<Rightarrow> ptr list \<Rightarrow> (ptr \<times> ptr list) list \<Rightarrow> (ptr \<times> ptr list) list" where
  "log_act f args w \<equiv> w @ [(f, args)]"

lemma log_outside: "tm_outside log_call log_act"
  by (simp add: tm_outside_def log_call_def)

lemma timer_tick_spec_witness:
  "\<exists>m' fs' as'. timer_tick log_call (two_timers, []) = Inr (m', [(4, tm_args (test_timer 10 4 None))]) \<and> tm_wf m' fs' as' \<and>
    timers m' as' = [test_timer 20 3 None]"
  using timer_tick_spec [OF log_outside two_timers_wf(1), of "[]"] unfolding two_timers_wf(2)
  by (auto simp: TIMER_TICK_def fire_act_def const_con)


subsection \<open>When timers fire\<close>

abbreviation (input) tick_down :: "u32 \<Rightarrow> zTimerCB \<Rightarrow> zTimerCB" where
  "tick_down d n \<equiv> n\<lparr>tm_left := tm_left n - d\<rparr>"

lemma abs_scan_down:
  assumes "\<forall>n \<in> set post. TIMER_TICK \<le> tm_left n"
  shows "abs_scan live fire pre post w = (pre @ map (tick_down TIMER_TICK) post, w)"
  using assms by (induction post arbitrary: pre) (simp_all add: linorder_not_less [symmetric])

lemma abs_scan_to:
  assumes "\<forall>n \<in> set xs. TIMER_TICK \<le> tm_left n" "tm_left n < TIMER_TICK"
  shows "abs_scan live fire pre (xs @ n # post) w =
    abs_scan live fire [] (pre @ map (tick_down TIMER_TICK) xs @ post) (if live n then fire n w else w)"
  using assms by (induction xs arbitrary: pre) (simp_all add: linorder_not_less [symmetric])

lemma tick_down_twice: "tick_down TIMER_TICK (tick_down TIMER_TICK n) = tick_down (2 * TIMER_TICK) n"
  by (simp add: TIMER_TICK_def)

lemma left_after_tick: "2 * TIMER_TICK \<le> p \<Longrightarrow> TIMER_TICK \<le> p \<and> TIMER_TICK \<le> p - TIMER_TICK" for p :: u32
  unfolding TIMER_TICK_def by (simp add: word_le_nat_alt unat_sub_if_size)

text \<open>A scan that finds one expired timer fires it, and counts down the timers behind it by 50 ms but
  those in front of it by 100 ms, since it starts over from the head: they expire early.\<close>

theorem timer_front_loses:
  assumes out: "tm_outside call act" and wf: "tm_wf m fs as" and at: "timers m as = pre @ n # post"
    and n: "tm_left n < TIMER_TICK" "timer_live m n"
    and pre: "\<forall>x \<in> set pre. 2 * TIMER_TICK \<le> tm_left x" and post: "\<forall>x \<in> set post. TIMER_TICK \<le> tm_left x"
  shows "\<exists>m' fs' as'. timer_tick call (m, w) = Inr (m', act (the (tm_fn n)) (tm_args n) w) \<and> tm_wf m' fs' as' \<and>
    timers m' as' = map (tick_down (2 * TIMER_TICK)) pre @ map (tick_down TIMER_TICK) post"
proof -
  have p1: "\<forall>x \<in> set pre. TIMER_TICK \<le> tm_left x" "\<forall>x \<in> set (map (tick_down TIMER_TICK) pre). TIMER_TICK \<le> tm_left x"
    using pre left_after_tick by auto
  have "abs_scan (timer_live m) (fire_act act) [] (timers m as) w =
      (map (tick_down TIMER_TICK) (map (tick_down TIMER_TICK) pre @ post), act (the (tm_fn n)) (tm_args n) w)"
    unfolding at by (subst abs_scan_to [OF p1(1) n(1)], subst abs_scan_down) (use p1 post n in \<open>auto simp: fire_act_def\<close>)
  moreover have "map (tick_down TIMER_TICK) (map (tick_down TIMER_TICK) pre @ post) =
      map (tick_down (2 * TIMER_TICK)) pre @ map (tick_down TIMER_TICK) post"
    using tick_down_twice by simp
  ultimately have s: "abs_scan (timer_live m) (fire_act act) [] (timers m as) w =
      (map (tick_down (2 * TIMER_TICK)) pre @ map (tick_down TIMER_TICK) post, act (the (tm_fn n)) (tm_args n) w)"
    by (simp only:)
  show ?thesis using tick_wf [OF out wf, of w] unfolding s fst_conv snd_conv by blast
qed

lemma timer_front_loses_witness:
  "\<exists>m' fs' as'. timer_tick log_call (two_timers, []) = Inr (m', [(4, tm_args (test_timer 10 4 None))]) \<and>
    tm_wf m' fs' as' \<and> timers m' as' = [test_timer 20 3 None]"
  using timer_front_loses [OF log_outside two_timers_wf(1), of "[test_timer 120 3 None]" "test_timer 10 4 None" "[]" "[]"]
  by (simp add: TIMER_TICK_def const_con two_timers_wf(2))

text \<open>Several scans in a row.\<close>

fun timer_ticks :: "'w tm_call \<Rightarrow> nat \<Rightarrow> zTimer \<times> 'w \<Rightarrow> (zTimer \<times> 'w) res" where
  "timer_ticks call 0 s = Inr s"
| "timer_ticks call (Suc k) s = rbind (timer_tick call s) (timer_ticks call k)"

text \<open>
  What has become of a timer after \<^verbatim>\<open>d\<close> milliseconds: expired (\<^verbatim>\<open>None\<close>), or still
  pending, as it was but for the time left, which is shorter by as much at least.
\<close>

definition untimed :: "zTimerCB \<Rightarrow> zTimerCB" where
  "untimed n = n\<lparr>tm_left := 0\<rparr>"

definition after_ms :: "nat \<Rightarrow> zTimerCB \<Rightarrow> zTimerCB option \<Rightarrow> bool" where
  "after_ms d n r = (case r of None \<Rightarrow> True | Some n' \<Rightarrow> untimed n' = untimed n \<and> unat (tm_left n') + d \<le> unat (tm_left n))"

definition pending :: "zTimerCB option list \<Rightarrow> zTimerCB list" where
  "pending rs = map the (filter (\<lambda>r. r \<noteq> None) rs)"

fun expired :: "zTimerCB list \<Rightarrow> zTimerCB option list \<Rightarrow> zTimerCB list" where
  "expired (n # ns) (r # rs) = (if r = None then n # expired ns rs else expired ns rs)"
| "expired _ _ = []"

lemma pending_simps [simp]: "pending [] = []" "pending (None # rs) = pending rs" "pending (Some n # rs) = n # pending rs"
  "pending (rs @ ss) = pending rs @ pending ss" "pending (map Some ns) = ns"
  by (simp_all add: pending_def filter_map comp_def)

lemma expired_append: "length ns = length rs \<Longrightarrow> expired (ns @ ms) (rs @ ss) = expired ns rs @ expired ms ss"
  by (induction ns rs rule: list_induct2) simp_all

lemma expired_none [simp]: "expired ns (map Some ms) = []"
  by (induction ns arbitrary: ms) (case_tac ms; simp)+

lemma after_ms_mono: "after_ms d n r \<Longrightarrow> d' \<le> d \<Longrightarrow> after_ms d' n r"
  by (auto simp: after_ms_def split: option.splits)

lemma after_ms_trans: "after_ms d n (Some n') \<Longrightarrow> after_ms d' n' r \<Longrightarrow> after_ms (d + d') n r"
  by (auto simp: after_ms_def split: option.splits)

lemma after_ms_start: "list_all2 (after_ms 0) ns (map Some ns)"
  by (induction ns) (simp_all add: after_ms_def)

abbreviation (input) fire_all :: "(zTimerCB \<Rightarrow> bool) \<Rightarrow> (zTimerCB \<Rightarrow> 'w \<Rightarrow> 'w) \<Rightarrow> zTimerCB list \<Rightarrow> 'w \<Rightarrow> 'w" where
  "fire_all live fire \<equiv> fold (\<lambda>n. if live n then fire n else id)"

lemma abs_scan_fates:
  "\<exists>rs1 rs2 fired. list_all2 (after_ms 0) pre rs1 \<and> list_all2 (after_ms 50) post rs2 \<and>
     abs_scan live fire pre post w = (pending (rs1 @ rs2), fire_all live fire fired w) \<and>
     mset (map untimed fired) = mset (map untimed (expired pre rs1 @ expired post rs2))"
proof (induction live fire pre post w rule: abs_scan.induct)
  case (1 live fire pre w)
  show ?case
    by (rule exI [of _ "map Some pre"], rule exI [of _ "[]"], rule exI [of _ "[]"]) (simp add: after_ms_start)
next
  case (2 live fire pre n post w)
  show ?case
  proof (cases "tm_left n < TIMER_TICK")
    case True
    let ?w = "if live n then fire n w else w"
    obtain rs fired where r: "list_all2 (after_ms 50) (pre @ post) rs"
      "abs_scan live fire [] (pre @ post) ?w = (pending rs, fire_all live fire fired ?w)"
      "mset (map untimed fired) = mset (map untimed (expired (pre @ post) rs))" using 2(1) [OF True] by auto
    obtain rs1 rs2 where s: "rs = rs1 @ rs2" "list_all2 (after_ms 50) pre rs1" "list_all2 (after_ms 50) post rs2"
      using r(1) by (auto simp: list_all2_append1)
    have l: "length pre = length rs1" using s(2) by (rule list_all2_lengthD)
    have "list_all2 (after_ms 0) pre rs1" using s(2) by (rule list_all2_mono) (simp add: after_ms_mono)
    moreover have "list_all2 (after_ms 50) (n # post) (None # rs2)" using s(3) by (simp add: after_ms_def)
    moreover have "abs_scan live fire pre (n # post) w = (pending (rs1 @ None # rs2), fire_all live fire (n # fired) w)"
      using True r(2) s(1) by simp
    moreover have "mset (map untimed (n # fired)) = mset (map untimed (expired pre rs1 @ expired (n # post) (None # rs2)))"
      using r(3) s(1) l by (simp add: expired_append)
    ultimately show ?thesis by blast
  next
    case False
    let ?n = "n\<lparr>tm_left := tm_left n - TIMER_TICK\<rparr>"
    obtain rs rs2 fired where r: "list_all2 (after_ms 0) (pre @ [?n]) rs" "list_all2 (after_ms 50) post rs2"
      "abs_scan live fire (pre @ [?n]) post w = (pending (rs @ rs2), fire_all live fire fired w)"
      "mset (map untimed fired) = mset (map untimed (expired (pre @ [?n]) rs @ expired post rs2))" using 2(2) [OF False] by blast
    obtain rs1 r0 where s: "rs = rs1 @ [r0]" "list_all2 (after_ms 0) pre rs1" "after_ms 0 ?n r0"
      using r(1) by (auto simp: list_all2_append1 list_all2_Cons1)
    have l: "length pre = length rs1" using s(2) by (rule list_all2_lengthD)
    have u: "untimed ?n = untimed n" by (simp add: untimed_def)
    have "unat (tm_left n - TIMER_TICK) + 50 = unat (tm_left n)"
      using False by (simp add: unat_sub not_less word_le_nat_alt TIMER_TICK_def)
    then have "after_ms 50 n (Some ?n)" by (simp add: after_ms_def u)
    then have "after_ms 50 n r0" using after_ms_trans [of 50 n ?n 0 r0] s(3) by simp
    then have "list_all2 (after_ms 50) (n # post) (r0 # rs2)" using r(2) by simp
    moreover have "abs_scan live fire pre (n # post) w = (pending (rs1 @ r0 # rs2), fire_all live fire fired w)"
      using False r(3) s(1) by simp
    moreover have "mset (map untimed fired) = mset (map untimed (expired pre rs1 @ expired (n # post) (r0 # rs2)))"
      using r(4) s(1) l u by (simp add: expired_append)
    ultimately show ?thesis using s(2) by blast
  qed
qed

text \<open>The fates after two spans of time from those after each.\<close>

fun fates :: "zTimerCB option list \<Rightarrow> zTimerCB option list \<Rightarrow> zTimerCB option list" where
  "fates (None # rs) ss = None # fates rs ss"
| "fates (Some n # rs) (s # ss) = s # fates rs ss"
| "fates _ _ = []"

lemma fates_add:
  "list_all2 (after_ms d) ns rs \<Longrightarrow> list_all2 (after_ms d') (pending rs) ss \<Longrightarrow>
    list_all2 (after_ms (d + d')) ns (fates rs ss) \<and> pending (fates rs ss) = pending ss \<and>
    mset (map untimed (expired ns (fates rs ss))) = mset (map untimed (expired ns rs)) + mset (map untimed (expired (pending rs) ss))"
proof (induction ns rs arbitrary: ss rule: list_all2_induct)
  case (Cons n ns r rs)
  show ?case
  proof (cases r)
    case None
    then show ?thesis using Cons by (simp add: after_ms_def)
  next
    case (Some n')
    then obtain s ss' where ss: "ss = s # ss'" "after_ms d' n' s" "list_all2 (after_ms d') (pending rs) ss'"
      using Cons.prems by (auto simp: list_all2_Cons1)
    have u: "untimed n' = untimed n" using Cons.hyps(1) Some by (simp add: after_ms_def)
    have "after_ms (d + d') n s" using after_ms_trans ss(2) Cons.hyps(1) Some by blast
    then show ?thesis using Cons.IH [OF ss(3)] Some ss(1) u by (cases s) simp_all
  qed
qed simp

lemma timer_ticks_fates:
  assumes "tm_outside call act" "tm_wf m fs as"
  shows "\<exists>m' fs' as' rs fired. timer_ticks call k (m, w) = Inr (m', fire_all (timer_live m) (fire_act act) fired w) \<and>
    tm_wf m' fs' as' \<and> tq_con m' = tq_con m \<and> list_all2 (after_ms (50 * k)) (timers m as) rs \<and> timers m' as' = pending rs \<and>
    mset (map untimed fired) = mset (map untimed (expired (timers m as) rs))"
  using assms(2)
proof (induction k arbitrary: m fs as w)
  case 0
  then show ?case
    by (intro exI [of _ m] exI [of _ fs] exI [of _ as] exI [of _ "map Some (timers m as)"] exI [of _ "[]"]) (simp add: after_ms_start)
next
  case (Suc k)
  obtain rs fired where a: "list_all2 (after_ms 50) (timers m as) rs"
    "abs_scan (timer_live m) (fire_act act) [] (timers m as) w = (pending rs, fire_all (timer_live m) (fire_act act) fired w)"
    "mset (map untimed fired) = mset (map untimed (expired (timers m as) rs))"
    using abs_scan_fates [of "[]" "timers m as" "timer_live m" "fire_act act" w] by auto
  obtain m1 fs1 as1 where t: "timer_tick call (m, w) = Inr (m1, fire_all (timer_live m) (fire_act act) fired w)" "tm_wf m1 fs1 as1"
    "timers m1 as1 = pending rs" "tq_con m1 = tq_con m"
    using tick_wf [OF assms(1) Suc.prems, of w] unfolding a(2) fst_conv snd_conv by blast
  have live: "timer_live m1 = timer_live m" using timer_live_con [OF t(4)] by (simp add: fun_eq_iff)
  obtain m2 fs2 as2 ss fired2 where r: "timer_ticks call k (m1, fire_all (timer_live m) (fire_act act) fired w) =
      Inr (m2, fire_all (timer_live m) (fire_act act) fired2 (fire_all (timer_live m) (fire_act act) fired w))"
    "tm_wf m2 fs2 as2" "tq_con m2 = tq_con m1" "list_all2 (after_ms (50 * k)) (pending rs) ss" "timers m2 as2 = pending ss"
    "mset (map untimed fired2) = mset (map untimed (expired (pending rs) ss))"
    using Suc.IH [OF t(2), of "fire_all (timer_live m) (fire_act act) fired w"] unfolding live t(3) by blast
  note f = fates_add [OF a(1) r(4)]
  have "timer_ticks call (Suc k) (m, w) = Inr (m2, fire_all (timer_live m) (fire_act act) (fired @ fired2) w)"
    using t(1) r(1) by simp
  moreover have "list_all2 (after_ms (50 * Suc k)) (timers m as) (fates rs ss)" using f by simp
  moreover have "mset (map untimed (fired @ fired2)) = mset (map untimed (expired (timers m as) (fates rs ss)))"
    using f a(3) r(6) by simp
  moreover have "timers m2 as2 = pending (fates rs ss)" "tq_con m2 = tq_con m" using f r(3,5) t(4) by simp_all
  ultimately show ?case using r(2)
    by (intro exI [of _ m2] exI [of _ fs2] exI [of _ as2] exI [of _ "fates rs ss"] exI [of _ "fired @ fired2"] conjI)
qed

text \<open>C15. With callbacks that leave the timers alone, however many scans never fault, end, and keep the manager well
  formed. Of the timers pending at first, each has expired or is still pending, in the old order and as it was but for its
  time left, which is shorter by 50 ms a scan at least; a timer has therefore expired by scan number period / 50 + 1 at the
  latest. The callbacks called are those of the expired timers whose container exists, each timer's exactly once.\<close>

theorem timer_fires_in_time:
  assumes "tm_outside call act" "tm_wf m fs as"
  shows "\<exists>m' fs' as' rs fired.
    timer_ticks call k (m, w) = Inr (m', fold (\<lambda>n. if timer_live m n then fire_act act n else id) fired w) \<and>
    tm_wf m' fs' as' \<and> list_all2 (after_ms (50 * k)) (timers m as) rs \<and> timers m' as' = pending rs \<and>
    mset (map untimed fired) = mset (map untimed (expired (timers m as) rs)) \<and>
    (\<forall>i < length rs. unat (tm_left (timers m as ! i)) div 50 + 1 \<le> k \<longrightarrow> rs ! i = None)"
proof -
  obtain m' fs' as' rs fired where t: "timer_ticks call k (m, w) = Inr (m', fire_all (timer_live m) (fire_act act) fired w)"
    "tm_wf m' fs' as'" "list_all2 (after_ms (50 * k)) (timers m as) rs" "timers m' as' = pending rs"
    "mset (map untimed fired) = mset (map untimed (expired (timers m as) rs))" using timer_ticks_fates [OF assms] by blast
  have "rs ! i = None" if i: "i < length rs" "unat (tm_left (timers m as ! i)) div 50 + 1 \<le> k" for i
  proof -
    have "after_ms (50 * k) (timers m as ! i) (rs ! i)" using list_all2_nthD2 [OF t(3) i(1)] .
    moreover have "unat (tm_left (timers m as ! i)) < 50 * k" using i(2) by linarith
    ultimately show ?thesis by (cases "rs ! i") (auto simp: after_ms_def)
  qed
  then show ?thesis using t by blast
qed

text \<open>Timers of 120 and 10 ms: both have expired after three scans, and both callbacks been called.\<close>

lemma timer_fires_in_time_witness:
  "\<exists>m' fs' fired. timer_ticks log_call 3 (two_timers, []) = Inr (m', fold (\<lambda>n. fire_act log_act n) fired []) \<and> tm_wf m' fs' [] \<and>
    mset (map untimed fired) = {#untimed (test_timer 120 3 None), untimed (test_timer 10 4 None)#}"
proof -
  obtain m' fs' as' rs fired where t: "timer_ticks log_call 3 (two_timers, []) =
      Inr (m', fold (\<lambda>n. if timer_live two_timers n then fire_act log_act n else id) fired [])"
    "tm_wf m' fs' as'" "list_all2 (after_ms 150) [test_timer 120 3 None, test_timer 10 4 None] rs" "timers m' as' = pending rs"
    "mset (map untimed fired) = mset (map untimed (expired [test_timer 120 3 None, test_timer 10 4 None] rs))"
    "\<forall>i < length rs. unat (tm_left ([test_timer 120 3 None, test_timer 10 4 None] ! i)) div 50 + 1 \<le> 3 \<longrightarrow> rs ! i = None"
    using timer_fires_in_time [OF log_outside two_timers_wf(1), of 3 "[]"] unfolding two_timers_wf(2) by auto
  have "length rs = 2" using list_all2_lengthD [OF t(3)] by simp
  then have rs: "rs = [None, None]"
    using t(6) [rule_format, of 0] t(6) [rule_format, of 1] by (cases rs; cases "tl rs") simp_all
  then have as: "as' = []" using t(4) by (simp add: timers_def contents_of_def)
  have d: "mset (map untimed fired) = {#untimed (test_timer 120 3 None), untimed (test_timer 10 4 None)#}" using t(5) rs by simp
  have "timer_live two_timers n" if "n \<in> set fired" for n
  proof -
    have "untimed n \<in># mset (map untimed fired)" using that by simp
    then have "untimed n = untimed (test_timer 120 3 None) \<or> untimed n = untimed (test_timer 10 4 None)" unfolding d by auto
    moreover have "tm_con (untimed x) = tm_con x" for x by (simp add: untimed_def)
    ultimately have "tm_con n = ZTIMER_CONTAINER_CONSTID" by (metis test_timer_sel(3))
    then show ?thesis by (simp add: timer_live_def const_con)
  qed
  then have "fold (\<lambda>n. if timer_live two_timers n then fire_act log_act n else id) fired [] = fold (\<lambda>n. fire_act log_act n) fired []"
    by (intro fold_cong) auto
  then show ?thesis using t(1,2) d as by auto
qed

lemma abs_scan_dead:
  assumes "\<forall>n \<in> set (pre @ post). tm_con n = 0" "\<And>n. tm_con n = 0 \<Longrightarrow> \<not> live n"
  shows "snd (abs_scan live fire pre post w) = w \<and> (\<forall>n \<in> set (fst (abs_scan live fire pre post w)). tm_con n = 0)"
  using assms by (induction live fire pre post w rule: abs_scan.induct) auto

text \<open>A timer added with zcrt_timercon_add_argn is reported as added but its container is never stored:
  no scan, however many there are, calls its callback.\<close>

theorem add_argn_never_fires:
  assumes "tm_wf m fs []" "can_alloc (tq_heap m) (tq_free m) new"
    and "ZTIMER_IS_VALID_CONTAINER_ID cid" "\<not> con_dead m cid"
    and "argn \<noteq> 0" "unat argn \<le> ZCRT_CB_MAX_ARGS" "length args = unat argn"
    and out: "tm_outside call act"
  shows "\<exists>m1. zcrt_timercon_add_argn new (Some m) cid period (Some fn) argn args = Inr (EZCRTErr_success, Some m1) \<and>
    (\<exists>m2. timer_ticks call k (m1, w) = Inr (m2, w))"
proof -
  obtain m1 a where m1: "zcrt_timercon_add_argn new (Some m) cid period (Some fn) argn args = Inr (EZCRTErr_success, Some m1)"
    "tm_wf m1 (tl fs) ([] @ [a])" "timers m1 ([] @ [a]) = timers m [] @ [new_timer period fn argn 0 args]"
    using timercon_add_argn_ok [OF assms(1-7), of period fn] by metis
  have "\<exists>m2. timer_ticks call k (m1, w) = Inr (m2, w)"
    if "tm_wf m1 fs as" "\<forall>n \<in> set (timers m1 as). tm_con n = 0" for m1 fs as
    using that
  proof (induction k arbitrary: m1 fs as)
    case (Suc k)
    have dead: "snd (abs_scan (timer_live m1) (fire_act act) [] (timers m1 as) w) = w"
      "\<forall>n \<in> set (fst (abs_scan (timer_live m1) (fire_act act) [] (timers m1 as) w)). tm_con n = 0"
      using abs_scan_dead [of "[]" "timers m1 as" "timer_live m1" "fire_act act" w] Suc.prems(2)
      by (simp_all add: timer_live_def ZTIMER_IS_VALID_CONTAINER_ID_def ZTIMER_INVALID_CONTAINER_def ZTIMER_CONTAINER_CONSTID_def)
    obtain m2 fs2 as2 where "timer_tick call (m1, w) = Inr (m2, w)" "tm_wf m2 fs2 as2"
      "timers m2 as2 = fst (abs_scan (timer_live m1) (fire_act act) [] (timers m1 as) w)"
      using tick_wf [OF out Suc.prems(1), of w] dead(1) by metis
    then show ?case using Suc.IH [of m2 fs2 as2] dead(2) by simp
  qed simp
  then show ?thesis using m1 by (auto simp: new_timer_def timers_def)
qed

lemma add_argn_never_fires_witness:
  "\<exists>m1. zcrt_timercon_add_argn (Some 7) (Some no_timers) ZTIMER_CONTAINER_CONSTID 10 (Some 3) 1 [5] =
      Inr (EZCRTErr_success, Some m1) \<and> (\<exists>m2. timer_ticks log_call 100 (m1, []) = Inr (m2, []))"
  using add_argn_never_fires [OF no_timers_wf(1) _ const_con(1,2) _ _ _ log_outside, of "Some 7" 1 "[5]" 10 3 100 "[]"]
  by (simp add: can_alloc_def ZCRT_CB_MAX_ARGS_def) (simp add: no_timers_def)

end
