(* ===== verification/Zcrt_Schedule.thy ===== *)
theory Zcrt_Schedule
  imports Zcrt_Chain Zcrt_Macro
begin

text \<open>
  The job queues of \<^verbatim>\<open>zcrtlib/zschedule.c\<close>. A schedule belongs to a worker thread; the
  thread keeps one queue per priority, shared by its schedules, and a free list of job nodes. Schedules,
  threads, jobs and modules live in one heap each. What is done under a mutex is one step of the model.
\<close>

section \<open>State\<close>

definition EZCRTSchPri_num :: nat where "EZCRTSchPri_num = 3"
definition SCH_NAME_LEN :: nat where "SCH_NAME_LEN = 20"

datatype EZCRTSchType = EZCRTSchType_zcrtThread | EZCRTSchType_selfThread | EZCRTSchType_shareThread

record zScheduleJob =
  jb_fn :: "ptr option"
  jb_argn :: u32
  jb_args :: "ptr list"
  jb_sch :: "addr option"
  jb_next :: "addr option"

record zSchPriList =
  pl_jobs :: "addr option"
  pl_tail :: "addr option"

record zSchedule =
  sc_name :: "u8 list"
  sc_thr :: "addr option"
  sc_maxsize :: s32
  sc_pri :: u32
  sc_type :: EZCRTSchType
  sc_cursize :: s32
  sc_maxhold :: s32
  sc_module :: "addr option"
  sc_next :: "addr option"

record zSchThr =
  th_name :: "u8 list"
  th_sem :: nat
  th_que :: "zSchPriList list"
  th_freejobs :: "addr option"
  th_run :: bool
  th_refCnt :: s32
  th_module :: "addr option"
  th_sch_list :: "addr option"
  th_next :: "addr option"
  th_joballoced :: u32
  th_jobfreed :: u32
  th_jobadded :: u32

text \<open>The two fields of a module that the scheduler works on.\<close>

record zSchModule =
  md_zcrtthr :: "addr option"
  md_schthr_list :: "addr option"

record zSchWorld =
  sx_job :: "zScheduleJob heap"
  sx_sch :: "zSchedule heap"
  sx_thr :: "zSchThr heap"
  sx_mod :: "zSchModule heap"

definition set_job :: "addr \<Rightarrow> zScheduleJob \<Rightarrow> zSchWorld \<Rightarrow> zSchWorld" where
  "set_job a n w = w\<lparr>sx_job := (sx_job w)(a \<mapsto> n)\<rparr>"

definition set_sch :: "addr \<Rightarrow> zSchedule \<Rightarrow> zSchWorld \<Rightarrow> zSchWorld" where
  "set_sch a n w = w\<lparr>sx_sch := (sx_sch w)(a \<mapsto> n)\<rparr>"

definition set_thr :: "addr \<Rightarrow> zSchThr \<Rightarrow> zSchWorld \<Rightarrow> zSchWorld" where
  "set_thr a n w = w\<lparr>sx_thr := (sx_thr w)(a \<mapsto> n)\<rparr>"

definition set_mod :: "addr \<Rightarrow> zSchModule \<Rightarrow> zSchWorld \<Rightarrow> zSchWorld" where
  "set_mod a n w = w\<lparr>sx_mod := (sx_mod w)(a \<mapsto> n)\<rparr>"

text \<open>
  The counters of the Linux port are not counted: both operations answer 0 and change nothing. Those of the other
  ports count, so an operation that uses a counter takes its operation as an argument: the value it returns, and the
  counter afterwards.
\<close>

type_synonym counter_fn = "s32 \<Rightarrow> s32 \<times> s32"

definition zcrt_atom_inc :: counter_fn where "zcrt_atom_inc cnt = (0, cnt)"
definition zcrt_atom_dec :: counter_fn where "zcrt_atom_dec cnt = (0, cnt)"

text \<open>\<^verbatim>\<open>memcpy(x->name, name, ...)\<close> into zeroed memory; \<^verbatim>\<open>name\<close> are the
  bytes of the C string before its terminator.\<close>

definition sch_name :: "u8 list \<Rightarrow> u8 list" where
  "sch_name name = (let n = (if length name \<ge> SCH_NAME_LEN then SCH_NAME_LEN - 1 else length name) in
     take n name @ replicate (SCH_NAME_LEN - n) 0)"

section \<open>Jobs\<close>

definition zcrt_s_thr_getjob :: "zScheduleJob heap \<Rightarrow> zSchPriList \<Rightarrow> (addr option \<times> zSchPriList) res" where
  "zcrt_s_thr_getjob h schpri = (case pl_jobs schpri of
     None \<Rightarrow> Inr (None, schpri)
   | Some j \<Rightarrow> rbind (deref (h j)) (\<lambda>n.
       let p1 = schpri\<lparr>pl_jobs := jb_next n\<rparr> in
       Inr (Some j, if pl_tail p1 = Some j then p1\<lparr>pl_tail := None\<rparr> else p1)))"

definition zcrt_s_job_new :: "addr option \<Rightarrow> addr \<Rightarrow> ptr \<Rightarrow> zSchWorld \<Rightarrow> (addr option \<times> zSchWorld) res" where
  "zcrt_s_job_new new t cb w = rbind (deref (sx_thr w t)) (\<lambda>th0.
     let th = th0\<lparr>th_jobadded := th_jobadded th0 + 1\<rparr>;
         job = \<lparr>jb_fn = Some cb, jb_argn = 0, jb_args = replicate ZCRT_CB_MAX_ARGS 0, jb_sch = None, jb_next = None\<rparr> in
     case th_freejobs th of
       Some j \<Rightarrow> rbind (deref (sx_job w j)) (\<lambda>n.
         Inr (Some j, set_job j job (set_thr t (th\<lparr>th_freejobs := jb_next n\<rparr>) w)))
     | None \<Rightarrow>
         let w1 = set_thr t (th\<lparr>th_joballoced := th_joballoced th + 1\<rparr>) w in
         (case new of None \<Rightarrow> Inr (None, w1) | Some j \<Rightarrow> Inr (Some j, set_job j job w1)))"

definition zcrt_s_job_delete_has_mutex :: "addr \<Rightarrow> addr \<Rightarrow> zSchWorld \<Rightarrow> zSchWorld res" where
  "zcrt_s_job_delete_has_mutex t j w =
     rbind (deref (sx_job w j)) (\<lambda>n.
     rbind (deref (sx_thr w t)) (\<lambda>th.
     let w1 = set_thr t (th\<lparr>th_freejobs := Some j, th_jobfreed := th_jobfreed th + 1\<rparr>)
                (set_job j (n\<lparr>jb_next := th_freejobs th, jb_fn := None, jb_sch := None\<rparr>) w) in
     case jb_sch n of
       None \<Rightarrow> Inr w1
     | Some s \<Rightarrow> rbind (deref (sx_sch w1 s)) (\<lambda>sc.
         Inr (set_sch s (sc\<lparr>sc_cursize := sc_cursize sc - 1\<rparr>) w1))))"

definition zcrt_s_insert_job :: "addr \<Rightarrow> addr \<Rightarrow> zSchWorld \<Rightarrow> zSchWorld res" where
  "zcrt_s_insert_job s j w =
     rbind (deref (sx_sch w s)) (\<lambda>sc.
     rbind (deref (sc_thr sc)) (\<lambda>t.
     rbind (deref (sx_thr w t)) (\<lambda>th.
     let k = unat (sc_pri sc) in
     if k \<ge> length (th_que th) then Inl OutOfBounds else
     let que = th_que th ! k in
     rbind (case pl_jobs que of
         Some _ \<Rightarrow>
           rbind (zassert (pl_tail que \<noteq> None)) (\<lambda>_.
           rbind (deref (pl_tail que)) (\<lambda>l.
           rbind (deref (sx_job w l)) (\<lambda>ln.
             Inr (que\<lparr>pl_tail := Some j\<rparr>, set_job l (ln\<lparr>jb_next := Some j\<rparr>) w))))
       | None \<Rightarrow>
           rbind (zassert (pl_tail que = None)) (\<lambda>_. Inr (que\<lparr>pl_jobs := Some j, pl_tail := Some j\<rparr>, w))) (\<lambda>(que1, w1).
     let w2 = set_thr t (th\<lparr>th_que := (th_que th)[k := que1], th_sem := th_sem th + 1\<rparr>) w1;
         sc1 = sc\<lparr>sc_cursize := sc_cursize sc + 1\<rparr>;
         sc2 = (if sint (sc_maxhold sc1) < sint (sc_cursize sc1) then sc1\<lparr>sc_maxhold := sc_cursize sc1\<rparr> else sc1) in
     Inr (set_sch s sc2 w2)))))"

section \<open>Sending\<close>

definition zcrt_schedule_sendjob ::
  "addr option \<Rightarrow> addr option \<Rightarrow> ptr option \<Rightarrow> ptr \<Rightarrow> ptr \<Rightarrow> zSchWorld \<Rightarrow> (EZCRTErr \<times> zSchWorld) res" where
  "zcrt_schedule_sendjob new h cb p1 p2 w = (case h of
     None \<Rightarrow> Inr (EZCRTErr_paramErr, w)
   | Some s \<Rightarrow> (case cb of None \<Rightarrow> Inr (EZCRTErr_paramErr, w) | Some fn \<Rightarrow>
       rbind (deref (sx_sch w s)) (\<lambda>sc.
       if unat (sc_pri sc) \<ge> EZCRTSchPri_num then Inr (EZCRTErr_paramErr, w)
       else if sint (sc_cursize sc) \<ge> sint (sc_maxsize sc) then Inr (EZCRTErr_full, w)
       else rbind (zassert (sc_thr sc \<noteq> None)) (\<lambda>_.
         rbind (deref (sc_thr sc)) (\<lambda>t.
         rbind (zcrt_s_job_new new t fn w) (\<lambda>(job, w1). case job of
           None \<Rightarrow> Inr (EZCRTErr_noMem, w1)
         | Some j \<Rightarrow> rbind (deref (sx_job w1 j)) (\<lambda>n.
             rbind (zcrt_s_insert_job s j
               (set_job j (n\<lparr>jb_argn := 2, jb_args := (jb_args n)[0 := p1, 1 := p2], jb_sch := Some s\<rparr>) w1)) (\<lambda>w2.
             Inr (EZCRTErr_success, w2)))))))))"

text \<open>\<^verbatim>\<open>args\<close> are the variable arguments. Unlike the other, this function has no test
  of \<^verbatim>\<open>sch->thr\<close> but the assertion of \<^verbatim>\<open>_zcrt_s_job_new\<close>.\<close>

definition zcrt_schedule_sendjob_argn ::
  "addr option \<Rightarrow> addr option \<Rightarrow> ptr option \<Rightarrow> u32 \<Rightarrow> ptr list \<Rightarrow> zSchWorld \<Rightarrow> (EZCRTErr \<times> zSchWorld) res" where
  "zcrt_schedule_sendjob_argn new h cb argn args w = (case h of
     None \<Rightarrow> Inr (EZCRTErr_paramErr, w)
   | Some s \<Rightarrow> (case cb of None \<Rightarrow> Inr (EZCRTErr_paramErr, w) | Some fn \<Rightarrow>
       rbind (deref (sx_sch w s)) (\<lambda>sc.
       if unat (sc_pri sc) \<ge> EZCRTSchPri_num \<or> argn = 0 \<or> unat argn > ZCRT_CB_MAX_ARGS then Inr (EZCRTErr_paramErr, w)
       else if sint (sc_cursize sc) \<ge> sint (sc_maxsize sc) then Inr (EZCRTErr_full, w)
       else rbind (zassert (sc_thr sc \<noteq> None)) (\<lambda>_.
         rbind (deref (sc_thr sc)) (\<lambda>t.
         rbind (zcrt_s_job_new new t fn w) (\<lambda>(job, w1). case job of
           None \<Rightarrow> Inr (EZCRTErr_noMem, w1)
         | Some j \<Rightarrow> rbind (deref (sx_job w1 j)) (\<lambda>n.
             let k = unat argn in
             rbind (zcrt_s_insert_job s j
               (set_job j (n\<lparr>jb_argn := argn, jb_sch := Some s, jb_args := take k args @ drop k (jb_args n)\<rparr>) w1)) (\<lambda>w2.
             Inr (EZCRTErr_success, w2)))))))))"

section \<open>The worker thread\<close>

text \<open>The first priority that has a job, in the order high, normal, low.\<close>

fun get_first :: "zScheduleJob heap \<Rightarrow> zSchPriList list \<Rightarrow> (addr option \<times> zSchPriList list) res" where
  "get_first h [] = Inr (None, [])"
| "get_first h (q # qs) = rbind (zcrt_s_thr_getjob h q) (\<lambda>(job, q1). case job of
     Some j \<Rightarrow> Inr (Some j, q1 # qs)
   | None \<Rightarrow> rbind (get_first h qs) (\<lambda>(job, qs1). Inr (job, q1 # qs1)))"

text \<open>The locked part of one round of the inner loop: the job taken, as its callback and arguments, and
  its node back in the free list.\<close>

definition take_job :: "addr \<Rightarrow> zSchWorld \<Rightarrow> ((ptr option \<times> ptr list) option \<times> zSchWorld) res" where
  "take_job t w =
     rbind (deref (sx_thr w t)) (\<lambda>th.
     rbind (get_first (sx_job w) (th_que th)) (\<lambda>(job, qs).
     let w1 = set_thr t (th\<lparr>th_que := qs\<rparr>) w in
     case job of
       None \<Rightarrow> Inr (None, w1)
     | Some j \<Rightarrow> rbind (deref (sx_job w1 j)) (\<lambda>n.
         rbind (zcrt_s_job_delete_has_mutex t j w1) (\<lambda>w2. Inr (Some (jb_fn n, jb_args n), w2)))))"

type_synonym 'w sch_call = "ptr \<Rightarrow> ptr list \<Rightarrow> zSchWorld \<times> 'w \<Rightarrow> (zSchWorld \<times> 'w) res"

partial_function (option) run_jobs :: "'w sch_call \<Rightarrow> addr \<Rightarrow> zSchWorld \<times> 'w \<Rightarrow> (zSchWorld \<times> 'w) res option" where
  "run_jobs call t s = (case take_job t (fst s) of
     Inl e \<Rightarrow> Some (Inl e)
   | Inr (None, w1) \<Rightarrow> Some (Inr (w1, snd s))
   | Inr (Some (None, args), w1) \<Rightarrow> run_jobs call t (w1, snd s)
   | Inr (Some (Some fn, args), w1) \<Rightarrow> (case call fn args (w1, snd s) of
       Inl e \<Rightarrow> Some (Inl e)
     | Inr s1 \<Rightarrow> run_jobs call t s1))"

partial_function (option) find_thr :: "zSchThr heap \<Rightarrow> addr \<Rightarrow> addr option \<Rightarrow> addr option res option" where
  "find_thr h t prev = (case prev of
     None \<Rightarrow> Some (Inr None)
   | Some p \<Rightarrow> (case h p of
       None \<Rightarrow> Some (Inl NullDeref)
     | Some n \<Rightarrow> if th_next n \<noteq> Some t then find_thr h t (th_next n) else Some (Inr prev)))"

definition zcrt_s_thr_remove_from_module :: "addr \<Rightarrow> zSchWorld \<Rightarrow> zSchWorld res" where
  "zcrt_s_thr_remove_from_module t w = rbind (deref (sx_thr w t)) (\<lambda>th. case th_module th of
     None \<Rightarrow> Inr w
   | Some m \<Rightarrow> rbind (deref (sx_mod w m)) (\<lambda>md.
       if md_schthr_list md = Some t then Inr (set_mod m (md\<lparr>md_schthr_list := th_next th\<rparr>) w)
       else rbind (run (find_thr (sx_thr w) t (md_schthr_list md))) (\<lambda>prev. case prev of
         None \<Rightarrow> Inr w
       | Some p \<Rightarrow> rbind (deref (sx_thr w p)) (\<lambda>pn. Inr (set_thr p (pn\<lparr>th_next := th_next th\<rparr>) w)))))"

definition zcrt_s_thr_delete :: "addr \<Rightarrow> zSchWorld \<Rightarrow> zSchWorld res" where
  "zcrt_s_thr_delete t w = rbind (deref (sx_thr w t)) (\<lambda>th.
     rbind (free_lists jb_next (sx_job w) (th_freejobs th # map pl_jobs (th_que th))) (\<lambda>h.
     Inr (w\<lparr>sx_job := h, sx_thr := (sx_thr w)(t := None)\<rparr>)))"

text \<open>
  The thread, for as many rounds as \<^verbatim>\<open>stops\<close>, the answers of \<^verbatim>\<open>zcrt_thread_should_stop\<close>,
  has; it waits at most 100 ms for its semaphore in every round and works through the queues whether or
  not it got it.
\<close>

fun zcrt_schedule_thread_proc :: "'w sch_call \<Rightarrow> addr \<Rightarrow> bool list \<Rightarrow> zSchWorld \<times> 'w \<Rightarrow> (zSchWorld \<times> 'w) res option" where
  "zcrt_schedule_thread_proc call t [] s = None"
| "zcrt_schedule_thread_proc call t (stop # stops) s = (case sx_thr (fst s) t of
     None \<Rightarrow> Some (Inl NullDeref)
   | Some th \<Rightarrow>
       if th_run th \<and> \<not> stop then
         (case run (run_jobs call t (set_thr t (th\<lparr>th_sem := th_sem th - 1\<rparr>) (fst s), snd s)) of
            Inl e \<Rightarrow> Some (Inl e)
          | Inr s1 \<Rightarrow> zcrt_schedule_thread_proc call t stops s1)
       else Some (rbind (zcrt_s_thr_remove_from_module t (fst s)) (\<lambda>w1.
         rbind (zcrt_s_thr_delete t w1) (\<lambda>w2. Inr (w2, snd s)))))"

section \<open>Creating and deleting\<close>

definition zcrt_s_thr_new :: "addr option \<Rightarrow> addr option \<Rightarrow> u8 list \<Rightarrow> zSchWorld \<Rightarrow> (addr option \<times> zSchWorld) res" where
  "zcrt_s_thr_new new module name w = rbind (deref new) (\<lambda>t.
     let th = \<lparr>th_name = sch_name name, th_sem = 0, th_que = replicate EZCRTSchPri_num \<lparr>pl_jobs = None, pl_tail = None\<rparr>,
               th_freejobs = None, th_run = True, th_refCnt = 0, th_module = module, th_sch_list = None,
               th_next = None, th_joballoced = 0, th_jobfreed = 0, th_jobadded = 0\<rparr> in
     case module of
       None \<Rightarrow> Inr (Some t, set_thr t th w)
     | Some m \<Rightarrow> rbind (deref (sx_mod w m)) (\<lambda>md.
         Inr (Some t, set_mod m (md\<lparr>md_schthr_list := Some t\<rparr>) (set_thr t (th\<lparr>th_next := md_schthr_list md\<rparr>) w))))"

definition zcrt_s_thr_add_sch :: "addr \<Rightarrow> addr \<Rightarrow> zSchWorld \<Rightarrow> zSchWorld res" where
  "zcrt_s_thr_add_sch t s w =
     rbind (deref (sx_thr w t)) (\<lambda>th.
     rbind (deref (sx_sch w s)) (\<lambda>sc.
     let w1 = (if th_sch_list th \<noteq> None then set_sch s (sc\<lparr>sc_next := th_sch_list th\<rparr>) w else w) in
     Inr (set_thr t (th\<lparr>th_sch_list := Some s\<rparr>) w1)))"

text \<open>One job of the schedule taken out of the queue; \<^verbatim>\<open>next\<close> was read before.\<close>

definition remove_job :: "addr \<Rightarrow> nat \<Rightarrow> addr \<Rightarrow> addr option \<Rightarrow> addr option \<Rightarrow> zSchWorld \<Rightarrow> (addr option \<times> zSchWorld) res" where
  "remove_job t k j prev nxt w =
     rbind (zcrt_s_job_delete_has_mutex t j w) (\<lambda>w1.
     rbind (deref (sx_thr w1 t)) (\<lambda>th.
     let que = th_que th ! k in
     rbind (if prev = Some j
            then Inr (nxt, que\<lparr>pl_jobs := nxt\<rparr>, w1)
            else rbind (deref prev) (\<lambda>p. rbind (deref (sx_job w1 p)) (\<lambda>pn.
              Inr (prev, que, set_job p (pn\<lparr>jb_next := nxt\<rparr>) w1)))) (\<lambda>(prev1, que1, w2).
     let que2 = (if pl_tail que1 = Some j then que1\<lparr>pl_tail := None\<rparr> else que1) in
     Inr (prev1, set_thr t (th\<lparr>th_que := (th_que th)[k := que2]\<rparr>) w2))))"

partial_function (option) remove_jobs ::
  "addr \<Rightarrow> addr \<Rightarrow> nat \<Rightarrow> addr option \<Rightarrow> addr option \<Rightarrow> zSchWorld \<Rightarrow> zSchWorld res option" where
  "remove_jobs t s k job prev w = (case job of
     None \<Rightarrow> Some (Inr w)
   | Some j \<Rightarrow> (case sx_sch w s of
       None \<Rightarrow> Some (Inl NullDeref)
     | Some sc \<Rightarrow>
       if sc_cursize sc = 0 then Some (Inr w)
       else (case sx_job w j of
         None \<Rightarrow> Some (Inl NullDeref)
       | Some n \<Rightarrow>
           if jb_sch n = Some s then
             (case remove_job t k j prev (jb_next n) w of
                Inl e \<Rightarrow> Some (Inl e)
              | Inr (prev1, w1) \<Rightarrow> remove_jobs t s k (jb_next n) prev1 w1)
           else remove_jobs t s k (jb_next n) job w)))"

partial_function (option) find_sch :: "zSchedule heap \<Rightarrow> addr \<Rightarrow> addr option \<Rightarrow> addr option res option" where
  "find_sch h s prev = (case prev of
     None \<Rightarrow> Some (Inr None)
   | Some p \<Rightarrow> (case h p of
       None \<Rightarrow> Some (Inl NullDeref)
     | Some n \<Rightarrow> if sc_next n \<noteq> Some s then find_sch h s (sc_next n) else Some (Inr prev)))"

definition zcrt_s_thr_remove_sch :: "addr \<Rightarrow> addr \<Rightarrow> zSchWorld \<Rightarrow> zSchWorld res" where
  "zcrt_s_thr_remove_sch t s w =
     rbind (deref (sx_thr w t)) (\<lambda>th.
     rbind (deref (sx_sch w s)) (\<lambda>sc.
     rbind (if 0 < sint (sc_cursize sc)
            then (if unat (sc_pri sc) \<ge> length (th_que th) then Inl OutOfBounds
                  else let job = pl_jobs (th_que th ! unat (sc_pri sc)) in run (remove_jobs t s (unat (sc_pri sc)) job job w))
            else Inr w) (\<lambda>w1.
     rbind (deref (sx_thr w1 t)) (\<lambda>th1.
     rbind (deref (sx_sch w1 s)) (\<lambda>sc1.
     if th_sch_list th1 = Some s then Inr (set_thr t (th1\<lparr>th_sch_list := sc_next sc1\<rparr>) w1)
     else rbind (run (find_sch (sx_sch w1) s (th_sch_list th1))) (\<lambda>prev. case prev of
       None \<Rightarrow> Inr w1
     | Some p \<Rightarrow> rbind (deref (sx_sch w1 p)) (\<lambda>pn. Inr (set_sch p (pn\<lparr>sc_next := sc_next sc1\<rparr>) w1))))))))"

definition new_sch :: "u8 list \<Rightarrow> zSchedule" where
  "new_sch name = \<lparr>sc_name = sch_name name, sc_thr = None, sc_maxsize = 0, sc_pri = 0, sc_type = EZCRTSchType_zcrtThread,
     sc_cursize = 0, sc_maxhold = 0, sc_module = None, sc_next = None\<rparr>"

text \<open>\<^verbatim>\<open>new\<close> and \<^verbatim>\<open>newt\<close> are what \<^verbatim>\<open>malloc\<close> gives for the schedule and for its thread.\<close>

definition zcrt_schedule_create ::
  "counter_fn \<Rightarrow> addr option \<Rightarrow> addr option \<Rightarrow> addr option \<Rightarrow> u8 list \<Rightarrow> EZCRTSchType \<Rightarrow> u32 \<Rightarrow> u16 \<Rightarrow> zSchWorld \<Rightarrow>
     (addr option \<times> zSchWorld) res" where
  "zcrt_schedule_create inc new newt module name type pri maxsize w = (case new of
     None \<Rightarrow> Inr (None, w)
   | Some s \<Rightarrow>
     rbind (if type = EZCRTSchType_selfThread then zcrt_s_thr_new newt module name w
            else rbind (deref module) (\<lambda>m. rbind (deref (sx_mod w m)) (\<lambda>md. Inr (md_zcrtthr md, w)))) (\<lambda>(thr, w1).
     rbind (deref thr) (\<lambda>t.
     rbind (deref (sx_thr w1 t)) (\<lambda>th.
     let sc = (new_sch name)\<lparr>sc_thr := thr, sc_maxsize := ucast maxsize, sc_pri := pri, sc_type := type, sc_module := module\<rparr>;
         w2 = set_thr t (th\<lparr>th_refCnt := snd (inc (th_refCnt th))\<rparr>) (set_sch s sc w1) in
     rbind (zcrt_s_thr_add_sch t s w2) (\<lambda>w3. Inr (Some s, w3))))))"

definition zcrt_schedule_create_share ::
  "counter_fn \<Rightarrow> addr option \<Rightarrow> addr option \<Rightarrow> addr option \<Rightarrow> u8 list \<Rightarrow> u32 \<Rightarrow> u16 \<Rightarrow> zSchWorld \<Rightarrow> (addr option \<times> zSchWorld) res" where
  "zcrt_schedule_create_share inc new module sch1 name pri maxsize w = (case (new, sch1) of
     (Some s, Some s1) \<Rightarrow>
       rbind (deref (sx_sch w s1)) (\<lambda>share.
       rbind (if sc_type share = EZCRTSchType_selfThread then Inr (EZCRTSchType_shareThread, sc_thr share)
              else rbind (deref module) (\<lambda>m. rbind (deref (sx_mod w m)) (\<lambda>md.
                Inr (EZCRTSchType_zcrtThread, md_zcrtthr md)))) (\<lambda>(type, thr).
       rbind (deref thr) (\<lambda>t.
       rbind (deref (sx_thr w t)) (\<lambda>th.
       let sc = (new_sch name)\<lparr>sc_thr := thr, sc_maxsize := ucast maxsize, sc_pri := pri, sc_type := type, sc_module := module\<rparr>;
           w2 = set_thr t (th\<lparr>th_refCnt := snd (inc (th_refCnt th))\<rparr>) (set_sch s sc w) in
       rbind (zcrt_s_thr_add_sch t s w2) (\<lambda>w3. Inr (Some s, w3))))))
   | _ \<Rightarrow> Inr (None, w))"

definition zcrt_schedule_delete :: "counter_fn \<Rightarrow> addr option \<Rightarrow> zSchWorld \<Rightarrow> zSchWorld res" where
  "zcrt_schedule_delete dec h w = (case h of
     None \<Rightarrow> Inr w
   | Some s \<Rightarrow>
     rbind (deref (sx_sch w s)) (\<lambda>sc.
     rbind (zassert (unat (sc_pri sc) < EZCRTSchPri_num)) (\<lambda>_.
     rbind (deref (sc_thr sc)) (\<lambda>t.
     rbind (zcrt_s_thr_remove_sch t s w) (\<lambda>w1.
     rbind (deref (sx_thr w1 t)) (\<lambda>th.
     let (cnt, ref) = dec (th_refCnt th);
         th1 = th\<lparr>th_refCnt := ref\<rparr>;
         th2 = (if sc_type sc = EZCRTSchType_selfThread \<and> cnt = 0 then th1\<lparr>th_run := False\<rparr> else th1) in
     Inr ((set_thr t th2 w1)\<lparr>sx_sch := (sx_sch w1)(s := None)\<rparr>)))))))"

definition zcrt_schedule_module_init :: "addr option \<Rightarrow> zSchWorld \<Rightarrow> (addr option \<times> zSchWorld) res" where
  "zcrt_schedule_module_init newt w =
     zcrt_s_thr_new newt None [0x5A, 0x43, 0x52, 0x54, 0x5F, 0x53, 0x43, 0x48] w"

partial_function (option) stop_all :: "zSchThr heap \<Rightarrow> addr option \<Rightarrow> zSchThr heap res option" where
  "stop_all h thr = (case thr of
     None \<Rightarrow> Some (Inr h)
   | Some t \<Rightarrow> (case h t of
       None \<Rightarrow> Some (Inl NullDeref)
     | Some n \<Rightarrow> stop_all (h(t \<mapsto> n\<lparr>th_run := False, th_sem := th_sem n + 1\<rparr>)) (th_next n)))"

definition zcrt_schedule_module_delete :: "addr \<Rightarrow> zSchWorld \<Rightarrow> zSchWorld res" where
  "zcrt_schedule_module_delete m w = rbind (deref (sx_mod w m)) (\<lambda>md. case md_zcrtthr md of
     None \<Rightarrow> Inr w
   | Some t \<Rightarrow> rbind (deref (sx_thr w t)) (\<lambda>th.
       let w1 = set_thr t (th\<lparr>th_run := False, th_sem := th_sem th + 1\<rparr>) w in
       rbind (run (stop_all (sx_thr w1) (md_schthr_list md))) (\<lambda>h. Inr (w1\<lparr>sx_thr := h\<rparr>))))"

section \<open>Well-formed threads\<close>

definition jb_set_next :: "addr option \<Rightarrow> zScheduleJob \<Rightarrow> zScheduleJob" where
  "jb_set_next q n = n\<lparr>jb_next := q\<rparr>"

interpretation jb: linked jb_next jb_set_next
  by unfold_locales (simp_all add: jb_set_next_def)

text \<open>
  \<^verbatim>\<open>fs\<close> are the free job nodes of thread \<^verbatim>\<open>t\<close> and \<^verbatim>\<open>qs\<close> the nodes of its
  three queues: disjoint lists, every tail pointer at the last node.
\<close>

definition sch_lists :: "addr \<Rightarrow> zSchWorld \<Rightarrow> addr list \<Rightarrow> addr list list \<Rightarrow> bool" where
  "sch_lists t w fs qs \<longleftrightarrow> (\<exists>th. sx_thr w t = Some th \<and> length (th_que th) = EZCRTSchPri_num \<and>
     chains jb_next (sx_job w) (th_freejobs th # map pl_jobs (th_que th)) (fs # qs) \<and>
     (\<forall>k < EZCRTSchPri_num. pl_tail (th_que th ! k) = last_of (qs ! k)))"

definition queues :: "zSchWorld \<Rightarrow> addr list list \<Rightarrow> zScheduleJob list list" where
  "queues w qs = map (contents_of jb_set_next (sx_job w)) qs"

definition held :: "addr \<Rightarrow> zScheduleJob list \<Rightarrow> nat" where
  "held s js = length (filter (\<lambda>n. jb_sch n = Some s) js)"

lemma held_simps [simp]: "held s [] = 0" "held s (n # js) = (if jb_sch n = Some s then 1 else 0) + held s js"
  "held s (js @ js') = held s js + held s js'"
  by (simp_all add: held_def)

text \<open>
  Every job has a callback and the schedule it was sent to, which is of this thread and of the queue's
  priority; every schedule of the thread counts its jobs and has at most its maximum of them.
\<close>

definition sch_jobs :: "addr \<Rightarrow> zSchedule heap \<Rightarrow> zScheduleJob list list \<Rightarrow> bool" where
  "sch_jobs t sch js \<longleftrightarrow> length js = EZCRTSchPri_num \<and>
     (\<forall>k < EZCRTSchPri_num. \<forall>n \<in> set (js ! k). jb_fn n \<noteq> None \<and>
       (\<exists>s sc. jb_sch n = Some s \<and> sch s = Some sc \<and> sc_thr sc = Some t \<and> unat (sc_pri sc) = k)) \<and>
     (\<forall>s sc. sch s = Some sc \<longrightarrow> sc_thr sc = Some t \<longrightarrow> unat (sc_pri sc) < EZCRTSchPri_num \<longrightarrow>
       sc_cursize sc = of_nat (held s (js ! unat (sc_pri sc))) \<and>
       held s (js ! unat (sc_pri sc)) \<le> unat (sc_maxsize sc) \<and> unat (sc_maxsize sc) < 65536)"

definition sch_wf :: "addr \<Rightarrow> zSchWorld \<Rightarrow> addr list \<Rightarrow> addr list list \<Rightarrow> bool" where
  "sch_wf t w fs qs \<longleftrightarrow> sch_lists t w fs qs \<and> sch_jobs t (sx_sch w) (queues w qs)"

lemma set_simps [simp]:
  "sx_job (set_job a n w) = (sx_job w)(a \<mapsto> n)" "sx_sch (set_job a n w) = sx_sch w" "sx_thr (set_job a n w) = sx_thr w"
  "sx_job (set_sch a c w) = sx_job w" "sx_sch (set_sch a c w) = (sx_sch w)(a \<mapsto> c)" "sx_thr (set_sch a c w) = sx_thr w"
  "sx_job (set_thr a t w) = sx_job w" "sx_sch (set_thr a t w) = sx_sch w" "sx_thr (set_thr a t w) = (sx_thr w)(a \<mapsto> t)"
  by (simp_all add: set_job_def set_sch_def set_thr_def)

lemma sch_listsE:
  assumes "sch_lists t w fs qs"
  obtains th where "sx_thr w t = Some th" "length (th_que th) = EZCRTSchPri_num" "length qs = EZCRTSchPri_num"
    "chains jb_next (sx_job w) (th_freejobs th # map pl_jobs (th_que th)) (fs # qs)"
    "\<And>k. k < EZCRTSchPri_num \<Longrightarrow> pl_tail (th_que th ! k) = last_of (qs ! k)"
    "\<And>k. k < EZCRTSchPri_num \<Longrightarrow> chain jb_next (sx_job w) (pl_jobs (th_que th ! k)) (qs ! k) None"
    "distinct (concat (fs # qs))"
proof -
  obtain th where th: "sx_thr w t = Some th" "length (th_que th) = EZCRTSchPri_num"
    "chains jb_next (sx_job w) (th_freejobs th # map pl_jobs (th_que th)) (fs # qs)"
    "\<forall>k < EZCRTSchPri_num. pl_tail (th_que th ! k) = last_of (qs ! k)"
    using assms by (auto simp: sch_lists_def)
  note c = chainsD [OF th(3)]
  have "chain jb_next (sx_job w) (pl_jobs (th_que th ! k)) (qs ! k) None" if "k < EZCRTSchPri_num" for k
    using c(3) [of "Suc k"] that th(2) by simp
  then show ?thesis using that [OF th(1,2) _ th(3)] th(2,4) c(1,2) by simp
qed

lemma sch_listsI:
  "sx_thr w t = Some th \<Longrightarrow> length (th_que th) = EZCRTSchPri_num \<Longrightarrow>
    chains jb_next (sx_job w) (th_freejobs th # map pl_jobs (th_que th)) (fs # qs) \<Longrightarrow>
    (\<And>k. k < EZCRTSchPri_num \<Longrightarrow> pl_tail (th_que th ! k) = last_of (qs ! k)) \<Longrightarrow> sch_lists t w fs qs"
  by (auto simp: sch_lists_def)

lemma queues_upd: "a \<notin> set (concat qs) \<Longrightarrow> queues (set_job a n w) qs = queues w qs"
  by (auto simp: queues_def intro!: jb.contents_of_upd)

lemma queues_relink: "sx_job w l = Some n \<Longrightarrow> queues (set_job l (jb_set_next q n) w) qs = queues w qs"
  by (auto simp: queues_def intro!: jb.contents_of_relink)

lemma queues_cong: "sx_job w' = sx_job w \<Longrightarrow> queues w' qs = queues w qs"
  by (simp add: queues_def)

lemma last_of_simps [simp]: "last_of [] = None" "last_of [a] = Some a" "last_of (xs @ [a]) = Some a"
  by (simp_all add: last_of_def)

lemma insert_lists:
  assumes wf: "sch_lists t w fs qs" and sc: "sx_sch w s = Some sc" "sc_thr sc = Some t" "unat (sc_pri sc) = k"
    and k: "k < EZCRTSchPri_num" and a: "a \<notin> set (concat (fs # qs))" "sx_job w a = Some n" "jb_next n = None"
  obtains w' sc' where "zcrt_s_insert_job s a w = Inr w'" "sch_lists t w' fs (qs[k := qs ! k @ [a]])"
    "queues w' (qs[k := qs ! k @ [a]]) = (queues w qs)[k := queues w qs ! k @ [n]]"
    "sx_sch w' = (sx_sch w)(s \<mapsto> sc')" "sc_cursize sc' = sc_cursize sc + 1" "sc_thr sc' = sc_thr sc"
    "sc_pri sc' = sc_pri sc" "sc_maxsize sc' = sc_maxsize sc"
proof -
  obtain th where th: "sx_thr w t = Some th" "length (th_que th) = EZCRTSchPri_num" "length qs = EZCRTSchPri_num"
    "chains jb_next (sx_job w) (th_freejobs th # map pl_jobs (th_que th)) (fs # qs)"
    "\<And>k. k < EZCRTSchPri_num \<Longrightarrow> pl_tail (th_que th ! k) = last_of (qs ! k)"
    "\<And>k. k < EZCRTSchPri_num \<Longrightarrow> chain jb_next (sx_job w) (pl_jobs (th_que th ! k)) (qs ! k) None"
    "distinct (concat (fs # qs))" using sch_listsE [OF wf] by blast
  let ?que = "th_que th ! k" and ?qs = "qs[k := qs ! k @ [a]]"
  let ?sc1 = "sc\<lparr>sc_cursize := sc_cursize sc + 1\<rparr>"
  let ?sc2 = "if sint (sc_maxhold ?sc1) < sint (sc_cursize ?sc1) then ?sc1\<lparr>sc_maxhold := sc_cursize ?sc1\<rparr> else ?sc1"
  have sc2: "sc_cursize ?sc2 = sc_cursize sc + 1" "sc_thr ?sc2 = sc_thr sc" "sc_pri ?sc2 = sc_pri sc" "sc_maxsize ?sc2 = sc_maxsize sc"
    by simp_all
  have next0: "jb_set_next None n = n" using a(3) by (simp add: jb_set_next_def)
  have kl: "k < length (th_que th)" "k < length qs" "Suc k < length (th_freejobs th # map pl_jobs (th_que th))"
    using k th(2,3) by simp_all
  show ?thesis
  proof (cases "qs ! k" rule: rev_cases)
    case Nil
    have e: "pl_jobs ?que = None" "pl_tail ?que = None" using th(5,6) [OF k] Nil by simp_all
    let ?w = "set_sch s ?sc2 (set_thr t (th\<lparr>th_que := (th_que th)[k := ?que\<lparr>pl_jobs := Some a, pl_tail := Some a\<rparr>],
        th_sem := th_sem th + 1\<rparr>) w)"
    have "chains jb_next (sx_job w) (th_freejobs th # map pl_jobs ((th_que th)[k := ?que\<lparr>pl_jobs := Some a, pl_tail := Some a\<rparr>]))
        (fs # qs[k := [a]])"
      using jb.chains_append_empty [OF th(4) kl(3), of a n] Nil a by (simp add: map_update)
    then have "sch_lists t ?w fs ?qs"
      using th k Nil by (intro sch_listsI [of _ _ "th\<lparr>th_que := (th_que th)[k := ?que\<lparr>pl_jobs := Some a, pl_tail := Some a\<rparr>],
        th_sem := th_sem th + 1\<rparr>"]) (auto simp: nth_list_update)
    moreover have "queues ?w ?qs = (queues w qs)[k := queues w qs ! k @ [n]]"
      using Nil a(2) next0 kl by (simp add: queues_def map_update)
    moreover have "zcrt_s_insert_job s a w = Inr ?w"
      using sc th(1) kl e by (simp add: zcrt_s_insert_job_def Let_def)
    ultimately show ?thesis using that [of ?w ?sc2] sc2 by simp
  next
    case (snoc xs l)
    have ll: "l \<in> set (concat (fs # qs))" using concat_nth [OF kl(2), of l] snoc by simp
    obtain ln where ln: "sx_job w l = Some ln" using chain_dom [OF th(6) [OF k], of l] snoc by auto
    obtain hd where hd: "pl_jobs ?que = Some hd" using th(6) [OF k] snoc by (cases xs) auto
    have tl: "pl_tail ?que = Some l" using th(5) [OF k] snoc by simp
    let ?h = "(sx_job w)(l \<mapsto> jb_set_next (Some a) ln)"
    let ?w = "set_sch s ?sc2 (set_thr t (th\<lparr>th_que := (th_que th)[k := ?que\<lparr>pl_tail := Some a\<rparr>],
        th_sem := th_sem th + 1\<rparr>) (set_job l (jb_set_next (Some a) ln) w))"
    have upd: "(map pl_jobs (th_que th))[k := pl_jobs ?que] = map pl_jobs (th_que th)"
      using kl by (metis list_update_id nth_map)
    have "chains jb_next ?h (th_freejobs th # map pl_jobs ((th_que th)[k := ?que\<lparr>pl_tail := Some a\<rparr>])) (fs # ?qs)"
      using jb.chains_append_last [OF th(4) kl(3), of xs l a n ln] snoc a ln upd by (simp add: map_update)
    then have "sch_lists t ?w fs ?qs"
      using th k snoc by (intro sch_listsI [of _ _ "th\<lparr>th_que := (th_que th)[k := ?que\<lparr>pl_tail := Some a\<rparr>],
        th_sem := th_sem th + 1\<rparr>"]) (auto simp: nth_list_update last_of_def)
    moreover have "queues ?w ?qs = (queues w qs)[k := queues w qs ! k @ [n]]"
    proof -
      have "a \<noteq> l" using a(1) ll by auto
      moreover have "contents_of jb_set_next ?h = contents_of jb_set_next (sx_job w)"
        by (rule ext, rule jb.contents_of_relink) (rule ln)
      ultimately show ?thesis using a(2) next0 kl by (simp add: queues_def map_update)
    qed
    moreover have "zcrt_s_insert_job s a w = Inr ?w"
      using sc th(1) kl hd tl ln by (simp add: zcrt_s_insert_job_def Let_def jb_set_next_def)
    ultimately show ?thesis using that [of ?w ?sc2] sc2 by simp
  qed
qed


text \<open>Taking a node for a job, from the free list or the allocator.\<close>

definition blank_job :: "ptr \<Rightarrow> zScheduleJob" where
  "blank_job cb = \<lparr>jb_fn = Some cb, jb_argn = 0, jb_args = replicate ZCRT_CB_MAX_ARGS 0, jb_sch = None, jb_next = None\<rparr>"

definition can_new :: "addr \<Rightarrow> zSchWorld \<Rightarrow> addr option \<Rightarrow> bool" where
  "can_new t w new \<longleftrightarrow> (\<exists>th. sx_thr w t = Some th \<and> can_alloc (sx_job w) (th_freejobs th) new)"

lemma job_new_lists:
  assumes wf: "sch_lists t w fs qs" and al: "can_new t w new"
  obtains a w1 where "zcrt_s_job_new new t cb w = Inr (Some a, w1)" "sx_job w1 = (sx_job w)(a \<mapsto> blank_job cb)"
    "a \<notin> set (concat (tl fs # qs))" "\<And>n. sch_lists t (set_job a n w1) (tl fs) qs"
    "\<And>n. queues (set_job a n w1) qs = queues w qs" "sx_sch w1 = sx_sch w"
proof -
  obtain th where th: "sx_thr w t = Some th" "length (th_que th) = EZCRTSchPri_num" "length qs = EZCRTSchPri_num"
    "chains jb_next (sx_job w) (th_freejobs th # map pl_jobs (th_que th)) (fs # qs)"
    "\<And>k. k < EZCRTSchPri_num \<Longrightarrow> pl_tail (th_que th ! k) = last_of (qs ! k)" using sch_listsE [OF wf] by metis
  show ?thesis
  proof (cases "th_freejobs th")
    case None
    have fs: "fs = []" using chainsD(3) [OF th(4), of 0] None by simp
    obtain a where a: "new = Some a" "sx_job w a = None" using al None th(1) by (auto simp: can_new_def can_alloc_def)
    note f = chains_fresh [OF th(4) a(2)]
    let ?th = "th\<lparr>th_jobadded := th_jobadded th + 1, th_joballoced := th_joballoced th + 1\<rparr>"
    let ?w = "set_job a (blank_job cb) (set_thr t ?th w)"
    have "zcrt_s_job_new new t cb w = Inr (Some a, ?w)"
      using th(1) None a by (simp add: zcrt_s_job_new_def blank_job_def Let_def)
    moreover have "sch_lists t (set_job a n ?w) (tl fs) qs" for n
      using th f(1) fs None by (intro sch_listsI [of _ _ ?th]) simp_all
    moreover have "queues (set_job a n ?w) qs = queues w qs" for n
      using f(2) fs queues_upd [of a qs] queues_cong [of "set_thr t ?th w" w] by (auto simp: queues_upd)
    ultimately show ?thesis using that f(2) fs by simp
  next
    case (Some a)
    obtain m rest where f: "fs = a # rest" "sx_job w a = Some m" "a \<notin> set (concat (rest # qs))"
      "\<And>n. chains jb_next ((sx_job w)(a \<mapsto> n)) (jb_next m # map pl_jobs (th_que th)) (rest # qs)"
      using chains_pop th(4) Some by metis
    let ?th = "th\<lparr>th_jobadded := th_jobadded th + 1, th_freejobs := jb_next m\<rparr>"
    let ?w = "set_job a (blank_job cb) (set_thr t ?th w)"
    have "zcrt_s_job_new new t cb w = Inr (Some a, ?w)"
      using th(1) Some f by (simp add: zcrt_s_job_new_def blank_job_def Let_def)
    moreover have "sch_lists t (set_job a n ?w) (tl fs) qs" for n
      using th f(1,4) by (intro sch_listsI [of _ _ ?th]) simp_all
    moreover have "queues (set_job a n ?w) qs = queues w qs" for n
      using f(3) queues_upd [of a qs] queues_cong [of "set_thr t ?th w" w] by (auto simp: queues_upd)
    ultimately show ?thesis using that f(1,3) by simp
  qed
qed

text \<open>What sending does to the queues.\<close>

definition the_job :: "addr \<Rightarrow> ptr \<Rightarrow> u32 \<Rightarrow> ptr list \<Rightarrow> zScheduleJob" where
  "the_job s fn argn args = \<lparr>jb_fn = Some fn, jb_argn = argn,
     jb_args = args @ replicate (ZCRT_CB_MAX_ARGS - length args) 0, jb_sch = Some s, jb_next = None\<rparr>"

lemma send_lists:
  assumes wf: "sch_lists t w fs qs" and al: "can_new t w new" and sc: "sx_sch w s = Some sc" "sc_thr sc = Some t"
    and k: "unat (sc_pri sc) < EZCRTSchPri_num" and n: "jb_next n = None"
  obtains a w1 w2 sc' where "zcrt_s_job_new new t fn w = Inr (Some a, w1)" "sx_job w1 a = Some (blank_job fn)"
    "zcrt_s_insert_job s a (set_job a n w1) = Inr w2"
    "sch_lists t w2 (tl fs) (qs[unat (sc_pri sc) := qs ! unat (sc_pri sc) @ [a]])"
    "queues w2 (qs[unat (sc_pri sc) := qs ! unat (sc_pri sc) @ [a]]) =
      (queues w qs)[unat (sc_pri sc) := queues w qs ! unat (sc_pri sc) @ [n]]"
    "sx_sch w2 = (sx_sch w)(s \<mapsto> sc')" "sc_cursize sc' = sc_cursize sc + 1" "sc_thr sc' = sc_thr sc"
    "sc_pri sc' = sc_pri sc" "sc_maxsize sc' = sc_maxsize sc"
proof -
  obtain a w1 where new: "zcrt_s_job_new new t fn w = Inr (Some a, w1)" "sx_job w1 = (sx_job w)(a \<mapsto> blank_job fn)"
    "a \<notin> set (concat (tl fs # qs))" "sch_lists t (set_job a n w1) (tl fs) qs"
    "queues (set_job a n w1) qs = queues w qs" "sx_sch w1 = sx_sch w"
    using job_new_lists [OF wf al] by metis
  have sc1: "sx_sch (set_job a n w1) s = Some sc" "sx_job (set_job a n w1) a = Some n" using sc(1) new(6) by simp_all
  obtain w2 sc' where "zcrt_s_insert_job s a (set_job a n w1) = Inr w2"
    "sch_lists t w2 (tl fs) (qs[unat (sc_pri sc) := qs ! unat (sc_pri sc) @ [a]])"
    "queues w2 (qs[unat (sc_pri sc) := qs ! unat (sc_pri sc) @ [a]]) =
      (queues (set_job a n w1) qs)[unat (sc_pri sc) := queues (set_job a n w1) qs ! unat (sc_pri sc) @ [n]]"
    "sx_sch w2 = (sx_sch (set_job a n w1))(s \<mapsto> sc')" "sc_cursize sc' = sc_cursize sc + 1" "sc_thr sc' = sc_thr sc"
    "sc_pri sc' = sc_pri sc" "sc_maxsize sc' = sc_maxsize sc"
    using insert_lists [OF new(4) sc1(1) sc(2) refl k new(3) sc1(2) n] by metis
  then show ?thesis using that [OF new(1), of w2 sc'] new(2,5,6) by simp
qed

lemma sch_jobs_send:
  assumes j: "sch_jobs t sch js" and sc: "sch s = Some sc" "sc_thr sc = Some t" "unat (sc_pri sc) = k" "k < EZCRTSchPri_num"
    and n: "jb_fn n \<noteq> None" "jb_sch n = Some s" and room: "held s (js ! k) < unat (sc_maxsize sc)"
    and sc': "sc_cursize sc' = sc_cursize sc + 1" "sc_thr sc' = sc_thr sc" "sc_pri sc' = sc_pri sc" "sc_maxsize sc' = sc_maxsize sc"
  shows "sch_jobs t (sch(s \<mapsto> sc')) (js[k := js ! k @ [n]])"
  unfolding sch_jobs_def
proof (intro conjI allI impI ballI)
  show "length (js[k := js ! k @ [n]]) = EZCRTSchPri_num" using j by (simp add: sch_jobs_def)
  then have kl: "k < length js" using sc(4) by simp
  fix i m assume i: "i < EZCRTSchPri_num" and m: "m \<in> set (js[k := js ! k @ [n]] ! i)"
  then have "m \<in> set (js ! i) \<or> (i = k \<and> m = n)" using kl by (auto simp: nth_list_update split: if_splits)
  then show "jb_fn m \<noteq> None" "\<exists>s' sc'a. jb_sch m = Some s' \<and> (sch(s \<mapsto> sc')) s' = Some sc'a \<and> sc_thr sc'a = Some t \<and> unat (sc_pri sc'a) = i"
    using j i n sc sc' unfolding sch_jobs_def by fastforce+
next
  have kl: "k < length js" using j sc(4) by (simp add: sch_jobs_def)
  fix r c assume c: "(sch(s \<mapsto> sc')) r = Some c" "sc_thr c = Some t" "unat (sc_pri c) < EZCRTSchPri_num"
  have old: "sc_cursize sc = of_nat (held s (js ! k))" "unat (sc_maxsize sc) < 65536"
    using j sc unfolding sch_jobs_def by blast+
  show "sc_cursize c = of_nat (held r (js[k := js ! k @ [n]] ! unat (sc_pri c)))"
    "held r (js[k := js ! k @ [n]] ! unat (sc_pri c)) \<le> unat (sc_maxsize c)" "unat (sc_maxsize c) < 65536"
    using j c kl old room sc sc' n unfolding sch_jobs_def
    by (auto simp: nth_list_update split: if_splits)
qed

lemma sint_small_u32: "unat (x :: u32) < 2 ^ 31 \<Longrightarrow> sint x = int (unat x)"
proof -
  assume "unat x < 2 ^ 31"
  then have "int (unat x) < int (2 ^ 31)" by (simp only: of_nat_less_iff)
  then have "uint x < 2 ^ 31" by simp
  moreover have "- (2 ^ 31) \<le> uint x" by (rule order.trans [of _ 0]) simp_all
  ultimately have "signed_take_bit 31 (uint x) = uint x" by (intro signed_take_bit_int_eq_self)
  then show ?thesis by (simp add: sint_uint)
qed

lemma full_iff:
  assumes j: "sch_jobs t sch js" and sc: "sch s = Some sc" "sc_thr sc = Some t" "unat (sc_pri sc) = k" "k < EZCRTSchPri_num"
  shows "sint (sc_cursize sc) \<ge> sint (sc_maxsize sc) \<longleftrightarrow> held s (js ! k) = unat (sc_maxsize sc)"
    "0 < sint (sc_cursize sc) \<longleftrightarrow> 0 < held s (js ! k)"
proof -
  have o: "sc_cursize sc = of_nat (held s (js ! k))" "held s (js ! k) \<le> unat (sc_maxsize sc)" "unat (sc_maxsize sc) < 65536"
    using j sc unfolding sch_jobs_def by blast+
  have m: "sint (sc_maxsize sc) = int (unat (sc_maxsize sc))" using o(3) by (intro sint_small_u32) simp
  have "unat (sc_cursize sc) = held s (js ! k)" using o by (simp add: unat_of_nat)
  then have c: "sint (sc_cursize sc) = int (held s (js ! k))" using o sint_small_u32 [of "sc_cursize sc"] by simp
  show "sint (sc_cursize sc) \<ge> sint (sc_maxsize sc) \<longleftrightarrow> held s (js ! k) = unat (sc_maxsize sc)"
    "0 < sint (sc_cursize sc) \<longleftrightarrow> 0 < held s (js ! k)"
    unfolding m c of_nat_le_iff using o(2) by auto
qed

lemma send_wf:
  assumes wf: "sch_wf t w fs qs" and al: "can_new t w new" and sc: "sx_sch w s = Some sc" "sc_thr sc = Some t"
    and k: "unat (sc_pri sc) = k" "k < EZCRTSchPri_num" and room: "held s (queues w qs ! k) < unat (sc_maxsize sc)"
    and n: "jb_next n = None" "jb_fn n \<noteq> None" "jb_sch n = Some s"
  obtains a w1 w2 where "zcrt_s_job_new new t fn w = Inr (Some a, w1)" "sx_job w1 a = Some (blank_job fn)"
    "zcrt_s_insert_job s a (set_job a n w1) = Inr w2" "sch_wf t w2 (tl fs) (qs[k := qs ! k @ [a]])"
    "queues w2 (qs[k := qs ! k @ [a]]) = (queues w qs)[k := queues w qs ! k @ [n]]"
    "dom (sx_sch w2) = dom (sx_sch w)"
proof -
  have l: "sch_lists t w fs qs" and j: "sch_jobs t (sx_sch w) (queues w qs)" using wf by (simp_all add: sch_wf_def)
  obtain a w1 w2 sc' where r: "zcrt_s_job_new new t fn w = Inr (Some a, w1)" "sx_job w1 a = Some (blank_job fn)"
    "zcrt_s_insert_job s a (set_job a n w1) = Inr w2" "sch_lists t w2 (tl fs) (qs[k := qs ! k @ [a]])"
    "queues w2 (qs[k := qs ! k @ [a]]) = (queues w qs)[k := queues w qs ! k @ [n]]"
    "sx_sch w2 = (sx_sch w)(s \<mapsto> sc')" "sc_cursize sc' = sc_cursize sc + 1" "sc_thr sc' = sc_thr sc"
    "sc_pri sc' = sc_pri sc" "sc_maxsize sc' = sc_maxsize sc"
    using send_lists [OF l al sc _ n(1)] k by metis
  have "sch_jobs t (sx_sch w2) (queues w2 (qs[k := qs ! k @ [a]]))"
    unfolding r(5,6) by (rule sch_jobs_send [OF j sc k n(2,3) room r(7-10)])
  then show ?thesis using that [OF r(1-3)] r(4-6) sc(1) by (auto simp: sch_wf_def)
qed

lemma sendjob_ok:
  assumes wf: "sch_wf t w fs qs" and al: "can_new t w new" and sc: "sx_sch w s = Some sc" "sc_thr sc = Some t"
    and k: "unat (sc_pri sc) = k" "k < EZCRTSchPri_num" and room: "held s (queues w qs ! k) < unat (sc_maxsize sc)"
  obtains a w' where "zcrt_schedule_sendjob new (Some s) (Some fn) p1 p2 w = Inr (EZCRTErr_success, w')"
    "sch_wf t w' (tl fs) (qs[k := qs ! k @ [a]])"
    "queues w' (qs[k := qs ! k @ [a]]) = (queues w qs)[k := queues w qs ! k @ [the_job s fn 2 [p1, p2]]]"
    "dom (sx_sch w') = dom (sx_sch w)"
proof -
  let ?n = "the_job s fn 2 [p1, p2]"
  have n: "jb_next ?n = None" "jb_fn ?n \<noteq> None" "jb_sch ?n = Some s" by (simp_all add: the_job_def)
  obtain a w1 w2 where r: "zcrt_s_job_new new t fn w = Inr (Some a, w1)" "sx_job w1 a = Some (blank_job fn)"
    "zcrt_s_insert_job s a (set_job a ?n w1) = Inr w2" "sch_wf t w2 (tl fs) (qs[k := qs ! k @ [a]])"
    "queues w2 (qs[k := qs ! k @ [a]]) = (queues w qs)[k := queues w qs ! k @ [?n]]" "dom (sx_sch w2) = dom (sx_sch w)"
    using send_wf [OF wf al sc k room n] by metis
  have "(blank_job fn)\<lparr>jb_argn := 2, jb_args := (jb_args (blank_job fn))[0 := p1, 1 := p2], jb_sch := Some s\<rparr> = ?n"
    by (simp add: the_job_def blank_job_def ZCRT_CB_MAX_ARGS_def eval_nat_numeral)
  moreover have "\<not> sint (sc_maxsize sc) \<le> sint (sc_cursize sc)"
    using full_iff(1) [OF wf [unfolded sch_wf_def, THEN conjunct2] sc k] room by simp
  ultimately have "zcrt_schedule_sendjob new (Some s) (Some fn) p1 p2 w = Inr (EZCRTErr_success, w2)"
    using r(1-3) sc k by (simp add: zcrt_schedule_sendjob_def)
  then show ?thesis using that r(4-6) by blast
qed

lemma sendjob_argn_ok:
  assumes wf: "sch_wf t w fs qs" and al: "can_new t w new" and sc: "sx_sch w s = Some sc" "sc_thr sc = Some t"
    and k: "unat (sc_pri sc) = k" "k < EZCRTSchPri_num" and room: "held s (queues w qs ! k) < unat (sc_maxsize sc)"
    and argn: "argn \<noteq> 0" "unat argn \<le> ZCRT_CB_MAX_ARGS" "length args = unat argn"
  obtains a w' where "zcrt_schedule_sendjob_argn new (Some s) (Some fn) argn args w = Inr (EZCRTErr_success, w')"
    "sch_wf t w' (tl fs) (qs[k := qs ! k @ [a]])"
    "queues w' (qs[k := qs ! k @ [a]]) = (queues w qs)[k := queues w qs ! k @ [the_job s fn argn args]]"
    "dom (sx_sch w') = dom (sx_sch w)"
proof -
  let ?n = "the_job s fn argn args"
  have n: "jb_next ?n = None" "jb_fn ?n \<noteq> None" "jb_sch ?n = Some s" by (simp_all add: the_job_def)
  obtain a w1 w2 where r: "zcrt_s_job_new new t fn w = Inr (Some a, w1)" "sx_job w1 a = Some (blank_job fn)"
    "zcrt_s_insert_job s a (set_job a ?n w1) = Inr w2" "sch_wf t w2 (tl fs) (qs[k := qs ! k @ [a]])"
    "queues w2 (qs[k := qs ! k @ [a]]) = (queues w qs)[k := queues w qs ! k @ [?n]]" "dom (sx_sch w2) = dom (sx_sch w)"
    using send_wf [OF wf al sc k room n] by metis
  have "(blank_job fn)\<lparr>jb_argn := argn, jb_sch := Some s,
      jb_args := take (unat argn) args @ drop (unat argn) (jb_args (blank_job fn))\<rparr> = ?n"
    using argn by (simp add: the_job_def blank_job_def)
  moreover have "\<not> sint (sc_maxsize sc) \<le> sint (sc_cursize sc)"
    using full_iff(1) [OF wf [unfolded sch_wf_def, THEN conjunct2] sc k] room by simp
  ultimately have "zcrt_schedule_sendjob_argn new (Some s) (Some fn) argn args w = Inr (EZCRTErr_success, w2)"
    using r(1-3) sc k argn by (simp add: zcrt_schedule_sendjob_argn_def Let_def not_less)
  then show ?thesis using that r(4-6) by blast
qed

section \<open>Taking jobs\<close>

lemma sch_jobs_out:
  assumes j: "sch_jobs t sch js" and k: "k < EZCRTSchPri_num" and at: "js ! k = xs @ n # ys" and n: "jb_sch n = Some s"
    and sc: "sch s = Some sc"
  shows "sch_jobs t (sch(s \<mapsto> sc\<lparr>sc_cursize := sc_cursize sc - 1\<rparr>)) (js[k := xs @ ys])"
  unfolding sch_jobs_def
proof (intro conjI allI impI ballI)
  show "length (js[k := xs @ ys]) = EZCRTSchPri_num" using j by (simp add: sch_jobs_def)
  then have kl: "k < length js" using k by simp
  fix i m assume i: "i < EZCRTSchPri_num" and m: "m \<in> set (js[k := xs @ ys] ! i)"
  then have "m \<in> set (js ! i)" using kl at by (auto simp: nth_list_update split: if_splits)
  then show "jb_fn m \<noteq> None" "\<exists>s' c. jb_sch m = Some s' \<and> (sch(s \<mapsto> sc\<lparr>sc_cursize := sc_cursize sc - 1\<rparr>)) s' = Some c \<and>
      sc_thr c = Some t \<and> unat (sc_pri c) = i"
    using j i sc unfolding sch_jobs_def by fastforce+
next
  have kl: "k < length js" using j k by (simp add: sch_jobs_def)
  have "n \<in> set (js ! k)" using at by simp
  then have pri: "sc_thr sc = Some t" "unat (sc_pri sc) = k" using j k n sc unfolding sch_jobs_def by fastforce+
  have old: "sc_cursize sc = of_nat (held s (js ! k))" "held s (js ! k) \<le> unat (sc_maxsize sc)" "unat (sc_maxsize sc) < 65536"
    using j sc pri k unfolding sch_jobs_def by blast+
  fix r c assume c: "(sch(s \<mapsto> sc\<lparr>sc_cursize := sc_cursize sc - 1\<rparr>)) r = Some c" "sc_thr c = Some t"
    "unat (sc_pri c) < EZCRTSchPri_num"
  show "sc_cursize c = of_nat (held r (js[k := xs @ ys] ! unat (sc_pri c)))"
    "held r (js[k := xs @ ys] ! unat (sc_pri c)) \<le> unat (sc_maxsize c)" "unat (sc_maxsize c) < 65536"
  proof -
    have "r \<noteq> s \<Longrightarrow> sc_cursize c = of_nat (held r (js ! unat (sc_pri c))) \<and> held r (js ! unat (sc_pri c)) \<le> unat (sc_maxsize c) \<and>
        unat (sc_maxsize c) < 65536"
      using j c unfolding sch_jobs_def by simp
    moreover have "r \<noteq> s \<Longrightarrow> held r (js[k := xs @ ys] ! unat (sc_pri c)) = held r (js ! unat (sc_pri c))"
      using at n kl by (cases "unat (sc_pri c) = k") simp_all
    ultimately show "sc_cursize c = of_nat (held r (js[k := xs @ ys] ! unat (sc_pri c)))"
      "held r (js[k := xs @ ys] ! unat (sc_pri c)) \<le> unat (sc_maxsize c)" "unat (sc_maxsize c) < 65536"
      using c pri old at n kl by (cases "r = s"; force)+
  qed
qed

lemma get_first_none: "\<forall>q \<in> set qs. pl_jobs q = None \<Longrightarrow> get_first h qs = Inr (None, qs)"
  by (induction qs) (simp_all add: zcrt_s_thr_getjob_def)

lemma get_first_at:
  "k < length qs \<Longrightarrow> \<forall>i < k. pl_jobs (qs ! i) = None \<Longrightarrow> pl_jobs (qs ! k) = Some j \<Longrightarrow> h j = Some n \<Longrightarrow>
    get_first h qs = Inr (Some j, qs[k := \<lparr>pl_jobs = jb_next n,
      pl_tail = (if pl_tail (qs ! k) = Some j then None else pl_tail (qs ! k))\<rparr>])"
proof (induction qs arbitrary: k)
  case (Cons q qs)
  show ?case
  proof (cases k)
    case 0
    then show ?thesis using Cons.prems by (simp add: zcrt_s_thr_getjob_def Let_def)
  next
    case (Suc k')
    have "pl_jobs q = None" using Cons.prems(2) Suc by force
    moreover have "\<forall>i < k'. pl_jobs (qs ! i) = None" using Cons.prems(2) Suc by auto
    ultimately show ?thesis using Cons.IH [of k'] Cons.prems Suc by (simp add: zcrt_s_thr_getjob_def)
  qed
qed simp

lemma take_job_lists:
  assumes wf: "sch_lists t w fs qs" and k: "k < EZCRTSchPri_num" and first: "\<forall>i < k. qs ! i = []" "qs ! k = a # as"
    and n: "sx_job w a = Some n" "jb_sch n = Some s" "sx_sch w s = Some sc"
  obtains w' where "take_job t w = Inr (Some (jb_fn n, jb_args n), w')" "sch_lists t w' (a # fs) (qs[k := as])"
    "queues w' (qs[k := as]) = (queues w qs)[k := contents_of jb_set_next (sx_job w) as]"
    "sx_sch w' = (sx_sch w)(s \<mapsto> sc\<lparr>sc_cursize := sc_cursize sc - 1\<rparr>)"
proof -
  obtain th where th: "sx_thr w t = Some th" "length (th_que th) = EZCRTSchPri_num" "length qs = EZCRTSchPri_num"
    "chains jb_next (sx_job w) (th_freejobs th # map pl_jobs (th_que th)) (fs # qs)"
    "\<And>k. k < EZCRTSchPri_num \<Longrightarrow> pl_tail (th_que th ! k) = last_of (qs ! k)"
    "\<And>k. k < EZCRTSchPri_num \<Longrightarrow> chain jb_next (sx_job w) (pl_jobs (th_que th ! k)) (qs ! k) None"
    "distinct (concat (fs # qs))" using sch_listsE [OF wf] by blast
  have kl: "k < length (th_que th)" "k < length qs" "Suc k < length (th_freejobs th # map pl_jobs (th_que th))"
    using k th(2,3) by simp_all
  have e: "\<forall>i < k. pl_jobs (th_que th ! i) = None"
  proof (intro allI impI)
    fix i assume "i < k"
    then show "pl_jobs (th_que th ! i) = None" using th(6) [of i] first(1) k by simp
  qed
  have j: "pl_jobs (th_que th ! k) = Some a" using th(6) [OF k] first(2) by simp
  have d: "distinct (a # as)" using chain_distinct [OF th(6) [OF k]] first(2) by simp
  let ?q = "\<lparr>pl_jobs = jb_next n, pl_tail = (if pl_tail (th_que th ! k) = Some a then None else pl_tail (th_que th ! k))\<rparr>"
  let ?que = "(th_que th)[k := ?q]" and ?qs = "qs[k := as]"
  let ?n = "n\<lparr>jb_next := th_freejobs th, jb_fn := None, jb_sch := None\<rparr>"
  let ?th = "th\<lparr>th_que := ?que, th_freejobs := Some a, th_jobfreed := th_jobfreed th + 1\<rparr>"
  let ?w = "set_sch s (sc\<lparr>sc_cursize := sc_cursize sc - 1\<rparr>) (set_thr t ?th (set_job a ?n w))"
  have g: "get_first (sx_job w) (th_que th) = Inr (Some a, ?que)"
    using get_first_at [OF kl(1) e j, of "sx_job w" n] n(1) by simp
  have "take_job t w = Inr (Some (jb_fn n, jb_args n), ?w)"
    using th(1) g n by (simp add: take_job_def zcrt_s_job_delete_has_mutex_def Let_def)
      (simp add: set_sch_def set_thr_def set_job_def)
  moreover have out: "chains jb_next (sx_job w) (th_freejobs th # map pl_jobs ?que) (fs # ?qs)" "a \<notin> set (concat (fs # ?qs))"
    using jb.chains_out_front [OF th(4) kl(3), of a as n] first(2) n(1) by (simp_all add: map_update)
  have "sch_lists t ?w (a # fs) ?qs"
  proof (rule sch_listsI)
    show "chains jb_next (sx_job ?w) (th_freejobs ?th # map pl_jobs (th_que ?th)) ((a # fs) # ?qs)"
      using chains_push [OF out, of ?n] by simp
    show "pl_tail (th_que ?th ! i) = last_of (?qs ! i)" if "i < EZCRTSchPri_num" for i
      using th(5) [OF that] th(5) [OF k] first(2) d kl by (cases as rule: rev_cases) (auto simp: last_of_def nth_list_update)
  qed (use th in simp_all)
  moreover have "queues ?w ?qs = (queues w qs)[k := contents_of jb_set_next (sx_job w) as]"
  proof -
    have "queues ?w ?qs = queues w ?qs" using queues_upd [of a ?qs ?n w] out(2) by (simp add: queues_def)
    then show ?thesis by (simp add: queues_def map_update)
  qed
  ultimately show ?thesis using that by simp
qed

lemma take_job_none:
  assumes wf: "sch_lists t w fs qs" and "\<forall>i < EZCRTSchPri_num. qs ! i = []"
  shows "take_job t w = Inr (None, w)"
proof -
  obtain th where th: "sx_thr w t = Some th" "length (th_que th) = EZCRTSchPri_num"
    "\<And>k. k < EZCRTSchPri_num \<Longrightarrow> chain jb_next (sx_job w) (pl_jobs (th_que th ! k)) (qs ! k) None"
    using sch_listsE [OF wf] by metis
  have "pl_jobs (th_que th ! i) = None" if "i < EZCRTSchPri_num" for i using th(3) [OF that] assms(2) that by simp
  then have "\<forall>q \<in> set (th_que th). pl_jobs q = None" using th(2) by (metis in_set_conv_nth)
  then have "get_first (sx_job w) (th_que th) = Inr (None, th_que th)" by (rule get_first_none)
  moreover have "set_thr t (th\<lparr>th_que := th_que th\<rparr>) w = w"
  proof -
    have "th\<lparr>th_que := th_que th\<rparr> = th" by simp
    moreover have "(sx_thr w)(t \<mapsto> th) = sx_thr w" by (rule fun_upd_idem) (rule th(1))
    ultimately show ?thesis unfolding set_thr_def by (simp only:) simp
  qed
  ultimately show ?thesis unfolding take_job_def th(1) deref_simps rbind.simps by (simp only: prod.case Let_def option.case rbind.simps)
qed

definition job_act :: "(ptr \<Rightarrow> ptr list \<Rightarrow> 'w \<Rightarrow> 'w) \<Rightarrow> zScheduleJob \<Rightarrow> 'w \<Rightarrow> 'w" where
  "job_act act n x = act (the (jb_fn n)) (jb_args n) x"

lemma concat_first:
  "k < length js \<Longrightarrow> \<forall>i < k. js ! i = [] \<Longrightarrow> js ! k = n # ns \<Longrightarrow> concat js = n # concat (js[k := ns])"
proof (induction js arbitrary: k)
  case (Cons j js)
  show ?case
  proof (cases k)
    case 0
    then show ?thesis using Cons.prems by simp
  next
    case (Suc k')
    have "j = []" using Cons.prems(2) Suc by force
    moreover have "\<forall>i < k'. js ! i = []" using Cons.prems(2) Suc by auto
    ultimately show ?thesis using Cons.IH [of k'] Cons.prems Suc by simp
  qed
qed simp

lemma first_job:
  assumes "concat js \<noteq> []"
  obtains k n ns where "k < length js" "\<forall>i < k. js ! i = []" "js ! k = n # ns"
proof -
  have ex: "\<exists>k. k < length js \<and> js ! k \<noteq> []" using assms by (auto simp: in_set_conv_nth)
  define k where "k = (LEAST k. k < length js \<and> js ! k \<noteq> [])"
  have k: "k < length js \<and> js ! k \<noteq> []" unfolding k_def by (rule LeastI_ex [OF ex])
  have "js ! i = []" if "i < k" for i using not_less_Least [of i "\<lambda>k. k < length js \<and> js ! k \<noteq> []"] that k k_def by auto
  then show ?thesis using that [of k "hd (js ! k)" "tl (js ! k)"] k by simp
qed

lemma take_job_wf:
  assumes wf: "sch_wf t w fs qs" and k: "k < EZCRTSchPri_num" and first: "\<forall>i < k. queues w qs ! i = []" "queues w qs ! k = n # ns"
  obtains w' fs' qs' where "take_job t w = Inr (Some (jb_fn n, jb_args n), w')" "sch_wf t w' fs' qs'" "jb_fn n \<noteq> None"
    "queues w' qs' = (queues w qs)[k := ns]" "dom (sx_sch w') = dom (sx_sch w)" "fs' \<noteq> []" "length fs' = Suc (length fs)"
proof -
  have l: "sch_lists t w fs qs" and j: "sch_jobs t (sx_sch w) (queues w qs)" using wf by (simp_all add: sch_wf_def)
  have ql: "length qs = EZCRTSchPri_num" using sch_listsE [OF l] by metis
  then have "\<forall>i < k. qs ! i = []" using first(1) k by (auto simp: queues_def contents_of_def)
  obtain a as where at: "qs ! k = a # as" using first(2) k ql by (cases "qs ! k") (auto simp: queues_def)
  obtain m where m: "sx_job w a = Some m"
    using sch_listsE [OF l] chain_dom at k by (metis list.set_intros(1))
  have n: "n = jb_set_next None m" "ns = contents_of jb_set_next (sx_job w) as"
    using first(2) at k ql m by (simp_all add: queues_def)
  have "n \<in> set (queues w qs ! k)" using first(2) by simp
  then obtain s sc where s: "jb_sch n = Some s" "sx_sch w s = Some sc" "jb_fn n \<noteq> None"
    using j k unfolding sch_jobs_def by blast
  have ms: "jb_sch m = Some s" "jb_fn n = jb_fn m" "jb_args n = jb_args m" using s n(1) by (simp_all add: jb_set_next_def)
  obtain w' where w': "take_job t w = Inr (Some (jb_fn m, jb_args m), w')" "sch_lists t w' (a # fs) (qs[k := as])"
    "queues w' (qs[k := as]) = (queues w qs)[k := ns]"
    "sx_sch w' = (sx_sch w)(s \<mapsto> sc\<lparr>sc_cursize := sc_cursize sc - 1\<rparr>)"
    using take_job_lists [OF l k \<open>\<forall>i < k. qs ! i = []\<close> at m ms(1) s(2)] n(2) by metis
  have "sch_jobs t (sx_sch w') (queues w' (qs[k := as]))"
    using sch_jobs_out [OF j k, of "[]" n ns s sc] first(2) s w'(3,4) by simp
  then show ?thesis using that [of w' "a # fs" "qs[k := as]"] w' ms s by (auto simp: sch_wf_def)
qed

definition sch_outside :: "'w sch_call \<Rightarrow> (ptr \<Rightarrow> ptr list \<Rightarrow> 'w \<Rightarrow> 'w) \<Rightarrow> bool" where
  "sch_outside call act \<longleftrightarrow> (\<forall>f args w x. call f args (w, x) = Inr (w, act f args x))"

lemma run_jobs_wf:
  assumes out: "sch_outside call act" and wf: "sch_wf t w fs qs"
  shows "\<exists>w' fs' qs'. run_jobs call t (w, x) = Some (Inr (w', fold (job_act act) (concat (queues w qs)) x)) \<and>
    sch_wf t w' fs' qs' \<and> concat (queues w' qs') = []"
  using wf
proof (induction "length (concat (queues w qs))" arbitrary: w fs qs x)
  case 0
  have l: "sch_lists t w fs qs" using 0(2) by (simp add: sch_wf_def)
  have "length qs = EZCRTSchPri_num" using sch_listsE [OF l] by metis
  then have e: "\<forall>i < EZCRTSchPri_num. qs ! i = []"
    using 0(1) by (auto simp: queues_def contents_of_def dest: nth_mem)
  have "run_jobs call t (w, x) = Some (Inr (w, x))"
    by (subst run_jobs.simps) (simp add: take_job_none [OF l e])
  moreover have "concat (queues w qs) = []" using 0(1) by (metis length_0_conv)
  ultimately show ?case using 0(2) by (metis fold_simps(1))
next
  case (Suc len)
  have j: "sch_jobs t (sx_sch w) (queues w qs)" using Suc.prems by (simp add: sch_wf_def)
  then have ql: "length (queues w qs) = EZCRTSchPri_num" by (simp add: sch_jobs_def)
  have "concat (queues w qs) \<noteq> []" using Suc(2) by force
  then obtain k n ns where at: "k < length (queues w qs)" "\<forall>i < k. queues w qs ! i = []" "queues w qs ! k = n # ns"
    by (rule first_job)
  obtain w1 fs1 qs1 where w1: "take_job t w = Inr (Some (jb_fn n, jb_args n), w1)" "sch_wf t w1 fs1 qs1" "jb_fn n \<noteq> None"
    "queues w1 qs1 = (queues w qs)[k := ns]"
    using take_job_wf [OF Suc.prems at(1) [unfolded ql] at(2,3)] by metis
  have c: "concat (queues w qs) = n # concat (queues w1 qs1)" using concat_first [OF at] w1(4) by simp
  then have len: "len = length (concat (queues w1 qs1))" using Suc(2) by simp
  obtain w' fs' qs' where "run_jobs call t (w1, job_act act n x) =
      Some (Inr (w', fold (job_act act) (concat (queues w1 qs1)) (job_act act n x)))" "sch_wf t w' fs' qs'"
    "concat (queues w' qs') = []" using Suc(1) [OF len w1(2)] by metis
  moreover have "run_jobs call t (w, x) = run_jobs call t (w1, job_act act n x)"
    using w1(1,3) out by (subst run_jobs.simps) (auto simp: sch_outside_def job_act_def)
  ultimately show ?case using c by auto
qed

section \<open>Deleting a schedule's jobs\<close>

text \<open>The lists of a thread whose tail pointers are \<^verbatim>\<open>tls\<close>, right or not.\<close>

definition sch_at :: "addr \<Rightarrow> zSchWorld \<Rightarrow> addr list \<Rightarrow> addr list list \<Rightarrow> addr option list \<Rightarrow> bool" where
  "sch_at t w fs qs tls \<longleftrightarrow> (\<exists>th. sx_thr w t = Some th \<and> length (th_que th) = EZCRTSchPri_num \<and>
     chains jb_next (sx_job w) (th_freejobs th # map pl_jobs (th_que th)) (fs # qs) \<and> map pl_tail (th_que th) = tls)"

lemma sch_lists_at: "sch_lists t w fs qs \<longleftrightarrow> sch_at t w fs qs (map last_of qs)"
proof
  assume "sch_lists t w fs qs"
  then obtain th where "sx_thr w t = Some th" "length (th_que th) = EZCRTSchPri_num" "length qs = EZCRTSchPri_num"
    "chains jb_next (sx_job w) (th_freejobs th # map pl_jobs (th_que th)) (fs # qs)"
    "\<And>k. k < EZCRTSchPri_num \<Longrightarrow> pl_tail (th_que th ! k) = last_of (qs ! k)" using sch_listsE by metis
  then show "sch_at t w fs qs (map last_of qs)"
    unfolding sch_at_def by (intro exI [of _ th] conjI nth_equalityI) simp_all
next
  assume "sch_at t w fs qs (map last_of qs)"
  then obtain th where th: "sx_thr w t = Some th" "length (th_que th) = EZCRTSchPri_num"
    "chains jb_next (sx_job w) (th_freejobs th # map pl_jobs (th_que th)) (fs # qs)" "map pl_tail (th_que th) = map last_of qs"
    by (auto simp: sch_at_def)
  have "pl_tail (th_que th ! k) = last_of (qs ! k)" if "k < EZCRTSchPri_num" for k
    using arg_cong [OF th(4), of "\<lambda>xs. xs ! k"] chainsD(1) [OF th(3)] th(2) that by simp
  then show "sch_lists t w fs qs" using th by (intro sch_listsI)
qed

lemma remove_job_at:
  assumes at: "sch_at t w fs qs tls" and k: "k < EZCRTSchPri_num" and q: "qs ! k = ks @ a # ys"
    and n: "sx_job w a = Some n" "jb_sch n = Some s" "sx_sch w s = Some sc"
    and prev: "prev = (if ks = [] then Some a else Some (last ks))"
  obtains w' where "remove_job t k a prev (jb_next n) w = Inr (if ks = [] then jb_next n else prev, w')"
    "sch_at t w' (a # fs) (qs[k := ks @ ys]) (tls[k := if tls ! k = Some a then None else tls ! k])"
    "queues w' (qs[k := ks @ ys]) = queues w (qs[k := ks @ ys])"
    "sx_sch w' = (sx_sch w)(s \<mapsto> sc\<lparr>sc_cursize := sc_cursize sc - 1\<rparr>)"
    "\<And>b. b \<in> set (ks @ ys) \<Longrightarrow> map_option (jb_set_next None) (sx_job w' b) = map_option (jb_set_next None) (sx_job w b)"
    "map_option th_sch_list (sx_thr w' t) = map_option th_sch_list (sx_thr w t)"
proof -
  obtain th where th: "sx_thr w t = Some th" "length (th_que th) = EZCRTSchPri_num"
    "chains jb_next (sx_job w) (th_freejobs th # map pl_jobs (th_que th)) (fs # qs)" "map pl_tail (th_que th) = tls"
    using at by (auto simp: sch_at_def)
  have ql: "length qs = EZCRTSchPri_num" using chainsD(1) [OF th(3)] th(2) by simp
  have kl: "k < length (th_que th)" "k < length qs" "Suc k < length (th_freejobs th # map pl_jobs (th_que th))"
    using k th(2) ql by simp_all
  have ch: "chain jb_next (sx_job w) (pl_jobs (th_que th ! k)) (ks @ a # ys) None"
    using chainsD(3) [OF th(3) kl(3)] q kl by simp
  have d: "distinct (ks @ a # ys)" by (rule chain_distinct [OF ch])
  let ?que = "th_que th ! k"
  let ?tl = "if pl_tail ?que = Some a then None else pl_tail ?que"
  let ?sc = "sc\<lparr>sc_cursize := sc_cursize sc - 1\<rparr>"
  let ?n = "n\<lparr>jb_next := th_freejobs th, jb_fn := None, jb_sch := None\<rparr>"
  let ?w1 = "set_sch s ?sc (set_thr t (th\<lparr>th_freejobs := Some a, th_jobfreed := th_jobfreed th + 1\<rparr>) (set_job a ?n w))"
  have del: "zcrt_s_job_delete_has_mutex t a w = Inr ?w1"
    using n th(1) by (simp add: zcrt_s_job_delete_has_mutex_def Let_def)
  have tk: "tls ! k = pl_tail ?que" using th(4) kl by auto
  show ?thesis
  proof (cases ks rule: rev_cases)
    case Nil
    let ?q = "?que\<lparr>pl_jobs := jb_next n, pl_tail := ?tl\<rparr>"
    let ?th = "th\<lparr>th_freejobs := Some a, th_jobfreed := th_jobfreed th + 1, th_que := (th_que th)[k := ?q]\<rparr>"
    let ?w = "set_thr t ?th ?w1"
    have out: "chains jb_next (sx_job w) (th_freejobs th # map pl_jobs ((th_que th)[k := ?q])) (fs # qs[k := ys])"
      "a \<notin> set (concat (fs # qs[k := ys]))"
      using jb.chains_out_front [OF th(3) kl(3), of a ys n] q n(1) Nil by (simp_all add: map_update)
    have "remove_job t k a prev (jb_next n) w = Inr (if ks = [] then jb_next n else prev, ?w)"
      using del prev Nil by (auto simp: remove_job_def Let_def set_thr_def set_sch_def)
    moreover have "sch_at t ?w (a # fs) (qs[k := ks @ ys]) (tls[k := if tls ! k = Some a then None else tls ! k])"
      unfolding sch_at_def using chains_push [OF out, of ?n] th(2,4) Nil tk by (intro exI [of _ ?th]) (auto simp: map_update)
    moreover have "queues ?w (qs[k := ks @ ys]) = queues w (qs[k := ks @ ys])"
      using queues_upd [of a "qs[k := ys]" ?n w] out(2) Nil by (simp add: queues_def)
    moreover have "map_option (jb_set_next None) (sx_job ?w b) = map_option (jb_set_next None) (sx_job w b)"
      if "b \<in> set (ks @ ys)" for b
      using that d Nil by auto
    ultimately show ?thesis using that [of ?w] th(1) by simp
  next
    case (snoc zs l)
    obtain ln where ln: "sx_job w l = Some ln" using chain_dom [OF ch, of l] snoc by auto
    have al: "a \<noteq> l" using d snoc by auto
    let ?q = "?que\<lparr>pl_tail := ?tl\<rparr>"
    let ?th = "th\<lparr>th_freejobs := Some a, th_jobfreed := th_jobfreed th + 1, th_que := (th_que th)[k := ?q]\<rparr>"
    let ?w = "set_thr t ?th (set_job l (jb_set_next (jb_next n) ln) ?w1)"
    have upd: "(map pl_jobs (th_que th))[k := pl_jobs ?que] = map pl_jobs (th_que th)"
      using kl by (metis list_update_id nth_map)
    have out: "chains jb_next ((sx_job w)(l \<mapsto> jb_set_next (jb_next n) ln))
        (th_freejobs th # map pl_jobs ((th_que th)[k := ?q])) (fs # qs[k := ks @ ys])"
      "a \<notin> set (concat (fs # qs[k := ks @ ys]))"
      using jb.chains_out_after [OF th(3) kl(3), of zs l a ys ln n] q n(1) ln snoc upd by (simp_all add: map_update)
    have heap: "sx_job ?w = (sx_job w)(l \<mapsto> jb_set_next (jb_next n) ln, a \<mapsto> ?n)"
      using al by (simp add: fun_upd_twist)
    have "remove_job t k a prev (jb_next n) w = Inr (if ks = [] then jb_next n else prev, ?w)"
      using del prev snoc al ln by (auto simp: remove_job_def Let_def set_thr_def set_sch_def set_job_def jb_set_next_def)
    moreover have "sch_at t ?w (a # fs) (qs[k := ks @ ys]) (tls[k := if tls ! k = Some a then None else tls ! k])"
      unfolding sch_at_def heap using chains_push [OF out, of ?n] th(2,4) tk by (intro exI [of _ ?th]) (auto simp: map_update)
    moreover have "queues ?w (qs[k := ks @ ys]) = queues w (qs[k := ks @ ys])"
    proof -
      have "contents_of jb_set_next ((sx_job w)(l \<mapsto> jb_set_next (jb_next n) ln)) = contents_of jb_set_next (sx_job w)"
        by (rule ext, rule jb.contents_of_relink) (rule ln)
      moreover have "\<forall>x \<in> set (qs[k := ks @ ys]). a \<notin> set x" using out(2) by simp
      ultimately show ?thesis unfolding queues_def heap by (simp add: jb.contents_of_upd)
    qed
    moreover have "map_option (jb_set_next None) (sx_job ?w b) = map_option (jb_set_next None) (sx_job w b)"
      if "b \<in> set (ks @ ys)" for b
      using that d ln by (auto simp: heap jb_set_next_def)
    ultimately show ?thesis using that [of ?w] th(1) by simp
  qed
qed


lemma jb_sch_set [simp]: "jb_sch (jb_set_next q n) = jb_sch n"
  by (simp add: jb_set_next_def)

definition head_of :: "addr list \<Rightarrow> addr option" where
  "head_of as = (case as of [] \<Rightarrow> None | a # _ \<Rightarrow> Some a)"

lemma head_of_simps [simp]: "head_of [] = None" "head_of (a # as) = Some a"
  by (simp_all add: head_of_def)

lemma sch_atE:
  assumes "sch_at t w fs qs tls" "k < EZCRTSchPri_num"
  obtains p where "chain jb_next (sx_job w) p (qs ! k) None" "k < length qs" "k < length tls" "length qs = EZCRTSchPri_num"
proof -
  obtain th where th: "length (th_que th) = EZCRTSchPri_num" "map pl_tail (th_que th) = tls"
    "sx_thr w t = Some th" "chains jb_next (sx_job w) (th_freejobs th # map pl_jobs (th_que th)) (fs # qs)"
    using assms(1) unfolding sch_at_def by blast
  have "length tls = EZCRTSchPri_num" using arg_cong [OF th(2), of length] th(1) by simp
  then show ?thesis using that chainsD(3) [OF th(4), of "Suc k"] chainsD(1) [OF th(4)] th(1) assms(2) by simp
qed

lemma queues_nth: "k < length qs \<Longrightarrow> queues w qs ! k = contents_of jb_set_next (sx_job w) (qs ! k)"
  by (simp add: queues_def)

lemma held_0: "held s js = 0 \<longleftrightarrow> (\<forall>n \<in> set js. jb_sch n \<noteq> Some s)"
  by (induction js) auto

lemma contents_sch: "(\<forall>n \<in> set (contents_of jb_set_next h as). jb_sch n \<noteq> Some s) \<longleftrightarrow> (\<forall>a \<in> set as. jb_sch (the (h a)) \<noteq> Some s)"
  by (simp add: contents_of_def)

text \<open>The whole loop: \<^verbatim>\<open>ks\<close> has been kept, \<^verbatim>\<open>todo\<close> is still to come.\<close>

lemma remove_jobs_done:
  assumes at: "sch_at t w fs qs tls" and k: "k < EZCRTSchPri_num" and q: "qs ! k = as"
    and none: "\<forall>a \<in> set as. jb_sch (the (sx_job w a)) \<noteq> Some s"
    and sc: "sx_sch w s = Some sc" "unat (sc_cursize sc) = held s (queues w qs ! k)"
  shows "sch_at t w fs (qs[k := as]) (tls[k := tls ! k])"
    "queues w (qs[k := as]) = (queues w qs)[k := filter (\<lambda>n. jb_sch n \<noteq> Some s) (queues w qs ! k)]"
    "sx_sch w = (sx_sch w)(s \<mapsto> sc\<lparr>sc_cursize := 0\<rparr>)"
proof -
  obtain p where kl: "k < length qs" "k < length tls" using sch_atE [OF at k] by metis
  have ns: "\<forall>n \<in> set (queues w qs ! k). jb_sch n \<noteq> Some s"
    using none q kl by (simp add: queues_nth contents_sch)
  then have f: "filter (\<lambda>n. jb_sch n \<noteq> Some s) (queues w qs ! k) = queues w qs ! k" by simp
  have "unat (sc_cursize sc) = 0" using ns sc(2) held_0 by metis
  then have "sc\<lparr>sc_cursize := 0\<rparr> = sc" by (simp add: unat_eq_0)
  then show "sx_sch w = (sx_sch w)(s \<mapsto> sc\<lparr>sc_cursize := 0\<rparr>)" using sc(1) by (simp add: fun_upd_idem)
  show "sch_at t w fs (qs[k := as]) (tls[k := tls ! k])" using at q by (metis list_update_id)
  show "queues w (qs[k := as]) = (queues w qs)[k := filter (\<lambda>n. jb_sch n \<noteq> Some s) (queues w qs ! k)]"
    unfolding f using q by (metis list_update_id)
qed

lemma remove_jobs_at:
  assumes "sch_at t w fs qs tls" and k: "k < EZCRTSchPri_num" and "qs ! k = ks @ todo"
    and "\<forall>a \<in> set ks. jb_sch (the (sx_job w a)) \<noteq> Some s"
    and "sx_sch w s = Some sc" and "unat (sc_cursize sc) = held s (queues w qs ! k)"
    and "todo \<noteq> [] \<Longrightarrow> tls ! k = Some (last todo)"
    and "prev = (if ks = [] then head_of todo else Some (last ks))"
  shows "\<exists>w' fs' as'. remove_jobs t s k (head_of todo) prev w = Some (Inr w') \<and>
    sch_at t w' fs' (qs[k := as']) (tls[k := if todo \<noteq> [] \<and> jb_sch (the (sx_job w (last todo))) = Some s then None else tls ! k]) \<and>
    queues w' (qs[k := as']) = (queues w qs)[k := filter (\<lambda>n. jb_sch n \<noteq> Some s) (queues w qs ! k)] \<and>
    (todo = [] \<longrightarrow> as' = ks) \<and>
    (todo \<noteq> [] \<and> jb_sch (the (sx_job w (last todo))) \<noteq> Some s \<longrightarrow> as' \<noteq> [] \<and> last as' = last todo) \<and>
    sx_sch w' = (sx_sch w)(s \<mapsto> sc\<lparr>sc_cursize := 0\<rparr>) \<and>
    map_option th_sch_list (sx_thr w' t) = map_option th_sch_list (sx_thr w t)"
  using assms(1,3-)
proof (induction todo arbitrary: w fs qs tls ks sc prev)
  case Nil
  have "qs ! k = ks" using Nil(2) by simp
  note d = remove_jobs_done [OF Nil(1) k this Nil(3-5)]
  have "remove_jobs t s k None prev w = Some (Inr w)" by (subst remove_jobs.simps) simp
  then show ?case using d by (intro exI [of _ w] exI [of _ fs] exI [of _ ks]) simp
next
  case (Cons a ys)
  note IH = Cons(1) and at = Cons(2) and q = Cons(3) and ks = Cons(4) and sc = Cons(5,6) and tl = Cons(7) and prev = Cons(8)
  obtain p where ch: "chain jb_next (sx_job w) p (qs ! k) None" and kl: "k < length qs" "k < length tls"
    using sch_atE [OF at k] by metis
  obtain n where n: "sx_job w a = Some n" using chain_dom [OF ch, of a] q by auto
  have d: "distinct (ks @ a # ys)" using chain_distinct [OF ch] q by simp
  have nxt: "jb_next n = head_of ys" using ch q n by (cases ys) (auto simp: chain_append)
  consider "sc_cursize sc = 0" | "sc_cursize sc \<noteq> 0" "jb_sch n = Some s" | "sc_cursize sc \<noteq> 0" "jb_sch n \<noteq> Some s" by blast
  then show ?case
  proof cases
    case 1
    then have "held s (queues w qs ! k) = 0" using sc(2) by simp
    then have none: "\<forall>b \<in> set (ks @ a # ys). jb_sch (the (sx_job w b)) \<noteq> Some s"
      using q kl by (auto simp: held_0 queues_nth contents_sch split: if_splits)
    note dn = remove_jobs_done [OF at k q none sc]
    have "remove_jobs t s k (Some a) prev w = Some (Inr w)" using sc(1) 1 by (subst remove_jobs.simps) simp
    moreover have "jb_sch (the (sx_job w (last (a # ys)))) \<noteq> Some s" using none last_in_set [of "a # ys"] by fastforce
    ultimately show ?thesis using dn by (intro exI [of _ w] exI [of _ fs] exI [of _ "ks @ a # ys"]) simp
  next
    case 2
    let ?sc = "sc\<lparr>sc_cursize := sc_cursize sc - 1\<rparr>" and ?qs = "qs[k := ks @ ys]"
      and ?tls = "tls[k := if tls ! k = Some a then None else tls ! k]"
    have prev': "prev = (if ks = [] then Some a else Some (last ks))" using prev by simp
    obtain w1 where w1: "remove_job t k a prev (jb_next n) w = Inr (if ks = [] then jb_next n else prev, w1)"
      "sch_at t w1 (a # fs) ?qs ?tls" "queues w1 ?qs = queues w ?qs" "sx_sch w1 = (sx_sch w)(s \<mapsto> ?sc)"
      "\<And>b. b \<in> set (ks @ ys) \<Longrightarrow> map_option (jb_set_next None) (sx_job w1 b) = map_option (jb_set_next None) (sx_job w b)"
      "map_option th_sch_list (sx_thr w1 t) = map_option th_sch_list (sx_thr w t)"
      using remove_job_at [OF at k q n 2(2) sc(1) prev'] by metis
    have sch1: "jb_sch (the (sx_job w1 b)) = jb_sch (the (sx_job w b))" if "b \<in> set (ks @ ys)" for b
    proof -
      have "b \<in> set (qs ! k)" using that q by auto
      then obtain m where m: "sx_job w b = Some m" using chain_dom [OF ch] by metis
      then show ?thesis using arg_cong [OF w1(5) [OF that], of "\<lambda>x. jb_sch (the x)"] by (cases "sx_job w1 b") auto
    qed
    have cont: "queues w qs ! k = contents_of jb_set_next (sx_job w) (ks @ a # ys)"
      "queues w1 ?qs ! k = contents_of jb_set_next (sx_job w) (ks @ ys)"
      using kl q w1(3) by (simp_all add: queues_nth)
    have "unat (sc_cursize sc - 1) = unat (sc_cursize sc) - 1" using 2(1) by (simp add: unat_minus_one)
    then have cur: "unat (sc_cursize ?sc) = held s (queues w1 ?qs ! k)" using cont sc(2) 2(2) n by simp
    have ks1: "\<forall>b \<in> set ks. jb_sch (the (sx_job w1 b)) \<noteq> Some s" using ks sch1 by simp
    have tk: "tls ! k = Some (last (a # ys))" using tl by simp
    have tl1: "?tls ! k = (if ys = [] then None else tls ! k)" using tk d kl by (auto dest: last_in_set)
    then have "ys \<noteq> [] \<Longrightarrow> ?tls ! k = Some (last ys)" using tk by simp
    let ?p = "if ks = [] then head_of ys else Some (last ks)"
    have p: "(if ks = [] then jb_next n else prev) = ?p" using nxt prev' by simp
    have q1: "?qs ! k = ks @ ys" and sc1: "sx_sch w1 s = Some ?sc" using kl w1(4) by simp_all
    from IH [OF w1(2) q1 ks1 sc1 cur \<open>ys \<noteq> [] \<Longrightarrow> ?tls ! k = Some (last ys)\<close> refl]
    obtain w' fs' as' where r: "remove_jobs t s k (head_of ys) ?p w1 = Some (Inr w')"
      "sch_at t w' fs' (?qs[k := as']) (?tls[k := if ys \<noteq> [] \<and> jb_sch (the (sx_job w1 (last ys))) = Some s then None else ?tls ! k])"
      "queues w' (?qs[k := as']) = (queues w1 ?qs)[k := filter (\<lambda>n. jb_sch n \<noteq> Some s) (queues w1 ?qs ! k)]"
      "ys = [] \<longrightarrow> as' = ks" "ys \<noteq> [] \<and> jb_sch (the (sx_job w1 (last ys))) \<noteq> Some s \<longrightarrow> as' \<noteq> [] \<and> last as' = last ys"
      "sx_sch w' = (sx_sch w1)(s \<mapsto> ?sc\<lparr>sc_cursize := 0\<rparr>)"
      "map_option th_sch_list (sx_thr w' t) = map_option th_sch_list (sx_thr w1 t)"
      by blast
    have step: "remove_jobs t s k (Some a) prev w = remove_jobs t s k (head_of ys) ?p w1"
      using sc(1) 2 n w1(1) [unfolded p] nxt by (subst remove_jobs.simps) simp
    have last1: "ys \<noteq> [] \<Longrightarrow> jb_sch (the (sx_job w1 (last ys))) = jb_sch (the (sx_job w (last ys)))" using sch1 by simp
    have tls': "?tls[k := if ys \<noteq> [] \<and> jb_sch (the (sx_job w1 (last ys))) = Some s then None else ?tls ! k] =
        tls[k := if jb_sch (the (sx_job w (last (a # ys)))) = Some s then None else tls ! k]"
      using tl1 last1 n 2(2) by simp
    have qs': "queues w' (qs[k := as']) = (queues w qs)[k := filter (\<lambda>n. jb_sch n \<noteq> Some s) (queues w qs ! k)]"
    proof -
      have "queues w' (?qs[k := as']) =
          ((queues w qs)[k := contents_of jb_set_next (sx_job w) (ks @ ys)])[k := filter (\<lambda>n. jb_sch n \<noteq> Some s) (queues w qs ! k)]"
        using r(3) [unfolded cont(2) w1(3)] n 2(2) kl unfolding cont(1) by (simp add: queues_def map_update)
      then show ?thesis by simp
    qed
    have sch': "sx_sch w' = (sx_sch w)(s \<mapsto> sc\<lparr>sc_cursize := 0\<rparr>)" using r(6) w1(4) by simp
    have at': "sch_at t w' fs' (qs[k := as']) (tls[k := if jb_sch (the (sx_job w (last (a # ys)))) = Some s then None else tls ! k])"
      using r(2) unfolding tls' by simp
    have las: "jb_sch (the (sx_job w (last (a # ys)))) \<noteq> Some s \<Longrightarrow> as' \<noteq> [] \<and> last as' = last (a # ys)"
      using r(5) last1 n 2(2) by auto
    show ?thesis using step r(1) at' qs' las sch' r(7) w1(6)
      by (intro exI [of _ w'] exI [of _ fs'] exI [of _ as'] conjI) (simp_all del: last.simps)
  next
    case 3
    have q1: "qs ! k = (ks @ [a]) @ ys" using q by simp
    have ks1: "\<forall>b \<in> set (ks @ [a]). jb_sch (the (sx_job w b)) \<noteq> Some s" using ks n 3(2) by simp
    have "ys \<noteq> [] \<Longrightarrow> tls ! k = Some (last ys)" using tl by simp
    have p: "Some a = (if ks @ [a] = [] then head_of ys else Some (last (ks @ [a])))" by simp
    from IH [OF at q1 ks1 sc \<open>ys \<noteq> [] \<Longrightarrow> tls ! k = Some (last ys)\<close> p]
    obtain w' fs' as' where r: "remove_jobs t s k (head_of ys) (Some a) w = Some (Inr w')"
      "sch_at t w' fs' (qs[k := as']) (tls[k := if ys \<noteq> [] \<and> jb_sch (the (sx_job w (last ys))) = Some s then None else tls ! k])"
      "queues w' (qs[k := as']) = (queues w qs)[k := filter (\<lambda>n. jb_sch n \<noteq> Some s) (queues w qs ! k)]"
      "ys = [] \<longrightarrow> as' = ks @ [a]" "ys \<noteq> [] \<and> jb_sch (the (sx_job w (last ys))) \<noteq> Some s \<longrightarrow> as' \<noteq> [] \<and> last as' = last ys"
      "sx_sch w' = (sx_sch w)(s \<mapsto> sc\<lparr>sc_cursize := 0\<rparr>)"
      "map_option th_sch_list (sx_thr w' t) = map_option th_sch_list (sx_thr w t)" by blast
    have step: "remove_jobs t s k (Some a) prev w = remove_jobs t s k (head_of ys) (Some a) w"
      using sc(1) 3 n nxt by (subst remove_jobs.simps) simp
    have ls: "(ys \<noteq> [] \<and> jb_sch (the (sx_job w (last ys))) = Some s) \<longleftrightarrow> jb_sch (the (sx_job w (last (a # ys)))) = Some s"
      using n 3(2) by simp
    have las: "jb_sch (the (sx_job w (last (a # ys)))) \<noteq> Some s \<Longrightarrow> as' \<noteq> [] \<and> last as' = last (a # ys)"
      using r(4,5) by (cases "ys = []") auto
    show ?thesis using step r(1-3,6,7) las unfolding ls
      by - (rule exI [of _ w'], rule exI [of _ fs'], rule exI [of _ as'], simp del: last.simps)
  qed
qed

lemma find_sch_ret:
  assumes "chain sc_next h p ss None" "p \<noteq> Some s"
  shows "\<exists>r. find_sch h s p = Some (Inr r) \<and> (case r of None \<Rightarrow> s \<notin> set ss | Some q \<Rightarrow> \<exists>xs ys. ss = xs @ q # s # ys)"
  using assms
proof (induction ss arbitrary: p)
  case Nil
  then show ?case by (subst find_sch.simps) simp
next
  case (Cons a ss)
  then obtain n where n: "p = Some a" "h a = Some n" "chain sc_next h (sc_next n) ss None" by auto
  show ?case
  proof (cases "sc_next n = Some s")
    case True
    then obtain ys where "ss = s # ys" using n(3) by (cases ss) auto
    then show ?thesis using n True by (subst find_sch.simps) (auto intro: exI [of _ "[]"])
  next
    case False
    obtain r where r: "find_sch h s (sc_next n) = Some (Inr r)"
      "case r of None \<Rightarrow> s \<notin> set ss | Some q \<Rightarrow> \<exists>xs ys. ss = xs @ q # s # ys" using Cons.IH [OF n(3) False] by blast
    then have "case r of None \<Rightarrow> s \<notin> set (a # ss) | Some q \<Rightarrow> \<exists>xs ys. a # ss = xs @ q # s # ys"
      using Cons.prems(2) n(1) by (auto split: option.splits) (metis append_Cons)
    then show ?thesis using n False r(1) by (subst find_sch.simps) auto
  qed
qed

text \<open>A schedule but for its place in the thread's list of schedules.\<close>

definition sc_view :: "zSchedule \<Rightarrow> zSchedule" where
  "sc_view sc = sc\<lparr>sc_next := None\<rparr>"

lemma sc_view_eq:
  assumes "map_option sc_view x = map_option sc_view (Some sc)"
  obtains sc' where "x = Some sc'" "sc_thr sc' = sc_thr sc" "sc_pri sc' = sc_pri sc" "sc_cursize sc' = sc_cursize sc"
    "sc_maxsize sc' = sc_maxsize sc" "sc_type sc' = sc_type sc"
proof -
  obtain sc' where x: "x = Some sc'" "sc_view sc' = sc_view sc" using assms by (cases x) auto
  have "f (sc_view sc') = f (sc_view sc)" for f :: "zSchedule \<Rightarrow> 'x" using x(2) by simp
  from this [of sc_thr] this [of sc_pri] this [of sc_cursize] this [of sc_maxsize] this [of sc_type]
  show ?thesis using that [OF x(1)] by (simp add: sc_view_def)
qed

lemma sch_at_thr:
  assumes "sch_at t w fs qs tls" "sx_thr w t = Some th" "th_que th' = th_que th" "th_freejobs th' = th_freejobs th"
    and "sx_thr w' t = Some th'" "sx_job w' = sx_job w"
  shows "sch_at t w' fs qs tls"
  using assms by (auto simp: sch_at_def)

lemma sch_at_cong: "sx_thr w' = sx_thr w \<Longrightarrow> sx_job w' = sx_job w \<Longrightarrow> sch_at t w' fs qs tls = sch_at t w fs qs tls"
  by (simp add: sch_at_def)

definition sch_chain :: "addr \<Rightarrow> zSchWorld \<Rightarrow> addr list \<Rightarrow> bool" where
  "sch_chain t w ss \<longleftrightarrow> (\<exists>th. sx_thr w t = Some th \<and> chain sc_next (sx_sch w) (th_sch_list th) ss None)"

lemma sch_chain_thr:
  "sch_chain t w ss \<Longrightarrow> sx_thr w t = Some th \<Longrightarrow> sx_thr w' t = Some th' \<Longrightarrow> th_sch_list th' = th_sch_list th \<Longrightarrow>
    sx_sch w' = sx_sch w \<Longrightarrow> sch_chain t w' ss"
  by (simp add: sch_chain_def)

lemma remove_sch_unlink:
  assumes at: "sch_at t w fs qs tls" and ch: "sch_chain t w ss" and s: "sx_sch w s = Some sc"
  obtains w' where "(rbind (deref (sx_thr w t)) (\<lambda>th1. rbind (deref (sx_sch w s)) (\<lambda>sc1.
     if th_sch_list th1 = Some s then Inr (set_thr t (th1\<lparr>th_sch_list := sc_next sc1\<rparr>) w)
     else rbind (run (find_sch (sx_sch w) s (th_sch_list th1))) (\<lambda>prev. case prev of
       None \<Rightarrow> Inr w
     | Some p \<Rightarrow> rbind (deref (sx_sch w p)) (\<lambda>pn. Inr (set_sch p (pn\<lparr>sc_next := sc_next sc1\<rparr>) w)))))) = Inr w'"
    "sch_at t w' fs qs tls" "sx_job w' = sx_job w" "\<And>r. map_option sc_view (sx_sch w' r) = map_option sc_view (sx_sch w r)"
    "sch_chain t (w'\<lparr>sx_sch := (sx_sch w')(s := None)\<rparr>) (filter (\<lambda>r. r \<noteq> s) ss)"
proof -
  obtain th where th: "sx_thr w t = Some th" "chain sc_next (sx_sch w) (th_sch_list th) ss None"
    using ch by (auto simp: sch_chain_def)
  have d: "distinct ss" by (rule chain_distinct [OF th(2)])
  show ?thesis
  proof (cases "th_sch_list th = Some s")
    case True
    let ?th = "th\<lparr>th_sch_list := sc_next sc\<rparr>"
    let ?w = "set_thr t ?th w"
    have "sch_at t ?w fs qs tls" by (rule sch_at_thr [OF at th(1), of ?th]) simp_all
    moreover obtain ys where ys: "ss = s # ys" "chain sc_next (sx_sch w) (sc_next sc) ys None"
      using th(2) True s by (cases ss) auto
    then have "filter (\<lambda>r. r \<noteq> s) ss = ys" "s \<notin> set ys" using d by (auto simp: filter_id_conv)
    then have "sch_chain t (?w\<lparr>sx_sch := (sx_sch ?w)(s := None)\<rparr>) (filter (\<lambda>r. r \<noteq> s) ss)"
      using ys(2) by (simp add: sch_chain_def chain_upd)
    ultimately show ?thesis using that [of ?w] th(1) s True by simp
  next
    case False
    obtain r where r: "find_sch (sx_sch w) s (th_sch_list th) = Some (Inr r)"
      "case r of None \<Rightarrow> s \<notin> set ss | Some q \<Rightarrow> \<exists>xs ys. ss = xs @ q # s # ys"
      using find_sch_ret [OF th(2) False] by blast
    show ?thesis
    proof (cases r)
      case None
      then have n: "s \<notin> set ss" "filter (\<lambda>r. r \<noteq> s) ss = ss" using r(2) by (auto simp: filter_id_conv)
      have "sch_chain t (w\<lparr>sx_sch := (sx_sch w)(s := None)\<rparr>) (filter (\<lambda>r. r \<noteq> s) ss)"
        unfolding n(2) using th n(1) by (simp add: sch_chain_def chain_upd)
      then show ?thesis using that [of w] th(1) s False r(1) at None by simp
    next
      case (Some p)
      then obtain xs ys where ss: "ss = xs @ p # s # ys" using r(2) by auto
      then obtain pn where pn: "sx_sch w p = Some pn" using chain_dom [OF th(2), of p] by auto
      let ?w = "set_sch p (pn\<lparr>sc_next := sc_next sc\<rparr>) w"
      have "sch_at t ?w fs qs tls" using at by (subst sch_at_cong [of _ w]) simp_all
      moreover have "chain sc_next (sx_sch w) (sc_next sc) ys None" using th(2) s unfolding ss by (auto simp: chain_append)
      then have "chain sc_next ((sx_sch w)(p \<mapsto> pn\<lparr>sc_next := sc_next sc\<rparr>)) (th_sch_list th) (xs @ [p] @ ys) None"
        using th(2) unfolding ss by (intro chain_splice [where bs = "[s]" and q = "sc_next sc"]) simp_all
      moreover have "filter (\<lambda>r. r \<noteq> s) ss = xs @ [p] @ ys" "s \<notin> set (xs @ [p] @ ys)"
      proof -
        have "filter (\<lambda>r. r \<noteq> s) xs = xs" "filter (\<lambda>r. r \<noteq> s) ys = ys"
          by (rule filter_True, use d in \<open>auto simp: ss\<close>)+
        then show "filter (\<lambda>r. r \<noteq> s) ss = xs @ [p] @ ys" "s \<notin> set (xs @ [p] @ ys)" using d unfolding ss by auto
      qed
      ultimately show ?thesis using that [of ?w] th(1) s False r(1) Some pn by (simp add: sc_view_def sch_chain_def chain_upd)
    qed
  qed
qed

text \<open>The lists after a schedule is removed: its jobs are gone, and the tail pointer of the queue is null
  if the last job was one of them.\<close>

lemma remove_sch_ok:
  assumes wf: "sch_wf t w fs qs" and ch: "sch_chain t w ss"
    and sc: "sx_sch w s = Some sc" "sc_thr sc = Some t" "unat (sc_pri sc) = k" "k < EZCRTSchPri_num"
  obtains w' fs' as' where "zcrt_s_thr_remove_sch t s w = Inr w'"
    "sch_at t w' fs' (qs[k := as']) ((map last_of (qs[k := as']))[k :=
      if queues w qs ! k \<noteq> [] \<and> jb_sch (last (queues w qs ! k)) = Some s then None else last_of as'])"
    "queues w' (qs[k := as']) = (queues w qs)[k := filter (\<lambda>n. jb_sch n \<noteq> Some s) (queues w qs ! k)]"
    "\<And>r. map_option sc_view (sx_sch w' r) = map_option sc_view (((sx_sch w)(s \<mapsto> sc\<lparr>sc_cursize := 0\<rparr>)) r)"
    "sch_chain t (w'\<lparr>sx_sch := (sx_sch w')(s := None)\<rparr>) (filter (\<lambda>r. r \<noteq> s) ss)"
proof -
  have l: "sch_lists t w fs qs" and j: "sch_jobs t (sx_sch w) (queues w qs)" using wf by (simp_all add: sch_wf_def)
  have at: "sch_at t w fs qs (map last_of qs)" using l by (simp add: sch_lists_at)
  obtain th where th: "sx_thr w t = Some th" "length (th_que th) = EZCRTSchPri_num" "length qs = EZCRTSchPri_num"
    "chain jb_next (sx_job w) (pl_jobs (th_que th ! k)) (qs ! k) None" using sch_listsE [OF l] sc(4) by metis
  have kl: "k < length qs" "k < length (th_que th)" using th sc(4) by simp_all
  have hd: "pl_jobs (th_que th ! k) = head_of (qs ! k)" using chain_head [OF th(4)] by (simp add: head_of_def)
  have cur: "unat (sc_cursize sc) = held s (queues w qs ! k)"
  proof -
    have "sc_cursize sc = of_nat (held s (queues w qs ! k))" "held s (queues w qs ! k) \<le> unat (sc_maxsize sc)" "unat (sc_maxsize sc) < 65536"
      using j sc unfolding sch_jobs_def by blast+
    then show ?thesis by (simp add: unat_of_nat)
  qed
  have q0: "qs ! k = [] @ qs ! k" by simp
  have tl: "qs ! k \<noteq> [] \<Longrightarrow> map last_of qs ! k = Some (last (qs ! k))" using kl by (simp add: last_of_def)
  have p0: "head_of (qs ! k) = (if [] = ([] :: addr list) then head_of (qs ! k) else Some (last []))" by simp
  have ls: "qs ! k \<noteq> [] \<Longrightarrow> jb_sch (the (sx_job w (last (qs ! k)))) = jb_sch (last (queues w qs ! k))"
    using kl by (simp add: queues_nth contents_of_def last_map)
  have qe: "queues w qs ! k = [] \<longleftrightarrow> qs ! k = []" using kl by (simp add: queues_nth contents_of_def)
  have "\<exists>w1 fs' as'. (if 0 < sint (sc_cursize sc)
       then (if unat (sc_pri sc) \<ge> length (th_que th) then Inl OutOfBounds
             else let job = pl_jobs (th_que th ! unat (sc_pri sc)) in run (remove_jobs t s (unat (sc_pri sc)) job job w))
       else Inr w) = Inr w1 \<and>
     sch_at t w1 fs' (qs[k := as']) ((map last_of (qs[k := as']))[k :=
      if queues w qs ! k \<noteq> [] \<and> jb_sch (last (queues w qs ! k)) = Some s then None else last_of as']) \<and>
     queues w1 (qs[k := as']) = (queues w qs)[k := filter (\<lambda>n. jb_sch n \<noteq> Some s) (queues w qs ! k)] \<and>
     sx_sch w1 = (sx_sch w)(s \<mapsto> sc\<lparr>sc_cursize := 0\<rparr>) \<and> sch_chain t w1 ss"
  proof (cases "0 < sint (sc_cursize sc)")
    case True
    obtain w1 fs' as' where r: "remove_jobs t s k (head_of (qs ! k)) (head_of (qs ! k)) w = Some (Inr w1)"
      "sch_at t w1 fs' (qs[k := as']) ((map last_of qs)[k := if qs ! k \<noteq> [] \<and> jb_sch (the (sx_job w (last (qs ! k)))) = Some s then None else map last_of qs ! k])"
      "queues w1 (qs[k := as']) = (queues w qs)[k := filter (\<lambda>n. jb_sch n \<noteq> Some s) (queues w qs ! k)]"
      "qs ! k = [] \<longrightarrow> as' = []"
      "qs ! k \<noteq> [] \<and> jb_sch (the (sx_job w (last (qs ! k)))) \<noteq> Some s \<longrightarrow> as' \<noteq> [] \<and> last as' = last (qs ! k)"
      "sx_sch w1 = (sx_sch w)(s \<mapsto> sc\<lparr>sc_cursize := 0\<rparr>)"
      "map_option th_sch_list (sx_thr w1 t) = map_option th_sch_list (sx_thr w t)"
      using remove_jobs_at [OF at sc(4) q0 _ sc(1) cur tl p0] by auto
    have tls: "(map last_of qs)[k := if qs ! k \<noteq> [] \<and> jb_sch (the (sx_job w (last (qs ! k)))) = Some s then None else map last_of qs ! k] =
        (map last_of (qs[k := as']))[k := if queues w qs ! k \<noteq> [] \<and> jb_sch (last (queues w qs ! k)) = Some s then None else last_of as']"
      using r(4,5) ls qe kl by (cases "qs ! k = []") (auto simp: map_update last_of_def)
    obtain th1 where th1: "sx_thr w1 t = Some th1" "th_sch_list th1 = th_sch_list th"
      using r(7) th(1) by (cases "sx_thr w1 t") auto
    have "sch_chain t w1 ss"
      using ch th(1) th1 sc(1) r(6) by (auto simp: sch_chain_def chain_upd_same)
    then show ?thesis using r(1,3,6) r(2) [unfolded tls] True kl sc(3) hd
      by - (rule exI [of _ w1], rule exI [of _ fs'], rule exI [of _ as'], simp)
  next
    case False
    then have "held s (queues w qs ! k) = 0" using full_iff(2) [OF j sc] by simp
    then have none: "\<forall>n \<in> set (queues w qs ! k). jb_sch n \<noteq> Some s" by (simp add: held_0)
    then have none': "\<forall>a \<in> set (qs ! k). jb_sch (the (sx_job w a)) \<noteq> Some s"
      using kl by (simp add: queues_nth contents_sch)
    note d = remove_jobs_done [OF at sc(4) refl none' sc(1) cur]
    have no: "\<not> (queues w qs ! k \<noteq> [] \<and> jb_sch (last (queues w qs ! k)) = Some s)" using none last_in_set by blast
    have tls: "(map last_of (qs[k := qs ! k]))[k := if queues w qs ! k \<noteq> [] \<and> jb_sch (last (queues w qs ! k)) = Some s
        then None else last_of (qs ! k)] = map last_of qs"
      unfolding if_not_P [OF no] using kl by (simp add: list_update_same_conv)
    show ?thesis using False d(2,3) ch at
      by - (rule exI [of _ w], rule exI [of _ fs], rule exI [of _ "qs ! k"], unfold tls, simp)
  qed
  then obtain w1 fs' as' where w1: "(if 0 < sint (sc_cursize sc)
       then (if unat (sc_pri sc) \<ge> length (th_que th) then Inl OutOfBounds
             else let job = pl_jobs (th_que th ! unat (sc_pri sc)) in run (remove_jobs t s (unat (sc_pri sc)) job job w))
       else Inr w) = Inr w1"
     "sch_at t w1 fs' (qs[k := as']) ((map last_of (qs[k := as']))[k :=
      if queues w qs ! k \<noteq> [] \<and> jb_sch (last (queues w qs ! k)) = Some s then None else last_of as'])"
     "queues w1 (qs[k := as']) = (queues w qs)[k := filter (\<lambda>n. jb_sch n \<noteq> Some s) (queues w qs ! k)]"
     "sx_sch w1 = (sx_sch w)(s \<mapsto> sc\<lparr>sc_cursize := 0\<rparr>)" "sch_chain t w1 ss" by blast
  have s1: "sx_sch w1 s = Some (sc\<lparr>sc_cursize := 0\<rparr>)" using w1(4) by simp
  obtain w' where w': "(rbind (deref (sx_thr w1 t)) (\<lambda>th1. rbind (deref (sx_sch w1 s)) (\<lambda>sc1.
     if th_sch_list th1 = Some s then Inr (set_thr t (th1\<lparr>th_sch_list := sc_next sc1\<rparr>) w1)
     else rbind (run (find_sch (sx_sch w1) s (th_sch_list th1))) (\<lambda>prev. case prev of
       None \<Rightarrow> Inr w1
     | Some p \<Rightarrow> rbind (deref (sx_sch w1 p)) (\<lambda>pn. Inr (set_sch p (pn\<lparr>sc_next := sc_next sc1\<rparr>) w1)))))) = Inr w'"
    "sch_at t w' fs' (qs[k := as']) ((map last_of (qs[k := as']))[k :=
      if queues w qs ! k \<noteq> [] \<and> jb_sch (last (queues w qs ! k)) = Some s then None else last_of as'])"
    "sx_job w' = sx_job w1" "\<And>r. map_option sc_view (sx_sch w' r) = map_option sc_view (sx_sch w1 r)"
    "sch_chain t (w'\<lparr>sx_sch := (sx_sch w')(s := None)\<rparr>) (filter (\<lambda>r. r \<noteq> s) ss)"
    by (rule remove_sch_unlink [OF w1(2,5) s1]) blast
  have "zcrt_s_thr_remove_sch t s w = Inr w'"
    unfolding zcrt_s_thr_remove_sch_def th(1) sc(1) deref_simps rbind.simps w1(1) by (rule w'(1))
  then show ?thesis using that [of w' fs' as'] w'(2,4,5) w1(3,4) queues_cong [OF w'(3)] by simp
qed

lemma delete_ok:
  assumes wf: "sch_wf t w fs qs" and ch: "sch_chain t w ss"
    and sc: "sx_sch w s = Some sc" "sc_thr sc = Some t" "unat (sc_pri sc) = k" "k < EZCRTSchPri_num"
  obtains w' fs' as' th' where "zcrt_schedule_delete dec (Some s) w = Inr w'"
    "sch_at t w' fs' (qs[k := as']) ((map last_of (qs[k := as']))[k :=
      if queues w qs ! k \<noteq> [] \<and> jb_sch (last (queues w qs ! k)) = Some s then None else last_of as'])"
    "queues w' (qs[k := as']) = (queues w qs)[k := filter (\<lambda>n. jb_sch n \<noteq> Some s) (queues w qs ! k)]"
    "sx_sch w' s = None" "\<And>r. r \<noteq> s \<Longrightarrow> map_option sc_view (sx_sch w' r) = map_option sc_view (sx_sch w r)"
    "sx_thr w' t = Some th'" "sc_type sc = EZCRTSchType_selfThread \<Longrightarrow> \<forall>c. fst (dec c) = 0 \<Longrightarrow> \<not> th_run th'"
    "sch_chain t w' (filter (\<lambda>r. r \<noteq> s) ss)"
proof -
  obtain w1 fs' as' where w1: "zcrt_s_thr_remove_sch t s w = Inr w1"
    "sch_at t w1 fs' (qs[k := as']) ((map last_of (qs[k := as']))[k :=
      if queues w qs ! k \<noteq> [] \<and> jb_sch (last (queues w qs ! k)) = Some s then None else last_of as'])"
    "queues w1 (qs[k := as']) = (queues w qs)[k := filter (\<lambda>n. jb_sch n \<noteq> Some s) (queues w qs ! k)]"
    "\<And>r. map_option sc_view (sx_sch w1 r) = map_option sc_view (((sx_sch w)(s \<mapsto> sc\<lparr>sc_cursize := 0\<rparr>)) r)"
    "sch_chain t (w1\<lparr>sx_sch := (sx_sch w1)(s := None)\<rparr>) (filter (\<lambda>r. r \<noteq> s) ss)"
    using remove_sch_ok [OF wf ch sc] by metis
  obtain th where th: "sx_thr w1 t = Some th" using w1(2) by (auto simp: sch_at_def)
  let ?th1 = "th\<lparr>th_refCnt := snd (dec (th_refCnt th))\<rparr>"
  let ?th = "if sc_type sc = EZCRTSchType_selfThread \<and> fst (dec (th_refCnt th)) = 0 then ?th1\<lparr>th_run := False\<rparr> else ?th1"
  let ?w = "(set_thr t ?th w1)\<lparr>sx_sch := (sx_sch w1)(s := None)\<rparr>"
  have "zcrt_schedule_delete dec (Some s) w = Inr ?w"
    using sc w1(1) th by (simp add: zcrt_schedule_delete_def Let_def split_def)
  moreover have "sch_at t ?w fs' (qs[k := as']) ((map last_of (qs[k := as']))[k :=
      if queues w qs ! k \<noteq> [] \<and> jb_sch (last (queues w qs ! k)) = Some s then None else last_of as'])"
    by (rule sch_at_thr [OF w1(2) th, of ?th]) simp_all
  moreover have "queues ?w (qs[k := as']) = (queues w qs)[k := filter (\<lambda>n. jb_sch n \<noteq> Some s) (queues w qs ! k)]"
    using w1(3) by (simp add: queues_def)
  moreover have "sch_chain t ?w (filter (\<lambda>r. r \<noteq> s) ss)"
    by (rule sch_chain_thr [OF w1(5), of th _ ?th]) (simp_all add: th)
  ultimately show ?thesis using that [of ?w fs' as' ?th] w1(4) by simp
qed

lemma send_asserts:
  assumes at: "sch_at t w fs qs tls" and al: "can_new t w new" and k: "k < EZCRTSchPri_num" "qs ! k \<noteq> []" "tls ! k = None"
    and sc: "sx_sch w s = Some sc" "sc_thr sc = Some t" "unat (sc_pri sc) = k" "sint (sc_cursize sc) < sint (sc_maxsize sc)"
  shows "zcrt_schedule_sendjob new (Some s) (Some fn) p1 p2 w = Inl AssertFailed"
proof -
  obtain th where th: "sx_thr w t = Some th" "length (th_que th) = EZCRTSchPri_num"
    "chains jb_next (sx_job w) (th_freejobs th # map pl_jobs (th_que th)) (fs # qs)" "map pl_tail (th_que th) = tls"
    using at unfolding sch_at_def by blast
  have "chain jb_next (sx_job w) (pl_jobs (th_que th ! k)) (qs ! k) None"
    using chainsD(3) [OF th(3), of "Suc k"] th(2) k(1) by simp
  then have q: "pl_jobs (th_que th ! k) \<noteq> None" using k(2) by (cases "qs ! k") auto
  have tl: "pl_tail (th_que th ! k) = None" using arg_cong [OF th(4), of "\<lambda>xs. xs ! k"] th(2) k by simp
  have "\<exists>a th1 w1. zcrt_s_job_new new t fn w = Inr (Some a, w1) \<and> sx_thr w1 t = Some th1 \<and> th_que th1 = th_que th \<and>
      sx_sch w1 = sx_sch w \<and> (\<exists>n. sx_job w1 a = Some n)"
  proof (cases "th_freejobs th")
    case None
    then obtain a where "new = Some a" using al th(1) by (auto simp: can_new_def can_alloc_def)
    then show ?thesis using th(1) None by (simp add: zcrt_s_job_new_def Let_def)
  next
    case (Some a)
    then have "\<exists>n. sx_job w a = Some n" using chainsD(3) [OF th(3), of 0] by (cases fs) auto
    then show ?thesis using th(1) Some by (auto simp: zcrt_s_job_new_def Let_def)
  qed
  then obtain a th1 w1 n where w1: "zcrt_s_job_new new t fn w = Inr (Some a, w1)" "sx_thr w1 t = Some th1"
    "th_que th1 = th_que th" "sx_sch w1 = sx_sch w" "sx_job w1 a = Some n" by blast
  then show ?thesis
    using sc k(1) q tl th(2) by (auto simp: zcrt_schedule_sendjob_def zcrt_s_insert_job_def Let_def)
qed

section \<open>Every send and every take\<close>

lemma sendjob_cases:
  assumes wf: "sch_wf t w fs qs" and al: "can_new t w new" and sc: "sx_sch w s = Some sc" "sc_thr sc = Some t"
  shows "\<exists>e w' fs' qs'. zcrt_schedule_sendjob new (Some s) cb p1 p2 w = Inr (e, w') \<and> sch_wf t w' fs' qs' \<and>
    (e = EZCRTErr_success \<or> w' = w)"
proof (cases "cb \<noteq> None \<and> unat (sc_pri sc) < EZCRTSchPri_num")
  case False
  then show ?thesis using wf sc by (auto simp: zcrt_schedule_sendjob_def not_less split: option.splits)
next
  case True
  have j: "sch_jobs t (sx_sch w) (queues w qs)" using wf by (simp add: sch_wf_def)
  let ?k = "unat (sc_pri sc)"
  have le: "held s (queues w qs ! ?k) \<le> unat (sc_maxsize sc)" using j sc True unfolding sch_jobs_def by blast
  show ?thesis
  proof (cases "held s (queues w qs ! ?k) = unat (sc_maxsize sc)")
    case full: True
    then show ?thesis using full_iff(1) [OF j sc refl] True wf sc by (auto simp: zcrt_schedule_sendjob_def) blast
  next
    case False
    then obtain fn where "cb = Some fn" "held s (queues w qs ! ?k) < unat (sc_maxsize sc)" using le True by auto
    then show ?thesis using sendjob_ok [OF wf al sc refl] True by metis
  qed
qed

lemma sendjob_argn_cases:
  assumes wf: "sch_wf t w fs qs" and al: "can_new t w new" and sc: "sx_sch w s = Some sc" "sc_thr sc = Some t"
    and args: "length args = unat argn"
  shows "\<exists>e w' fs' qs'. zcrt_schedule_sendjob_argn new (Some s) cb argn args w = Inr (e, w') \<and> sch_wf t w' fs' qs' \<and>
    (e = EZCRTErr_success \<or> w' = w)"
proof (cases "cb \<noteq> None \<and> unat (sc_pri sc) < EZCRTSchPri_num \<and> argn \<noteq> 0 \<and> unat argn \<le> ZCRT_CB_MAX_ARGS")
  case False
  then show ?thesis using wf sc by (auto simp: zcrt_schedule_sendjob_argn_def not_less not_le split: option.splits)
next
  case True
  have j: "sch_jobs t (sx_sch w) (queues w qs)" using wf by (simp add: sch_wf_def)
  let ?k = "unat (sc_pri sc)"
  have le: "held s (queues w qs ! ?k) \<le> unat (sc_maxsize sc)" using j sc True unfolding sch_jobs_def by blast
  show ?thesis
  proof (cases "held s (queues w qs ! ?k) = unat (sc_maxsize sc)")
    case full: True
    then show ?thesis using full_iff(1) [OF j sc refl] True wf sc by (auto simp: zcrt_schedule_sendjob_argn_def) blast
  next
    case False
    then obtain fn where "cb = Some fn" "held s (queues w qs ! ?k) < unat (sc_maxsize sc)" using le True by auto
    then show ?thesis using sendjob_argn_ok [OF wf al sc refl] True args by metis
  qed
qed

lemma take_job_total:
  assumes wf: "sch_wf t w fs qs"
  shows "\<exists>r w' fs' qs'. take_job t w = Inr (r, w') \<and> sch_wf t w' fs' qs' \<and> (if concat (queues w qs) = [] then r = None \<and> w' = w else r \<noteq> None)"
proof (cases "concat (queues w qs) = []")
  case True
  have l: "sch_lists t w fs qs" using wf by (simp add: sch_wf_def)
  then have "length qs = EZCRTSchPri_num" using sch_listsE by metis
  then have "\<forall>i < EZCRTSchPri_num. qs ! i = []" using True by (auto simp: queues_def contents_of_def dest: nth_mem)
  then show ?thesis using take_job_none [OF l] wf True by (auto simp del: concat_eq_Nil_conv)
next
  case False
  then obtain k n ns where at: "k < length (queues w qs)" "\<forall>i < k. queues w qs ! i = []" "queues w qs ! k = n # ns"
    by (rule first_job)
  have "k < EZCRTSchPri_num" using at(1) wf by (simp add: sch_wf_def sch_jobs_def)
  then obtain w' fs' qs' where "take_job t w = Inr (Some (jb_fn n, jb_args n), w')" "sch_wf t w' fs' qs'"
    using take_job_wf [OF wf _ at(2,3)] by metis
  then show ?thesis using False by auto
qed

section \<open>Properties\<close>

text \<open>Sending to a schedule that is not full, with a node at hand, succeeds and puts the job, with its callback
  and two arguments, behind every job of the same priority; the other queues stay as they are.\<close>

theorem sendjob_spec:
  assumes "sch_wf t w fs qs" "can_new t w new" "sx_sch w s = Some sc" "sc_thr sc = Some t"
    and "unat (sc_pri sc) = k" "k < EZCRTSchPri_num" "held s (queues w qs ! k) < unat (sc_maxsize sc)"
  shows "\<exists>w' a. zcrt_schedule_sendjob new (Some s) (Some fn) p1 p2 w = Inr (EZCRTErr_success, w') \<and>
    sch_wf t w' (tl fs) (qs[k := qs ! k @ [a]]) \<and>
    queues w' (qs[k := qs ! k @ [a]]) = (queues w qs)[k := queues w qs ! k @ [the_job s fn 2 [p1, p2]]]"
  using sendjob_ok [OF assms] by metis

text \<open>Sending to a schedule that holds its maximum of jobs answers EZCRTErr_full and changes nothing.\<close>

theorem sendjob_full:
  assumes "sch_wf t w fs qs" "sx_sch w s = Some sc" "sc_thr sc = Some t" "unat (sc_pri sc) = k" "k < EZCRTSchPri_num"
    and "held s (queues w qs ! k) = unat (sc_maxsize sc)"
  shows "zcrt_schedule_sendjob new (Some s) (Some fn) p1 p2 w = Inr (EZCRTErr_full, w)"
proof -
  have j: "sch_jobs t (sx_sch w) (queues w qs)" using assms(1) by (simp add: sch_wf_def)
  show ?thesis using full_iff(1) [OF j assms(2-5)] assms by (simp add: zcrt_schedule_sendjob_def)
qed

text \<open>C18. With callbacks that send no jobs, one wake-up of the worker runs every pending job exactly once and then
  stops: all of high priority in the order they were sent, then all of normal, then all of low.\<close>

theorem run_jobs_order:
  assumes "sch_outside call act" "sch_wf t w fs qs"
  shows "\<exists>w' fs' qs'. run (run_jobs call t (w, x)) =
      Inr (w', fold (\<lambda>n y. act (the (jb_fn n)) (jb_args n) y) (concat (queues w qs)) x) \<and>
    sch_wf t w' fs' qs' \<and> concat (queues w' qs') = []"
proof -
  have "job_act act = (\<lambda>n y. act (the (jb_fn n)) (jb_args n) y)" by (intro ext) (simp add: job_act_def)
  then show ?thesis using run_jobs_wf [OF assms, of x] by (metis run_simps(2))
qed

text \<open>C33. Deleting a schedule takes exactly its own jobs out of its queue and leaves the other jobs and the other
  queues as they are, in order: the thread's queue starts at the first job kept and leads through those kept and no
  other, the nodes of the jobs removed are in no queue, and the schedule is gone. The tail pointer of the queue is the
  last job kept, or null if the last job was one of the schedule's; otherwise the thread stays well formed.\<close>

theorem schedule_delete_spec:
  assumes "sch_wf t w fs qs" "sch_chain t w ss"
    and "sx_sch w s = Some sc" "sc_thr sc = Some t" "unat (sc_pri sc) = k" "k < EZCRTSchPri_num"
  shows "\<exists>w' fs' as'. zcrt_schedule_delete dec (Some s) w = Inr w' \<and> sx_sch w' s = None \<and>
    queues w' (qs[k := as']) = (queues w qs)[k := filter (\<lambda>n. jb_sch n \<noteq> Some s) (queues w qs ! k)] \<and>
    sch_at t w' fs' (qs[k := as']) ((map last_of qs)[k :=
      if queues w qs ! k \<noteq> [] \<and> jb_sch (last (queues w qs ! k)) = Some s then None else last_of as']) \<and>
    (queues w qs ! k = [] \<or> jb_sch (last (queues w qs ! k)) \<noteq> Some s \<longrightarrow> sch_lists t w' fs' (qs[k := as']))"
proof -
  let ?own = "queues w qs ! k \<noteq> [] \<and> jb_sch (last (queues w qs ! k)) = Some s"
  obtain w' fs' as' where d: "zcrt_schedule_delete dec (Some s) w = Inr w'"
    "sch_at t w' fs' (qs[k := as']) ((map last_of (qs[k := as']))[k := if ?own then None else last_of as'])"
    "queues w' (qs[k := as']) = (queues w qs)[k := filter (\<lambda>n. jb_sch n \<noteq> Some s) (queues w qs ! k)]" "sx_sch w' s = None"
    using delete_ok [OF assms] by metis
  have at: "sch_at t w' fs' (qs[k := as']) ((map last_of qs)[k := if ?own then None else last_of as'])"
    using d(2) unfolding map_update list_update_overwrite .
  have "sch_lists t w' fs' (qs[k := as'])" if "\<not> ?own"
    using at that unfolding sch_lists_at by (simp only: map_update if_False)
  then show ?thesis using d at by blast
qed

text \<open>C34. Deleting a schedule whose job is the last of a queue that holds other schedules' jobs too leaves the queue
  with a null tail: the next job sent at that priority fails the assertion on the tail and stops the program.\<close>

theorem delete_breaks_queue:
  assumes wf: "sch_wf t w fs qs" and ch: "sch_chain t w ss"
    and sc: "sx_sch w s = Some sc" "sc_thr sc = Some t" "unat (sc_pri sc) = k" "k < EZCRTSchPri_num"
    and last: "queues w qs ! k \<noteq> []" "jb_sch (last (queues w qs ! k)) = Some s"
    and other: "n \<in> set (queues w qs ! k)" "jb_sch n \<noteq> Some s"
    and sc2: "s2 \<noteq> s" "sx_sch w s2 = Some c2" "sc_thr c2 = Some t" "unat (sc_pri c2) = k"
      "held s2 (queues w qs ! k) < unat (sc_maxsize c2)"
    and del: "zcrt_schedule_delete dec (Some s) w = Inr w'" and al: "can_new t w' new"
  shows "zcrt_schedule_sendjob new (Some s2) (Some fn) p1 p2 w' = Inl AssertFailed"
proof -
  have j: "sch_jobs t (sx_sch w) (queues w qs)" using wf by (simp add: sch_wf_def)
  obtain fs' as' where d: "sch_at t w' fs' (qs[k := as']) ((map last_of (qs[k := as']))[k := None])"
    "queues w' (qs[k := as']) = (queues w qs)[k := filter (\<lambda>n. jb_sch n \<noteq> Some s) (queues w qs ! k)]"
    "map_option sc_view (sx_sch w' s2) = map_option sc_view (sx_sch w s2)"
    using delete_ok [OF wf ch sc] del last sc2(1) by (smt (verit) Inr_inject)
  have kl: "k < length qs" using wf sc(4) by (simp add: sch_wf_def sch_jobs_def queues_def)
  have "filter (\<lambda>n. jb_sch n \<noteq> Some s) (queues w qs ! k) \<noteq> []" using other by (auto simp: filter_empty_conv)
  moreover have "contents_of jb_set_next (sx_job w') as' = filter (\<lambda>n. jb_sch n \<noteq> Some s) (queues w qs ! k)"
    using arg_cong [OF d(2), of "\<lambda>xs. xs ! k"] kl by (simp add: queues_def)
  ultimately have "as' \<noteq> []" by auto
  moreover obtain c where c: "sx_sch w' s2 = Some c" "sc_thr c = sc_thr c2" "sc_pri c = sc_pri c2"
    "sc_cursize c = sc_cursize c2" "sc_maxsize c = sc_maxsize c2"
    using sc_view_eq d(3) sc2(2) by metis
  moreover have "sint (sc_cursize c2) < sint (sc_maxsize c2)"
    using full_iff(1) [OF j sc2(2,3,4) sc(4)] sc2(5) by simp
  ultimately show ?thesis
    using sc2 kl by (intro send_asserts [OF d(1) al sc(4) _ _ c(1)]) simp_all
qed

text \<open>Deleting any schedule that was created with its own thread stops that thread, whatever schedules share
  it, on the Linux port: its reference counter is never counted.\<close>

theorem delete_stops_thread:
  assumes "sch_wf t w fs qs" "sch_chain t w ss" "sx_sch w s = Some sc" "sc_thr sc = Some t"
    and "unat (sc_pri sc) < EZCRTSchPri_num" "sc_type sc = EZCRTSchType_selfThread"
  shows "\<exists>w' th. zcrt_schedule_delete zcrt_atom_dec (Some s) w = Inr w' \<and> sx_thr w' t = Some th \<and> \<not> th_run th \<and>
    (\<forall>r. r \<noteq> s \<longrightarrow> map_option sc_view (sx_sch w' r) = map_option sc_view (sx_sch w r))"
proof -
  have "\<forall>c. fst (zcrt_atom_dec c) = 0" by (simp add: zcrt_atom_dec_def)
  then show ?thesis using delete_ok [OF assms(1-4) refl assms(5), of zcrt_atom_dec] assms(6) by metis
qed


section \<open>Creating a thread\<close>

text \<open>Creating a schedule with a thread of its own gives a well-formed thread with three empty queues, which
  runs and has the schedule in its list; the schedule holds no jobs and has the priority and maximum asked for.\<close>

theorem schedule_create_spec:
  assumes new: "sx_thr w newt = None" and none: "\<And>r c. sx_sch w r = Some c \<Longrightarrow> sc_thr c \<noteq> Some newt"
    and m: "sx_mod w m = Some md"
  shows "\<exists>w' th sc. zcrt_schedule_create inc (Some s) (Some newt) (Some m) name EZCRTSchType_selfThread pri maxsize w = Inr (Some s, w') \<and>
    sch_wf newt w' [] [[], [], []] \<and> queues w' [[], [], []] = [[], [], []] \<and> sch_chain newt w' [s] \<and>
    sx_thr w' newt = Some th \<and> th_run th \<and> md_schthr_list (the (sx_mod w' m)) = Some newt \<and>
    sx_sch w' s = Some sc \<and> sc_pri sc = pri \<and> unat (sc_maxsize sc) = unat maxsize"
proof -
  let ?q = "\<lparr>pl_jobs = None, pl_tail = None\<rparr>"
  let ?th = "\<lparr>th_name = sch_name name, th_sem = 0, th_que = replicate EZCRTSchPri_num ?q, th_freejobs = None, th_run = True,
    th_refCnt = snd (inc 0), th_module = Some m, th_sch_list = Some s, th_next = md_schthr_list md, th_joballoced = 0,
    th_jobfreed = 0, th_jobadded = 0\<rparr>"
  let ?sc = "(new_sch name)\<lparr>sc_thr := Some newt, sc_maxsize := ucast maxsize, sc_pri := pri,
    sc_type := EZCRTSchType_selfThread, sc_module := Some m\<rparr>"
  let ?w = "w\<lparr>sx_thr := (sx_thr w)(newt \<mapsto> ?th), sx_sch := (sx_sch w)(s \<mapsto> ?sc),
    sx_mod := (sx_mod w)(m \<mapsto> md\<lparr>md_schthr_list := Some newt\<rparr>)\<rparr>"
  have mx: "unat (ucast maxsize :: s32) = unat maxsize" using u16_bound [of maxsize] by (simp add: unsigned_ucast_eq take_bit_nat_eq_self_iff del: u16_bound)
  have "zcrt_schedule_create inc (Some s) (Some newt) (Some m) name EZCRTSchType_selfThread pri maxsize w = Inr (Some s, ?w)"
    using m by (simp add: zcrt_schedule_create_def zcrt_s_thr_new_def zcrt_s_thr_add_sch_def Let_def
        set_thr_def set_mod_def set_sch_def)
  moreover have "sch_lists newt ?w [] [[], [], []]"
    by (rule sch_listsI [of _ _ ?th]) (auto simp: chains_def EZCRTSchPri_num_def numeral_3_eq_3 less_Suc_eq)
  moreover have "sch_jobs newt (sx_sch ?w) (queues ?w [[], [], []])"
    using none mx unfolding sch_jobs_def
    by (auto simp: queues_def EZCRTSchPri_num_def numeral_3_eq_3 less_Suc_eq new_sch_def split: if_splits)
  moreover have "sch_chain newt ?w [s]" by (simp add: sch_chain_def new_sch_def)
  ultimately show ?thesis using mx by (auto simp: sch_wf_def queues_def)
qed

section \<open>Witnesses\<close>

text \<open>A thread with two schedules of high priority: one full with its only job, which is the last of the queue, and
  one with room for five that has the first job.\<close>

definition sample_sch :: "u16 \<Rightarrow> EZCRTSchType \<Rightarrow> addr option \<Rightarrow> zSchedule" where
  "sample_sch maxsize type nxt = (new_sch [])\<lparr>sc_thr := Some 100, sc_maxsize := ucast maxsize, sc_type := type,
     sc_cursize := 1, sc_maxhold := 1, sc_next := nxt\<rparr>"

definition sample_world :: zSchWorld where
  "sample_world = \<lparr>
     sx_job = [10 \<mapsto> (the_job 22 7 2 [1, 1])\<lparr>jb_next := Some 11\<rparr>, 11 \<mapsto> the_job 21 8 2 [0, 0]],
     sx_sch = [21 \<mapsto> sample_sch 1 EZCRTSchType_selfThread (Some 22), 22 \<mapsto> sample_sch 5 EZCRTSchType_shareThread None],
     sx_thr = [100 \<mapsto> \<lparr>th_name = [], th_sem = 0,
       th_que = [\<lparr>pl_jobs = Some 10, pl_tail = Some 11\<rparr>, \<lparr>pl_jobs = None, pl_tail = None\<rparr>, \<lparr>pl_jobs = None, pl_tail = None\<rparr>],
       th_freejobs = None, th_run = True, th_refCnt = 0, th_module = None, th_sch_list = Some 21, th_next = None,
       th_joballoced = 2, th_jobfreed = 0, th_jobadded = 2\<rparr>],
     sx_mod = Map.empty\<rparr>"

lemma sample_queues: "queues sample_world [[10, 11], [], []] = [[the_job 22 7 2 [1, 1], the_job 21 8 2 [0, 0]], [], []]"
  by (simp add: queues_def sample_world_def jb_set_next_def the_job_def)

lemma sample_sel:
  "sx_sch sample_world 21 = Some (sample_sch 1 EZCRTSchType_selfThread (Some 22))"
  "sx_sch sample_world 22 = Some (sample_sch 5 EZCRTSchType_shareThread None)"
  "sc_thr (sample_sch m ty x) = Some 100" "sc_pri (sample_sch m ty x) = 0" "sc_maxsize (sample_sch m ty x) = ucast m"
  "sc_type (sample_sch m ty x) = ty" "jb_sch (the_job s f a xs) = Some s" "sc_cursize (sample_sch m ty x) = 1"
  "jb_fn (the_job s f a xs) = Some f"
  by (simp_all add: sample_world_def sample_sch_def new_sch_def the_job_def)

lemma sample_chain: "sch_chain 100 sample_world [21, 22]"
  by (simp add: sch_chain_def sample_world_def sample_sch_def)

lemma sample_new: "can_new 100 sample_world (Some 12)"
  by (simp add: can_new_def can_alloc_def sample_world_def)

lemma three: "k < EZCRTSchPri_num \<longleftrightarrow> k = 0 \<or> k = 1 \<or> k = 2"
  by (auto simp: EZCRTSchPri_num_def)

lemma sample_wf: "sch_wf 100 sample_world [] [[10, 11], [], []]"
proof -
  have "sch_lists 100 sample_world [] [[10, 11], [], []]"
    by (rule sch_listsI) (auto simp: sample_world_def chains_def EZCRTSchPri_num_def three [unfolded EZCRTSchPri_num_def]
        last_of_def the_job_def)
  moreover have "sx_sch sample_world s = Some sc \<Longrightarrow>
      (s = 21 \<and> sc = sample_sch 1 EZCRTSchType_selfThread (Some 22)) \<or> (s = 22 \<and> sc = sample_sch 5 EZCRTSchType_shareThread None)" for s sc
    by (auto simp: sample_world_def split: if_splits)
  then have "sch_jobs 100 (sx_sch sample_world) (queues sample_world [[10, 11], [], []])"
    unfolding sch_jobs_def sample_queues three
    by (intro conjI allI impI) (fastforce simp: sample_sel EZCRTSchPri_num_def)+
  ultimately show ?thesis by (simp add: sch_wf_def)
qed

lemma sendjob_spec_witness:
  "\<exists>w' a. zcrt_schedule_sendjob (Some 12) (Some 22) (Some 9) 3 4 sample_world = Inr (EZCRTErr_success, w') \<and>
    queues w' [[10, 11, a], [], []] = [[the_job 22 7 2 [1, 1], the_job 21 8 2 [0, 0], the_job 22 9 2 [3, 4]], [], []]"
  using sendjob_spec [OF sample_wf sample_new sample_sel(2) sample_sel(3), of 0 9 3 4]
  by (auto simp: sample_queues sample_sel EZCRTSchPri_num_def)

lemma sendjob_full_witness:
  "zcrt_schedule_sendjob (Some 12) (Some 21) (Some 9) 3 4 sample_world = Inr (EZCRTErr_full, sample_world)"
  using sendjob_full [OF sample_wf sample_sel(1) sample_sel(3), of 0 "Some 12" 9 3 4]
  by (simp add: sample_queues sample_sel EZCRTSchPri_num_def)

definition log_job :: "(ptr \<times> ptr list) list sch_call" where
  "log_job f args s = Inr (fst s, snd s @ [(f, args)])"

lemma run_jobs_order_witness:
  "\<exists>w'. run (run_jobs log_job 100 (sample_world, [])) = Inr (w', [(7, [1, 1, 0, 0, 0, 0]), (8, [0, 0, 0, 0, 0, 0])])"
proof -
  have "sch_outside log_job (\<lambda>f args x. x @ [(f, args)])" by (simp add: sch_outside_def log_job_def)
  from run_jobs_order [OF this sample_wf, of "[]"] show ?thesis
    unfolding sample_queues by (auto simp: the_job_def ZCRT_CB_MAX_ARGS_def numeral_eq_Suc)
qed

lemma schedule_delete_spec_witness:
  "\<exists>w' fs' as'. zcrt_schedule_delete zcrt_atom_dec (Some 22) sample_world = Inr w' \<and> sx_sch w' 22 = None \<and>
    queues w' [as', [], []] = [[the_job 21 8 2 [0, 0]], [], []] \<and> sch_at 100 w' fs' [as', [], []] [last_of as', None, None]"
  using schedule_delete_spec [OF sample_wf sample_chain sample_sel(2) sample_sel(3), of 0 zcrt_atom_dec]
  by (simp add: sample_queues sample_sel EZCRTSchPri_num_def) blast

lemma remove_jobs_steps:
  "remove_jobs t s k None prev w = Some (Inr w)"
  "sx_sch w s = Some sc \<Longrightarrow> sc_cursize sc \<noteq> 0 \<Longrightarrow> sx_job w j = Some n \<Longrightarrow> jb_sch n \<noteq> Some s \<Longrightarrow>
    remove_jobs t s k (Some j) prev w = remove_jobs t s k (jb_next n) (Some j) w"
  "sx_sch w s = Some sc \<Longrightarrow> sc_cursize sc \<noteq> 0 \<Longrightarrow> sx_job w j = Some n \<Longrightarrow> jb_sch n = Some s \<Longrightarrow>
    remove_job t k j prev (jb_next n) w = Inr (prev1, w1) \<Longrightarrow>
    remove_jobs t s k (Some j) prev w = remove_jobs t s k (jb_next n) prev1 w1"
  by (subst remove_jobs.simps, simp)+

lemma sample_deleted: "zcrt_schedule_delete zcrt_atom_dec (Some 21) sample_world = Inr w' \<Longrightarrow> sx_job w' 12 = None"
  by (auto simp: zcrt_schedule_delete_def zcrt_s_thr_remove_sch_def sample_world_def sample_sch_def new_sch_def
      the_job_def remove_jobs_steps remove_job_def zcrt_s_job_delete_has_mutex_def EZCRTSchPri_num_def Let_def
      zcrt_atom_dec_def set_thr_def set_sch_def set_job_def)

lemma delete_breaks_queue_witness:
  "\<exists>w'. zcrt_schedule_delete zcrt_atom_dec (Some 21) sample_world = Inr w' \<and>
    zcrt_schedule_sendjob (Some 12) (Some 22) (Some 9) 3 4 w' = Inl AssertFailed"
proof -
  obtain w' th where d: "zcrt_schedule_delete zcrt_atom_dec (Some 21) sample_world = Inr w'" "sx_thr w' 100 = Some th"
    using delete_ok [OF sample_wf sample_chain sample_sel(1) sample_sel(3), of 0]
    by (simp add: sample_sel EZCRTSchPri_num_def) metis
  then have "can_new 100 w' (Some 12)"
    using sample_deleted by (simp add: can_new_def can_alloc_def)
  then show ?thesis
    using d(1) delete_breaks_queue [OF sample_wf sample_chain sample_sel(1) sample_sel(3), of 0 "the_job 22 7 2 [1, 1]" 22
        "sample_sch 5 EZCRTSchType_shareThread None" zcrt_atom_dec w' "Some 12" 9 3 4]
    by (simp add: sample_queues sample_sel EZCRTSchPri_num_def)
qed

lemma delete_stops_thread_witness:
  "\<exists>w' th. zcrt_schedule_delete zcrt_atom_dec (Some 21) sample_world = Inr w' \<and> sx_thr w' 100 = Some th \<and> \<not> th_run th \<and> sx_sch w' 22 \<noteq> None"
proof -
  obtain w' th where d: "zcrt_schedule_delete zcrt_atom_dec (Some 21) sample_world = Inr w'" "sx_thr w' 100 = Some th" "\<not> th_run th"
    "\<forall>r. r \<noteq> 21 \<longrightarrow> map_option sc_view (sx_sch w' r) = map_option sc_view (sx_sch sample_world r)"
    using delete_stops_thread [OF sample_wf sample_chain sample_sel(1) sample_sel(3)]
    by (auto simp: sample_sel EZCRTSchPri_num_def)
  have "sx_sch w' 22 \<noteq> None" using d(4) [rule_format, of 22] sample_sel(2) by auto
  then show ?thesis using d by blast
qed

definition empty_world :: zSchWorld where
  "empty_world = \<lparr>sx_job = Map.empty, sx_sch = Map.empty, sx_thr = Map.empty, sx_mod = [1 \<mapsto> \<lparr>md_zcrtthr = None, md_schthr_list = None\<rparr>]\<rparr>"

lemma schedule_create_spec_witness:
  "\<exists>w'. zcrt_schedule_create zcrt_atom_inc (Some 5) (Some 6) (Some 1) [0x41] EZCRTSchType_selfThread 1 10 empty_world = Inr (Some 5, w') \<and>
    sch_wf 6 w' [] [[], [], []]"
  using schedule_create_spec [of empty_world 6 1 "\<lparr>md_zcrtthr = None, md_schthr_list = None\<rparr>" zcrt_atom_inc 5 "[0x41]" 1 10]
  by (auto simp: empty_world_def)

end
