(* ===== verification/Zcrt_Race.thy ===== *)
theory Zcrt_Race
  imports Zcrt_Schedule
begin

text \<open>
  Several threads that send jobs while the worker runs (\<^verbatim>\<open>zcrtlib/zschedule.c\<close>). The two functions
  that send a job test the size of the schedule before they take any mutex; taking a node
  (\<^verbatim>\<open>_zcrt_s_job_new\<close>) and queueing it (\<^verbatim>\<open>_zcrt_s_insert_job\<close>) are locked
  one at a time. So a call is three steps here, between which the other senders and the worker may run, and the
  maximum of a schedule can be passed, by at most one job for every sender but the first.
\<close>

section \<open>A call of a sending function in steps\<close>

text \<open>What is sent: \<^verbatim>\<open>zcrt_schedule_sendjob\<close> with its two arguments, or
  \<^verbatim>\<open>zcrt_schedule_sendjob_argn\<close> with a number of them.\<close>

datatype zSendCall = SendJob ptr ptr | SendJobArgn u32 "ptr list"

text \<open>Where a sender is: at the call, past the tests, with a node of its own, or back with an answer.\<close>

datatype zSender =
  Calling "addr option" "ptr option" zSendCall
| Tested addr ptr zSendCall
| Holding addr addr zSendCall
| Returned EZCRTErr

fun bad_argn :: "zSendCall \<Rightarrow> bool" where
  "bad_argn (SendJob p1 p2) = False"
| "bad_argn (SendJobArgn argn args) = (argn = 0 \<or> unat argn > ZCRT_CB_MAX_ARGS)"

fun fill_job :: "zSendCall \<Rightarrow> addr \<Rightarrow> zScheduleJob \<Rightarrow> zScheduleJob" where
  "fill_job (SendJob p1 p2) s n = n\<lparr>jb_argn := 2, jb_args := (jb_args n)[0 := p1, 1 := p2], jb_sch := Some s\<rparr>"
| "fill_job (SendJobArgn argn args) s n =
     n\<lparr>jb_argn := argn, jb_sch := Some s, jb_args := take (unat argn) args @ drop (unat argn) (jb_args n)\<rparr>"

text \<open>The next step of a sender; \<^verbatim>\<open>new\<close> is what the allocator gives when the thread has no free
  node. The node is the sender's own until it is queued, so filling it is part of the last step.\<close>

fun send_phase :: "addr option \<Rightarrow> zSender \<Rightarrow> zSchWorld \<Rightarrow> (zSender \<times> zSchWorld) res" where
  "send_phase new (Calling h cb c) w = (case h of
     None \<Rightarrow> Inr (Returned EZCRTErr_paramErr, w)
   | Some s \<Rightarrow> (case cb of None \<Rightarrow> Inr (Returned EZCRTErr_paramErr, w) | Some fn \<Rightarrow>
       rbind (deref (sx_sch w s)) (\<lambda>sc.
       if unat (sc_pri sc) \<ge> EZCRTSchPri_num \<or> bad_argn c then Inr (Returned EZCRTErr_paramErr, w)
       else if sint (sc_cursize sc) \<ge> sint (sc_maxsize sc) then Inr (Returned EZCRTErr_full, w)
       else rbind (zassert (sc_thr sc \<noteq> None)) (\<lambda>_. Inr (Tested s fn c, w)))))"
| "send_phase new (Tested s fn c) w =
     rbind (deref (sx_sch w s)) (\<lambda>sc.
     rbind (deref (sc_thr sc)) (\<lambda>t.
     rbind (zcrt_s_job_new new t fn w) (\<lambda>(job, w1). case job of
       None \<Rightarrow> Inr (Returned EZCRTErr_noMem, w1)
     | Some j \<Rightarrow> Inr (Holding j s c, w1))))"
| "send_phase new (Holding j s c) w =
     rbind (deref (sx_job w j)) (\<lambda>n.
     rbind (zcrt_s_insert_job s j (set_job j (fill_job c s n) w)) (\<lambda>w1. Inr (Returned EZCRTErr_success, w1)))"
| "send_phase new (Returned e) w = Inr (Returned e, w)"

text \<open>A sender whose three steps follow each other is the whole call.\<close>

definition send_phases :: "addr option \<Rightarrow> zSender \<Rightarrow> zSchWorld \<Rightarrow> (zSender \<times> zSchWorld) res" where
  "send_phases new p w = rbind (send_phase new p w) (\<lambda>(p1, w1). rbind (send_phase new p1 w1) (\<lambda>(p2, w2). send_phase new p2 w2))"

lemma send_phases_calls:
  "send_phases new (Calling h cb (SendJob p1 p2)) w =
     rbind (zcrt_schedule_sendjob new h cb p1 p2 w) (\<lambda>(e, w1). Inr (Returned e, w1))"
  "send_phases new (Calling h cb (SendJobArgn argn args)) w =
     rbind (zcrt_schedule_sendjob_argn new h cb argn args w) (\<lambda>(e, w1). Inr (Returned e, w1))"
proof -
  have r: "rbind (rbind m f) g = rbind m (\<lambda>x. rbind (f x) g)" for m :: "'a res" and f :: "'a \<Rightarrow> 'b res" and g :: "'b \<Rightarrow> 'c res"
    by (cases m) simp_all
  have i: "rbind (if b then x else y) g = (if b then rbind x g else rbind y g)" for b and x y :: "'b res" and g :: "'b \<Rightarrow> 'c res"
    by simp
  show "send_phases new (Calling h cb (SendJob p1 p2)) w =
     rbind (zcrt_schedule_sendjob new h cb p1 p2 w) (\<lambda>(e, w1). Inr (Returned e, w1))"
    "send_phases new (Calling h cb (SendJobArgn argn args)) w =
     rbind (zcrt_schedule_sendjob_argn new h cb argn args w) (\<lambda>(e, w1). Inr (Returned e, w1))"
    by (auto simp: send_phases_def zcrt_schedule_sendjob_def zcrt_schedule_sendjob_argn_def deref_def zassert_def Let_def
        split_def r i split: option.splits intro!: arg_cong [where f = "rbind _"])
qed

section \<open>Senders and worker interleaved\<close>

fun node_of :: "zSender \<Rightarrow> addr option" where
  "node_of (Holding j s c) = Some j"
| "node_of p = None"

text \<open>The schedule a sender has found not full and has not queued its job to.\<close>

fun past :: "addr \<Rightarrow> zSender \<Rightarrow> bool" where
  "past s (Tested r fn c) = (r = s)"
| "past s (Holding j r c) = (r = s)"
| "past s p = False"

text \<open>A call to a schedule of thread \<^verbatim>\<open>t\<close>, with as many variable arguments as it says.\<close>

fun call_to :: "addr \<Rightarrow> zSchWorld \<Rightarrow> addr option \<Rightarrow> zSendCall \<Rightarrow> bool" where
  "call_to t w None c = True"
| "call_to t w (Some s) c = (case sx_sch w s of None \<Rightarrow> False | Some sc \<Rightarrow> sc_thr sc = Some t)"

fun call_args :: "zSendCall \<Rightarrow> bool" where
  "call_args (SendJob p1 p2) = True"
| "call_args (SendJobArgn argn args) = (length args = unat argn)"

definition fresh :: "zSchWorld \<Rightarrow> addr option \<Rightarrow> bool" where
  "fresh w new = (case new of None \<Rightarrow> True | Some a \<Rightarrow> sx_job w a = None)"

text \<open>
  A step of the whole: a sender that is back begins another call, a sender takes its next step, with memory
  the allocator gives or refuses, or the worker takes a job.
\<close>

inductive race_step :: "addr \<Rightarrow> zSender list \<times> zSchWorld \<Rightarrow> zSender list \<times> zSchWorld \<Rightarrow> bool" for t where
  begin_call: "i < length ps \<Longrightarrow> ps ! i = Returned e \<Longrightarrow> call_to t w h c \<Longrightarrow> call_args c \<Longrightarrow>
    race_step t (ps, w) (ps[i := Calling h cb c], w)"
| phase: "i < length ps \<Longrightarrow> fresh w new \<Longrightarrow> send_phase new (ps ! i) w = Inr (p, w') \<Longrightarrow> race_step t (ps, w) (ps[i := p], w')"
| work: "take_job t w = Inr (job, w') \<Longrightarrow> race_step t (ps, w) (ps, w')"

definition in_flight :: "addr \<Rightarrow> zSender list \<Rightarrow> nat" where
  "in_flight s ps = length (filter (past s) ps)"

lemma filter_update:
  "i < length xs \<Longrightarrow> length (filter P (xs[i := x])) + (if P (xs ! i) then 1 else 0) = length (filter P xs) + (if P x then 1 else 0)"
proof (induction xs arbitrary: i)
  case (Cons y ys)
  then show ?case using Cons.IH [of "i - 1"] by (cases i) (auto split: if_splits)
qed simp

lemma in_flight_update:
  "i < length ps \<Longrightarrow> in_flight s (ps[i := p]) + (if past s (ps ! i) then 1 else 0) = in_flight s ps + (if past s p then 1 else 0)"
  unfolding in_flight_def by (rule filter_update)

lemma in_flight_le: "in_flight s ps \<le> length ps"
  by (simp add: in_flight_def)

lemma in_flight_same: "i < length ps \<Longrightarrow> past s p = past s (ps ! i) \<Longrightarrow> in_flight s (ps[i := p]) = in_flight s ps"
  using in_flight_update [of i ps s p] by (simp split: if_splits)

section \<open>What holds at every moment\<close>

text \<open>
  Every job has its schedule; every schedule of the thread counts its jobs, and those and the senders on their
  way to it are at most its maximum and one for every sender but the first.
\<close>

definition race_jobs :: "addr \<Rightarrow> zSchedule heap \<Rightarrow> zScheduleJob list list \<Rightarrow> zSender list \<Rightarrow> bool" where
  "race_jobs t sch js ps \<longleftrightarrow> length js = EZCRTSchPri_num \<and>
     (\<forall>k < EZCRTSchPri_num. \<forall>n \<in> set (js ! k). jb_fn n \<noteq> None \<and>
       (\<exists>s sc. jb_sch n = Some s \<and> sch s = Some sc \<and> sc_thr sc = Some t \<and> unat (sc_pri sc) = k)) \<and>
     (\<forall>s sc. sch s = Some sc \<longrightarrow> sc_thr sc = Some t \<longrightarrow> unat (sc_pri sc) < EZCRTSchPri_num \<longrightarrow>
       sc_cursize sc = of_nat (held s (js ! unat (sc_pri sc))) \<and>
       held s (js ! unat (sc_pri sc)) + in_flight s ps \<le> unat (sc_maxsize sc) + (length ps - 1) \<and> unat (sc_maxsize sc) < 65536)"

fun sender_ok :: "addr \<Rightarrow> zSchWorld \<Rightarrow> zSender \<Rightarrow> bool" where
  "sender_ok t w (Calling h cb c) = (call_to t w h c \<and> call_args c)"
| "sender_ok t w (Tested s fn c) = (\<exists>sc. sx_sch w s = Some sc \<and> sc_thr sc = Some t \<and> unat (sc_pri sc) < EZCRTSchPri_num)"
| "sender_ok t w (Holding j s c) = ((\<exists>fn. sx_job w j = Some (blank_job fn)) \<and>
     (\<exists>sc. sx_sch w s = Some sc \<and> sc_thr sc = Some t \<and> unat (sc_pri sc) < EZCRTSchPri_num))"
| "sender_ok t w (Returned e) = True"

text \<open>Nodes held by senders are in no list and belong to one sender each.\<close>

definition race_wf :: "addr \<Rightarrow> zSender list \<Rightarrow> zSchWorld \<Rightarrow> addr list \<Rightarrow> addr list list \<Rightarrow> bool" where
  "race_wf t ps w fs qs \<longleftrightarrow> sch_lists t w fs qs \<and> race_jobs t (sx_sch w) (queues w qs) ps \<and>
     (\<forall>i < length ps. sender_ok t w (ps ! i)) \<and>
     (\<forall>i < length ps. \<forall>a. node_of (ps ! i) = Some a \<longrightarrow> a \<notin> set (concat (fs # qs)) \<and>
       (\<forall>j < length ps. node_of (ps ! j) = Some a \<longrightarrow> i = j))"

text \<open>A step changes of a schedule its counts only, and of the held nodes none.\<close>

definition sch_fixed :: "zSchedule heap \<Rightarrow> zSchedule heap \<Rightarrow> bool" where
  "sch_fixed h h' \<longleftrightarrow> (\<forall>s. map_option (\<lambda>c. (sc_thr c, sc_pri c, sc_maxsize c)) (h' s) = map_option (\<lambda>c. (sc_thr c, sc_pri c, sc_maxsize c)) (h s))"

lemma sch_fixedD:
  assumes "sch_fixed h h'" "h s = Some sc"
  obtains sc' where "h' s = Some sc'" "sc_thr sc' = sc_thr sc" "sc_pri sc' = sc_pri sc" "sc_maxsize sc' = sc_maxsize sc"
  using assms unfolding sch_fixed_def by (metis (mono_tags, lifting) map_option_eq_Some old.prod.inject)

lemma sch_fixed_refl [simp]: "sch_fixed h h"
  by (simp add: sch_fixed_def)

lemma sch_fixed_upd: "h s = Some sc \<Longrightarrow> sc_thr sc' = sc_thr sc \<Longrightarrow> sc_pri sc' = sc_pri sc \<Longrightarrow> sc_maxsize sc' = sc_maxsize sc \<Longrightarrow>
    sch_fixed h (h(s \<mapsto> sc'))"
  by (simp add: sch_fixed_def)

lemma sender_ok_frame:
  assumes ok: "sender_ok t w p" and f: "sch_fixed (sx_sch w) (sx_sch w')"
    and j: "\<And>a. node_of p = Some a \<Longrightarrow> sx_job w' a = sx_job w a"
  shows "sender_ok t w' p"
proof (cases p)
  case (Calling h cb c)
  then show ?thesis using ok sch_fixedD [OF f] by (cases h) (auto split: option.splits, fastforce+)
next
  case (Tested s fn c)
  then show ?thesis using ok sch_fixedD [OF f] by (auto, metis)
next
  case (Holding a s c)
  then show ?thesis using ok sch_fixedD [OF f] j [of a] by (auto, metis)
qed simp

section \<open>Every step keeps it\<close>

lemma race_jobs_job:
  "race_jobs t sch js ps \<Longrightarrow> k < EZCRTSchPri_num \<Longrightarrow> n \<in> set (js ! k) \<Longrightarrow>
    jb_fn n \<noteq> None \<and> (\<exists>s sc. jb_sch n = Some s \<and> sch s = Some sc \<and> sc_thr sc = Some t \<and> unat (sc_pri sc) = k)"
  unfolding race_jobs_def by blast

lemma race_jobs_count:
  "race_jobs t sch js ps \<Longrightarrow> sch s = Some sc \<Longrightarrow> sc_thr sc = Some t \<Longrightarrow> unat (sc_pri sc) < EZCRTSchPri_num \<Longrightarrow>
    sc_cursize sc = of_nat (held s (js ! unat (sc_pri sc))) \<and>
    held s (js ! unat (sc_pri sc)) + in_flight s ps \<le> unat (sc_maxsize sc) + (length ps - 1) \<and> unat (sc_maxsize sc) < 65536"
  unfolding race_jobs_def by blast

lemma race_jobsI:
  "length js = EZCRTSchPri_num \<Longrightarrow>
   (\<And>k n. k < EZCRTSchPri_num \<Longrightarrow> n \<in> set (js ! k) \<Longrightarrow>
     jb_fn n \<noteq> None \<and> (\<exists>s sc. jb_sch n = Some s \<and> sch s = Some sc \<and> sc_thr sc = Some t \<and> unat (sc_pri sc) = k)) \<Longrightarrow>
   (\<And>s sc. sch s = Some sc \<Longrightarrow> sc_thr sc = Some t \<Longrightarrow> unat (sc_pri sc) < EZCRTSchPri_num \<Longrightarrow>
     sc_cursize sc = of_nat (held s (js ! unat (sc_pri sc))) \<and>
     held s (js ! unat (sc_pri sc)) + in_flight s ps \<le> unat (sc_maxsize sc) + (length ps - 1) \<and> unat (sc_maxsize sc) < 65536) \<Longrightarrow>
   race_jobs t sch js ps"
  unfolding race_jobs_def by blast

lemma race_jobs_senders:
  assumes j: "race_jobs t sch js ps"
    and le: "length ps' = length ps" "\<And>s sc. sch s = Some sc \<Longrightarrow> sc_thr sc = Some t \<Longrightarrow> unat (sc_pri sc) < EZCRTSchPri_num \<Longrightarrow>
      in_flight s ps' \<le> in_flight s ps \<or> held s (js ! unat (sc_pri sc)) < unat (sc_maxsize sc)"
  shows "race_jobs t sch js ps'"
proof -
  have "held s (js ! unat (sc_pri sc)) + in_flight s ps' \<le> unat (sc_maxsize sc) + (length ps' - 1)"
    if sc: "sch s = Some sc" "sc_thr sc = Some t" "unat (sc_pri sc) < EZCRTSchPri_num" for s sc
  proof -
    have "held s (js ! unat (sc_pri sc)) + in_flight s ps \<le> unat (sc_maxsize sc) + (length ps - 1)"
      using j sc unfolding race_jobs_def by blast
    then show ?thesis using le(2) [OF sc] le(1) in_flight_le [of s ps'] by linarith
  qed
  then show ?thesis using j unfolding race_jobs_def by blast
qed

lemma race_jobs_out:
  assumes j: "race_jobs t sch js ps" and k: "k < EZCRTSchPri_num" and at: "js ! k = n # ns" and n: "jb_sch n = Some s"
    and sc: "sch s = Some sc"
  shows "race_jobs t (sch(s \<mapsto> sc\<lparr>sc_cursize := sc_cursize sc - 1\<rparr>)) (js[k := ns]) ps"
proof -
  let ?sch = "sch(s \<mapsto> sc\<lparr>sc_cursize := sc_cursize sc - 1\<rparr>)"
  have len: "length js = EZCRTSchPri_num" and kl: "k < length js" using j k by (simp_all add: race_jobs_def)
  have "n \<in> set (js ! k)" using at by simp
  then have pri: "sc_thr sc = Some t" "unat (sc_pri sc) = k" using j k n sc unfolding race_jobs_def by fastforce+
  have jobs: "jb_fn m \<noteq> None \<and> (\<exists>r c. jb_sch m = Some r \<and> ?sch r = Some c \<and> sc_thr c = Some t \<and> unat (sc_pri c) = i)"
    if im: "i < EZCRTSchPri_num" "m \<in> set (js[k := ns] ! i)" for i m
  proof -
    have "m \<in> set (js ! i)" using im kl at by (auto simp: nth_list_update split: if_splits)
    then obtain r c where "jb_fn m \<noteq> None" "jb_sch m = Some r" "sch r = Some c" "sc_thr c = Some t" "unat (sc_pri c) = i"
      using race_jobs_job [OF j im(1)] by blast
    then show ?thesis using sc by (cases "r = s") auto
  qed
  have counts: "sc_cursize c = of_nat (held r (js[k := ns] ! unat (sc_pri c))) \<and>
      held r (js[k := ns] ! unat (sc_pri c)) + in_flight r ps \<le> unat (sc_maxsize c) + (length ps - 1) \<and> unat (sc_maxsize c) < 65536"
    if c: "?sch r = Some c" "sc_thr c = Some t" "unat (sc_pri c) < EZCRTSchPri_num" for r c
  proof (cases "r = s")
    case True
    have "sc_cursize sc = of_nat (held s (js ! k)) \<and>
        held s (js ! k) + in_flight s ps \<le> unat (sc_maxsize sc) + (length ps - 1) \<and> unat (sc_maxsize sc) < 65536"
      using j sc pri k unfolding race_jobs_def by blast
    then show ?thesis using True c pri at n kl by auto
  next
    case False
    then have "held r (js[k := ns] ! unat (sc_pri c)) = held r (js ! unat (sc_pri c))"
      using at n kl by (cases "unat (sc_pri c) = k") simp_all
    then show ?thesis using False c j unfolding race_jobs_def by simp
  qed
  show ?thesis by (rule race_jobsI [OF _ jobs counts]) (use len in simp_all)
qed

lemma race_jobs_in:
  assumes j: "race_jobs t sch js ps" and sc: "sch s = Some sc" "sc_thr sc = Some t" "unat (sc_pri sc) = k" "k < EZCRTSchPri_num"
    and n: "jb_fn n \<noteq> None" "jb_sch n = Some s" and i: "i < length ps" "past s (ps ! i)" "\<And>r. \<not> past r p" "\<And>r. r \<noteq> s \<Longrightarrow> \<not> past r (ps ! i)"
    and sc': "sc_cursize sc' = sc_cursize sc + 1" "sc_thr sc' = sc_thr sc" "sc_pri sc' = sc_pri sc" "sc_maxsize sc' = sc_maxsize sc"
  shows "race_jobs t (sch(s \<mapsto> sc')) (js[k := js ! k @ [n]]) (ps[i := p])"
proof -
  let ?sch = "sch(s \<mapsto> sc')" and ?js = "js[k := js ! k @ [n]]"
  have len: "length js = EZCRTSchPri_num" and kl: "k < length js" using j sc(4) by (simp_all add: race_jobs_def)
  have jobs: "jb_fn m \<noteq> None \<and> (\<exists>r c. jb_sch m = Some r \<and> ?sch r = Some c \<and> sc_thr c = Some t \<and> unat (sc_pri c) = l)"
    if im: "l < EZCRTSchPri_num" "m \<in> set (?js ! l)" for l m
  proof (cases "l = k \<and> m = n")
    case True
    then show ?thesis using n sc sc' by simp
  next
    case False
    then have "m \<in> set (js ! l)" using im kl by (auto simp: nth_list_update split: if_splits)
    then obtain r c where "jb_fn m \<noteq> None" "jb_sch m = Some r" "sch r = Some c" "sc_thr c = Some t" "unat (sc_pri c) = l"
      using race_jobs_job [OF j im(1)] by blast
    then show ?thesis using sc sc' by (cases "r = s") auto
  qed
  have counts: "sc_cursize c = of_nat (held r (?js ! unat (sc_pri c))) \<and>
      held r (?js ! unat (sc_pri c)) + in_flight r (ps[i := p]) \<le> unat (sc_maxsize c) + (length (ps[i := p]) - 1) \<and> unat (sc_maxsize c) < 65536"
    if c: "?sch r = Some c" "sc_thr c = Some t" "unat (sc_pri c) < EZCRTSchPri_num" for r c
  proof (cases "r = s")
    case True
    have "sc_cursize sc = of_nat (held s (js ! k)) \<and>
        held s (js ! k) + in_flight s ps \<le> unat (sc_maxsize sc) + (length ps - 1) \<and> unat (sc_maxsize sc) < 65536"
      using j sc unfolding race_jobs_def by blast
    then show ?thesis using True c sc' sc n kl in_flight_update [OF i(1), of s p] i by auto
  next
    case False
    then have "held r (?js ! unat (sc_pri c)) = held r (js ! unat (sc_pri c))"
      using n kl by (cases "unat (sc_pri c) = k") simp_all
    moreover have "in_flight r (ps[i := p]) = in_flight r ps" using False i by (intro in_flight_same) simp_all
    ultimately show ?thesis using False c j unfolding race_jobs_def by simp
  qed
  show ?thesis by (rule race_jobsI [OF _ jobs counts]) (use len in simp_all)
qed

text \<open>The nodes a step may touch.\<close>

lemma job_new_node:
  assumes "sch_lists t w fs qs" "zcrt_s_job_new new t cb w = Inr (Some a, w1)"
  shows "a \<in> set fs \<or> new = Some a"
proof -
  obtain th where th: "sx_thr w t = Some th" "chains jb_next (sx_job w) (th_freejobs th # map pl_jobs (th_que th)) (fs # qs)"
    using sch_listsE [OF assms(1)] by metis
  show ?thesis
  proof (cases "th_freejobs th")
    case None
    then show ?thesis using assms(2) th(1) by (auto simp: zcrt_s_job_new_def Let_def split: option.splits)
  next
    case (Some b)
    then have "b \<in> set fs" using chainsD(3) [OF th(2), of 0] by (cases fs) auto
    then show ?thesis using assms(2) th(1) Some by (auto simp: zcrt_s_job_new_def Let_def rbind_eq_Inr)
  qed
qed

lemma job_new_none:
  assumes wf: "sch_lists t w fs qs" and no: "fresh w new" "\<not> can_new t w new"
  obtains w1 where "zcrt_s_job_new new t cb w = Inr (None, w1)" "sx_job w1 = sx_job w" "sx_sch w1 = sx_sch w" "sch_lists t w1 fs qs"
proof -
  obtain th where th: "sx_thr w t = Some th" "length (th_que th) = EZCRTSchPri_num"
    "chains jb_next (sx_job w) (th_freejobs th # map pl_jobs (th_que th)) (fs # qs)"
    "\<And>k. k < EZCRTSchPri_num \<Longrightarrow> pl_tail (th_que th ! k) = last_of (qs ! k)" using sch_listsE [OF wf] by metis
  let ?th = "th\<lparr>th_jobadded := th_jobadded th + 1, th_joballoced := th_joballoced th + 1\<rparr>"
  have free: "th_freejobs th = None" "new = None" using no th(1) by (auto simp: can_new_def can_alloc_def fresh_def split: option.splits)
  have "sch_lists t (set_thr t ?th w) fs qs" using th free by (intro sch_listsI [of _ _ ?th]) simp_all
  then show ?thesis using that [of "set_thr t ?th w"] th(1) free by (simp add: zcrt_s_job_new_def Let_def)
qed

lemma insert_frame:
  assumes wf: "sch_lists t w fs qs" and sc: "sx_sch w s = Some sc" "sc_thr sc = Some t"
    and r: "zcrt_s_insert_job s a w = Inr w'" and x: "x \<notin> set (concat (fs # qs))"
  shows "sx_job w' x = sx_job w x"
proof -
  obtain th where th: "sx_thr w t = Some th" "length (th_que th) = EZCRTSchPri_num" "length qs = EZCRTSchPri_num"
    "\<And>k. k < EZCRTSchPri_num \<Longrightarrow> pl_tail (th_que th ! k) = last_of (qs ! k)" using sch_listsE [OF wf] by metis
  have "pl_tail (th_que th ! k) \<noteq> Some x" if "k < EZCRTSchPri_num" for k
    using th(3) th(4) [OF that] that x concat_nth [of k qs x] by (auto simp: last_of_def dest: last_in_set split: if_splits)
  then show ?thesis
    using r sc th(1,2) by (auto simp: zcrt_s_insert_job_def Let_def rbind_eq_Inr zassert_def deref_def split: if_splits option.splits)
qed

lemma take_frame:
  assumes r: "take_job t w = Inr (r, w')" and wf: "sch_lists t w fs qs" and x: "x \<notin> set (concat qs)"
  shows "sx_job w' x = sx_job w x"
proof -
  obtain th where th: "sx_thr w t = Some th" "length (th_que th) = EZCRTSchPri_num" "length qs = EZCRTSchPri_num"
    "\<And>k. k < EZCRTSchPri_num \<Longrightarrow> chain jb_next (sx_job w) (pl_jobs (th_que th ! k)) (qs ! k) None" using sch_listsE [OF wf] by metis
  have g: "get_first h ps = Inr (Some j, ps') \<Longrightarrow> \<exists>q \<in> set ps. pl_jobs q = Some j" for h j and ps ps' :: "zSchPriList list"
    by (induction ps arbitrary: ps') (auto simp: zcrt_s_thr_getjob_def rbind_eq_Inr Let_def split: option.splits)
  obtain job ps where f: "get_first (sx_job w) (th_que th) = Inr (job, ps)"
    using r th(1) by (auto simp: take_job_def rbind_eq_Inr)
  have "job \<noteq> Some x"
  proof
    assume "job = Some x"
    then obtain k where k: "k < length (th_que th)" "pl_jobs (th_que th ! k) = Some x" using g f by (metis in_set_conv_nth)
    then have "x \<in> set (qs ! k)" using th(4) [of k] th(2) by (cases "qs ! k") auto
    then show False using x k(1) th(2,3) concat_nth [of k qs x] by simp
  qed
  then show ?thesis
    using r th(1) f by (auto simp: take_job_def zcrt_s_job_delete_has_mutex_def Let_def rbind_eq_Inr split: option.splits)
qed

lemma race_wfI:
  assumes "sch_lists t w fs qs" "race_jobs t (sx_sch w) (queues w qs) ps" "\<And>i. i < length ps \<Longrightarrow> sender_ok t w (ps ! i)"
    and "\<And>i a. i < length ps \<Longrightarrow> node_of (ps ! i) = Some a \<Longrightarrow> a \<notin> set (concat (fs # qs))"
    and "\<And>i j a. i < length ps \<Longrightarrow> j < length ps \<Longrightarrow> node_of (ps ! i) = Some a \<Longrightarrow> node_of (ps ! j) = Some a \<Longrightarrow> i = j"
  shows "race_wf t ps w fs qs"
  using assms unfolding race_wf_def by blast

lemma race_wfD:
  assumes "race_wf t ps w fs qs"
  shows "sch_lists t w fs qs" "race_jobs t (sx_sch w) (queues w qs) ps" "i < length ps \<Longrightarrow> sender_ok t w (ps ! i)"
    "i < length ps \<Longrightarrow> node_of (ps ! i) = Some a \<Longrightarrow> a \<notin> set (concat (fs # qs))"
    "i < length ps \<Longrightarrow> j < length ps \<Longrightarrow> node_of (ps ! i) = Some a \<Longrightarrow> node_of (ps ! j) = Some a \<Longrightarrow> i = j"
  using assms unfolding race_wf_def by blast+

text \<open>A sender moves without a node and without the world changing.\<close>

lemma race_wf_move:
  assumes wf: "race_wf t ps w fs qs" and i: "i < length ps" and p: "node_of p = None" "sender_ok t w p"
    and le: "\<And>s sc. sx_sch w s = Some sc \<Longrightarrow> sc_thr sc = Some t \<Longrightarrow> unat (sc_pri sc) < EZCRTSchPri_num \<Longrightarrow>
      past s p \<Longrightarrow> held s (queues w qs ! unat (sc_pri sc)) < unat (sc_maxsize sc)"
  shows "race_wf t (ps[i := p]) w fs qs"
proof (rule race_wfI)
  show "race_jobs t (sx_sch w) (queues w qs) (ps[i := p])"
  proof (rule race_jobs_senders [OF race_wfD(2) [OF wf]])
    fix s sc assume "sx_sch w s = Some sc" "sc_thr sc = Some t" "unat (sc_pri sc) < EZCRTSchPri_num"
    then show "in_flight s (ps[i := p]) \<le> in_flight s ps \<or> held s (queues w qs ! unat (sc_pri sc)) < unat (sc_maxsize sc)"
      using le [of s sc] in_flight_update [OF i, of s p] by (cases "past s p") auto
  qed simp
qed (use race_wfD [OF wf] i p in \<open>auto simp: nth_list_update split: if_splits\<close>)

lemma room_left:
  assumes j: "race_jobs t sch js ps" and n: "length ps \<le> 65536"
    and sc: "sch s = Some sc" "sc_thr sc = Some t" "unat (sc_pri sc) < EZCRTSchPri_num"
    and lt: "\<not> sint (sc_maxsize sc) \<le> sint (sc_cursize sc)"
  shows "held s (js ! unat (sc_pri sc)) < unat (sc_maxsize sc)"
proof -
  let ?h = "held s (js ! unat (sc_pri sc))"
  have o: "sc_cursize sc = of_nat ?h" "?h \<le> unat (sc_maxsize sc) + (length ps - 1)" "unat (sc_maxsize sc) < 65536"
    using race_jobs_count [OF j sc] by simp_all
  have m: "sint (sc_maxsize sc) = int (unat (sc_maxsize sc))" using o(3) by (intro sint_small_u32) simp
  have b: "?h < 2 ^ 31" using o(2,3) n by simp
  then have "unat (sc_cursize sc) = ?h" using o(1) by (simp add: unat_of_nat)
  then have c: "sint (sc_cursize sc) = int ?h" using b sint_small_u32 [of "sc_cursize sc"] by simp
  show ?thesis using lt unfolding m c of_nat_le_iff by simp
qed

lemma call_phase:
  assumes wf: "race_wf t ps w fs qs" and i: "i < length ps" "ps ! i = Calling h cb c" and n: "length ps \<le> 65536"
  shows "\<exists>p. send_phase new (ps ! i) w = Inr (p, w) \<and> race_wf t (ps[i := p]) w fs qs"
proof -
  have ok: "call_to t w h c" "call_args c" using race_wfD(3) [OF wf i(1)] i(2) by simp_all
  have ret: "race_wf t (ps[i := Returned e]) w fs qs" for e by (rule race_wf_move [OF wf i(1)]) simp_all
  show ?thesis
  proof (cases "h = None \<or> cb = None")
    case True
    then show ?thesis using ret i(2) by (auto split: option.splits)
  next
    case False
    then obtain s fn where s: "h = Some s" "cb = Some fn" by auto
    then obtain sc where sc: "sx_sch w s = Some sc" "sc_thr sc = Some t" using ok by (auto split: option.splits)
    consider "EZCRTSchPri_num \<le> unat (sc_pri sc) \<or> bad_argn c"
      | "unat (sc_pri sc) < EZCRTSchPri_num" "\<not> bad_argn c" "sint (sc_maxsize sc) \<le> sint (sc_cursize sc)"
      | "unat (sc_pri sc) < EZCRTSchPri_num" "\<not> bad_argn c" "\<not> sint (sc_maxsize sc) \<le> sint (sc_cursize sc)" by linarith
    then show ?thesis
    proof cases
      case 3
      have "held s (queues w qs ! unat (sc_pri sc)) < unat (sc_maxsize sc)"
        by (rule room_left [OF race_wfD(2) [OF wf] n sc 3(1,3)])
      then have "race_wf t (ps[i := Tested s fn c]) w fs qs"
        using sc 3 by (intro race_wf_move [OF wf i(1)]) auto
      then show ?thesis using i(2) s sc 3 by simp
    qed (use ret i(2) s sc in simp_all)
  qed
qed

lemma test_phase:
  assumes wf: "race_wf t ps w fs qs" and i: "i < length ps" "ps ! i = Tested s fn c" and new: "fresh w new"
  shows "\<exists>p w' fs'. send_phase new (ps ! i) w = Inr (p, w') \<and> race_wf t (ps[i := p]) w' fs' qs"
proof -
  note W = race_wfD [OF wf]
  obtain sc where sc: "sx_sch w s = Some sc" "sc_thr sc = Some t" "unat (sc_pri sc) < EZCRTSchPri_num" using W(3) [OF i(1)] i(2) by auto
  show ?thesis
  proof (cases "can_new t w new")
    case False
    obtain w1 where w1: "zcrt_s_job_new new t fn w = Inr (None, w1)" "sx_job w1 = sx_job w" "sx_sch w1 = sx_sch w"
      "sch_lists t w1 fs qs" using job_new_none [OF W(1) new False] by metis
    have "race_wf t ps w1 fs qs"
    proof (rule race_wfI)
      show "sender_ok t w1 (ps ! j)" if "j < length ps" for j
        by (rule sender_ok_frame [OF W(3) [OF that]]) (simp_all add: w1)
    qed (use w1 W in \<open>simp_all add: queues_cong [OF w1(2)]\<close>)
    then have "race_wf t (ps[i := Returned EZCRTErr_noMem]) w1 fs qs" by (rule race_wf_move [OF _ i(1)]) simp_all
    then show ?thesis using i(2) sc w1(1) by auto
  next
    case True
    obtain a w1 where w1: "zcrt_s_job_new new t fn w = Inr (Some a, w1)" "sx_job w1 = (sx_job w)(a \<mapsto> blank_job fn)"
      "a \<notin> set (concat (tl fs # qs))" "\<And>n. sch_lists t (set_job a n w1) (tl fs) qs"
      "\<And>n. queues (set_job a n w1) qs = queues w qs" "sx_sch w1 = sx_sch w" using job_new_lists [OF W(1) True] by metis
    have same: "set_job a (blank_job fn) w1 = w1" using w1(2) by (simp add: set_job_def)
    have mine: "node_of (ps ! j) \<noteq> Some a" if j: "j < length ps" for j
    proof
      assume at: "node_of (ps ! j) = Some a"
      have "a \<notin> set fs" using W(4) [OF j at] by simp
      then have "sx_job w a = None" using job_new_node [OF W(1) w1(1)] new by (auto simp: fresh_def)
      moreover have "sx_job w a \<noteq> None" using W(3) [OF j] at by (cases "ps ! j") auto
      ultimately show False by simp
    qed
    have "race_wf t (ps[i := Holding a s c]) w1 (tl fs) qs"
    proof (rule race_wfI)
      show "sch_lists t w1 (tl fs) qs" using w1(4) [of "blank_job fn"] same by simp
      have "queues w1 qs = queues w qs" using w1(5) [of "blank_job fn"] same by simp
      then show "race_jobs t (sx_sch w1) (queues w1 qs) (ps[i := Holding a s c])"
        using in_flight_same [OF i(1), of _ "Holding a s c"] i(2) by (simp add: w1(6) race_jobs_senders [OF W(2)])
      show "sender_ok t w1 (ps[i := Holding a s c] ! j)" if "j < length (ps[i := Holding a s c])" for j
      proof (cases "j = i")
        case True
        then show ?thesis using i sc w1(2,6) by auto
      next
        case False
        then have p: "ps[i := Holding a s c] ! j = ps ! j" "j < length ps" using that by simp_all
        show ?thesis unfolding p(1)
          by (rule sender_ok_frame [OF W(3) [OF p(2)]]) (use mine [OF p(2)] in \<open>auto simp: w1(2,6)\<close>)
      qed
      have sub: "set (tl fs) \<subseteq> set fs" by (cases fs) auto
      then show "b \<notin> set (concat (tl fs # qs))" if "j < length (ps[i := Holding a s c])" "node_of (ps[i := Holding a s c] ! j) = Some b" for j b
        using that W(4) [of j b] w1(3) i by (auto simp: nth_list_update split: if_splits)
      show "j = k" if "j < length (ps[i := Holding a s c])" "k < length (ps[i := Holding a s c])"
        "node_of (ps[i := Holding a s c] ! j) = Some b" "node_of (ps[i := Holding a s c] ! k) = Some b" for j k b
      proof (cases "j = i \<or> k = i")
        case True
        then have "b = a" using that i(1) by auto
        then show ?thesis using True that mine [of j] mine [of k] by (cases "j = i"; cases "k = i") auto
      next
        case False
        then show ?thesis using that by (intro W(5) [of j k b]) simp_all
      qed
    qed
    then show ?thesis using i(2) sc w1(1) by auto
  qed
qed

lemma hold_phase:
  assumes wf: "race_wf t ps w fs qs" and i: "i < length ps" "ps ! i = Holding a s c"
  shows "\<exists>p w' qs'. send_phase new (ps ! i) w = Inr (p, w') \<and> race_wf t (ps[i := p]) w' fs qs'"
proof -
  note W = race_wfD [OF wf]
  obtain sc fn where sc: "sx_sch w s = Some sc" "sc_thr sc = Some t" "unat (sc_pri sc) < EZCRTSchPri_num"
    and fn: "sx_job w a = Some (blank_job fn)" using W(3) [OF i(1)] i(2) by auto
  let ?n = "fill_job c s (blank_job fn)" and ?k = "unat (sc_pri sc)"
  let ?v = "set_job a ?n w"
  have n: "jb_next ?n = None" "jb_fn ?n \<noteq> None" "jb_sch ?n = Some s" by (cases c; simp add: blank_job_def)+
  have a: "a \<notin> set (concat (fs # qs))" using W(4) [OF i(1), of a] i(2) by simp
  have lv: "sch_lists t ?v fs qs"
  proof -
    obtain th where th: "sx_thr w t = Some th" "length (th_que th) = EZCRTSchPri_num"
      "chains jb_next (sx_job w) (th_freejobs th # map pl_jobs (th_que th)) (fs # qs)"
      "\<And>k. k < EZCRTSchPri_num \<Longrightarrow> pl_tail (th_que th ! k) = last_of (qs ! k)" using sch_listsE [OF W(1)] by metis
    have "chains jb_next (sx_job ?v) (th_freejobs th # map pl_jobs (th_que th)) (fs # qs)"
      by (rule chains_frame [OF th(3)]) (use a in auto)
    then show ?thesis using th by (intro sch_listsI [of _ _ th]) simp_all
  qed
  have qv: "queues ?v qs = queues w qs" using a by (intro queues_upd) simp
  obtain w1 sc' where w1: "zcrt_s_insert_job s a ?v = Inr w1" "sch_lists t w1 fs (qs[?k := qs ! ?k @ [a]])"
    "queues w1 (qs[?k := qs ! ?k @ [a]]) = (queues w qs)[?k := queues w qs ! ?k @ [?n]]"
    "sx_sch w1 = (sx_sch w)(s \<mapsto> sc')" "sc_cursize sc' = sc_cursize sc + 1" "sc_thr sc' = sc_thr sc"
    "sc_pri sc' = sc_pri sc" "sc_maxsize sc' = sc_maxsize sc"
    using insert_lists [OF lv _ sc(2) refl sc(3) a _ n(1)] sc(1) qv by (metis fun_upd_same set_simps(1,2))
  let ?ps = "ps[i := Returned EZCRTErr_success]"
  have other: "sx_job w1 b = sx_job w b" if "j < length ps" "j \<noteq> i" "node_of (ps ! j) = Some b" for j b
  proof -
    have "b \<noteq> a" using W(5) [OF i(1) that(1), of a] i(2) that by auto
    moreover have "sx_job w1 b = sx_job ?v b"
      using insert_frame [OF lv _ sc(2) w1(1) W(4) [OF that(1,3)]] sc(1) by simp
    ultimately show ?thesis by simp
  qed
  have "race_wf t ?ps w1 fs (qs[?k := qs ! ?k @ [a]])"
  proof (rule race_wfI)
    show "race_jobs t (sx_sch w1) (queues w1 (qs[?k := qs ! ?k @ [a]])) ?ps"
      unfolding w1(3,4) by (rule race_jobs_in [OF W(2) sc(1,2) refl sc(3) n(2,3) i(1) _ _ _ w1(5-8)]) (use i(2) in simp_all)
    show "sender_ok t w1 (?ps ! j)" if "j < length ?ps" for j
    proof (cases "j = i")
      case False
      then have p: "?ps ! j = ps ! j" "j < length ps" using that by simp_all
      show ?thesis unfolding p(1)
        by (rule sender_ok_frame [OF W(3) [OF p(2)]]) (use w1(4) sc(1) sch_fixed_upd [of "sx_sch w" s, OF sc(1) w1(6-8)] other [OF p(2) False] in simp_all)
    qed (use i in simp)
    show "b \<notin> set (concat (fs # qs[?k := qs ! ?k @ [a]]))" if "j < length ?ps" "node_of (?ps ! j) = Some b" for j b
    proof -
      have j: "j \<noteq> i" "j < length ps" "node_of (ps ! j) = Some b" using that i by (auto simp: nth_list_update split: if_splits)
      then have "b \<noteq> a" using W(5) [OF i(1) j(2), of a] i(2) by auto
      moreover have kl: "?k < length qs" using W(2) sc(3) by (simp add: race_jobs_def queues_def)
      ultimately show ?thesis using W(4) [OF j(2,3)] nth_mem [OF kl]
        by (auto dest!: set_update_subset_insert [THEN subsetD])
    qed
    show "j = k" if "j < length ?ps" "k < length ?ps" "node_of (?ps ! j) = Some b" "node_of (?ps ! k) = Some b" for j k b
    proof -
      have "j \<noteq> i" "k \<noteq> i" using that i(1) by auto
      then show ?thesis using that by (intro W(5) [of j k b]) simp_all
    qed
  qed (rule w1(2))
  then show ?thesis using i(2) fn w1(1) by auto
qed

lemma phase_ok:
  assumes wf: "race_wf t ps w fs qs" and i: "i < length ps" and n: "length ps \<le> 65536" and new: "fresh w new"
  shows "\<exists>p w' fs' qs'. send_phase new (ps ! i) w = Inr (p, w') \<and> race_wf t (ps[i := p]) w' fs' qs'"
proof (cases "ps ! i")
  case (Calling h cb c)
  then show ?thesis using call_phase [OF wf i _ n] by blast
next
  case (Tested s fn c)
  then show ?thesis using test_phase [OF wf i _ new] by blast
next
  case (Holding a s c)
  then show ?thesis using hold_phase [OF wf i] by blast
next
  case (Returned e)
  then have "ps[i := Returned e] = ps" by (metis list_update_id)
  then show ?thesis using wf Returned by auto
qed

lemma take_ok:
  assumes wf: "race_wf t ps w fs qs"
  shows "\<exists>job w' fs' qs'. take_job t w = Inr (job, w') \<and> race_wf t ps w' fs' qs'"
proof (cases "concat (queues w qs) = []")
  case True
  have "length qs = EZCRTSchPri_num" using sch_listsE [OF race_wfD(1) [OF wf]] by metis
  then have "\<forall>i < EZCRTSchPri_num. qs ! i = []" using True by (auto simp: queues_def contents_of_def dest: nth_mem)
  then show ?thesis using take_job_none [OF race_wfD(1) [OF wf]] wf by auto
next
  case False
  note W = race_wfD [OF wf]
  obtain k n ns where at: "k < length (queues w qs)" "\<forall>i < k. queues w qs ! i = []" "queues w qs ! k = n # ns"
    using first_job [OF False] by metis
  have k: "k < EZCRTSchPri_num" using at(1) W(2) by (simp add: race_jobs_def)
  have ql: "length qs = EZCRTSchPri_num" using sch_listsE [OF W(1)] by metis
  then have e: "\<forall>i < k. qs ! i = []" using at(2) k by (auto simp: queues_def contents_of_def)
  obtain a as where qk: "qs ! k = a # as" using at(3) k ql by (cases "qs ! k") (auto simp: queues_def)
  obtain m where m: "sx_job w a = Some m" using sch_listsE [OF W(1)] chain_dom qk k by (metis list.set_intros(1))
  have n: "n = jb_set_next None m" "ns = contents_of jb_set_next (sx_job w) as" using at(3) qk k ql m by (simp_all add: queues_def)
  have "n \<in> set (queues w qs ! k)" using at(3) by simp
  then obtain s sc where s: "jb_sch n = Some s" "sx_sch w s = Some sc" using race_jobs_job [OF W(2) k] by blast
  then have ms: "jb_sch m = Some s" using n(1) by (simp add: jb_set_next_def)
  obtain w' where w': "take_job t w = Inr (Some (jb_fn m, jb_args m), w')" "sch_lists t w' (a # fs) (qs[k := as])"
    "queues w' (qs[k := as]) = (queues w qs)[k := ns]"
    "sx_sch w' = (sx_sch w)(s \<mapsto> sc\<lparr>sc_cursize := sc_cursize sc - 1\<rparr>)"
    using take_job_lists [OF W(1) k e qk m ms s(2)] n(2) by metis
  have "set (concat ((a # fs) # qs[k := as])) \<subseteq> set (concat (fs # qs))"
  proof -
    have "set (qs[k := as]) \<subseteq> insert as (set qs)" by (rule set_update_subset_insert)
    moreover have "set (qs ! k) \<subseteq> set (concat qs)" using nth_mem [of k qs] k ql by (simp add: UN_upper)
    ultimately show ?thesis using qk by auto
  qed
  then have out: "b \<notin> set (concat ((a # fs) # qs[k := as]))" if "i < length ps" "node_of (ps ! i) = Some b" for i b
    using W(4) [OF that] by blast
  have "race_wf t ps w' (a # fs) (qs[k := as])"
  proof (rule race_wfI [OF w'(2) _ _ out])
    show "race_jobs t (sx_sch w') (queues w' (qs[k := as])) ps"
      unfolding w'(3,4) by (rule race_jobs_out [OF W(2) k at(3) s])
    show "sender_ok t w' (ps ! i)" if i: "i < length ps" for i
    proof (rule sender_ok_frame [OF W(3) [OF i]])
      show "sch_fixed (sx_sch w) (sx_sch w')" unfolding w'(4) using s(2) by (rule sch_fixed_upd) simp_all
      show "sx_job w' b = sx_job w b" if "node_of (ps ! i) = Some b" for b
        by (rule take_frame [OF w'(1) W(1)]) (use W(4) [OF i that] in simp)
    qed
  qed (use W(5) in blast)+
  then show ?thesis using w'(1) by blast
qed

lemma race_step_wf:
  assumes "race_step t (ps, w) (ps', w')" "race_wf t ps w fs qs" "length ps \<le> 65536"
  shows "length ps' = length ps \<and> (\<exists>fs qs. race_wf t ps' w' fs qs)"
  using assms(1)
proof cases
  case (begin_call i e h c cb)
  then show ?thesis using race_wf_move [OF assms(2), of i "Calling h cb c"] by auto
next
  case (phase i new p)
  then show ?thesis using phase_ok [OF assms(2) _ assms(3)] by fastforce
next
  case (work job)
  then show ?thesis using take_ok [OF assms(2)] by auto
qed

lemma race_steps_wf:
  "(race_step t)\<^sup>*\<^sup>* x y \<Longrightarrow> \<exists>fs qs. race_wf t (fst x) (snd x) fs qs \<Longrightarrow> length (fst x) \<le> 65536 \<Longrightarrow>
    length (fst y) = length (fst x) \<and> (\<exists>fs qs. race_wf t (fst y) (snd y) fs qs)"
proof (induction rule: rtranclp_induct)
  case (step y z)
  then show ?case using race_step_wf [of t "fst y" "snd y" "fst z" "snd z"] by fastforce
qed blast

lemma race_wf_start:
  assumes "sch_wf t w fs qs" "\<forall>p \<in> set ps. \<exists>e. p = Returned e"
  shows "race_wf t ps w fs qs"
proof (rule race_wfI)
  have r: "\<exists>e. ps ! i = Returned e" if "i < length ps" for i using assms(2) that by simp
  have "in_flight s ps = 0" for s using assms(2) by (auto simp: in_flight_def filter_empty_conv)
  then show "race_jobs t (sx_sch w) (queues w qs) ps"
    using assms(1) unfolding sch_wf_def sch_jobs_def race_jobs_def by (simp add: trans_le_add1)
  show "sender_ok t w (ps ! i)" if "i < length ps" for i using r [OF that] by auto
  show "a \<notin> set (concat (fs # qs))" if "i < length ps" "node_of (ps ! i) = Some a" for i a using r [OF that(1)] that(2) by auto
  show "i = j" if "i < length ps" "node_of (ps ! i) = Some a" for i j a using r [OF that(1)] that(2) by auto
qed (use assms(1) in \<open>simp add: sch_wf_def\<close>)

section \<open>Properties\<close>

text \<open>C16. Any number of threads send to the schedules of a thread, through either function, while the worker takes jobs:
  every call is three steps, the tests, taking a node and queueing, and the steps interleave in any order, with any
  answers of the allocator. Then the lists of the thread stay well formed, every schedule counts its jobs exactly, no
  step of a sender or the worker faults, and a schedule's jobs together with the senders past its size test are never
  more than its maximum and one for every sender but the first: alone, a sender never passes the maximum.\<close>

theorem senders_interleave:
  assumes "sch_wf t w0 fs0 qs0" "\<forall>p \<in> set ps0. \<exists>e. p = Returned e" "length ps0 \<le> 65536"
    and "(race_step t)\<^sup>*\<^sup>* (ps0, w0) (ps, w)"
  shows "\<exists>fs qs. sch_lists t w fs qs \<and>
    (\<forall>s sc. sx_sch w s = Some sc \<and> sc_thr sc = Some t \<and> unat (sc_pri sc) < EZCRTSchPri_num \<longrightarrow>
       sc_cursize sc = of_nat (held s (queues w qs ! unat (sc_pri sc))) \<and>
       held s (queues w qs ! unat (sc_pri sc)) + in_flight s ps \<le> unat (sc_maxsize sc) + (length ps0 - 1)) \<and>
    (\<exists>r. take_job t w = Inr r) \<and>
    (\<forall>i new. i < length ps \<and> fresh w new \<longrightarrow> (\<exists>r. send_phase new (ps ! i) w = Inr r))"
proof -
  have "race_wf t ps0 w0 fs0 qs0" using assms(1,2) by (rule race_wf_start)
  then obtain fs qs where wf: "race_wf t ps w fs qs" and n: "length ps = length ps0"
    using race_steps_wf [OF assms(4)] assms(3) by auto
  note W = race_wfD [OF wf]
  have "\<exists>r. send_phase new (ps ! i) w = Inr r" if "i < length ps" "fresh w new" for i new
    using phase_ok [OF wf that(1) _ that(2)] n assms(3) by auto
  moreover have "\<exists>r. take_job t w = Inr r" using take_ok [OF wf] by blast
  ultimately show ?thesis using W(1) race_jobs_count [OF W(2)] n by (intro exI [of _ fs] exI [of _ qs]) simp
qed

section \<open>Two senders pass the maximum\<close>

text \<open>A schedule for one job, with none.\<close>

definition race_sch :: zSchedule where
  "race_sch = (new_sch [])\<lparr>sc_thr := Some 100, sc_maxsize := 1\<rparr>"

definition race_world :: zSchWorld where
  "race_world = \<lparr>sx_job = Map.empty, sx_sch = [21 \<mapsto> race_sch],
     sx_thr = [100 \<mapsto> \<lparr>th_name = [], th_sem = 0, th_que = replicate 3 \<lparr>pl_jobs = None, pl_tail = None\<rparr>,
       th_freejobs = None, th_run = True, th_refCnt = 0, th_module = None, th_sch_list = Some 21, th_next = None,
       th_joballoced = 0, th_jobfreed = 0, th_jobadded = 0\<rparr>],
     sx_mod = Map.empty\<rparr>"

lemma race_world_wf: "sch_wf 100 race_world [] [[], [], []]"
proof -
  have "sch_lists 100 race_world [] [[], [], []]"
    by (rule sch_listsI) (auto simp: race_world_def chains_def EZCRTSchPri_num_def numeral_3_eq_3 less_Suc_eq)
  moreover have "sch_jobs 100 (sx_sch race_world) (queues race_world [[], [], []])"
    unfolding sch_jobs_def
    by (auto simp: race_world_def race_sch_def new_sch_def queues_def EZCRTSchPri_num_def numeral_3_eq_3 less_Suc_eq split: if_splits)
  ultimately show ?thesis by (simp add: sch_wf_def)
qed

text \<open>Both senders test before either has queued its job.\<close>

lemma two_senders_exceed:
  "\<exists>w sc. (race_step 100)\<^sup>*\<^sup>* ([Returned EZCRTErr_success, Returned EZCRTErr_success], race_world)
      ([Returned EZCRTErr_success, Returned EZCRTErr_success], w) \<and>
    sx_sch w 21 = Some sc \<and> sc_thr sc = Some 100 \<and> sc_pri sc = 0 \<and> sc_maxsize sc = 1 \<and> sc_cursize sc = 2"
proof -
  let ?c = "Calling (Some 21) (Some 7) (SendJob 3 4)" and ?t = "Tested 21 7 (SendJob 3 4)"
  let ?r = "Returned EZCRTErr_success" and ?h = "\<lambda>a. Holding a 21 (SendJob 3 4)"
  note defs = race_world_def race_sch_def new_sch_def zcrt_s_job_new_def zcrt_s_insert_job_def Let_def EZCRTSchPri_num_def
    eval_nat_numeral set_job_def set_thr_def set_sch_def
  obtain w1 where w1: "send_phase (Some 12) ?t race_world = Inr (?h 12, w1)" by (simp add: defs)
  obtain w2 where w2: "send_phase (Some 13) ?t w1 = Inr (?h 13, w2)" using w1 by (auto simp: defs)
  obtain w3 where w3: "send_phase None (?h 12) w2 = Inr (?r, w3)" using w1 w2 by (auto simp: defs)
  obtain w4 where w4: "send_phase None (?h 13) w3 = Inr (?r, w4)" using w1 w2 w3 by (auto simp: defs)
  have "race_step 100 ([?r, ?r], race_world) ([?c, ?r], race_world)"
    using race_step.begin_call [of 0 "[?r, ?r]"] by (simp add: defs)
  moreover have "race_step 100 ([?c, ?r], race_world) ([?c, ?c], race_world)"
    using race_step.begin_call [of 1 "[?c, ?r]"] by (simp add: defs)
  moreover have "race_step 100 ([?c, ?c], race_world) ([?t, ?c], race_world)"
    using race_step.phase [of 0 "[?c, ?c]" race_world None] by (simp add: defs fresh_def)
  moreover have "race_step 100 ([?t, ?c], race_world) ([?t, ?t], race_world)"
    using race_step.phase [of 1 "[?t, ?c]" race_world None] by (simp add: defs fresh_def)
  moreover have "race_step 100 ([?t, ?t], race_world) ([?h 12, ?t], w1)"
    using race_step.phase [of 0 "[?t, ?t]" race_world "Some 12"] w1 by (simp add: fresh_def del: send_phase.simps) (simp add: defs)
  moreover have "race_step 100 ([?h 12, ?t], w1) ([?h 12, ?h 13], w2)"
    using race_step.phase [of 1 "[?h 12, ?t]" w1 "Some 13"] w1 w2 by (simp add: fresh_def del: send_phase.simps) (auto simp: defs)
  moreover have "race_step 100 ([?h 12, ?h 13], w2) ([?r, ?h 13], w3)"
    using race_step.phase [of 0 "[?h 12, ?h 13]" w2 None] w3 by (simp add: fresh_def del: send_phase.simps)
  moreover have "race_step 100 ([?r, ?h 13], w3) ([?r, ?r], w4)"
    using race_step.phase [of 1 "[?r, ?h 13]" w3 None] w4 by (simp add: fresh_def del: send_phase.simps)
  ultimately have "(race_step 100)\<^sup>*\<^sup>* ([?r, ?r], race_world) ([?r, ?r], w4)"
    by (meson converse_rtranclp_into_rtranclp rtranclp.rtrancl_refl)
  moreover have "\<exists>sc. sx_sch w4 21 = Some sc \<and> sc_thr sc = Some 100 \<and> sc_pri sc = 0 \<and> sc_maxsize sc = 1 \<and> sc_cursize sc = 2"
    using w1 w2 w3 w4 by (auto simp: defs)
  ultimately show ?thesis by blast
qed

text \<open>The bound of two senders is reached: a maximum of one, and two jobs.\<close>

lemma senders_interleave_witness:
  "\<exists>w fs qs sc. sch_lists 100 w fs qs \<and> sx_sch w 21 = Some sc \<and> sc_maxsize sc = 1 \<and>
    sc_cursize sc = of_nat (held 21 (queues w qs ! unat (sc_pri sc))) \<and> sc_cursize sc = 2 \<and>
    held 21 (queues w qs ! unat (sc_pri sc)) \<le> 2 \<and> (\<exists>r. take_job 100 w = Inr r)"
proof -
  let ?r = "Returned EZCRTErr_success"
  obtain w sc where w: "(race_step 100)\<^sup>*\<^sup>* ([?r, ?r], race_world) ([?r, ?r], w)" "sx_sch w 21 = Some sc" "sc_maxsize sc = 1"
    "sc_cursize sc = 2" "sc_thr sc = Some 100" "sc_pri sc = 0" using two_senders_exceed by metis
  show ?thesis
    using senders_interleave [OF race_world_wf _ _ w(1)] w(2-) by (fastforce simp: EZCRTSchPri_num_def)
qed

end
