(* ===== verification/Zcrt_Mem_Kernal.thy ===== *)
theory Zcrt_Mem_Kernal
  imports Zcrt_Buf
begin

text \<open>
  The allocator of the kernel port, \<^verbatim>\<open>zcrtlib/zcrt_mem_kernal.c\<close>: \<^verbatim>\<open>kmalloc\<close> with a list
  of the blocks given out and their sizes, so that blocks can be reallocated. The functions
  \<^verbatim>\<open>zcrt_malloc\<close>, \<^verbatim>\<open>zcrt_free\<close> and \<^verbatim>\<open>zcrt_realloc\<close> of this port have the prefix
  \<^verbatim>\<open>kern\<close>. The list and its nodes are those of the kernel's \<^verbatim>\<open>list_head\<close>; each function runs
  as one step under the lock of the list.
\<close>

section \<open>State\<close>

text \<open>
  The memory \<^verbatim>\<open>kmalloc\<close> has given out, and the list of blocks, newest first (\<^verbatim>\<open>list_add\<close>
  puts a node at the front), each with its address and size. \<^verbatim>\<open>kmalloc\<close> itself is an argument:
  the address it gives (\<^verbatim>\<open>None\<close> when it fails); the bytes of a new block are zero here and
  unspecified in C.
\<close>

record zKernMem =
  km_mem :: "nat \<Rightarrow> block option"
  km_list :: "(nat \<times> nat) list"

section \<open>Operations\<close>

definition memblock_add :: "bool \<Rightarrow> nat \<Rightarrow> nat \<Rightarrow> zKernMem \<Rightarrow> bool \<times> zKernMem" where
  "memblock_add mok p sz st = (if \<not> mok then (False, st) else (True, st\<lparr>km_list := (p, sz) # km_list st\<rparr>))"

text \<open>Nodes are identified by their position in the list.\<close>

fun memblock_get :: "nat \<Rightarrow> (nat \<times> nat) list \<Rightarrow> nat option" where
  "memblock_get p [] = None"
| "memblock_get p (m # ms) = (if fst m = p then Some 0 else map_option Suc (memblock_get p ms))"

definition memblock_del :: "nat \<Rightarrow> zKernMem \<Rightarrow> zKernMem" where
  "memblock_del i st = st\<lparr>km_list := take i (km_list st) @ drop (Suc i) (km_list st)\<rparr>"

definition kern_malloc :: "nat option \<Rightarrow> bool \<Rightarrow> u32 \<Rightarrow> u32 \<Rightarrow> zKernMem \<Rightarrow> nat option \<times> zKernMem" where
  "kern_malloc kptr mok n tag st = (case kptr of
     None \<Rightarrow> (None, st)
   | Some p \<Rightarrow>
       let st1 = st\<lparr>km_mem := (km_mem st)(p \<mapsto> replicate (unat n) 0)\<rparr>; (ok, st2) = memblock_add mok p (unat n) st1 in
       if \<not> ok then (None, st2\<lparr>km_mem := (km_mem st2)(p := None)\<rparr>) else (Some p, st2))"

definition kern_free :: "nat option \<Rightarrow> zKernMem \<Rightarrow> zKernMem" where
  "kern_free ptr st = (case ptr of
     None \<Rightarrow> st
   | Some p \<Rightarrow> (case memblock_get p (km_list st) of
       None \<Rightarrow> st
     | Some i \<Rightarrow> (memblock_del i st)\<lparr>km_mem := (km_mem st)(p := None)\<rparr>))"

text \<open>
  \<^verbatim>\<open>memmove(nbuf, ptr, m->size)\<close> copies as many bytes as the old block has, whatever the size
  of the new one.
\<close>

definition kern_realloc :: "nat option \<Rightarrow> bool \<Rightarrow> nat option \<Rightarrow> nat \<Rightarrow> u32 \<Rightarrow> zKernMem \<Rightarrow> (nat option \<times> zKernMem) res" where
  "kern_realloc kptr mok ptr n tag st = (case ptr of
     Some p \<Rightarrow> (case memblock_get p (km_list st) of
       None \<Rightarrow> Inr (None, st)
     | Some i \<Rightarrow> let m = km_list st ! i in
         if n = snd m then Inr (Some p, st)
         else if n \<noteq> 0 then (case kptr of
             None \<Rightarrow> Inr (None, st)
           | Some q \<Rightarrow>
               rbind (load_n (km_mem st p, 0) (snd m)) (\<lambda>bytes.
               rbind (store (Some (replicate n 0)) 0 bytes) (\<lambda>blk.
               let st1 = st\<lparr>km_mem := (km_mem st)(q \<mapsto> blk)\<rparr>; (ok, st2) = memblock_add mok q n st1 in
               if \<not> ok then Inr (None, st2\<lparr>km_mem := (km_mem st2)(q := None)\<rparr>)
               else let st3 = memblock_del (Suc i) st2 in
                 Inr (Some q, st3\<lparr>km_mem := (km_mem st3)(p := None)\<rparr>))))
         else let st3 = memblock_del i st in Inr (None, st3\<lparr>km_mem := (km_mem st3)(p := None)\<rparr>))
   | None \<Rightarrow>
       if n \<noteq> 0 then (case kptr of
           None \<Rightarrow> Inr (None, st)
         | Some q \<Rightarrow>
             let st1 = st\<lparr>km_mem := (km_mem st)(q \<mapsto> replicate n 0)\<rparr>; (ok, st2) = memblock_add mok q n st1 in
             if \<not> ok then Inr (None, st2\<lparr>km_mem := (km_mem st2)(q := None)\<rparr>) else Inr (Some q, st2))
       else Inr (None, st))"

section \<open>The list and the memory agree\<close>

text \<open>Every block is in the list once, with its size, and nothing else is.\<close>

definition km_wf :: "zKernMem \<Rightarrow> bool" where
  "km_wf st \<longleftrightarrow> distinct (map fst (km_list st)) \<and> (\<forall>p. map_option length (km_mem st p) = map_of (km_list st) p)"

lemma memblock_get_Some:
  "memblock_get p ms = Some i \<Longrightarrow> i < length ms \<and> fst (ms ! i) = p \<and> map_of ms p = Some (snd (ms ! i))"
  by (induction ms arbitrary: i) (auto split: if_splits)

lemma memblock_get_None: "memblock_get p ms = None \<longleftrightarrow> p \<notin> fst ` set ms"
  by (induction ms) auto

lemma map_of_drop:
  "distinct (map fst (xs @ (p, v) # ys)) \<Longrightarrow> map_of (xs @ ys) x = (if x = p then None else map_of (xs @ (p, v) # ys) x)"
  by (induction xs) (auto simp: map_of_eq_None_iff)

lemma km_wf_del:
  assumes wf: "km_wf st" and g: "memblock_get p (km_list st) = Some i"
  shows "km_wf ((memblock_del i st)\<lparr>km_mem := (km_mem st)(p := None)\<rparr>)"
proof -
  let ?ms = "km_list st"
  have i: "i < length ?ms" "fst (?ms ! i) = p" using memblock_get_Some [OF g] by auto
  then have ms: "?ms = take i ?ms @ (p, snd (?ms ! i)) # drop (Suc i) ?ms" using id_take_nth_drop [OF i(1)] by (metis prod.collapse)
  have d: "distinct (map fst ?ms)" using wf by (simp add: km_wf_def)
  then have d2: "distinct (map fst (take i ?ms @ (p, snd (?ms ! i)) # drop (Suc i) ?ms))" using ms by simp
  have "map_of (take i ?ms @ drop (Suc i) ?ms) x = (if x = p then None else map_of ?ms x)" for x
    using map_of_drop [OF d2] ms by simp
  moreover have "distinct (map fst (take i ?ms @ drop (Suc i) ?ms))" using d2 by auto
  ultimately show ?thesis using wf unfolding km_wf_def memblock_del_def by simp
qed

lemma km_wf_add:
  assumes "km_wf st" "km_mem st p = None" "length blk = n"
  shows "km_wf (st\<lparr>km_mem := (km_mem st)(p \<mapsto> blk), km_list := (p, n) # km_list st\<rparr>)"
proof -
  have "map_of (km_list st) p = None" using assms(1,2) unfolding km_wf_def by (metis option.map(1))
  then show ?thesis using assms by (auto simp: km_wf_def map_of_eq_None_iff)
qed

lemma get_of_mem:
  assumes "km_wf st" "km_mem st p = Some blk"
  obtains i where "memblock_get p (km_list st) = Some i" "km_list st ! i = (p, length blk)"
proof -
  have m: "map_of (km_list st) p = Some (length blk)" using assms unfolding km_wf_def by (metis option.map(2))
  then have "p \<in> fst ` set (km_list st)" by (force dest: map_of_SomeD)
  then obtain i where i: "memblock_get p (km_list st) = Some i" using memblock_get_None by (cases "memblock_get p (km_list st)") auto
  with memblock_get_Some [OF i] m have "km_list st ! i = (p, length blk)" by (metis option.inject prod.collapse)
  with i that show ?thesis by blast
qed

text \<open>Allocating and freeing keep the list of blocks in agreement with the memory: each block is listed once,
  with its true size. Freeing an address that is not allocated, such as one freed before, changes nothing.\<close>

theorem kern_mem_wf:
  assumes wf: "km_wf st" and fresh: "\<And>q. kptr = Some q \<Longrightarrow> km_mem st q = None"
  shows "km_wf (snd (kern_malloc kptr mok n tag st)) \<and> km_wf (kern_free (Some p) st) \<and>
    kern_free (Some p) (kern_free (Some p) st) = kern_free (Some p) st \<and> (km_mem st p = None \<longrightarrow> kern_free (Some p) st = st)"
proof -
  have m: "km_wf (snd (kern_malloc kptr mok n tag st))"
  proof (cases kptr)
    case (Some q)
    then have "(km_mem st)(q := None) = km_mem st" using fresh by (simp add: fun_upd_idem)
    then show ?thesis
      using km_wf_add [OF wf fresh [OF Some], of "replicate (unat n) 0" "unat n"] Some wf
      by (simp add: kern_malloc_def memblock_add_def Let_def)
  qed (simp add: kern_malloc_def wf)
  have none: "kern_free (Some p) s = s" if "km_wf s" "km_mem s p = None" for s
  proof -
    have "map_of (km_list s) p = None" using that unfolding km_wf_def by (metis option.map(1))
    then have "memblock_get p (km_list s) = None" by (simp add: memblock_get_None map_of_eq_None_iff)
    then show ?thesis by (simp add: kern_free_def)
  qed
  have f: "km_wf (kern_free (Some p) st) \<and> km_mem (kern_free (Some p) st) p = None"
  proof (cases "km_mem st p")
    case None
    with none [OF wf None] wf show ?thesis by simp
  next
    case (Some blk)
    obtain i where i: "memblock_get p (km_list st) = Some i" using get_of_mem [OF wf Some] by blast
    then show ?thesis using km_wf_del [OF wf i] by (simp add: kern_free_def memblock_del_def)
  qed
  with m none wf show ?thesis by blast
qed

text \<open>C39. A reallocation of a block to at least its size meets the contract the rest of the runtime relies on:
  when memory can be had, the block returned has the new size and begins with the old bytes, the old
  block is freed, and the list agrees with the memory.\<close>

theorem kern_realloc_grow:
  assumes wf: "km_wf st" and p: "km_mem st p = Some blk" and q: "km_mem st q = None" and n: "length blk \<le> n" "n \<noteq> 0"
  shows "\<exists>r st' blk'. kern_realloc (Some q) True (Some p) n tag st = Inr (Some r, st') \<and> km_wf st' \<and>
    km_mem st' r = Some blk' \<and> length blk' = n \<and> take (length blk) blk' = blk \<and>
    (\<forall>x. x \<noteq> r \<longrightarrow> km_mem st' x = (if x = p then None else km_mem st x))"
proof -
  obtain i where i: "memblock_get p (km_list st) = Some i" "km_list st ! i = (p, length blk)" using get_of_mem [OF wf p] by blast
  show ?thesis
  proof (cases "n = length blk")
    case True
    then have "kern_realloc (Some q) True (Some p) n tag st = Inr (Some p, st)" using i by (simp add: kern_realloc_def)
    with wf p True show ?thesis by auto
  next
    case False
    let ?blk = "realloc_bytes n blk"
    have ld: "load_n (Some blk, 0) (length blk) = Inr blk" by (simp add: load_n_def)
    have bs: "take n blk = blk" using n(1) by simp
    have sto: "store (Some (replicate n 0)) 0 blk = Inr ?blk" using n(1) by (simp add: store_Some realloc_bytes_def bs)
    have pq: "p \<noteq> q" using p q by auto
    let ?st2 = "st\<lparr>km_mem := (km_mem st)(q \<mapsto> ?blk), km_list := (q, n) # km_list st\<rparr>"
    have lb: "length ?blk = n" using n(1) by (simp add: realloc_bytes_def bs)
    have wf2: "km_wf ?st2" by (rule km_wf_add [OF wf q lb])
    have i2: "memblock_get p (km_list ?st2) = Some (Suc i)" using i(1) pq by simp
    let ?st3 = "(memblock_del (Suc i) ?st2)\<lparr>km_mem := (km_mem ?st2)(p := None)\<rparr>"
    have "kern_realloc (Some q) True (Some p) n tag st = Inr (Some q, ?st3)"
      using i p False n ld sto by (simp add: kern_realloc_def memblock_add_def memblock_del_def Let_def)
    moreover have "km_wf ?st3" by (rule km_wf_del [OF wf2 i2])
    moreover have "take (length blk) ?blk = blk" using bs by (simp add: realloc_bytes_def)
    ultimately show ?thesis using lb pq
      by (intro exI [of _ q] exI [of _ ?st3] exI [of _ ?blk]) (simp add: memblock_del_def)
  qed
qed

text \<open>A reallocation that shrinks a block to a size other than 0 writes past the end of the new block.\<close>

theorem kern_realloc_shrink:
  assumes "km_wf st" "km_mem st p = Some blk" "n < length blk" "n \<noteq> 0"
  shows "kern_realloc (Some q) mok (Some p) n tag st = Inl OutOfBounds"
proof -
  obtain i where i: "memblock_get p (km_list st) = Some i" "km_list st ! i = (p, length blk)" using get_of_mem [OF assms(1,2)] by blast
  have "load_n (Some blk, 0) (length blk) = Inr blk" by (simp add: load_n_def)
  then show ?thesis using i assms(2-4) by (simp add: kern_realloc_def store_Some)
qed

definition kern_example :: zKernMem where
  "kern_example = \<lparr>km_mem = [5 \<mapsto> [1, 2, 3]], km_list = [(5, 3)]\<rparr>"

lemma kern_example_wf: "km_wf kern_example" "km_mem kern_example 5 = Some [1, 2, 3]" "km_mem kern_example 7 = None"
  by (simp_all add: km_wf_def kern_example_def)

theorem kern_mem_wf_witness:
  "km_wf (snd (kern_malloc (Some 7) True 16 0 kern_example)) \<and> km_wf (kern_free (Some 5) kern_example) \<and>
    kern_free (Some 5) (kern_free (Some 5) kern_example) = kern_free (Some 5) kern_example"
  using kern_mem_wf [OF kern_example_wf(1), of "Some 7" True 16 0 5] kern_example_wf(3) by blast

theorem kern_realloc_grow_witness:
  "\<exists>r st' blk'. kern_realloc (Some 7) True (Some 5) 8 0 kern_example = Inr (Some r, st') \<and> km_mem st' r = Some blk' \<and>
    take (length [1, 2, 3 :: u8]) blk' = [1, 2, 3]"
  using kern_realloc_grow [OF kern_example_wf(1-3), of 8 0] by fastforce

theorem kern_realloc_shrink_witness:
  "kern_realloc (Some 7) True (Some 5) 2 0 kern_example = Inl OutOfBounds"
  using kern_realloc_shrink [OF kern_example_wf(1,2), of 2] by simp

end
