(* ===== verification/Zipc_Varint.thy ===== *)
theory Zipc_Varint
  imports Zcrt_Buf
begin

text \<open>
  The variable-length integers of \<^verbatim>\<open>zipc/zipc_tlv.c\<close>: zig-zag mapping of signed values,
  and the unrolled readers and writers of base-128 numbers, 7 bits a byte, least significant group
  first. The unrolled code is compared with recursive definitions over natural numbers.
\<close>

section \<open>Zig-zag\<close>

definition zcrt_ZigZagEncode32 :: "s32 \<Rightarrow> u32" where
  "zcrt_ZigZagEncode32 n = push_bit 1 n XOR signed_drop_bit 31 n"

definition zcrt_ZigZagDecode32 :: "u32 \<Rightarrow> s32" where
  "zcrt_ZigZagDecode32 n = drop_bit 1 n XOR - (n AND 1)"

definition zcdr_Encode64 :: "s64 \<Rightarrow> u64" where
  "zcdr_Encode64 n = push_bit 1 n XOR signed_drop_bit 63 n"

definition zcdr_Decode64 :: "u64 \<Rightarrow> s64" where
  "zcdr_Decode64 n = drop_bit 1 n XOR - (n AND 1)"

section \<open>Readers\<close>

text \<open>
  \<^verbatim>\<open>if (0 > limit--) return NULL; b = *(ptr++);\<close> over a pointer to \<^verbatim>\<open>char\<close>, which is
  signed: the byte is sign-extended into \<^verbatim>\<open>b\<close>. \<^verbatim>\<open>limit\<close> is the value before the
  decrement.
\<close>

definition next_char :: "bptr \<Rightarrow> nat \<Rightarrow> int \<Rightarrow> (u32 \<Rightarrow> (bptr \<times> u32) res) \<Rightarrow> (bptr \<times> u32) res" where
  "next_char p k limit f =
     (if 0 > limit then Inr (null_ptr, 0) else rbind (load8 p k) (\<lambda>c. f (scast c)))"

definition zcrt_tlv_read_len :: "bptr \<Rightarrow> int \<Rightarrow> (bptr \<times> u32) res" where
  "zcrt_tlv_read_len buf limit =
     next_char buf 0 limit (\<lambda>b. let result = b AND 0x7F in
     if b AND 0x80 = 0 then Inr (padd buf 1, result) else
     next_char buf 1 (limit - 1) (\<lambda>b. let result = result OR push_bit 7 (b AND 0x7F) in
     if b AND 0x80 = 0 then Inr (padd buf 2, result) else
     next_char buf 2 (limit - 2) (\<lambda>b. let result = result OR push_bit 14 (b AND 0x7F) in
     if b AND 0x80 = 0 then Inr (padd buf 3, result) else
     next_char buf 3 (limit - 3) (\<lambda>b. let result = result OR push_bit 21 (b AND 0x7F) in
     if b AND 0x80 = 0 then Inr (padd buf 4, result) else
     next_char buf 4 (limit - 4) (\<lambda>b. let result = result OR push_bit 28 b in
     if b AND 0x80 = 0 then Inr (padd buf 5, result) else Inr (null_ptr, 0))))))"

text \<open>
  The 64-bit reader works on \<^verbatim>\<open>unsigned char\<close>. It returns the number of bytes read, or -1
  with nothing stored; the ninth byte is read without a test of \<^verbatim>\<open>limit\<close>.
\<close>

definition next_uchar ::
  "bptr \<Rightarrow> nat \<Rightarrow> int \<Rightarrow> (u32 \<Rightarrow> (int \<times> u64 option) res) \<Rightarrow> (int \<times> u64 option) res" where
  "next_uchar p k limit f =
     (if 0 > limit then Inr (-1, None) else rbind (load8 p k) (\<lambda>c. f (ucast c)))"

definition done64 :: "int \<Rightarrow> u32 \<Rightarrow> u32 \<Rightarrow> u32 \<Rightarrow> (int \<times> u64 option) res" where
  "done64 n result0 result1 result2 =
     Inr (n, Some (ucast result0 OR push_bit 28 (ucast result1) OR push_bit 56 (ucast result2)))"

definition zcdr_ReadLEN64 :: "bptr \<Rightarrow> int \<Rightarrow> (int \<times> u64 option) res" where
  "zcdr_ReadLEN64 buf limit =
     next_uchar buf 0 limit (\<lambda>b. let result0 = b AND 0x7F in
     if b AND 0x80 = 0 then done64 1 result0 0 0 else
     next_uchar buf 1 (limit - 1) (\<lambda>b. let result0 = result0 OR push_bit 7 (b AND 0x7F) in
     if b AND 0x80 = 0 then done64 2 result0 0 0 else
     next_uchar buf 2 (limit - 2) (\<lambda>b. let result0 = result0 OR push_bit 14 (b AND 0x7F) in
     if b AND 0x80 = 0 then done64 3 result0 0 0 else
     next_uchar buf 3 (limit - 3) (\<lambda>b. let result0 = result0 OR push_bit 21 (b AND 0x7F) in
     if b AND 0x80 = 0 then done64 4 result0 0 0 else
     next_uchar buf 4 (limit - 4) (\<lambda>b. let result1 = b AND 0x7F in
     if b AND 0x80 = 0 then done64 5 result0 result1 0 else
     next_uchar buf 5 (limit - 5) (\<lambda>b. let result1 = result1 OR push_bit 7 (b AND 0x7F) in
     if b AND 0x80 = 0 then done64 6 result0 result1 0 else
     next_uchar buf 6 (limit - 6) (\<lambda>b. let result1 = result1 OR push_bit 14 (b AND 0x7F) in
     if b AND 0x80 = 0 then done64 7 result0 result1 0 else
     next_uchar buf 7 (limit - 7) (\<lambda>b. let result1 = result1 OR push_bit 21 (b AND 0x7F) in
     if b AND 0x80 = 0 then done64 8 result0 result1 0 else
     rbind (load8 buf 8) (\<lambda>c. let b = ucast c; result2 = b AND 0x7F in
     if b AND 0x80 = 0 then done64 9 result0 result1 result2 else
     next_uchar buf 9 (limit - 8) (\<lambda>b. let result2 = result2 OR push_bit 7 (b AND 0x7F) in
     if b AND 0x80 = 0 then done64 10 result0 result1 result2 else Inr (-1, None)))))))))))"

section \<open>Writers\<close>

text \<open>The bytes stored from \<^verbatim>\<open>target[0]\<close> on; the count returned is their number.\<close>

definition zcrt_tlv_write_len :: "u32 \<Rightarrow> u8 list" where
  "zcrt_tlv_write_len value =
     (let t0 = ucast (value OR 0x80) in
      if value \<ge> 2 ^ 7 then
        let t1 = ucast (drop_bit 7 value OR 0x80) in
        if value \<ge> 2 ^ 14 then
          let t2 = ucast (drop_bit 14 value OR 0x80) in
          if value \<ge> 2 ^ 21 then
            let t3 = ucast (drop_bit 21 value OR 0x80) in
            if value \<ge> 2 ^ 28 then [t0, t1, t2, t3, ucast (drop_bit 28 value)]
            else [t0, t1, t2, t3 AND 0x7F]
          else [t0, t1, t2 AND 0x7F]
        else [t0, t1 AND 0x7F]
      else [t0 AND 0x7F])"

definition writelen64_size :: "u32 \<Rightarrow> u32 \<Rightarrow> u32 \<Rightarrow> nat" where
  "writelen64_size part0 part1 part2 =
     (if part2 = 0 then
        if part1 = 0 then
          if part0 < 2 ^ 14 then if part0 < 2 ^ 7 then 1 else 2
          else if part0 < 2 ^ 21 then 3 else 4
        else
          if part1 < 2 ^ 14 then if part1 < 2 ^ 7 then 5 else 6
          else if part1 < 2 ^ 21 then 7 else 8
      else if part2 < 2 ^ 7 then 9 else 10)"

definition zcdr_WriteLEN64 :: "u64 \<Rightarrow> u8 list" where
  "zcdr_WriteLEN64 value =
     (let part0 = ucast value :: u32;
          part1 = ucast (drop_bit 28 value) :: u32;
          part2 = ucast (drop_bit 56 value) :: u32;
          size = writelen64_size part0 part1 part2;
          target = take size
           [ucast (part0 OR 0x80), ucast (drop_bit 7 part0 OR 0x80), ucast (drop_bit 14 part0 OR 0x80),
            ucast (drop_bit 21 part0 OR 0x80), ucast (part1 OR 0x80), ucast (drop_bit 7 part1 OR 0x80),
            ucast (drop_bit 14 part1 OR 0x80), ucast (drop_bit 21 part1 OR 0x80),
            ucast (part2 OR 0x80), ucast (drop_bit 7 part2 OR 0x80)]
      in target[size - 1 := target ! (size - 1) AND 0x7F])"

section \<open>Reference definitions\<close>

fun varint_bytes :: "nat \<Rightarrow> u8 list" where
  "varint_bytes n = (if n < 128 then [of_nat n] else of_nat (n mod 128 + 128) # varint_bytes (n div 128))"

declare varint_bytes.simps [simp del]

text \<open>
  One group at a time over any word width: at most \<^verbatim>\<open>g\<close> more groups, the next one at
  index \<^verbatim>\<open>k\<close>, \<^verbatim>\<open>lim k\<close> the limit tested before it is read. The result is the
  number of bytes read and the number, or nothing.
\<close>

fun rd_groups :: "nat \<Rightarrow> bptr \<Rightarrow> nat \<Rightarrow> (nat \<Rightarrow> int) \<Rightarrow> 'a::len word \<Rightarrow> (nat \<times> 'a word) option res" where
  "rd_groups 0 p k lim acc = Inr None"
| "rd_groups (Suc g) p k lim acc =
     (if 0 > lim k then Inr None else rbind (load8 p k) (\<lambda>c.
        let acc' = acc OR push_bit (7 * k) (ucast c AND 0x7F) in
        if c < 128 then Inr (Some (k + 1, acc')) else rd_groups g p (k + 1) lim acc'))"

definition ret32 :: "bptr \<Rightarrow> (nat \<times> u32) option \<Rightarrow> bptr \<times> u32" where
  "ret32 p r = (case r of None \<Rightarrow> (null_ptr, 0) | Some (n, v) \<Rightarrow> (padd p n, v))"

definition ret64 :: "(nat \<times> u64) option \<Rightarrow> int \<times> u64 option" where
  "ret64 r = (case r of None \<Rightarrow> (-1, None) | Some (n, v) \<Rightarrow> (int n, Some v))"

definition lim64 :: "int \<Rightarrow> nat \<Rightarrow> int" where
  "lim64 limit k = (if k < 8 then limit - int k else if k = 8 then 0 else limit - 8)"

section \<open>Zig-zag is a bijection\<close>

lemma sign_bit: "bit (signed_drop_bit (LENGTH('a) - 1) (n :: 'a::len word)) k \<longleftrightarrow>
    k < LENGTH('a) \<and> bit n (LENGTH('a) - 1)"
  using bit_imp_le_length [of n "LENGTH('a) - 1 + k"]
  by (auto simp: bit_signed_drop_bit_iff not_le Suc_le_eq split: if_splits)

lemma shift1_bit: "bit (push_bit 1 (n :: 'a::len word)) k \<longleftrightarrow> k < LENGTH('a) \<and> 0 < k \<and> bit n (k - 1)"
  unfolding bit_push_bit_iff by (auto dest: bit_imp_le_length)

lemma zigzag32_bits:
  "bit (zcrt_ZigZagEncode32 n) k \<longleftrightarrow> k < 32 \<and> ((0 < k \<and> bit n (k - 1)) \<noteq> bit n 31)"
  using sign_bit [of n k] shift1_bit [of n k] unfolding zcrt_ZigZagEncode32_def bit_xor_iff by auto

lemma neg_and1: "- (n AND 1) = (if bit n 0 then - 1 else 0 :: 'a::len word)"
  by (auto simp: and_one_eq bit_0 odd_iff_mod_2_eq_one even_iff_mod_2_eq_zero)

lemma neg_and1_bits: "bit (- (n AND 1) :: 'a::len word) k \<longleftrightarrow> k < LENGTH('a) \<and> bit n 0"
  unfolding neg_and1 by (auto simp: bit_simps)

lemma unzigzag32_bits:
  "bit (zcrt_ZigZagDecode32 n) k \<longleftrightarrow> k < 32 \<and> (bit n (Suc k) \<noteq> bit n 0)"
  unfolding zcrt_ZigZagDecode32_def bit_xor_iff neg_and1_bits bit_drop_bit_eq
  by (auto dest: bit_imp_le_length)

lemma zigzag32_inverse: "zcrt_ZigZagDecode32 (zcrt_ZigZagEncode32 n) = n"
proof (rule bit_word_eqI)
  fix k assume "k < LENGTH(32)"
  then show "bit (zcrt_ZigZagDecode32 (zcrt_ZigZagEncode32 n)) k = bit n k"
    by (cases "k = 31") (auto simp: unzigzag32_bits zigzag32_bits)
qed

lemma zigzag64_bits:
  "bit (zcdr_Encode64 n) k \<longleftrightarrow> k < 64 \<and> ((0 < k \<and> bit n (k - 1)) \<noteq> bit n 63)"
  using sign_bit [of n k] shift1_bit [of n k] unfolding zcdr_Encode64_def bit_xor_iff by auto

lemma unzigzag64_bits:
  "bit (zcdr_Decode64 n) k \<longleftrightarrow> k < 64 \<and> (bit n (Suc k) \<noteq> bit n 0)"
  unfolding zcdr_Decode64_def bit_xor_iff neg_and1_bits bit_drop_bit_eq
  by (auto dest: bit_imp_le_length)

lemma zigzag64_inverse: "zcdr_Decode64 (zcdr_Encode64 n) = n"
proof (rule bit_word_eqI)
  fix k assume "k < LENGTH(64)"
  then show "bit (zcdr_Decode64 (zcdr_Encode64 n)) k = bit n k"
    by (cases "k = 63") (auto simp: unzigzag64_bits zigzag64_bits)
qed

lemma zigzag32_inverse': "zcrt_ZigZagEncode32 (zcrt_ZigZagDecode32 n) = n"
proof (rule bit_word_eqI)
  fix k assume "k < LENGTH(32)"
  then show "bit (zcrt_ZigZagEncode32 (zcrt_ZigZagDecode32 n)) k = bit n k"
    using bit_imp_le_length [of n 32]
    by (cases "k = 0") (auto simp: unzigzag32_bits zigzag32_bits)
qed

section \<open>Bytes of a group\<close>

lemma and_7F: "(x :: u32) AND 0x7F = take_bit 7 x"
  by (simp add: take_bit_eq_mask mask_eq_exp_minus_1)

lemma char_low7: "(scast (c :: u8) :: u32) AND 0x7F = ucast c AND 0x7F"
  unfolding and_7F by (rule bit_word_eqI) (auto simp: bit_simps)

lemma unat_take_bit: "unat (take_bit k (w :: 'a::len word)) = unat w mod 2 ^ k"
  unfolding unsigned_take_bit_eq by (rule take_bit_eq_mod)

lemma unat_shift: "unat (drop_bit k (w :: 'a::len word)) = unat w div 2 ^ k"
  unfolding unat_drop_bit_eq by (rule drop_bit_eq_div)

lemma u32_of_group: "(ucast (c :: u8) AND 0x7F :: u32) = of_nat (unat c mod 128)"
proof -
  have "unat (ucast c :: u32) = unat c"
    unfolding unsigned_ucast_eq by (rule take_bit_nat_eq_self, rule less_trans [OF u8_bound]) simp
  then have "unat (take_bit 7 (ucast c :: u32)) = unat c mod 128"
    by (simp add: unat_take_bit)
  moreover have "unat (of_nat (unat c mod 128) :: u32) = unat c mod 128" by (simp add: unat_of_nat)
  ultimately show ?thesis by (simp add: and_7F word_unat_eq_iff)
qed

lemma char_high: "(scast (c :: u8) :: u32) AND 0x80 = 0 \<longleftrightarrow> c < 128"
  and uchar_high: "(ucast (c :: u8) :: u32) AND 0x80 = 0 \<longleftrightarrow> c < 128"
proof -
  have e: "(0x80 :: u32) = 2 ^ 7" by simp
  have "c < 128 \<longleftrightarrow> \<not> bit c 7"
  proof -
    have "c < 128 \<longleftrightarrow> unat c div 128 = 0" by (simp add: word_less_nat_alt div_eq_0_iff)
    also have "\<dots> \<longleftrightarrow> \<not> odd (unat c div 128)"
    proof -
      have "unat c div 128 < 2" using u8_bound [of c] by linarith
      then show ?thesis by (metis less_2_cases odd_one even_zero One_nat_def)
    qed
    also have "odd (unat c div 128) \<longleftrightarrow> bit (unat c) 7" by (simp add: bit_iff_odd)
    also have "bit (unat c) 7 \<longleftrightarrow> bit c 7" by (simp add: bit_unsigned_iff)
    finally show ?thesis .
  qed
  then show "(scast c :: u32) AND 0x80 = 0 \<longleftrightarrow> c < 128" "(ucast c :: u32) AND 0x80 = 0 \<longleftrightarrow> c < 128"
    by (simp_all only: e and_exp_eq_0_iff_not_bit) (auto simp: bit_simps)
qed

lemma unat_of_nat_u8: "n < 256 \<Longrightarrow> unat (of_nat n :: u8) = n"
  by (simp add: unat_of_nat)

lemma byte_hi: "(ucast (w OR 0x80 :: u32) :: u8) = of_nat (unat w mod 128 + 128)"
proof -
  have e: "(0x80 :: u32) = 2 ^ 7" by simp
  have "take_bit 7 w + 2 ^ 7 = take_bit 7 w OR 2 ^ 7"
    by (rule disjunctive_add) (unfold bit_take_bit_iff bit_exp_iff, auto)
  also have "\<dots> = take_bit 8 (w OR 2 ^ 7)"
    by (rule bit_word_eqI) (unfold bit_take_bit_iff bit_exp_iff bit_or_iff, auto)
  finally have tb: "take_bit 8 (w OR 0x80) = take_bit 7 w + 2 ^ 7" unfolding e ..
  have "unat (take_bit 7 w) = unat w mod 128" by (simp add: unat_take_bit)
  then have "unat (take_bit 7 w + 2 ^ 7) = unat w mod 128 + 128"
    by (subst unat_add_u32_small) (simp_all add: less_trans [OF mod_less_divisor])
  then have "unat (take_bit 8 (w OR 0x80)) = unat w mod 128 + 128" using tb by simp
  moreover have "unat (ucast x :: u8) = unat (take_bit 8 x)" for x :: u32
    by (simp add: unsigned_ucast_eq unsigned_take_bit_eq)
  ultimately have "unat (ucast (w OR 0x80) :: u8) = unat w mod 128 + 128" by metis
  moreover have "unat (of_nat (unat w mod 128 + 128) :: u8) = unat w mod 128 + 128"
    using mod_less_divisor [of 128 "unat w"] by (intro unat_of_nat_u8) linarith
  ultimately show ?thesis by (simp only: word_unat_eq_iff)
qed

lemma byte_lo: "(ucast (w OR 0x80 :: u32) AND 0x7F :: u8) = of_nat (unat w mod 128)"
proof -
  let ?m = "unat w mod 128"
  have m: "?m < 128" by simp
  have and7: "(x :: u8) AND 0x7F = take_bit 7 x" for x
    by (simp add: take_bit_eq_mask mask_eq_exp_minus_1)
  have "unat (of_nat (?m + 128) :: u8) = ?m + 128" using m by (intro unat_of_nat_u8) linarith
  then have "unat (take_bit 7 (of_nat (?m + 128) :: u8)) = ?m"
    unfolding unat_take_bit by simp
  moreover have "unat (of_nat ?m :: u8) = ?m" using m by (intro unat_of_nat_u8) linarith
  ultimately show ?thesis unfolding byte_hi and7 word_unat_eq_iff by simp
qed

lemma varint_bytes_small: "n < 128 \<Longrightarrow> varint_bytes n = [of_nat n]"
  by (simp add: varint_bytes.simps)

lemma varint_bytes_big:
  "128 \<le> n \<Longrightarrow> varint_bytes n = of_nat (n mod 128 + 128) # varint_bytes (n div 128)"
  by (subst varint_bytes.simps) simp

lemma last_byte: "(ucast (w :: u32) :: u8) = of_nat (unat w)"
  by (simp add: word_unat_eq_iff unsigned_ucast_eq unat_of_nat take_bit_eq_mod)

lemma write_len_varint: "zcrt_tlv_write_len value = varint_bytes (unat value)"
proof -
  let ?n = "unat value"
  have d: "unat (drop_bit 7 value) = ?n div 128" "unat (drop_bit 14 value) = ?n div 16384"
    "unat (drop_bit 21 value) = ?n div 2097152" "unat (drop_bit 28 value) = ?n div 268435456"
    by (simp_all add: unat_shift)
  have q: "?n div 128 div 128 = ?n div 16384" "?n div 16384 div 128 = ?n div 2097152"
    "?n div 2097152 div 128 = ?n div 268435456"
    by (simp_all add: div_mult2_eq [symmetric])
  note unf = word_le_nat_alt byte_hi d q varint_bytes_small
    varint_bytes_big last_byte [of "drop_bit 28 value"]
  consider "?n < 128" | "128 \<le> ?n" "?n < 16384" | "16384 \<le> ?n" "?n < 2097152"
    | "2097152 \<le> ?n" "?n < 268435456" | "268435456 \<le> ?n" by linarith
  then show ?thesis
  proof cases
    case 1
    then show ?thesis unfolding zcrt_tlv_write_len_def Let_def byte_lo by (simp add: unf)
  next
    case 2
    then have "?n div 128 < 128" by linarith
    with 2 show ?thesis unfolding zcrt_tlv_write_len_def Let_def byte_lo by (simp add: unf)
  next
    case 3
    then have "128 \<le> ?n div 128" "?n div 16384 < 128" by linarith+
    with 3 show ?thesis unfolding zcrt_tlv_write_len_def Let_def byte_lo by (simp add: unf)
  next
    case 4
    then have "128 \<le> ?n div 128" "128 \<le> ?n div 16384" "?n div 2097152 < 128" by linarith+
    with 4 show ?thesis unfolding zcrt_tlv_write_len_def Let_def byte_lo by (simp add: unf)
  next
    case 5
    then have "128 \<le> ?n div 128" "128 \<le> ?n div 16384" "128 \<le> ?n div 2097152"
      "?n div 268435456 < 128" using u32_bound [of "value"] by linarith+
    with 5 show ?thesis unfolding zcrt_tlv_write_len_def Let_def byte_lo by (simp add: unf)
  qed
qed

section \<open>Reading a varint back\<close>

lemma last_group: "push_bit 28 (scast (c :: u8) :: u32) = push_bit 28 (ucast c AND 0x7F)"
  unfolding and_7F by (rule bit_word_eqI) (auto simp: bit_simps)

text \<open>
  The unrolled reader is the loop over at most five groups: the sign extension of the characters and
  the missing mask of the fifth byte make no difference in 32 bits.
\<close>

lemma rbind_if: "rbind (if c then m else m') f = (if c then rbind m f else rbind m' f)"
  by simp

lemma read_len_groups:
  "zcrt_tlv_read_len p limit = rbind (rd_groups 5 p 0 (\<lambda>k. limit - int k) 0) (\<lambda>r. Inr (ret32 p r))"
proof -
  have n: "rd_groups 5 = rd_groups (Suc (Suc (Suc (Suc (Suc 0)))))" by (simp add: eval_nat_numeral)
  have ar: "(0::nat) + 1 = 1" "(1::nat) + 1 = 2" "(2::nat) + 1 = 3" "(3::nat) + 1 = 4" "(4::nat) + 1 = 5"
    "7 * (0::nat) = 0" "7 * (1::nat) = 7" "7 * (2::nat) = 14" "7 * (3::nat) = 21" "7 * (4::nat) = 28"
    "limit - int 0 = limit" "int 1 = 1" "int 2 = 2" "int 3 = 3" "int 4 = 4"
    by simp_all
  show ?thesis
    unfolding zcrt_tlv_read_len_def next_char_def n rd_groups.simps(1,2) Let_def char_high char_low7
      last_group
    by (simp only: ar push_bit_0_id id_apply or.left_neutral rbind_if rbind_assoc rbind.simps ret32_def
        option.case prod.case)
qed

lemma ucast_group: "k \<le> 25 \<Longrightarrow> (ucast (push_bit k (ucast (c :: u8) AND 0x7F :: u32)) :: u64) =
    push_bit k (ucast c AND 0x7F)"
proof -
  assume k: "k \<le> 25"
  have 7: "(x :: u64) AND 0x7F = take_bit 7 x" for x by (simp add: take_bit_eq_mask mask_eq_exp_minus_1)
  show ?thesis
    unfolding and_7F 7 using k
    by (intro bit_word_eqI)
      (auto simp: bit_push_bit_iff bit_take_bit_iff bit_unsigned_iff dest: bit_imp_le_length)
qed

lemma ucast_group0: "(ucast (ucast (c :: u8) AND 0x7F :: u32) :: u64) = ucast c AND 0x7F"
  using ucast_group [of 0 c] by (simp only: push_bit_0_id id_apply)

lemma ucast_or64: "(ucast (a OR b :: u32) :: u64) = ucast a OR ucast b"
  by (rule bit_word_eqI) (auto simp: bit_simps)

lemma read64_groups:
  "zcdr_ReadLEN64 p limit = rbind (rd_groups 10 p 0 (lim64 limit) 0) (\<lambda>r. Inr (ret64 r))"
proof -
  have n: "rd_groups 10 = rd_groups (Suc (Suc (Suc (Suc (Suc (Suc (Suc (Suc (Suc (Suc 0))))))))))"
    by (simp add: eval_nat_numeral)
  have ar: "(0::nat) + 1 = 1" "(1::nat) + 1 = 2" "(2::nat) + 1 = 3" "(3::nat) + 1 = 4" "(4::nat) + 1 = 5"
    "(5::nat) + 1 = 6" "(6::nat) + 1 = 7" "(7::nat) + 1 = 8" "(8::nat) + 1 = 9" "(9::nat) + 1 = 10"
    "7 * (0::nat) = 0" "7 * (1::nat) = 7" "7 * (2::nat) = 14" "7 * (3::nat) = 21" "7 * (4::nat) = 28"
    "7 * (5::nat) = 35" "7 * (6::nat) = 42" "7 * (7::nat) = 49" "7 * (8::nat) = 56" "7 * (9::nat) = 63"
    "28 + 7 = (35::nat)" "28 + 14 = (42::nat)" "28 + 21 = (49::nat)" "56 + 7 = (63::nat)"
    by simp_all
  have i: "int 1 = 1" "int 2 = 2" "int 3 = 3" "int 4 = 4" "int 5 = 5" "int 6 = 6" "int 7 = 7"
    "int 8 = 8" "int 9 = 9" "int 10 = 10" by simp_all
  have l: "lim64 limit 0 = limit" "lim64 limit 1 = limit - 1" "lim64 limit 2 = limit - 2"
    "lim64 limit 3 = limit - 3" "lim64 limit 4 = limit - 4" "lim64 limit 5 = limit - 5"
    "lim64 limit 6 = limit - 6" "lim64 limit 7 = limit - 7" "lim64 limit 8 = 0" "lim64 limit 9 = limit - 8"
    by (simp_all add: lim64_def)
  have z: "ucast (0::u32) = (0::u64)" "push_bit 28 (0::u64) = 0" "push_bit 56 (0::u64) = 0" "\<not> (0 > (0::int))"
    by simp_all
  have g: "(ucast (push_bit 7 (ucast (c :: u8) AND 0x7F :: u32)) :: u64) = push_bit 7 (ucast c AND 0x7F)"
    "(ucast (push_bit 14 (ucast (c :: u8) AND 0x7F :: u32)) :: u64) = push_bit 14 (ucast c AND 0x7F)"
    "(ucast (push_bit 21 (ucast (c :: u8) AND 0x7F :: u32)) :: u64) = push_bit 21 (ucast c AND 0x7F)" for c
    by (rule ucast_group; simp)+
  show ?thesis
    unfolding zcdr_ReadLEN64_def next_uchar_def done64_def n rd_groups.simps(1,2) Let_def uchar_high
    by (simp only: ar i l z g push_bit_0_id id_apply or.left_neutral or.right_neutral rbind_if rbind_assoc
        rbind.simps ret64_def option.case prod.case ucast_or64 ucast_group0 push_bit_or push_bit_push_bit
        or.assoc if_False)
qed

lemma low7_group: "(ucast (c :: u8) AND 0x7F :: 'a::len word) = of_nat (unat c mod 128)"
proof -
  have "(ucast c AND 0x7F :: 'a word) = of_nat (unat c AND 0x7F)"
    by (simp add: of_nat_and_eq)
  moreover have "unat c AND 0x7F = unat c mod 128"
    using take_bit_eq_mask [of 7 "unat c"] by (simp add: mask_eq_exp_minus_1 take_bit_eq_mod)
  ultimately show ?thesis by simp
qed

lemma or_shift:
  assumes "a < 2 ^ k"
  shows "of_nat a OR push_bit k (of_nat b) = (of_nat (a + 2 ^ k * b) :: 'a::len word)"
proof -
  have "of_nat a = (take_bit k (of_nat a) :: 'a word)"
    using assms by (simp add: take_bit_of_nat take_bit_nat_eq_self)
  then have "\<not> bit (of_nat a :: 'a word) n \<or> \<not> bit (push_bit k (of_nat b) :: 'a word) n" for n
    by (metis bit_push_bit_iff bit_take_bit_iff not_le)
  then have "of_nat a OR push_bit k (of_nat b) = (of_nat a + push_bit k (of_nat b) :: 'a word)"
    by (simp add: disjunctive_add)
  then show ?thesis by (simp add: push_bit_eq_mult mult.commute)
qed

lemma varint_bytes_length:
  "n < 128 ^ Suc g \<Longrightarrow> length (varint_bytes n) \<le> Suc g \<and> 0 < length (varint_bytes n)"
proof (induction g arbitrary: n)
  case 0
  then show ?case by (simp add: varint_bytes_small)
next
  case (Suc g)
  show ?case
  proof (cases "n < 128")
    case False
    then have "n div 128 < 128 ^ Suc g" using Suc.prems by (simp add: div_less_iff_less_mult)
    with Suc.IH [of "n div 128"] False show ?thesis by (simp add: varint_bytes_big)
  qed (simp add: varint_bytes_small)
qed

lemma rd_groups_bytes:
  assumes "drop i blk = pre @ varint_bytes n @ rest" "length pre = k" "a < 128 ^ k"
    "length (varint_bytes n) \<le> g" "\<forall>j < length (varint_bytes n). 0 \<le> lim (k + j)"
  shows "rd_groups g (Some blk, i) k lim (of_nat a) =
    Inr (Some (k + length (varint_bytes n), of_nat (a + 128 ^ k * n) :: 'a::len word))"
  using assms
proof (induction g arbitrary: pre n k a)
  case 0
  then show ?case by (subst (asm) (2) varint_bytes.simps) (simp split: if_splits)
next
  case (Suc g)
  let ?c = "hd (varint_bytes n)"
  have ne: "varint_bytes n \<noteq> []" by (subst varint_bytes.simps) simp
  then have cons: "varint_bytes n = ?c # tl (varint_bytes n)" by simp
  have lim: "\<not> 0 > lim k" using Suc.prems(5) ne by (metis add_0_right length_greater_0_conv not_le)
  have nth: "i + k < length blk" "blk ! (i + k) = ?c"
  proof -
    have l: "k < length (drop i blk)" using Suc.prems(1,2) ne by simp
    then show "i + k < length blk" by simp
    have "drop i blk ! k = ?c" using Suc.prems(1,2) cons by (metis append_Cons nth_append_length)
    then show "blk ! (i + k) = ?c" using l by simp
  qed
  have load: "load8 (Some blk, i) k = Inr ?c" using nth by (simp add: zcrt_mem)
  have p7: "(2::nat) ^ (7 * k) = 128 ^ k" by (simp add: power_mult)
  have grp: "of_nat a OR push_bit (7 * k) (ucast ?c AND 0x7F :: 'a word) =
      of_nat (a + 128 ^ k * (unat ?c mod 128))"
    using or_shift [of a "7 * k" "unat ?c mod 128", where ?'a = 'a] Suc.prems(3)
    by (simp add: low7_group p7)
  show ?case
  proof (cases "n < 128")
    case True
    then have c: "?c = of_nat n" "length (varint_bytes n) = 1" by (simp_all add: varint_bytes_small)
    then have "unat ?c = n" "?c < 128" using True by (simp_all add: unat_of_nat_u8 word_less_nat_alt)
    then show ?thesis using lim load grp True c(2) by (simp add: Let_def)
  next
    case False
    let ?m = "n mod 128"
    have c: "?c = of_nat (?m + 128)" "tl (varint_bytes n) = varint_bytes (n div 128)"
      using False by (simp_all add: varint_bytes_big)
    have "?m + 128 < 256" using mod_less_divisor [of 128 n] by linarith
    then have u: "unat ?c = ?m + 128" unfolding c(1) by (rule unat_of_nat_u8)
    then have big: "\<not> ?c < 128" by (simp add: word_less_nat_alt)
    have drop: "drop i blk = (pre @ [?c]) @ varint_bytes (n div 128) @ rest"
      using Suc.prems(1) cons c(2) by simp
    have len: "length (varint_bytes n) = Suc (length (varint_bytes (n div 128)))"
      using cons c(2) by (metis length_Cons)
    have a: "a + 128 ^ k * ?m < 128 ^ Suc k"
    proof -
      have "128 ^ k * ?m \<le> 128 ^ k * 127" using mod_less_divisor [of 128 n] by (intro mult_le_mono2) linarith
      with Suc.prems(3) show ?thesis unfolding power_Suc by linarith
    qed
    have "\<forall>j < length (varint_bytes (n div 128)). 0 \<le> lim (Suc k + j)"
      using Suc.prems(5) len by (metis Suc_less_eq add_Suc_shift)
    then have "rd_groups g (Some blk, i) (Suc k) lim (of_nat (a + 128 ^ k * ?m) :: 'a word) =
      Inr (Some (Suc k + length (varint_bytes (n div 128)),
        of_nat (a + 128 ^ k * ?m + 128 ^ Suc k * (n div 128))))"
      using Suc.IH [OF drop _ a] Suc.prems(2,4) len by simp
    moreover have "a + 128 ^ k * ?m + 128 ^ Suc k * (n div 128) = a + 128 ^ k * n"
    proof -
      have "128 ^ k * n = 128 ^ k * (128 * (n div 128) + ?m)" by simp
      also have "\<dots> = 128 ^ Suc k * (n div 128) + 128 ^ k * ?m" by (simp only: distrib_left power_Suc mult_ac)
      finally show ?thesis by (simp only: add.assoc add.commute add.left_commute)
    qed
    moreover have "of_nat a OR push_bit (7 * k) (ucast ?c AND 0x7F :: 'a word) = of_nat (a + 128 ^ k * ?m)"
      using grp u by simp
    moreover have "rd_groups (Suc g) (Some blk, i) k lim (of_nat a :: 'a word) =
      rd_groups g (Some blk, i) (Suc k) lim (of_nat a OR push_bit (7 * k) (ucast ?c AND 0x7F))"
      using lim load big by (simp add: Let_def)
    moreover have "Suc k + length (varint_bytes (n div 128)) = k + length (varint_bytes n)"
      using len by simp
    ultimately show ?thesis by (simp only:)
  qed
qed

section \<open>The 64-bit writer\<close>

lemma write64_size_bounds:
  fixes v :: u64
  defines "n \<equiv> unat v"
  defines "s \<equiv> writelen64_size (ucast v) (ucast (drop_bit 28 v)) (ucast (drop_bit 56 v))"
  shows "1 \<le> s \<and> s \<le> 10 \<and> (s = 1 \<or> 128 ^ (s - 1) \<le> n) \<and> n < 128 ^ s"
proof -
  have u: "unat (ucast (drop_bit k v) :: u32) = n div 2 ^ k mod 4294967296" for k
    unfolding n_def unsigned_ucast_eq by (simp add: unat_shift take_bit_eq_mod)
  have u0: "unat (ucast v :: u32) = n mod 4294967296"
    unfolding n_def unsigned_ucast_eq by (simp add: take_bit_eq_mod)
  have nb: "n < 18446744073709551616" unfolding n_def by simp
  let ?p0 = "n mod 4294967296" and ?p1 = "n div 268435456 mod 4294967296" and ?p2 = "n div 72057594037927936"
  have p2: "n div 72057594037927936 mod 4294967296 = ?p2"
    using nb by (intro mod_less) (simp add: div_less_iff_less_mult)
  have s: "s = (if ?p2 = 0 then if ?p1 = 0 then
          if ?p0 < 16384 then if ?p0 < 128 then 1 else 2 else if ?p0 < 2097152 then 3 else 4
        else if ?p1 < 16384 then if ?p1 < 128 then 5 else 6 else if ?p1 < 2097152 then 7 else 8
      else if ?p2 < 128 then 9 else 10)"
    unfolding s_def writelen64_size_def
    using u [of 28] u [of 56] u0 p2 by (simp add: word_less_nat_alt word_unat_eq_iff)
  show ?thesis
  proof (cases "?p2 = 0")
    case False
    then have "72057594037927936 \<le> n" by (simp add: div_eq_0_iff)
    then show ?thesis using s False nb by (auto simp: div_less_iff_less_mult)
  next
    case True
    then have a: "n < 72057594037927936" by (simp add: div_eq_0_iff)
    then have p1: "?p1 = n div 268435456" by (intro mod_less) (simp add: div_less_iff_less_mult)
    show ?thesis
    proof (cases "n div 268435456 = 0")
      case False
      then show ?thesis using s True a unfolding p1 by (auto simp: div_less_iff_less_mult div_eq_0_iff)
    next
      case z: True
      then have b: "n < 268435456" by (simp add: div_eq_0_iff)
      then have "?p0 = n" by simp
      then show ?thesis using s True z b unfolding p1 by auto
    qed
  qed
qed

text \<open>The bytes of a number of \<^verbatim>\<open>s\<close> groups, by index.\<close>

lemma varint_bytes_nth:
  assumes "n < 128 ^ Suc s" "s = 0 \<or> 128 ^ s \<le> n"
  shows "varint_bytes n = map (\<lambda>k. of_nat (n div 128 ^ k mod 128 + 128)) [0..<s] @ [of_nat (n div 128 ^ s)]"
  using assms
proof (induction s arbitrary: n)
  case 0
  then show ?case by (simp add: varint_bytes_small)
next
  case (Suc s)
  have big: "128 ^ Suc s \<le> n" using Suc.prems(2) by simp
  then have n: "128 \<le> n" by (meson le_trans le_add1 one_le_power power_Suc mult_le_mono2 nat_mult_1_right one_le_numeral self_le_power zero_less_Suc)
  have "n div 128 < 128 ^ Suc s" using Suc.prems(1) by (simp add: div_less_iff_less_mult)
  moreover have "128 ^ s \<le> n div 128" using big by (simp add: less_eq_div_iff_mult_less_eq mult.commute)
  ultimately have ih: "varint_bytes (n div 128) =
      map (\<lambda>k. of_nat (n div 128 div 128 ^ k mod 128 + 128)) [0..<s] @ [of_nat (n div 128 div 128 ^ s)]"
    by (intro Suc.IH) simp_all
  have d: "n div 128 div 128 ^ k = n div 128 ^ Suc k" for k by (simp add: div_mult2_eq)
  have "[0..<Suc s] = 0 # map Suc [0..<s]" by (simp add: map_Suc_upt upt_conv_Cons del: upt_Suc)
  then show ?case using varint_bytes_big [OF n] ih by (simp only: d) (simp add: o_def)
qed

lemma word32_group:
  assumes "k \<le> 25"
  shows "unat (drop_bit k (ucast (w :: u64) :: u32)) mod 128 = unat w div 2 ^ k mod 128"
proof -
  have "take_bit 7 (drop_bit k (ucast w :: u32)) = ucast (take_bit 7 (drop_bit k w))"
    using assms by (intro bit_word_eqI) (auto simp: bit_take_bit_iff bit_drop_bit_eq bit_unsigned_iff dest: bit_imp_le_length)
  then have "unat (take_bit 7 (drop_bit k (ucast w :: u32))) = unat (take_bit 7 (drop_bit k w))"
    by (simp add: unsigned_ucast_eq unsigned_take_bit_eq)
  then show ?thesis by (simp add: unat_take_bit unat_shift)
qed

definition parts64 :: "u64 \<Rightarrow> u32 list" where
  "parts64 v = (let part0 = ucast v; part1 = ucast (drop_bit 28 v); part2 = ucast (drop_bit 56 v) in
     [part0, drop_bit 7 part0, drop_bit 14 part0, drop_bit 21 part0, part1, drop_bit 7 part1,
      drop_bit 14 part1, drop_bit 21 part1, part2, drop_bit 7 part2])"

lemma parts64_nth: "k < 10 \<Longrightarrow> unat (parts64 v ! k) mod 128 = unat v div 128 ^ k mod 128"
proof -
  assume k: "k < 10"
  have w: "unat (drop_bit j (ucast (drop_bit m v) :: u32)) mod 128 = unat v div 2 ^ (m + j) mod 128"
    if "j \<le> 25" for j m
    using word32_group [OF that, of "drop_bit m v"] by (simp add: unat_shift div_mult2_eq power_add)
  have w0: "unat (ucast (drop_bit m v) :: u32) mod 128 = unat v div 2 ^ m mod 128" for m
    using w [of 0 m] by simp
  have w1: "unat (drop_bit j (ucast v :: u32)) mod 128 = unat v div 2 ^ j mod 128" if "j \<le> 25" for j
    by (rule word32_group [OF that])
  have w2: "unat (ucast v :: u32) mod 128 = unat v mod 128"
    using w1 [of 0] by simp
  from k have "k = 0 \<or> k = 1 \<or> k = 2 \<or> k = 3 \<or> k = 4 \<or> k = 5 \<or> k = 6 \<or> k = 7 \<or> k = 8 \<or> k = 9" by presburger
  then show ?thesis
    by (elim disjE) (simp_all add: parts64_def Let_def w w0 w1 w2)
qed

lemma byte_low7: "m < 128 \<Longrightarrow> (of_nat (m + 128) :: u8) AND 0x7F = of_nat m"
proof -
  assume m: "m < 128"
  have "(x :: u8) AND 0x7F = take_bit 7 x" for x by (simp add: take_bit_eq_mask mask_eq_exp_minus_1)
  moreover have "unat (take_bit 7 (of_nat (m + 128) :: u8)) = m"
    using m unat_of_nat_u8 [of "m + 128"] by (simp add: unat_take_bit)
  ultimately show ?thesis using m unat_of_nat_u8 [of m] by (simp add: word_unat_eq_iff)
qed

lemma write64_varint: "zcdr_WriteLEN64 v = varint_bytes (unat v)"
proof -
  let ?n = "unat v"
  define s where "s = writelen64_size (ucast v) (ucast (drop_bit 28 v)) (ucast (drop_bit 56 v))"
  have s: "1 \<le> s" "s \<le> 10" "s = 1 \<or> 128 ^ (s - 1) \<le> ?n" "?n < 128 ^ s"
    using write64_size_bounds [of v] unfolding s_def by blast+
  let ?f = "\<lambda>w. ucast (w OR 0x80 :: u32) :: u8"
  have "zcdr_WriteLEN64 v = (let t = take s (map ?f (parts64 v)) in t[s - 1 := t ! (s - 1) AND 0x7F])"
    unfolding zcdr_WriteLEN64_def parts64_def s_def Let_def list.map by (rule refl)
  also have "take s (map ?f (parts64 v)) = map (\<lambda>k. of_nat (?n div 128 ^ k mod 128 + 128)) [0..<s]"
  proof -
    have l: "length (parts64 v) = 10" by (simp add: parts64_def Let_def)
    have "map ?f (parts64 v) = map (\<lambda>k. ?f (parts64 v ! k)) [0..<10]"
      by (rule nth_equalityI) (simp_all add: l)
    then have "take s (map ?f (parts64 v)) = map (\<lambda>k. ?f (parts64 v ! k)) (take s [0..<10])"
      by (simp only: take_map)
    then have "take s (map ?f (parts64 v)) = map (\<lambda>k. ?f (parts64 v ! k)) [0..<s]"
      using s(2) by (simp add: take_upt)
    also have "\<dots> = map (\<lambda>k. of_nat (?n div 128 ^ k mod 128 + 128)) [0..<s]"
      using s(2) by (intro map_cong) (simp_all add: byte_hi parts64_nth del: of_nat_add)
    finally show ?thesis .
  qed
  finally have w: "zcdr_WriteLEN64 v =
    (map (\<lambda>k. of_nat (?n div 128 ^ k mod 128 + 128)) [0..<s])
      [s - 1 := of_nat (?n div 128 ^ (s - 1) mod 128 + 128) AND 0x7F]"
    using s(1) by (simp add: Let_def)
  obtain r where r: "s = Suc r" using s(1) by (cases s) auto
  have last: "?n div 128 ^ r < 128" using s(4) r by (simp add: div_less_iff_less_mult mult.commute)
  have "varint_bytes ?n = map (\<lambda>k. of_nat (?n div 128 ^ k mod 128 + 128)) [0..<r] @ [of_nat (?n div 128 ^ r)]"
    using s(3,4) r by (intro varint_bytes_nth) auto
  moreover have "(of_nat (?n div 128 ^ r mod 128 + 128) :: u8) AND 0x7F = of_nat (?n div 128 ^ r)"
    using byte_low7 [OF last] last by simp
  ultimately show ?thesis using w r by (simp add: list_update_append)
qed

lemma read_len_varint:
  assumes "drop i blk = varint_bytes n @ rest" "n < 2 ^ 32" "int (length (varint_bytes n)) \<le> limit + 1"
  shows "zcrt_tlv_read_len (Some blk, i) limit = Inr ((Some blk, i + length (varint_bytes n)), of_nat n)"
proof -
  have "length (varint_bytes n) \<le> 5" using assms(2) varint_bytes_length [of n 4] by simp
  then have "rd_groups 5 (Some blk, i) 0 (\<lambda>k. limit - int k) (of_nat 0) =
      Inr (Some (0 + length (varint_bytes n), of_nat (0 + 128 ^ 0 * n) :: u32))"
    using assms by (intro rd_groups_bytes [of _ _ "[]" _ rest]) auto
  then show ?thesis by (simp add: read_len_groups ret32_def)
qed

lemma read64_varint:
  assumes "drop i blk = varint_bytes n @ rest" "n < 2 ^ 64" "int (length (varint_bytes n)) \<le> limit + 1"
  shows "zcdr_ReadLEN64 (Some blk, i) limit = Inr (int (length (varint_bytes n)), Some (of_nat n))"
proof -
  have l: "length (varint_bytes n) \<le> 10" using assms(2) varint_bytes_length [of n 9] by simp
  have "0 \<le> lim64 limit (0 + j)" if "j < length (varint_bytes n)" for j
    using that assms(3) by (simp add: lim64_def)
  with l have "rd_groups 10 (Some blk, i) 0 (lim64 limit) (of_nat 0) =
      Inr (Some (0 + length (varint_bytes n), of_nat (0 + 128 ^ 0 * n) :: u64))"
    using assms by (intro rd_groups_bytes [of _ _ "[]" _ rest]) auto
  then show ?thesis by (simp add: read64_groups ret64_def)
qed

section \<open>Reading past the end\<close>

lemma rd_groups_fault:
  assumes "i + k \<le> length blk" "\<forall>j \<le> length blk - i. 0 \<le> lim j"
  shows "rd_groups g (Some blk, i) k lim acc = Inl e \<longleftrightarrow>
    e = OutOfBounds \<and> length blk < i + k + g \<and> (\<forall>c \<in> set (drop (i + k) blk). 128 \<le> c)"
  using assms
proof (induction g arbitrary: k acc)
  case 0
  then show ?case by auto
next
  case (Suc g)
  have lim: "\<not> 0 > lim k" using Suc.prems by (simp add: not_less)
  show ?case
  proof (cases "i + k < length blk")
    case False
    then have "drop (i + k) blk = []" by simp
    with False lim show ?thesis using Suc.prems(1) by (auto simp: zcrt_mem)
  next
    case True
    then have d: "drop (i + k) blk = blk ! (i + k) # drop (i + Suc k) blk"
      by (simp add: Cons_nth_drop_Suc)
    have "load8 (Some blk, i) k = Inr (blk ! (i + k))" using True by (simp add: zcrt_mem)
    then show ?thesis
      using True lim Suc.IH [of "Suc k"] Suc.prems(2) unfolding d
      by (auto simp: Let_def not_le [symmetric])
  qed
qed

lemma read_len_overread:
  assumes "i \<le> length blk"
  shows "zcrt_tlv_read_len (Some blk, i) (int (length blk) - int i) = Inl e \<longleftrightarrow>
     e = OutOfBounds \<and> length blk < i + 5 \<and> (\<forall>c \<in> set (drop i blk). 128 \<le> c)"
proof -
  have "\<forall>j \<le> length blk - i. 0 \<le> int (length blk) - int i - int j" using assms by auto
  from rd_groups_fault [OF _ this, of 0 5 0 e] assms show ?thesis
    by (simp add: read_len_groups rbind_eq_Inl)
qed

lemma read64_overread:
  assumes "i \<le> length blk"
  shows "zcdr_ReadLEN64 (Some blk, i) (int (length blk) - int i) = Inl e \<longleftrightarrow>
     e = OutOfBounds \<and> length blk < i + 10 \<and> (\<forall>c \<in> set (drop i blk). 128 \<le> c)"
proof -
  have "\<forall>j \<le> length blk - i. 0 \<le> lim64 (int (length blk) - int i) j"
    using assms by (auto simp: lim64_def)
  from rd_groups_fault [OF _ this, of 0 10 0 e] assms show ?thesis
    by (simp add: read64_groups rbind_eq_Inl)
qed

end
