(* ===== verification/Zipc_Tlv.thy ===== *)
theory Zipc_Tlv
  imports Zcrt_Str Zcrt_Array Zipc_Varint
begin

text \<open>
  The tagged values of \<^verbatim>\<open>zipc/zipc_tlv.c\<close> and \<^verbatim>\<open>zipc/zipc_tlv.h\<close>: one type byte,
  then a varint, a string or a table. Getters return the value stored through their out-parameter
  (\<^verbatim>\<open>None\<close> where the C function returns false and stores nothing) with the buffer after the
  call. The locale \<^verbatim>\<open>codec\<close> states what a getter and a putter of one type owe each other;
  the array transfers are proved over it once.
\<close>

section \<open>Types\<close>

definition ZTLV_NIL :: u8 where "ZTLV_NIL = 1"
definition ZTLV_FALSE :: u8 where "ZTLV_FALSE = 2"
definition ZTLV_TRUE :: u8 where "ZTLV_TRUE = 3"
definition ZTLV_INT :: u8 where "ZTLV_INT = 4"
definition ZTLV_INT64 :: u8 where "ZTLV_INT64 = 6"
definition ZTLV_STR :: u8 where "ZTLV_STR = 0x11"
definition ZTLV_TABLE :: u8 where "ZTLV_TABLE = 0x12"

lemmas tlv_types = ZTLV_NIL_def ZTLV_FALSE_def ZTLV_TRUE_def ZTLV_INT_def ZTLV_INT64_def
  ZTLV_STR_def ZTLV_TABLE_def

type_synonym 'a getter = "zbufp \<Rightarrow> ('a option \<times> zbufp) res"
type_synonym 'a putter = "realloc_fn \<Rightarrow> zbufp \<Rightarrow> 'a \<Rightarrow> (bool \<times> zbufp) res"

section \<open>Raw reads and writes\<close>

definition ztlv_get_type :: "zbufp \<Rightarrow> (u8 \<times> zbufp) res" where
  "ztlv_get_type buf = (let (data, buf1) = zcrt_buf_get buf 1 in
     if data \<noteq> null_ptr then rbind (load8 data 0) (\<lambda>c. Inr (c, buf1)) else Inr (0, buf1))"

definition ztlv_put_type :: "u8 putter" where
  "ztlv_put_type ra buf v =
     rbind (zcrt_buf_append ra buf (Some [v], 0) 1) (\<lambda>(_, buf1). Inr (True, buf1))"

text \<open>\<^verbatim>\<open>buf->buf+buf->offset\<close> and \<^verbatim>\<open>buf->len-buf->offset\<close> converted to \<^verbatim>\<open>int\<close>.\<close>

definition rd_ptr :: "zbuf \<Rightarrow> bptr" where
  "rd_ptr b = padd (zb_buf b, 0) (unat (zb_offset b))"

definition rd_limit :: "zbuf \<Rightarrow> int" where
  "rd_limit b = sint (zb_len b - zb_offset b)"

definition ztlv_read_var_int :: "s32 getter" where
  "ztlv_read_var_int buf = rbind (deref buf) (\<lambda>b.
     rbind (zcrt_tlv_read_len (rd_ptr b) (rd_limit b)) (\<lambda>(off, v).
       if off \<noteq> null_ptr
       then Inr (Some (zcrt_ZigZagDecode32 v), Some (b\<lparr>zb_offset := of_nat (snd off)\<rparr>))
       else Inr (None, Some b)))"

definition ztlv_read_var_int64 :: "s64 getter" where
  "ztlv_read_var_int64 buf = rbind (deref buf) (\<lambda>b.
     rbind (zcdr_ReadLEN64 (rd_ptr b) (rd_limit b)) (\<lambda>(r, v). case v of
       Some v' \<Rightarrow> if r > 0
         then Inr (Some (zcdr_Decode64 v'), Some (b\<lparr>zb_offset := zb_offset b + of_int r\<rparr>))
         else Inr (None, Some b)
     | None \<Rightarrow> Inr (None, Some b)))"

text \<open>
  \<^verbatim>\<open>zcrt_buf_realloc(buf, buf->len+room); buf->len += write(buf->buf+buf->len, ...)\<close>, with
  the bytes the writer stores.
\<close>

definition put_room :: "realloc_fn \<Rightarrow> zbufp \<Rightarrow> u32 \<Rightarrow> u8 list \<Rightarrow> (bool \<times> zbufp) res" where
  "put_room ra buf room bytes = (case buf of None \<Rightarrow> Inr (False, None) | Some b \<Rightarrow>
     rbind (zcrt_buf_realloc ra (Some b) (zb_len b + room)) (\<lambda>(_, buf1).
     rbind (deref buf1) (\<lambda>b1.
     rbind (store (zb_buf b1) (unat (zb_len b1)) bytes) (\<lambda>blk.
       Inr (True, Some (b1\<lparr>zb_buf := Some blk, zb_len := zb_len b1 + of_nat (length bytes)\<rparr>))))))"

definition ztlv_write_var_int :: "s32 putter" where
  "ztlv_write_var_int ra buf v = put_room ra buf 5 (zcrt_tlv_write_len (zcrt_ZigZagEncode32 v))"

definition ztlv_write_var_int64 :: "s64 putter" where
  "ztlv_write_var_int64 ra buf v = put_room ra buf 10 (zcdr_WriteLEN64 (zcdr_Encode64 v))"

definition ztlv_put_len :: "u32 putter" where
  "ztlv_put_len ra buf v = put_room ra buf 5 (zcrt_tlv_write_len v)"

text \<open>The value is stored whether the read succeeds or not; a failed read stores 0.\<close>

definition ztlv_get_len :: "zbufp \<Rightarrow> (bool \<times> u32 \<times> zbufp) res" where
  "ztlv_get_len buf = rbind (deref buf) (\<lambda>b.
     rbind (zcrt_tlv_read_len (rd_ptr b) (rd_limit b)) (\<lambda>(off, v).
       if off \<noteq> null_ptr then Inr (True, v, Some (b\<lparr>zb_offset := of_nat (snd off)\<rparr>))
       else Inr (False, v, Some b)))"

section \<open>Booleans, integers and strings\<close>

definition ztlv_get_bool :: "bool \<Rightarrow> bool getter" where
  "ztlv_get_bool has_v buf = rbind (ztlv_get_type buf) (\<lambda>(ty, buf1).
     if \<not> has_v then Inr (None, buf1)
     else if ty = ZTLV_TRUE then Inr (Some True, buf1)
     else if ty = ZTLV_FALSE then Inr (Some False, buf1)
     else Inr (None, buf1))"

definition ztlv_put_bool :: "bool putter" where
  "ztlv_put_bool ra buf v = (let ty = (if v then ZTLV_TRUE else ZTLV_FALSE) in ztlv_put_type ra buf ty)"

definition ztlv_get_int :: "s32 getter" where
  "ztlv_get_int buf = rbind (ztlv_get_type buf) (\<lambda>(ty, buf1).
     if ty = ZTLV_INT then ztlv_read_var_int buf1
     else if ty = ZTLV_INT64 then
       rbind (ztlv_read_var_int64 buf1) (\<lambda>(nv, buf2). Inr (map_option ucast nv, buf2))
     else Inr (None, buf1))"

definition ztlv_put_int :: "s32 putter" where
  "ztlv_put_int ra buf v = rbind (ztlv_put_type ra buf ZTLV_INT) (\<lambda>(ok, buf1).
     if \<not> ok then Inr (False, buf1) else ztlv_write_var_int ra buf1 v)"

definition ztlv_get_int64 :: "s64 getter" where
  "ztlv_get_int64 buf = rbind (ztlv_get_type buf) (\<lambda>(ty, buf1).
     if ty = ZTLV_INT then
       rbind (ztlv_read_var_int buf1) (\<lambda>(nv, buf2). Inr (map_option scast nv, buf2))
     else if ty = ZTLV_INT64 then ztlv_read_var_int64 buf1
     else Inr (None, buf1))"

definition ZTLV_VAL_IS_INT32 :: "s64 \<Rightarrow> bool" where
  "ZTLV_VAL_IS_INT32 v \<longleftrightarrow> sint v \<le> 2147483647 \<and> sint v \<ge> - 2147483647"

definition ztlv_put_int64 :: "s64 putter" where
  "ztlv_put_int64 ra buf v =
     (if ZTLV_VAL_IS_INT32 v then
        rbind (ztlv_put_type ra buf ZTLV_INT) (\<lambda>(ok, buf1).
          if \<not> ok then Inr (False, buf1) else ztlv_write_var_int ra buf1 (ucast v))
      else
        rbind (ztlv_put_type ra buf ZTLV_INT64) (\<lambda>(ok, buf1).
          if \<not> ok then Inr (False, buf1) else ztlv_write_var_int64 ra buf1 v))"

definition ztlv_put_uint32 :: "u32 putter" where
  "ztlv_put_uint32 ra buf v = (let nv = ucast v :: s64 in
     if ZTLV_VAL_IS_INT32 nv then
        rbind (ztlv_put_type ra buf ZTLV_INT) (\<lambda>(ok, buf1).
          if \<not> ok then Inr (False, buf1) else ztlv_write_var_int ra buf1 v)
     else
        rbind (ztlv_put_type ra buf ZTLV_INT64) (\<lambda>(ok, buf1).
          if \<not> ok then Inr (False, buf1) else ztlv_write_var_int64 ra buf1 nv))"

text \<open>\<^verbatim>\<open>#define ztlv_get_uint32(buf,v) ztlv_get_int(buf,(int32_t*)v)\<close>\<close>

definition ztlv_get_uint32 :: "u32 getter" where
  "ztlv_get_uint32 buf = ztlv_get_int buf"

text \<open>
  \<^verbatim>\<open>v\<close> is the string before the call: a type byte that is not that of a string leaves it as
  it is. The result of \<^verbatim>\<open>ztlv_get_len\<close> is not looked at.
\<close>

definition ztlv_get_string :: "zbufp \<Rightarrow> zstr \<Rightarrow> (bool \<times> zstr \<times> zbufp) res" where
  "ztlv_get_string buf v = rbind (ztlv_get_type buf) (\<lambda>(ty, buf1).
     if ty \<noteq> ZTLV_STR then Inr (False, v, buf1)
     else rbind (ztlv_get_len buf1) (\<lambda>(_, n, buf2). zcrt_buf_getstr buf2 n))"

definition ztlv_put_lstring :: "realloc_fn \<Rightarrow> zbufp \<Rightarrow> bptr \<Rightarrow> u32 \<Rightarrow> (bool \<times> zbufp) res" where
  "ztlv_put_lstring ra buf v len =
     (if v = null_ptr then ztlv_put_type ra buf ZTLV_NIL
      else rbind (ztlv_put_type ra buf ZTLV_STR) (\<lambda>(ok, buf1).
        if \<not> ok then Inr (False, buf1)
        else rbind (ztlv_put_len ra buf1 len) (\<lambda>(_, buf2).
          rbind (zcrt_buf_append ra buf2 v len) (\<lambda>(_, buf3). Inr (True, buf3)))))"

definition ztlv_put_string :: "realloc_fn \<Rightarrow> zbufp \<Rightarrow> bptr \<Rightarrow> (bool \<times> zbufp) res" where
  "ztlv_put_string ra buf v =
     rbind (if v = null_ptr then Inr 0 else strlen_c v) (\<lambda>n. ztlv_put_lstring ra buf v (of_nat n))"

definition ztlv_get_ignore :: "zbufp \<Rightarrow> (bool \<times> zbufp) res" where
  "ztlv_get_ignore buf = rbind (ztlv_get_type buf) (\<lambda>(ty, buf1).
     if ty = ZTLV_FALSE \<or> ty = ZTLV_TRUE then
       rbind (ztlv_get_bool True buf1) (\<lambda>(_, buf2). Inr (True, buf2))
     else if ty = ZTLV_INT then rbind (ztlv_get_int buf1) (\<lambda>(_, buf2). Inr (True, buf2))
     else if ty = ZTLV_STR then
       rbind (ztlv_get_string buf1 \<lparr>zs_len = 0, zs_ptr = null_ptr\<rparr>) (\<lambda>(_, _, buf2). Inr (True, buf2))
     else Inr (False, buf1))"

section \<open>Tables and arrays\<close>

definition ztlv_get_table_cnt :: "zbufp \<Rightarrow> u32 \<Rightarrow> (bool \<times> u32 \<times> zbufp) res" where
  "ztlv_get_table_cnt buf cnt = rbind (ztlv_get_type buf) (\<lambda>(ty, buf1).
     if ty \<noteq> ZTLV_TABLE then Inr (False, cnt, buf1) else ztlv_get_len buf1)"

definition ztlv_put_table_cnt :: "u32 putter" where
  "ztlv_put_table_cnt ra buf cnt = rbind (ztlv_put_type ra buf ZTLV_TABLE) (\<lambda>(_, buf1).
     rbind (ztlv_put_len ra buf1 cnt) (\<lambda>(_, buf2). Inr (True, buf2)))"

text \<open>
  \<^verbatim>\<open>ZTLV_TYPE_GET\<close> and \<^verbatim>\<open>ZTLV_TYPE_PUT\<close>: callbacks on the buffer and one element.
  A getter is given the bytes of the element and returns whether it succeeded with the bytes it
  leaves there.
\<close>

type_synonym type_get = "zbufp \<Rightarrow> u8 list \<Rightarrow> (bool \<times> u8 list \<times> zbufp) res"
type_synonym type_put = "realloc_fn \<Rightarrow> zbufp \<Rightarrow> u8 list \<Rightarrow> (bool \<times> zbufp) res"

fun get_items :: "type_get \<Rightarrow> u32 list \<Rightarrow> zarray \<Rightarrow> zbufp \<Rightarrow> (bool \<times> zarray \<times> zbufp) res" where
  "get_items f [] arr buf = Inr (True, arr, buf)"
| "get_items f (i # is) arr buf =
     rbind (ztlv_get_int buf) (\<lambda>(idx, buf1). case idx of
       None \<Rightarrow> Inr (False, arr, buf1)
     | Some _ \<Rightarrow>
         rbind (load_n (zarray_get arr i) (unat (za_unitsize arr))) (\<lambda>old.
         rbind (f buf1 old) (\<lambda>(ok, new, buf2).
         rbind (zarray_put arr i new) (\<lambda>arr1.
           if \<not> ok then Inr (False, arr1, buf2) else get_items f is arr1 buf2))))"

definition indices :: "u32 \<Rightarrow> u32 list" where
  "indices n = map of_nat [0..<unat n]"

definition ztlv_get_array ::
  "realloc_fn \<Rightarrow> zbufp \<Rightarrow> zarray option \<Rightarrow> type_get option \<Rightarrow> (bool \<times> zarray option \<times> zbufp) res" where
  "ztlv_get_array ra buf arr f = (case (f, arr) of
     (Some get, Some a) \<Rightarrow>
       rbind (ztlv_get_table_cnt buf 0) (\<lambda>(ok, cnt, buf1).
         if \<not> ok then Inr (False, Some a, buf1)
         else rbind (zarray_setlength ra a cnt) (\<lambda>a1.
           rbind (get_items get (indices cnt) a1 buf1) (\<lambda>(ret, a2, buf2). Inr (ret, Some a2, buf2))))
   | _ \<Rightarrow> Inr (False, arr, buf))"

fun put_items ::
  "realloc_fn \<Rightarrow> type_put \<Rightarrow> u32 list \<Rightarrow> zarray option \<Rightarrow> zbufp \<Rightarrow> (bool \<times> zbufp) res" where
  "put_items ra f [] arr buf = Inr (True, buf)"
| "put_items ra f (i # is) arr buf =
     rbind (ztlv_put_int ra buf (i + 1)) (\<lambda>(_, buf1).
     rbind (deref arr) (\<lambda>a.
     rbind (load_n (zarray_get a i) (unat (za_unitsize a))) (\<lambda>val.
     rbind (f ra buf1 val) (\<lambda>(ok, buf2).
       if \<not> ok then Inr (False, buf2) else put_items ra f is arr buf2))))"

definition ztlv_put_array ::
  "realloc_fn \<Rightarrow> zbufp \<Rightarrow> zarray option \<Rightarrow> type_put option \<Rightarrow> (bool \<times> zbufp) res" where
  "ztlv_put_array ra buf arr f = (case f of None \<Rightarrow> Inr (False, buf) | Some put \<Rightarrow>
     rbind (ztlv_put_table_cnt ra buf (zarray_getlength arr)) (\<lambda>(_, buf1).
       put_items ra put (indices (zarray_getlength arr)) arr buf1))"

section \<open>Encodings at a buffer\<close>

text \<open>
  The bytes not read yet, the buffer after reading some of them, and what it means that an operation
  writes or reads a given run of bytes. The slack of 16 covers the room the writers ask for before
  they know how much they need.
\<close>

definition unread :: "zbuf \<Rightarrow> u8 list" where
  "unread b = drop (unat (zb_offset b)) (contents b)"

definition adv :: "zbuf \<Rightarrow> nat \<Rightarrow> zbuf" where
  "adv b n = b\<lparr>zb_offset := zb_offset b + of_nat n\<rparr>"

definition puts :: "(zbufp \<Rightarrow> (bool \<times> zbufp) res) \<Rightarrow> u8 list \<Rightarrow> bool" where
  "puts f bytes \<longleftrightarrow> (\<forall>b. buf_wf b \<and> unat (zb_len b) + length bytes + 16 < 2 ^ 31 \<longrightarrow>
     (\<exists>b'. f (Some b) = Inr (True, Some b') \<and> buf_wf b' \<and> contents b' = contents b @ bytes \<and>
        zb_offset b' = zb_offset b))"

definition gets :: "'a getter \<Rightarrow> 'a \<Rightarrow> u8 list \<Rightarrow> bool" where
  "gets f x bytes \<longleftrightarrow> (\<forall>b rest. buf_wf b \<and> unat (zb_len b) < 2 ^ 31 \<and> unread b = bytes @ rest \<longrightarrow>
     f (Some b) = Inr (Some x, Some (adv b (length bytes))))"

lemma adv_simps [simp]: "contents (adv b n) = contents b" "buf_wf (adv b n) = buf_wf b"
  "zb_len (adv b n) = zb_len b" "zb_buf (adv b n) = zb_buf b" "adv b 0 = b"
  "adv (adv b m) n = adv b (m + n)"
  by (simp_all add: adv_def contents_def buf_wf_def)

lemma unread_fits:
  assumes "buf_wf b" "unread b = bytes @ rest" "bytes \<noteq> []"
  shows "unat (zb_offset b) + length bytes \<le> unat (zb_len b)"
proof -
  have "length (unread b) = unat (zb_len b) - unat (zb_offset b)"
    using length_contents [OF assms(1)] by (simp add: unread_def)
  then have "length bytes + length rest = unat (zb_len b) - unat (zb_offset b)"
    using assms(2) by simp
  moreover have "0 < length bytes" using assms(3) by simp
  ultimately show ?thesis by linarith
qed

lemma unat_adv:
  assumes "buf_wf b" "unread b = bytes @ rest"
  shows "unat (zb_offset (adv b (length bytes))) = unat (zb_offset b) + length bytes"
proof (cases "bytes = []")
  case False
  have "unat (zb_offset b) + length bytes < 4294967296"
    using unread_fits [OF assms False] u32_bound [of "zb_len b"] by linarith
  then show ?thesis by (simp add: adv_def unat_add_u32 unat_of_nat_u32_small)
qed simp

lemma unread_adv:
  assumes "buf_wf b" "unread b = bytes @ rest"
  shows "unread (adv b (length bytes)) = rest"
  using assms(2) unat_adv [OF assms] unfolding unread_def
  by (metis adv_simps(1) add.commute append_eq_conv_conj drop_drop)

lemma putsD:
  assumes "puts f bytes" "buf_wf b" "unat (zb_len b) + length bytes + 16 < 2 ^ 31"
  obtains b' where "f (Some b) = Inr (True, Some b')" "buf_wf b'" "contents b' = contents b @ bytes"
    "zb_offset b' = zb_offset b" "unat (zb_len b') = unat (zb_len b) + length bytes"
proof -
  obtain b' where b': "f (Some b) = Inr (True, Some b')" "buf_wf b'" "contents b' = contents b @ bytes"
    "zb_offset b' = zb_offset b" using assms by (auto simp: puts_def)
  then have "unat (zb_len b') = unat (zb_len b) + length bytes"
    using length_contents [OF assms(2)] length_contents [OF b'(2)] by simp
  with that b' show ?thesis by blast
qed

lemma putsI:
  assumes "\<And>b. buf_wf b \<Longrightarrow> unat (zb_len b) + length bytes + 16 < 2 ^ 31 \<Longrightarrow>
    \<exists>b'. f (Some b) = Inr (True, Some b') \<and> buf_wf b' \<and> contents b' = contents b @ bytes \<and>
      zb_offset b' = zb_offset b"
  shows "puts f bytes"
  using assms by (simp add: puts_def)

lemma getsD:
  assumes "gets f x bytes" "buf_wf b" "unat (zb_len b) < 2 ^ 31" "unread b = bytes @ rest"
  shows "f (Some b) = Inr (Some x, Some (adv b (length bytes)))"
  using assms by (simp add: gets_def)

lemma puts_seq:
  assumes f: "puts f xs" and g: "puts g ys"
    and h: "\<And>v. h v = rbind (f v) (\<lambda>(ok, v1). if \<not> ok then Inr (False, v1) else g v1)"
  shows "puts h (xs @ ys)"
proof (rule putsI)
  fix b assume b: "buf_wf b" "unat (zb_len b) + length (xs @ ys) + 16 < 2 ^ 31"
  obtain b1 where b1: "f (Some b) = Inr (True, Some b1)" "buf_wf b1" "contents b1 = contents b @ xs"
    "zb_offset b1 = zb_offset b" "unat (zb_len b1) = unat (zb_len b) + length xs"
    using putsD [OF f b(1)] b(2) by auto
  obtain b2 where "g (Some b1) = Inr (True, Some b2)" "buf_wf b2" "contents b2 = contents b1 @ ys"
    "zb_offset b2 = zb_offset b1"
    using putsD [OF g b1(2)] b(2) b1(5) by auto
  with b1 show "\<exists>b'. h (Some b) = Inr (True, Some b') \<and> buf_wf b' \<and>
      contents b' = contents b @ xs @ ys \<and> zb_offset b' = zb_offset b"
    by (simp add: h)
qed

lemma puts_then:
  assumes f: "puts f xs" and g: "puts g ys"
  shows "puts (\<lambda>v. rbind (f v) (\<lambda>(_, v1). g v1)) (xs @ ys)"
proof (rule putsI)
  fix b assume b: "buf_wf b" "unat (zb_len b) + length (xs @ ys) + 16 < 2 ^ 31"
  have h: "puts (\<lambda>v. rbind (f v) (\<lambda>(ok, v1). if \<not> ok then Inr (False, v1) else g v1)) (xs @ ys)"
    by (rule puts_seq [OF f g refl])
  obtain b1 where "f (Some b) = Inr (True, Some b1)"
    using putsD [OF f b(1)] b(2) by auto
  with putsD [OF h b] show "\<exists>b'. rbind (f (Some b)) (\<lambda>(_, v1). g v1) = Inr (True, Some b') \<and> buf_wf b' \<and>
      contents b' = contents b @ xs @ ys \<and> zb_offset b' = zb_offset b"
    by (metis (mono_tags, lifting) case_prod_conv rbind.simps(2))
qed

text \<open>What one operation writes, another one reads back.\<close>

lemma puts_gets:
  assumes "puts f bytes" "gets g x bytes" "buf_wf b" "unat (zb_len b) + length bytes + 16 < 2 ^ 31"
    and "zb_offset b = zb_len b"
  shows "\<exists>b1 b2. f (Some b) = Inr (True, Some b1) \<and> g (Some b1) = Inr (Some x, Some b2) \<and>
    buf_wf b1 \<and> contents b1 = contents b @ bytes \<and> zb_offset b2 = zb_len b1"
proof -
  obtain b1 where b1: "f (Some b) = Inr (True, Some b1)" "buf_wf b1" "contents b1 = contents b @ bytes"
    "zb_offset b1 = zb_offset b" "unat (zb_len b1) = unat (zb_len b) + length bytes"
    using putsD [OF assms(1,3,4)] by metis
  have "unread b1 = bytes @ []"
    using b1(3,4) assms(3,5) by (simp add: unread_def length_contents)
  moreover have "unat (zb_len b1) < 2 ^ 31" using b1(5) assms(4) by simp
  ultimately have "g (Some b1) = Inr (Some x, Some (adv b1 (length bytes)))"
    using getsD [OF assms(2) b1(2)] by blast
  moreover have "zb_offset (adv b1 (length bytes)) = zb_len b1"
    using unat_adv [OF b1(2) \<open>unread b1 = bytes @ []\<close>] b1(4,5) assms(5) by (simp add: word_unat_eq_iff)
  ultimately show ?thesis using b1 by blast
qed

section \<open>What the operations write and read\<close>

lemma put_type_puts: "realloc_total ra \<Longrightarrow> puts (\<lambda>v. ztlv_put_type ra v t) [t]"
proof (rule putsI)
  fix b assume a: "realloc_total ra" "buf_wf b" "unat (zb_len b) + length [t] + 16 < 2 ^ 31"
  have "load_n (Some [t], 0) (unat (1::u32)) = Inr [t]" by (simp add: load_n_def)
  from append_spec [OF a(2,1) this] a(3)
  obtain b' where "zcrt_buf_append ra (Some b) (Some [t], 0) 1 = Inr (1, Some b')" "buf_wf b'"
    "contents b' = contents b @ [t]" "zb_offset b' = zb_offset b" by auto
  then show "\<exists>b'. ztlv_put_type ra (Some b) t = Inr (True, Some b') \<and> buf_wf b' \<and>
      contents b' = contents b @ [t] \<and> zb_offset b' = zb_offset b"
    by (simp add: ztlv_put_type_def)
qed

lemma put_room_puts:
  assumes ra: "realloc_total ra" and bytes: "bytes \<noteq> []" "length bytes \<le> unat room" and room: "unat room \<le> 10"
  shows "puts (\<lambda>v. put_room ra v room bytes) bytes"
proof (rule putsI)
  fix b assume b: "buf_wf b" "unat (zb_len b) + length bytes + 16 < 2 ^ 31"
  have sum: "unat (zb_len b + room) = unat (zb_len b) + unat room"
    using b(2) room by (intro unat_add_u32_small) simp
  have "unat (zb_len b + room) + 1 < 2 ^ 31" using sum b(2) room by simp
  then obtain b1 where b1: "zcrt_buf_realloc ra (Some b) (zb_len b + room) = Inr (zb_len b + room, Some b1)"
    "buf_wf b1" "zb_len b + room \<le> zb_maxlen b1" "same_stream b b1"
    using realloc_grow [OF b(1) ra] by blast
  have s: "zb_len b1 = zb_len b" "contents b1 = contents b" "zb_offset b1 = zb_offset b"
    using b1(4) by (auto simp: same_stream_def)
  have fit: "unat (zb_len b1) + length bytes \<le> unat (zb_maxlen b1)"
    using b1(3) sum bytes s by (simp add: word_le_nat_alt)
  obtain blk where "store (zb_buf b1) (unat (zb_len b1)) bytes = Inr blk"
    "buf_wf (b1\<lparr>zb_buf := Some blk, zb_len := zb_len b1 + of_nat (length bytes)\<rparr>)"
    "contents (b1\<lparr>zb_buf := Some blk, zb_len := zb_len b1 + of_nat (length bytes)\<rparr>) = contents b1 @ bytes"
    using write_end [OF b1(2) fit bytes(1)] by blast
  with b1(1) s show "\<exists>b'. put_room ra (Some b) room bytes = Inr (True, Some b') \<and> buf_wf b' \<and>
      contents b' = contents b @ bytes \<and> zb_offset b' = zb_offset b"
    by (simp add: put_room_def)
qed

lemma varint_room32:
  "varint_bytes (unat (v :: u32)) \<noteq> [] \<and> length (varint_bytes (unat v)) \<le> unat (5 :: u32)"
  using varint_bytes_length [of "unat v" 4] u32_bound [of v] by auto

lemma varint_room64:
  "varint_bytes (unat (v :: u64)) \<noteq> [] \<and> length (varint_bytes (unat v)) \<le> unat (10 :: u32)"
  using varint_bytes_length [of "unat v" 9] u64_bound [of v] by auto

lemma put_len_puts: "realloc_total ra \<Longrightarrow> puts (\<lambda>v. ztlv_put_len ra v n) (varint_bytes (unat n))"
  using put_room_puts [of ra "varint_bytes (unat n)" 5] varint_room32 [of n]
  by (simp add: ztlv_put_len_def write_len_varint)

lemma write_var_int_puts:
  "realloc_total ra \<Longrightarrow>
    puts (\<lambda>v. ztlv_write_var_int ra v n) (varint_bytes (unat (zcrt_ZigZagEncode32 n)))"
  using put_room_puts [of ra "varint_bytes (unat (zcrt_ZigZagEncode32 n))" 5] varint_room32
  by (simp add: ztlv_write_var_int_def write_len_varint)

lemma write_var_int64_puts:
  "realloc_total ra \<Longrightarrow>
    puts (\<lambda>v. ztlv_write_var_int64 ra v n) (varint_bytes (unat (zcdr_Encode64 n)))"
  using put_room_puts [of ra "varint_bytes (unat (zcdr_Encode64 n))" 10] varint_room64
  by (simp add: ztlv_write_var_int64_def write64_varint)

lemma get_type_unread:
  assumes wf: "buf_wf b" and u: "unread b = t # rest"
  shows "ztlv_get_type (Some b) = Inr (t, Some (adv b 1))"
proof -
  have fit: "unat (zb_offset b) + 1 \<le> unat (zb_len b)"
    using unread_fits [OF wf, of "[t]" rest] u by simp
  then obtain blk where blk: "zb_buf b = Some blk" "unat (zb_len b) \<le> length blk"
    using buf_wf_len_cap [OF wf] by (cases "zb_buf b") auto
  have lt: "unat (zb_offset b) < 4294967295" using fit u32_bound [of "zb_len b"] by linarith
  have "unat (zb_offset b + 1) = unat (zb_offset b) + 1"
    using lt unat_add_u32_small [of "zb_offset b" 1] by simp
  then have "\<not> zb_len b < zb_offset b + 1" using fit by (simp add: word_less_nat_alt)
  moreover have "blk ! unat (zb_offset b) = t"
    using u blk fit by (simp add: unread_def contents_def)
      (metis Suc_le_eq hd_drop_conv_nth length_take list.sel(1) min.absorb2 nth_take)
  ultimately show ?thesis
    using blk fit by (simp add: ztlv_get_type_def zcrt_buf_get_def Let_def zcrt_mem adv_def)
qed

lemma rd_limit_small:
  assumes "unat (zb_offset b) \<le> unat (zb_len b)" "unat (zb_len b) < 2 ^ 31"
  shows "rd_limit b = int (unat (zb_len b)) - int (unat (zb_offset b))"
proof -
  have d: "unat (zb_len b - zb_offset b) = unat (zb_len b) - unat (zb_offset b)"
    using assms(1) by (intro unat_sub) (simp add: word_le_nat_alt)
  have "signed_take_bit 31 (int k) = int k" if "k < 2 ^ 31" for k
    using that by (intro signed_take_bit_int_eq_self) simp_all
  moreover have "unat (zb_len b) - unat (zb_offset b) < 2 ^ 31" using assms(2) by simp
  ultimately have "rd_limit b = int (unat (zb_len b) - unat (zb_offset b))"
    unfolding rd_limit_def sint_uint uint_nat d by simp
  then show ?thesis using assms(1) by linarith
qed

lemma rd_unread:
  assumes wf: "buf_wf b" and u: "unread b = bytes @ rest" and ne: "bytes \<noteq> []"
    and small: "unat (zb_len b) < 2 ^ 31"
  obtains blk tl where "rd_ptr b = (Some blk, unat (zb_offset b))"
    "drop (unat (zb_offset b)) blk = bytes @ tl" "int (length bytes) \<le> rd_limit b + 1"
    "rd_limit b = int (unat (zb_len b)) - int (unat (zb_offset b))"
proof -
  have fit: "unat (zb_offset b) + length bytes \<le> unat (zb_len b)" by (rule unread_fits [OF wf u ne])
  then obtain blk where blk: "zb_buf b = Some blk" "unat (zb_len b) \<le> length blk"
    using buf_wf_len_cap [OF wf] ne by (cases "zb_buf b") auto
  have "take (unat (zb_len b) - unat (zb_offset b)) (drop (unat (zb_offset b)) blk) = bytes @ rest"
    using u blk by (simp add: unread_def contents_def drop_take)
  then have tl: "drop (unat (zb_offset b)) blk =
      bytes @ rest @ drop (unat (zb_len b) - unat (zb_offset b)) (drop (unat (zb_offset b)) blk)"
    by (metis append.assoc append_take_drop_id)
  have l: "rd_limit b = int (unat (zb_len b)) - int (unat (zb_offset b))"
    using fit small by (intro rd_limit_small) simp_all
  moreover have "int (length bytes) \<le> rd_limit b + 1" using l fit by linarith
  moreover have "rd_ptr b = (Some blk, unat (zb_offset b))" using blk by (simp add: rd_ptr_def)
  ultimately show ?thesis using that tl by blast
qed

lemma read_var_int_gets: "gets ztlv_read_var_int n (varint_bytes (unat (zcrt_ZigZagEncode32 n)))"
proof (unfold gets_def, intro allI impI, elim conjE)
  fix b rest
  let ?m = "unat (zcrt_ZigZagEncode32 n)"
  assume b: "buf_wf b" "unat (zb_len b) < 2 ^ 31" "unread b = varint_bytes ?m @ rest"
  have ne: "varint_bytes ?m \<noteq> []" using varint_room32 by blast
  obtain blk tl where r: "rd_ptr b = (Some blk, unat (zb_offset b))"
    "drop (unat (zb_offset b)) blk = varint_bytes ?m @ tl" "int (length (varint_bytes ?m)) \<le> rd_limit b + 1"
    by (rule rd_unread [OF b(1,3) ne b(2)])
  show "ztlv_read_var_int (Some b) = Inr (Some n, Some (adv b (length (varint_bytes ?m))))"
    using read_len_varint [OF r(2) _ r(3)] r(1)
    by (simp add: ztlv_read_var_int_def zigzag32_inverse adv_def)
qed

lemma read_var_int64_gets: "gets ztlv_read_var_int64 n (varint_bytes (unat (zcdr_Encode64 n)))"
proof (unfold gets_def, intro allI impI, elim conjE)
  fix b rest
  let ?m = "unat (zcdr_Encode64 n)"
  assume b: "buf_wf b" "unat (zb_len b) < 2 ^ 31" "unread b = varint_bytes ?m @ rest"
  have ne: "varint_bytes ?m \<noteq> []" using varint_room64 by blast
  obtain blk tl where r: "rd_ptr b = (Some blk, unat (zb_offset b))"
    "drop (unat (zb_offset b)) blk = varint_bytes ?m @ tl" "int (length (varint_bytes ?m)) \<le> rd_limit b + 1"
    by (rule rd_unread [OF b(1,3) ne b(2)])
  show "ztlv_read_var_int64 (Some b) = Inr (Some n, Some (adv b (length (varint_bytes ?m))))"
    using read64_varint [OF r(2) _ r(3)] r(1) ne
    by (simp add: ztlv_read_var_int64_def zigzag64_inverse adv_def)
qed

lemma get_len_unread:
  assumes b: "buf_wf b" "unat (zb_len b) < 2 ^ 31" "unread b = varint_bytes (unat n) @ rest"
  shows "ztlv_get_len (Some b) = Inr (True, n, Some (adv b (length (varint_bytes (unat n)))))"
proof -
  have ne: "varint_bytes (unat n) \<noteq> []" using varint_room32 by blast
  obtain blk tl where r: "rd_ptr b = (Some blk, unat (zb_offset b))"
    "drop (unat (zb_offset b)) blk = varint_bytes (unat n) @ tl"
    "int (length (varint_bytes (unat n))) \<le> rd_limit b + 1"
    by (rule rd_unread [OF b(1,3) ne b(2)])
  show ?thesis using read_len_varint [OF r(2) _ r(3)] r(1) by (simp add: ztlv_get_len_def adv_def)
qed

text \<open>A type byte, then what its reader reads.\<close>

lemma typed_gets:
  assumes f: "gets f x bytes" and g: "\<And>v. rbind (ztlv_get_type v) h = g v"
    and h: "\<And>v. h (t, v) = rbind (f v) (\<lambda>(r, v1). Inr (map_option k r, v1))"
  shows "gets g (k x) (t # bytes)"
proof (unfold gets_def, intro allI impI, elim conjE)
  fix b rest
  assume b: "buf_wf b" "unat (zb_len b) < 2 ^ 31" "unread b = (t # bytes) @ rest"
  have u: "unread (adv b 1) = bytes @ rest" using unread_adv [OF b(1), of "[t]"] b(3) by simp
  have "f (Some (adv b 1)) = Inr (Some x, Some (adv (adv b 1) (length bytes)))"
    by (rule getsD [OF f _ _ u]) (use b in simp_all)
  then show "g (Some b) = Inr (Some (k x), Some (adv b (length (t # bytes))))"
    using get_type_unread [OF b(1), of t "bytes @ rest"] b(3)
    by (simp add: g [symmetric] h)
qed

section \<open>Codecs\<close>

fun enc_bool :: "bool \<Rightarrow> u8 list" where
  "enc_bool v = [if v then ZTLV_TRUE else ZTLV_FALSE]"

definition enc_int :: "s32 \<Rightarrow> u8 list" where
  "enc_int v = ZTLV_INT # varint_bytes (unat (zcrt_ZigZagEncode32 v))"

definition enc_int64 :: "s64 \<Rightarrow> u8 list" where
  "enc_int64 v = (if ZTLV_VAL_IS_INT32 v then enc_int (ucast v)
     else ZTLV_INT64 # varint_bytes (unat (zcdr_Encode64 v)))"

definition enc_uint32 :: "u32 \<Rightarrow> u8 list" where
  "enc_uint32 v = enc_int64 (ucast v)"

text \<open>
  The contract of a type on the wire: its putter appends exactly \<^verbatim>\<open>enc x\<close>, and its getter
  reads \<^verbatim>\<open>x\<close> from any buffer whose unread bytes begin with \<^verbatim>\<open>enc x\<close>.
\<close>

locale codec =
  fixes enc :: "'a \<Rightarrow> u8 list" and put :: "'a putter" and get :: "'a getter"
  assumes put_law: "realloc_total ra \<Longrightarrow> puts (\<lambda>v. put ra v x) (enc x)"
    and get_law: "gets get x (enc x)"
begin

lemma roundtrip:
  assumes "buf_wf b" "realloc_total ra" "unat (zb_len b) + length (enc x) + 16 < 2 ^ 31" "zb_offset b = zb_len b"
  shows "\<exists>b1 b2. put ra (Some b) x = Inr (True, Some b1) \<and> get (Some b1) = Inr (Some x, Some b2) \<and>
    buf_wf b1 \<and> contents b1 = contents b @ enc x \<and> zb_offset b2 = zb_len b1"
  by (rule puts_gets [OF put_law [OF assms(2)] get_law assms(1,3,4)])

text \<open>No encoding is a proper prefix of another, so a sequence of values has one reading.\<close>

lemma unambiguous:
  assumes "enc x @ r = enc y @ s" "length (enc x @ r) < 2 ^ 31"
  shows "x = y \<and> r = s"
proof -
  let ?b = "zbuf_zero\<lparr>zb_buf := Some (enc x @ r), zb_maxlen := of_nat (length (enc x @ r)),
    zb_len := of_nat (length (enc x @ r))\<rparr>"
  have n: "unat (of_nat (length (enc x @ r)) :: u32) = length (enc x @ r)"
    using assms(2) by (intro unat_of_nat_u32_small) simp
  have wf: "buf_wf ?b" using n by (simp add: buf_wf_def)
  have u: "unread ?b = enc x @ r" using n by (simp add: unread_def contents_def zbuf_zero_def)
  have small: "unat (zb_len ?b) < 2 ^ 31" using n assms(2) by simp
  have "get (Some ?b) = Inr (Some x, Some (adv ?b (length (enc x))))"
    by (rule getsD [OF get_law wf small u])
  moreover have "get (Some ?b) = Inr (Some y, Some (adv ?b (length (enc y))))"
    by (rule getsD [OF get_law wf small]) (use u assms(1) in simp)
  ultimately have "x = y" by simp
  with assms(1) show ?thesis by simp
qed

end

interpretation bool_codec: codec enc_bool ztlv_put_bool "ztlv_get_bool True"
proof
  show "puts (\<lambda>v. ztlv_put_bool ra v x) (enc_bool x)" if "realloc_total ra" for ra x
    using put_type_puts [OF that] by (simp add: ztlv_put_bool_def)
  show "gets (ztlv_get_bool True) x (enc_bool x)" for x
    unfolding gets_def
    by (auto simp: get_type_unread ztlv_get_bool_def tlv_types)
qed

lemma int_puts: "realloc_total ra \<Longrightarrow>
  puts (\<lambda>v. rbind (ztlv_put_type ra v ZTLV_INT) (\<lambda>(ok, v1). if \<not> ok then Inr (False, v1) else ztlv_write_var_int ra v1 n))
    (enc_int n)"
  using puts_seq [OF put_type_puts [of ra ZTLV_INT] write_var_int_puts [of ra n] refl]
  by (simp add: enc_int_def)

lemma int64_puts: "realloc_total ra \<Longrightarrow>
  puts (\<lambda>v. rbind (ztlv_put_type ra v ZTLV_INT64) (\<lambda>(ok, v1). if \<not> ok then Inr (False, v1) else ztlv_write_var_int64 ra v1 n))
    (ZTLV_INT64 # varint_bytes (unat (zcdr_Encode64 n)))"
  using puts_seq [OF put_type_puts [of ra ZTLV_INT64] write_var_int64_puts [of ra n] refl] by simp

lemma get_int_gets: "gets ztlv_get_int n (enc_int n)"
  using typed_gets [OF read_var_int_gets [of n], where t = ZTLV_INT and g = ztlv_get_int and k = id]
  by (simp add: enc_int_def ztlv_get_int_def option.map_id split_def)

lemma get_int_gets64: "gets ztlv_get_int (ucast n) (ZTLV_INT64 # varint_bytes (unat (zcdr_Encode64 n)))"
  using typed_gets [OF read_var_int64_gets [of n], where t = ZTLV_INT64 and g = ztlv_get_int and k = ucast]
  by (simp add: ztlv_get_int_def tlv_types split_def)

interpretation int_codec: codec enc_int ztlv_put_int ztlv_get_int
  by unfold_locales (simp_all add: ztlv_put_int_def int_puts get_int_gets)

lemma int32_back:
  assumes "ZTLV_VAL_IS_INT32 v"
  shows "scast (ucast v :: s32) = v"
proof -
  have "signed_take_bit 31 (sint v) = sint v"
    using assms by (intro signed_take_bit_int_eq_self) (simp_all add: ZTLV_VAL_IS_INT32_def)
  moreover have "sint (ucast v :: s32) = signed_take_bit 31 (sint v)"
    by (simp add: sint_uint unsigned_ucast_eq unsigned_take_bit_eq signed_take_bit_take_bit)
  ultimately have "sint (ucast v :: s32) = sint v" by simp
  moreover have "sint (scast (ucast v :: s32) :: s64) = sint (ucast v :: s32)"
    by (simp add: sint_up_scast is_up_def source_size_def target_size_def word_size)
  ultimately have "sint (scast (ucast v :: s32) :: s64) = sint v" by simp
  then show ?thesis by (rule signed_word_eqI)
qed

interpretation int64_codec: codec enc_int64 ztlv_put_int64 ztlv_get_int64
proof
  show "puts (\<lambda>v. ztlv_put_int64 ra v x) (enc_int64 x)" if "realloc_total ra" for ra x
    using int_puts [OF that] int64_puts [OF that] by (simp add: ztlv_put_int64_def enc_int64_def)
  show "gets ztlv_get_int64 x (enc_int64 x)" for x
  proof (cases "ZTLV_VAL_IS_INT32 x")
    case True
    then show ?thesis
      using typed_gets [OF read_var_int_gets [of "ucast x"], where t = ZTLV_INT and g = ztlv_get_int64 and k = scast]
      by (simp add: enc_int64_def enc_int_def ztlv_get_int64_def split_def int32_back)
  next
    case False
    then show ?thesis
      using typed_gets [OF read_var_int64_gets [of x], where t = ZTLV_INT64 and g = ztlv_get_int64 and k = id]
      by (simp add: enc_int64_def ztlv_get_int64_def tlv_types split_def option.map_id)
  qed
qed

interpretation uint32_codec: codec enc_uint32 ztlv_put_uint32 ztlv_get_uint32
proof
  have u: "ucast (ucast x :: s64) = (x :: u32)" for x
    by (rule bit_word_eqI) (auto simp: bit_simps)
  show "puts (\<lambda>v. ztlv_put_uint32 ra v x) (enc_uint32 x)" if "realloc_total ra" for ra x
    using int_puts [OF that] int64_puts [OF that]
    by (simp add: ztlv_put_uint32_def enc_uint32_def enc_int64_def Let_def u)
  show "gets ztlv_get_uint32 x (enc_uint32 x)" for x
    using get_int_gets [of x] get_int_gets64 [of "ucast x"]
    by (simp add: ztlv_get_uint32_def [abs_def] enc_uint32_def enc_int64_def u)
qed

section \<open>Strings\<close>

definition enc_str :: "u8 list \<Rightarrow> u8 list" where
  "enc_str bs = ZTLV_STR # varint_bytes (length bs) @ bs"

lemma append_puts:
  assumes ra: "realloc_total ra" and src: "load_n p (unat n) = Inr bytes"
  shows "puts (\<lambda>v. rbind (zcrt_buf_append ra v p n) (\<lambda>(_, v1). Inr (True, v1))) bytes"
proof (rule putsI)
  fix b assume b: "buf_wf b" "unat (zb_len b) + length bytes + 16 < 2 ^ 31"
  then have "unat (zb_len b) + unat n + 1 < 2 ^ 31" using load_n_length [OF src] by simp
  from append_spec [OF b(1) ra src this]
  obtain b' where "zcrt_buf_append ra (Some b) p n = Inr (n, Some b')" "buf_wf b'"
    "contents b' = contents b @ bytes" "zb_offset b' = zb_offset b" by metis
  then show "\<exists>b'. rbind (zcrt_buf_append ra (Some b) p n) (\<lambda>(_, v1). Inr (True, v1)) = Inr (True, Some b') \<and>
      buf_wf b' \<and> contents b' = contents b @ bytes \<and> zb_offset b' = zb_offset b"
    by simp
qed

lemma put_lstring_puts:
  assumes ra: "realloc_total ra" and src: "load_n p (unat n) = Inr bytes" and p: "p \<noteq> null_ptr"
  shows "puts (\<lambda>v. ztlv_put_lstring ra v p n) (enc_str bytes)"
proof -
  have "puts (\<lambda>v. rbind (ztlv_put_type ra v ZTLV_STR) (\<lambda>(ok, v1). if \<not> ok then Inr (False, v1)
      else rbind (ztlv_put_len ra v1 n) (\<lambda>(_, v2). rbind (zcrt_buf_append ra v2 p n) (\<lambda>(_, v3). Inr (True, v3)))))
      ([ZTLV_STR] @ varint_bytes (unat n) @ bytes)"
    by (rule puts_seq [OF put_type_puts [OF ra] puts_then [OF put_len_puts [OF ra] append_puts [OF ra src]] refl])
  then show ?thesis using p load_n_length [OF src] by (simp add: ztlv_put_lstring_def enc_str_def)
qed

lemma get_string_unread:
  assumes b: "buf_wf b" "unat (zb_len b) < 2 ^ 31" "unread b = enc_str bytes @ rest"
  obtains s where "ztlv_get_string (Some b) v = Inr (True, s, Some (adv b (length (enc_str bytes))))"
    "unat (zs_len s) = length bytes" "load_n (zs_ptr s) (unat (zs_len s)) = Inr bytes"
proof -
  let ?n = "of_nat (length bytes) :: u32" and ?h = "varint_bytes (length bytes)"
  have fit: "unat (zb_offset b) + length (enc_str bytes) \<le> unat (zb_len b)"
    using unread_fits [OF b(1,3)] by (simp add: enc_str_def)
  then have "length bytes \<le> unat (zb_len b)" by (simp add: enc_str_def)
  then have "length bytes < 4294967296" using u32_bound [of "zb_len b"] by linarith
  then have n: "unat ?n = length bytes" by (rule unat_of_nat_u32_small)
  let ?b1 = "adv b 1" and ?b2 = "adv b (1 + length ?h)"
  have u: "unread b = [ZTLV_STR] @ ?h @ bytes @ rest" using b(3) by (simp add: enc_str_def)
  have u1: "unread ?b1 = ?h @ bytes @ rest" using unread_adv [OF b(1) u] by simp
  have u': "unread b = (ZTLV_STR # ?h) @ bytes @ rest" using u by simp
  have u2: "unread ?b2 = bytes @ rest" and o2: "unat (zb_offset ?b2) = unat (zb_offset b) + 1 + length ?h"
    using unread_adv [OF b(1) u'] unat_adv [OF b(1) u'] by simp_all
  have t: "ztlv_get_type (Some b) = Inr (ZTLV_STR, Some ?b1)" using get_type_unread [OF b(1)] u by simp
  have l: "ztlv_get_len (Some ?b1) = Inr (True, ?n, Some ?b2)"
    using get_len_unread [of ?b1 ?n "bytes @ rest"] u1 b(1,2) n by simp
  have fits2: "unat (zb_offset ?b2) + unat ?n \<le> unat (zb_len ?b2)"
    using fit o2 n by (simp add: enc_str_def)
  moreover have "unat (zb_offset ?b2) + unat ?n < 2 ^ 32"
    by (rule le_less_trans [OF fits2]) simp
  ultimately have g: "zcrt_buf_getstr (Some ?b2) ?n =
      Inr (True, \<lparr>zs_len = ?n, zs_ptr = (zb_buf b, unat (zb_offset ?b2))\<rparr>,
        Some (?b2\<lparr>zb_offset := zb_offset ?b2 + ?n\<rparr>))"
    using getstr_no_wrap [of ?b2 ?n] b(1) by simp
  have "?b2\<lparr>zb_offset := zb_offset ?b2 + ?n\<rparr> = adv b (length (enc_str bytes))"
    using adv_simps(6) [of b "1 + length ?h" "length bytes"] by (simp add: adv_def enc_str_def)
  moreover have "load_n (zb_buf b, unat (zb_offset ?b2)) (length bytes) = Inr bytes"
    using load_contents [of ?b2 "unat (zb_offset ?b2)" "length bytes"] fits2 n b(1) u2
    by (simp add: unread_def)
  ultimately show ?thesis
    using that t l g n by (simp add: ztlv_get_string_def)
qed

lemma table_cnt_puts:
  assumes ra: "realloc_total ra"
  shows "puts (\<lambda>v. ztlv_put_table_cnt ra v n) ([ZTLV_TABLE] @ varint_bytes (unat n))"
proof -
  have "puts (\<lambda>v. rbind (ztlv_put_len ra v n) (\<lambda>(_, v1). Inr (True, v1))) (varint_bytes (unat n))"
    using puts_then [OF put_len_puts [OF ra, of n], of "\<lambda>v. Inr (True, v)" "[]"] by (auto simp: puts_def)
  from puts_then [OF put_type_puts [OF ra] this] show ?thesis by (simp add: ztlv_put_table_cnt_def)
qed

section \<open>Arrays of coded elements\<close>

text \<open>
  Elements of one fixed width: \<^verbatim>\<open>wr\<close> lays a value out in memory and \<^verbatim>\<open>rd\<close> takes it back.
  The callbacks the array functions are given convert between the two.
\<close>

definition elem_get :: "'a getter \<Rightarrow> ('a \<Rightarrow> u8 list) \<Rightarrow> type_get" where
  "elem_get get wr buf old = rbind (get buf) (\<lambda>(v, buf1). case v of
     None \<Rightarrow> Inr (False, old, buf1) | Some x \<Rightarrow> Inr (True, wr x, buf1))"

definition elem_put :: "'a putter \<Rightarrow> (u8 list \<Rightarrow> 'a) \<Rightarrow> type_put" where
  "elem_put put rd ra buf bytes = put ra buf (rd bytes)"

fun enc_items :: "('a \<Rightarrow> u8 list) \<Rightarrow> nat \<Rightarrow> 'a list \<Rightarrow> u8 list" where
  "enc_items enc k [] = []"
| "enc_items enc k (x # xs) = enc_int (of_nat k + 1) @ enc x @ enc_items enc (Suc k) xs"

definition enc_array :: "('a \<Rightarrow> u8 list) \<Rightarrow> 'a list \<Rightarrow> u8 list" where
  "enc_array enc xs = ZTLV_TABLE # varint_bytes (length xs) @ enc_items enc 0 xs"

locale elem_codec = codec enc put get
  for enc :: "'a \<Rightarrow> u8 list" and put :: "'a putter" and get :: "'a getter" +
  fixes rd :: "u8 list \<Rightarrow> 'a" and wr :: "'a \<Rightarrow> u8 list" and width :: nat
  assumes rd_wr: "rd (wr x) = x" and wr_width: "length (wr x) = width"
begin

lemma put_items_puts:
  assumes ra: "realloc_total ra" and wf: "arr_wf a" "unat (za_unitsize a) = width"
    and el: "drop k (elems a) = map wr xs"
  shows "puts (put_items ra (elem_put put rd) (map of_nat [k..<k + length xs]) (Some a)) (enc_items enc k xs)"
  using el
proof (induction xs arbitrary: k)
  case Nil
  then show ?case by (auto simp: puts_def)
next
  case (Cons x xs)
  have lt: "k < length (elems a)" using Cons.prems by (metis drop_all list.distinct(1) list.simps(9) not_le)
  then have kl: "k < unat (za_len a)" by (simp add: elems_def)
  have uk: "unat (of_nat k :: u32) = k"
    using kl u32_bound [of "za_len a"] by (intro unat_of_nat_u32_small) linarith
  have idx: "(of_nat k :: u32) < za_len a" using kl uk by (simp add: word_less_nat_alt)
  have "elems a ! k = wr x" "drop (Suc k) (elems a) = map wr xs"
    using Cons.prems lt by (metis Cons_nth_drop_Suc list.inject list.simps(9))+
  then have load: "load_n (zarray_get a (of_nat k)) width = Inr (wr x)"
    using zarray_get_elem [OF wf(1) idx] uk wf(2) by simp
  have ups: "map of_nat [k..<k + length (x # xs)] = of_nat k # map of_nat [Suc k..<Suc k + length xs]"
    by (simp add: upt_conv_Cons del: upt_Suc)
  have IH: "puts (put_items ra (elem_put put rd) (map of_nat [Suc k..<Suc k + length xs]) (Some a))
      (enc_items enc (Suc k) xs)"
    by (rule Cons.IH) fact
  have "puts (\<lambda>v. rbind (put ra v x) (\<lambda>(ok, v1). if \<not> ok then Inr (False, v1)
      else put_items ra (elem_put put rd) (map of_nat [Suc k..<Suc k + length xs]) (Some a) v1))
      (enc x @ enc_items enc (Suc k) xs)"
    by (rule puts_seq [OF put_law [OF ra] IH refl])
  from puts_then [OF int_codec.put_law [OF ra, of "of_nat k + 1"] this]
  show ?case unfolding ups put_items.simps elem_put_def enc_items.simps
    by (simp add: load wf(2) rd_wr)
qed

lemma get_items_unread:
  assumes "arr_wf a" "unat (za_unitsize a) = width" "unat (za_len a) = k + length xs"
    and "buf_wf b" "unat (zb_len b) < 2 ^ 31" "unread b = enc_items enc k xs @ rest"
  shows "\<exists>a'. get_items (elem_get get wr) (map of_nat [k..<k + length xs]) a (Some b) =
      Inr (True, a', Some (adv b (length (enc_items enc k xs)))) \<and> arr_wf a' \<and>
      za_unitsize a' = za_unitsize a \<and> elems a' = take k (elems a) @ map wr xs"
  using assms
proof (induction xs arbitrary: k a b)
  case Nil
  then have "length (elems a) = k" by (simp add: elems_def)
  with Nil show ?case by simp
next
  case (Cons x xs)
  let ?i = "enc_int (of_nat k + 1)" and ?k = "of_nat k :: u32"
  let ?b1 = "adv b (length ?i)" and ?b2 = "adv b (length ?i + length (enc x))"
  have kl: "k < unat (za_len a)" using Cons.prems(3) by simp
  have uk: "unat ?k = k"
    using kl u32_bound [of "za_len a"] by (intro unat_of_nat_u32_small) linarith
  have idx: "?k < za_len a" using kl uk by (simp add: word_less_nat_alt)
  have u: "unread b = ?i @ enc x @ enc_items enc (Suc k) xs @ rest" using Cons.prems(6) by simp
  have u1: "unread ?b1 = enc x @ enc_items enc (Suc k) xs @ rest"
    by (rule unread_adv [OF Cons.prems(4) u])
  have u2: "unread ?b2 = enc_items enc (Suc k) xs @ rest"
    using unread_adv [OF _ u1] Cons.prems(4) by simp
  have g1: "ztlv_get_int (Some b) = Inr (Some (of_nat k + 1), Some ?b1)"
    by (rule getsD [OF int_codec.get_law Cons.prems(4,5) u])
  have g2: "get (Some ?b1) = Inr (Some x, Some ?b2)"
    using getsD [OF get_law _ _ u1] Cons.prems(4,5) by simp
  have old: "load_n (zarray_get a ?k) (unat (za_unitsize a)) = Inr (elems a ! k)"
    using zarray_get_elem [OF Cons.prems(1) idx] uk by simp
  obtain a1 where a1: "zarray_put a ?k (wr x) = Inr a1" "arr_wf a1" "za_unitsize a1 = za_unitsize a"
    "za_len a1 = za_len a" "elems a1 = (elems a)[k := wr x]"
    using elems_put [OF Cons.prems(1) idx, of "wr x"] wr_width Cons.prems(2) uk by metis
  have "\<exists>a'. get_items (elem_get get wr) (map of_nat [Suc k..<Suc k + length xs]) a1 (Some ?b2) =
      Inr (True, a', Some (adv ?b2 (length (enc_items enc (Suc k) xs)))) \<and> arr_wf a' \<and>
      za_unitsize a' = za_unitsize a1 \<and> elems a' = take (Suc k) (elems a1) @ map wr xs"
    by (rule Cons.IH [OF a1(2) _ _ _ _ u2]) (use Cons.prems a1 in simp_all)
  moreover have "take (Suc k) (elems a1) = take k (elems a) @ [wr x]"
    using kl a1(5) by (simp add: take_Suc_conv_app_nth elems_def)
  moreover have ups: "map of_nat [k..<k + length (x # xs)] = ?k # map of_nat [Suc k..<Suc k + length xs]"
    by (simp add: upt_conv_Cons del: upt_Suc)
  ultimately show ?case unfolding ups get_items.simps
    using g1 g2 old a1(1,3) by (simp add: elem_get_def add.assoc)
qed

lemma put_array_puts:
  assumes ra: "realloc_total ra" and a: "arr_wf a" "unat (za_unitsize a) = width" "elems a = map wr xs"
  shows "puts (\<lambda>v. ztlv_put_array ra v (Some a) (Some (elem_put put rd))) (enc_array enc xs)"
proof -
  have len: "unat (za_len a) = length xs" using arg_cong [OF a(3), of length] by (simp add: elems_def)
  have "puts (put_items ra (elem_put put rd) (indices (za_len a)) (Some a)) (enc_items enc 0 xs)"
    using put_items_puts [OF ra a(1,2), of 0 xs] a(3) len by (simp add: indices_def)
  from puts_then [OF table_cnt_puts [OF ra, of "za_len a"] this] show ?thesis
    by (simp add: ztlv_put_array_def zarray_getlength_def enc_array_def len)
qed

lemma get_array_unread:
  assumes ra: "realloc_total ra" and a: "arr_wf a" "unat (za_unitsize a) = width"
    and b: "buf_wf b" "unat (zb_len b) < 2 ^ 31" "unread b = enc_array enc xs @ rest"
    and cap: "length xs < 0xfffff" "width * new_cap a (of_nat (length xs)) < 2 ^ 32"
      "new_cap a (of_nat (length xs)) < 2 ^ 32"
  shows "\<exists>a'. ztlv_get_array ra (Some b) (Some a) (Some (elem_get get wr)) =
    Inr (True, Some a', Some (adv b (length (enc_array enc xs)))) \<and> arr_wf a' \<and> elems a' = map wr xs"
proof -
  let ?n = "of_nat (length xs) :: u32" and ?h = "varint_bytes (length xs)"
  have n: "unat ?n = length xs" using cap(1) by (intro unat_of_nat_u32_small) simp
  have small: "?n < 0xfffff" using cap(1) n by (simp add: word_less_nat_alt)
  let ?b1 = "adv b 1" and ?b2 = "adv b (1 + length ?h)"
  have u: "unread b = [ZTLV_TABLE] @ ?h @ enc_items enc 0 xs @ rest"
    and u': "unread b = (ZTLV_TABLE # ?h) @ enc_items enc 0 xs @ rest"
    using b(3) by (simp_all add: enc_array_def)
  have u1: "unread ?b1 = ?h @ enc_items enc 0 xs @ rest" using unread_adv [OF b(1) u] by simp
  have u2: "unread ?b2 = enc_items enc 0 xs @ rest" using unread_adv [OF b(1) u'] by simp
  have t: "ztlv_get_type (Some b) = Inr (ZTLV_TABLE, Some ?b1)" using get_type_unread [OF b(1)] u by simp
  have l: "ztlv_get_len (Some ?b1) = Inr (True, ?n, Some ?b2)"
    using get_len_unread [of ?b1 ?n "enc_items enc 0 xs @ rest"] u1 b(1,2) n by simp
  obtain a1 where a1: "zarray_setlength ra a ?n = Inr a1" "arr_wf a1" "za_len a1 = ?n"
    "za_unitsize a1 = za_unitsize a"
    using setlength_elems [OF a(1) ra small] cap a(2) by metis
  have "\<exists>a'. get_items (elem_get get wr) (map of_nat [0..<0 + length xs]) a1 (Some ?b2) =
      Inr (True, a', Some (adv ?b2 (length (enc_items enc 0 xs)))) \<and> arr_wf a' \<and>
      za_unitsize a' = za_unitsize a1 \<and> elems a' = take 0 (elems a1) @ map wr xs"
    by (rule get_items_unread [OF a1(2) _ _ _ _ u2]) (use a1 a(2) b(1,2) n in simp_all)
  with t l a1(1) n show ?thesis
    by (auto simp: ztlv_get_array_def ztlv_get_table_cnt_def indices_def enc_array_def)
qed

end

text \<open>Little-endian memory images of the element types.\<close>

definition bytes_of :: "'a::len word \<Rightarrow> u8 list" where
  "bytes_of v = map (\<lambda>k. ucast (drop_bit (8 * k) v)) [0..<LENGTH('a) div 8]"

fun of_bytes :: "u8 list \<Rightarrow> 'a::len word" where
  "of_bytes [] = 0"
| "of_bytes (b # bs) = ucast b OR push_bit 8 (of_bytes bs)"

lemma bit_of_bytes:
  "bit (of_bytes bs :: 'a::len word) n \<longleftrightarrow>
    n < LENGTH('a) \<and> n div 8 < length bs \<and> bit (bs ! (n div 8)) (n mod 8)"
proof (induction bs arbitrary: n)
  case (Cons b bs)
  show ?case
  proof (cases "n < 8")
    case True
    then show ?thesis using bit_imp_le_length [of "of_bytes (b # bs) :: 'a word" n]
      by (auto simp: bit_or_iff bit_push_bit_iff bit_unsigned_iff)
  next
    case False
    then obtain m where m: "n = m + 8" by (metis le_add_diff_inverse2 not_less)
    have "(m + 8) div 8 = Suc (m div 8)" by simp
    moreover have "\<not> bit b n" using m bit_imp_le_length [of b n] by auto
    ultimately show ?thesis using m Cons.IH [of m] bit_imp_le_length [of "of_bytes (b # bs) :: 'a word" n]
      by (auto simp: bit_or_iff bit_push_bit_iff bit_unsigned_iff)
  qed
qed simp

lemma of_bytes_bytes_of:
  assumes "8 dvd LENGTH('a)"
  shows "of_bytes (bytes_of v) = (v :: 'a::len word)"
proof (rule bit_word_eqI)
  fix n assume n: "n < LENGTH('a)"
  then have "n div 8 < LENGTH('a) div 8" using assms by (auto simp: div_less_iff_less_mult elim: dvdE)
  with n show "bit (of_bytes (bytes_of v) :: 'a word) n \<longleftrightarrow> bit v n"
    by (simp add: bit_of_bytes bytes_of_def bit_unsigned_iff bit_drop_bit_eq)
qed

lemma bytes_of_width: "length (bytes_of (v :: 32 word)) = 4" "length (bytes_of (w :: 64 word)) = 8"
  by (simp_all add: bytes_of_def)

interpretation int_elems: elem_codec enc_int ztlv_put_int ztlv_get_int of_bytes bytes_of 4
  by unfold_locales (simp_all add: bytes_of_width of_bytes_bytes_of)

interpretation uint32_elems: elem_codec enc_uint32 ztlv_put_uint32 ztlv_get_uint32 of_bytes bytes_of 4
  by unfold_locales (simp_all add: bytes_of_width of_bytes_bytes_of)

interpretation int64_elems: elem_codec enc_int64 ztlv_put_int64 ztlv_get_int64 of_bytes bytes_of 8
  by unfold_locales (simp_all add: bytes_of_width of_bytes_bytes_of)

interpretation bool_elems: elem_codec enc_bool ztlv_put_bool "ztlv_get_bool True"
  "\<lambda>bs. hd bs \<noteq> 0" "\<lambda>v. [if v then 1 else 0]" 1
  by unfold_locales simp_all

section \<open>Properties\<close>

lemma zbuf_zero_facts: "buf_wf zbuf_zero" "zb_offset zbuf_zero = zb_len zbuf_zero"
  "unat (zb_len zbuf_zero) = 0" "contents zbuf_zero = []"
  by (simp_all add: buf_wf_def zbuf_zero_def contents_def)

text \<open>An array of 32-bit integers written by ztlv_put_array is read back by ztlv_get_array, element
  by element and in order, into any well-formed array that can be grown to hold it, and exactly the
  bytes written are consumed.\<close>

theorem tlv_array_roundtrip:
  assumes ra: "realloc_total ra" and b: "buf_wf b" "zb_offset b = zb_len b"
    and src: "arr_wf src" "za_unitsize src = 4" "elems src = map bytes_of xs"
    and dst: "arr_wf dst" "za_unitsize dst = 4"
    and room: "unat (zb_len b) + length (enc_array enc_int xs) + 16 < 2 ^ 31"
    and cap: "length xs < 0xfffff" "4 * new_cap dst (of_nat (length xs)) < 2 ^ 32"
  shows "\<exists>b1 b2 dst'. ztlv_put_array ra (Some b) (Some src) (Some (elem_put ztlv_put_int of_bytes)) = Inr (True, Some b1) \<and>
    ztlv_get_array ra (Some b1) (Some dst) (Some (elem_get ztlv_get_int bytes_of)) = Inr (True, Some dst', Some b2) \<and>
    elems dst' = elems src \<and> zb_offset b2 = zb_len b1"
proof -
  have w: "unat (za_unitsize src) = 4" "unat (za_unitsize dst) = 4" using src(2) dst(2) by simp_all
  obtain b1 where b1: "ztlv_put_array ra (Some b) (Some src) (Some (elem_put ztlv_put_int of_bytes)) = Inr (True, Some b1)"
    "buf_wf b1" "contents b1 = contents b @ enc_array enc_int xs" "zb_offset b1 = zb_offset b"
    "unat (zb_len b1) = unat (zb_len b) + length (enc_array enc_int xs)"
    using putsD [OF int_elems.put_array_puts [OF ra src(1) w(1) src(3)] b(1) room] by metis
  have u: "unread b1 = enc_array enc_int xs @ []"
    using b1(3,4) b by (simp add: unread_def length_contents)
  have small: "unat (zb_len b1) < 2 ^ 31" using b1(5) room by simp
  obtain dst' where d: "ztlv_get_array ra (Some b1) (Some dst) (Some (elem_get ztlv_get_int bytes_of)) =
      Inr (True, Some dst', Some (adv b1 (length (enc_array enc_int xs))))" "elems dst' = map bytes_of xs"
    using int_elems.get_array_unread [OF ra dst(1) w(2) b1(2) small u cap(1)] cap(2) by auto
  have "zb_offset (adv b1 (length (enc_array enc_int xs))) = zb_len b1"
    using unat_adv [OF b1(2) u] b1(4,5) b(2) by (simp add: word_unat_eq_iff)
  with b1(1) d src(3) show ?thesis by metis
qed

definition int_array :: "u8 list \<Rightarrow> zarray" where
  "int_array blk = \<lparr>za_len = of_nat (length blk div 4), za_unitsize = 4,
     za_alloced = of_nat (length blk div 4), za_memtag = 0, za_step = 5, za_data = Some blk\<rparr>"

theorem tlv_array_roundtrip_witness:
  "\<exists>b1 b2 dst'. ztlv_put_array realloc_zero (Some zbuf_zero) (Some (int_array [7, 0, 0, 0, 255, 255, 255, 255]))
      (Some (elem_put ztlv_put_int of_bytes)) = Inr (True, Some b1) \<and>
    ztlv_get_array realloc_zero (Some b1) (Some (int_array [0, 0, 0, 0])) (Some (elem_get ztlv_get_int bytes_of)) =
      Inr (True, Some dst', Some b2) \<and>
    elems dst' = [[7, 0, 0, 0], [255, 255, 255, 255]]"
proof -
  let ?src = "int_array [7, 0, 0, 0, 255, 255, 255, 255]" and ?dst = "int_array [0, 0, 0, 0]"
  let ?xs = "[7, - 1] :: s32 list"
  have el: "elems ?src = [[7, 0, 0, 0], [255, 255, 255, 255]]"
    by (simp add: elems_def elem_def int_array_def upt_conv_Cons)
  have im: "bytes_of (7 :: s32) = [7, 0, 0, 0]" "bytes_of (- 1 :: s32) = [255, 255, 255, 255]"
    by code_simp+
  have enc: "length (enc_array enc_int ?xs) = 10"
    by code_simp
  have "\<exists>b1 b2 dst'. ztlv_put_array realloc_zero (Some zbuf_zero) (Some ?src) (Some (elem_put ztlv_put_int of_bytes)) = Inr (True, Some b1) \<and>
    ztlv_get_array realloc_zero (Some b1) (Some ?dst) (Some (elem_get ztlv_get_int bytes_of)) = Inr (True, Some dst', Some b2) \<and>
    elems dst' = elems ?src \<and> zb_offset b2 = zb_len b1"
  proof (rule tlv_array_roundtrip [OF realloc_zero_total zbuf_zero_facts(1,2), of ?src ?xs ?dst])
    show "elems ?src = map bytes_of ?xs" using el im by simp
    show "unat (zb_len zbuf_zero) + length (enc_array enc_int ?xs) + 16 < 2 ^ 31"
      by (simp add: enc zbuf_zero_facts)
    show "4 * new_cap ?dst (of_nat (length ?xs)) < 2 ^ 32" by (simp add: new_cap_def int_array_def)
  qed (simp_all add: arr_wf_def int_array_def)
  then show ?thesis unfolding el by blast
qed

text \<open>Every 64-bit integer written by ztlv_put_int64 is read back by ztlv_get_int64, whether it was
  written in the 32-bit or in the 64-bit form.\<close>

theorem tlv_int64_roundtrip:
  assumes "buf_wf b" "realloc_total ra" "unat (zb_len b) + length (enc_int64 n) + 16 < 2 ^ 31" "zb_offset b = zb_len b"
  shows "\<exists>b1 b2. ztlv_put_int64 ra (Some b) n = Inr (True, Some b1) \<and>
    ztlv_get_int64 (Some b1) = Inr (Some n, Some b2) \<and>
    contents b1 = contents b @ enc_int64 n \<and> zb_offset b2 = zb_len b1"
  using int64_codec.roundtrip [OF assms] by blast

theorem tlv_int64_roundtrip_witness:
  "\<exists>b1 b2. ztlv_put_int64 realloc_zero (Some zbuf_zero) (- 0x80000000) = Inr (True, Some b1) \<and>
    ztlv_get_int64 (Some b1) = Inr (Some (- 0x80000000), Some b2)"
proof -
  have "length (enc_int64 (- 0x80000000)) \<le> 11"
    using varint_room64 [of "zcdr_Encode64 (- 0x80000000)"] varint_room32 [of "zcrt_ZigZagEncode32 (ucast (- 0x80000000 :: s64))"]
    by (simp add: enc_int64_def enc_int_def)
  then have "unat (zb_len zbuf_zero) + length (enc_int64 (- 0x80000000)) + 16 < 2 ^ 31"
    by (simp add: zbuf_zero_facts)
  from tlv_int64_roundtrip [OF zbuf_zero_facts(1) realloc_zero_total this zbuf_zero_facts(2)]
  show ?thesis by blast
qed

text \<open>Every unsigned 32-bit value written by ztlv_put_uint32 is read back by ztlv_get_uint32, those
  above 2147483647, which travel in the 64-bit form and are cut to 32 bits by the reader, included.\<close>

theorem tlv_uint32_roundtrip:
  assumes "buf_wf b" "realloc_total ra" "unat (zb_len b) + length (enc_uint32 n) + 16 < 2 ^ 31" "zb_offset b = zb_len b"
  shows "\<exists>b1 b2. ztlv_put_uint32 ra (Some b) n = Inr (True, Some b1) \<and>
    ztlv_get_uint32 (Some b1) = Inr (Some n, Some b2) \<and>
    contents b1 = contents b @ enc_uint32 n \<and> zb_offset b2 = zb_len b1"
  using uint32_codec.roundtrip [OF assms] by blast

theorem tlv_uint32_roundtrip_witness:
  "\<exists>b1 b2. ztlv_put_uint32 realloc_zero (Some zbuf_zero) 0xFFFFFFFF = Inr (True, Some b1) \<and>
    ztlv_get_uint32 (Some b1) = Inr (Some 0xFFFFFFFF, Some b2)"
proof -
  have "length (enc_uint32 0xFFFFFFFF) \<le> 11"
    using varint_room64 [of "zcdr_Encode64 (ucast (0xFFFFFFFF :: u32))"] varint_room32 [of "zcrt_ZigZagEncode32 (ucast (ucast (0xFFFFFFFF :: u32) :: s64))"]
    by (simp add: enc_uint32_def enc_int64_def enc_int_def)
  then have "unat (zb_len zbuf_zero) + length (enc_uint32 0xFFFFFFFF) + 16 < 2 ^ 31"
    by (simp add: zbuf_zero_facts)
  from tlv_uint32_roundtrip [OF zbuf_zero_facts(1) realloc_zero_total this zbuf_zero_facts(2)]
  show ?thesis by blast
qed

text \<open>A string written by ztlv_put_lstring is handed back by ztlv_get_string as a pointer to the same
  bytes with the same length.\<close>

theorem tlv_string_roundtrip:
  assumes ra: "realloc_total ra" and src: "load_n p (unat n) = Inr bytes" "p \<noteq> null_ptr"
    and b: "buf_wf b" "zb_offset b = zb_len b" and room: "unat (zb_len b) + length (enc_str bytes) + 16 < 2 ^ 31"
  shows "\<exists>b1 b2 s. ztlv_put_lstring ra (Some b) p n = Inr (True, Some b1) \<and>
    ztlv_get_string (Some b1) s0 = Inr (True, s, Some b2) \<and> zs_len s = n \<and>
    load_n (zs_ptr s) (unat n) = Inr bytes \<and> zb_offset b2 = zb_len b1"
proof -
  obtain b1 where b1: "ztlv_put_lstring ra (Some b) p n = Inr (True, Some b1)"
    "buf_wf b1" "contents b1 = contents b @ enc_str bytes" "zb_offset b1 = zb_offset b"
    "unat (zb_len b1) = unat (zb_len b) + length (enc_str bytes)"
    using putsD [OF put_lstring_puts [OF ra src] b(1) room] by metis
  have u: "unread b1 = enc_str bytes @ []"
    using b1(3,4) b by (simp add: unread_def length_contents)
  have small: "unat (zb_len b1) < 2 ^ 31" using b1(5) room by simp
  obtain s where s: "ztlv_get_string (Some b1) s0 = Inr (True, s, Some (adv b1 (length (enc_str bytes))))"
    "unat (zs_len s) = length bytes" "load_n (zs_ptr s) (unat (zs_len s)) = Inr bytes"
    using get_string_unread [OF b1(2) small u] by metis
  have "zb_offset (adv b1 (length (enc_str bytes))) = zb_len b1"
    using unat_adv [OF b1(2) u] b1(4,5) b(2) by (simp add: word_unat_eq_iff)
  moreover have "zs_len s = n" using s(2) load_n_length [OF src(1)] by (simp add: word_unat_eq_iff)
  ultimately show ?thesis using b1(1) s by metis
qed

theorem tlv_string_roundtrip_witness:
  "\<exists>b1 b2 s. ztlv_put_lstring realloc_zero (Some zbuf_zero) (Some [104, 105], 0) 2 = Inr (True, Some b1) \<and>
    ztlv_get_string (Some b1) \<lparr>zs_len = 0, zs_ptr = null_ptr\<rparr> = Inr (True, s, Some b2) \<and> zs_len s = 2 \<and>
    load_n (zs_ptr s) 2 = Inr [104, 105]"
proof -
  have src: "load_n (Some [104 :: u8, 105], 0) (unat (2 :: u32)) = Inr [104, 105]" by (simp add: load_n_def)
  have "unat (zb_len zbuf_zero) + length (enc_str [104, 105]) + 16 < 2 ^ 31"
    by (simp add: zbuf_zero_facts enc_str_def varint_bytes_small)
  from tlv_string_roundtrip [OF realloc_zero_total src _ zbuf_zero_facts(1,2) this,
      where ?s0.0 = "\<lparr>zs_len = 0, zs_ptr = null_ptr\<rparr>"]
  show ?thesis by auto
qed

lemma rd_groups_count: "rd_groups g p k lim acc = Inr (Some (n, v)) \<Longrightarrow> k < n"
  by (induction g arbitrary: k acc) (force simp: Let_def rbind_eq_Inr split: if_splits)+

lemma read_len_null: "zcrt_tlv_read_len p l = Inr (null_ptr, v) \<Longrightarrow> v = 0"
  by (cases p)
    (auto simp: read_len_groups rbind_eq_Inr ret32_def split: option.splits dest: rd_groups_count)

text \<open>When the block of a buffer ends where its used bytes end, ztlv_get_len reads one byte past
  the block exactly when fewer than 5 bytes are left and each has its continuation bit set; it has no
  other fault.\<close>

theorem tlv_get_len_overread:
  assumes b: "buf_wf b" "zb_buf b = Some blk" "length blk = unat (zb_len b)" "length blk < 2 ^ 31"
    and off: "unat (zb_offset b) \<le> length blk"
  shows "ztlv_get_len (Some b) = Inl e \<longleftrightarrow>
    e = OutOfBounds \<and> length (unread b) < 5 \<and> (\<forall>c \<in> set (unread b). 128 \<le> c)"
proof -
  have u: "unread b = drop (unat (zb_offset b)) blk" using b by (simp add: unread_def contents_def)
  have "rd_limit b = int (length blk) - int (unat (zb_offset b))"
    using rd_limit_small [of b] b off by simp
  then have "ztlv_get_len (Some b) = Inl e \<longleftrightarrow>
      zcrt_tlv_read_len (Some blk, unat (zb_offset b)) (int (length blk) - int (unat (zb_offset b))) = Inl e"
    using b by (auto simp: ztlv_get_len_def rbind_eq_Inl rd_ptr_def)
  then show ?thesis using read_len_overread [OF off, of e] u off by auto
qed

theorem tlv_get_len_overread_witness:
  "ztlv_get_len (Some (zbuf_zero\<lparr>zb_buf := Some [128], zb_maxlen := 1, zb_len := 1\<rparr>)) = Inl OutOfBounds"
proof -
  let ?b = "zbuf_zero\<lparr>zb_buf := Some [128], zb_maxlen := 1, zb_len := 1\<rparr>"
  have "buf_wf ?b" by (simp add: buf_wf_def zbuf_zero_def)
  moreover have "unread ?b = [128]" by (simp add: unread_def contents_def zbuf_zero_def)
  ultimately show ?thesis
    using tlv_get_len_overread [of ?b "[128]" OutOfBounds] by (simp add: zbuf_zero_def)
qed

text \<open>ztlv_get_string does not look at the result of ztlv_get_len: where the length cannot be read it
  still returns true, with an empty string.\<close>

theorem get_string_ignores_failure:
  assumes b: "buf_wf b" "unread b = ZTLV_STR # rest"
    and fail: "ztlv_get_len (Some (adv b 1)) = Inr (False, n, v)"
  shows "\<exists>s. ztlv_get_string (Some b) s0 = Inr (True, s, v) \<and> zs_len s = 0"
proof -
  have t: "ztlv_get_type (Some b) = Inr (ZTLV_STR, Some (adv b 1))" by (rule get_type_unread [OF b])
  have n: "n = 0" "v = Some (adv b 1)"
    using fail by (auto simp: ztlv_get_len_def rbind_eq_Inr split: if_splits dest: read_len_null)
  have "unat (zb_offset b) + 1 \<le> unat (zb_len b)" using unread_fits [OF b(1), of "[ZTLV_STR]" rest] b(2) by simp
  then have "\<not> zb_len b < zb_offset (adv b 1)"
    using unat_adv [OF b(1), of "[ZTLV_STR]" rest] b(2) by (simp add: word_less_nat_alt)
  then show ?thesis using t fail n by (simp add: ztlv_get_string_def zcrt_buf_getstr_def Let_def)
qed

theorem get_string_ignores_failure_witness:
  "\<exists>s. ztlv_get_string (Some (zbuf_zero\<lparr>zb_buf := Some [0x11, 128, 128, 128, 128, 128], zb_maxlen := 6, zb_len := 6\<rparr>))
     \<lparr>zs_len = 7, zs_ptr = null_ptr\<rparr> =
     Inr (True, s, Some (zbuf_zero\<lparr>zb_buf := Some [0x11, 128, 128, 128, 128, 128], zb_maxlen := 6, zb_len := 6, zb_offset := 1\<rparr>)) \<and>
   zs_len s = 0"
proof -
  let ?b = "zbuf_zero\<lparr>zb_buf := Some [0x11, 128, 128, 128, 128, 128], zb_maxlen := 6, zb_len := 6\<rparr>"
  have wf: "buf_wf ?b" by (simp add: buf_wf_def zbuf_zero_def)
  have u: "unread ?b = ZTLV_STR # [128, 128, 128, 128, 128]"
    by (simp add: unread_def contents_def zbuf_zero_def tlv_types)
  have "rd_limit (adv ?b 1) = 5" by (subst rd_limit_small) (simp_all add: adv_def zbuf_zero_def)
  then have "ztlv_get_len (Some (adv ?b 1)) = Inr (False, 0, Some (adv ?b 1))"
    by (simp add: ztlv_get_len_def zcrt_tlv_read_len_def next_char_def rd_ptr_def zcrt_mem adv_def zbuf_zero_def)
  from get_string_ignores_failure [OF wf u this, of "\<lparr>zs_len = 7, zs_ptr = null_ptr\<rparr>"]
  show ?thesis by (simp add: adv_def zbuf_zero_def)
qed

lemma table_cnt_unread:
  assumes b: "buf_wf b" "unat (zb_len b) < 2 ^ 31" "unread b = ZTLV_TABLE # varint_bytes (unat n) @ rest"
  shows "ztlv_get_table_cnt (Some b) c = Inr (True, n, Some (adv b (1 + length (varint_bytes (unat n)))))"
proof -
  have t: "ztlv_get_type (Some b) = Inr (ZTLV_TABLE, Some (adv b 1))" by (rule get_type_unread [OF b(1,3)])
  have "unread (adv b 1) = varint_bytes (unat n) @ rest"
    using unread_adv [OF b(1), of "[ZTLV_TABLE]"] b(3) by simp
  then have "ztlv_get_len (Some (adv b 1)) = Inr (True, n, Some (adv (adv b 1) (length (varint_bytes (unat n)))))"
    using b by (intro get_len_unread) simp_all
  with t show ?thesis by (simp add: ztlv_get_table_cnt_def)
qed

text \<open>The element count of a table is taken from the sender without a limit: a count of 0xfffff or
  more stops the receiver in the assertion of zarray_setlength.\<close>

theorem get_array_asserts:
  assumes "buf_wf b" "unat (zb_len b) < 2 ^ 31" "unread b = ZTLV_TABLE # varint_bytes (unat (n :: u32)) @ rest"
    and "0xfffff \<le> n"
  shows "ztlv_get_array ra (Some b) (Some a) (Some f) = Inl AssertFailed"
  using table_cnt_unread [OF assms(1-3)] assms(4)
  by (simp add: ztlv_get_array_def zarray_setlength_def Let_def not_less [symmetric])

theorem get_array_asserts_witness:
  "ztlv_get_array realloc_zero (Some (zbuf_zero\<lparr>zb_buf := Some [0x12, 255, 255, 63], zb_maxlen := 4, zb_len := 4\<rparr>))
     (Some (int_array [0, 0, 0, 0])) (Some (elem_get ztlv_get_int bytes_of)) = Inl AssertFailed"
proof -
  let ?b = "zbuf_zero\<lparr>zb_buf := Some [0x12, 255, 255, 63], zb_maxlen := 4, zb_len := 4\<rparr>"
  have wf: "buf_wf ?b" by (simp add: buf_wf_def zbuf_zero_def)
  have u: "unread ?b = ZTLV_TABLE # varint_bytes (unat (0xfffff :: u32)) @ []"
    by (simp add: unread_def contents_def zbuf_zero_def tlv_types varint_bytes.simps)
  show ?thesis by (rule get_array_asserts [OF wf _ u]) (simp_all add: zbuf_zero_def)
qed

lemma varint_hd_big: "128 \<le> n \<Longrightarrow> 128 \<le> hd (varint_bytes n)"
proof -
  assume n: "128 \<le> n"
  have "n mod 128 + 128 < 256" using mod_less_divisor [of 128 n] by linarith
  then have "unat (of_nat (n mod 128 + 128) :: u8) = n mod 128 + 128" by (rule unat_of_nat_u8)
  then show ?thesis using n by (simp add: varint_bytes_big word_le_nat_alt)
qed

text \<open>ztlv_get_ignore has already consumed the type byte when it calls a getter that reads a type byte
  of its own: over an integer whose varint has more than one byte it returns true but stands 2 bytes
  further, inside the integer.\<close>

theorem get_ignore_desync:
  assumes b: "buf_wf b" "unread b = enc_int n @ rest" and big: "128 \<le> unat (zcrt_ZigZagEncode32 n)"
  shows "ztlv_get_ignore (Some b) = Inr (True, Some (adv b 2)) \<and> 2 < length (enc_int n)"
proof -
  let ?m = "unat (zcrt_ZigZagEncode32 n)"
  let ?c = "hd (varint_bytes ?m)"
  have v: "varint_bytes ?m = ?c # varint_bytes (?m div 128)" using varint_bytes_big [OF big] by simp
  have c: "?c \<noteq> ZTLV_INT" "?c \<noteq> ZTLV_INT64" using varint_hd_big [OF big] by (auto simp: tlv_types)
  have u: "unread b = ZTLV_INT # ?c # varint_bytes (?m div 128) @ rest"
    using b(2) v by (simp add: enc_int_def)
  have t: "ztlv_get_type (Some b) = Inr (ZTLV_INT, Some (adv b 1))" by (rule get_type_unread [OF b(1) u])
  have "unread (adv b 1) = ?c # varint_bytes (?m div 128) @ rest"
    using unread_adv [OF b(1), of "[ZTLV_INT]"] u by simp
  then have "ztlv_get_type (Some (adv b 1)) = Inr (?c, Some (adv (adv b 1) 1))"
    using b(1) by (intro get_type_unread) simp_all
  then have "ztlv_get_ignore (Some b) = Inr (True, Some (adv b 2))"
    using t c by (simp add: ztlv_get_ignore_def ztlv_get_int_def tlv_types numeral_2_eq_2)
  moreover have "0 < length (varint_bytes (?m div 128))" by (subst varint_bytes.simps) simp
  moreover have "length (varint_bytes ?m) = Suc (length (varint_bytes (?m div 128)))"
    using arg_cong [OF v, of length] by simp
  ultimately show ?thesis by (simp add: enc_int_def)
qed

theorem get_ignore_desync_witness:
  "ztlv_get_ignore (Some (zbuf_zero\<lparr>zb_buf := Some [4, 200, 1], zb_maxlen := 3, zb_len := 3\<rparr>)) =
     Inr (True, Some (zbuf_zero\<lparr>zb_buf := Some [4, 200, 1], zb_maxlen := 3, zb_len := 3, zb_offset := 2\<rparr>))"
proof -
  let ?b = "zbuf_zero\<lparr>zb_buf := Some [4, 200, 1], zb_maxlen := 3, zb_len := 3\<rparr>"
  have wf: "buf_wf ?b" by (simp add: buf_wf_def zbuf_zero_def)
  have z: "zcrt_ZigZagEncode32 100 = 200" by (simp add: zcrt_ZigZagEncode32_def)
  have u: "unread ?b = enc_int 100 @ []"
    by (simp add: unread_def contents_def zbuf_zero_def enc_int_def z tlv_types varint_bytes.simps)
  have big: "128 \<le> unat (zcrt_ZigZagEncode32 100)" by (simp add: z)
  from get_ignore_desync [OF wf u big] show ?thesis by (simp add: adv_def zbuf_zero_def)
qed

end
