(* ===== verification/Zipc_Comp.thy ===== *)
theory Zipc_Comp
  imports Zcrt_Hash Zcrt_Str
begin

text \<open>
  Components of the IPC server: \<^verbatim>\<open>zipc_parse.c\<close> (naming, lookup, creation, registration of
  the calls of a component) and \<^verbatim>\<open>zipc_server.c\<close> (the server's table of components). A
  component is found by name in a hash table whose entries are component pointers; what the key and
  comparison functions read through such a pointer, the name, is part of the entry. Names do not change
  once a component is created.
\<close>

section \<open>State\<close>

record zcompref =
  ref_addr :: "addr option"
  ref_name :: "u8 list"

record zIPCComp =
  cp_name :: "u8 list"
  cp_module :: ptr
  cp_call :: "ptr option"
  cp_apilist :: "zcompref zhash option"
  cp_arg1 :: ptr
  cp_arg2 :: ptr
  cp_cbs :: ptr

record zIpcHeap =
  ix_comp :: "zIPCComp heap"
  ix_node :: "zcompref hheap"

record zIPCModule =
  im_sch :: "addr option"
  im_respondSch :: "addr option"
  im_evtSch :: "addr option"
  im_socket :: nat
  im_evt_encode :: "ptr option"
  im_port :: u16
  im_run :: bool
  im_modlist :: "zcompref zhash option"
  im_name :: "u8 list"
  im_freebuf :: "addr option"

section \<open>Key and comparison\<close>

text \<open>
  \<^verbatim>\<open>for (;*name; ++name, key+=*name);\<close>: the pointer moves on before its character is added.
  \<^verbatim>\<open>char\<close> is signed. The end of the array counts as a NUL.
\<close>

fun key_loop :: "u8 list \<Rightarrow> u32 \<Rightarrow> u32" where
  "key_loop [] key = key"
| "key_loop (c # name) key =
     (if c = 0 then key else key_loop name (key + (case name of [] \<Rightarrow> 0 | d # _ \<Rightarrow> scast d)))"

definition zipc_component_hash_key :: "zcompref \<Rightarrow> u32" where
  "zipc_component_hash_key data = key_loop (ref_name data) 0"

fun strcmp_c :: "u8 list \<Rightarrow> u8 list \<Rightarrow> s32" where
  "strcmp_c [] [] = 0"
| "strcmp_c [] (b # t) = 0 - ucast b"
| "strcmp_c (a # s) [] = ucast a"
| "strcmp_c (a # s) (b # t) =
     (if a \<noteq> b then ucast a - ucast b else if a = 0 then 0 else strcmp_c s t)"

definition zipc_component_hash_cmp :: "zcompref \<Rightarrow> zcompref \<Rightarrow> s32" where
  "zipc_component_hash_cmp data1 data2 = strcmp_c (ref_name data1) (ref_name data2)"

text \<open>The C string in a character array.\<close>

definition c_chars :: "u8 list \<Rightarrow> u8 list" where
  "c_chars name = takeWhile (\<lambda>c. c \<noteq> 0) name"

lemma c_chars_simps [simp]: "c_chars [] = []" "c_chars (c # cs) = (if c = 0 then [] else c # c_chars cs)"
  by (simp_all add: c_chars_def)

lemma key_loop_c: "key_loop name key = key_loop (c_chars name) key"
proof (induction name arbitrary: key)
  case (Cons c name)
  have "(case name of [] \<Rightarrow> 0 | d # _ \<Rightarrow> (scast d :: u32)) = (case c_chars name of [] \<Rightarrow> 0 | d # _ \<Rightarrow> scast d)"
    by (cases name) simp_all
  then show ?case using Cons by simp
qed simp

lemma ucast_eq_u8: "(ucast (a :: u8) :: u32) = ucast b \<longleftrightarrow> a = b"
proof
  assume "(ucast a :: u32) = ucast b"
  then have "(ucast (ucast a :: u32) :: u8) = ucast (ucast b :: u32)" by simp
  moreover have "(ucast (ucast x :: u32) :: u8) = x" for x :: u8 by (rule bit_word_eqI) (auto simp: bit_simps)
  ultimately show "a = b" by simp
qed simp

lemma strcmp_c_eq: "strcmp_c s t = 0 \<longleftrightarrow> c_chars s = c_chars t"
proof (induction s t rule: strcmp_c.induct)
  case (2 b t)
  then show ?case using ucast_eq_u8 [of b 0] by auto
next
  case (3 a s)
  then show ?case using ucast_eq_u8 [of a 0] by auto
next
  case (4 a s b t)
  then show ?case using ucast_eq_u8 [of a b] by auto
qed simp

interpretation comp_hash: hash_laws zipc_component_hash_key zipc_component_hash_cmp
proof unfold_locales
  fix x y z :: zcompref
  show "zipc_component_hash_cmp x y = 0 \<Longrightarrow> zipc_component_hash_cmp y x = 0"
    by (simp add: zipc_component_hash_cmp_def strcmp_c_eq)
  show "zipc_component_hash_cmp x y = 0 \<Longrightarrow> zipc_component_hash_cmp y z = 0 \<Longrightarrow> zipc_component_hash_cmp x z = 0"
    by (simp add: zipc_component_hash_cmp_def strcmp_c_eq)
  show "zipc_component_hash_cmp x y = 0 \<Longrightarrow> zipc_component_hash_key x = zipc_component_hash_key y"
    unfolding zipc_component_hash_cmp_def zipc_component_hash_key_def strcmp_c_eq
    using key_loop_c [of "ref_name x"] key_loop_c [of "ref_name y"] by simp
qed

section \<open>Names and lookup\<close>

text \<open>The name a component gets: zeroed, then at most 63 bytes copied from \<^verbatim>\<open>name\<close>.\<close>

definition zipc_component_setlname :: "bptr \<Rightarrow> u32 \<Rightarrow> u8 list res" where
  "zipc_component_setlname name len =
     (let n = (if unat len \<ge> ZCRT_NAME_LEN then ZCRT_NAME_LEN - 1 else unat len) in
      rbind (load_n name n) (\<lambda>bs. Inr (bs @ replicate (ZCRT_NAME_LEN - n) 0)))"

definition zipc_parase_lookup_comp ::
  "zcompref hheap \<Rightarrow> zcompref zhash option \<Rightarrow> bptr \<Rightarrow> u32 \<Rightarrow> addr option res" where
  "zipc_parase_lookup_comp hp complist compname complen =
     (if complist = None \<or> compname = null_ptr then Inr None
      else rbind (zipc_component_setlname compname complen) (\<lambda>nm.
        rbind (zcrt_hash_lookup hp complist (Some \<lparr>ref_addr = None, ref_name = nm\<rparr>)) (\<lambda>r.
          Inr (case r of None \<Rightarrow> None | Some c \<Rightarrow> ref_addr c))))"

section \<open>Creating, registering, deleting\<close>

text \<open>\<^verbatim>\<open>new\<close>, \<^verbatim>\<open>mok\<close> and \<^verbatim>\<open>iok\<close> are what \<^verbatim>\<open>malloc\<close>
  gives for the component, the table and its index.\<close>

definition zipc_component_new ::
  "addr option \<Rightarrow> bool \<Rightarrow> bool \<Rightarrow> ptr \<Rightarrow> bptr \<Rightarrow> ptr option \<Rightarrow> ptr \<Rightarrow> ptr \<Rightarrow> ptr \<Rightarrow> zIpcHeap \<Rightarrow>
     (addr option \<times> zIpcHeap) res" where
  "zipc_component_new new mok iok module name call cbs arg1 arg2 st = rbind (deref new) (\<lambda>a.
     rbind (strlen_c name) (\<lambda>len.
     let n = (if len \<ge> ZCRT_NAME_LEN then ZCRT_NAME_LEN - 1 else len) in
     rbind (load_n name n) (\<lambda>bs.
     rbind (zcrt_hash_new mok iok 32 (Some zipc_component_hash_key) (Some zipc_component_hash_cmp)) (\<lambda>api.
       Inr (Some a, st\<lparr>ix_comp := (ix_comp st)(a \<mapsto>
         \<lparr>cp_name = bs @ replicate (ZCRT_NAME_LEN - n) 0, cp_module = module, cp_call = call, cp_apilist = api,
          cp_arg1 = arg1, cp_arg2 = arg2, cp_cbs = cbs\<rparr>)\<rparr>)))))"

definition zipc_component_register ::
  "addr option \<Rightarrow> addr option \<Rightarrow> addr option \<Rightarrow> zIpcHeap \<Rightarrow> (EZCRTErr \<times> zIpcHeap) res" where
  "zipc_component_register new cptr sub st = (case (cptr, sub) of
     (Some c, Some s) \<Rightarrow>
       rbind (deref (ix_comp st c)) (\<lambda>cn.
       rbind (deref (ix_comp st s)) (\<lambda>sn.
       rbind (strlen_c (Some (cp_name sn), 0)) (\<lambda>len.
       rbind (zipc_parase_lookup_comp (ix_node st) (cp_apilist cn) (Some (cp_name sn), 0) (of_nat len)) (\<lambda>r.
         if r \<noteq> None then Inr (EZCRTErr_existed, st)
         else rbind (zcrt_hash_add new (ix_node st) (cp_apilist cn)
                       (Some \<lparr>ref_addr = Some s, ref_name = cp_name sn\<rparr>)) (\<lambda>(_, hp, api).
           Inr (EZCRTErr_success,
                st\<lparr>ix_node := hp, ix_comp := (ix_comp st)(c \<mapsto> cn\<lparr>cp_apilist := api\<rparr>)\<rparr>))))))
   | _ \<Rightarrow> Inr (EZCRTErr_paramErr, st))"

text \<open>
  Deleting a component deletes the components registered in it, each with its own table. The
  recursion is as deep as the components are nested and is bounded by the fuel; \<^verbatim>\<open>None\<close> is
  fuel used up.
\<close>

definition obind :: "'a res option \<Rightarrow> ('a \<Rightarrow> 'b res option) \<Rightarrow> 'b res option" where
  "obind m f = (case m of None \<Rightarrow> None | Some (Inl e) \<Rightarrow> Some (Inl e) | Some (Inr x) \<Rightarrow> f x)"

lemma obind_cong [fundef_cong]:
  "m = m' \<Longrightarrow> (\<And>x. m' = Some (Inr x) \<Longrightarrow> f x = f' x) \<Longrightarrow> obind m f = obind m' f'"
  by (auto simp: obind_def split: option.splits sum.splits)

function zipc_component_delete :: "nat \<Rightarrow> addr option \<Rightarrow> zIpcHeap \<Rightarrow> zIpcHeap res option"
  and del_chain :: "nat \<Rightarrow> addr option \<Rightarrow> zIpcHeap \<Rightarrow> zIpcHeap res option"
  and del_buckets :: "nat \<Rightarrow> addr option list \<Rightarrow> zIpcHeap \<Rightarrow> zIpcHeap res option" where
  "zipc_component_delete 0 cptr st = None"
| "zipc_component_delete (Suc n) cptr st = (case cptr of
     None \<Rightarrow> Some (Inr st)
   | Some a \<Rightarrow> (case ix_comp st a of
       None \<Rightarrow> Some (Inl NullDeref)
     | Some c \<Rightarrow>
         obind (case cp_apilist c of None \<Rightarrow> Some (Inr st) | Some t \<Rightarrow> del_buckets n (ht_index t) st) (\<lambda>st1.
         (case ix_comp st1 a of
            None \<Rightarrow> Some (Inl NullDeref)
          | Some c1 \<Rightarrow> Some (rbind (zcrt_hash_delete (ix_node st1) (cp_apilist c1)) (\<lambda>hp.
              Inr (st1\<lparr>ix_node := hp, ix_comp := (ix_comp st1)(a := None)\<rparr>)))))))"
| "del_chain 0 node st = None"
| "del_chain (Suc n) node st = (case node of
     None \<Rightarrow> Some (Inr st)
   | Some x \<Rightarrow> (case ix_node st x of
       None \<Rightarrow> Some (Inl NullDeref)
     | Some nd \<Rightarrow> obind (zipc_component_delete n (ref_addr (hn_data nd)) st) (\<lambda>st1. (case ix_node st1 x of
           None \<Rightarrow> Some (Inl NullDeref)
         | Some nd1 \<Rightarrow> del_chain n (hn_next nd1) st1))))"
| "del_buckets n [] st = Some (Inr st)"
| "del_buckets n (p # ps) st = obind (del_chain n p st) (\<lambda>st1. del_buckets n ps st1)"
  by pat_completeness auto
termination
  by (relation "measures [\<lambda>x. case x of Inl (n, _, _) \<Rightarrow> n | Inr (Inl (n, _, _)) \<Rightarrow> n | Inr (Inr (n, _, _)) \<Rightarrow> n,
      \<lambda>x. case x of Inl _ \<Rightarrow> 0 | Inr (Inl _) \<Rightarrow> 0 | Inr (Inr (_, ps, _)) \<Rightarrow> Suc (length ps)]") auto

section \<open>The server's table\<close>

definition zipc_server_register ::
  "addr option \<Rightarrow> zIPCModule option \<Rightarrow> addr option \<Rightarrow> zIpcHeap \<Rightarrow> (EZCRTErr \<times> zIPCModule option \<times> zIpcHeap) res" where
  "zipc_server_register new module cptr st = (case (module, cptr) of
     (Some ipc, Some s) \<Rightarrow>
       rbind (deref (ix_comp st s)) (\<lambda>sn.
       rbind (strlen_c (Some (cp_name sn), 0)) (\<lambda>len.
       rbind (zipc_parase_lookup_comp (ix_node st) (im_modlist ipc) (Some (cp_name sn), 0) (of_nat len)) (\<lambda>r.
         if r \<noteq> None then Inr (EZCRTErr_existed, Some ipc, st)
         else rbind (zcrt_hash_add new (ix_node st) (im_modlist ipc)
                       (Some \<lparr>ref_addr = Some s, ref_name = cp_name sn\<rparr>)) (\<lambda>(_, hp, ml).
           Inr (EZCRTErr_success, Some (ipc\<lparr>im_modlist := ml\<rparr>), st\<lparr>ix_node := hp\<rparr>)))))
   | _ \<Rightarrow> Inr (EZCRTErr_paramErr, module, st))"

definition zipc_server_unregister ::
  "zIPCModule option \<Rightarrow> addr option \<Rightarrow> zIpcHeap \<Rightarrow> (zIPCModule option \<times> zIpcHeap) res" where
  "zipc_server_unregister module cptr st = (case (module, cptr) of
     (Some ipc, Some s) \<Rightarrow>
       rbind (deref (ix_comp st s)) (\<lambda>sn.
       rbind (zcrt_hash_remove (ix_node st) (im_modlist ipc) (Some \<lparr>ref_addr = Some s, ref_name = cp_name sn\<rparr>)) (\<lambda>(hp, ml).
         Inr (Some (ipc\<lparr>im_modlist := ml\<rparr>), st\<lparr>ix_node := hp\<rparr>)))
   | _ \<Rightarrow> Inr (module, st))"

definition zipc_server_set_event_encode :: "zIPCModule option \<Rightarrow> ptr option \<Rightarrow> zIPCModule option" where
  "zipc_server_set_event_encode module fn = map_option (\<lambda>ipc. ipc\<lparr>im_evt_encode := fn\<rparr>) module"

definition zipc_server_get_event_encode :: "zIPCModule option \<Rightarrow> ptr option" where
  "zipc_server_get_event_encode module = (case module of None \<Rightarrow> None | Some ipc \<Rightarrow> im_evt_encode ipc)"

section \<open>Names\<close>

definition is_name :: "u8 list \<Rightarrow> bool" where
  "is_name bs \<longleftrightarrow> 0 \<notin> set bs \<and> length bs < ZCRT_NAME_LEN"

definition name_of :: "u8 list \<Rightarrow> u8 list" where
  "name_of bs = bs @ replicate (ZCRT_NAME_LEN - length bs) 0"

lemma c_chars_name: "0 \<notin> set bs \<Longrightarrow> c_chars (bs @ replicate n 0) = bs"
  by (induction bs) (cases n, auto)

lemma name_facts:
  assumes "is_name bs"
  shows "c_chars (name_of bs) = bs" "strlen_c (Some (name_of bs), 0) = Inr (length bs)"
    "load_n (Some (name_of bs), 0) (length bs) = Inr bs" "unat (of_nat (length bs) :: u32) = length bs"
    "0 \<in> set (name_of bs)" "length (name_of bs) = ZCRT_NAME_LEN"
proof -
  have l: "length bs < 64" "0 \<notin> set bs" using assms by (simp_all add: is_name_def ZCRT_NAME_LEN_def)
  show c: "c_chars (name_of bs) = bs" unfolding name_of_def by (rule c_chars_name [OF l(2)])
  show z: "0 \<in> set (name_of bs)" using l by (simp add: name_of_def ZCRT_NAME_LEN_def)
  show "strlen_c (Some (name_of bs), 0) = Inr (length bs)"
    using z c by (simp add: strlen_c_def c_chars_def)
  show "load_n (Some (name_of bs), 0) (length bs) = Inr bs" by (simp add: load_n_def name_of_def)
  show "unat (of_nat (length bs) :: u32) = length bs" using l by (simp add: unat_of_nat)
  show "length (name_of bs) = ZCRT_NAME_LEN" using l by (simp add: name_of_def ZCRT_NAME_LEN_def)
qed

lemma setlname_name:
  assumes "is_name bs" "load_n p (length bs) = Inr bs"
  shows "zipc_component_setlname p (of_nat (length bs)) = Inr (name_of bs)"
  using assms name_facts(4) [OF assms(1)] by (simp add: zipc_component_setlname_def is_name_def name_of_def Let_def)

definition comp_table :: "zcompref zhash \<Rightarrow> bool" where
  "comp_table t \<longleftrightarrow> ht_key t = zipc_component_hash_key \<and> ht_cmp t = zipc_component_hash_cmp"

text \<open>A lookup by name, in the terms of the table.\<close>

definition by_name :: "zcompref hheap \<Rightarrow> zcompref zhash \<Rightarrow> u8 list \<Rightarrow> addr option res" where
  "by_name hp t q = zipc_parase_lookup_comp hp (Some t) (cstr q) (of_nat (length q))"

lemma lookup_name:
  assumes q: "is_name q" and p: "load_n p (length q) = Inr q" "p \<noteq> null_ptr"
  shows "zipc_parase_lookup_comp hp (Some t) p (of_nat (length q)) =
    rbind (zcrt_hash_lookup hp (Some t) (Some \<lparr>ref_addr = None, ref_name = name_of q\<rparr>)) (\<lambda>r.
      Inr (case r of None \<Rightarrow> None | Some c \<Rightarrow> ref_addr c))"
  using p(2) by (simp add: zipc_parase_lookup_comp_def setlname_name [OF q p(1)])

lemma by_name_lookup:
  assumes "is_name q"
  shows "by_name hp t q =
    rbind (zcrt_hash_lookup hp (Some t) (Some \<lparr>ref_addr = None, ref_name = name_of q\<rparr>)) (\<lambda>r.
      Inr (case r of None \<Rightarrow> None | Some c \<Rightarrow> ref_addr c))"
  unfolding by_name_def by (rule lookup_name [OF assms load_cstr]) (simp add: cstr_def)

lemma lookup_own:
  assumes "is_name q"
  shows "zipc_parase_lookup_comp hp (Some t) (Some (name_of q), 0) (of_nat (length q)) = by_name hp t q"
  unfolding by_name_lookup [OF assms] by (rule lookup_name [OF assms name_facts(3) [OF assms]]) simp

lemma cmp_names: "is_name p \<Longrightarrow> is_name q \<Longrightarrow>
    zipc_component_hash_cmp \<lparr>ref_addr = x, ref_name = name_of p\<rparr> \<lparr>ref_addr = y, ref_name = name_of q\<rparr> = 0 \<longleftrightarrow> p = q"
  by (simp add: zipc_component_hash_cmp_def strcmp_c_eq name_facts(1))

text \<open>Registering a call in a component whose table holds no entry of that name succeeds, and afterwards a lookup
  finds it under its name and finds every other name as before.\<close>

theorem component_register_spec:
  assumes t: "hash_wf (ix_node st) t ass" "comp_table t" and c: "ix_comp st c = Some cn" "cp_apilist cn = Some t"
    and s: "ix_comp st s = Some sn" "cp_name sn = name_of nm" "is_name nm"
    and no: "zcrt_hash_lookup (ix_node st) (Some t) (Some \<lparr>ref_addr = None, ref_name = name_of nm\<rparr>) = Inr None"
    and new: "ix_node st new = None"
  shows "\<exists>st' t' ass'. zipc_component_register (Some new) (Some c) (Some s) st = Inr (EZCRTErr_success, st') \<and>
    ix_comp st' = (ix_comp st)(c \<mapsto> cn\<lparr>cp_apilist := Some t'\<rparr>) \<and> hash_wf (ix_node st') t' ass' \<and> comp_table t' \<and>
    (\<forall>q. is_name q \<longrightarrow> by_name (ix_node st') t' q = (if q = nm then Inr (Some s) else by_name (ix_node st) t q))"
proof -
  let ?r = "\<lparr>ref_addr = Some s, ref_name = name_of nm\<rparr>"
  have f: "ht_key t = zipc_component_hash_key" "ht_cmp t = zipc_component_hash_cmp" using t(2) by (simp_all add: comp_table_def)
  obtain hp' t' ass' where a: "zcrt_hash_add (Some new) (ix_node st) (Some t) (Some ?r) = Inr (Some new, hp', Some t')"
    "hash_wf hp' t' ass'" "ht_key t' = zipc_component_hash_key" "ht_cmp t' = zipc_component_hash_cmp"
    "\<forall>d. zcrt_hash_lookup hp' (Some t') (Some d) =
      (if zipc_component_hash_cmp ?r d = 0 then Inr (Some ?r) else zcrt_hash_lookup (ix_node st) (Some t) (Some d))"
    using comp_hash.lookup_add [OF t(1) f new] by metis
  let ?st = "st\<lparr>ix_node := hp', ix_comp := (ix_comp st)(c \<mapsto> cn\<lparr>cp_apilist := Some t'\<rparr>)\<rparr>"
  have lk: "by_name (ix_node st) t nm = Inr None" using no by (simp add: by_name_lookup [OF s(3)])
  have "zipc_component_register (Some new) (Some c) (Some s) st = Inr (EZCRTErr_success, ?st)"
    using c s a(1) lk by (simp add: zipc_component_register_def name_facts(2) [OF s(3)] lookup_own [OF s(3)])
  moreover have "by_name hp' t' q = (if q = nm then Inr (Some s) else by_name (ix_node st) t q)" if q: "is_name q" for q
    unfolding by_name_lookup [OF q] a(5) [rule_format] cmp_names [OF s(3) q] by simp
  ultimately show ?thesis using a(2-4) by (intro exI [of _ ?st] exI [of _ t'] exI [of _ ass']) (simp add: comp_table_def)
qed

text \<open>A table as \<^verbatim>\<open>zcrt_hash_new(32, ...)\<close> makes it, and two components.\<close>

definition empty_table :: "zcompref zhash" where
  "empty_table = \<lparr>ht_size = 32, ht_count = 0, ht_index = replicate 32 None,
     ht_key = zipc_component_hash_key, ht_cmp = zipc_component_hash_cmp\<rparr>"

definition comp_example :: "u8 list \<Rightarrow> zIPCComp" where
  "comp_example nm = \<lparr>cp_name = name_of nm, cp_module = 0, cp_call = Some 7, cp_apilist = Some empty_table,
     cp_arg1 = 0, cp_arg2 = 0, cp_cbs = 0\<rparr>"

definition ipcheap_example :: zIpcHeap where
  "ipcheap_example = \<lparr>ix_comp = [100 \<mapsto> comp_example [115, 121, 115], 200 \<mapsto> comp_example [103, 101, 116]], ix_node = Map.empty\<rparr>"

lemma empty_table_wf: "hash_wf hp empty_table (replicate 32 [])" "comp_table empty_table"
  by (simp_all add: hash_wf_def empty_table_def comp_table_def)

lemma empty_table_lookup: "zcrt_hash_lookup hp (Some empty_table) (Some d) = Inr None"
  using slot_less [OF hash_wfD(1) [OF empty_table_wf(1)], of d]
  by (simp add: lookup_bucket [OF empty_table_wf(1)] bucket_def) (simp add: empty_table_def)

lemma new_table: "zcrt_hash_new True True 32 (Some zipc_component_hash_key) (Some zipc_component_hash_cmp) = Inr (Some empty_table)"
  by (simp add: zcrt_hash_new_def empty_table_def)

theorem component_register_spec_witness:
  "\<exists>st' t'. zipc_component_register (Some 5) (Some 100) (Some 200) ipcheap_example = Inr (EZCRTErr_success, st') \<and>
    ix_comp st' 100 = Some (comp_example [115, 121, 115]\<lparr>cp_apilist := Some t'\<rparr>) \<and>
    by_name (ix_node st') t' [103, 101, 116] = Inr (Some 200) \<and> by_name (ix_node st') t' [115] = Inr None"
proof -
  have n: "is_name [103, 101, 116]" "is_name [115]" by (simp_all add: is_name_def ZCRT_NAME_LEN_def)
  have "by_name Map.empty empty_table [115] = Inr None" by (simp add: by_name_lookup [OF n(2)] empty_table_lookup)
  then show ?thesis
    using component_register_spec [where st = ipcheap_example and c = 100 and s = 200 and new = 5 and nm = "[103, 101, 116]",
        OF empty_table_wf(1) empty_table_wf(2) _ _ _ _ n(1) empty_table_lookup] n
    by (fastforce simp: ipcheap_example_def comp_example_def)
qed

text \<open>Taking a component out of the server's table right after it was put in gives back exactly the table, the
  node heap and the module of before.\<close>

theorem server_register_unregister:
  assumes t: "im_modlist ipc = Some t" "hash_wf (ix_node st) t ass" "comp_table t"
    and s: "ix_comp st s = Some sn" "cp_name sn = name_of nm" "is_name nm"
    and no: "zcrt_hash_lookup (ix_node st) (Some t) (Some \<lparr>ref_addr = None, ref_name = name_of nm\<rparr>) = Inr None"
    and new: "ix_node st new = None"
  shows "rbind (zipc_server_register (Some new) (Some ipc) (Some s) st) (\<lambda>(_, module, st1).
    zipc_server_unregister module (Some s) st1) = Inr (Some ipc, st)"
proof -
  let ?r = "\<lparr>ref_addr = Some s, ref_name = name_of nm\<rparr>"
  let ?t = "t\<lparr>ht_index := (ht_index t)[slot t ?r := Some new], ht_count := ht_count t + 1\<rparr>"
  let ?hp = "(ix_node st)(new \<mapsto> \<lparr>hn_data = ?r, hn_next = ht_index t ! slot t ?r\<rparr>)"
  note w = hash_wfD [OF t(2)]
  have k: "slot t ?r < unat (ht_size t)" by (rule slot_less [OF w(1)])
  have lk: "by_name (ix_node st) t nm = Inr None" using no by (simp add: by_name_lookup [OF s(3)])
  have "zcrt_hash_add (Some new) (ix_node st) (Some t) (Some ?r) = Inr (Some new, ?hp, Some ?t)"
    using w(1,2) k by (simp add: zcrt_hash_add_def ZCRT_HASH_KEY_def index_at_def slot_def)
  then have reg: "zipc_server_register (Some new) (Some ipc) (Some s) st =
      Inr (EZCRTErr_success, Some (ipc\<lparr>im_modlist := Some ?t\<rparr>), st\<lparr>ix_node := ?hp\<rparr>)"
    using t(1) s lk by (simp add: zipc_server_register_def name_facts(2) [OF s(3)] lookup_own [OF s(3)])
  have undo: "?t\<lparr>ht_index := (ht_index ?t)[slot t ?r := ht_index t ! slot t ?r], ht_count := ht_count ?t - 1\<rparr> = t"
    using k w(2) by simp
  have c0: "zipc_component_hash_cmp ?r ?r = 0" by (simp add: zipc_component_hash_cmp_def strcmp_c_eq)
  have "zcrt_hash_remove ?hp (Some ?t) (Some ?r) = Inr (ix_node st, Some t)"
    using w(1,2) k t(3) new c0
    by (simp add: undo zcrt_hash_remove_def zcrt_hash_getnode_def ZCRT_HASH_KEY_def index_at_def slot_def comp_table_def fun_upd_idem)
  then show ?thesis using s(1,2) t(1) by (simp add: reg zipc_server_unregister_def)
qed

theorem server_register_unregister_witness:
  "\<exists>ipc. im_modlist ipc = Some empty_table \<and>
    rbind (zipc_server_register (Some 5) (Some ipc) (Some 200) ipcheap_example) (\<lambda>(_, module, st1).
      zipc_server_unregister module (Some 200) st1) = Inr (Some ipc, ipcheap_example)"
proof -
  have n: "is_name [103, 101, 116]" by (simp add: is_name_def ZCRT_NAME_LEN_def)
  define ipc where "ipc = \<lparr>im_sch = None, im_respondSch = None, im_evtSch = None, im_socket = 0, im_evt_encode = None, im_port = 0,
    im_run = True, im_modlist = Some empty_table, im_name = [], im_freebuf = None\<rparr>"
  have "im_modlist ipc = Some empty_table" by (simp add: ipc_def)
  then show ?thesis
    using server_register_unregister [where ipc = ipc and st = ipcheap_example and s = 200 and new = 5 and nm = "[103, 101, 116]",
        OF _ empty_table_wf(1) empty_table_wf(2) _ _ n empty_table_lookup]
    by (intro exI [of _ ipc]) (simp add: ipcheap_example_def comp_example_def)
qed

text \<open>The key of a name leaves out its first character: names that differ in it alone always fall into the same
  bucket, and a table of one-character names is one list.\<close>

theorem component_key_skips_first:
  "ref_name d1 = a # nm \<Longrightarrow> ref_name d2 = b # nm \<Longrightarrow> a \<noteq> 0 \<Longrightarrow> b \<noteq> 0 \<Longrightarrow>
    zipc_component_hash_key d1 = zipc_component_hash_key d2"
  by (simp add: zipc_component_hash_key_def)

theorem component_key_skips_first_witness:
  "zipc_component_hash_key \<lparr>ref_addr = None, ref_name = [97, 98, 0]\<rparr> = zipc_component_hash_key \<lparr>ref_addr = None, ref_name = [122, 98, 0]\<rparr>"
  by (rule component_key_skips_first [where a = 97 and b = 122 and nm = "[98, 0]"]) simp_all

section \<open>Deleting a tree of components\<close>

text \<open>
  Components registered in one another are a tree: a component, the nodes of its table bucket by bucket, and the
  components those nodes point to.
\<close>

datatype ctree = CTree (ct_root: addr) "addr list" "ctree list"

primrec ct_comps :: "ctree \<Rightarrow> addr list" where
  "ct_comps (CTree a xs chs) = a # concat (map ct_comps chs)"

primrec ct_nodes :: "ctree \<Rightarrow> addr list" where
  "ct_nodes (CTree a xs chs) = xs @ concat (map ct_nodes chs)"

text \<open>The components a list of nodes points to.\<close>

definition kids :: "zIpcHeap \<Rightarrow> addr list \<Rightarrow> addr option list" where
  "kids st xs = map (\<lambda>x. ref_addr (hn_data (the (ix_node st x)))) xs"

lemma kids_simps [simp]:
  "kids st [] = []" "kids st (x # xs) = ref_addr (hn_data (the (ix_node st x))) # kids st xs"
  "kids st (xs @ ys) = kids st xs @ kids st ys" "length (kids st xs) = length xs"
  by (simp_all add: kids_def)

lemma kids_frame: "(\<And>x. x \<in> set xs \<Longrightarrow> ix_node st' x = ix_node st x) \<Longrightarrow> kids st' xs = kids st xs"
  by (simp add: kids_def)

text \<open>The calls nest once per component, per table and per node in front.\<close>

primrec ct_fuel :: "ctree \<Rightarrow> nat" where
  "ct_fuel (CTree a xs chs) = 2 + length xs + sum_list (map ct_fuel chs)"

primrec ct_holds :: "ctree \<Rightarrow> zIpcHeap \<Rightarrow> bool" where
  "ct_holds (CTree a xs chs) st \<longleftrightarrow> (\<exists>c t ass. ix_comp st a = Some c \<and> cp_apilist c = Some t \<and>
       chains hn_next (ix_node st) (ht_index t) ass \<and> concat ass = xs) \<and>
     kids st xs = map (\<lambda>ch. Some (ct_root ch)) chs \<and>
     list_all (\<lambda>h. h st) (map ct_holds chs)"

definition without :: "addr list \<Rightarrow> addr list \<Rightarrow> zIpcHeap \<Rightarrow> zIpcHeap" where
  "without cs ns st = st\<lparr>ix_comp := (\<lambda>a. if a \<in> set cs then None else ix_comp st a),
     ix_node := (\<lambda>a. if a \<in> set ns then None else ix_node st a)\<rparr>"

lemma without_sel [simp]:
  "ix_comp (without cs ns st) a = (if a \<in> set cs then None else ix_comp st a)"
  "ix_node (without cs ns st) x = (if x \<in> set ns then None else ix_node st x)"
  by (simp_all add: without_def)

lemma without_empty [simp]: "without [] [] st = st"
  by (simp add: without_def)

lemma without_without: "without cs ns (without cs' ns' st) = without (cs' @ cs) (ns' @ ns) st"
  by (auto simp: without_def fun_eq_iff)

lemma ct_holds_frame:
  assumes "ct_holds t st" "\<And>a. a \<in> set (ct_comps t) \<Longrightarrow> ix_comp st' a = ix_comp st a"
    "\<And>x. x \<in> set (ct_nodes t) \<Longrightarrow> ix_node st' x = ix_node st x"
  shows "ct_holds t st'"
  using assms
proof (induction t)
  case (CTree a xs chs)
  have 1: "list_all (\<lambda>h. h st') (map ct_holds chs)"
    using CTree.IH CTree.prems by (fastforce simp: list_all_iff)
  have 2: "kids st' xs = map (\<lambda>ch. Some (ct_root ch)) chs"
    using kids_frame [of xs st' st] CTree.prems(1,3) by simp
  obtain c t ass where c: "ix_comp st a = Some c" "cp_apilist c = Some t" "chains hn_next (ix_node st) (ht_index t) ass" "concat ass = xs"
    using CTree.prems(1) by auto
  have "chains hn_next (ix_node st') (ht_index t) ass"
    by (rule chains_frame [OF c(3)]) (use c(4) CTree.prems(3) in simp)
  then show ?case using 1 2 c CTree.prems(2) by auto
qed

lemma ct_holds_without:
  "ct_holds t st \<Longrightarrow> set cs \<inter> set (ct_comps t) = {} \<Longrightarrow> set ns \<inter> set (ct_nodes t) = {} \<Longrightarrow> ct_holds t (without cs ns st)"
  by (rule ct_holds_frame) auto

text \<open>What deleting one tree does, as the induction hypothesis of a list of trees.\<close>

definition ct_deletes :: "ctree \<Rightarrow> bool" where
  "ct_deletes t \<longleftrightarrow> (\<forall>st n. ct_holds t st \<longrightarrow> distinct (ct_comps t) \<longrightarrow> distinct (ct_nodes t) \<longrightarrow> ct_fuel t \<le> n \<longrightarrow>
     zipc_component_delete n (Some (ct_root t)) st = Some (Inr (without (ct_comps t) (ct_nodes t) st)))"

lemma del_chain_trees:
  assumes "chain hn_next (ix_node st) p xs None" "kids st xs = map (\<lambda>ch. Some (ct_root ch)) chs"
    and "\<forall>ch \<in> set chs. ct_holds ch st \<and> ct_deletes ch" "distinct (concat (map ct_comps chs))"
    and "distinct (xs @ concat (map ct_nodes chs))" "1 + length xs + sum_list (map ct_fuel chs) \<le> n"
  shows "del_chain n p st = Some (Inr (without (concat (map ct_comps chs)) (concat (map ct_nodes chs)) st))"
  using assms
proof (induction chs arbitrary: xs p st n)
  case Nil
  then obtain m where "n = Suc m" by (cases n) auto
  moreover have "xs = []" using Nil.prems(2) by (cases xs) simp_all
  ultimately show ?case using Nil.prems(1) by simp
next
  case (Cons ch chs)
  obtain x xs' where x: "xs = x # xs'" using Cons.prems(2) by (cases xs) auto
  obtain nd where nd: "p = Some x" "ix_node st x = Some nd" "chain hn_next (ix_node st) (hn_next nd) xs' None"
    using Cons.prems(1) x by auto
  obtain m where m: "n = Suc m" using Cons.prems(6) by (cases n) auto
  have r: "ref_addr (hn_data nd) = Some (ct_root ch)" using Cons.prems(2) x nd(2) by simp
  let ?st1 = "without (ct_comps ch) (ct_nodes ch) st"
  have d: "zipc_component_delete m (Some (ct_root ch)) st = Some (Inr ?st1)"
    using Cons.prems(3-6) m unfolding ct_deletes_def by simp
  have x1: "ix_node ?st1 x = Some nd" using Cons.prems(5) x nd(2) by auto
  have c1: "chain hn_next (ix_node ?st1) (hn_next nd) xs' None"
    using nd(3) Cons.prems(5) x by (subst chain_frame) auto
  have "y \<notin> set (ct_nodes ch)" if "y \<in> set xs'" for y using Cons.prems(5) x that by auto
  then have r1: "kids ?st1 xs' = map (\<lambda>ch. Some (ct_root ch)) chs"
    using kids_frame [of xs' ?st1 st] Cons.prems(2) x by simp
  have h1: "\<forall>c \<in> set chs. ct_holds c ?st1 \<and> ct_deletes c"
  proof
    fix c assume c: "c \<in> set chs"
    have "set (ct_comps ch) \<inter> set (ct_comps c) = {}" "set (ct_nodes ch) \<inter> set (ct_nodes c) = {}"
      using Cons.prems(4,5) c by (auto simp: disjoint_iff)
    then show "ct_holds c ?st1 \<and> ct_deletes c" using Cons.prems(3) c by (simp add: ct_holds_without)
  qed
  have "del_chain m (hn_next nd) ?st1 = Some (Inr (without (concat (map ct_comps chs)) (concat (map ct_nodes chs)) ?st1))"
    by (rule Cons.IH [OF c1 r1 h1]) (use Cons.prems(4-6) x m in auto)
  then show ?case using m nd(1,2) r d x1 by (simp add: obind_def without_without)
qed

lemma del_buckets_trees:
  assumes "chains hn_next (ix_node st) ps ass"
    and "kids st (concat ass) = map (\<lambda>ch. Some (ct_root ch)) chs"
    and "\<forall>ch \<in> set chs. ct_holds ch st \<and> ct_deletes ch" "distinct (concat (map ct_comps chs))"
    and "distinct (concat ass @ concat (map ct_nodes chs))" "1 + length (concat ass) + sum_list (map ct_fuel chs) \<le> n"
  shows "del_buckets n ps st = Some (Inr (without (concat (map ct_comps chs)) (concat (map ct_nodes chs)) st))"
  using assms
proof (induction ps arbitrary: ass chs st)
  case Nil
  then show ?case by (simp add: chains_def)
next
  case (Cons p ps)
  obtain as ass' where a: "ass = as # ass'" "chain hn_next (ix_node st) p as None" "chains hn_next (ix_node st) ps ass'"
    using Cons.prems(1) by (cases ass) (auto simp: chains_def)
  have len: "length as \<le> length chs" using arg_cong [OF Cons.prems(2), of length] a(1) by simp
  let ?c1 = "take (length as) chs" and ?c2 = "drop (length as) chs"
  have c: "map ct_comps chs = map ct_comps ?c1 @ map ct_comps ?c2" "map ct_nodes chs = map ct_nodes ?c1 @ map ct_nodes ?c2"
    "map ct_fuel chs = map ct_fuel ?c1 @ map ct_fuel ?c2" "set chs = set ?c1 \<union> set ?c2"
    by (simp_all flip: map_append set_append)
  let ?st1 = "without (concat (map ct_comps ?c1)) (concat (map ct_nodes ?c1)) st"
  have "kids st as @ kids st (concat ass') = map (\<lambda>ch. Some (ct_root ch)) ?c1 @ map (\<lambda>ch. Some (ct_root ch)) ?c2"
    using Cons.prems(2) a(1) by (simp flip: map_append)
  then have r: "kids st as = map (\<lambda>ch. Some (ct_root ch)) ?c1" "kids st (concat ass') = map (\<lambda>ch. Some (ct_root ch)) ?c2"
    using len by simp_all
  have d1: "del_chain n p st = Some (Inr ?st1)"
    by (rule del_chain_trees [OF a(2) r(1)]) (use Cons.prems(3-6) a(1) in \<open>auto simp: c\<close>)
  have sep: "x \<notin> set (concat (map ct_nodes ?c1))" if "x \<in> set (concat ass')" for x
    using Cons.prems(5) that by (auto simp: a(1) c)
  have l1: "chains hn_next (ix_node ?st1) ps ass'" by (rule chains_frame [OF a(3)]) (use sep in simp)
  have r1: "kids ?st1 (concat ass') = map (\<lambda>ch. Some (ct_root ch)) ?c2"
    using kids_frame [of "concat ass'" ?st1 st] sep r(2) by simp
  have h1: "\<forall>t \<in> set ?c2. ct_holds t ?st1 \<and> ct_deletes t"
  proof
    fix t assume t: "t \<in> set ?c2"
    have "set (concat (map ct_comps ?c1)) \<inter> set (ct_comps t) = {}" "set (concat (map ct_nodes ?c1)) \<inter> set (ct_nodes t) = {}"
      using Cons.prems(4,5) t by (auto simp: c disjoint_iff)
    then show "ct_holds t ?st1 \<and> ct_deletes t" using Cons.prems(3) t c(4) by (simp add: ct_holds_without)
  qed
  have "del_buckets n ps ?st1 = Some (Inr (without (concat (map ct_comps ?c2)) (concat (map ct_nodes ?c2)) ?st1))"
    by (rule Cons.IH [OF l1 r1 h1]) (use Cons.prems(4-6) a(1) in \<open>auto simp: c\<close>)
  then show ?case using d1 by (simp add: obind_def without_without flip: concat_append map_append)
qed

lemma ct_deletes_all: "ct_deletes t"
proof (induction t)
  case (CTree a xs chs)
  show ?case
    unfolding ct_deletes_def
  proof (intro allI impI)
    fix st n
    assume h: "ct_holds (CTree a xs chs) st" and d: "distinct (ct_comps (CTree a xs chs))" "distinct (ct_nodes (CTree a xs chs))"
      and f: "ct_fuel (CTree a xs chs) \<le> n"
    obtain m where m: "n = Suc m" using f by (cases n) auto
    obtain c t ass where c: "ix_comp st a = Some c" "cp_apilist c = Some t" "chains hn_next (ix_node st) (ht_index t) ass" "concat ass = xs"
      using h by auto
    let ?st1 = "without (concat (map ct_comps chs)) (concat (map ct_nodes chs)) st"
    have b: "del_buckets m (ht_index t) st = Some (Inr ?st1)"
      by (rule del_buckets_trees [of st "ht_index t" ass]) (use h d f m c CTree.IH in \<open>auto simp: chains_def list_all_iff\<close>)
    have a1: "ix_comp ?st1 a = Some c" using c(1) d(1) by auto
    have "chains hn_next (ix_node ?st1) (ht_index t) ass"
      by (rule chains_frame [OF c(3)]) (use c(4) d(2) in auto)
    then have del: "zcrt_hash_delete (ix_node ?st1) (Some t) = Inr (\<lambda>x. if x \<in> set xs then None else ix_node ?st1 x)"
      using free_lists_chains [of hn_next "ix_node ?st1" "ht_index t" ass] c(4) by (simp add: zcrt_hash_delete_def)
    have "?st1\<lparr>ix_node := (\<lambda>x. if x \<in> set xs then None else ix_node ?st1 x), ix_comp := (ix_comp ?st1)(a := None)\<rparr> =
        without (ct_comps (CTree a xs chs)) (ct_nodes (CTree a xs chs)) st"
      by (auto simp: without_def fun_eq_iff)
    then show "zipc_component_delete n (Some (ct_root (CTree a xs chs))) st =
        Some (Inr (without (ct_comps (CTree a xs chs)) (ct_nodes (CTree a xs chs)) st))"
      using m c(1,2) b a1 del by (simp add: obind_def)
  qed
qed

text \<open>C35. Deleting a component frees it, every component registered below it and every node of their tables, each
  exactly once and nothing else; with as much fuel as the tree needs, or more, the recursion ends.\<close>

theorem component_delete_frees:
  assumes "ct_holds t st" "distinct (ct_comps t)" "distinct (ct_nodes t)" "ct_fuel t \<le> n"
  shows "\<exists>st'. zipc_component_delete n (Some (ct_root t)) st = Some (Inr st') \<and>
    (\<forall>a. ix_comp st' a = (if a \<in> set (ct_comps t) then None else ix_comp st a)) \<and>
    (\<forall>x. ix_node st' x = (if x \<in> set (ct_nodes t) then None else ix_node st x))"
  using ct_deletes_all [of t] assms unfolding ct_deletes_def
  by (intro exI [of _ "without (ct_comps t) (ct_nodes t) st"]) simp

text \<open>A component at 100 with one call at 200 registered in it through the node 7.\<close>

definition table_of :: "addr option \<Rightarrow> zcompref zhash" where
  "table_of p = \<lparr>ht_size = 1, ht_count = (if p = None then 0 else 1), ht_index = [p],
     ht_key = zipc_component_hash_key, ht_cmp = zipc_component_hash_cmp\<rparr>"

definition family :: zIpcHeap where
  "family = \<lparr>ix_comp = [100 \<mapsto> \<lparr>cp_name = [97, 0], cp_module = 0, cp_call = None, cp_apilist = Some (table_of (Some 7)),
        cp_arg1 = 0, cp_arg2 = 0, cp_cbs = 0\<rparr>,
      200 \<mapsto> \<lparr>cp_name = [98, 0], cp_module = 0, cp_call = Some 5, cp_apilist = Some (table_of None),
        cp_arg1 = 0, cp_arg2 = 0, cp_cbs = 0\<rparr>],
     ix_node = [7 \<mapsto> \<lparr>hn_data = \<lparr>ref_addr = Some 200, ref_name = [98, 0]\<rparr>, hn_next = None\<rparr>]\<rparr>"

theorem component_delete_frees_witness:
  "\<exists>st'. zipc_component_delete 8 (Some 100) family = Some (Inr st') \<and> ix_comp st' 100 = None \<and> ix_comp st' 200 = None \<and>
    ix_node st' 7 = None"
proof -
  let ?t = "CTree 100 [7] [CTree 200 [] []]"
  have c: "chains hn_next (ix_node family) [Some 7] [[7]]" "chains hn_next (ix_node family) [None] [[]]"
    by (simp_all add: chains_def family_def)
  have "ct_holds ?t family"
  proof -
    have "\<exists>c t ass. ix_comp family 200 = Some c \<and> cp_apilist c = Some t \<and> chains hn_next (ix_node family) (ht_index t) ass \<and> concat ass = []"
      using c(2) by (intro exI [of _ "the (ix_comp family 200)"] exI [of _ "table_of None"] exI [of _ "[[]]"])
        (simp add: family_def table_of_def)
    moreover have "\<exists>c t ass. ix_comp family 100 = Some c \<and> cp_apilist c = Some t \<and> chains hn_next (ix_node family) (ht_index t) ass \<and> concat ass = [7]"
      using c(1) by (intro exI [of _ "the (ix_comp family 100)"] exI [of _ "table_of (Some 7)"] exI [of _ "[[7]]"])
        (simp add: family_def table_of_def)
    moreover have "kids family [7] = [Some 200]" by (simp add: family_def)
    ultimately show ?thesis by simp
  qed
  from component_delete_frees [OF this, of 8] show ?thesis by force
qed

end
