(* ===== verification/Zipc_Dir.thy ===== *)
theory Zipc_Dir
  imports Zipc_Comp
begin

text \<open>
  The server's table of components as a directory: a map from names to components. Registering and taking out
  components in any order implements the directory, whatever buckets their names fall into.
\<close>

section \<open>Removing from a table\<close>

lemma remove_found:
  assumes wf: "hash_wf hp t ass" and found: "y \<in> set (bucket hp ass (slot t d))" "ht_cmp t y d = 0"
  obtains hp' t' ass' where "zcrt_hash_remove hp (Some t) (Some d) = Inr (hp', Some t')" "hash_wf hp' t' ass'"
    "ht_size t' = ht_size t" "ht_key t' = ht_key t" "ht_cmp t' = ht_cmp t"
    "\<And>k. k < unat (ht_size t) \<Longrightarrow> bucket hp' ass' k =
      (if k = slot t d then del_first (\<lambda>z. ht_cmp t z d = 0) (bucket hp ass k) else bucket hp ass k)"
    "\<And>a. hp a = None \<Longrightarrow> hp' a = None"
proof -
  let ?k = "slot t d"
  have kl: "?k < unat (ht_size t)" by (rule slot_less [OF hash_wfD(1) [OF wf]])
  obtain a0 where "a0 \<in> set (ass ! ?k)" "ht_cmp t (data_at hp a0) d = 0" using found by (auto simp: bucket_def)
  then obtain xs a ys where at: "ass ! ?k = xs @ a # ys" "ht_cmp t (data_at hp a) d = 0" "\<forall>b \<in> set xs. ht_cmp t (data_at hp b) d \<noteq> 0"
    using split_list_first_prop [of "ass ! ?k" "\<lambda>a. ht_cmp t (data_at hp a) d = 0"] by blast
  obtain hp' t' where r: "zcrt_hash_remove hp (Some t) (Some d) = Inr (hp', Some t')" "hash_wf hp' t' (ass[?k := xs @ ys])"
    "ht_size t' = ht_size t" "ht_key t' = ht_key t" "ht_cmp t' = ht_cmp t" "ht_count t' = ht_count t - 1"
    "hp' a = None" "\<And>b. b \<noteq> a \<Longrightarrow> b \<notin> set xs \<Longrightarrow> hp' b = hp b"
    "\<And>k. k < unat (ht_size t) \<Longrightarrow> k \<noteq> ?k \<Longrightarrow> bucket hp' (ass[?k := xs @ ys]) k = bucket hp ass k"
    "bucket hp' (ass[?k := xs @ ys]) ?k = map (data_at hp) (xs @ ys)"
    by (rule remove_wf [OF wf at(1,3,2)]) (rule that)
  have old: "bucket hp ass ?k = map (data_at hp) xs @ data_at hp a # map (data_at hp) ys" by (simp add: bucket_def at(1))
  have del: "bucket hp' (ass[?k := xs @ ys]) ?k = del_first (\<lambda>z. ht_cmp t z d = 0) (bucket hp ass ?k)"
    using at(2,3) unfolding r(10) old by (subst del_first_split) auto
  have b: "bucket hp' (ass[?k := xs @ ys]) k =
      (if k = ?k then del_first (\<lambda>z. ht_cmp t z d = 0) (bucket hp ass k) else bucket hp ass k)" if "k < unat (ht_size t)" for k
    using del r(9) [OF that] by simp
  have ch: "chain hn_next hp (ht_index t ! ?k) (xs @ a # ys) None" using hash_wfD(6) [OF wf kl] at(1) by simp
  have n: "hp' x = None" if "hp x = None" for x
  proof -
    have "x \<noteq> a" "x \<notin> set xs" using chain_dom [OF ch, of x] that by auto
    then show ?thesis using r(8) that by simp
  qed
  show ?thesis by (rule that [OF r(1-5) b n])
qed

lemma remove_absent:
  assumes wf: "hash_wf hp t ass" and none: "\<forall>y \<in> set (bucket hp ass (slot t d)). ht_cmp t y d \<noteq> 0"
  shows "zcrt_hash_remove hp (Some t) (Some d) = Inr (hp, Some t)"
proof -
  let ?p = "ht_index t ! slot t d" and ?as = "ass ! slot t d"
  have ch: "chain hn_next hp ?p ?as None" using hash_wfD(6) [OF wf slot_less] hash_wfD(1) [OF wf] by blast
  show ?thesis
  proof (cases ?as)
    case Nil
    then show ?thesis using ch by (simp add: zcrt_hash_remove_def getnode_wf [OF wf])
  next
    case (Cons a as)
    then obtain n where n: "?p = Some a" "hp a = Some n" using ch by auto
    have nf: "List.find (\<lambda>a. ht_cmp t (data_at hp a) d = 0) ?as = None" using none by (auto simp: find_None_iff bucket_def)
    obtain pr where f: "find_node (ht_cmp t) d hp ?p ?p = Some (Inr (pr, None))"
      using find_node_chain [OF ch, of "ht_cmp t" d ?p] nf by auto
    have "ht_cmp t (hn_data n) d \<noteq> 0" using none n Cons by (simp add: bucket_def data_at_def)
    then show ?thesis using n f by (simp add: zcrt_hash_remove_def getnode_wf [OF wf])
  qed
qed

section \<open>The directory\<close>

type_synonym directory = "u8 list \<rightharpoonup> addr"

definition entry :: "addr \<Rightarrow> u8 list \<Rightarrow> zcompref" where
  "entry s nm = \<lparr>ref_addr = Some s, ref_name = name_of nm\<rparr>"

definition dir_table :: "zcompref hheap \<Rightarrow> zcompref zhash \<Rightarrow> addr list list \<Rightarrow> directory \<Rightarrow> bool" where
  "dir_table hp t ass d \<longleftrightarrow> hash_wf hp t ass \<and> comp_table t \<and>
     (\<forall>k < unat (ht_size t). distinct (map ref_name (bucket hp ass k)) \<and>
        (\<forall>r \<in> set (bucket hp ass k). \<exists>s nm. r = entry s nm \<and> is_name nm \<and> d nm = Some s)) \<and>
     (\<forall>nm s. d nm = Some s \<longrightarrow> is_name nm \<and> entry s nm \<in> set (bucket hp ass (slot t (entry s nm))))"

lemma name_of_inj: "is_name p \<Longrightarrow> is_name q \<Longrightarrow> name_of p = name_of q \<longleftrightarrow> p = q"
  using name_facts(1) by metis

lemma slot_name: "comp_table t \<Longrightarrow> slot t \<lparr>ref_addr = x, ref_name = nm\<rparr> = slot t \<lparr>ref_addr = y, ref_name = nm\<rparr>"
  by (simp add: slot_def comp_table_def zipc_component_hash_key_def)

lemma entry_cmp: "is_name p \<Longrightarrow> is_name q \<Longrightarrow> zipc_component_hash_cmp (entry s p) \<lparr>ref_addr = x, ref_name = name_of q\<rparr> = 0 \<longleftrightarrow> p = q"
  by (simp add: entry_def cmp_names)

text \<open>A table that represents a directory answers lookups by name as the directory does.\<close>

lemma dir_lookup:
  assumes d: "dir_table hp t ass d" and q: "is_name q"
  shows "by_name hp t q = Inr (d q)"
proof -
  let ?x = "\<lparr>ref_addr = None, ref_name = name_of q\<rparr>"
  have wf: "hash_wf hp t ass" "comp_table t" using d by (simp_all add: dir_table_def)
  have c: "ht_cmp t = zipc_component_hash_cmp" using wf(2) by (simp add: comp_table_def)
  have k: "slot t ?x < unat (ht_size t)" by (rule slot_less [OF hash_wfD(1) [OF wf(1)]])
  have b: "\<exists>s nm. r = entry s nm \<and> is_name nm \<and> d nm = Some s" if "r \<in> set (bucket hp ass (slot t ?x))" for r
    using d k that by (auto simp: dir_table_def)
  let ?f = "List.find (\<lambda>x. zipc_component_hash_cmp x ?x = 0) (bucket hp ass (slot t ?x))"
  have "(case ?f of None \<Rightarrow> None | Some r \<Rightarrow> ref_addr r) = d q"
  proof (cases ?f)
    case None
    then have n: "\<forall>r \<in> set (bucket hp ass (slot t ?x)). zipc_component_hash_cmp r ?x \<noteq> 0" by (simp add: find_None_iff)
    have "d q = None"
    proof (rule ccontr)
      assume "d q \<noteq> None"
      then obtain s where s: "d q = Some s" by blast
      then have "entry s q \<in> set (bucket hp ass (slot t (entry s q)))" using d by (simp add: dir_table_def)
      moreover have "slot t (entry s q) = slot t ?x" unfolding entry_def by (rule slot_name [OF wf(2)])
      ultimately show False using n entry_cmp [OF q q, of s None] by auto
    qed
    then show ?thesis using None by simp
  next
    case (Some r)
    then have "r \<in> set (bucket hp ass (slot t ?x))" "zipc_component_hash_cmp r ?x = 0" by (auto simp: find_Some_iff)
    then obtain s nm where "r = entry s nm" "is_name nm" "d nm = Some s" "nm = q" using b entry_cmp q by metis
    then show ?thesis using Some by (simp add: entry_def)
  qed
  then show ?thesis by (simp add: by_name_lookup [OF q] lookup_bucket [OF wf(1)] c)
qed

lemma dir_add:
  assumes d: "dir_table hp t ass d" and q: "is_name q" "d q = None" and new: "hp new = None"
  obtains hp' t' ass' where "zcrt_hash_add (Some new) hp (Some t) (Some (entry s q)) = Inr (Some new, hp', Some t')"
    "dir_table hp' t' ass' (d(q \<mapsto> s))" "\<And>a. a \<noteq> new \<Longrightarrow> hp' a = hp a"
proof -
  let ?x = "entry s q"
  have wf: "hash_wf hp t ass" "comp_table t" using d by (simp_all add: dir_table_def)
  let ?ass = "ass[slot t ?x := new # ass ! slot t ?x]"
  obtain hp' t' where a: "zcrt_hash_add (Some new) hp (Some t) (Some ?x) = Inr (Some new, hp', Some t')"
    "hash_wf hp' t' ?ass" "ht_size t' = ht_size t" "ht_key t' = ht_key t" "ht_cmp t' = ht_cmp t"
    "\<And>k. k < unat (ht_size t) \<Longrightarrow> bucket hp' ?ass k = (if k = slot t ?x then ?x # bucket hp ass k else bucket hp ass k)"
    "\<And>a. a \<noteq> new \<Longrightarrow> hp' a = hp a"
    by (rule add_wf [OF wf(1) new, of ?x]) (rule that)
  have sl: "slot t' y = slot t y" for y using a(3,4) by (simp add: slot_def)
  have old: "\<exists>s nm. r = entry s nm \<and> is_name nm \<and> d nm = Some s" if "k < unat (ht_size t)" "r \<in> set (bucket hp ass k)" for r k
    using d that by (auto simp: dir_table_def)
  have fresh: "ref_name ?x \<notin> ref_name ` set (bucket hp ass k)" if k: "k < unat (ht_size t)" for k
  proof
    assume "ref_name ?x \<in> ref_name ` set (bucket hp ass k)"
    then obtain r where r: "r \<in> set (bucket hp ass k)" "ref_name r = ref_name ?x" by auto
    then obtain s1 nm where "r = entry s1 nm" "is_name nm" "d nm = Some s1" using old [OF k] by blast
    then show False using r(2) q name_of_inj by (auto simp: entry_def)
  qed
  have "dir_table hp' t' ?ass (d(q \<mapsto> s))"
    unfolding dir_table_def
  proof (intro conjI allI impI ballI)
    show "hash_wf hp' t' ?ass" by (rule a(2))
    show "comp_table t'" using wf(2) a(4,5) by (simp add: comp_table_def)
  next
    fix k assume "k < unat (ht_size t')"
    then have k: "k < unat (ht_size t)" using a(3) by simp
    have "distinct (map ref_name (bucket hp ass k))" using d k by (simp add: dir_table_def)
    then show "distinct (map ref_name (bucket hp' ?ass k))" unfolding a(6) [OF k] using fresh [OF k] by auto
    fix r assume "r \<in> set (bucket hp' ?ass k)"
    then have "r = ?x \<or> r \<in> set (bucket hp ass k)" using a(6) [OF k] by (auto split: if_splits)
    then show "\<exists>s1 nm. r = entry s1 nm \<and> is_name nm \<and> (d(q \<mapsto> s)) nm = Some s1"
    proof
      assume "r = ?x"
      then show ?thesis using q by auto
    next
      assume "r \<in> set (bucket hp ass k)"
      then obtain s1 nm where "r = entry s1 nm" "is_name nm" "d nm = Some s1" using old [OF k] by blast
      then show ?thesis using q(2) by (intro exI [of _ s1] exI [of _ nm]) auto
    qed
  next
    fix nm s1 assume n: "(d(q \<mapsto> s)) nm = Some s1"
    show "is_name nm" using n q d by (auto simp: dir_table_def split: if_splits)
    have kl: "slot t (entry s1 nm) < unat (ht_size t)" by (rule slot_less [OF hash_wfD(1) [OF wf(1)]])
    show "entry s1 nm \<in> set (bucket hp' ?ass (slot t' (entry s1 nm)))"
    proof (cases "nm = q")
      case True
      then show ?thesis unfolding sl a(6) [OF kl] using n by simp
    next
      case False
      then have "entry s1 nm \<in> set (bucket hp ass (slot t (entry s1 nm)))" using n d by (simp add: dir_table_def)
      then show ?thesis unfolding sl a(6) [OF kl] by (cases "slot t (entry s1 nm) = slot t ?x") simp_all
    qed
  qed
  then show ?thesis using that a(1,7) by blast
qed


lemma set_del_first_unique:
  assumes "distinct (map f xs)" "\<And>x y. x \<in> set xs \<Longrightarrow> y \<in> set xs \<Longrightarrow> P x \<Longrightarrow> P y \<Longrightarrow> f x = f y"
  shows "set (del_first P xs) = {x \<in> set xs. \<not> P x} \<and> distinct (map f (del_first P xs))"
proof (cases "\<exists>x \<in> set xs. P x")
  case False
  then have "del_first P xs = xs" by (simp add: del_first_def takeWhile_eq_all_conv [THEN iffD2] dropWhile_eq_Nil_conv [THEN iffD2])
  then show ?thesis using assms(1) False by auto
next
  case True
  then obtain us x vs where x: "xs = us @ x # vs" "P x" "\<forall>u \<in> set us. \<not> P u" using split_list_first_prop by metis
  then have d: "del_first P xs = us @ vs" by (simp add: del_first_split)
  have "\<not> P v" if "v \<in> set vs" for v using assms(2) [of x v] x(1,2) assms(1) that by auto
  then show ?thesis unfolding d using x assms(1) by auto
qed

lemma dir_remove:
  assumes d: "dir_table hp t ass d" and q: "is_name q"
  obtains hp' t' ass' where "zcrt_hash_remove hp (Some t) (Some \<lparr>ref_addr = x, ref_name = name_of q\<rparr>) = Inr (hp', Some t')"
    "dir_table hp' t' ass' (d(q := None))" "\<And>a. hp a = None \<Longrightarrow> hp' a = None"
proof -
  let ?x = "\<lparr>ref_addr = x, ref_name = name_of q\<rparr>"
  let ?P = "\<lambda>z. zipc_component_hash_cmp z ?x = 0"
  have wf: "hash_wf hp t ass" "comp_table t" using d by (simp_all add: dir_table_def)
  have c: "ht_cmp t = zipc_component_hash_cmp" using wf(2) by (simp add: comp_table_def)
  have kl: "slot t y < unat (ht_size t)" for y by (rule slot_less [OF hash_wfD(1) [OF wf(1)]])
  have old: "\<exists>s nm. r = entry s nm \<and> is_name nm \<and> d nm = Some s" if "k < unat (ht_size t)" "r \<in> set (bucket hp ass k)" for r k
    using d that by (auto simp: dir_table_def)
  have sq: "slot t (entry s q) = slot t ?x" for s unfolding entry_def by (rule slot_name [OF wf(2)])
  have dist: "distinct (map ref_name (bucket hp ass k))" if "k < unat (ht_size t)" for k using d that by (simp add: dir_table_def)
  show ?thesis
  proof (cases "d q")
    case None
    have "\<forall>y \<in> set (bucket hp ass (slot t ?x)). ht_cmp t y ?x \<noteq> 0"
    proof
      fix y assume "y \<in> set (bucket hp ass (slot t ?x))"
      then obtain s nm where "y = entry s nm" "is_name nm" "d nm = Some s" using old [OF kl] by blast
      then show "ht_cmp t y ?x \<noteq> 0" using None entry_cmp q c by auto
    qed
    then have "zcrt_hash_remove hp (Some t) (Some ?x) = Inr (hp, Some t)" by (rule remove_absent [OF wf(1)])
    moreover have "d(q := None) = d" using None by auto
    ultimately show ?thesis using that d by simp
  next
    case (Some s)
    then have "entry s q \<in> set (bucket hp ass (slot t ?x))" using d unfolding sq [symmetric, of s] by (simp add: dir_table_def)
    moreover have "ht_cmp t (entry s q) ?x = 0" using entry_cmp [OF q q] c by simp
    ultimately obtain hp' t' ass' where r: "zcrt_hash_remove hp (Some t) (Some ?x) = Inr (hp', Some t')" "hash_wf hp' t' ass'"
      "ht_size t' = ht_size t" "ht_key t' = ht_key t" "ht_cmp t' = ht_cmp t"
      "\<And>k. k < unat (ht_size t) \<Longrightarrow> bucket hp' ass' k = (if k = slot t ?x then del_first (\<lambda>z. ht_cmp t z ?x = 0) (bucket hp ass k) else bucket hp ass k)"
      "\<And>a. hp a = None \<Longrightarrow> hp' a = None"
      by (rule remove_found [OF wf(1)]) (rule that)
    have sl: "slot t' y = slot t y" for y using r(3,4) by (simp add: slot_def)
    have eq: "r1 \<in> set (bucket hp ass (slot t ?x)) \<Longrightarrow> r2 \<in> set (bucket hp ass (slot t ?x)) \<Longrightarrow> ?P r1 \<Longrightarrow> ?P r2 \<Longrightarrow> ref_name r1 = ref_name r2" for r1 r2
      using old [OF kl] entry_cmp q by (metis entry_def zcompref.select_convs(2))
    have u: "set (del_first ?P (bucket hp ass (slot t ?x))) = {r \<in> set (bucket hp ass (slot t ?x)). \<not> ?P r}"
      "distinct (map ref_name (del_first ?P (bucket hp ass (slot t ?x))))"
      using set_del_first_unique [of ref_name "bucket hp ass (slot t ?x)" ?P, OF dist [OF kl] eq] by blast+
    have b: "set (bucket hp' ass' k) = {r \<in> set (bucket hp ass k). k = slot t ?x \<longrightarrow> \<not> ?P r} \<and> distinct (map ref_name (bucket hp' ass' k))"
      if "k < unat (ht_size t)" for k
    proof (cases "k = slot t ?x")
      case True
      have "bucket hp' ass' k = del_first ?P (bucket hp ass (slot t ?x))" using r(6) [OF that] unfolding c True by (simp only: if_True refl)
      then show ?thesis unfolding True using u by (simp only: simp_thms)
    next
      case False
      then have "bucket hp' ass' k = bucket hp ass k" using r(6) [OF that] by (simp only: if_False)
      then show ?thesis using dist [OF that] False by simp
    qed
    have "dir_table hp' t' ass' (d(q := None))"
      unfolding dir_table_def
    proof (intro conjI allI impI ballI)
      show "hash_wf hp' t' ass'" by (rule r(2))
      show "comp_table t'" using wf(2) r(4,5) by (simp add: comp_table_def)
    next
      fix k assume "k < unat (ht_size t')"
      then have k: "k < unat (ht_size t)" using r(3) by simp
      show "distinct (map ref_name (bucket hp' ass' k))" using b [OF k] by simp
      fix e assume "e \<in> set (bucket hp' ass' k)"
      then have e: "e \<in> set (bucket hp ass k)" "k = slot t ?x \<longrightarrow> \<not> ?P e" using b [OF k] by auto
      obtain s1 nm where n: "e = entry s1 nm" "is_name nm" "d nm = Some s1" using old [OF k e(1)] by blast
      have "slot t e = k" using e(1) wf(1) k hash_wfD(7) by (fastforce simp: bucket_def)
      then have "nm \<noteq> q" using e(2) n entry_cmp [OF q q] sq by auto
      then show "\<exists>s1 nm. e = entry s1 nm \<and> is_name nm \<and> (d(q := None)) nm = Some s1" using n by auto
    next
      fix nm s1 assume n: "(d(q := None)) nm = Some s1"
      then have nm: "nm \<noteq> q" "d nm = Some s1" by (auto split: if_splits)
      then show name: "is_name nm" using d by (simp add: dir_table_def)
      have "entry s1 nm \<in> set (bucket hp ass (slot t (entry s1 nm)))" using d nm(2) by (simp add: dir_table_def)
      moreover have "\<not> ?P (entry s1 nm)" using entry_cmp [OF name q] nm(1) by simp
      ultimately show "entry s1 nm \<in> set (bucket hp' ass' (slot t' (entry s1 nm)))" unfolding sl using b [OF kl] by simp
    qed
    then show ?thesis using that r(1,7) by blast
  qed
qed


section \<open>The server\<close>

definition named :: "zIpcHeap \<Rightarrow> addr \<Rightarrow> u8 list \<Rightarrow> bool" where
  "named st s nm \<longleftrightarrow> is_name nm \<and> (\<exists>sn. ix_comp st s = Some sn \<and> cp_name sn = name_of nm)"

definition serves_dir :: "zIPCModule \<Rightarrow> zIpcHeap \<Rightarrow> directory \<Rightarrow> bool" where
  "serves_dir ipc st d \<longleftrightarrow> (\<exists>t ass. im_modlist ipc = Some t \<and> dir_table (ix_node st) t ass d)"

lemma register_dir:
  assumes d: "serves_dir ipc st d" and n: "named st s nm" and new: "ix_node st new = None"
  obtains ipc' st' where "zipc_server_register (Some new) (Some ipc) (Some s) st =
      Inr (if d nm = None then EZCRTErr_success else EZCRTErr_existed, Some ipc', st')"
    "serves_dir ipc' st' (if d nm = None then d(nm \<mapsto> s) else d)" "ix_comp st' = ix_comp st"
    "\<And>a. a \<noteq> new \<Longrightarrow> ix_node st' a = ix_node st a"
proof -
  obtain t ass where t: "im_modlist ipc = Some t" "dir_table (ix_node st) t ass d" using d by (auto simp: serves_dir_def)
  obtain sn where sn: "is_name nm" "ix_comp st s = Some sn" "cp_name sn = name_of nm" using n by (auto simp: named_def)
  have lk: "zipc_parase_lookup_comp (ix_node st) (Some t) (Some (name_of nm), 0) (of_nat (length nm)) = Inr (d nm)"
    using lookup_own [OF sn(1)] dir_lookup [OF t(2) sn(1)] by simp
  show ?thesis
  proof (cases "d nm")
    case None
    obtain hp' t' ass' where a: "zcrt_hash_add (Some new) (ix_node st) (Some t) (Some (entry s nm)) = Inr (Some new, hp', Some t')"
      "dir_table hp' t' ass' (d(nm \<mapsto> s))" "\<And>a. a \<noteq> new \<Longrightarrow> hp' a = ix_node st a"
      by (rule dir_add [OF t(2) sn(1) None new, of s]) (rule that)
    have "serves_dir (ipc\<lparr>im_modlist := Some t'\<rparr>) (st\<lparr>ix_node := hp'\<rparr>) (d(nm \<mapsto> s))"
      using a(2) by (auto simp: serves_dir_def)
    then show ?thesis
      using None t(1) sn lk a(1,3) by (intro that [of "ipc\<lparr>im_modlist := Some t'\<rparr>" "st\<lparr>ix_node := hp'\<rparr>"])
        (simp_all add: zipc_server_register_def name_facts(2) entry_def)
  next
    case (Some s0)
    then show ?thesis
      using t(1) sn lk d by (intro that [of ipc st]) (simp_all add: zipc_server_register_def name_facts(2))
  qed
qed

lemma unregister_dir:
  assumes d: "serves_dir ipc st d" and n: "named st s nm"
  obtains ipc' st' where "zipc_server_unregister (Some ipc) (Some s) st = Inr (Some ipc', st')"
    "serves_dir ipc' st' (d(nm := None))" "ix_comp st' = ix_comp st" "\<And>a. ix_node st a = None \<Longrightarrow> ix_node st' a = None"
proof -
  obtain t ass where t: "im_modlist ipc = Some t" "dir_table (ix_node st) t ass d" using d by (auto simp: serves_dir_def)
  obtain sn where sn: "is_name nm" "ix_comp st s = Some sn" "cp_name sn = name_of nm" using n by (auto simp: named_def)
  obtain hp' t' ass' where r: "zcrt_hash_remove (ix_node st) (Some t) (Some \<lparr>ref_addr = Some s, ref_name = name_of nm\<rparr>) = Inr (hp', Some t')"
    "dir_table hp' t' ass' (d(nm := None))" "\<And>a. ix_node st a = None \<Longrightarrow> hp' a = None"
    by (rule dir_remove [OF t(2) sn(1), of "Some s"]) (rule that)
  have "serves_dir (ipc\<lparr>im_modlist := Some t'\<rparr>) (st\<lparr>ix_node := hp'\<rparr>) (d(nm := None))"
    using r(2) by (auto simp: serves_dir_def)
  then show ?thesis
    using t(1) sn r(1,3) by (intro that [of "ipc\<lparr>im_modlist := Some t'\<rparr>" "st\<lparr>ix_node := hp'\<rparr>"]) (simp_all add: zipc_server_unregister_def)
qed

text \<open>A program that registers components, with the nodes \<^verbatim>\<open>malloc\<close> gives for them, and takes them out, run on the
  server and on a directory.\<close>

datatype dir_op = Reg addr addr | Unreg addr

primrec op_comp :: "dir_op \<Rightarrow> addr" where
  "op_comp (Reg n s) = s"
| "op_comp (Unreg s) = s"

primrec op_nodes :: "dir_op \<Rightarrow> addr list" where
  "op_nodes (Reg n s) = [n]"
| "op_nodes (Unreg s) = []"

fun srv_run :: "dir_op list \<Rightarrow> zIPCModule option \<Rightarrow> zIpcHeap \<Rightarrow> (EZCRTErr list \<times> zIPCModule option \<times> zIpcHeap) res" where
  "srv_run [] module st = Inr ([], module, st)"
| "srv_run (Reg n s # ops) module st =
     rbind (zipc_server_register (Some n) module (Some s) st) (\<lambda>(e, module1, st1).
     rbind (srv_run ops module1 st1) (\<lambda>(es, r). Inr (e # es, r)))"
| "srv_run (Unreg s # ops) module st =
     rbind (zipc_server_unregister module (Some s) st) (\<lambda>(module1, st1). srv_run ops module1 st1)"

fun dir_run :: "(addr \<Rightarrow> u8 list) \<Rightarrow> dir_op list \<Rightarrow> directory \<Rightarrow> EZCRTErr list \<times> directory" where
  "dir_run nm [] d = ([], d)"
| "dir_run nm (Reg n s # ops) d =
     (if d (nm s) = None then let (es, d1) = dir_run nm ops (d(nm s \<mapsto> s)) in (EZCRTErr_success # es, d1)
      else let (es, d1) = dir_run nm ops d in (EZCRTErr_existed # es, d1))"
| "dir_run nm (Unreg s # ops) d = dir_run nm ops (d(nm s := None))"

lemma srv_run_dir:
  assumes "serves_dir ipc st d" "\<forall>op \<in> set ops. named st (op_comp op) (nm (op_comp op))"
    and "distinct (concat (map op_nodes ops))" "\<forall>n \<in> set (concat (map op_nodes ops)). ix_node st n = None"
  shows "\<exists>ipc' st'. srv_run ops (Some ipc) st = Inr (fst (dir_run nm ops d), Some ipc', st') \<and> serves_dir ipc' st' (snd (dir_run nm ops d))"
  using assms
proof (induction ops arbitrary: ipc st d)
  case (Cons op ops)
  show ?case
  proof (cases op)
    case (Reg n s)
    have p: "named st s (nm s)" "ix_node st n = None" using Cons.prems(2,4) Reg by simp_all
    obtain ipc1 st1 where r: "zipc_server_register (Some n) (Some ipc) (Some s) st =
        Inr (if d (nm s) = None then EZCRTErr_success else EZCRTErr_existed, Some ipc1, st1)"
      "serves_dir ipc1 st1 (if d (nm s) = None then d(nm s \<mapsto> s) else d)" "ix_comp st1 = ix_comp st"
      "\<And>a. a \<noteq> n \<Longrightarrow> ix_node st1 a = ix_node st a" by (rule register_dir [OF Cons.prems(1) p]) (rule that)
    have "\<forall>op \<in> set ops. named st1 (op_comp op) (nm (op_comp op))" using Cons.prems(2) r(3) by (simp add: named_def)
    moreover have "\<forall>m \<in> set (concat (map op_nodes ops)). ix_node st1 m = None" using Cons.prems(3,4) Reg r(4) by fastforce
    moreover have "distinct (concat (map op_nodes ops))" using Cons.prems(3) by simp
    ultimately obtain ipc' st' where
      "srv_run ops (Some ipc1) st1 = Inr (fst (dir_run nm ops (if d (nm s) = None then d(nm s \<mapsto> s) else d)), Some ipc', st')"
      "serves_dir ipc' st' (snd (dir_run nm ops (if d (nm s) = None then d(nm s \<mapsto> s) else d)))"
      using Cons.IH [OF r(2)] by blast
    then show ?thesis using Reg r(1) by (cases "d (nm s) = None") (simp_all add: split_def Let_def)
  next
    case (Unreg s)
    have p: "named st s (nm s)" using Cons.prems(2) Unreg by simp
    obtain ipc1 st1 where r: "zipc_server_unregister (Some ipc) (Some s) st = Inr (Some ipc1, st1)"
      "serves_dir ipc1 st1 (d(nm s := None))" "ix_comp st1 = ix_comp st" "\<And>a. ix_node st a = None \<Longrightarrow> ix_node st1 a = None"
      by (rule unregister_dir [OF Cons.prems(1) p]) (rule that)
    have "\<forall>op \<in> set ops. named st1 (op_comp op) (nm (op_comp op))" using Cons.prems(2) r(3) by (simp add: named_def)
    moreover have "\<forall>m \<in> set (concat (map op_nodes ops)). ix_node st1 m = None" using Cons.prems(4) Unreg r(4) by simp
    moreover have "distinct (concat (map op_nodes ops))" using Cons.prems(3) Unreg by simp
    ultimately obtain ipc' st' where "srv_run ops (Some ipc1) st1 = Inr (fst (dir_run nm ops (d(nm s := None))), Some ipc', st')"
      "serves_dir ipc' st' (snd (dir_run nm ops (d(nm s := None))))" using Cons.IH [OF r(2)] by blast
    then show ?thesis using Unreg r(1) by (simp del: fun_upd_apply)
  qed
qed simp

text \<open>C13. The server's table implements a directory: whatever components are registered and taken out, in whatever order, every
  registration is answered as the directory answers it, with success for a free name and an error for a taken one, and
  afterwards a lookup of any name finds what the directory holds under it. Taking out a component takes out the entry of its
  name, whichever component that is.\<close>

theorem server_implements_directory:
  assumes "serves_dir ipc st d" "\<forall>op \<in> set ops. named st (op_comp op) (nm (op_comp op))"
    and "distinct (concat (map op_nodes ops))" "\<forall>n \<in> set (concat (map op_nodes ops)). ix_node st n = None"
  shows "\<exists>ipc' st' t. srv_run ops (Some ipc) st = Inr (fst (dir_run nm ops d), Some ipc', st') \<and> im_modlist ipc' = Some t \<and>
    (\<forall>q. is_name q \<longrightarrow> by_name (ix_node st') t q = Inr (snd (dir_run nm ops d) q))"
proof -
  obtain ipc' st' where r: "srv_run ops (Some ipc) st = Inr (fst (dir_run nm ops d), Some ipc', st')" "serves_dir ipc' st' (snd (dir_run nm ops d))"
    using srv_run_dir [OF assms] by blast
  obtain t ass where "im_modlist ipc' = Some t" "dir_table (ix_node st') t ass (snd (dir_run nm ops d))"
    using r(2) by (auto simp: serves_dir_def)
  then show ?thesis using r(1) dir_lookup by blast
qed

lemma empty_serves: "im_modlist ipc = Some empty_table \<Longrightarrow> serves_dir ipc st Map.empty"
proof -
  assume m: "im_modlist ipc = Some empty_table"
  have "\<forall>k < 32. bucket (ix_node st) (replicate 32 []) k = []" by (simp add: bucket_def)
  then have "dir_table (ix_node st) empty_table (replicate 32 []) Map.empty"
    using empty_table_wf(1) [of "ix_node st"] empty_table_wf(2) by (simp add: dir_table_def) (simp add: empty_table_def)
  then show ?thesis using m by (auto simp: serves_dir_def)
qed

text \<open>Two components of the same name: the second is refused, and taking the second out takes out the first.\<close>

definition two_named :: zIpcHeap where
  "two_named = \<lparr>ix_comp = [200 \<mapsto> comp_example [103, 101, 116], 201 \<mapsto> comp_example [103, 101, 116]], ix_node = Map.empty\<rparr>"

theorem server_implements_directory_witness:
  "\<exists>ipc ipc' st' t. srv_run [Reg 5 200, Reg 6 201, Unreg 201] (Some ipc) two_named =
      Inr ([EZCRTErr_success, EZCRTErr_existed], Some ipc', st') \<and> im_modlist ipc' = Some t \<and> by_name (ix_node st') t [103, 101, 116] = Inr None"
proof -
  let ?ops = "[Reg 5 200, Reg 6 201, Unreg 201]" and ?nm = "\<lambda>_ :: addr. [103, 101, 116] :: u8 list"
  define ipc where "ipc = \<lparr>im_sch = None, im_respondSch = None, im_evtSch = None, im_socket = 0, im_evt_encode = None, im_port = 0,
    im_run = True, im_modlist = Some empty_table, im_name = [], im_freebuf = None\<rparr>"
  have n: "is_name [103, 101, 116]" by (simp add: is_name_def ZCRT_NAME_LEN_def)
  have e: "serves_dir ipc two_named Map.empty" by (rule empty_serves) (simp add: ipc_def)
  have o: "\<forall>op \<in> set ?ops. named two_named (op_comp op) (?nm (op_comp op))" using n by (simp add: named_def two_named_def comp_example_def)
  have r: "dir_run ?nm ?ops Map.empty = ([EZCRTErr_success, EZCRTErr_existed], Map.empty)" by simp
  obtain ipc' st' t where s: "srv_run ?ops (Some ipc) two_named = Inr ([EZCRTErr_success, EZCRTErr_existed], Some ipc', st')"
    "im_modlist ipc' = Some t" "\<forall>q. is_name q \<longrightarrow> by_name (ix_node st') t q = Inr None"
    using server_implements_directory [OF e o, unfolded r] by (auto simp: two_named_def)
  then show ?thesis using n by blast
qed

end
