(* ===== verification/Zipc_Parse.thy ===== *)
theory Zipc_Parse
  imports Zipc_Comp Zipc_Tlv Zcrt_Event Zcrt_Schedule
begin

text \<open>
  Messages of the IPC server, \<^verbatim>\<open>zipc/zipc_parse.c\<close>: the ten header bytes, the common header,
  requests and the calls they are dispatched to, event hooks, replies, notifications, and the pool of
  buffers. Multi-byte fields of a header are stored as the machine (little endian) lays them out. What a
  call of a component does is an argument, as is what the event encoder of an application does.
\<close>

section \<open>The message header\<close>

datatype ZEIPC_TYPE = ZEIPC_TYPE_DEFAULT | ZEIPC_TYPE_LINK

fun zeipc_code :: "ZEIPC_TYPE \<Rightarrow> u16" where
  "zeipc_code ZEIPC_TYPE_DEFAULT = 0"
| "zeipc_code ZEIPC_TYPE_LINK = 1"

record zIPCMsgHdr =
  mh_signature :: u16
  mh_version :: u16
  mh_appType :: u16
  mh_payloadSize :: u32

record zIPCMsgCH =
  ch_sn :: u32
  ch_req :: bool
  ch_noti :: bool

definition htons :: "u16 \<Rightarrow> u16" where
  "htons v = push_bit 8 v OR drop_bit 8 v"

definition bytes16 :: "u16 \<Rightarrow> u8 list" where
  "bytes16 v = [ucast v, ucast (drop_bit 8 v)]"

definition bytes32 :: "u32 \<Rightarrow> u8 list" where
  "bytes32 v = [ucast v, ucast (drop_bit 8 v), ucast (drop_bit 16 v), ucast (drop_bit 24 v)]"

definition hdr_bytes :: "zIPCMsgHdr \<Rightarrow> u8 list" where
  "hdr_bytes h = bytes16 (mh_signature h) @ bytes16 (mh_version h) @ bytes16 (mh_appType h) @ bytes32 (mh_payloadSize h)"

text \<open>The header at the start of received bytes; \<^verbatim>\<open>None\<close> when they are fewer than ten.\<close>

definition word16 :: "u8 \<Rightarrow> u8 \<Rightarrow> u16" where
  "word16 a b = ucast a OR push_bit 8 (ucast b)"

definition word32 :: "u8 \<Rightarrow> u8 \<Rightarrow> u8 \<Rightarrow> u8 \<Rightarrow> u32" where
  "word32 a b c d = ucast a OR push_bit 8 (ucast b) OR push_bit 16 (ucast c) OR push_bit 24 (ucast d)"

definition htonl :: "u32 \<Rightarrow> u32" where
  "htonl v = word32 (ucast (drop_bit 24 v)) (ucast (drop_bit 16 v)) (ucast (drop_bit 8 v)) (ucast v)"

fun hdr_of_bytes :: "u8 list \<Rightarrow> zIPCMsgHdr option" where
  "hdr_of_bytes (a # b # c # d # e # f # g # h # i # j # _) =
     Some \<lparr>mh_signature = word16 a b, mh_version = word16 c d, mh_appType = word16 e f,
           mh_payloadSize = word32 g h i j\<rparr>"
| "hdr_of_bytes _ = None"

definition ZIPC_HEAD_LEN :: u32 where "ZIPC_HEAD_LEN = 10"
definition ZIPC_BUF_LEN :: u32 where "ZIPC_BUF_LEN = 1024 * 8"

definition s_zipc_sig :: u16 where
  "s_zipc_sig = push_bit 8 (of_nat (of_char (CHR ''G''))) + of_nat (of_char (CHR ''L''))"

definition zipc_parse_check_hdr :: "zIPCMsgHdr \<Rightarrow> bool" where
  "zipc_parse_check_hdr hdr = (htons (mh_signature hdr) = s_zipc_sig)"

section \<open>The common header\<close>

definition no_str :: zstr where
  "no_str = \<lparr>zs_len = 0, zs_ptr = null_ptr\<rparr>"

text \<open>
  The loop over the entries that are left. A getter that fails ends it at once; an entry with a name
  that is not known is skipped with \<^verbatim>\<open>ztlv_get_ignore\<close>, whose result is not looked at.
\<close>

fun common_hdr_loop :: "nat \<Rightarrow> zbufp \<Rightarrow> zIPCMsgCH \<Rightarrow> (bool \<times> zIPCMsgCH \<times> zbufp) res" where
  "common_hdr_loop 0 ibuf ch = Inr (True, ch, ibuf)"
| "common_hdr_loop (Suc n) ibuf ch = rbind (ztlv_get_string ibuf no_str) (\<lambda>(ok, key, b1).
     if \<not> ok then Inr (False, ch, b1)
     else rbind (zstr_buf_cmp key (cstr (str_u8 ''sn''))) (\<lambda>is_sn.
       if is_sn = 0 then rbind (ztlv_get_int b1) (\<lambda>(v, b2). (case v of
           None \<Rightarrow> Inr (False, ch, b2)
         | Some sn \<Rightarrow> common_hdr_loop n b2 (ch\<lparr>ch_sn := sn\<rparr>)))
       else rbind (zstr_buf_cmp key (cstr (str_u8 ''req''))) (\<lambda>is_req.
         if is_req = 0 then rbind (ztlv_get_bool True b1) (\<lambda>(v, b2). (case v of
             None \<Rightarrow> Inr (False, ch, b2)
           | Some r \<Rightarrow> common_hdr_loop n b2 (ch\<lparr>ch_req := r\<rparr>)))
         else rbind (zstr_buf_cmp key (cstr (str_u8 ''noti''))) (\<lambda>is_noti.
           if is_noti = 0 then rbind (ztlv_get_bool True b1) (\<lambda>(v, b2). (case v of
               None \<Rightarrow> Inr (False, ch, b2)
             | Some r \<Rightarrow> common_hdr_loop n b2 (ch\<lparr>ch_noti := r\<rparr>)))
           else rbind (ztlv_get_ignore b1) (\<lambda>(_, b2). common_hdr_loop n b2 ch)))))"

definition zipc_parse_common_hdr :: "zbufp \<Rightarrow> (bool \<times> zIPCMsgCH \<times> zbufp) res" where
  "zipc_parse_common_hdr ibuf = (let ch = \<lparr>ch_sn = 0, ch_req = False, ch_noti = False\<rparr> in
     rbind (ztlv_get_len ibuf) (\<lambda>(ok, cnt, b1).
       if \<not> ok then Inr (False, ch, b1) else common_hdr_loop (unat cnt) b1 ch))"

section \<open>Writing replies\<close>

definition zipc_parse_init_buf :: "realloc_fn \<Rightarrow> zbufp \<Rightarrow> u16 \<Rightarrow> zbufp res" where
  "zipc_parse_init_buf ra buf appType = rbind (deref buf) (\<lambda>b.
     let hdr = \<lparr>mh_signature = htons s_zipc_sig, mh_version = 0, mh_appType = htons appType, mh_payloadSize = 0\<rparr> in
     rbind (zcrt_buf_append ra (Some (b\<lparr>zb_offset := 0\<rparr>)) (Some (hdr_bytes hdr), 0) ZIPC_HEAD_LEN) (\<lambda>(_, buf1). Inr buf1))"

text \<open>The writers' results are not looked at; each is followed by the next.\<close>

definition next_put :: "(bool \<times> zbufp) res \<Rightarrow> (zbufp \<Rightarrow> (bool \<times> zbufp) res) \<Rightarrow> (bool \<times> zbufp) res" where
  "next_put m f = rbind m (\<lambda>(_, v). f v)"

definition put_name :: "realloc_fn \<Rightarrow> string \<Rightarrow> zbufp \<Rightarrow> (bool \<times> zbufp) res" where
  "put_name ra s buf = ztlv_put_string ra buf (cstr (str_u8 s))"

definition zipc_parse_put_reply_commonhdr :: "realloc_fn \<Rightarrow> zbufp \<Rightarrow> zIPCMsgCH \<Rightarrow> bool \<Rightarrow> (bool \<times> zbufp) res" where
  "zipc_parse_put_reply_commonhdr ra buf ch req =
     next_put (ztlv_put_len ra buf 2) (\<lambda>b1. next_put (put_name ra ''sn'' b1) (\<lambda>b2.
     next_put (ztlv_put_uint32 ra b2 (ch_sn ch)) (\<lambda>b3. next_put (put_name ra ''req'' b3) (\<lambda>b4.
       ztlv_put_bool ra b4 req))))"

definition zipc_parse_put_reply_errcode :: "realloc_fn \<Rightarrow> zbufp \<Rightarrow> EZCRTErr \<Rightarrow> (bool \<times> zbufp) res" where
  "zipc_parse_put_reply_errcode ra buf err =
     next_put (ztlv_put_len ra buf 1) (\<lambda>b1. next_put (put_name ra ''err'' b1) (\<lambda>b2.
       ztlv_put_int ra b2 (err_word err)))"

definition zipc_parse_put_reply_req_result :: "realloc_fn \<Rightarrow> zbufp \<Rightarrow> s32 \<Rightarrow> (bool \<times> zbufp) res" where
  "zipc_parse_put_reply_req_result ra buf cnt =
     next_put (ztlv_put_len ra buf 1) (\<lambda>b1. next_put (put_name ra ''ret'' b1) (\<lambda>b2.
       ztlv_put_table_cnt ra b2 cnt))"

definition zcrt_unique_id :: "counter_fn \<Rightarrow> s32 \<Rightarrow> u32 \<times> s32" where
  "zcrt_unique_id inc s_uniqueid = inc s_uniqueid"

definition zipc_encode_common_hdr :: "counter_fn \<Rightarrow> realloc_fn \<Rightarrow> zbufp \<Rightarrow> bool \<Rightarrow> bool \<Rightarrow> s32 \<Rightarrow> (s32 \<times> bool \<times> zbufp) res" where
  "zipc_encode_common_hdr inc ra buf req noti s_uniqueid = (let (uid, s_uniqueid1) = zcrt_unique_id inc s_uniqueid in
     rbind (next_put (ztlv_put_len ra buf 3) (\<lambda>b1. next_put (put_name ra ''sn'' b1) (\<lambda>b2.
            next_put (ztlv_put_uint32 ra b2 uid) (\<lambda>b3. next_put (put_name ra ''req'' b3) (\<lambda>b4.
            next_put (ztlv_put_bool ra b4 req) (\<lambda>b5. next_put (put_name ra ''noti'' b5) (\<lambda>b6.
              ztlv_put_bool ra b6 noti))))))) (\<lambda>(ok, b7). Inr (s_uniqueid1, ok, b7)))"

text \<open>The encoder of the application: the event, its data and the buffer, giving 0 when it succeeded.\<close>

type_synonym encode_fn = "ptr \<Rightarrow> u32 \<Rightarrow> ptr \<Rightarrow> zbufp \<Rightarrow> (s32 \<times> zbufp) res"

text \<open>\<^verbatim>\<open>rhdr = (ZIPCMsgHdr_t)buf->buf; rhdr->payloadSize = htonl(buf->len-ZIPC_HEAD_LEN);\<close>\<close>

definition set_payload_size :: "zbufp \<Rightarrow> zbufp res" where
  "set_payload_size buf = rbind (deref buf) (\<lambda>b.
     rbind (store (zb_buf b) 6 (bytes32 (htonl (zb_len b - ZIPC_HEAD_LEN)))) (\<lambda>blk. Inr (Some (b\<lparr>zb_buf := Some blk\<rparr>))))"

definition zipc_encode_event ::
  "counter_fn \<Rightarrow> encode_fn \<Rightarrow> realloc_fn \<Rightarrow> zIPCModule option \<Rightarrow> u32 \<Rightarrow> ptr \<Rightarrow> zbufp \<Rightarrow> s32 \<Rightarrow> (EZCRTErr \<times> zbufp \<times> s32) res" where
  "zipc_encode_event inc enc ra module evtid evtdata buf s_uniqueid = (case zipc_server_get_event_encode module of
     None \<Rightarrow> Inr (EZCRTErr_ipcNotSupport, buf, s_uniqueid)
   | Some fn \<Rightarrow>
       rbind (zipc_parse_init_buf ra buf (zeipc_code ZEIPC_TYPE_LINK)) (\<lambda>b1.
       rbind (zipc_encode_common_hdr inc ra b1 False True s_uniqueid) (\<lambda>(uid, _, b2).
       rbind (next_put (ztlv_put_len ra b2 2) (\<lambda>b3. next_put (ztlv_put_int ra b3 1) (\<lambda>b4.
              next_put (ztlv_put_uint32 ra b4 evtid) (\<lambda>b5. ztlv_put_int ra b5 2)))) (\<lambda>(_, b6).
       rbind (enc fn evtid evtdata b6) (\<lambda>(r, b7).
         if r = 0 then rbind (set_payload_size b7) (\<lambda>b8. Inr (EZCRTErr_success, b8, uid))
         else Inr (EZCRTErr_ipcNotSupport, b7, uid))))))"

section \<open>Requests\<close>

text \<open>
  What a call does: it is given its component and the two buffers, and may use the component heap and the
  rest of the program's state.
\<close>

type_synonym 'w ipc_call =
  "ptr \<Rightarrow> addr \<Rightarrow> zbufp \<Rightarrow> zbufp \<Rightarrow> zIpcHeap \<times> 'w \<Rightarrow> (EZCRTErr \<times> zbufp \<times> zbufp \<times> zIpcHeap \<times> 'w) res"

definition zipc_comp_call ::
  "'w ipc_call \<Rightarrow> addr option \<Rightarrow> zstr option \<Rightarrow> zbufp \<Rightarrow> zbufp \<Rightarrow> zIpcHeap \<times> 'w \<Rightarrow>
     (EZCRTErr \<times> zbufp \<times> zbufp \<times> zIpcHeap \<times> 'w) res" where
  "zipc_comp_call run_call cptr action ibuf obuf w = (case (cptr, action) of
     (Some c, Some act) \<Rightarrow>
       rbind (deref (ix_comp (fst w) c)) (\<lambda>cn.
       rbind (zipc_parase_lookup_comp (ix_node (fst w)) (cp_apilist cn) (zs_ptr act) (zs_len act)) (\<lambda>api. (case api of
         None \<Rightarrow> Inr (EZCRTErr_ipcNoAct, ibuf, obuf, w)
       | Some a \<Rightarrow> rbind (deref (ix_comp (fst w) a)) (\<lambda>an. (case cp_call an of
           None \<Rightarrow> Inr (EZCRTErr_ipcNoAct, ibuf, obuf, w)
         | Some f \<Rightarrow> run_call f c ibuf obuf w)))))
   | _ \<Rightarrow> Inr (EZCRTErr_paramErr, ibuf, obuf, w))"

text \<open>The two names of a body; \<^verbatim>\<open>!ztlv_get_string(...) || len >= ZCRT_NAME_LEN\<close> is an error.\<close>

definition zipc_parse_body_info :: "zbufp \<Rightarrow> (EZCRTErr \<times> zstr \<times> zstr \<times> zbufp) res" where
  "zipc_parse_body_info ibuf =
     rbind (ztlv_get_len ibuf) (\<lambda>(ok, idx, b1).
     if \<not> ok then Inr (EZCRTErr_ipcBodyErr, no_str, no_str, b1)
     else if idx < 3 then Inr (EZCRTErr_ipcBodyErr, no_str, no_str, b1)
     else rbind (ztlv_get_int b1) (\<lambda>(i1, b2).
     if i1 = None then Inr (EZCRTErr_ipcBodyErr, no_str, no_str, b2)
     else rbind (ztlv_get_string b2 no_str) (\<lambda>(ok2, compname, b3).
     if \<not> ok2 \<or> unat (zs_len compname) \<ge> ZCRT_NAME_LEN then Inr (EZCRTErr_ipcBodyErr, compname, no_str, b3)
     else rbind (ztlv_get_int b3) (\<lambda>(i2, b4).
     if i2 = None then Inr (EZCRTErr_ipcBodyErr, compname, no_str, b4)
     else rbind (ztlv_get_string b4 no_str) (\<lambda>(ok3, action, b5).
     if \<not> ok3 \<or> unat (zs_len action) \<ge> ZCRT_NAME_LEN then Inr (EZCRTErr_ipcBodyErr, compname, action, b5)
     else Inr (EZCRTErr_success, compname, action, b5))))))"

definition zipc_parse_request ::
  "'w ipc_call \<Rightarrow> zIPCModule option \<Rightarrow> zbufp \<Rightarrow> zbufp \<Rightarrow> zIpcHeap \<times> 'w \<Rightarrow>
     (EZCRTErr \<times> zbufp \<times> zbufp \<times> zIpcHeap \<times> 'w) res" where
  "zipc_parse_request run_call module ibuf obuf w =
     rbind (deref module) (\<lambda>ipc.
     rbind (zipc_parse_body_info ibuf) (\<lambda>(ret, compname, action, b1).
     if ret \<noteq> EZCRTErr_success then Inr (ret, b1, obuf, w)
     else rbind (zipc_parase_lookup_comp (ix_node (fst w)) (im_modlist ipc) (zs_ptr compname) (zs_len compname)) (\<lambda>c.
     if c = None then Inr (EZCRTErr_ipcNoModule, b1, obuf, w)
     else rbind (ztlv_get_int b1) (\<lambda>(idx, b2).
     if idx = None then Inr (EZCRTErr_ipcBodyErr, b2, obuf, w)
     else rbind (ztlv_get_type b2) (\<lambda>(ty, b3).
     if ty \<noteq> ZTLV_TABLE then Inr (EZCRTErr_ipcArgsErr, b3, obuf, w)
     else zipc_comp_call run_call c (Some action) b3 obuf w)))))"

definition zipc_parse_app_default ::
  "'w ipc_call \<Rightarrow> realloc_fn \<Rightarrow> zIPCModule option \<Rightarrow> zbufp \<Rightarrow> zbufp \<Rightarrow> zIpcHeap \<times> 'w \<Rightarrow>
     (EZCRTErr \<times> zbufp \<times> zbufp \<times> zIpcHeap \<times> 'w) res" where
  "zipc_parse_app_default run_call ra module ibuf obuf w =
     rbind (zipc_parse_common_hdr ibuf) (\<lambda>(ok, ch, b1).
     if \<not> ok then Inr (EZCRTErr_ipcCommonHdrErr, b1, obuf, w)
     else if ch_req ch then
       rbind (zipc_parse_init_buf ra obuf (zeipc_code ZEIPC_TYPE_DEFAULT)) (\<lambda>o1.
       rbind (zipc_parse_put_reply_commonhdr ra o1 ch True) (\<lambda>(_, o2).
       rbind (zipc_parse_request run_call module b1 o2 w) (\<lambda>(ret, b2, o3, w1).
       if ret \<noteq> EZCRTErr_success
       then rbind (zipc_parse_put_reply_errcode ra o3 ret) (\<lambda>(_, o4). Inr (ret, b2, o4, w1))
       else Inr (ret, b2, o3, w1))))
     else Inr (EZCRTErr_ipcNotSupport, b1, obuf, w))"

definition zipc_parse_payload ::
  "'w ipc_call \<Rightarrow> realloc_fn \<Rightarrow> zIPCModule option \<Rightarrow> u16 \<Rightarrow> zbufp \<Rightarrow> zbufp \<Rightarrow> zIpcHeap \<times> 'w \<Rightarrow>
     (EZCRTErr \<times> zbufp \<times> zbufp \<times> zIpcHeap \<times> 'w) res" where
  "zipc_parse_payload run_call ra module appType ibuf obuf w =
     (if appType = zeipc_code ZEIPC_TYPE_DEFAULT then zipc_parse_app_default run_call ra module ibuf obuf w
      else Inr (EZCRTErr_ipcNotSupport, ibuf, obuf, w))"

section \<open>Event hooks\<close>

definition zipc_link_parase_eventid :: "zbufp \<Rightarrow> u32 \<Rightarrow> (EZCRTErr \<times> u32 \<times> zbufp) res" where
  "zipc_link_parase_eventid ibuf evtid =
     rbind (ztlv_get_int ibuf) (\<lambda>(i1, b1).
     if i1 = None then Inr (EZCRTErr_ipcBodyErr, evtid, b1)
     else rbind (ztlv_get_type b1) (\<lambda>(ty, b2).
     if ty \<noteq> ZTLV_TABLE then Inr (EZCRTErr_ipcArgsErr, evtid, b2)
     else rbind (ztlv_get_len b2) (\<lambda>(ok, _, b3).
     if \<not> ok then Inr (EZCRTErr_ipcTLVErr, evtid, b3)
     else rbind (ztlv_get_int b3) (\<lambda>(i2, b4).
     if i2 = None then Inr (EZCRTErr_ipcTLVErr, evtid, b4)
     else rbind (ztlv_get_uint32 b4) (\<lambda>(e, b5). (case e of
       None \<Rightarrow> Inr (EZCRTErr_ipcTLVErr, evtid, b5)
     | Some evtid1 \<Rightarrow> Inr (EZCRTErr_success, evtid1, b5)))))))"

text \<open>
  The body of the \<^verbatim>\<open>do ... while (idx != 0)\<close> of \<^verbatim>\<open>zipc_parse_app_link\<close>, which is
  run once (\<^verbatim>\<open>idx\<close> is 0 at its end), with its \<^verbatim>\<open>break\<close>s as early results. \<^verbatim>\<open>new\<close>
  is the node \<^verbatim>\<open>malloc\<close> gives for a subscription. What registering returns is not looked at.
\<close>

definition link_action ::
  "addr option \<Rightarrow> zIPCModule option \<Rightarrow> zEvent option \<Rightarrow> zstr \<Rightarrow> zbufp \<Rightarrow> ptr option \<Rightarrow> ptr \<Rightarrow> ptr \<Rightarrow>
     (EZCRTErr \<times> zbufp \<times> zEvent option) res" where
  "link_action new module mng action ibuf cb p1 p2 =
     rbind (zstr_buf_cmp action (cstr (str_u8 ''_hookevt''))) (\<lambda>is_hook.
     if is_hook = 0 then
       (if zipc_server_get_event_encode module = None then Inr (EZCRTErr_ipcNotSupport, ibuf, mng)
        else rbind (zipc_link_parase_eventid ibuf 0) (\<lambda>(ret, evtid, b1).
          if ret \<noteq> EZCRTErr_success \<or> evtid = 0 then Inr (ret, b1, mng)
          else rbind (zcrt_event_register_ex new mng 10 evtid EZCRTEvtType_local cb p1 p2) (\<lambda>(_, mng1).
            Inr (ret, b1, mng1))))
     else rbind (zstr_buf_cmp action (cstr (str_u8 ''_unhookevt''))) (\<lambda>is_unhook.
     if is_unhook = 0 then
       rbind (zipc_link_parase_eventid ibuf 0) (\<lambda>(ret, evtid, b1).
         if ret \<noteq> EZCRTErr_success \<or> evtid = 0 then Inr (ret, b1, mng)
         else rbind (zcrt_event_unregister mng evtid cb p1 p2) (\<lambda>mng1. Inr (ret, b1, mng1)))
     else Inr (EZCRTErr_success, ibuf, mng)))"

definition zipc_parse_app_link ::
  "addr option \<Rightarrow> realloc_fn \<Rightarrow> zIPCModule option \<Rightarrow> zEvent option \<Rightarrow> zbufp \<Rightarrow> zbufp \<Rightarrow> ptr option \<Rightarrow> ptr \<Rightarrow> ptr \<Rightarrow>
     (EZCRTErr \<times> zbufp \<times> zbufp \<times> zEvent option) res" where
  "zipc_parse_app_link new ra module mng ibuf obuf cb p1 p2 =
     rbind (zipc_parse_common_hdr ibuf) (\<lambda>(ok, ch, b1).
     if \<not> ok then Inr (EZCRTErr_ipcCommonHdrErr, b1, obuf, mng)
     else rbind (rbind (zipc_parse_body_info b1) (\<lambda>(ret, _, action, b2).
         if ret \<noteq> EZCRTErr_success then Inr (ret, b2, obuf, mng)
         else rbind (zipc_parse_init_buf ra obuf (zeipc_code ZEIPC_TYPE_LINK)) (\<lambda>o1.
           rbind (zipc_parse_put_reply_commonhdr ra o1 ch True) (\<lambda>(_, o2).
           rbind (link_action new module mng action b2 cb p1 p2) (\<lambda>(ret1, b3, mng1).
             Inr (ret1, b3, o2, mng1))))))
       (\<lambda>(ret, b4, o3, mng2).
         if ret \<noteq> EZCRTErr_success
         then rbind (zipc_parse_put_reply_errcode ra o3 ret) (\<lambda>(_, o4). Inr (ret, b4, o4, mng2))
         else rbind (next_put (zipc_parse_put_reply_req_result ra o3 1) (\<lambda>o4.
                next_put (ztlv_put_int ra o4 1) (\<lambda>o5. ztlv_put_uint32 ra o5 1))) (\<lambda>(_, o6).
              Inr (ret, b4, o6, mng2))))"

section \<open>The buffer pool\<close>

text \<open>
  Buffers live in a heap; \<^verbatim>\<open>new\<close> and \<^verbatim>\<open>mok\<close> are what \<^verbatim>\<open>malloc\<close> gives for a
  buffer and for its bytes.
\<close>

definition zipc_buf_malloc ::
  "addr option \<Rightarrow> bool \<Rightarrow> zIPCModule option \<Rightarrow> zbuf heap \<Rightarrow> (addr option \<times> zIPCModule option \<times> zbuf heap) res" where
  "zipc_buf_malloc new mok zipc h = (case zipc of
     None \<Rightarrow> Inr (None, None, h)
   | Some ipc \<Rightarrow> (case im_freebuf ipc of
       Some a \<Rightarrow> rbind (deref (h a)) (\<lambda>b.
         Inr (Some a, Some (ipc\<lparr>im_freebuf := zb_next b\<rparr>), h(a \<mapsto> the (zcrt_buf_clear (Some b)))))
     | None \<Rightarrow> (case new of
         None \<Rightarrow> Inr (None, Some ipc, h)
       | Some a \<Rightarrow> rbind (deref (zcrt_buf_clear (zcrt_buf_init mok (Some zbuf_zero) ZIPC_BUF_LEN (ZCRT_MAKE_FOURCC 90 73 80 67)))) (\<lambda>b.
           Inr (Some a, Some ipc, h(a \<mapsto> b))))))"

definition zipc_buf_free ::
  "zIPCModule option \<Rightarrow> addr option \<Rightarrow> zbuf heap \<Rightarrow> (zIPCModule option \<times> zbuf heap) res" where
  "zipc_buf_free zipc buf h = (case (zipc, buf) of
     (Some ipc, Some a) \<Rightarrow> rbind (deref (h a)) (\<lambda>b.
       Inr (Some (ipc\<lparr>im_freebuf := Some a\<rparr>), h(a \<mapsto> b\<lparr>zb_next := im_freebuf ipc\<rparr>)))
   | _ \<Rightarrow> rbind (zassert False) (\<lambda>_. Inr (zipc, h)))"

section \<open>Headers on the wire\<close>

lemma htons_htons [simp]: "htons (htons v) = v"
  by (rule bit_word_eqI) (auto simp: htons_def bit_simps)

lemma word16_bytes16: "bytes16 v = [a, b] \<Longrightarrow> word16 a b = v"
  by (rule bit_word_eqI) (auto simp: bytes16_def word16_def bit_simps dest: bit_imp_le_length)

lemma word32_bytes32:
  assumes "bytes32 v = [a, b, c, d]" shows "word32 a b c d = v"
proof (rule bit_word_eqI)
  fix n assume "n < LENGTH(32)"
  then have "n < 8 \<or> 8 \<le> n \<and> n < 16 \<or> 16 \<le> n \<and> n < 24 \<or> 24 \<le> n \<and> n < 32" by auto
  then show "bit (word32 a b c d) n = bit v n"
    using assms by (elim disjE) (auto simp: bytes32_def word32_def bit_simps)
qed

lemma word32_sel: "(ucast (word32 a b c d) :: u8) = a" "(ucast (drop_bit 8 (word32 a b c d)) :: u8) = b"
  "(ucast (drop_bit 16 (word32 a b c d)) :: u8) = c" "(ucast (drop_bit 24 (word32 a b c d)) :: u8) = d"
  by (rule bit_word_eqI; auto simp: word32_def bit_simps dest: bit_imp_le_length)+

lemma htonl_htonl [simp]: "htonl (htonl v) = v"
  unfolding htonl_def word32_sel by (rule word32_bytes32) (simp add: bytes32_def)

lemma hdr_of_hdr_bytes: "hdr_of_bytes (hdr_bytes h @ rest) = Some h"
proof -
  have "word16 (ucast v) (ucast (drop_bit 8 v)) = v" for v
    by (rule word16_bytes16) (simp add: bytes16_def)
  moreover have "word32 (ucast v) (ucast (drop_bit 8 v)) (ucast (drop_bit 16 v)) (ucast (drop_bit 24 v)) = v" for v
    by (rule word32_bytes32) (simp add: bytes32_def)
  ultimately show ?thesis by (simp add: hdr_bytes_def bytes16_def bytes32_def)
qed

lemma length_hdr_bytes [simp]: "length (hdr_bytes h) = 10"
  by (simp add: hdr_bytes_def bytes16_def bytes32_def)

definition msg_hdr :: "ZEIPC_TYPE \<Rightarrow> u32 \<Rightarrow> zIPCMsgHdr" where
  "msg_hdr ty n = \<lparr>mh_signature = htons s_zipc_sig, mh_version = 0, mh_appType = htons (zeipc_code ty),
     mh_payloadSize = htonl n\<rparr>"

lemma check_msg_hdr: "zipc_parse_check_hdr (msg_hdr ty n)"
  by (simp add: zipc_parse_check_hdr_def msg_hdr_def)

section \<open>The fields of a common header\<close>

text \<open>
  What the loop computes on well-formed input: the fields are applied one after the other, so that the
  last of several fields of one name counts.
\<close>

datatype ch_field = F_sn u32 | F_req bool | F_noti bool

fun enc_field :: "ch_field \<Rightarrow> u8 list" where
  "enc_field (F_sn v) = enc_str (str_u8 ''sn'') @ enc_uint32 v"
| "enc_field (F_req v) = enc_str (str_u8 ''req'') @ enc_bool v"
| "enc_field (F_noti v) = enc_str (str_u8 ''noti'') @ enc_bool v"

fun apply_field :: "ch_field \<Rightarrow> zIPCMsgCH \<Rightarrow> zIPCMsgCH" where
  "apply_field (F_sn v) ch = ch\<lparr>ch_sn := v\<rparr>"
| "apply_field (F_req v) ch = ch\<lparr>ch_req := v\<rparr>"
| "apply_field (F_noti v) ch = ch\<lparr>ch_noti := v\<rparr>"

definition ch_zero :: zIPCMsgCH where
  "ch_zero = \<lparr>ch_sn = 0, ch_req = False, ch_noti = False\<rparr>"

definition enc_fields :: "ch_field list \<Rightarrow> u8 list" where
  "enc_fields fs = concat (map enc_field fs)"

definition enc_ch :: "ch_field list \<Rightarrow> u8 list" where
  "enc_ch fs = varint_bytes (length fs) @ enc_fields fs"

lemma ch_names: "0 \<notin> set (str_u8 ''sn'')" "0 \<notin> set (str_u8 ''req'')" "0 \<notin> set (str_u8 ''noti'')"
  "0 \<notin> set (str_u8 ''err'')" "0 \<notin> set (str_u8 ''ret'')" "0 \<notin> set (str_u8 ''_hookevt'')" "0 \<notin> set (str_u8 ''_unhookevt'')"
  "str_u8 ''sn'' = [115, 110]" "str_u8 ''req'' = [114, 101, 113]" "str_u8 ''noti'' = [110, 111, 116, 105]"
  "str_u8 ''err'' = [101, 114, 114]" "str_u8 ''ret'' = [114, 101, 116]"
  by (simp_all add: str_u8_def)

text \<open>Comparing a string that was read with a name.\<close>

lemma cmp_name:
  assumes "load_n (zs_ptr s) (unat (zs_len s)) = Inr bs" "0 \<notin> set nm" "length nm < 100"
  shows "\<exists>r. zstr_buf_cmp s (cstr nm) = Inr r \<and> (r = 0 \<longleftrightarrow> bs = nm)"
  using zstr_buf_cmp_name [OF assms(1,2)] assms(3) by simp

lemma name_cases:
  assumes s: "load_n (zs_ptr s) (unat (zs_len s)) = Inr bs"
  obtains r1 r2 r3 where "zstr_buf_cmp s (cstr (str_u8 ''sn'')) = Inr r1" "zstr_buf_cmp s (cstr (str_u8 ''req'')) = Inr r2"
    "zstr_buf_cmp s (cstr (str_u8 ''noti'')) = Inr r3" "r1 = 0 \<longleftrightarrow> bs = str_u8 ''sn''" "r2 = 0 \<longleftrightarrow> bs = str_u8 ''req''"
    "r3 = 0 \<longleftrightarrow> bs = str_u8 ''noti''"
  using cmp_name [OF s ch_names(1)] cmp_name [OF s ch_names(2)] cmp_name [OF s ch_names(3)] by (auto simp: ch_names)

text \<open>After a prefix has been read, the buffer still reads on.\<close>

lemma read_on:
  assumes "buf_wf b" "unat (zb_len b) < 2 ^ 31" "unread b = xs @ ys"
  shows "buf_wf (adv b (length xs))" "unat (zb_len (adv b (length xs))) < 2 ^ 31" "unread (adv b (length xs)) = ys"
  using assms unread_adv [OF assms(1,3)] by simp_all

lemma common_hdr_loop_fields:
  assumes "buf_wf b" "unat (zb_len b) < 2 ^ 31" "unread b = enc_fields fs @ rest"
  shows "common_hdr_loop (length fs) (Some b) ch =
    Inr (True, fold apply_field fs ch, Some (adv b (length (enc_fields fs))))"
  using assms
proof (induction fs arbitrary: b ch)
  case Nil
  then show ?case by (simp add: enc_fields_def)
next
  case (Cons f fs)
  note b = Cons.prems(1,2)
  have u: "unread b = enc_field f @ enc_fields fs @ rest" using Cons.prems(3) by (simp add: enc_fields_def)
  have IH: "common_hdr_loop (length fs) (Some (adv b (length (enc_field f)))) ch1 =
      Inr (True, fold apply_field fs ch1, Some (adv b (length (enc_fields (f # fs)))))" for ch1
    using Cons.IH [OF read_on [OF b u]] by (simp add: enc_fields_def)
  show ?case
  proof (cases f)
    case (F_sn v)
    let ?n = "enc_str (str_u8 ''sn'')"
    have u1: "unread b = ?n @ enc_uint32 v @ enc_fields fs @ rest" using u F_sn by simp
    obtain s where s: "ztlv_get_string (Some b) no_str = Inr (True, s, Some (adv b (length ?n)))"
      "load_n (zs_ptr s) (unat (zs_len s)) = Inr (str_u8 ''sn'')" using get_string_unread [OF b u1] by metis
    have "ztlv_get_int (Some (adv b (length ?n))) = Inr (Some v, Some (adv b (length (enc_field f))))"
      using getsD [OF uint32_codec.get_law read_on [OF b u1]] F_sn by (simp add: ztlv_get_uint32_def)
    then show ?thesis using s IH F_sn by (auto intro: name_cases [OF s(2)] simp: ch_names)
  next
    case (F_req v)
    let ?n = "enc_str (str_u8 ''req'')"
    have u1: "unread b = ?n @ enc_bool v @ enc_fields fs @ rest" using u F_req by simp
    obtain s where s: "ztlv_get_string (Some b) no_str = Inr (True, s, Some (adv b (length ?n)))"
      "load_n (zs_ptr s) (unat (zs_len s)) = Inr (str_u8 ''req'')" using get_string_unread [OF b u1] by metis
    have "ztlv_get_bool True (Some (adv b (length ?n))) = Inr (Some v, Some (adv b (length (enc_field f))))"
      using getsD [OF bool_codec.get_law read_on [OF b u1]] F_req by simp
    then show ?thesis using s IH F_req by (auto intro: name_cases [OF s(2)] simp: ch_names)
  next
    case (F_noti v)
    let ?n = "enc_str (str_u8 ''noti'')"
    have u1: "unread b = ?n @ enc_bool v @ enc_fields fs @ rest" using u F_noti by simp
    obtain s where s: "ztlv_get_string (Some b) no_str = Inr (True, s, Some (adv b (length ?n)))"
      "load_n (zs_ptr s) (unat (zs_len s)) = Inr (str_u8 ''noti'')" using get_string_unread [OF b u1] by metis
    have "ztlv_get_bool True (Some (adv b (length ?n))) = Inr (Some v, Some (adv b (length (enc_field f))))"
      using getsD [OF bool_codec.get_law read_on [OF b u1]] F_noti by simp
    then show ?thesis using s IH F_noti by (auto intro: name_cases [OF s(2)] simp: ch_names)
  qed
qed

lemma common_hdr_unread:
  assumes b: "buf_wf b" "unat (zb_len b) < 2 ^ 31" "unread b = enc_ch fs @ rest" and n: "length fs < 2 ^ 32"
  shows "zipc_parse_common_hdr (Some b) = Inr (True, fold apply_field fs ch_zero, Some (adv b (length (enc_ch fs))))"
proof -
  have un: "unat (of_nat (length fs) :: u32) = length fs" using n by (intro unat_of_nat_u32_small) simp
  have u: "unread b = varint_bytes (unat (of_nat (length fs) :: u32)) @ enc_fields fs @ rest"
    using b(3) un by (simp add: enc_ch_def)
  show ?thesis
    using get_len_unread [OF b(1,2) u] common_hdr_loop_fields [OF read_on [OF b(1,2) u]] un
    by (simp add: zipc_parse_common_hdr_def ch_zero_def enc_ch_def)
qed

section \<open>What the writers write\<close>

lemma next_put_puts [intro]:
  "puts f xs \<Longrightarrow> (puts g ys) \<Longrightarrow> puts (\<lambda>v. next_put (f v) g) (xs @ ys)"
  using puts_then [of f xs g ys] by (simp add: next_put_def)

lemma put_name_puts:
  assumes "realloc_total ra" "0 \<notin> set (str_u8 s)" "length (str_u8 s) < 100"
  shows "puts (\<lambda>v. put_name ra s v) (enc_str (str_u8 s))"
proof -
  have n: "unat (of_nat (length (str_u8 s)) :: u32) = length (str_u8 s)" using assms(3) by (intro unat_of_nat_u32_small) simp
  have "puts (\<lambda>v. ztlv_put_lstring ra v (cstr (str_u8 s)) (of_nat (length (str_u8 s)))) (enc_str (str_u8 s))"
    by (rule put_lstring_puts [OF assms(1)]) (simp_all add: n load_cstr, simp add: cstr_def)
  moreover have "cstr (str_u8 s) \<noteq> null_ptr" by (simp add: cstr_def)
  ultimately show ?thesis by (simp add: put_name_def ztlv_put_string_def strlen_cstr [OF assms(2)])
qed

lemma small_count: "n < 100 \<Longrightarrow> varint_bytes n = [of_nat n]"
  by (rule varint_bytes_small) simp

text \<open>The bytes of a reply's common header, of an error entry and of a result entry.\<close>

definition enc_reply_ch :: "u32 \<Rightarrow> bool \<Rightarrow> u8 list" where
  "enc_reply_ch sn req = enc_ch [F_sn sn, F_req req]"

definition enc_err :: "EZCRTErr \<Rightarrow> u8 list" where
  "enc_err e = [1] @ enc_str (str_u8 ''err'') @ enc_int (err_word e)"

lemma put_len_small:
  assumes "realloc_total ra" "unat n < 100"
  shows "puts (\<lambda>v. ztlv_put_len ra v n) [of_nat (unat n)]"
  using put_len_puts [OF assms(1), of n] assms(2) by (simp only: small_count)

lemma reply_commonhdr_puts:
  assumes "realloc_total ra"
  shows "puts (\<lambda>v. zipc_parse_put_reply_commonhdr ra v ch req) (enc_reply_ch (ch_sn ch) req)"
proof -
  have "puts (\<lambda>v. zipc_parse_put_reply_commonhdr ra v ch req)
      ([of_nat (unat (2 :: u32))] @ enc_str (str_u8 ''sn'') @ enc_uint32 (ch_sn ch) @ enc_str (str_u8 ''req'') @ enc_bool req)"
    unfolding zipc_parse_put_reply_commonhdr_def
    by (intro next_put_puts put_len_small put_name_puts uint32_codec.put_law bool_codec.put_law assms) (simp_all add: ch_names)
  then show ?thesis by (simp add: enc_reply_ch_def enc_ch_def enc_fields_def small_count)
qed

lemma reply_errcode_puts:
  assumes "realloc_total ra"
  shows "puts (\<lambda>v. zipc_parse_put_reply_errcode ra v e) (enc_err e)"
proof -
  have "puts (\<lambda>v. zipc_parse_put_reply_errcode ra v e) ([of_nat (unat (1 :: u32))] @ enc_str (str_u8 ''err'') @ enc_int (err_word e))"
    unfolding zipc_parse_put_reply_errcode_def
    by (intro next_put_puts put_len_small put_name_puts int_codec.put_law assms) (simp_all add: ch_names)
  then show ?thesis by (simp add: enc_err_def)
qed

lemma encode_common_hdr_puts:
  assumes "realloc_total ra"
  shows "puts (\<lambda>v. rbind (zipc_encode_common_hdr inc ra v req noti uid) (\<lambda>(_, r). Inr r))
    (enc_ch [F_sn (fst (inc uid)), F_req req, F_noti noti])"
proof -
  have "puts (\<lambda>v. next_put (ztlv_put_len ra v 3) (\<lambda>b1. next_put (put_name ra ''sn'' b1) (\<lambda>b2.
      next_put (ztlv_put_uint32 ra b2 (fst (inc uid))) (\<lambda>b3. next_put (put_name ra ''req'' b3) (\<lambda>b4.
      next_put (ztlv_put_bool ra b4 req) (\<lambda>b5. next_put (put_name ra ''noti'' b5) (\<lambda>b6. ztlv_put_bool ra b6 noti)))))))
      ([of_nat (unat (3 :: u32))] @ enc_str (str_u8 ''sn'') @ enc_uint32 (fst (inc uid)) @ enc_str (str_u8 ''req'') @ enc_bool req @
       enc_str (str_u8 ''noti'') @ enc_bool noti)"
    by (intro next_put_puts put_len_small put_name_puts uint32_codec.put_law bool_codec.put_law assms) (simp_all add: ch_names)
  then show ?thesis
    by (simp add: zipc_encode_common_hdr_def zcrt_unique_id_def rbind_assoc split_def Let_def
        enc_ch_def enc_fields_def small_count)
qed

text \<open>Starting a message in a buffer.\<close>

lemma init_buf_spec:
  assumes b: "buf_wf b" "realloc_total ra" "unat (zb_len b) + 26 < 2 ^ 31"
  obtains b' where "zipc_parse_init_buf ra (Some b) (zeipc_code ty) = Inr (Some b')" "buf_wf b'"
    "contents b' = contents b @ hdr_bytes (msg_hdr ty 0)" "zb_offset b' = 0" "unat (zb_len b') = unat (zb_len b) + 10"
proof -
  let ?b = "b\<lparr>zb_offset := 0\<rparr>" and ?h = "hdr_bytes (msg_hdr ty 0)"
  have wf: "buf_wf ?b" and c: "contents ?b = contents b" using b(1) by (simp_all add: buf_wf_def contents_def)
  have l: "load_n (Some ?h, 0) (unat ZIPC_HEAD_LEN) = Inr ?h" by (simp add: load_n_def ZIPC_HEAD_LEN_def)
  have "unat (zb_len ?b) + unat ZIPC_HEAD_LEN + 1 < 2 ^ 31" using b(3) by (simp add: ZIPC_HEAD_LEN_def)
  from append_spec [OF wf b(2) l this]
  obtain b' where "zcrt_buf_append ra (Some ?b) (Some ?h, 0) ZIPC_HEAD_LEN = Inr (ZIPC_HEAD_LEN, Some b')" "buf_wf b'"
    "contents b' = contents b @ ?h" "unat (zb_len b') = unat (zb_len ?b) + unat ZIPC_HEAD_LEN" "zb_offset b' = zb_offset ?b"
    unfolding c by metis
  moreover have "htonl 0 = 0" by (simp add: htonl_def word32_def)
  ultimately show ?thesis
    using that [of b'] by (simp add: zipc_parse_init_buf_def msg_hdr_def ZIPC_HEAD_LEN_def)
qed

text \<open>Filling in the payload size of a message that begins with a header.\<close>

lemma set_payload_spec:
  assumes b: "buf_wf b" "contents b = hdr_bytes (msg_hdr ty n) @ body"
  obtains b' where "set_payload_size (Some b) = Inr (Some b')" "buf_wf b'"
    "contents b' = hdr_bytes (msg_hdr ty (of_nat (length body))) @ body" "zb_offset b' = zb_offset b" "zb_len b' = zb_len b"
proof -
  have len: "unat (zb_len b) = 10 + length body" using length_contents [OF b(1)] b(2) by simp
  then have "of_nat (unat (zb_len b)) = (of_nat (10 + length body) :: u32)" by simp
  then have sz: "zb_len b - ZIPC_HEAD_LEN = of_nat (length body)" by (simp add: ZIPC_HEAD_LEN_def)
  obtain blk where blk: "zb_buf b = Some blk" "10 + length body \<le> length blk"
    using buf_wf_len_cap [OF b(1)] len by (cases "zb_buf b") auto
  let ?s = "bytes32 (htonl (of_nat (length body)))"
  let ?blk = "take 6 blk @ ?s @ drop 10 blk"
  have st: "store (Some blk) 6 ?s = Inr ?blk" using blk by (simp add: store_Some bytes32_def)
  have tk: "take (10 + length body) blk = hdr_bytes (msg_hdr ty n) @ body" using b(2) blk len by (simp add: contents_def)
  have t6: "take 6 blk = take 6 (hdr_bytes (msg_hdr ty n))" using arg_cong [OF tk, of "take 6"] by (simp add: min_def)
  have d10: "take (length body) (drop 10 blk) = body"
    using arg_cong [OF tk, of "drop 10"] by (simp add: drop_take)
  have h: "hdr_bytes (msg_hdr ty (of_nat (length body))) = take 6 (hdr_bytes (msg_hdr ty n)) @ ?s"
    by (simp add: hdr_bytes_def msg_hdr_def bytes16_def)
  let ?b = "b\<lparr>zb_buf := Some ?blk\<rparr>"
  have "length ?blk = length blk" using blk(2) by (simp add: bytes32_def)
  then have "buf_wf ?b" using b(1) blk(1) by (simp add: buf_wf_def del: length_append)
  moreover have "contents ?b = hdr_bytes (msg_hdr ty (of_nat (length body))) @ body"
  proof -
    have "length ?s = 4" by (simp add: bytes32_def)
    moreover have "length (take 6 blk) = 6" using blk(2) by simp
    ultimately have "take (10 + length body) ?blk = take 6 blk @ ?s @ take (length body) (drop 10 blk)" by simp
    then show ?thesis unfolding d10 h t6 [symmetric] by (simp add: contents_def len)
  qed
  ultimately show ?thesis
    using that [of ?b] st blk(1) sz by (simp add: set_payload_size_def)
qed

section \<open>Reading requests\<close>

definition enc_names :: "u32 \<Rightarrow> s32 \<Rightarrow> u8 list \<Rightarrow> s32 \<Rightarrow> u8 list \<Rightarrow> u8 list" where
  "enc_names n i cname j aname = varint_bytes (unat n) @ enc_int i @ enc_str cname @ enc_int j @ enc_str aname"

definition reads :: "zstr \<Rightarrow> u8 list \<Rightarrow> bool" where
  "reads s nm \<longleftrightarrow> zs_len s = of_nat (length nm) \<and> load_n (zs_ptr s) (length nm) = Inr nm"

lemma get_name_unread:
  assumes b: "buf_wf b" "unat (zb_len b) < 2 ^ 31" "unread b = enc_str nm @ rest" and nm: "length nm < 64"
  obtains s where "ztlv_get_string (Some b) v = Inr (True, s, Some (adv b (length (enc_str nm))))"
    "reads s nm" "unat (zs_len s) < ZCRT_NAME_LEN"
proof -
  obtain s where s: "ztlv_get_string (Some b) v = Inr (True, s, Some (adv b (length (enc_str nm))))"
    "unat (zs_len s) = length nm" "load_n (zs_ptr s) (unat (zs_len s)) = Inr nm"
    using get_string_unread [OF b] by metis
  have "zs_len s = of_nat (length nm)" by (simp add: s(2) [symmetric])
  with that s nm show ?thesis by (simp add: reads_def ZCRT_NAME_LEN_def)
qed

lemma body_info_unread:
  assumes b: "buf_wf b" "unat (zb_len b) < 2 ^ 31" "unread b = enc_names n i cname j aname @ rest"
    and n: "3 \<le> n" "length cname < 64" "length aname < 64"
  obtains s1 s2 where "zipc_parse_body_info (Some b) =
      Inr (EZCRTErr_success, s1, s2, Some (adv b (length (enc_names n i cname j aname))))"
    "reads s1 cname" "reads s2 aname"
proof -
  let ?x1 = "varint_bytes (unat n)"
  have u1: "unread b = ?x1 @ enc_int i @ enc_str cname @ enc_int j @ enc_str aname @ rest" using b(3) by (simp add: enc_names_def)
  note r1 = read_on [OF b(1,2) u1]
  note r2 = read_on [OF r1]
  note r3 = read_on [OF r2]
  note r4 = read_on [OF r3]
  obtain s1 where s1: "ztlv_get_string (Some (adv (adv b (length ?x1)) (length (enc_int i)))) no_str =
      Inr (True, s1, Some (adv (adv (adv b (length ?x1)) (length (enc_int i))) (length (enc_str cname))))"
    "reads s1 cname" "unat (zs_len s1) < ZCRT_NAME_LEN"
    using get_name_unread [OF r2 n(2)] by metis
  obtain s2 where s2: "ztlv_get_string (Some (adv (adv (adv (adv b (length ?x1)) (length (enc_int i))) (length (enc_str cname))) (length (enc_int j)))) no_str =
      Inr (True, s2, Some (adv (adv (adv (adv (adv b (length ?x1)) (length (enc_int i))) (length (enc_str cname))) (length (enc_int j))) (length (enc_str aname))))"
    "reads s2 aname" "unat (zs_len s2) < ZCRT_NAME_LEN"
    using get_name_unread [OF r4 n(3)] by metis
  have "zipc_parse_body_info (Some b) = Inr (EZCRTErr_success, s1, s2, Some (adv b (length (enc_names n i cname j aname))))"
    using get_len_unread [OF b(1,2) u1] getsD [OF get_int_gets r1] getsD [OF get_int_gets r3] s1(1,3) s2(1,3) n(1)
    by (simp add: zipc_parse_body_info_def enc_names_def add.assoc not_le not_less)
  with that s1(2) s2(2) show ?thesis by metis
qed

lemma lookup_bytes:
  assumes q: "is_name q" "q \<noteq> []" and s: "reads s q"
  shows "zipc_parase_lookup_comp hp (Some t) (zs_ptr s) (zs_len s) = by_name hp t q"
proof -
  have p: "load_n (zs_ptr s) (length q) = Inr q" "zs_len s = of_nat (length q)" using s by (simp_all add: reads_def)
  have "zs_ptr s \<noteq> null_ptr" using p(1) q(2) by (auto simp: load_n_def)
  then show ?thesis unfolding p(2) by_name_lookup [OF q(1)] by (rule lookup_name [OF q(1) p(1)])
qed

text \<open>What a request looks like on the wire after its header.\<close>

definition enc_request :: "ch_field list \<Rightarrow> u8 list \<Rightarrow> u8 list \<Rightarrow> u8 list" where
  "enc_request fs cname aname = enc_ch fs @ enc_names 3 1 cname 2 aname @ enc_int 3 @ [ZTLV_TABLE]"

text \<open>The reply to a request up to where the call writes.\<close>

definition reply_head :: "ch_field list \<Rightarrow> u8 list" where
  "reply_head fs = hdr_bytes (msg_hdr ZEIPC_TYPE_DEFAULT 0) @ enc_reply_ch (ch_sn (fold apply_field fs ch_zero)) True"

lemma enc_int_short: "length (enc_int v) \<le> 6"
  using varint_room32 [of "zcrt_ZigZagEncode32 v"] by (simp add: enc_int_def)

lemma enc_uint32_short: "length (enc_uint32 v) \<le> 11"
  using varint_room64 [of "zcdr_Encode64 (ucast v)"] enc_int_short [of "ucast (ucast v :: s64)"]
  by (simp add: enc_uint32_def enc_int64_def)

lemma enc_reply_ch_short: "length (enc_reply_ch sn req) \<le> 30"
  using enc_uint32_short [of sn] by (simp add: enc_reply_ch_def enc_ch_def enc_fields_def ch_names enc_str_def small_count)

lemma start_reply:
  assumes ra: "realloc_total ra" and o: "buf_wf ob" "zb_len ob = 0"
  obtains o1 o2 where "zipc_parse_init_buf ra (Some ob) (zeipc_code ty) = Inr (Some o1)"
    "zipc_parse_put_reply_commonhdr ra (Some o1) ch True = Inr (True, Some o2)" "buf_wf o2" "zb_offset o2 = 0"
    "contents o2 = hdr_bytes (msg_hdr ty 0) @ enc_reply_ch (ch_sn ch) True" "unat (zb_len o2) \<le> 40"
proof -
  obtain o1 where o1: "zipc_parse_init_buf ra (Some ob) (zeipc_code ty) = Inr (Some o1)" "buf_wf o1"
    "contents o1 = contents ob @ hdr_bytes (msg_hdr ty 0)" "zb_offset o1 = 0" "unat (zb_len o1) = unat (zb_len ob) + 10"
    by (rule init_buf_spec [OF o(1) ra]) (use o(2) in simp)
  have e: "contents ob = []" using length_contents [OF o(1)] o(2) by simp
  have "unat (zb_len o1) + length (enc_reply_ch (ch_sn ch) True) + 16 < 2 ^ 31"
    using o1(5) o(2) enc_reply_ch_short [of "ch_sn ch" True] by simp
  from putsD [OF reply_commonhdr_puts [OF ra] o1(2) this]
  obtain o2 where o2: "zipc_parse_put_reply_commonhdr ra (Some o1) ch True = Inr (True, Some o2)" "buf_wf o2"
    "contents o2 = contents o1 @ enc_reply_ch (ch_sn ch) True" "zb_offset o2 = zb_offset o1"
    "unat (zb_len o2) = unat (zb_len o1) + length (enc_reply_ch (ch_sn ch) True)" by metis
  moreover have "unat (zb_len o2) \<le> 40" using o2(5) o1(5) o(2) enc_reply_ch_short [of "ch_sn ch" True] by simp
  ultimately show ?thesis using that o1 e by simp
qed

lemma request_unread:
  assumes b: "buf_wf ib" "unat (zb_len ib) < 2 ^ 31" "unread ib = enc_request fs cname aname @ args"
    and fs: "length fs < 2 ^ 32" and nm: "length cname < 64" "length aname < 64"
  obtains s1 s2 b1 b2 b3 b4 where
    "zipc_parse_common_hdr (Some ib) = Inr (True, fold apply_field fs ch_zero, Some b1)"
    "zipc_parse_body_info (Some b1) = Inr (EZCRTErr_success, s1, s2, Some b2)" "reads s1 cname" "reads s2 aname"
    "ztlv_get_int (Some b2) = Inr (Some 3, Some b3)" "ztlv_get_type (Some b3) = Inr (ZTLV_TABLE, Some b4)"
    "unread b4 = args" "contents b4 = contents ib" "buf_wf b4"
proof -
  let ?x = "enc_names 3 1 cname 2 aname"
  have u: "unread ib = enc_ch fs @ ?x @ enc_int 3 @ [ZTLV_TABLE] @ args" using b(3) by (simp add: enc_request_def)
  note r1 = read_on [OF b(1,2) u]
  note r2 = read_on [OF r1]
  note r3 = read_on [OF r2]
  note r4 = read_on [OF r3]
  have t: "ztlv_get_type (Some (adv (adv (adv ib (length (enc_ch fs))) (length ?x)) (length (enc_int 3)))) =
      Inr (ZTLV_TABLE, Some (adv (adv (adv (adv ib (length (enc_ch fs))) (length ?x)) (length (enc_int 3))) (length [ZTLV_TABLE])))"
    using get_type_unread [OF r3(1), of ZTLV_TABLE args] r3(3) by simp
  obtain s1 s2 where "zipc_parse_body_info (Some (adv ib (length (enc_ch fs)))) =
      Inr (EZCRTErr_success, s1, s2, Some (adv (adv ib (length (enc_ch fs))) (length ?x)))" "reads s1 cname" "reads s2 aname"
    using body_info_unread [OF r1 _ nm] by auto
  then show ?thesis
    using that common_hdr_unread [OF b(1,2) u fs] getsD [OF get_int_gets r2] t r4 by (metis adv_simps(1))
qed

section \<open>Properties of requests and notifications\<close>

text \<open>The component a module finds for a name, and the call a component finds for an action.\<close>

definition served :: "zIpcHeap \<Rightarrow> zIPCModule \<Rightarrow> u8 list \<Rightarrow> u8 list \<Rightarrow> addr \<Rightarrow> ptr \<Rightarrow> bool" where
  "served st ipc cname aname c f \<longleftrightarrow> (\<exists>t cn t2 a an. im_modlist ipc = Some t \<and> by_name (ix_node st) t cname = Inr (Some c) \<and>
     ix_comp st c = Some cn \<and> cp_apilist cn = Some t2 \<and> by_name (ix_node st) t2 aname = Inr (Some a) \<and>
     ix_comp st a = Some an \<and> cp_call an = Some f)"

lemma request_run:
  assumes ra: "realloc_total ra" and o: "buf_wf ob" "zb_len ob = 0"
    and i: "buf_wf ib" "unat (zb_len ib) < 2 ^ 31" "unread ib = enc_request fs cname aname @ args" "length fs < 2 ^ 32"
    and req: "ch_req (fold apply_field fs ch_zero)"
    and nm: "is_name cname" "cname \<noteq> []" "is_name aname" "aname \<noteq> []"
    and sv: "served st ipc cname aname c f"
  shows "\<exists>ib1 ob1. unread ib1 = args \<and> contents ib1 = contents ib \<and> buf_wf ib1 \<and> buf_wf ob1 \<and> contents ob1 = reply_head fs \<and>
    zipc_parse_payload run_call ra (Some ipc) (zeipc_code ZEIPC_TYPE_DEFAULT) (Some ib) (Some ob) (st, w) =
      rbind (run_call f c (Some ib1) (Some ob1) (st, w)) (\<lambda>(ret, b2, o3, w1).
        if ret \<noteq> EZCRTErr_success
        then rbind (zipc_parse_put_reply_errcode ra o3 ret) (\<lambda>(_, o4). Inr (ret, b2, o4, w1))
        else Inr (ret, b2, o3, w1))"
proof -
  have l: "length cname < 64" "length aname < 64" using nm by (simp_all add: is_name_def ZCRT_NAME_LEN_def)
  obtain s1 s2 b1 b2 b3 b4 where r: "zipc_parse_common_hdr (Some ib) = Inr (True, fold apply_field fs ch_zero, Some b1)"
    "zipc_parse_body_info (Some b1) = Inr (EZCRTErr_success, s1, s2, Some b2)" "reads s1 cname" "reads s2 aname"
    "ztlv_get_int (Some b2) = Inr (Some 3, Some b3)" "ztlv_get_type (Some b3) = Inr (ZTLV_TABLE, Some b4)"
    "unread b4 = args" "contents b4 = contents ib" "buf_wf b4"
    by (rule request_unread [OF i(1-4) l])
  let ?ch = "fold apply_field fs ch_zero"
  obtain o1 o2 where os: "zipc_parse_init_buf ra (Some ob) (zeipc_code ZEIPC_TYPE_DEFAULT) = Inr (Some o1)"
    "zipc_parse_put_reply_commonhdr ra (Some o1) ?ch True = Inr (True, Some o2)" "buf_wf o2" "zb_offset o2 = 0"
    "contents o2 = hdr_bytes (msg_hdr ZEIPC_TYPE_DEFAULT 0) @ enc_reply_ch (ch_sn ?ch) True" "unat (zb_len o2) \<le> 40"
    by (rule start_reply [OF ra o])
  obtain t cn t2 a an where s: "im_modlist ipc = Some t" "by_name (ix_node st) t cname = Inr (Some c)"
     "ix_comp st c = Some cn" "cp_apilist cn = Some t2" "by_name (ix_node st) t2 aname = Inr (Some a)"
     "ix_comp st a = Some an" "cp_call an = Some f" using sv unfolding served_def by blast
  have "zipc_parse_request run_call (Some ipc) (Some b1) (Some o2) (st, w) = run_call f c (Some b4) (Some o2) (st, w)"
    using r(2,5,6) s
    by (simp add: zipc_parse_request_def zipc_comp_call_def lookup_bytes [OF nm(1,2) r(3)] lookup_bytes [OF nm(3,4) r(4)])
  then show ?thesis
    using r(1,7-9) os req
    by (intro exI [of _ b4] exI [of _ o2]) (simp add: zipc_parse_payload_def zipc_parse_app_default_def reply_head_def)
qed

text \<open>C19. A request for a registered action runs exactly the call registered under that component and action, on
  the input positioned at the arguments and on an output that holds the reply's two headers; when the call
  fails an error entry is appended to what it left, and otherwise its output is the reply.\<close>

theorem request_dispatch:
  assumes ra: "realloc_total ra" and o: "buf_wf ob" "zb_len ob = 0"
    and i: "buf_wf ib" "unat (zb_len ib) < 2 ^ 31" "unread ib = enc_request fs cname aname @ args" "length fs < 2 ^ 32"
    and req: "ch_req (fold apply_field fs ch_zero)"
    and nm: "is_name cname" "cname \<noteq> []" "is_name aname" "aname \<noteq> []"
    and sv: "served st ipc cname aname c f"
  shows "\<exists>ib1 ob1. unread ib1 = args \<and> contents ib1 = contents ib \<and> buf_wf ib1 \<and> buf_wf ob1 \<and> contents ob1 = reply_head fs \<and>
    zipc_parse_payload run_call ra (Some ipc) (zeipc_code ZEIPC_TYPE_DEFAULT) (Some ib) (Some ob) (st, w) =
      rbind (run_call f c (Some ib1) (Some ob1) (st, w)) (\<lambda>(ret, b2, o3, w1).
        if ret \<noteq> EZCRTErr_success
        then rbind (zipc_parse_put_reply_errcode ra o3 ret) (\<lambda>(_, o4). Inr (ret, b2, o4, w1))
        else Inr (ret, b2, o3, w1))"
  by (rule request_run [OF assms])

definition refused :: "zIpcHeap \<Rightarrow> zIPCModule \<Rightarrow> u8 list \<Rightarrow> u8 list \<Rightarrow> EZCRTErr \<Rightarrow> bool" where
  "refused st ipc cname aname e \<longleftrightarrow> (\<exists>t. im_modlist ipc = Some t \<and>
     (by_name (ix_node st) t cname = Inr None \<and> e = EZCRTErr_ipcNoModule \<or>
      (\<exists>c cn t2. by_name (ix_node st) t cname = Inr (Some c) \<and> ix_comp st c = Some cn \<and> cp_apilist cn = Some t2 \<and>
         by_name (ix_node st) t2 aname = Inr None \<and> e = EZCRTErr_ipcNoAct)))"

lemma enc_err_short: "length (enc_err e) \<le> 20"
  using enc_int_short [of "err_word e"] by (simp add: enc_err_def enc_str_def ch_names small_count)

text \<open>A request for a component or an action that is not registered changes nothing but the two buffers: the
  reply is complete, it holds the two headers and an entry with the error code, and the call's result is the
  same code.\<close>

theorem request_refused:
  assumes ra: "realloc_total ra" and o: "buf_wf ob" "zb_len ob = 0"
    and i: "buf_wf ib" "unat (zb_len ib) < 2 ^ 31" "unread ib = enc_request fs cname aname @ args" "length fs < 2 ^ 32"
    and req: "ch_req (fold apply_field fs ch_zero)"
    and nm: "is_name cname" "cname \<noteq> []" "is_name aname" "aname \<noteq> []"
    and rf: "refused st ipc cname aname e"
  shows "\<exists>ib1 ob1. contents ob1 = reply_head fs @ enc_err e \<and> buf_wf ob1 \<and>
    zipc_parse_payload run_call ra (Some ipc) (zeipc_code ZEIPC_TYPE_DEFAULT) (Some ib) (Some ob) (st, w) =
      Inr (e, ib1, Some ob1, (st, w))"
proof -
  have l: "length cname < 64" "length aname < 64" using nm by (simp_all add: is_name_def ZCRT_NAME_LEN_def)
  obtain s1 s2 b1 b2 b3 b4 where r: "zipc_parse_common_hdr (Some ib) = Inr (True, fold apply_field fs ch_zero, Some b1)"
    "zipc_parse_body_info (Some b1) = Inr (EZCRTErr_success, s1, s2, Some b2)" "reads s1 cname" "reads s2 aname"
    "ztlv_get_int (Some b2) = Inr (Some 3, Some b3)" "ztlv_get_type (Some b3) = Inr (ZTLV_TABLE, Some b4)"
    "unread b4 = args" "contents b4 = contents ib" "buf_wf b4"
    by (rule request_unread [OF i(1-4) l])
  let ?ch = "fold apply_field fs ch_zero"
  obtain o1 o2 where os: "zipc_parse_init_buf ra (Some ob) (zeipc_code ZEIPC_TYPE_DEFAULT) = Inr (Some o1)"
    "zipc_parse_put_reply_commonhdr ra (Some o1) ?ch True = Inr (True, Some o2)" "buf_wf o2" "zb_offset o2 = 0"
    "contents o2 = hdr_bytes (msg_hdr ZEIPC_TYPE_DEFAULT 0) @ enc_reply_ch (ch_sn ?ch) True" "unat (zb_len o2) \<le> 40"
    by (rule start_reply [OF ra o])
  have "unat (zb_len o2) + length (enc_err e) + 16 < 2 ^ 31" using os(6) enc_err_short [of e] by simp
  from putsD [OF reply_errcode_puts [OF ra] os(3) this]
  obtain o3 where o3: "zipc_parse_put_reply_errcode ra (Some o2) e = Inr (True, Some o3)" "buf_wf o3"
    "contents o3 = contents o2 @ enc_err e" by metis
  have e: "e \<noteq> EZCRTErr_success" using rf by (auto simp: refused_def)
  have "\<exists>ib1. zipc_parse_request run_call (Some ipc) (Some b1) (Some o2) (st, w) = Inr (e, ib1, Some o2, (st, w))"
    using r(2,5,6) rf
    by (auto simp: refused_def zipc_parse_request_def zipc_comp_call_def lookup_bytes [OF nm(1,2) r(3)] lookup_bytes [OF nm(3,4) r(4)])
  then obtain ib1 where "zipc_parse_request run_call (Some ipc) (Some b1) (Some o2) (st, w) = Inr (e, ib1, Some o2, (st, w))" by blast
  then show ?thesis
    using r(1) os o3 req e
    by (intro exI [of _ ib1] exI [of _ o3]) (simp add: zipc_parse_payload_def zipc_parse_app_default_def reply_head_def)
qed

section \<open>Notifications\<close>

definition event_body :: "u32 \<Rightarrow> u32 \<Rightarrow> u8 list \<Rightarrow> u8 list" where
  "event_body sn evtid data = enc_ch [F_sn sn, F_req False, F_noti True] @ [2] @ enc_int 1 @ enc_uint32 evtid @ enc_int 2 @ data"

text \<open>What is written before the application's encoder is asked.\<close>

lemma encode_event_until:
  assumes ra: "realloc_total ra" and b: "buf_wf b" "zb_len b = 0" and fn: "im_evt_encode ipc = Some fn"
    and small: "length (event_body (fst (inc uid)) evtid []) + 26 < 2 ^ 31"
  obtains b' where "zipc_encode_event inc enc ra (Some ipc) evtid evtdata (Some b) uid =
      rbind (enc fn evtid evtdata (Some b')) (\<lambda>(r, b7).
        if r = 0 then rbind (set_payload_size b7) (\<lambda>b8. Inr (EZCRTErr_success, b8, snd (inc uid)))
        else Inr (EZCRTErr_ipcNotSupport, b7, snd (inc uid)))"
    "buf_wf b'" "contents b' = hdr_bytes (msg_hdr ZEIPC_TYPE_LINK 0) @ event_body (fst (inc uid)) evtid []"
    "unat (zb_len b') = 10 + length (event_body (fst (inc uid)) evtid [])"
proof -
  let ?c = "enc_ch [F_sn (fst (inc uid)), F_req False, F_noti True]" and ?i = "[2] @ enc_int 1 @ enc_uint32 evtid @ enc_int 2"
  have e: "contents b = []" using length_contents [OF b(1)] b(2) by simp
  obtain b1 where b1: "zipc_parse_init_buf ra (Some b) (zeipc_code ZEIPC_TYPE_LINK) = Inr (Some b1)" "buf_wf b1"
    "contents b1 = contents b @ hdr_bytes (msg_hdr ZEIPC_TYPE_LINK 0)" "unat (zb_len b1) = unat (zb_len b) + 10"
    by (rule init_buf_spec [OF b(1) ra, of ZEIPC_TYPE_LINK]) (use b(2) in simp)
  have len: "length ?c + length ?i = length (event_body (fst (inc uid)) evtid [])" by (simp add: event_body_def)
  have "unat (zb_len b1) + length ?c + 16 < 2 ^ 31" using b1(4) b(2) len small by simp
  from putsD [OF encode_common_hdr_puts [OF ra, where inc = inc and uid = uid and req = False and noti = True] b1(2) this]
  obtain b2 where b2: "rbind (zipc_encode_common_hdr inc ra (Some b1) False True uid) (\<lambda>(_, r). Inr r) = Inr (True, Some b2)"
    "buf_wf b2" "contents b2 = contents b1 @ ?c" "unat (zb_len b2) = unat (zb_len b1) + length ?c" by metis
  obtain u where u: "zipc_encode_common_hdr inc ra (Some b1) False True uid = Inr (u, True, Some b2)"
    using b2(1) by (auto simp: rbind_eq_Inr)
  then have uu: "u = snd (inc uid)" by (auto simp: zipc_encode_common_hdr_def zcrt_unique_id_def rbind_eq_Inr split: prod.splits)
  have idx: "puts (\<lambda>v. next_put (ztlv_put_len ra v 2) (\<lambda>b3. next_put (ztlv_put_int ra b3 1) (\<lambda>b4.
              next_put (ztlv_put_uint32 ra b4 evtid) (\<lambda>b5. ztlv_put_int ra b5 2)))) ([of_nat (unat (2 :: u32))] @ enc_int 1 @ enc_uint32 evtid @ enc_int 2)"
    by (intro next_put_puts put_len_small uint32_codec.put_law int_codec.put_law ra) simp
  have "unat (zb_len b2) + length ([of_nat (unat (2 :: u32))] @ enc_int 1 @ enc_uint32 evtid @ enc_int 2) + 16 < 2 ^ 31"
    using b1(4) b2(4) b(2) len small by simp
  from putsD [OF idx b2(2) this]
  obtain b3 where b3: "next_put (ztlv_put_len ra (Some b2) 2) (\<lambda>b3. next_put (ztlv_put_int ra b3 1) (\<lambda>b4.
              next_put (ztlv_put_uint32 ra b4 evtid) (\<lambda>b5. ztlv_put_int ra b5 2))) = Inr (True, Some b3)"
    "buf_wf b3" "contents b3 = contents b2 @ ?i" "unat (zb_len b3) = unat (zb_len b2) + length ?i" by auto
  have "contents b3 = hdr_bytes (msg_hdr ZEIPC_TYPE_LINK 0) @ event_body (fst (inc uid)) evtid []"
    by (simp add: b3(3) b2(3) b1(3) e event_body_def)
  moreover have "unat (zb_len b3) = 10 + length (event_body (fst (inc uid)) evtid [])"
    using b1(4) b2(4) b3(4) b(2) len by simp
  moreover have "zipc_encode_event inc enc ra (Some ipc) evtid evtdata (Some b) uid =
      rbind (enc fn evtid evtdata (Some b3)) (\<lambda>(r, b7).
        if r = 0 then rbind (set_payload_size b7) (\<lambda>b8. Inr (EZCRTErr_success, b8, snd (inc uid)))
        else Inr (EZCRTErr_ipcNotSupport, b7, snd (inc uid)))"
    using fn b1(1) u uu b3(1) by (simp add: zipc_encode_event_def zipc_server_get_event_encode_def)
  ultimately show ?thesis using that b3(2) by blast
qed

lemma event_body_data: "event_body sn evtid data = event_body sn evtid [] @ data"
  by (simp add: event_body_def)

lemma encode_event_ok:
  assumes ra: "realloc_total ra" and b: "buf_wf b" "zb_len b = 0" and fn: "im_evt_encode ipc = Some fn"
    and enc: "puts (\<lambda>v. rbind (enc fn evtid evtdata v) (\<lambda>(r, v1). Inr (r = 0, v1))) data"
    and small: "length (event_body (fst (inc uid)) evtid data) + 26 < 2 ^ 31"
  obtains b' where "zipc_encode_event inc enc ra (Some ipc) evtid evtdata (Some b) uid = Inr (EZCRTErr_success, Some b', snd (inc uid))"
    "buf_wf b'" "contents b' = hdr_bytes (msg_hdr ZEIPC_TYPE_LINK (of_nat (length (event_body (fst (inc uid)) evtid data)))) @
      event_body (fst (inc uid)) evtid data"
proof -
  have len: "length (event_body (fst (inc uid)) evtid data) = length (event_body (fst (inc uid)) evtid []) + length data"
    by (simp add: event_body_def)
  have small': "length (event_body (fst (inc uid)) evtid []) + 26 < 2 ^ 31" using small len by simp
  obtain b3 where b3: "zipc_encode_event inc enc ra (Some ipc) evtid evtdata (Some b) uid =
      rbind (enc fn evtid evtdata (Some b3)) (\<lambda>(r, b7).
        if r = 0 then rbind (set_payload_size b7) (\<lambda>b8. Inr (EZCRTErr_success, b8, snd (inc uid)))
        else Inr (EZCRTErr_ipcNotSupport, b7, snd (inc uid)))"
    "buf_wf b3" "contents b3 = hdr_bytes (msg_hdr ZEIPC_TYPE_LINK 0) @ event_body (fst (inc uid)) evtid []"
    "unat (zb_len b3) = 10 + length (event_body (fst (inc uid)) evtid [])"
    by (rule encode_event_until [where inc = inc and uid = uid and enc = enc and evtid = evtid and evtdata = evtdata, OF ra b fn small'])
  have "unat (zb_len b3) + length data + 16 < 2 ^ 31" using b3(4) len small by simp
  from putsD [OF enc b3(2) this]
  obtain b4 where b4: "rbind (enc fn evtid evtdata (Some b3)) (\<lambda>(r, v1). Inr (r = 0, v1)) = Inr (True, Some b4)"
    "buf_wf b4" "contents b4 = contents b3 @ data" by metis
  have en: "enc fn evtid evtdata (Some b3) = Inr (0, Some b4)" using b4(1) by (auto simp: rbind_eq_Inr)
  have "contents b4 = hdr_bytes (msg_hdr ZEIPC_TYPE_LINK 0) @ event_body (fst (inc uid)) evtid data"
    by (simp add: b4(3) b3(3) event_body_data [of _ _ data])
  from set_payload_spec [OF b4(2) this]
  obtain b5 where b5: "set_payload_size (Some b4) = Inr (Some b5)" "buf_wf b5"
    "contents b5 = hdr_bytes (msg_hdr ZEIPC_TYPE_LINK (of_nat (length (event_body (fst (inc uid)) evtid data)))) @ event_body (fst (inc uid)) evtid data" by metis
  have "zipc_encode_event inc enc ra (Some ipc) evtid evtdata (Some b) uid = Inr (EZCRTErr_success, Some b5, snd (inc uid))"
    using b3(1) en b5(1) by simp
  then show ?thesis using that b5(2,3) by blast
qed

text \<open>C20. An event the application encodes as data becomes one message: a header that the
  receiver accepts, with the number of bytes that follow it, a common header that reads back as a
  notification with the serial number the port's counter gave, the event id and the data.\<close>

theorem encode_event_spec:
  assumes ra: "realloc_total ra" and b: "buf_wf b" "zb_len b = 0" and fn: "im_evt_encode ipc = Some fn"
    and enc: "puts (\<lambda>v. rbind (enc fn evtid evtdata v) (\<lambda>(r, v1). Inr (r = 0, v1))) data"
    and small: "length (event_body (fst (inc uid)) evtid data) + 26 < 2 ^ 31"
  shows "\<exists>b'. zipc_encode_event inc enc ra (Some ipc) evtid evtdata (Some b) uid = Inr (EZCRTErr_success, Some b', snd (inc uid)) \<and>
    buf_wf b' \<and> contents b' = hdr_bytes (msg_hdr ZEIPC_TYPE_LINK (of_nat (length (event_body (fst (inc uid)) evtid data)))) @ event_body (fst (inc uid)) evtid data \<and>
    (\<exists>h. hdr_of_bytes (contents b') = Some h \<and> zipc_parse_check_hdr h \<and> htons (mh_appType h) = zeipc_code ZEIPC_TYPE_LINK \<and>
      unat (htonl (mh_payloadSize h)) = length (drop 10 (contents b'))) \<and>
    (\<forall>r. buf_wf r \<longrightarrow> unat (zb_len r) < 2 ^ 31 \<longrightarrow> unread r = drop 10 (contents b') \<longrightarrow>
      (\<exists>r'. zipc_parse_common_hdr (Some r) = Inr (True, \<lparr>ch_sn = fst (inc uid), ch_req = False, ch_noti = True\<rparr>, Some r') \<and>
        unread r' = [2] @ enc_int 1 @ enc_uint32 evtid @ enc_int 2 @ data))"
proof -
  let ?c = "enc_ch [F_sn (fst (inc uid)), F_req False, F_noti True]" and ?i = "[2] @ enc_int 1 @ enc_uint32 evtid @ enc_int 2"
  obtain b5 where b5: "zipc_encode_event inc enc ra (Some ipc) evtid evtdata (Some b) uid = Inr (EZCRTErr_success, Some b5, snd (inc uid))"
    "buf_wf b5" "contents b5 = hdr_bytes (msg_hdr ZEIPC_TYPE_LINK (of_nat (length (event_body (fst (inc uid)) evtid data)))) @
      event_body (fst (inc uid)) evtid data"
    by (rule encode_event_ok [where inc = inc and uid = uid and enc = enc and evtid = evtid and evtdata = evtdata, OF assms]) (rule that)
  have "unat (of_nat (length (event_body (fst (inc uid)) evtid data)) :: u32) = length (event_body (fst (inc uid)) evtid data)"
    using small by (intro unat_of_nat_u32_small) simp
  then have "\<exists>h. hdr_of_bytes (contents b5) = Some h \<and> zipc_parse_check_hdr h \<and> htons (mh_appType h) = zeipc_code ZEIPC_TYPE_LINK \<and>
      unat (htonl (mh_payloadSize h)) = length (drop 10 (contents b5))"
    unfolding b5(3) by (simp add: hdr_of_hdr_bytes check_msg_hdr) (simp add: msg_hdr_def)
  moreover have "\<exists>r'. zipc_parse_common_hdr (Some r) = Inr (True, \<lparr>ch_sn = fst (inc uid), ch_req = False, ch_noti = True\<rparr>, Some r') \<and>
        unread r' = [2] @ enc_int 1 @ enc_uint32 evtid @ enc_int 2 @ data"
    if r: "buf_wf r" "unat (zb_len r) < 2 ^ 31" "unread r = drop 10 (contents b5)" for r
  proof -
    have u: "unread r = ?c @ ?i @ data" using r(3) by (simp add: b5(3) event_body_def)
    show ?thesis
      using common_hdr_unread [OF r(1,2) u] unread_adv [OF r(1) u] by (simp add: ch_zero_def)
  qed
  ultimately show ?thesis using b5 by (intro exI [of _ b5]) simp
qed

section \<open>Witnesses\<close>

definition buf_of :: "u8 list \<Rightarrow> zbuf" where
  "buf_of bs = zbuf_zero\<lparr>zb_buf := Some bs, zb_maxlen := of_nat (length bs), zb_len := of_nat (length bs)\<rparr>"

lemma buf_of_facts:
  assumes "length bs < 1000"
  shows "buf_wf (buf_of bs)" "unat (zb_len (buf_of bs)) < 2 ^ 31" "unread (buf_of bs) = bs"
proof -
  have n: "unat (of_nat (length bs) :: u32) = length bs" using assms by (intro unat_of_nat_u32_small) simp
  show "buf_wf (buf_of bs)" "unat (zb_len (buf_of bs)) < 2 ^ 31" "unread (buf_of bs) = bs"
    using n assms by (simp_all add: buf_of_def buf_wf_def unread_def contents_def zbuf_zero_def)
qed

text \<open>A server with one component, \<^verbatim>\<open>s\<close>, that has one call, \<^verbatim>\<open>g\<close>.\<close>

definition one_table :: "addr \<Rightarrow> zcompref zhash" where
  "one_table p = empty_table\<lparr>ht_index := Some p # replicate 31 None, ht_count := 1\<rparr>"

definition served_example :: zIpcHeap where
  "served_example = \<lparr>ix_comp = [100 \<mapsto> comp_example [115]\<lparr>cp_apilist := Some (one_table 600)\<rparr>, 200 \<mapsto> comp_example [103]],
     ix_node = [500 \<mapsto> \<lparr>hn_data = \<lparr>ref_addr = Some 100, ref_name = name_of [115]\<rparr>, hn_next = None\<rparr>,
       600 \<mapsto> \<lparr>hn_data = \<lparr>ref_addr = Some 200, ref_name = name_of [103]\<rparr>, hn_next = None\<rparr>]\<rparr>"

definition ipc_example :: zIPCModule where
  "ipc_example = \<lparr>im_sch = None, im_respondSch = None, im_evtSch = None, im_socket = 0, im_evt_encode = Some 9, im_port = 0,
    im_run = True, im_modlist = Some (one_table 500), im_name = [], im_freebuf = None\<rparr>"

lemma one_lookup:
  assumes "hp p = Some \<lparr>hn_data = \<lparr>ref_addr = Some x, ref_name = name_of [d]\<rparr>, hn_next = None\<rparr>" "c \<noteq> 0" "d \<noteq> 0"
  shows "by_name hp (one_table p) [c] = Inr (if c = d then Some x else None)"
proof -
  have n: "is_name [c]" "is_name [d]" using assms(2,3) by (simp_all add: is_name_def ZCRT_NAME_LEN_def)
  have k: "zipc_component_hash_key \<lparr>ref_addr = None, ref_name = name_of [c]\<rparr> = 0"
    using key_loop_c [of "name_of [c]"] by (simp add: zipc_component_hash_key_def name_facts(1) [OF n(1)])
  have f: "find_node (ht_cmp (one_table p)) \<lparr>ref_addr = None, ref_name = name_of [c]\<rparr> hp (Some p) (Some p) =
      Some (Inr (if c = d then (Some p, Some p) else (Some p, None)))"
    using assms(1) cmp_names [OF n(2,1)]
    by (subst find_node.simps, subst find_node.simps) (simp add: one_table_def empty_table_def)
  show ?thesis
    using assms(1) f by (simp add: by_name_lookup [OF n(1)] zcrt_hash_lookup_def zcrt_hash_getnode_def ZCRT_HASH_KEY_def index_at_def k one_table_def empty_table_def)
qed

lemma example_names: "is_name [115]" "is_name [103]" "is_name [120]"
  by (simp_all add: is_name_def ZCRT_NAME_LEN_def)

lemma example_served:
  "served served_example ipc_example [115] [103] 100 7"
  "refused served_example ipc_example [115] [120] EZCRTErr_ipcNoAct"
  by (auto simp: served_def refused_def served_example_def ipc_example_def comp_example_def one_lookup)

lemma example_buf: "buf_wf zbuf_zero" "zb_len zbuf_zero = 0"
  by (simp_all add: buf_wf_def zbuf_zero_def)

lemma request_short: "length (enc_request [F_sn 3, F_req True] [115] [c]) < 500"
  using enc_uint32_short [of 3] enc_int_short [of 1] enc_int_short [of 2] enc_int_short [of 3]
  by (simp add: enc_request_def enc_ch_def enc_fields_def enc_names_def enc_str_def ch_names small_count)

theorem request_dispatch_witness:
  "\<exists>ib1 ob1. unread ib1 = [] \<and> contents ob1 = reply_head [F_sn 3, F_req True] \<and>
    zipc_parse_payload (\<lambda>f c i ob st. Inr (EZCRTErr_success, i, ob, st)) realloc_zero (Some ipc_example) (zeipc_code ZEIPC_TYPE_DEFAULT)
      (Some (buf_of (enc_request [F_sn 3, F_req True] [115] [103]))) (Some zbuf_zero) (served_example, ()) =
    Inr (EZCRTErr_success, Some ib1, Some ob1, (served_example, ()))"
  using request_dispatch [OF realloc_zero_total example_buf buf_of_facts(1,2) _ _ _ example_names(1) _ example_names(2) _ example_served(1),
      of "enc_request [F_sn 3, F_req True] [115] [103]" "[F_sn 3, F_req True]" "[]" "\<lambda>f c i ob st. Inr (EZCRTErr_success, i, ob, st)" "()"]
    request_short [of 103] buf_of_facts(3) [of "enc_request [F_sn 3, F_req True] [115] [103]"]
  by fastforce

theorem request_refused_witness:
  "\<exists>ib1 ob1. contents ob1 = reply_head [F_sn 3, F_req True] @ enc_err EZCRTErr_ipcNoAct \<and>
    zipc_parse_payload (\<lambda>f c i ob st. Inr (EZCRTErr_success, i, ob, st)) realloc_zero (Some ipc_example) (zeipc_code ZEIPC_TYPE_DEFAULT)
      (Some (buf_of (enc_request [F_sn 3, F_req True] [115] [120]))) (Some zbuf_zero) (served_example, ()) =
    Inr (EZCRTErr_ipcNoAct, ib1, Some ob1, (served_example, ()))"
  using request_refused [OF realloc_zero_total example_buf buf_of_facts(1,2) _ _ _ example_names(1) _ example_names(3) _ example_served(2),
      of "enc_request [F_sn 3, F_req True] [115] [120]" "[F_sn 3, F_req True]" "[]" "\<lambda>f c i ob st. Inr (EZCRTErr_success, i, ob, st)" "()"]
    request_short [of 120] buf_of_facts(3) [of "enc_request [F_sn 3, F_req True] [115] [120]"]
  by fastforce

definition int_encoder :: encode_fn where
  "int_encoder fn evtid evtdata v = rbind (ztlv_put_int realloc_zero v 7) (\<lambda>(ok, v1). Inr (if ok then 0 else 1, v1))"

lemma int_encoder_puts: "puts (\<lambda>v. rbind (int_encoder fn evtid evtdata v) (\<lambda>(r, v1). Inr (r = 0, v1))) (enc_int 7)"
proof -
  have "rbind (rbind m (\<lambda>(ok, v1). Inr (if ok then 0 else 1 :: s32, v1))) (\<lambda>(r, v1). Inr (r = 0, v1)) = m" for m :: "(bool \<times> zbufp) res"
    by (cases m) auto
  then show ?thesis using int_codec.put_law [OF realloc_zero_total, of 7] by (simp add: int_encoder_def)
qed

lemma event_body_short: "length (event_body n 5 (enc_int 7)) + 26 < 2 ^ 31"
  using enc_uint32_short [of n] enc_uint32_short [of 5] enc_int_short [of 1] enc_int_short [of 2] enc_int_short [of 7]
  by (simp add: event_body_def enc_ch_def enc_fields_def enc_str_def ch_names small_count)

lemma event_head_short: "length (event_body n evtid []) + 26 < 2 ^ 31"
  using enc_uint32_short [of n] enc_uint32_short [of evtid] enc_int_short [of 1] enc_int_short [of 2]
  by (simp add: event_body_def enc_ch_def enc_fields_def enc_str_def ch_names small_count)

theorem encode_event_spec_witness:
  "\<exists>b'. zipc_encode_event zcrt_atom_inc int_encoder realloc_zero (Some ipc_example) 5 0 (Some zbuf_zero) 0 = Inr (EZCRTErr_success, Some b', 0) \<and>
    contents b' = hdr_bytes (msg_hdr ZEIPC_TYPE_LINK (of_nat (length (event_body 0 5 (enc_int 7))))) @ event_body 0 5 (enc_int 7)"
proof -
  have "im_evt_encode ipc_example = Some 9" by (simp add: ipc_example_def)
  then show ?thesis
    using encode_event_spec [where enc = int_encoder and inc = zcrt_atom_inc and uid = 0,
        OF realloc_zero_total example_buf _ int_encoder_puts event_body_short] by (force simp: zcrt_atom_inc_def)
qed

section \<open>Event hooks\<close>

definition enc_link :: "ch_field list \<Rightarrow> u8 list \<Rightarrow> u8 list \<Rightarrow> u32 \<Rightarrow> u8 list" where
  "enc_link fs cname aname evtid =
     enc_ch fs @ enc_names 3 1 cname 2 aname @ enc_int 3 @ [ZTLV_TABLE] @ [1] @ enc_int 1 @ enc_uint32 evtid"

definition enc_done :: "u8 list" where
  "enc_done = [1] @ enc_str (str_u8 ''ret'') @ [ZTLV_TABLE, 1] @ enc_int 1 @ enc_uint32 1"

lemma done_puts:
  assumes "realloc_total ra"
  shows "puts (\<lambda>v. next_put (zipc_parse_put_reply_req_result ra v 1) (\<lambda>o4.
    next_put (ztlv_put_int ra o4 1) (\<lambda>o5. ztlv_put_uint32 ra o5 1))) enc_done"
proof -
  have "puts (\<lambda>v. next_put (zipc_parse_put_reply_req_result ra v 1) (\<lambda>o4. next_put (ztlv_put_int ra o4 1) (\<lambda>o5. ztlv_put_uint32 ra o5 1)))
    (([of_nat (unat (1 :: u32))] @ enc_str (str_u8 ''ret'') @ ([ZTLV_TABLE] @ varint_bytes (unat (1 :: s32)))) @ enc_int 1 @ enc_uint32 1)"
    unfolding zipc_parse_put_reply_req_result_def
    by (intro next_put_puts put_len_small put_name_puts table_cnt_puts int_codec.put_law uint32_codec.put_law assms) (simp_all add: ch_names)
  then show ?thesis by (simp add: enc_done_def small_count)
qed

lemma enc_done_short: "length enc_done \<le> 40"
  using enc_int_short [of 1] enc_uint32_short [of 1] by (simp add: enc_done_def enc_str_def ch_names small_count)

lemma eventid_unread:
  assumes b: "buf_wf b" "unat (zb_len b) < 2 ^ 31" "unread b = enc_int 3 @ [ZTLV_TABLE] @ [1] @ enc_int 1 @ enc_uint32 evtid @ rest"
  obtains b' where "zipc_link_parase_eventid (Some b) e0 = Inr (EZCRTErr_success, evtid, Some b')"
proof -
  note r1 = read_on [OF b]
  note r2 = read_on [OF r1]
  note r3 = read_on [OF r2]
  note r4 = read_on [OF r3]
  have t: "ztlv_get_type (Some (adv b (length (enc_int 3)))) = Inr (ZTLV_TABLE, Some (adv (adv b (length (enc_int 3))) (length [ZTLV_TABLE])))"
    using get_type_unread [OF r1(1)] r1(3) by simp
  have v: "varint_bytes (unat (1 :: u32)) = [1]" by (simp add: small_count)
  have u2: "unread (adv (adv b (length (enc_int 3))) (length [ZTLV_TABLE])) = varint_bytes (unat (1 :: u32)) @ enc_int 1 @ enc_uint32 evtid @ rest"
    using r2(3) by (simp only: v)
  show ?thesis
    using getsD [OF get_int_gets b] t get_len_unread [OF r2(1,2) u2] getsD [OF get_int_gets r3] getsD [OF uint32_codec.get_law r4] that
    by (simp add: zipc_link_parase_eventid_def small_count)
qed

lemma action_cases:
  assumes s: "reads s nm" and l: "length nm < 64"
  shows "\<exists>r. zstr_buf_cmp s (cstr (str_u8 ''_hookevt'')) = Inr r \<and> (r = 0 \<longleftrightarrow> nm = str_u8 ''_hookevt'')"
    "\<exists>r. zstr_buf_cmp s (cstr (str_u8 ''_unhookevt'')) = Inr r \<and> (r = 0 \<longleftrightarrow> nm = str_u8 ''_unhookevt'')"
proof -
  have "unat (zs_len s) = length nm" using s l by (simp add: reads_def unat_of_nat)
  then have ld: "load_n (zs_ptr s) (unat (zs_len s)) = Inr nm" using s by (simp add: reads_def)
  show "\<exists>r. zstr_buf_cmp s (cstr (str_u8 ''_hookevt'')) = Inr r \<and> (r = 0 \<longleftrightarrow> nm = str_u8 ''_hookevt'')"
    "\<exists>r. zstr_buf_cmp s (cstr (str_u8 ''_unhookevt'')) = Inr r \<and> (r = 0 \<longleftrightarrow> nm = str_u8 ''_unhookevt'')"
    by (rule cmp_name [OF ld ch_names(6)], simp add: str_u8_def) (rule cmp_name [OF ld ch_names(7)], simp add: str_u8_def)
qed

text \<open>A request to hook an event registers the given callback for it, with priority 10 and for local events,
  and the reply reports success whatever registering returned, so also for an event id that cannot be
  registered.\<close>

theorem link_hook_spec:
  assumes ra: "realloc_total ra" and o: "buf_wf ob" "zb_len ob = 0"
    and i: "buf_wf ib" "unat (zb_len ib) < 2 ^ 31" "unread ib = enc_link fs cname (str_u8 ''_hookevt'') evtid @ rest" "length fs < 2 ^ 32"
    and nm: "length cname < 64" and ev: "evtid \<noteq> 0" and enc: "im_evt_encode ipc \<noteq> None"
    and reg: "zcrt_event_register_ex new mng 10 evtid EZCRTEvtType_local cb p1 p2 = Inr (e, mng1)"
  shows "\<exists>ib1 ob1. zipc_parse_app_link new ra (Some ipc) mng (Some ib) (Some ob) cb p1 p2 = Inr (EZCRTErr_success, ib1, Some ob1, mng1) \<and>
    buf_wf ob1 \<and> contents ob1 = hdr_bytes (msg_hdr ZEIPC_TYPE_LINK 0) @ enc_reply_ch (ch_sn (fold apply_field fs ch_zero)) True @ enc_done"
proof -
  let ?a = "str_u8 ''_hookevt''" and ?ch = "fold apply_field fs ch_zero"
  let ?x = "enc_names 3 1 cname 2 ?a"
  have u: "unread ib = enc_ch fs @ ?x @ enc_int 3 @ [ZTLV_TABLE] @ [1] @ enc_int 1 @ enc_uint32 evtid @ rest"
    using i(3) by (simp add: enc_link_def)
  note r1 = read_on [OF i(1,2) u]
  note r2 = read_on [OF r1]
  have la: "length ?a < 64" by (simp add: str_u8_def)
  obtain s1 s2 where bi: "zipc_parse_body_info (Some (adv ib (length (enc_ch fs)))) =
      Inr (EZCRTErr_success, s1, s2, Some (adv (adv ib (length (enc_ch fs))) (length ?x)))" "reads s2 ?a"
    using body_info_unread [OF r1 _ nm la] by (metis order_refl)
  obtain b5 where b5: "zipc_link_parase_eventid (Some (adv (adv ib (length (enc_ch fs))) (length ?x))) 0 = Inr (EZCRTErr_success, evtid, Some b5)"
    by (rule eventid_unread [OF r2])
  obtain o1 o2 where os: "zipc_parse_init_buf ra (Some ob) (zeipc_code ZEIPC_TYPE_LINK) = Inr (Some o1)"
    "zipc_parse_put_reply_commonhdr ra (Some o1) ?ch True = Inr (True, Some o2)" "buf_wf o2" "zb_offset o2 = 0"
    "contents o2 = hdr_bytes (msg_hdr ZEIPC_TYPE_LINK 0) @ enc_reply_ch (ch_sn ?ch) True" "unat (zb_len o2) \<le> 40"
    by (rule start_reply [OF ra o])
  have "unat (zb_len o2) + length enc_done + 16 < 2 ^ 31" using os(6) enc_done_short by simp
  from putsD [OF done_puts [OF ra] os(3) this]
  obtain o3 where o3: "next_put (zipc_parse_put_reply_req_result ra (Some o2) 1) (\<lambda>o4.
      next_put (ztlv_put_int ra o4 1) (\<lambda>o5. ztlv_put_uint32 ra o5 1)) = Inr (True, Some o3)"
    "buf_wf o3" "contents o3 = contents o2 @ enc_done" by metis
  have "link_action new (Some ipc) mng s2 (Some (adv (adv ib (length (enc_ch fs))) (length ?x))) cb p1 p2 = Inr (EZCRTErr_success, Some b5, mng1)"
    using action_cases(1) [OF bi(2) la] b5 reg enc ev by (auto simp: link_action_def zipc_server_get_event_encode_def)
  then show ?thesis
    using common_hdr_unread [OF i(1,2) u i(4)] bi(1) os o3
    by (intro exI [of _ "Some b5"] exI [of _ o3]) (simp add: zipc_parse_app_link_def)
qed

lemma enc_body_err_length: "length (enc_err EZCRTErr_ipcBodyErr) = 9"
proof -
  have z: "unat (zcrt_ZigZagEncode32 (err_word EZCRTErr_ipcBodyErr)) = 155" by (simp add: err_word_def zcrt_ZigZagEncode32_def)
  have "length (varint_bytes 155) = 2" by (simp add: varint_bytes_big small_count)
  then show "length (enc_err EZCRTErr_ipcBodyErr) = 9" by (simp add: enc_err_def enc_str_def ch_names small_count enc_int_def z)
qed

text \<open>When the body of a hook request is malformed, the reply has no header: all the output holds is the nine
  bytes of the error entry.\<close>

theorem link_error_no_header:
  assumes ra: "realloc_total ra" and o: "buf_wf ob" "zb_len ob = 0"
    and i: "buf_wf ib" "unat (zb_len ib) < 2 ^ 31" "unread ib = enc_ch fs @ varint_bytes (unat n) @ rest" "length fs < 2 ^ 32"
    and n: "(n :: u32) < 3"
  shows "\<exists>ib1 ob1. zipc_parse_app_link new ra (Some ipc) mng (Some ib) (Some ob) cb p1 p2 = Inr (EZCRTErr_ipcBodyErr, ib1, Some ob1, mng) \<and>
    buf_wf ob1 \<and> contents ob1 = enc_err EZCRTErr_ipcBodyErr \<and> unat (zb_len ob1) = 9"
proof -
  note r1 = read_on [OF i(1-3)]
  have bi: "\<exists>b2. zipc_parse_body_info (Some (adv ib (length (enc_ch fs)))) = Inr (EZCRTErr_ipcBodyErr, no_str, no_str, b2)"
    using get_len_unread [OF r1] n by (simp add: zipc_parse_body_info_def)
  have e: "contents ob = []" using length_contents [OF o(1)] o(2) by simp
  have "unat (zb_len ob) + length (enc_err EZCRTErr_ipcBodyErr) + 16 < 2 ^ 31"
    using o(2) enc_err_short [of EZCRTErr_ipcBodyErr] by simp
  from putsD [OF reply_errcode_puts [OF ra] o(1) this]
  obtain o3 where o3: "zipc_parse_put_reply_errcode ra (Some ob) EZCRTErr_ipcBodyErr = Inr (True, Some o3)" "buf_wf o3"
    "contents o3 = contents ob @ enc_err EZCRTErr_ipcBodyErr"
    "unat (zb_len o3) = unat (zb_len ob) + length (enc_err EZCRTErr_ipcBodyErr)" by metis
  have "length (enc_err EZCRTErr_ipcBodyErr) = 9" by (rule enc_body_err_length)
  then show ?thesis
    using common_hdr_unread [OF i] bi o3 e o(2) by (auto simp: zipc_parse_app_link_def)
qed

lemma enc_ch_short: "length (enc_ch [F_sn v]) \<le> 20"
  using enc_uint32_short [of v] by (simp add: enc_ch_def enc_fields_def enc_str_def ch_names small_count)

lemma str_hook: "str_u8 ''_hookevt'' = [95, 104, 111, 111, 107, 101, 118, 116]"
  by (simp add: str_u8_def)

theorem link_hook_spec_witness:
  "\<exists>ib1 ob1. zipc_parse_app_link None realloc_zero (Some ipc_example) (Some ev_empty)
      (Some (buf_of (enc_link [F_sn 3] [] (str_u8 ''_hookevt'') 300))) (Some zbuf_zero) (Some 42) 0 0 =
      Inr (EZCRTErr_success, ib1, Some ob1, Some ev_empty) \<and>
    contents ob1 = hdr_bytes (msg_hdr ZEIPC_TYPE_LINK 0) @ enc_reply_ch 3 True @ enc_done"
proof -
  let ?x = "enc_link [F_sn 3] [] (str_u8 ''_hookevt'') 300"
  have "length ?x < 1000"
    using enc_ch_short [of 3] enc_uint32_short [of 300] enc_int_short [of 1] enc_int_short [of 2] enc_int_short [of 3]
    by (simp add: enc_link_def enc_names_def enc_str_def str_hook small_count)
  note f = buf_of_facts [OF this]
  have "zcrt_event_register_ex None (Some ev_empty) 10 300 EZCRTEvtType_local (Some 42) 0 0 = Inr (EZCRTErr_paramErr, Some ev_empty)"
    by (simp add: zcrt_event_register_ex_def ZCRT_MAX_EVT_def)
  moreover have "im_evt_encode ipc_example \<noteq> None" by (simp add: ipc_example_def)
  ultimately show ?thesis
    using link_hook_spec [OF realloc_zero_total example_buf f(1,2), of "[F_sn 3]" "[]" 300 "[]" ipc_example None "Some ev_empty" "Some 42" 0 0] f(3)
    by (fastforce simp: ch_zero_def)
qed

theorem link_error_no_header_witness:
  "\<exists>ib1 ob1. zipc_parse_app_link None realloc_zero (Some ipc_example) (Some ev_empty)
      (Some (buf_of (enc_ch [F_sn 3] @ varint_bytes (unat (2 :: u32))))) (Some zbuf_zero) (Some 42) 0 0 =
      Inr (EZCRTErr_ipcBodyErr, ib1, Some ob1, Some ev_empty) \<and> unat (zb_len ob1) = 9"
proof -
  let ?x = "enc_ch [F_sn 3] @ varint_bytes (unat (2 :: u32))"
  have "length ?x < 1000" using enc_ch_short [of 3] by (simp add: small_count)
  note f = buf_of_facts [OF this]
  show ?thesis
    using link_error_no_header [OF realloc_zero_total example_buf f(1,2), of "[F_sn 3]" 2 "[]" None ipc_example "Some ev_empty" "Some 42" 0 0] f(3)
    by auto
qed

section \<open>The pool keeps its buffers apart\<close>

definition pool_wf :: "zIPCModule \<Rightarrow> zbuf heap \<Rightarrow> addr list \<Rightarrow> bool" where
  "pool_wf ipc h as \<longleftrightarrow> chain zb_next h (im_freebuf ipc) as None \<and> (\<forall>a \<in> set as. buf_wf (the (h a)))"

lemma buf_wf_clear: "buf_wf b \<Longrightarrow> buf_wf (b\<lparr>zb_len := 0, zb_offset := 0, zb_next := q\<rparr>)"
  by (simp add: buf_wf_def)

lemma buf_wf_next [simp]: "buf_wf (b\<lparr>zb_next := q\<rparr>) = buf_wf b"
  by (simp add: buf_wf_def)

text \<open>The pool has a free buffer, or malloc gives a new one with its block.\<close>

definition can_buf :: "addr option \<Rightarrow> bool \<Rightarrow> zbuf heap \<Rightarrow> addr list \<Rightarrow> bool" where
  "can_buf new mem h as \<longleftrightarrow> as \<noteq> [] \<or> mem \<and> (\<exists>n. new = Some n \<and> h n = None)"

lemma can_buf_new: "h n = None \<Longrightarrow> can_buf (Some n) True h as"
  by (simp add: can_buf_def)

lemma malloc_pool:
  assumes p: "pool_wf ipc h as" and new: "can_buf new mem h as"
  obtains a ipc' h' as' b where "zipc_buf_malloc new mem (Some ipc) h = Inr (Some a, Some ipc', h')"
    "pool_wf ipc' h' as'" "a \<notin> set as'" "h' a = Some b" "buf_wf b" "zb_len b = 0" "zb_offset b = 0"
    "as = a # as' \<or> as = [] \<and> as' = [] \<and> new = Some a \<and> h a = None" "\<And>x. x \<noteq> a \<Longrightarrow> h' x = h x"
proof (cases as)
  case Nil
  then obtain n where n: "new = Some n" "h n = None" "mem" using new by (auto simp: can_buf_def)
  have f: "im_freebuf ipc = None" using p Nil by (simp add: pool_wf_def)
  let ?b = "zbuf_zero\<lparr>zb_tag := ZCRT_MAKE_FOURCC 90 73 80 67, zb_buf := Some (replicate (unat ZIPC_BUF_LEN) 0), zb_maxlen := ZIPC_BUF_LEN\<rparr>"
  have "zipc_buf_malloc new mem (Some ipc) h = Inr (Some n, Some ipc, h(n \<mapsto> ?b))"
    using f n by (simp add: zipc_buf_malloc_def zcrt_buf_init_def zcrt_buf_clear_def zcrt_malloc_def ZIPC_BUF_LEN_def zbuf_zero_def)
  moreover have "buf_wf ?b" by (simp add: buf_wf_def zbuf_zero_def)
  ultimately show ?thesis using that [of n ipc "h(n \<mapsto> ?b)" "[]" ?b] Nil f n by (simp add: pool_wf_def zbuf_zero_def)
next
  case (Cons a as')
  have ch: "chain zb_next h (im_freebuf ipc) as None" using p by (simp add: pool_wf_def)
  obtain b where b: "im_freebuf ipc = Some a" "h a = Some b" "chain zb_next h (zb_next b) as' None"
    using ch Cons by auto
  have a: "a \<notin> set as'" using chain_distinct [OF ch] Cons by simp
  have w: "buf_wf b" "\<forall>x \<in> set as'. buf_wf (the (h x))" using p Cons b(2) by (auto simp: pool_wf_def)
  let ?b = "b\<lparr>zb_len := 0, zb_offset := 0, zb_next := None\<rparr>"
  let ?ipc = "ipc\<lparr>im_freebuf := zb_next b\<rparr>"
  have "zipc_buf_malloc new mem (Some ipc) h = Inr (Some a, Some ?ipc, h(a \<mapsto> ?b))"
    using b by (simp add: zipc_buf_malloc_def zcrt_buf_clear_def)
  moreover have "pool_wf ?ipc (h(a \<mapsto> ?b)) as'" using b(3) a w(2) by (auto simp: pool_wf_def chain_upd)
  ultimately show ?thesis using that [of a ?ipc "h(a \<mapsto> ?b)" as' ?b] Cons a buf_wf_clear [OF w(1)] by simp
qed

lemma free_pool:
  assumes p: "pool_wf ipc h as" and a: "a \<notin> set as" "h a = Some b" "buf_wf b"
  shows "\<exists>ipc' h'. zipc_buf_free (Some ipc) (Some a) h = Inr (Some ipc', h') \<and> pool_wf ipc' h' (a # as) \<and>
    (\<forall>x. x \<noteq> a \<longrightarrow> h' x = h x)"
  using assms by (auto simp: zipc_buf_free_def pool_wf_def chain_upd)

text \<open>A buffer taken from the pool is empty, well formed and no longer in the pool; given back, it is the next
  one handed out, and everything else in the pool is as it was. No buffer is ever handed out twice.\<close>

theorem buf_pool_spec:
  assumes p: "pool_wf ipc h as" and new: "h n = None"
  shows "\<exists>a ipc1 h1 as1 b ipc2 h2. zipc_buf_malloc (Some n) True (Some ipc) h = Inr (Some a, Some ipc1, h1) \<and>
    pool_wf ipc1 h1 as1 \<and> a \<notin> set as1 \<and> h1 a = Some b \<and> buf_wf b \<and> contents b = [] \<and> (as = a # as1 \<or> as = [] \<and> as1 = []) \<and>
    zipc_buf_free (Some ipc1) (Some a) h1 = Inr (Some ipc2, h2) \<and> pool_wf ipc2 h2 (a # as1)"
proof -
  obtain a ipc1 h1 as1 b where m: "zipc_buf_malloc (Some n) True (Some ipc) h = Inr (Some a, Some ipc1, h1)"
    "pool_wf ipc1 h1 as1" "a \<notin> set as1" "h1 a = Some b" "buf_wf b" "zb_len b = 0" "zb_offset b = 0"
    "as = a # as1 \<or> as = [] \<and> as1 = []" "\<And>x. x \<noteq> a \<Longrightarrow> h1 x = h x"
    using malloc_pool [OF p can_buf_new [of h n, OF new]] by metis
  have c: "contents b = []" using length_contents [OF m(5)] m(6) by simp
  obtain ipc2 h2 where "zipc_buf_free (Some ipc1) (Some a) h1 = Inr (Some ipc2, h2)" "pool_wf ipc2 h2 (a # as1)"
    using free_pool [OF m(2-5)] by metis
  with m c show ?thesis by metis
qed

theorem buf_pool_spec_witness:
  "\<exists>a ipc1 h1 b. zipc_buf_malloc (Some 9) True (Some (ipc_example\<lparr>im_freebuf := Some 4\<rparr>)) [4 \<mapsto> zbuf_zero\<lparr>zb_len := 0\<rparr>] =
     Inr (Some a, Some ipc1, h1) \<and> h1 a = Some b \<and> contents b = []"
proof -
  have "pool_wf (ipc_example\<lparr>im_freebuf := Some 4\<rparr>) [4 \<mapsto> zbuf_zero\<lparr>zb_len := 0\<rparr>] [4]"
    by (simp add: pool_wf_def zbuf_zero_def buf_wf_def)
  from buf_pool_spec [OF this, of 9] show ?thesis by auto
qed

section \<open>Common headers\<close>

text \<open>C29. Reading a common header computes what applying its fields one after the other to the zero header
  gives: fields in any order, missing ones left at zero, and the last of several with one name counts. The buffer is left at the
  first byte behind the header.\<close>

theorem common_hdr_fields:
  assumes "buf_wf b" "unat (zb_len b) < 2 ^ 31" "unread b = enc_ch fs @ rest" "length fs < 2 ^ 32"
  shows "\<exists>b'. zipc_parse_common_hdr (Some b) = Inr (True, fold apply_field fs ch_zero, Some b') \<and> unread b' = rest \<and> contents b' = contents b"
  using common_hdr_unread [OF assms] unread_adv [OF assms(1,3)] by simp

theorem common_hdr_fields_witness:
  "\<exists>b'. zipc_parse_common_hdr (Some (buf_of (enc_ch [F_noti False, F_sn 3, F_noti True]))) =
     Inr (True, \<lparr>ch_sn = 3, ch_req = False, ch_noti = True\<rparr>, Some b') \<and> unread b' = []"
proof -
  have "length (enc_ch [F_noti False, F_sn 3, F_noti True]) < 1000"
    using enc_uint32_short [of 3] by (simp add: enc_ch_def enc_fields_def enc_str_def ch_names small_count)
  note f = buf_of_facts [OF this]
  show ?thesis using common_hdr_fields [OF f(1,2), of "[F_noti False, F_sn 3, F_noti True]" "[]"] f(3) by (auto simp: ch_zero_def)
qed

end
