(* ===== verification/Zcrt_Sch_Frame.thy ===== *)
theory Zcrt_Sch_Frame
  imports Zcrt_Schedule
begin

text \<open>
  What the operations of the scheduler leave alone. The memory a thread can reach, its job nodes and its schedules, is
  given by two sets; every operation on the thread stays inside them, so what holds of another thread still holds
  afterwards. This is what lets the two threads of an IPC server be treated one at a time. The last part follows the
  counter of the schedules that share a thread, on the ports whose counters count.
\<close>

section \<open>What a thread owns\<close>

definition opt_in :: "'a set \<Rightarrow> 'a option \<Rightarrow> bool" where
  "opt_in A x \<longleftrightarrow> (case x of None \<Rightarrow> True | Some a \<Rightarrow> a \<in> A)"

lemma opt_in_simps [simp]: "opt_in A None" "opt_in A (Some a) \<longleftrightarrow> a \<in> A"
  by (simp_all add: opt_in_def)

lemma opt_inD: "opt_in A x \<Longrightarrow> x = Some a \<Longrightarrow> a \<in> A"
  by simp

text \<open>
  The thread \<^verbatim>\<open>t\<close> reaches no job nodes but those in \<^verbatim>\<open>S\<close> and no schedules but those in
  \<^verbatim>\<open>T\<close>, which all have this thread.
\<close>

definition que_in :: "addr set \<Rightarrow> zSchPriList \<Rightarrow> bool" where
  "que_in S q \<longleftrightarrow> opt_in S (pl_jobs q) \<and> opt_in S (pl_tail q)"

definition thr_in :: "addr set \<Rightarrow> addr set \<Rightarrow> zSchThr \<Rightarrow> bool" where
  "thr_in S T th \<longleftrightarrow> opt_in S (th_freejobs th) \<and> (\<forall>q \<in> set (th_que th). que_in S q) \<and> opt_in T (th_sch_list th)"

definition owns :: "addr \<Rightarrow> addr set \<Rightarrow> addr set \<Rightarrow> zSchWorld \<Rightarrow> bool" where
  "owns t S T w \<longleftrightarrow> (\<exists>th. sx_thr w t = Some th \<and> thr_in S T th) \<and>
     (\<forall>j \<in> S. \<forall>n. sx_job w j = Some n \<longrightarrow> opt_in S (jb_next n) \<and> opt_in T (jb_sch n)) \<and>
     (\<forall>s \<in> T. \<forall>c. sx_sch w s = Some c \<longrightarrow> opt_in T (sc_next c) \<and> sc_thr c = Some t)"

text \<open>What does not change when an operation works on the thread.\<close>

definition elsewhere :: "addr \<Rightarrow> addr set \<Rightarrow> addr set \<Rightarrow> zSchWorld \<Rightarrow> zSchWorld \<Rightarrow> bool" where
  "elsewhere t S T w w' \<longleftrightarrow> (\<forall>j. j \<notin> S \<longrightarrow> sx_job w' j = sx_job w j) \<and> (\<forall>s. s \<notin> T \<longrightarrow> sx_sch w' s = sx_sch w s) \<and>
     (\<forall>r. r \<noteq> t \<longrightarrow> sx_thr w' r = sx_thr w r) \<and> sx_mod w' = sx_mod w"

definition thr_view :: "zSchThr \<Rightarrow> bool \<times> s32 \<times> addr option \<times> addr option" where
  "thr_view th = (th_run th, th_refCnt th, th_module th, th_next th)"

definition sch_view :: "zSchedule \<Rightarrow> u32 \<times> s32" where
  "sch_view c = (sc_pri c, sc_maxsize c)"

definition keeps :: "addr \<Rightarrow> addr set \<Rightarrow> addr set \<Rightarrow> zSchWorld \<Rightarrow> zSchWorld \<Rightarrow> bool" where
  "keeps t S T w w' \<longleftrightarrow> owns t S T w' \<and> elsewhere t S T w w' \<and>
     map_option thr_view (sx_thr w' t) = map_option thr_view (sx_thr w t) \<and>
     (\<forall>s. map_option sch_view (sx_sch w' s) = map_option sch_view (sx_sch w s))"

lemma elsewhere_trans: "elsewhere t S T w w1 \<Longrightarrow> elsewhere t S T w1 w2 \<Longrightarrow> elsewhere t S T w w2"
  by (simp add: elsewhere_def)

lemma keeps_trans: "keeps t S T w w1 \<Longrightarrow> keeps t S T w1 w2 \<Longrightarrow> keeps t S T w w2"
  by (auto simp: keeps_def intro: elsewhere_trans)

lemma keeps_refl: "owns t S T w \<Longrightarrow> keeps t S T w w"
  by (simp add: keeps_def elsewhere_def)

lemma keeps_owns: "keeps t S T w w' \<Longrightarrow> owns t S T w'"
  by (simp add: keeps_def)

lemma ownsE:
  assumes "owns t S T w"
  obtains th where "sx_thr w t = Some th" "thr_in S T th"
  using assms by (auto simp: owns_def)

lemma owns_thr: "owns t S T w \<Longrightarrow> sx_thr w t = Some th \<Longrightarrow> thr_in S T th"
  by (auto simp: owns_def)

lemma owns_job: "owns t S T w \<Longrightarrow> j \<in> S \<Longrightarrow> sx_job w j = Some n \<Longrightarrow> opt_in S (jb_next n) \<and> opt_in T (jb_sch n)"
  by (auto simp: owns_def)

lemma owns_sch: "owns t S T w \<Longrightarrow> s \<in> T \<Longrightarrow> sx_sch w s = Some c \<Longrightarrow> opt_in T (sc_next c) \<and> sc_thr c = Some t"
  by (auto simp: owns_def)

lemma set_mod_simps [simp]: "sx_mod (set_job a n w) = sx_mod w" "sx_mod (set_sch a c w) = sx_mod w" "sx_mod (set_thr a t w) = sx_mod w"
  by (simp_all add: set_job_def set_sch_def set_thr_def)

lemma keeps_job:
  "owns t S T w \<Longrightarrow> j \<in> S \<Longrightarrow> opt_in S (jb_next n) \<Longrightarrow> opt_in T (jb_sch n) \<Longrightarrow> keeps t S T w (set_job j n w)"
  by (auto simp: keeps_def owns_def elsewhere_def)

lemma keeps_sch:
  "owns t S T w \<Longrightarrow> s \<in> T \<Longrightarrow> opt_in T (sc_next c) \<Longrightarrow> sc_thr c = Some t \<Longrightarrow> map_option sch_view (sx_sch w s) = Some (sch_view c) \<Longrightarrow>
    keeps t S T w (set_sch s c w)"
  by (auto simp: keeps_def owns_def elsewhere_def)

lemma keeps_thr:
  "owns t S T w \<Longrightarrow> sx_thr w t = Some th \<Longrightarrow> thr_in S T th' \<Longrightarrow> thr_view th' = thr_view th \<Longrightarrow> keeps t S T w (set_thr t th' w)"
  by (auto simp: keeps_def owns_def elsewhere_def)

lemma que_in_nth: "thr_in S T th \<Longrightarrow> k < length (th_que th) \<Longrightarrow> que_in S (th_que th ! k)"
  by (simp add: thr_in_def)

lemma thr_in_que:
  assumes "thr_in S T th" "k < length (th_que th) \<Longrightarrow> que_in S q"
  shows "thr_in S T (th\<lparr>th_que := (th_que th)[k := q]\<rparr>)"
proof (cases "k < length (th_que th)")
  case True
  have "\<forall>p \<in> set ((th_que th)[k := q]). que_in S p"
    using assms(1) assms(2) [OF True] set_update_subset_insert [of "th_que th" k q] by (auto simp: thr_in_def)
  then show ?thesis using assms by (simp add: thr_in_def)
qed (use assms(1) in \<open>simp add: thr_in_def list_update_beyond\<close>)

lemma thr_in_sem: "thr_in S T th \<Longrightarrow> thr_in S T (th\<lparr>th_sem := n\<rparr>)"
  by (simp add: thr_in_def)

section \<open>Operations keep to what their thread owns\<close>

lemma job_new_keeps:
  assumes o: "owns t S T w" and new: "opt_in S new" and r: "zcrt_s_job_new new t cb w = Inr (r, w')"
  shows "keeps t S T w w' \<and> opt_in S r"
proof -
  obtain th where th: "sx_thr w t = Some th" "thr_in S T th" using ownsE [OF o] by blast
  let ?th = "th\<lparr>th_jobadded := th_jobadded th + 1\<rparr>"
  let ?job = "\<lparr>jb_fn = Some cb, jb_argn = 0, jb_args = replicate ZCRT_CB_MAX_ARGS 0, jb_sch = None, jb_next = None\<rparr>"
  have job: "keeps t S T v (set_job j ?job v)" if "owns t S T v" "j \<in> S" for j v
    using that by (intro keeps_job) simp_all
  show ?thesis
  proof (cases "th_freejobs th")
    case None
    let ?w = "set_thr t (?th\<lparr>th_joballoced := th_joballoced th + 1\<rparr>) w"
    have k: "keeps t S T w ?w" using th by (intro keeps_thr [OF o th(1)]) (simp_all add: thr_in_def thr_view_def)
    show ?thesis
      using r th None new k job [OF keeps_owns [OF k]] keeps_trans [OF k]
      by (auto simp: zcrt_s_job_new_def Let_def split: option.splits)
  next
    case (Some j)
    then have j: "j \<in> S" using th(2) by (simp add: thr_in_def)
    obtain n where n: "sx_job w j = Some n" using r th Some by (auto simp: zcrt_s_job_new_def rbind_eq_Inr)
    have k: "keeps t S T w (set_thr t (?th\<lparr>th_freejobs := jb_next n\<rparr>) w)"
      using th owns_job [OF o j n] by (intro keeps_thr [OF o th(1)]) (simp_all add: thr_in_def thr_view_def)
    show ?thesis
      using r th Some n j keeps_trans [OF k job [OF keeps_owns [OF k] j]] by (auto simp: zcrt_s_job_new_def Let_def thr_in_def)
  qed
qed

lemma job_delete_keeps:
  assumes o: "owns t S T w" and j: "j \<in> S" and r: "zcrt_s_job_delete_has_mutex t j w = Inr w'"
  shows "keeps t S T w w'"
proof -
  obtain th where th: "sx_thr w t = Some th" "thr_in S T th" using ownsE [OF o] by blast
  obtain n where n: "sx_job w j = Some n" using r by (auto simp: zcrt_s_job_delete_has_mutex_def rbind_eq_Inr)
  let ?n = "n\<lparr>jb_next := th_freejobs th, jb_fn := None, jb_sch := None\<rparr>"
  let ?th = "th\<lparr>th_freejobs := Some j, th_jobfreed := th_jobfreed th + 1\<rparr>"
  have 1: "keeps t S T w (set_job j ?n w)" using th(2) by (intro keeps_job [OF o j]) (simp_all add: thr_in_def)
  have 2: "keeps t S T (set_job j ?n w) (set_thr t ?th (set_job j ?n w))"
    using th j by (intro keeps_thr [OF keeps_owns [OF 1], of th]) (simp_all add: thr_in_def thr_view_def)
  note 3 = keeps_trans [OF 1 2]
  have "keeps t S T w (set_sch s (sc\<lparr>sc_cursize := sc_cursize sc - 1\<rparr>) (set_thr t ?th (set_job j ?n w)))"
    if s: "jb_sch n = Some s" "sx_sch w s = Some sc" for s sc
  proof -
    have "s \<in> T" using owns_job [OF o j n] s(1) by simp
    then show ?thesis using owns_sch [OF o _ s(2)] s(2) by (intro keeps_trans [OF 3] keeps_sch [OF keeps_owns [OF 3]]) (simp_all add: sch_view_def)
  qed
  then show ?thesis using r th n 3 by (auto simp: zcrt_s_job_delete_has_mutex_def Let_def rbind_eq_Inr split: option.splits)
qed

lemma insert_job_keeps:
  assumes o: "owns t S T w" and s: "s \<in> T" and j: "j \<in> S" and r: "zcrt_s_insert_job s j w = Inr w'"
  shows "keeps t S T w w'"
proof -
  obtain th where th: "sx_thr w t = Some th" "thr_in S T th" using ownsE [OF o] by blast
  obtain sc where sc: "sx_sch w s = Some sc" using r by (auto simp: zcrt_s_insert_job_def rbind_eq_Inr)
  note sc' = owns_sch [OF o s sc]
  let ?k = "unat (sc_pri sc)"
  have k: "?k < length (th_que th)" using r th sc sc' by (auto simp: zcrt_s_insert_job_def Let_def split: if_splits)
  let ?que = "th_que th ! ?k"
  let ?sc1 = "sc\<lparr>sc_cursize := sc_cursize sc + 1\<rparr>"
  let ?sc2 = "if sint (sc_maxhold ?sc1) < sint (sc_cursize ?sc1) then ?sc1\<lparr>sc_maxhold := sc_cursize ?sc1\<rparr> else ?sc1"
  let ?out = "\<lambda>q w1. set_sch s ?sc2 (set_thr t (th\<lparr>th_que := (th_que th)[?k := q], th_sem := th_sem th + 1\<rparr>) w1)"
  have fin: "keeps t S T w (?out q w1)" if w1: "keeps t S T w w1" "sx_thr w1 t = Some th" "sx_sch w1 s = Some sc" and q: "que_in S q" for q w1
  proof -
    have 2: "keeps t S T w1 (set_thr t (th\<lparr>th_que := (th_que th)[?k := q], th_sem := th_sem th + 1\<rparr>) w1)"
      using thr_in_sem [OF thr_in_que [OF th(2) q]] by (intro keeps_thr [OF keeps_owns [OF w1(1)] w1(2)]) (simp_all add: thr_view_def)
    show ?thesis using sc' s w1(3) by (intro keeps_trans [OF keeps_trans [OF w1(1) 2]] keeps_sch [OF keeps_owns [OF 2]]) (simp_all add: sch_view_def)
  qed
  show ?thesis
  proof (cases "pl_jobs ?que")
    case None
    then show ?thesis using r th sc sc' k j fin [OF keeps_refl [OF o] th(1) sc]
      by (auto simp: zcrt_s_insert_job_def Let_def rbind_eq_Inr que_in_def split: if_splits)
  next
    case (Some a)
    then obtain l ln where l: "pl_tail ?que = Some l" "sx_job w l = Some ln"
      using r th sc sc' k by (auto simp: zcrt_s_insert_job_def Let_def rbind_eq_Inr split: if_splits)
    have q: "que_in S ?que" using que_in_nth [OF th(2) k] .
    then have lS: "l \<in> S" using l by (simp add: que_in_def)
    have 1: "keeps t S T w (set_job l (ln\<lparr>jb_next := Some j\<rparr>) w)"
      using owns_job [OF o lS l(2)] j by (intro keeps_job [OF o lS]) simp_all
    then show ?thesis using r th sc sc' k j l Some q fin [OF 1, of "?que\<lparr>pl_tail := Some j\<rparr>"]
      by (auto simp: zcrt_s_insert_job_def Let_def rbind_eq_Inr que_in_def split: if_splits)
  qed
qed

lemma new_insert_keeps:
  assumes o: "owns t S T w" and s: "s \<in> T" and new: "opt_in S new" and r: "zcrt_s_job_new new t cb w = Inr (r1, w1)"
    and i: "r1 = None \<and> w' = w1 \<or> (\<exists>j n m. r1 = Some j \<and> sx_job w1 j = Some n \<and> jb_next m = jb_next n \<and> jb_sch m = Some s \<and>
      zcrt_s_insert_job s j (set_job j m w1) = Inr w')"
  shows "keeps t S T w w'"
proof -
  note n = job_new_keeps [OF o new r]
  have ow: "owns t S T w1" using n keeps_owns by blast
  from i show ?thesis
  proof (elim disjE exE conjE)
    assume "w' = w1"
    then show ?thesis using n by simp
  next
    fix j n' m
    assume m: "r1 = Some j" "sx_job w1 j = Some n'" "jb_next m = jb_next n'" "jb_sch m = Some s" "zcrt_s_insert_job s j (set_job j m w1) = Inr w'"
    have j: "j \<in> S" using n m(1) by simp
    have k: "keeps t S T w1 (set_job j m w1)" using owns_job [OF ow j m(2)] m s by (intro keeps_job [OF ow j]) simp_all
    show ?thesis using n keeps_trans [OF k insert_job_keeps [OF keeps_owns [OF k] s j m(5)]] keeps_trans by blast
  qed
qed

lemma sendjob_argn_keeps:
  assumes o: "owns t S T w" and s: "s \<in> T" and new: "opt_in S new"
    and r: "zcrt_schedule_sendjob_argn new (Some s) fn argn args w = Inr (e, w')"
  shows "keeps t S T w w'"
proof (cases "w' = w")
  case False
  obtain r1 w1 where 1: "zcrt_s_job_new new t (the fn) w = Inr (r1, w1)"
    "r1 = None \<and> w' = w1 \<or> (\<exists>j n. r1 = Some j \<and> sx_job w1 j = Some n \<and> zcrt_s_insert_job s j (set_job j (n\<lparr>jb_argn := argn,
        jb_sch := Some s, jb_args := take (unat argn) args @ drop (unat argn) (jb_args n)\<rparr>) w1) = Inr w')"
    using r False owns_sch [OF o s]
    by (auto simp: zcrt_schedule_sendjob_argn_def Let_def rbind_eq_Inr split: option.splits if_splits)
  show ?thesis using 1(2) by (intro new_insert_keeps [OF o s new 1(1)]) fastforce
qed (simp add: keeps_refl [OF o])

lemma sendjob_keeps:
  assumes o: "owns t S T w" and s: "s \<in> T" and new: "opt_in S new"
    and r: "zcrt_schedule_sendjob new (Some s) fn p1 p2 w = Inr (e, w')"
  shows "keeps t S T w w'"
proof (cases "w' = w")
  case False
  obtain r1 w1 where 1: "zcrt_s_job_new new t (the fn) w = Inr (r1, w1)"
    "r1 = None \<and> w' = w1 \<or> (\<exists>j n. r1 = Some j \<and> sx_job w1 j = Some n \<and> zcrt_s_insert_job s j (set_job j (n\<lparr>jb_argn := 2,
        jb_args := (jb_args n)[0 := p1, 1 := p2], jb_sch := Some s\<rparr>) w1) = Inr w')"
    using r False owns_sch [OF o s] by (auto simp: zcrt_schedule_sendjob_def rbind_eq_Inr split: option.splits if_splits)
  show ?thesis using 1(2) by (intro new_insert_keeps [OF o s new 1(1)]) fastforce
qed (simp add: keeps_refl [OF o])

lemma get_first_in:
  assumes "get_first h qs = Inr (r, qs')" "\<forall>q \<in> set qs. que_in S q" "\<forall>j \<in> S. \<forall>n. h j = Some n \<longrightarrow> opt_in S (jb_next n)"
  shows "opt_in S r \<and> (\<forall>q \<in> set qs'. que_in S q)"
  using assms(1,2)
proof (induction qs arbitrary: r qs')
  case Nil
  then show ?case by simp
next
  case (Cons q qs)
  obtain r1 q1 where g: "zcrt_s_thr_getjob h q = Inr (r1, q1)" using Cons.prems(1) by (auto simp: rbind_eq_Inr)
  have q1: "opt_in S r1 \<and> que_in S q1"
    using g Cons.prems(2) assms(3)
    by (auto simp: zcrt_s_thr_getjob_def rbind_eq_Inr que_in_def Let_def split: option.splits if_splits)
  show ?case
  proof (cases r1)
    case None
    then show ?thesis using Cons g q1 by (auto simp: rbind_eq_Inr)
  next
    case (Some j)
    then show ?thesis using Cons.prems g q1 by auto
  qed
qed

lemma take_job_keeps:
  assumes o: "owns t S T w" and r: "take_job t w = Inr (x, w')"
  shows "keeps t S T w w'"
proof -
  obtain th where th: "sx_thr w t = Some th" "thr_in S T th" using ownsE [OF o] by blast
  obtain job qs where g: "get_first (sx_job w) (th_que th) = Inr (job, qs)" using r th by (auto simp: take_job_def rbind_eq_Inr)
  have i: "opt_in S job \<and> (\<forall>q \<in> set qs. que_in S q)"
    using th(2) owns_job [OF o] by (intro get_first_in [OF g]) (auto simp: thr_in_def)
  have k: "keeps t S T w (set_thr t (th\<lparr>th_que := qs\<rparr>) w)"
    using th i by (intro keeps_thr [OF o th(1)]) (simp_all add: thr_in_def thr_view_def)
  show ?thesis
  proof (cases job)
    case None
    then show ?thesis using r th g k by (simp add: take_job_def)
  next
    case (Some j)
    then have "zcrt_s_job_delete_has_mutex t j (set_thr t (th\<lparr>th_que := qs\<rparr>) w) = Inr w'"
      using r th g by (auto simp: take_job_def rbind_eq_Inr)
    then show ?thesis using i Some by (intro keeps_trans [OF k job_delete_keeps [OF keeps_owns [OF k]]]) simp_all
  qed
qed

lemma remove_job_keeps:
  assumes o: "owns t S T w" and j: "j \<in> S" "opt_in S prev" "opt_in S nxt" and r: "remove_job t k j prev nxt w = Inr (prev1, w')"
  shows "keeps t S T w w' \<and> opt_in S prev1"
proof -
  obtain w1 where w1: "zcrt_s_job_delete_has_mutex t j w = Inr w1" using r by (auto simp: remove_job_def rbind_eq_Inr)
  note k1 = job_delete_keeps [OF o j(1) w1]
  obtain th where th: "sx_thr w1 t = Some th" "thr_in S T th" using ownsE [OF keeps_owns [OF k1]] by blast
  let ?set = "\<lambda>que. th\<lparr>th_que := (th_que th)[k := (if pl_tail que = Some j then que\<lparr>pl_tail := None\<rparr> else que)]\<rparr>"
  let ?fits = "\<lambda>que. k < length (th_que th) \<longrightarrow> que_in S que"
  have st: "keeps t S T w2 (set_thr t (?set que) w2)" if "owns t S T w2" "sx_thr w2 t = Some th" "?fits que" for w2 que
  proof -
    have "k < length (th_que th) \<Longrightarrow> que_in S (if pl_tail que = Some j then que\<lparr>pl_tail := None\<rparr> else que)"
      using that(3) by (simp add: que_in_def)
    then show ?thesis using thr_in_que [OF th(2)] by (intro keeps_thr [OF that(1,2)]) (simp_all add: thr_view_def)
  qed
  have q: "?fits (th_que th ! k)" using que_in_nth [OF th(2)] by simp
  show ?thesis
  proof (cases "prev = Some j")
    case True
    let ?q = "(th_que th ! k)\<lparr>pl_jobs := nxt\<rparr>"
    have "?fits ?q" using q j(3) by (simp add: que_in_def)
    then have "keeps t S T w (set_thr t (?set ?q) w1)" by (rule keeps_trans [OF k1 st [OF keeps_owns [OF k1] th(1)]])
    moreover have "w' = set_thr t (?set ?q) w1" "prev1 = nxt"
      using r w1 th True by (auto simp: remove_job_def rbind_eq_Inr Let_def)
    ultimately show ?thesis using j(3) by simp
  next
    case False
    obtain p pn where p: "prev = Some p" "sx_job w1 p = Some pn" using r w1 th False by (auto simp: remove_job_def rbind_eq_Inr)
    have pS: "p \<in> S" using p j(2) by simp
    have k2: "keeps t S T w1 (set_job p (pn\<lparr>jb_next := nxt\<rparr>) w1)"
      using owns_job [OF keeps_owns [OF k1] pS p(2)] j(3) by (intro keeps_job [OF keeps_owns [OF k1] pS]) simp_all
    have "w' = set_thr t (?set (th_que th ! k)) (set_job p (pn\<lparr>jb_next := nxt\<rparr>) w1)" "prev1 = prev"
      using r w1 th False p by (auto simp: remove_job_def rbind_eq_Inr Let_def)
    then show ?thesis using keeps_trans [OF k1 keeps_trans [OF k2 st [OF keeps_owns [OF k2] _ q]]] th(1) j(2) by simp
  qed
qed

lemma remove_jobs_keeps:
  assumes r: "remove_jobs t s k job prev w = Some r"
  shows "owns t S T w \<longrightarrow> opt_in S job \<longrightarrow> opt_in S prev \<longrightarrow> (\<forall>w'. r = Inr w' \<longrightarrow> keeps t S T w w')"
proof (rule remove_jobs.raw_induct [where P = "\<lambda>t s k job prev w r. owns t S T w \<longrightarrow> opt_in S job \<longrightarrow> opt_in S prev \<longrightarrow>
    (\<forall>w'. r = Inr w' \<longrightarrow> keeps t S T w w')", OF _ r], intro impI allI)
  fix rec t s k job prev w r w'
  assume IH: "\<And>t s k job prev w r. rec t s k job prev w = Some r \<Longrightarrow>
      owns t S T w \<longrightarrow> opt_in S job \<longrightarrow> opt_in S prev \<longrightarrow> (\<forall>w'. r = Inr w' \<longrightarrow> keeps t S T w w')"
    and eq: "(case job of
     None \<Rightarrow> Some (Inr w)
   | Some j \<Rightarrow> (case sx_sch w s of
       None \<Rightarrow> Some (Inl NullDeref)
     | Some sc \<Rightarrow>
       if sc_cursize sc = 0 then Some (Inr w)
       else (case sx_job w j of
         None \<Rightarrow> Some (Inl NullDeref)
       | Some n \<Rightarrow>
           if jb_sch n = Some s then
             (case remove_job t k j prev (jb_next n) w of
                Inl e \<Rightarrow> Some (Inl e)
              | Inr (prev1, w1) \<Rightarrow> rec t s k (jb_next n) prev1 w1)
           else rec t s k (jb_next n) job w))) = Some r"
    and a: "owns t S T w" "opt_in S job" "opt_in S prev" "r = Inr w'"
  show "keeps t S T w w'"
  proof (cases "w' = w")
    case False
    obtain j n where j: "job = Some j" "sx_job w j = Some n"
      "jb_sch n = Some s \<and> (\<exists>prev1 w1. remove_job t k j prev (jb_next n) w = Inr (prev1, w1) \<and> rec t s k (jb_next n) prev1 w1 = Some r) \<or>
       rec t s k (jb_next n) job w = Some r"
      using eq a(4) False by (auto split: option.splits if_splits sum.splits)
    have nx: "opt_in S (jb_next n)" using owns_job [OF a(1) _ j(2)] a(2) j(1) by simp
    from j(3) show ?thesis
    proof (elim disjE exE conjE)
      fix prev1 w1 assume r: "remove_job t k j prev (jb_next n) w = Inr (prev1, w1)" "rec t s k (jb_next n) prev1 w1 = Some r"
      have k1: "keeps t S T w w1 \<and> opt_in S prev1" using remove_job_keeps [OF a(1) _ a(3) nx r(1)] a(2) j(1) by simp
      then show ?thesis using IH [OF r(2)] nx a(4) keeps_owns keeps_trans by blast
    next
      assume "rec t s k (jb_next n) job w = Some r"
      then show ?thesis using IH nx a by blast
    qed
  qed (simp add: keeps_refl [OF a(1)])
qed

lemma find_sch_in:
  assumes r: "find_sch h s prev = Some r"
  shows "(\<forall>s \<in> T. \<forall>c. h s = Some c \<longrightarrow> opt_in T (sc_next c)) \<longrightarrow> opt_in T prev \<longrightarrow> (\<forall>p. r = Inr p \<longrightarrow> opt_in T p)"
proof (rule find_sch.raw_induct [where P = "\<lambda>h s prev r. (\<forall>s \<in> T. \<forall>c. h s = Some c \<longrightarrow> opt_in T (sc_next c)) \<longrightarrow>
    opt_in T prev \<longrightarrow> (\<forall>p. r = Inr p \<longrightarrow> opt_in T p)", OF _ r])
  fix rec h s r and prev :: "addr option"
  assume IH: "\<And>h s prev r. rec h s prev = Some r \<Longrightarrow> (\<forall>s \<in> T. \<forall>c. h s = Some c \<longrightarrow> opt_in T (sc_next c)) \<longrightarrow>
      opt_in T prev \<longrightarrow> (\<forall>p. r = Inr p \<longrightarrow> opt_in T p)"
    and eq: "(case prev of
     None \<Rightarrow> Some (Inr None)
   | Some p \<Rightarrow> (case h p of
       None \<Rightarrow> Some (Inl NullDeref)
     | Some n \<Rightarrow> if sc_next n \<noteq> Some s then rec h s (sc_next n) else Some (Inr prev))) = Some r"
  show "(\<forall>s \<in> T. \<forall>c. h s = Some c \<longrightarrow> opt_in T (sc_next c)) \<longrightarrow> opt_in T prev \<longrightarrow> (\<forall>p. r = Inr p \<longrightarrow> opt_in T p)"
  proof (intro impI allI)
    fix p assume a: "\<forall>s \<in> T. \<forall>c. h s = Some c \<longrightarrow> opt_in T (sc_next c)" "opt_in T prev" "r = Inr p"
    show "opt_in T p"
    proof (cases prev)
      case None
      then show ?thesis using eq a(3) by simp
    next
      case (Some q)
      then obtain n where n: "h q = Some n" "sc_next n = Some s \<and> p = prev \<or> rec h s (sc_next n) = Some r"
        using eq a(3) by (cases "h q") (simp_all split: if_splits)
      have "opt_in T (sc_next n)" using a(1,2) Some n(1) by simp
      then show ?thesis using n(2) a IH by blast
    qed
  qed
qed

lemma remove_sch_keeps:
  assumes o: "owns t S T w" and s: "s \<in> T" and r: "zcrt_s_thr_remove_sch t s w = Inr w'"
  shows "keeps t S T w w'"
proof -
  obtain th where th: "sx_thr w t = Some th" "thr_in S T th" using ownsE [OF o] by blast
  obtain sc where sc: "sx_sch w s = Some sc" using r by (auto simp: zcrt_s_thr_remove_sch_def rbind_eq_Inr)
  let ?A = "if 0 < sint (sc_cursize sc)
            then (if unat (sc_pri sc) \<ge> length (th_que th) then Inl OutOfBounds
                  else let job = pl_jobs (th_que th ! unat (sc_pri sc)) in run (remove_jobs t s (unat (sc_pri sc)) job job w))
            else Inr w"
  have "rbind ?A (\<lambda>w1. rbind (deref (sx_thr w1 t)) (\<lambda>th1. rbind (deref (sx_sch w1 s)) (\<lambda>sc1.
     if th_sch_list th1 = Some s then Inr (set_thr t (th1\<lparr>th_sch_list := sc_next sc1\<rparr>) w1)
     else rbind (run (find_sch (sx_sch w1) s (th_sch_list th1))) (\<lambda>prev. case prev of
       None \<Rightarrow> Inr w1
     | Some p \<Rightarrow> rbind (deref (sx_sch w1 p)) (\<lambda>pn. Inr (set_sch p (pn\<lparr>sc_next := sc_next sc1\<rparr>) w1)))))) = Inr w'"
    using r unfolding zcrt_s_thr_remove_sch_def th(1) sc deref_simps rbind.simps .
  then obtain w1 where w1: "?A = Inr w1" "rbind (deref (sx_thr w1 t)) (\<lambda>th1. rbind (deref (sx_sch w1 s)) (\<lambda>sc1.
     if th_sch_list th1 = Some s then Inr (set_thr t (th1\<lparr>th_sch_list := sc_next sc1\<rparr>) w1)
     else rbind (run (find_sch (sx_sch w1) s (th_sch_list th1))) (\<lambda>prev. case prev of
       None \<Rightarrow> Inr w1
     | Some p \<Rightarrow> rbind (deref (sx_sch w1 p)) (\<lambda>pn. Inr (set_sch p (pn\<lparr>sc_next := sc_next sc1\<rparr>) w1))))) = Inr w'"
    by (blast dest: rbind_eq_Inr [THEN iffD1])
  obtain th1 sc1 where ts: "sx_thr w1 t = Some th1" "sx_sch w1 s = Some sc1" using w1(2) by (auto simp: rbind_eq_Inr)
  have k1: "keeps t S T w w1"
  proof (cases "w1 = w")
    case False
    then have q: "unat (sc_pri sc) < length (th_que th)" and
      r: "run (remove_jobs t s (unat (sc_pri sc)) (pl_jobs (th_que th ! unat (sc_pri sc))) (pl_jobs (th_que th ! unat (sc_pri sc))) w) = Inr w1"
      using w1(1) by (auto simp: Let_def split: if_splits)
    have "opt_in S (pl_jobs (th_que th ! unat (sc_pri sc)))" using que_in_nth [OF th(2) q] by (simp add: que_in_def)
    then show ?thesis using r remove_jobs_keeps o by (auto simp: run_def split: option.splits)
  qed (simp add: keeps_refl [OF o])
  note o1 = keeps_owns [OF k1]
  have nx: "opt_in T (sc_next sc1)" using owns_sch [OF o1 s ts(2)] by simp
  show ?thesis
  proof (cases "th_sch_list th1 = Some s")
    case True
    have "keeps t S T w1 (set_thr t (th1\<lparr>th_sch_list := sc_next sc1\<rparr>) w1)"
      using owns_thr [OF o1 ts(1)] nx by (intro keeps_thr [OF o1 ts(1)]) (simp_all add: thr_in_def thr_view_def)
    then show ?thesis using w1(2) ts True keeps_trans [OF k1] by simp
  next
    case False
    then obtain prev where prev: "run (find_sch (sx_sch w1) s (th_sch_list th1)) = Inr prev"
      "(case prev of None \<Rightarrow> Inr w1 | Some p \<Rightarrow> rbind (deref (sx_sch w1 p)) (\<lambda>pn. Inr (set_sch p (pn\<lparr>sc_next := sc_next sc1\<rparr>) w1))) = Inr w'"
      using w1(2) ts by (auto simp: rbind_eq_Inr)
    then have fs: "find_sch (sx_sch w1) s (th_sch_list th1) = Some (Inr prev)"
      by (cases "find_sch (sx_sch w1) s (th_sch_list th1)") auto
    have pT: "opt_in T prev" using find_sch_in [OF fs, of T] owns_thr [OF o1 ts(1)] owns_sch [OF o1] by (simp add: thr_in_def)
    show ?thesis
    proof (cases prev)
      case None
      then show ?thesis using prev(2) k1 by simp
    next
      case (Some p)
      then obtain pn where pn: "sx_sch w1 p = Some pn" "w' = set_sch p (pn\<lparr>sc_next := sc_next sc1\<rparr>) w1" using prev(2) by (auto simp: rbind_eq_Inr)
      have p: "p \<in> T" using pT Some by simp
      show ?thesis unfolding pn(2) using nx owns_sch [OF o1 p pn(1)] pn(1) by (intro keeps_trans [OF k1 keeps_sch [OF o1 p]]) (simp_all add: sch_view_def)
    qed
  qed
qed


section \<open>Two threads\<close>

definition apart :: "addr \<Rightarrow> addr set \<Rightarrow> addr set \<Rightarrow> addr \<Rightarrow> addr set \<Rightarrow> addr set \<Rightarrow> bool" where
  "apart t S T t1 S1 T1 \<longleftrightarrow> t \<noteq> t1 \<and> S \<inter> S1 = {} \<and> T \<inter> T1 = {}"

lemma apart_sym: "apart t S T t1 S1 T1 \<Longrightarrow> apart t1 S1 T1 t S T"
  by (auto simp: apart_def)

lemma chain_within:
  assumes "chain nx h p as q" "opt_in A p" "\<And>a n. a \<in> A \<Longrightarrow> h a = Some n \<Longrightarrow> opt_in A (nx n)"
  shows "set as \<subseteq> A"
  using assms(1,2)
proof (induction as arbitrary: p)
  case (Cons a as)
  then obtain n where n: "p = Some a" "h a = Some n" "chain nx h (nx n) as q" by auto
  then have "a \<in> A" using Cons.prems(2) by simp
  then show ?case using Cons.IH [OF n(3) assms(3) [OF _ n(2)]] by simp
qed simp

lemma owns_nodes:
  assumes o: "owns t S T w" and l: "sch_lists t w fs qs"
  shows "set (concat (fs # qs)) \<subseteq> S"
proof -
  obtain th where th: "sx_thr w t = Some th" "length (th_que th) = EZCRTSchPri_num" "length qs = EZCRTSchPri_num"
    "chains jb_next (sx_job w) (th_freejobs th # map pl_jobs (th_que th)) (fs # qs)"
    "\<And>k. k < EZCRTSchPri_num \<Longrightarrow> chain jb_next (sx_job w) (pl_jobs (th_que th ! k)) (qs ! k) None"
    using sch_listsE [OF l] by metis
  note i = owns_thr [OF o th(1)]
  have nx: "opt_in S (jb_next n)" if "a \<in> S" "sx_job w a = Some n" for a n using owns_job [OF o that] by simp
  have "chain jb_next (sx_job w) (th_freejobs th) fs None" using chainsD(3) [OF th(4), of 0] by simp
  then have "set fs \<subseteq> S" by (rule chain_within) (use i nx in \<open>simp_all add: thr_in_def\<close>)
  moreover have "set (qs ! k) \<subseteq> S" if "k < EZCRTSchPri_num" for k
    by (rule chain_within [OF th(5) [OF that]]) (use que_in_nth [OF i, of k] th(2) that nx in \<open>simp_all add: que_in_def\<close>)
  then have "\<forall>q \<in> set qs. set q \<subseteq> S" using th(3) by (metis in_set_conv_nth)
  ultimately show ?thesis by auto
qed

lemma elsewhere_owns:
  assumes e: "elsewhere t S T w w'" and a: "apart t S T t1 S1 T1" and o: "owns t1 S1 T1 w"
  shows "owns t1 S1 T1 w'"
proof -
  have "sx_thr w' t1 = sx_thr w t1" "\<And>j. j \<in> S1 \<Longrightarrow> sx_job w' j = sx_job w j" "\<And>s. s \<in> T1 \<Longrightarrow> sx_sch w' s = sx_sch w s"
    using e a by (auto simp: elsewhere_def apart_def)
  then show ?thesis using o by (simp add: owns_def)
qed

lemma elsewhere_lists:
  assumes e: "elsewhere t S T w w'" and a: "apart t S T t1 S1 T1" and o: "owns t1 S1 T1 w" and l: "sch_lists t1 w fs qs"
  shows "sch_lists t1 w' fs qs" "queues w' qs = queues w qs"
proof -
  have n: "a \<in> set (concat (fs # qs)) \<Longrightarrow> sx_job w' a = sx_job w a" for a
  proof -
    assume "a \<in> set (concat (fs # qs))"
    then have "a \<in> S1" using owns_nodes [OF o l] by blast
    then have "a \<notin> S" using assms(2) by (auto simp: apart_def)
    then show ?thesis using e by (simp add: elsewhere_def)
  qed
  have th: "sx_thr w' t1 = sx_thr w t1" using e a by (simp add: elsewhere_def apart_def)
  have "chains jb_next (sx_job w') ps (fs # qs)" if "chains jb_next (sx_job w) ps (fs # qs)" for ps
    by (rule chains_frame [OF that]) (simp only: n)
  then show "sch_lists t1 w' fs qs" using l unfolding sch_lists_def th by blast
  have "contents_of jb_set_next (sx_job w') q = contents_of jb_set_next (sx_job w) q" if "q \<in> set qs" for q
  proof (rule contents_of_cong)
    fix b assume "b \<in> set q"
    then have "b \<in> set (concat (fs # qs))" using that by auto
    then show "jb_set_next None (the (sx_job w' b)) = jb_set_next None (the (sx_job w b))" by (simp only: n)
  qed
  then show "queues w' qs = queues w qs" by (simp add: queues_def)
qed

text \<open>What an operation on one thread leaves of another: its lists, its queues, its schedules and their counts.\<close>

lemma elsewhere_wf:
  assumes e: "elsewhere t S T w w'" and a: "apart t S T t1 S1 T1" and o1: "owns t1 S1 T1 w" and wf: "sch_wf t1 w fs qs"
    and o: "owns t S T w" "owns t S T w'"
  shows "sch_wf t1 w' fs qs" "queues w' qs = queues w qs"
proof -
  have l: "sch_lists t1 w fs qs" and j: "sch_jobs t1 (sx_sch w) (queues w qs)" using wf by (simp_all add: sch_wf_def)
  note el = elsewhere_lists [OF e a o1 l]
  have s: "sx_sch w' s = Some c \<and> sc_thr c = Some t1 \<longleftrightarrow> sx_sch w s = Some c \<and> sc_thr c = Some t1" for s c
  proof (cases "s \<in> T")
    case True
    then show ?thesis using owns_sch [OF o(1) True] owns_sch [OF o(2) True] a by (auto simp: apart_def)
  next
    case False
    then show ?thesis using e by (simp add: elsewhere_def)
  qed
  have "sch_jobs t1 (sx_sch w') (queues w qs)"
    using j unfolding sch_jobs_def
  proof (elim conjE, intro conjI allI impI ballI)
    assume jb: "\<forall>k < EZCRTSchPri_num. \<forall>n \<in> set (queues w qs ! k). jb_fn n \<noteq> None \<and>
       (\<exists>s sc. jb_sch n = Some s \<and> sx_sch w s = Some sc \<and> sc_thr sc = Some t1 \<and> unat (sc_pri sc) = k)"
    fix k n assume kn: "k < EZCRTSchPri_num" "n \<in> set (queues w qs ! k)"
    show "jb_fn n \<noteq> None" using jb kn by blast
    show "\<exists>s sc. jb_sch n = Some s \<and> sx_sch w' s = Some sc \<and> sc_thr sc = Some t1 \<and> unat (sc_pri sc) = k"
      using jb kn s by blast
  next
    fix r c assume "sx_sch w' r = Some c" "sc_thr c = Some t1" "unat (sc_pri c) < EZCRTSchPri_num"
    moreover from this s have "sx_sch w r = Some c" by blast
    moreover assume "\<forall>s sc. sx_sch w s = Some sc \<longrightarrow> sc_thr sc = Some t1 \<longrightarrow> unat (sc_pri sc) < EZCRTSchPri_num \<longrightarrow>
       sc_cursize sc = of_nat (held s (queues w qs ! unat (sc_pri sc))) \<and>
       held s (queues w qs ! unat (sc_pri sc)) \<le> unat (sc_maxsize sc) \<and> unat (sc_maxsize sc) < 65536"
    ultimately show "sc_cursize c = of_nat (held r (queues w qs ! unat (sc_pri c)))"
      "held r (queues w qs ! unat (sc_pri c)) \<le> unat (sc_maxsize c)" "unat (sc_maxsize c) < 65536" by blast+
  qed
  then show "sch_wf t1 w' fs qs" "queues w' qs = queues w qs" using el by (simp_all add: sch_wf_def)
qed

lemma elsewhere_sch:
  assumes "elsewhere t S T w w'" "apart t S T t1 S1 T1" "s \<in> T1"
  shows "sx_sch w' s = sx_sch w s"
  using assms by (auto simp: elsewhere_def apart_def)

lemma elsewhere_chain:
  assumes e: "elsewhere t S T w w'" and a: "apart t S T t1 S1 T1" and o: "owns t1 S1 T1 w" and c: "sch_chain t1 w ss"
  shows "sch_chain t1 w' ss"
proof -
  obtain th where th: "sx_thr w t1 = Some th" "chain sc_next (sx_sch w) (th_sch_list th) ss None" using c by (auto simp: sch_chain_def)
  have "set ss \<subseteq> T1" using owns_thr [OF o th(1)] owns_sch [OF o] by (intro chain_within [OF th(2)]) (auto simp: thr_in_def)
  then have "\<And>s. s \<in> set ss \<Longrightarrow> sx_sch w' s = sx_sch w s" using elsewhere_sch [OF e a] by blast
  then have "chain sc_next (sx_sch w') (th_sch_list th) ss None" using th(2) by (simp add: chain_frame [where h = "sx_sch w" and h' = "sx_sch w'"])
  moreover have "sx_thr w' t1 = sx_thr w t1" using e a by (simp add: elsewhere_def apart_def)
  ultimately show ?thesis using th(1) by (simp add: sch_chain_def)
qed

lemma elsewhere_new:
  assumes e: "elsewhere t S T w w'" and a: "apart t S T t1 S1 T1" and n: "opt_in S1 new" and c: "can_new t1 w new"
  shows "can_new t1 w' new"
proof -
  have th: "sx_thr w' t1 = sx_thr w t1" using e a by (simp add: elsewhere_def apart_def)
  have "new = Some j \<Longrightarrow> sx_job w' j = sx_job w j" for j using n e a by (auto simp: elsewhere_def apart_def)
  then show ?thesis using c unfolding can_new_def can_alloc_def th by auto
qed

section \<open>Deleting and counting\<close>

lemma delete_frame:
  assumes o: "owns t S T w" and s: "s \<in> T" "sx_sch w s = Some sc" and th: "sx_thr w t = Some th"
    and r: "zcrt_schedule_delete dec (Some s) w = Inr w'"
  shows "owns t S T w' \<and> elsewhere t S T w w' \<and> sx_sch w' s = None \<and>
    (\<exists>th'. sx_thr w' t = Some th' \<and> th_refCnt th' = snd (dec (th_refCnt th)) \<and> th_next th' = th_next th \<and> th_module th' = th_module th \<and>
      (th_run th' \<longleftrightarrow> th_run th \<and> \<not> (sc_type sc = EZCRTSchType_selfThread \<and> fst (dec (th_refCnt th)) = 0)))"
proof -
  have t: "sc_thr sc = Some t" using owns_sch [OF o s] by simp
  obtain w1 where w1: "zcrt_s_thr_remove_sch t s w = Inr w1" using r s(2) t by (auto simp: zcrt_schedule_delete_def rbind_eq_Inr)
  note k = remove_sch_keeps [OF o s(1) w1]
  obtain th1 where th1: "sx_thr w1 t = Some th1" "thr_in S T th1" using ownsE [OF keeps_owns [OF k]] by blast
  have v: "thr_view th1 = thr_view th" using k th1 th by (simp add: keeps_def)
  let ?th = "if sc_type sc = EZCRTSchType_selfThread \<and> fst (dec (th_refCnt th1)) = 0
    then (th1\<lparr>th_refCnt := snd (dec (th_refCnt th1))\<rparr>)\<lparr>th_run := False\<rparr> else th1\<lparr>th_refCnt := snd (dec (th_refCnt th1))\<rparr>"
  have w': "w' = (set_thr t ?th w1)\<lparr>sx_sch := (sx_sch w1)(s := None)\<rparr>"
    using r s(2) t w1 th1(1) by (auto simp: zcrt_schedule_delete_def rbind_eq_Inr Let_def split_def)
  have i: "thr_in S T ?th" using th1(2) by (simp add: thr_in_def)
  have "owns t S T w'" using keeps_owns [OF k] i unfolding w' by (auto simp: owns_def)
  moreover have "elsewhere t S T w w'" using k s(1) unfolding w' by (auto simp: keeps_def elsewhere_def)
  ultimately show ?thesis using v unfolding w' by (simp add: thr_view_def)
qed

text \<open>The counters of the ports that count.\<close>

definition counting :: "counter_fn \<Rightarrow> counter_fn \<Rightarrow> bool" where
  "counting inc dec \<longleftrightarrow> (\<forall>c. inc c = (c + 1, c + 1) \<and> dec c = (c - 1, c - 1))"

definition schs_of :: "addr \<Rightarrow> zSchWorld \<Rightarrow> addr set" where
  "schs_of t w = {s. \<exists>c. sx_sch w s = Some c \<and> sc_thr c = Some t}"

definition counted :: "addr \<Rightarrow> zSchWorld \<Rightarrow> bool" where
  "counted t w \<longleftrightarrow> (\<exists>th. sx_thr w t = Some th \<and> finite (schs_of t w) \<and> card (schs_of t w) < 2 ^ 31 \<and> th_refCnt th = of_nat (card (schs_of t w)))"

lemma of_nat_small_eq:
  assumes "n < 2 ^ 31"
  shows "(of_nat n :: s32) - 1 = 0 \<longleftrightarrow> n = 1"
proof -
  have "(of_nat n :: s32) - 1 = 0 \<longleftrightarrow> (of_nat n :: s32) = 1" by (rule right_minus_eq)
  also have "\<dots> \<longleftrightarrow> unat (of_nat n :: s32) = unat (1 :: s32)" by (rule word_unat_eq_iff)
  also have "\<dots> \<longleftrightarrow> n = 1" using unat_of_nat_u32_small [of n] assms by simp
  finally show ?thesis .
qed

text \<open>C11. On a port whose counters count, deleting a schedule keeps the counter of its thread equal to the number of the
  schedules that use the thread, and tells the thread to stop exactly when the schedule is the one the thread was created
  for and the only one left. If that one is deleted while others share the thread, no later deletion stops it.\<close>

theorem delete_counted:
  assumes cn: "counting inc dec" and wf: "sch_wf t w fs qs" and ch: "sch_chain t w ss" and o: "owns t S T w" and s: "s \<in> T"
    and sc: "sx_sch w s = Some sc" "unat (sc_pri sc) < EZCRTSchPri_num" and ct: "counted t w"
  shows "\<exists>w' th th'. zcrt_schedule_delete dec (Some s) w = Inr w' \<and> sx_thr w t = Some th \<and> sx_thr w' t = Some th' \<and>
    schs_of t w' = schs_of t w - {s} \<and> counted t w' \<and>
    (th_run th' \<longleftrightarrow> th_run th \<and> \<not> (sc_type sc = EZCRTSchType_selfThread \<and> schs_of t w = {s}))"
proof -
  have t: "sc_thr sc = Some t" using owns_sch [OF o s sc(1)] by simp
  obtain th where th: "sx_thr w t = Some th" "finite (schs_of t w)" "card (schs_of t w) < 2 ^ 31" "th_refCnt th = of_nat (card (schs_of t w))"
    using ct by (auto simp: counted_def)
  have sin: "s \<in> schs_of t w" using sc(1) t by (simp add: schs_of_def)
  obtain w' where w': "zcrt_schedule_delete dec (Some s) w = Inr w'" "sx_sch w' s = None"
    "\<And>r. r \<noteq> s \<Longrightarrow> map_option sc_view (sx_sch w' r) = map_option sc_view (sx_sch w r)"
    using delete_ok [OF wf ch sc(1) t refl sc(2)] by metis
  obtain th' where th': "sx_thr w' t = Some th'" "th_refCnt th' = th_refCnt th - 1"
    "th_run th' \<longleftrightarrow> th_run th \<and> \<not> (sc_type sc = EZCRTSchType_selfThread \<and> th_refCnt th - 1 = 0)"
    using delete_frame [OF o s sc(1) th(1) w'(1)] cn by (auto simp: counting_def)
  have same: "(\<exists>c. sx_sch w' r = Some c \<and> sc_thr c = Some t) \<longleftrightarrow> (\<exists>c. sx_sch w r = Some c \<and> sc_thr c = Some t)" if "r \<noteq> s" for r
  proof -
    have "map_option sc_thr (map_option sc_view (sx_sch w' r)) = map_option sc_thr (map_option sc_view (sx_sch w r))"
      using w'(3) [OF that] by simp
    then have "map_option sc_thr (sx_sch w' r) = map_option sc_thr (sx_sch w r)"
      by (simp add: option.map_comp comp_def sc_view_def)
    then show ?thesis by (cases "sx_sch w' r"; cases "sx_sch w r") auto
  qed
  have so: "schs_of t w' = schs_of t w - {s}"
  proof (rule set_eqI)
    fix r
    show "r \<in> schs_of t w' \<longleftrightarrow> r \<in> schs_of t w - {s}"
      using same [of r] w'(2) by (cases "r = s") (simp_all add: schs_of_def)
  qed
  have pos: "0 < card (schs_of t w)" using th(2) sin by (auto simp: card_gt_0_iff)
  have "card (schs_of t w') = card (schs_of t w) - 1" using so th(2) sin by simp
  then have "th_refCnt th' = of_nat (card (schs_of t w'))" using th'(2) th(4) pos by (simp add: of_nat_diff)
  moreover have "card (schs_of t w') < 2 ^ 31" using so th(2,3) card_mono [of "schs_of t w" "schs_of t w'"] by auto
  ultimately have "counted t w'" using th'(1) th(2) so by (simp add: counted_def)
  moreover have "th_refCnt th - 1 = 0 \<longleftrightarrow> schs_of t w = {s}"
  proof -
    have "th_refCnt th - 1 = 0 \<longleftrightarrow> card (schs_of t w) = 1" unfolding th(4) by (rule of_nat_small_eq [OF th(3)])
    also have "\<dots> \<longleftrightarrow> schs_of t w = {s}" using sin by (auto simp: card_1_singleton_iff)
    finally show ?thesis .
  qed
  ultimately show ?thesis using w'(1) th(1) th' so by (intro exI [of _ w'] exI [of _ th] exI [of _ th']) simp
qed

lemma create_share_counted:
  assumes cn: "counting inc dec" and o: "owns t S T w" and fresh: "sx_sch w s = None" and share: "sx_sch w s1 = Some c1"
    "sc_type c1 = EZCRTSchType_selfThread" "sc_thr c1 = Some t" and ct: "counted t w" "card (schs_of t w) + 1 < 2 ^ 31"
  shows "\<exists>w'. zcrt_schedule_create_share inc (Some s) m (Some s1) name pri maxsize w = Inr (Some s, w') \<and>
    schs_of t w' = insert s (schs_of t w) \<and> counted t w'"
proof -
  obtain th where th: "sx_thr w t = Some th" "finite (schs_of t w)" "th_refCnt th = of_nat (card (schs_of t w))"
    using ct(1) by (auto simp: counted_def)
  let ?sc = "(new_sch name)\<lparr>sc_thr := Some t, sc_maxsize := ucast maxsize, sc_pri := pri, sc_type := EZCRTSchType_shareThread, sc_module := m\<rparr>"
  let ?th = "th\<lparr>th_refCnt := th_refCnt th + 1\<rparr>"
  let ?w2 = "set_thr t ?th (set_sch s ?sc w)"
  let ?w1 = "if th_sch_list th \<noteq> None then set_sch s (?sc\<lparr>sc_next := th_sch_list th\<rparr>) ?w2 else ?w2"
  let ?w = "set_thr t (?th\<lparr>th_sch_list := Some s\<rparr>) ?w1"
  have "zcrt_schedule_create_share inc (Some s) m (Some s1) name pri maxsize w = Inr (Some s, ?w)"
    using share th(1) cn by (simp add: zcrt_schedule_create_share_def zcrt_s_thr_add_sch_def counting_def Let_def)
  moreover have so: "schs_of t ?w = insert s (schs_of t w)"
    using fresh by (auto simp: schs_of_def split: if_splits)
  moreover have "s \<notin> schs_of t w" using fresh by (simp add: schs_of_def)
  then have "counted t ?w" using th ct(2) unfolding counted_def so by simp
  ultimately show ?thesis by blast
qed

definition counted_example :: zSchWorld where
  "counted_example = set_thr 100 ((the (sx_thr sample_world 100))\<lparr>th_refCnt := 2\<rparr>) sample_world"

lemma counted_example_schs: "schs_of 100 counted_example = {21, 22}"
  by (auto simp: schs_of_def counted_example_def sample_world_def sample_sch_def split: if_splits)

lemma counted_example_wf: "sch_wf 100 counted_example [] [[10, 11], [], []]" "sch_chain 100 counted_example [21, 22]"
proof -
  have th: "sx_thr sample_world 100 \<noteq> None" by (simp add: sample_world_def)
  have "sch_at 100 sample_world [] [[10, 11], [], []] (map last_of [[10, 11], [], []])"
    using sample_wf by (simp only: sch_wf_def sch_lists_at)
  then have "sch_lists 100 counted_example [] [[10, 11], [], []]"
    unfolding sch_lists_at using th
    by (elim sch_at_thr [where th = "the (sx_thr sample_world 100)" and th' = "(the (sx_thr sample_world 100))\<lparr>th_refCnt := 2\<rparr>"])
      (simp_all add: counted_example_def)
  moreover have "queues counted_example qs = queues sample_world qs" for qs by (simp add: queues_def counted_example_def)
  moreover have "sx_sch counted_example = sx_sch sample_world" by (simp add: counted_example_def)
  ultimately show "sch_wf 100 counted_example [] [[10, 11], [], []]" using sample_wf by (simp add: sch_wf_def)
  show "sch_chain 100 counted_example [21, 22]"
    using sample_chain th by (auto simp: sch_chain_def counted_example_def)
qed

lemma counted_example_owns: "owns 100 {10, 11, 12} {21, 22} counted_example"
  by (auto simp: owns_def counted_example_def sample_world_def sample_sch_def new_sch_def the_job_def thr_in_def que_in_def)

theorem delete_counted_witness:
  "\<exists>w' th'. zcrt_schedule_delete (\<lambda>c. (c - 1, c - 1)) (Some 21) counted_example = Inr w' \<and> sx_thr w' 100 = Some th' \<and>
    th_run th' \<and> schs_of 100 w' = {22}"
proof -
  have c: "counted 100 counted_example"
    using counted_example_schs by (simp add: counted_def) (simp add: counted_example_def)
  have "counting (\<lambda>c. (c + 1, c + 1)) (\<lambda>c. (c - 1, c - 1))" by (simp add: counting_def)
  from delete_counted [OF this counted_example_wf counted_example_owns _ _ _ c, of 21 "sample_sch 1 EZCRTSchType_selfThread (Some 22)"]
  obtain w' th th' where r: "zcrt_schedule_delete (\<lambda>c. (c - 1, c - 1)) (Some 21) counted_example = Inr w'" "sx_thr counted_example 100 = Some th"
    "sx_thr w' 100 = Some th'" "schs_of 100 w' = schs_of 100 counted_example - {21}" "th_run th' = th_run th"
    using counted_example_schs sample_sel by (auto simp: EZCRTSchPri_num_def counted_example_def)
  moreover have "th_run th" using r(2) by (auto simp: counted_example_def sample_world_def)
  ultimately show ?thesis using counted_example_schs by auto
qed

section \<open>A thread after one of its schedules is deleted\<close>

lemma held_filter: "r \<noteq> s \<Longrightarrow> held r (filter (\<lambda>n. jb_sch n \<noteq> Some s) js) = held r js"
  by (induction js) auto

lemma sch_jobs_delete:
  assumes j: "sch_jobs t sch js" and sc: "sch s = Some sc" "sc_thr sc = Some t" "unat (sc_pri sc) = k" "k < EZCRTSchPri_num"
    and v: "sch' s = None" "\<And>r. r \<noteq> s \<Longrightarrow> map_option sc_view (sch' r) = map_option sc_view (sch r)"
  shows "sch_jobs t sch' (js[k := filter (\<lambda>n. jb_sch n \<noteq> Some s) (js ! k)])"
proof -
  let ?js = "js[k := filter (\<lambda>n. jb_sch n \<noteq> Some s) (js ! k)]"
  have kl: "k < length js" "length js = EZCRTSchPri_num" using j sc(4) by (simp_all add: sch_jobs_def)
  have in_js: "n \<in> set (js ! i) \<and> jb_sch n \<noteq> Some s" if n: "n \<in> set (?js ! i)" "i < EZCRTSchPri_num" for n i
  proof (cases "i = k")
    case False
    then have n1: "n \<in> set (js ! i)" using n by simp
    then obtain r c where r: "jb_sch n = Some r" "sch r = Some c" "unat (sc_pri c) = i"
      using j n(2) unfolding sch_jobs_def by blast
    then show ?thesis using n1 sc(1,3) False by auto
  qed (use n kl in simp)
  show ?thesis
    unfolding sch_jobs_def
  proof (intro conjI allI impI ballI)
    show "length ?js = EZCRTSchPri_num" using kl by simp
    fix i n assume i: "i < EZCRTSchPri_num" and n: "n \<in> set (?js ! i)"
    note nn = in_js [OF n i]
    show "jb_fn n \<noteq> None" using j i nn unfolding sch_jobs_def by blast
    obtain r c where r: "jb_sch n = Some r" "sch r = Some c" "sc_thr c = Some t" "unat (sc_pri c) = i"
      using j i nn unfolding sch_jobs_def by blast
    then have "r \<noteq> s" using nn by simp
    from v(2) [OF this] obtain c' where "sch' r = Some c'" "sc_thr c' = sc_thr c" "sc_pri c' = sc_pri c"
      using r(2) sc_view_eq by metis
    then show "\<exists>s sc. jb_sch n = Some s \<and> sch' s = Some sc \<and> sc_thr sc = Some t \<and> unat (sc_pri sc) = i" using r by auto
  next
    fix r c assume c: "sch' r = Some c" "sc_thr c = Some t" "unat (sc_pri c) < EZCRTSchPri_num"
    have rs: "r \<noteq> s" using c(1) v(1) by auto
    obtain c0 where c0: "sch r = Some c0" "sc_thr c0 = sc_thr c" "sc_pri c0 = sc_pri c" "sc_cursize c0 = sc_cursize c" "sc_maxsize c0 = sc_maxsize c"
      using sc_view_eq [of "sch r" c] v(2) [OF rs] c(1) by metis
    have "held r (?js ! unat (sc_pri c)) = held r (js ! unat (sc_pri c))"
      using held_filter [OF rs] kl by (cases "unat (sc_pri c) = k") simp_all
    moreover have "sc_cursize c0 = of_nat (held r (js ! unat (sc_pri c0))) \<and> held r (js ! unat (sc_pri c0)) \<le> unat (sc_maxsize c0) \<and>
        unat (sc_maxsize c0) < 65536"
    proof -
      have "sc_thr c0 = Some t" "unat (sc_pri c0) < EZCRTSchPri_num" using c0(2,3) c(2,3) by simp_all
      then show ?thesis using j c0(1) unfolding sch_jobs_def by blast
    qed
    ultimately show "sc_cursize c = of_nat (held r (?js ! unat (sc_pri c)))" "held r (?js ! unat (sc_pri c)) \<le> unat (sc_maxsize c)"
      "unat (sc_maxsize c) < 65536" using c0(3-5) by simp_all
  qed
qed

text \<open>The deletions that leave the queue's tail right: those of a schedule that has no job at the end of its queue, or
  all the jobs of the queue.\<close>

definition tail_ok :: "addr \<Rightarrow> zScheduleJob list \<Rightarrow> bool" where
  "tail_ok s js \<longleftrightarrow> js = [] \<or> jb_sch (last js) \<noteq> Some s \<or> (\<forall>n \<in> set js. jb_sch n = Some s)"

lemma delete_wf:
  assumes wf: "sch_wf t w fs qs" and ch: "sch_chain t w ss" and o: "owns t S T w" and s: "s \<in> T"
    and sc: "sx_sch w s = Some sc" "unat (sc_pri sc) = k" "k < EZCRTSchPri_num" and tl: "tail_ok s (queues w qs ! k)"
  obtains w' fs' qs' where "zcrt_schedule_delete dec (Some s) w = Inr w'" "sch_wf t w' fs' qs'"
    "queues w' qs' = (queues w qs)[k := filter (\<lambda>n. jb_sch n \<noteq> Some s) (queues w qs ! k)]"
    "sch_chain t w' (filter (\<lambda>r. r \<noteq> s) ss)" "sx_sch w' s = None"
    "\<And>r. r \<noteq> s \<Longrightarrow> map_option sc_view (sx_sch w' r) = map_option sc_view (sx_sch w r)"
    "owns t S T w'" "elsewhere t S T w w'"
proof -
  have t: "sc_thr sc = Some t" using owns_sch [OF o s sc(1)] by simp
  let ?P = "\<lambda>n. jb_sch n \<noteq> Some s"
  obtain w' fs' as' where d: "zcrt_schedule_delete dec (Some s) w = Inr w'"
    "sch_at t w' fs' (qs[k := as']) ((map last_of (qs[k := as']))[k :=
      if queues w qs ! k \<noteq> [] \<and> jb_sch (last (queues w qs ! k)) = Some s then None else last_of as'])"
    "queues w' (qs[k := as']) = (queues w qs)[k := filter ?P (queues w qs ! k)]"
    "sx_sch w' s = None" "\<And>r. r \<noteq> s \<Longrightarrow> map_option sc_view (sx_sch w' r) = map_option sc_view (sx_sch w r)"
    "sch_chain t w' (filter (\<lambda>r. r \<noteq> s) ss)"
    using delete_ok [OF wf ch sc(1) t sc(2,3)] by metis
  have j: "sch_jobs t (sx_sch w) (queues w qs)" using wf by (simp add: sch_wf_def)
  then have kl: "k < length qs" using sc(3) by (simp add: sch_jobs_def queues_def)
  have "(if queues w qs ! k \<noteq> [] \<and> jb_sch (last (queues w qs ! k)) = Some s then None else last_of as') = last_of as'"
  proof (cases "queues w qs ! k \<noteq> [] \<and> jb_sch (last (queues w qs ! k)) = Some s")
    case True
    then have "filter ?P (queues w qs ! k) = []" using tl by (auto simp: tail_ok_def filter_empty_conv)
    then have "queues w' (qs[k := as']) ! k = []" using d(3) kl by (simp add: queues_def)
    then show ?thesis using True kl by (simp add: queues_def contents_of_def)
  qed (simp only: if_False)
  then have "sch_at t w' fs' (qs[k := as']) (map last_of (qs[k := as']))"
    using d(2) kl by (simp only:) (simp add: map_update)
  then have "sch_lists t w' fs' (qs[k := as'])" by (simp add: sch_lists_at)
  moreover have "sch_jobs t (sx_sch w') (queues w' (qs[k := as']))"
    unfolding d(3) by (rule sch_jobs_delete [OF j sc(1) t sc(2,3) d(4,5)])
  ultimately have "sch_wf t w' fs' (qs[k := as'])" by (simp add: sch_wf_def)
  moreover obtain th where "sx_thr w t = Some th" using ownsE [OF o] by blast
  ultimately show ?thesis using that [OF d(1) _ d(3,6,4,5)] delete_frame [OF o s sc(1) _ d(1)] by blast
qed

lemma fresh_thread_wf:
  assumes "sx_thr w t = Some th" "th_que th = replicate EZCRTSchPri_num \<lparr>pl_jobs = None, pl_tail = None\<rparr>" "th_freejobs th = None"
    and "\<And>s sc. sx_sch w s = Some sc \<Longrightarrow> sc_thr sc = Some t \<Longrightarrow> sc_cursize sc = 0 \<and> unat (sc_maxsize sc) < 65536"
  shows "sch_wf t w [] [[], [], []]"
proof -
  have "sch_lists t w [] [[], [], []]"
    using assms(1-3) by (intro sch_listsI [of _ _ th]) (auto simp: chains_def EZCRTSchPri_num_def numeral_3_eq_3 less_Suc_eq)
  moreover have "sch_jobs t (sx_sch w) (queues w [[], [], []])"
    using assms(4) unfolding sch_jobs_def by (auto simp: queues_def EZCRTSchPri_num_def numeral_3_eq_3 less_Suc_eq)
  ultimately show ?thesis by (simp add: sch_wf_def)
qed

section \<open>A thread's whole state\<close>

definition thr_ok :: "addr \<Rightarrow> addr set \<Rightarrow> addr set \<Rightarrow> addr list \<Rightarrow> addr list \<Rightarrow> addr list list \<Rightarrow> zSchWorld \<Rightarrow> bool" where
  "thr_ok t S T ss fs qs w \<longleftrightarrow> owns t S T w \<and> sch_wf t w fs qs \<and> sch_chain t w ss"

lemma thr_ok_elsewhere:
  assumes "elsewhere t S T w w'" "owns t S T w" "owns t S T w'" "apart t S T t1 S1 T1" "thr_ok t1 S1 T1 ss fs qs w"
  shows "thr_ok t1 S1 T1 ss fs qs w'" "queues w' qs = queues w qs"
  using elsewhere_owns [OF assms(1,4)] elsewhere_wf [OF assms(1,4) _ _ assms(2,3)] elsewhere_chain [OF assms(1,4)] assms(5)
  unfolding thr_ok_def by blast+

text \<open>What the deletion of a schedule says of the thread itself.\<close>

definition run_after :: "EZCRTSchType \<Rightarrow> counter_fn \<Rightarrow> zSchThr \<Rightarrow> zSchThr \<Rightarrow> bool" where
  "run_after type dec th th' \<longleftrightarrow> th_refCnt th' = snd (dec (th_refCnt th)) \<and> th_next th' = th_next th \<and> th_module th' = th_module th \<and>
     (th_run th' \<longleftrightarrow> th_run th \<and> \<not> (type = EZCRTSchType_selfThread \<and> fst (dec (th_refCnt th)) = 0))"

lemma thr_ok_delete:
  assumes ok: "thr_ok t S T ss fs qs w" and s: "s \<in> T" "sx_sch w s = Some sc" "unat (sc_pri sc) = k" "k < EZCRTSchPri_num"
    and tl: "tail_ok s (queues w qs ! k)"
  obtains w' fs' qs' th th' where "zcrt_schedule_delete dec (Some s) w = Inr w'" "thr_ok t S T (filter (\<lambda>r. r \<noteq> s) ss) fs' qs' w'"
    "queues w' qs' = (queues w qs)[k := filter (\<lambda>n. jb_sch n \<noteq> Some s) (queues w qs ! k)]" "sx_sch w' s = None"
    "\<And>r. r \<noteq> s \<Longrightarrow> map_option sc_view (sx_sch w' r) = map_option sc_view (sx_sch w r)"
    "elsewhere t S T w w'" "sx_thr w t = Some th" "sx_thr w' t = Some th'" "run_after (sc_type sc) dec th th'"
proof -
  have a: "sch_wf t w fs qs" "sch_chain t w ss" "owns t S T w" using ok by (simp_all add: thr_ok_def)
  obtain th where th: "sx_thr w t = Some th" using ownsE [OF a(3)] by blast
  obtain w' fs' qs' where d: "zcrt_schedule_delete dec (Some s) w = Inr w'" "sch_wf t w' fs' qs'"
    "queues w' qs' = (queues w qs)[k := filter (\<lambda>n. jb_sch n \<noteq> Some s) (queues w qs ! k)]"
    "sch_chain t w' (filter (\<lambda>r. r \<noteq> s) ss)" "sx_sch w' s = None"
    "\<And>r. r \<noteq> s \<Longrightarrow> map_option sc_view (sx_sch w' r) = map_option sc_view (sx_sch w r)"
    "owns t S T w'" "elsewhere t S T w w'"
    using delete_wf [OF a s tl] by metis
  obtain th' where th': "sx_thr w' t = Some th'" "run_after (sc_type sc) dec th th'"
    using delete_frame [OF a(3) s(1,2) th d(1)] by (auto simp: run_after_def)
  show ?thesis using that [OF d(1) _ d(3,5,6,8) th th'] d(2,4,7) by (simp add: thr_ok_def)
qed

section \<open>The three schedules of a server\<close>

text \<open>
  A server's schedule for messages \<^verbatim>\<open>s1\<close> on the module's thread \<^verbatim>\<open>t0\<close>, and those for replies and events,
  \<^verbatim>\<open>s2\<close> and \<^verbatim>\<open>s3\<close>, on the thread \<^verbatim>\<open>t2\<close> that was made for the replies. The last jobs
  of their queues are such that deleting them leaves the tails right.
\<close>

definition three_schs :: "addr \<Rightarrow> addr \<Rightarrow> addr \<Rightarrow> zSchedule \<Rightarrow> zSchedule \<Rightarrow> zSchedule \<Rightarrow> addr set \<Rightarrow> addr set \<Rightarrow>
    addr list list \<Rightarrow> addr list list \<Rightarrow> zSchWorld \<Rightarrow> bool" where
  "three_schs s1 s2 s3 c1 c2 c3 T0 T2 qs0 qs2 w \<longleftrightarrow> s1 \<in> T0 \<and> s2 \<in> T2 \<and> s3 \<in> T2 \<and> s2 \<noteq> s3 \<and>
     sx_sch w s1 = Some c1 \<and> sx_sch w s2 = Some c2 \<and> sx_sch w s3 = Some c3 \<and>
     sc_type c1 = EZCRTSchType_zcrtThread \<and> sc_type c2 = EZCRTSchType_selfThread \<and> sc_type c3 = EZCRTSchType_shareThread \<and>
     unat (sc_pri c1) < EZCRTSchPri_num \<and> unat (sc_pri c2) < EZCRTSchPri_num \<and> unat (sc_pri c3) < EZCRTSchPri_num \<and>
     sc_pri c2 \<noteq> sc_pri c3 \<and> tail_ok s1 (queues w qs0 ! unat (sc_pri c1)) \<and>
     tail_ok s2 (queues w qs2 ! unat (sc_pri c2)) \<and> tail_ok s3 (queues w qs2 ! unat (sc_pri c3))"

definition without :: "addr \<Rightarrow> zSchedule \<Rightarrow> zScheduleJob list list \<Rightarrow> zScheduleJob list list" where
  "without s c js = js[unat (sc_pri c) := filter (\<lambda>n. jb_sch n \<noteq> Some s) (js ! unat (sc_pri c))]"

text \<open>The order of the server: events, replies, messages.\<close>

definition delete_three :: "counter_fn \<Rightarrow> addr option \<Rightarrow> addr option \<Rightarrow> addr option \<Rightarrow> zSchWorld \<Rightarrow> zSchWorld res" where
  "delete_three dec esch rsch sch w =
     rbind (zcrt_schedule_delete dec esch w) (\<lambda>w1. rbind (zcrt_schedule_delete dec rsch w1) (\<lambda>w2. zcrt_schedule_delete dec sch w2))"

lemma delete_three_spec:
  assumes ok: "thr_ok t0 S0 T0 ss0 fs0 qs0 w" "thr_ok t2 S2 T2 ss2 fs2 qs2 w" and ap: "apart t0 S0 T0 t2 S2 T2"
    and three: "three_schs s1 s2 s3 c1 c2 c3 T0 T2 qs0 qs2 w"
  obtains w' fs0' qs0' fs2' qs2' th0 th0' th2 th2a th2' where "delete_three dec (Some s3) (Some s2) (Some s1) w = Inr w'"
    "thr_ok t0 S0 T0 (filter (\<lambda>r. r \<noteq> s1) ss0) fs0' qs0' w'" "queues w' qs0' = without s1 c1 (queues w qs0)"
    "thr_ok t2 S2 T2 (filter (\<lambda>r. r \<noteq> s2) (filter (\<lambda>r. r \<noteq> s3) ss2)) fs2' qs2' w'"
    "queues w' qs2' = without s2 c2 (without s3 c3 (queues w qs2))"
    "sx_sch w' s1 = None" "sx_sch w' s2 = None" "sx_sch w' s3 = None"
    "sx_thr w t0 = Some th0" "sx_thr w' t0 = Some th0'" "run_after EZCRTSchType_zcrtThread dec th0 th0'"
    "sx_thr w t2 = Some th2" "run_after EZCRTSchType_shareThread dec th2 th2a" "sx_thr w' t2 = Some th2'"
    "run_after EZCRTSchType_selfThread dec th2a th2'"
    "\<And>t. t \<noteq> t0 \<Longrightarrow> t \<noteq> t2 \<Longrightarrow> sx_thr w' t = sx_thr w t" "sx_mod w' = sx_mod w"
proof -
  note th = three [unfolded three_schs_def]
  have m: "s1 \<in> T0" "s2 \<in> T2" "s3 \<in> T2" "s2 \<noteq> s3" "sx_sch w s1 = Some c1" "sx_sch w s2 = Some c2" "sx_sch w s3 = Some c3"
    "unat (sc_pri c1) < EZCRTSchPri_num" "unat (sc_pri c2) < EZCRTSchPri_num" "unat (sc_pri c3) < EZCRTSchPri_num"
    using th by simp_all
  have ty: "sc_type c1 = EZCRTSchType_zcrtThread" "sc_type c2 = EZCRTSchType_selfThread" "sc_type c3 = EZCRTSchType_shareThread" using th by simp_all
  have ne: "unat (sc_pri c2) \<noteq> unat (sc_pri c3)" using th by (simp add: word_unat_eq_iff)
  have tl: "tail_ok s1 (queues w qs0 ! unat (sc_pri c1))" "tail_ok s2 (queues w qs2 ! unat (sc_pri c2))"
    "tail_ok s3 (queues w qs2 ! unat (sc_pri c3))" using th by simp_all
  note ap' = apart_sym [OF ap]
  obtain w1 fs1 qs1 th2 th2a where d1: "zcrt_schedule_delete dec (Some s3) w = Inr w1" "thr_ok t2 S2 T2 (filter (\<lambda>r. r \<noteq> s3) ss2) fs1 qs1 w1"
    "queues w1 qs1 = without s3 c3 (queues w qs2)" "sx_sch w1 s3 = None"
    "\<And>r. r \<noteq> s3 \<Longrightarrow> map_option sc_view (sx_sch w1 r) = map_option sc_view (sx_sch w r)"
    "elsewhere t2 S2 T2 w w1" "sx_thr w t2 = Some th2" "sx_thr w1 t2 = Some th2a" "run_after EZCRTSchType_shareThread dec th2 th2a"
    by (rule thr_ok_delete [OF ok(2) m(3,7) refl m(10) tl(3), of dec, folded without_def, unfolded ty]) (rule that)
  have ow: "owns t2 S2 T2 w" "owns t2 S2 T2 w1" "owns t0 S0 T0 w" using ok d1(2) by (simp_all add: thr_ok_def)
  note k1 = thr_ok_elsewhere [OF d1(6) ow(1,2) ap' ok(1)]
  obtain c2' where c2': "sx_sch w1 s2 = Some c2'" "sc_pri c2' = sc_pri c2" "sc_type c2' = sc_type c2"
    using d1(5) [OF m(4)] unfolding m(6) by (rule sc_view_eq) (rule that)
  have q1: "queues w1 qs1 ! unat (sc_pri c2') = queues w qs2 ! unat (sc_pri c2)" using d1(3) ne c2'(2) by (simp add: without_def)
  have tl2: "tail_ok s2 (queues w1 qs1 ! unat (sc_pri c2'))" using tl(2) q1 by simp
  have p2: "unat (sc_pri c2') < EZCRTSchPri_num" using m(9) c2'(2) by simp
  obtain w2 fs2' qs2' th2' where d2: "zcrt_schedule_delete dec (Some s2) w1 = Inr w2"
    "thr_ok t2 S2 T2 (filter (\<lambda>r. r \<noteq> s2) (filter (\<lambda>r. r \<noteq> s3) ss2)) fs2' qs2' w2"
    "queues w2 qs2' = without s2 c2' (queues w1 qs1)" "sx_sch w2 s2 = None"
    "\<And>r. r \<noteq> s2 \<Longrightarrow> map_option sc_view (sx_sch w2 r) = map_option sc_view (sx_sch w1 r)"
    "elsewhere t2 S2 T2 w1 w2" "sx_thr w2 t2 = Some th2'" "run_after EZCRTSchType_selfThread dec th2a th2'"
  proof (rule thr_ok_delete [OF d1(2) m(2) c2'(1) refl p2 tl2, of dec, folded without_def, unfolded c2'(3) ty])
    fix w' fs' qs' th th'
    assume a: "zcrt_schedule_delete dec (Some s2) w1 = Inr w'"
      "thr_ok t2 S2 T2 (filter (\<lambda>r. r \<noteq> s2) (filter (\<lambda>r. r \<noteq> s3) ss2)) fs' qs' w'"
      "queues w' qs' = without s2 c2' (queues w1 qs1)" "sx_sch w' s2 = None"
      "\<And>r. r \<noteq> s2 \<Longrightarrow> map_option sc_view (sx_sch w' r) = map_option sc_view (sx_sch w1 r)"
      "elsewhere t2 S2 T2 w1 w'" "sx_thr w1 t2 = Some th" "sx_thr w' t2 = Some th'" "run_after EZCRTSchType_selfThread dec th th'"
    have "th = th2a" using a(7) d1(8) by simp
    then show thesis using that [OF a(1-6,8)] a(9) by simp
  qed
  have ow2: "owns t2 S2 T2 w2" using d2(2) by (simp add: thr_ok_def)
  note k2 = thr_ok_elsewhere [OF d2(6) ow(2) ow2 ap' k1(1)]
  have s1: "sx_sch w2 s1 = Some c1" using elsewhere_sch [OF d1(6) ap' m(1)] elsewhere_sch [OF d2(6) ap' m(1)] m(5) by simp
  have q2: "queues w2 qs0 = queues w qs0" using k1(2) k2(2) by simp
  have tl3: "tail_ok s1 (queues w2 qs0 ! unat (sc_pri c1))" using tl(1) q2 by simp
  obtain w3 fs0' qs0' th0 th0' where d3: "zcrt_schedule_delete dec (Some s1) w2 = Inr w3"
    "thr_ok t0 S0 T0 (filter (\<lambda>r. r \<noteq> s1) ss0) fs0' qs0' w3" "queues w3 qs0' = without s1 c1 (queues w2 qs0)" "sx_sch w3 s1 = None"
    "elsewhere t0 S0 T0 w2 w3" "sx_thr w2 t0 = Some th0" "sx_thr w3 t0 = Some th0'" "run_after EZCRTSchType_zcrtThread dec th0 th0'"
    by (rule thr_ok_delete [OF k2(1) m(1) s1 refl m(8) tl3, of dec, folded without_def, unfolded ty]) (rule that)
  have ow3: "owns t0 S0 T0 w2" "owns t0 S0 T0 w3" using k2(1) d3(2) by (simp_all add: thr_ok_def)
  note k3 = thr_ok_elsewhere [OF d3(5) ow3 ap d2(2)]
  have t: "t0 \<noteq> t2" using ap by (simp add: apart_def)
  have thr: "sx_thr w t0 = Some th0" "sx_thr w3 t2 = Some th2'"
    "\<And>t. t \<noteq> t0 \<Longrightarrow> t \<noteq> t2 \<Longrightarrow> sx_thr w3 t = sx_thr w t" "sx_mod w3 = sx_mod w"
    using d1(6) d2(6,7) d3(5,6) t by (simp_all add: elsewhere_def)
  have gone: "sx_sch w3 s2 = None" "sx_sch w3 s3 = None"
    using elsewhere_sch [OF d3(5) ap m(2)] elsewhere_sch [OF d3(5) ap m(3)] d2(4) d2(5) [of s3] d1(4) m(4) by auto
  have run: "delete_three dec (Some s3) (Some s2) (Some s1) w = Inr w3" using d1(1) d2(1) d3(1) by (simp add: delete_three_def)
  have wo: "without s2 c2' = without s2 c2" by (simp add: without_def c2'(2) fun_eq_iff)
  show ?thesis
    using d3(3) q2 k3 d2(3) d1(3) wo
    by (intro that [OF run d3(2) _ k3(1) _ d3(4) gone thr(1) d3(7,8) d1(7,9) thr(2) d2(8) thr(3,4)]) simp_all
qed


text \<open>A module's thread 2 with one schedule and a server's thread 5 with two, all idle.\<close>

definition idle_sch :: "addr \<Rightarrow> u32 \<Rightarrow> u32 \<Rightarrow> EZCRTSchType \<Rightarrow> addr option \<Rightarrow> zSchedule" where
  "idle_sch t maxsize pri type nxt = (new_sch [])\<lparr>sc_thr := Some t, sc_maxsize := maxsize, sc_pri := pri, sc_type := type,
     sc_module := Some 1, sc_next := nxt\<rparr>"

definition idle_thr :: "addr option \<Rightarrow> addr \<Rightarrow> zSchThr" where
  "idle_thr module s = \<lparr>th_name = [], th_sem = 0, th_que = replicate EZCRTSchPri_num \<lparr>pl_jobs = None, pl_tail = None\<rparr>,
     th_freejobs = None, th_run = True, th_refCnt = 0, th_module = module, th_sch_list = Some s, th_next = None,
     th_joballoced = 0, th_jobfreed = 0, th_jobadded = 0\<rparr>"

definition idle_world :: zSchWorld where
  "idle_world = \<lparr>sx_job = Map.empty,
     sx_sch = [3 \<mapsto> idle_sch 2 100 1 EZCRTSchType_zcrtThread None, 4 \<mapsto> idle_sch 5 500 1 EZCRTSchType_selfThread None,
       6 \<mapsto> idle_sch 5 500 2 EZCRTSchType_shareThread (Some 4)],
     sx_thr = [2 \<mapsto> idle_thr None 3, 5 \<mapsto> idle_thr (Some 1) 6],
     sx_mod = [1 \<mapsto> \<lparr>md_zcrtthr = Some 2, md_schthr_list = Some 5\<rparr>]\<rparr>"

lemma idle_wf: "t = 2 \<or> t = 5 \<Longrightarrow> sch_wf t idle_world [] [[], [], []]"
proof -
  assume t: "t = 2 \<or> t = 5"
  have c: "sx_sch idle_world s = Some sc \<Longrightarrow> sc_cursize sc = 0 \<and> unat (sc_maxsize sc) < 65536" for s sc
    by (auto simp: idle_world_def idle_sch_def new_sch_def split: if_splits)
  show ?thesis
    by (rule fresh_thread_wf [where th = "the (sx_thr idle_world t)"]) (use t c in \<open>auto simp: idle_world_def idle_thr_def\<close>)
qed

lemma idle_ok: "thr_ok 2 {} {3} [3] [] [[], [], []] idle_world" "thr_ok 5 {12} {4, 6} [6, 4] [] [[], [], []] idle_world"
  "apart 2 {} {3} 5 {12} {4, 6}"
  by (auto simp: thr_ok_def idle_wf)
    (auto simp: owns_def sch_chain_def idle_world_def idle_thr_def idle_sch_def new_sch_def thr_in_def que_in_def apart_def)

lemma idle_three: "three_schs 3 4 6 (idle_sch 2 100 1 EZCRTSchType_zcrtThread None) (idle_sch 5 500 1 EZCRTSchType_selfThread None)
    (idle_sch 5 500 2 EZCRTSchType_shareThread (Some 4)) {3} {4, 6} [[], [], []] [[], [], []] idle_world"
proof -
  have "queues idle_world [[], [], []] = [[], [], []]" by (simp add: queues_def)
  then have q: "tail_ok s (queues idle_world [[], [], []] ! unat (1 :: u32))" "tail_ok s (queues idle_world [[], [], []] ! unat (2 :: u32))" for s
    by (simp_all add: tail_ok_def)
  show ?thesis
    unfolding three_schs_def using q
    by (simp add: idle_sch_def new_sch_def EZCRTSchPri_num_def) (simp add: idle_world_def idle_sch_def new_sch_def)
qed

end
