(* ===== verification/Zipc_Server.thy ===== *)
theory Zipc_Server
  imports Zipc_Parse Zcrt_Sch_Frame
begin

text \<open>
  The server on sockets, \<^verbatim>\<open>zipc/zipc_server_os.c\<close>: the client thread that turns received bytes
  into jobs, the job that answers a message, the callback that forwards an event, and the job that sends a
  buffer. The sockets are the environment: what \<^verbatim>\<open>recv\<close> delivers is an argument, and what is
  given to \<^verbatim>\<open>send\<close> is recorded. Each operation is one step of the thread that runs it.
\<close>

section \<open>State\<close>

record zIPCClient =
  cl_sock :: nat
  cl_thr :: "addr option"
  cl_isEventHooked :: bool
  cl_jobcnt :: s32

text \<open>
  The world of one server: its own structure, the buffers, the module's event manager, the schedules, the
  components, the clients, the bytes given to \<^verbatim>\<open>send\<close> with their socket, the counter of
  serial numbers, the flag \<^verbatim>\<open>notprint\<close> and what calls work on besides.
\<close>

record 'w zIpcWorld =
  zw_ipc :: zIPCModule
  zw_buf :: "zbuf heap"
  zw_evt :: "zEvent option"
  zw_sch :: zSchWorld
  zw_comp :: zIpcHeap
  zw_client :: "zIPCClient heap"
  zw_sent :: "(nat \<times> u8 list) list"
  zw_uid :: s32
  zw_notprint :: bool
  zw_ext :: 'w

text \<open>What \<^verbatim>\<open>malloc\<close> gives during one operation: a buffer, its bytes, a job, a subscription.\<close>

record zAlloc =
  al_buf :: "addr option"
  al_bytes :: bool
  al_job :: "addr option"
  al_sub :: "addr option"

text \<open>The addresses of the three functions that are handed to schedules and to the event manager.\<close>

definition zipc_buf_send_job_fn :: ptr where "zipc_buf_send_job_fn = 1"
definition zipc_hookevent_cb_fn :: ptr where "zipc_hookevent_cb_fn = 2"
definition zipc_msg_proc_job_fn :: ptr where "zipc_msg_proc_job_fn = 3"

section \<open>Receiving\<close>

text \<open>
  \<^verbatim>\<open>None\<close> is \<^verbatim>\<open>SOCKET_ERROR\<close>. A header comes back with its type and payload size in
  host order.
\<close>

definition zipc_client_recv_hdr :: "u8 list option \<Rightarrow> zIPCMsgHdr option" where
  "zipc_client_recv_hdr rx = (case rx of
     None \<Rightarrow> None
   | Some bytes \<Rightarrow> if of_nat (length bytes) \<noteq> ZIPC_HEAD_LEN then None else (case hdr_of_bytes bytes of
       None \<Rightarrow> None
     | Some hdr \<Rightarrow> if \<not> zipc_parse_check_hdr hdr then None
         else let hdr1 = hdr\<lparr>mh_appType := htons (mh_appType hdr), mh_payloadSize := htonl (mh_payloadSize hdr)\<rparr> in
           if mh_payloadSize hdr1 \<ge> ZIPC_BUF_LEN then None else Some hdr1))"

text \<open>The block with the bytes received in it, and whether they are as many as announced.\<close>

definition zipc_client_recv_payload :: "u8 list option \<Rightarrow> u32 \<Rightarrow> block option \<Rightarrow> (bool \<times> block option) res" where
  "zipc_client_recv_payload rx payloadSize blk = (case rx of
     None \<Rightarrow> Inr (False, blk)
   | Some bytes \<Rightarrow>
       if bytes = [] then Inr (payloadSize = 0, blk)
       else rbind (store blk 0 bytes) (\<lambda>blk1. Inr (of_nat (length bytes) = payloadSize, Some blk1)))"

section \<open>Jobs and callbacks\<close>

definition pool_malloc :: "zAlloc \<Rightarrow> 'w zIpcWorld \<Rightarrow> (addr option \<times> 'w zIpcWorld) res" where
  "pool_malloc al w = rbind (zipc_buf_malloc (al_buf al) (al_bytes al) (Some (zw_ipc w)) (zw_buf w)) (\<lambda>(a, ipc, h).
     rbind (deref ipc) (\<lambda>i. Inr (a, w\<lparr>zw_ipc := i, zw_buf := h\<rparr>)))"

definition pool_free :: "addr option \<Rightarrow> 'w zIpcWorld \<Rightarrow> 'w zIpcWorld res" where
  "pool_free a w = rbind (zipc_buf_free (Some (zw_ipc w)) a (zw_buf w)) (\<lambda>(ipc, h).
     rbind (deref ipc) (\<lambda>i. Inr (w\<lparr>zw_ipc := i, zw_buf := h\<rparr>)))"

definition put_buf :: "addr \<Rightarrow> zbufp \<Rightarrow> 'w zIpcWorld \<Rightarrow> 'w zIpcWorld" where
  "put_buf a b w = w\<lparr>zw_buf := (zw_buf w)(a := b)\<rparr>"

definition zipc_buf_send_job :: "addr option \<Rightarrow> addr option \<Rightarrow> 'w zIpcWorld \<Rightarrow> 'w zIpcWorld res" where
  "zipc_buf_send_job p1 p2 w = (case (p1, p2) of
     (Some c, Some a) \<Rightarrow>
       rbind (deref (zw_client w c)) (\<lambda>client.
       rbind (deref (zw_buf w a)) (\<lambda>buf.
       rbind (load_n (zb_buf buf, 0) (unat (zb_len buf))) (\<lambda>bytes.
         pool_free (Some a) (w\<lparr>zw_sent := zw_sent w @ [(cl_sock client, bytes)]\<rparr>))))
   | _ \<Rightarrow> Inr w)"

definition sendjob :: "zAlloc \<Rightarrow> addr option \<Rightarrow> addr \<Rightarrow> addr \<Rightarrow> 'w zIpcWorld \<Rightarrow> (EZCRTErr \<times> 'w zIpcWorld) res" where
  "sendjob al h client a w = rbind (zcrt_schedule_sendjob (al_job al) h (Some zipc_buf_send_job_fn) client a (zw_sch w)) (\<lambda>(r, sch).
     Inr (r, w\<lparr>zw_sch := sch\<rparr>))"

definition zipc_hookevent_cb ::
  "encode_fn \<Rightarrow> realloc_fn \<Rightarrow> zAlloc \<Rightarrow> u32 \<Rightarrow> ptr \<Rightarrow> addr \<Rightarrow> 'w zIpcWorld \<Rightarrow> 'w zIpcWorld res" where
  "zipc_hookevent_cb enc ra al evtid evtdata client w =
     rbind (deref (zw_client w client)) (\<lambda>_.
     rbind (pool_malloc al w) (\<lambda>(buf, w1). (case buf of
       None \<Rightarrow> Inr w1
     | Some a \<Rightarrow>
         rbind (zipc_encode_event zcrt_atom_inc enc ra (Some (zw_ipc w1)) evtid evtdata (zw_buf w1 a) (zw_uid w1)) (\<lambda>(r, b, uid).
         let w2 = put_buf a b (w1\<lparr>zw_uid := uid\<rparr>) in
         if r = EZCRTErr_success then
           rbind (sendjob al (im_evtSch (zw_ipc w2)) client a w2) (\<lambda>(e, w3).
             if e \<noteq> EZCRTErr_success
             then rbind (pool_free (Some a) w3) (\<lambda>w4. Inr (if zw_notprint w4 then w4\<lparr>zw_notprint := False\<rparr> else w4))
             else Inr (if \<not> zw_notprint w3 then w3\<lparr>zw_notprint := True\<rparr> else w3))
         else pool_free (Some a) w2))))"

text \<open>What \<^verbatim>\<open>_zipc_msg_proc_job\<close> does from \<^verbatim>\<open>if (obuf->len !=0)\<close> to its end.\<close>

definition finish_reply :: "zAlloc \<Rightarrow> addr \<Rightarrow> addr \<Rightarrow> addr \<Rightarrow> 'w zIpcWorld \<Rightarrow> 'w zIpcWorld res" where
  "finish_reply al client ia oa w2 =
     rbind (deref (zw_buf w2 oa)) (\<lambda>ob.
     rbind (if zb_len ob \<noteq> 0 then
         rbind (set_payload_size (Some ob)) (\<lambda>ob1. let w3 = put_buf oa ob1 w2 in
         rbind (sendjob al (im_respondSch (zw_ipc w3)) client oa w3) (\<lambda>(e, w4).
           if e \<noteq> EZCRTErr_success then pool_free (Some oa) w4 else Inr w4))
       else pool_free (Some oa) w2) (\<lambda>w5.
     rbind (pool_free (Some ia) w5) (\<lambda>w6.
     rbind (deref (zw_client w6 client)) (\<lambda>cl1.
       Inr (w6\<lparr>zw_client := (zw_client w6)(client \<mapsto> cl1\<lparr>cl_jobcnt := snd (zcrt_atom_dec (cl_jobcnt cl1))\<rparr>)\<rparr>)))))"

definition zipc_msg_proc_job ::
  "'w ipc_call \<Rightarrow> realloc_fn \<Rightarrow> zAlloc \<Rightarrow> addr \<Rightarrow> addr \<Rightarrow> ptr \<Rightarrow> 'w zIpcWorld \<Rightarrow> 'w zIpcWorld res" where
  "zipc_msg_proc_job run_call ra al client ia p3 w =
     rbind (deref (zw_client w client)) (\<lambda>cl.
     rbind (pool_malloc al w) (\<lambda>(obuf, w1). (case obuf of
       None \<Rightarrow> pool_free (Some ia) w1
     | Some oa \<Rightarrow>
         rbind (if (of_nat p3 :: u16) = zeipc_code ZEIPC_TYPE_LINK then
             rbind (zipc_parse_app_link (al_sub al) ra (Some (zw_ipc w1)) (zw_evt w1) (zw_buf w1 ia) (zw_buf w1 oa)
                      (Some zipc_hookevent_cb_fn) client 0) (\<lambda>(_, ib, ob, mng).
               Inr (put_buf oa ob (put_buf ia ib (w1\<lparr>zw_client := (zw_client w1)(client \<mapsto> cl\<lparr>cl_isEventHooked := True\<rparr>),
                                                     zw_evt := mng\<rparr>))))
           else
             rbind (zipc_parse_payload run_call ra (Some (zw_ipc w1)) (of_nat p3) (zw_buf w1 ia) (zw_buf w1 oa)
                      (zw_comp w1, zw_ext w1)) (\<lambda>(_, ib, ob, comp1, ext).
               Inr (put_buf oa ob (put_buf ia ib (w1\<lparr>zw_comp := comp1, zw_ext := ext\<rparr>))))) (\<lambda>w2.
         finish_reply al client ia oa w2))))"

section \<open>The client thread\<close>

text \<open>What one round of the receiving loop meets: whether the thread should stop, the two receptions, and the allocator.\<close>

record zRound =
  rn_stop :: bool
  rn_hdr :: "u8 list option"
  rn_payload :: "u8 list option"
  rn_alloc :: zAlloc

text \<open>
  One round with the buffer \<^verbatim>\<open>buf\<close>: \<^verbatim>\<open>False\<close> when the loop is left. The buffer is
  not tested before it is used.
\<close>

definition client_round ::
  "realloc_fn \<Rightarrow> addr \<Rightarrow> zRound \<Rightarrow> addr option \<Rightarrow> 'w zIpcWorld \<Rightarrow> (bool \<times> addr option \<times> 'w zIpcWorld) res" where
  "client_round ra client rn buf w =
     (if \<not> im_run (zw_ipc w) \<or> rn_stop rn then Inr (False, buf, w) else (case zipc_client_recv_hdr (rn_hdr rn) of
       None \<Rightarrow> Inr (False, buf, w)
     | Some hdr \<Rightarrow>
         rbind (zcrt_buf_realloc ra (case buf of None \<Rightarrow> None | Some a \<Rightarrow> zw_buf w a) (mh_payloadSize hdr)) (\<lambda>(_, b1).
         rbind (deref b1) (\<lambda>b.
         rbind (zipc_client_recv_payload (rn_payload rn) (mh_payloadSize hdr) (zb_buf b)) (\<lambda>(ok, blk).
         rbind (deref buf) (\<lambda>a.
         if \<not> ok then Inr (False, buf, put_buf a (Some (b\<lparr>zb_buf := blk\<rparr>)) w)
         else
           let w1 = put_buf a (Some (b\<lparr>zb_buf := blk, zb_len := mh_payloadSize hdr, zb_offset := 0\<rparr>)) w in
           rbind (deref (zw_client w1 client)) (\<lambda>cl.
           let w2 = w1\<lparr>zw_client := (zw_client w1)(client \<mapsto> cl\<lparr>cl_jobcnt := snd (zcrt_atom_inc (cl_jobcnt cl))\<rparr>)\<rparr> in
           rbind (zcrt_schedule_sendjob_argn (al_job (rn_alloc rn)) (im_sch (zw_ipc w2)) (Some zipc_msg_proc_job_fn) 3
                    [client, a, unat (mh_appType hdr)] (zw_sch w2)) (\<lambda>(e, sch).
           let w3 = w2\<lparr>zw_sch := sch\<rparr> in
           rbind (if e \<noteq> EZCRTErr_success then
               rbind (deref (zw_client w3 client)) (\<lambda>cl1.
                 pool_free (Some a) (w3\<lparr>zw_client := (zw_client w3)(client \<mapsto> cl1\<lparr>cl_jobcnt := snd (zcrt_atom_dec (cl_jobcnt cl1))\<rparr>)\<rparr>))
             else Inr w3) (\<lambda>w4.
           rbind (pool_malloc (rn_alloc rn) w4) (\<lambda>(nbuf, w5). Inr (nbuf \<noteq> None, nbuf, w5)))))))))))"

text \<open>The loop over all events, for the callback \<^verbatim>\<open>fn\<close> with its two arguments.\<close>

fun unhook_all :: "ptr \<Rightarrow> ptr \<Rightarrow> zEvent option \<Rightarrow> addr \<Rightarrow> nat list \<Rightarrow> zEvent option res" where
  "unhook_all fn p2 mng client [] = Inr mng"
| "unhook_all fn p2 mng client (i # is) =
     rbind (zcrt_event_unregister mng (of_nat i) (Some fn) client p2) (\<lambda>mng1. unhook_all fn p2 mng1 client is)"

text \<open>
  What follows the loop. \<^verbatim>\<open>while (client->jobcnt != 0) zcrt_sleep(10);\<close> only lets other threads run:
  as long as jobs are counted there is no step (\<^verbatim>\<open>None\<close>).
\<close>

definition client_exit :: "addr \<Rightarrow> addr option \<Rightarrow> 'w zIpcWorld \<Rightarrow> 'w zIpcWorld res option" where
  "client_exit client buf w = (case zw_client w client of
     None \<Rightarrow> Some (Inl NullDeref)
   | Some cl \<Rightarrow> if cl_jobcnt cl \<noteq> 0 then None else Some (
       rbind (if cl_isEventHooked cl then unhook_all zipc_hookevent_cb_fn 0 (zw_evt w) client [1..<ZCRT_MAX_EVT] else Inr (zw_evt w)) (\<lambda>mng.
       let w1 = w\<lparr>zw_evt := mng\<rparr> in
       rbind (if buf \<noteq> None then pool_free buf w1 else Inr w1) (\<lambda>w2.
         Inr (w2\<lparr>zw_client := (zw_client w2)(client := None)\<rparr>)))))"

fun client_rounds :: "realloc_fn \<Rightarrow> addr \<Rightarrow> zRound list \<Rightarrow> addr option \<Rightarrow> 'w zIpcWorld \<Rightarrow> 'w zIpcWorld res option" where
  "client_rounds ra client [] buf w = None"
| "client_rounds ra client (rn # rns) buf w = (case client_round ra client rn buf w of
     Inl e \<Rightarrow> Some (Inl e)
   | Inr (go, buf1, w1) \<Rightarrow> if go then client_rounds ra client rns buf1 w1 else client_exit client buf1 w1)"

text \<open>The whole thread; no result when it is still running after the given rounds.\<close>

definition zipc_client_thread :: "realloc_fn \<Rightarrow> zAlloc \<Rightarrow> addr \<Rightarrow> zRound list \<Rightarrow> 'w zIpcWorld \<Rightarrow> 'w zIpcWorld res option" where
  "zipc_client_thread ra al client rns w = (case pool_malloc al w of
     Inl e \<Rightarrow> Some (Inl e)
   | Inr (buf, w1) \<Rightarrow> client_rounds ra client rns buf w1)"

text \<open>An accepted connection: \<^verbatim>\<open>malloc\<close> is not tested before \<^verbatim>\<open>memset\<close>;
  \<^verbatim>\<open>thr\<close> is what \<^verbatim>\<open>zcrt_thread_create\<close> gives for the client's thread, and it is
  not tested either.\<close>

definition accept_client :: "addr option \<Rightarrow> addr option \<Rightarrow> nat \<Rightarrow> 'w zIpcWorld \<Rightarrow> 'w zIpcWorld res" where
  "accept_client new thr clientSocket w = rbind (deref new) (\<lambda>a.
     Inr (w\<lparr>zw_client := (zw_client w)(a \<mapsto> \<lparr>cl_sock = clientSocket, cl_thr = thr, cl_isEventHooked = False, cl_jobcnt = 0\<rparr>)\<rparr>))"

section \<open>Creating and deleting a server\<close>

definition zipc_name :: "u8 list" where "zipc_name = str_u8 ''zipc''"

text \<open>
  \<^verbatim>\<open>ok\<close>, \<^verbatim>\<open>mok\<close> and \<^verbatim>\<open>iok\<close>: \<^verbatim>\<open>malloc\<close> for the server, its table and the
  table's index; the addresses are those it gives for the three schedules and the thread of the second.
\<close>

definition zipc_server_create ::
  "bool \<Rightarrow> bool \<Rightarrow> bool \<Rightarrow> addr option \<Rightarrow> addr option \<Rightarrow> addr option \<Rightarrow> addr option \<Rightarrow> addr option \<Rightarrow> u16 \<Rightarrow> bptr \<Rightarrow>
     zSchWorld \<Rightarrow> (zIPCModule \<times> zSchWorld) res" where
  "zipc_server_create ok mok iok s1 s2 newt s3 module port name w =
     rbind (deref (if ok then Some () else None)) (\<lambda>_.
     rbind (strlen_c name) (\<lambda>len.
     let n = (if len \<ge> ZCRT_NAME_LEN then ZCRT_NAME_LEN - 1 else len) in
     rbind (load_n name n) (\<lambda>bs.
     rbind (zcrt_hash_new mok iok 128 (Some zipc_component_hash_key) (Some zipc_component_hash_cmp)) (\<lambda>ml.
     rbind (zcrt_schedule_create zcrt_atom_inc s1 None module zipc_name EZCRTSchType_zcrtThread 1 100 w) (\<lambda>(sch, w1).
     rbind (zcrt_schedule_create zcrt_atom_inc s2 newt module zipc_name EZCRTSchType_selfThread 1 500 w1) (\<lambda>(rsch, w2).
     rbind (zcrt_schedule_create_share zcrt_atom_inc s3 module rsch zipc_name 2 500 w2) (\<lambda>(esch, w3).
       Inr (\<lparr>im_sch = sch, im_respondSch = rsch, im_evtSch = esch, im_socket = 0, im_evt_encode = None, im_port = port, im_run = True,
             im_modlist = ml, im_name = bs @ replicate (ZCRT_NAME_LEN - n) 0, im_freebuf = None\<rparr>, w3))))))))"

definition zipc_comp_buf_freeall :: "zIPCModule \<Rightarrow> zbuf heap \<Rightarrow> zbuf heap res" where
  "zipc_comp_buf_freeall ipc h = run (free_nodes zb_next h (im_freebuf ipc))"

text \<open>
  The flag that the listening thread and the clients' threads look at is cleared and the listening socket closed; the
  buffers and the table are freed next, the schedules with their jobs last. The result has the server's structure as the
  other threads see it until its memory is freed, and the socket that was closed.
\<close>

definition zipc_server_delete ::
  "zIPCModule \<Rightarrow> zbuf heap \<Rightarrow> zcompref hheap \<Rightarrow> zSchWorld \<Rightarrow> (zIPCModule \<times> nat \<times> zbuf heap \<times> zcompref hheap \<times> zSchWorld) res" where
  "zipc_server_delete ipc0 bufs nodes w =
     (let ipc = ipc0\<lparr>im_run := False\<rparr>; closed = im_socket ipc in
     rbind (zipc_comp_buf_freeall ipc bufs) (\<lambda>bufs1.
     rbind (zcrt_hash_delete nodes (im_modlist ipc)) (\<lambda>nodes1.
     rbind (zcrt_schedule_delete zcrt_atom_dec (im_evtSch ipc) w) (\<lambda>w1.
     rbind (zcrt_schedule_delete zcrt_atom_dec (im_respondSch ipc) w1) (\<lambda>w2.
     rbind (zcrt_schedule_delete zcrt_atom_dec (im_sch ipc) w2) (\<lambda>w3. Inr (ipc, closed, bufs1, nodes1, w3)))))))"

section \<open>What a client can make the server receive\<close>

lemma recv_payload_gen:
  assumes b: "zb_buf b = Some blk" "unat n \<le> length blk" and recv: "length bytes \<le> unat n"
  shows "zipc_client_recv_payload (Some bytes) n (zb_buf b) = Inr (length bytes = unat n, Some (bytes @ drop (length bytes) blk))"
proof -
  have lb: "unat (of_nat (length bytes) :: u32) = length bytes"
    by (rule unat_of_nat_u32_small) (rule le_less_trans [OF recv u32_bound])
  then have ok: "of_nat (length bytes) = n \<longleftrightarrow> length bytes = unat n" by (metis word_unat_eq_iff)
  show ?thesis
  proof (cases "bytes = []")
    case True
    have "n = 0 \<longleftrightarrow> unat n = 0" by (metis unat_0_iff)
    then show ?thesis using True b(1) by (auto simp: zipc_client_recv_payload_def)
  next
    case False
    then show ?thesis using b recv ok by (simp add: zipc_client_recv_payload_def store_Some)
  qed
qed

text \<open>C23. Every header a client sends that is accepted has the signature and announces a payload below 8192
  bytes; such a payload fits a buffer of the pool as it is, without asking the allocator, and whatever
  recv delivers, at most as many bytes as it was asked for, stays inside it. The payload is
  accepted exactly when it is complete, and is then what the buffer holds.\<close>

theorem receive_in_bounds:
  assumes h: "zipc_client_recv_hdr rx = Some hdr"
    and b: "buf_wf b" "ZIPC_BUF_LEN \<le> zb_maxlen b"
    and recv: "length bytes \<le> unat (mh_payloadSize hdr)"
  shows "zipc_parse_check_hdr hdr \<and> mh_payloadSize hdr < ZIPC_BUF_LEN \<and>
    zcrt_buf_realloc ra (Some b) (mh_payloadSize hdr) = Inr (if mh_payloadSize hdr = 0 then 0 else mh_payloadSize hdr, Some b) \<and>
    (\<exists>ok blk. zipc_client_recv_payload (Some bytes) (mh_payloadSize hdr) (zb_buf b) = Inr (ok, Some blk) \<and>
      length blk = length (the (zb_buf b)) \<and> (ok \<longleftrightarrow> length bytes = unat (mh_payloadSize hdr)) \<and>
      (ok \<longrightarrow> buf_wf (b\<lparr>zb_buf := Some blk, zb_len := mh_payloadSize hdr, zb_offset := 0\<rparr>) \<and>
        unread (b\<lparr>zb_buf := Some blk, zb_len := mh_payloadSize hdr, zb_offset := 0\<rparr>) = bytes))"
proof -
  let ?n = "mh_payloadSize hdr"
  have n: "?n < ZIPC_BUF_LEN" using h by (auto simp: zipc_client_recv_hdr_def Let_def not_le split: option.splits if_splits)
  have sig: "zipc_parse_check_hdr hdr"
    using h by (auto simp: zipc_client_recv_hdr_def zipc_parse_check_hdr_def Let_def split: option.splits if_splits)
  have nm: "?n \<le> zb_maxlen b" using n b(2) by simp
  have "unat ZIPC_BUF_LEN = 8192" by (simp add: ZIPC_BUF_LEN_def)
  then have un: "unat ?n < 8192" using n by (simp add: word_less_nat_alt)
  have m: "unat ?n \<le> unat (zb_maxlen b)" "8192 \<le> unat (zb_maxlen b)"
    using nm b(2) \<open>unat ZIPC_BUF_LEN = 8192\<close> by (simp_all add: word_le_nat_alt)
  obtain blk where blk: "zb_buf b = Some blk" "unat (zb_maxlen b) \<le> length blk"
    using b(1) m(2) by (cases "zb_buf b") (auto simp: buf_wf_def)
  let ?blk = "bytes @ drop (length bytes) blk"
  have "unat ?n \<le> length blk" using m(1) blk(2) by simp
  then have "zipc_client_recv_payload (Some bytes) ?n (zb_buf b) = Inr (length bytes = unat ?n, Some ?blk)"
    using recv_payload_gen [OF blk(1) _ recv] by simp
  moreover have "length ?blk = length blk" using recv m(1) blk(2) by simp
  ultimately show ?thesis
    using n sig nm m(1) blk by (auto simp: zcrt_buf_realloc_def buf_wf_def unread_def contents_def not_less)
qed

theorem receive_in_bounds_witness:
  "\<exists>hdr ok blk. zipc_client_recv_hdr (Some (hdr_bytes (msg_hdr ZEIPC_TYPE_DEFAULT 2))) = Some hdr \<and>
    zipc_client_recv_payload (Some [5, 6]) (mh_payloadSize hdr) (Some (replicate 8192 0)) = Inr (ok, Some blk) \<and> ok \<and> length blk = 8192"
proof -
  let ?b = "zbuf_zero\<lparr>zb_buf := Some (replicate 8192 0), zb_maxlen := ZIPC_BUF_LEN\<rparr>"
  have h: "zipc_client_recv_hdr (Some (hdr_bytes (msg_hdr ZEIPC_TYPE_DEFAULT 2))) =
      Some (msg_hdr ZEIPC_TYPE_DEFAULT 2\<lparr>mh_appType := 0, mh_payloadSize := 2\<rparr>)"
    using hdr_of_hdr_bytes [of "msg_hdr ZEIPC_TYPE_DEFAULT 2" "[]"] check_msg_hdr [of ZEIPC_TYPE_DEFAULT 2]
    by (simp add: zipc_client_recv_hdr_def ZIPC_HEAD_LEN_def ZIPC_BUF_LEN_def) (simp add: msg_hdr_def)
  have "buf_wf ?b" by (simp add: buf_wf_def zbuf_zero_def ZIPC_BUF_LEN_def)
  from receive_in_bounds [OF h this, of "[5, 6]"] h show ?thesis by fastforce
qed

lemma pool_free_spec:
  assumes p: "pool_wf (zw_ipc w) (zw_buf w) as" and a: "a \<notin> set as" "zw_buf w a = Some b" "buf_wf b"
  shows "\<exists>ipc h. pool_free (Some a) w = Inr (w\<lparr>zw_ipc := ipc, zw_buf := h\<rparr>) \<and> pool_wf ipc h (a # as) \<and>
    (\<forall>x. x \<noteq> a \<longrightarrow> h x = zw_buf w x) \<and> ipc = (zw_ipc w)\<lparr>im_freebuf := Some a\<rparr>"
proof -
  obtain ipc h where f: "zipc_buf_free (Some (zw_ipc w)) (Some a) (zw_buf w) = Inr (Some ipc, h)" "pool_wf ipc h (a # as)"
    "\<forall>x. x \<noteq> a \<longrightarrow> h x = zw_buf w x" using free_pool [OF p a] by metis
  moreover have "ipc = (zw_ipc w)\<lparr>im_freebuf := Some a\<rparr>"
    using f(1) by (auto simp: zipc_buf_free_def rbind_eq_Inr)
  ultimately show ?thesis by (intro exI [of _ ipc] exI [of _ h]) (simp add: pool_free_def)
qed


section \<open>A client leaving\<close>

lemma of_nat_evt: "k < 256 \<Longrightarrow> unat (of_nat k :: u32) = k"
  by (simp add: unat_of_nat)

lemma unhook_all_spec:
  assumes "ev_wf m fs ass" "ev_last m = 0" "\<forall>i \<in> set is. 0 < i \<and> i < 256" "distinct is"
  shows "\<exists>m' fs' ass'. unhook_all fn p2 (Some m) client is = Inr (Some m') \<and> ev_wf m' fs' ass' \<and> ev_last m' = 0 \<and>
    (\<forall>j < 256. subs m' ass' j =
      (if j \<in> set is then del_first (is_sub fn client p2) (subs m ass j) else subs m ass j))"
  using assms
proof (induction "is" arbitrary: m fs ass)
  case Nil
  then show ?case by auto
next
  case (Cons i "is")
  have i: "0 < i" "i < 256" using Cons.prems(3) by auto
  have e: "unat (of_nat i :: u32) = i" by (rule of_nat_evt [OF i(2)])
  then have "ev_last m \<noteq> of_nat i" using Cons.prems(2) i by (auto simp: word_unat_eq_iff)
  then obtain m1 fs1 ass1 where m1: "zcrt_event_unregister (Some m) (of_nat i) (Some fn) client p2 = Inr (Some m1)"
    "ev_wf m1 fs1 ass1" "ev_last m1 = ev_last m" "subs m1 ass1 i = del_first (is_sub fn client p2) (subs m ass i)"
    "\<And>j. j \<noteq> i \<Longrightarrow> j < 256 \<Longrightarrow> subs m1 ass1 j = subs m ass j"
    using unregister_spec [OF Cons.prems(1), of "of_nat i" fn client p2] e i by metis
  have p: "ev_last m1 = 0" "\<forall>j \<in> set is. 0 < j \<and> j < 256" "distinct is" "i \<notin> set is" using Cons.prems m1(3) by auto
  obtain m' fs' ass' where r: "unhook_all fn p2 (Some m1) client is = Inr (Some m')" "ev_wf m' fs' ass'" "ev_last m' = 0"
    "\<forall>j < 256. subs m' ass' j = (if j \<in> set is then del_first (is_sub fn client p2) (subs m1 ass1 j) else subs m1 ass1 j)"
    using Cons.IH [OF m1(2) p(1-3)] by metis
  have "\<forall>j < 256. subs m' ass' j =
      (if j \<in> set (i # is) then del_first (is_sub fn client p2) (subs m ass j) else subs m ass j)"
  proof (intro allI impI)
    fix j :: nat assume j: "j < 256"
    show "subs m' ass' j =
      (if j \<in> set (i # is) then del_first (is_sub fn client p2) (subs m ass j) else subs m ass j)"
      using r(4) m1(4) m1(5) [OF _ j] p(4) j by (cases "j = i") auto
  qed
  then show ?case using m1(1) r(1-3) by (intro exI [of _ m'] exI [of _ fs'] exI [of _ ass']) simp
qed

text \<open>C24. A client that leaves, with the buffer it would have received into next or without one, waits for no job, gives
  the buffer back to the pool and is freed, and every other buffer and client stays as it was. If it has hooked events, exactly
  one of its subscriptions to each event is removed: an event it hooked more than once still has a subscription with the
  client's address after the client has been freed.\<close>

theorem client_exit_spec:
  assumes cl: "zw_client w c = Some cl" "cl_jobcnt cl = 0"
    and ev: "zw_evt w = Some m" "ev_wf m fs ass" "ev_last m = 0"
    and pool: "pool_wf (zw_ipc w) (zw_buf w) as"
    and buf: "\<And>a. buf = Some a \<Longrightarrow> a \<notin> set as \<and> (\<exists>b. zw_buf w a = Some b \<and> buf_wf b)"
  shows "\<exists>w' m' fs' ass'. client_exit c buf w = Some (Inr w') \<and> zw_client w' = (zw_client w)(c := None) \<and>
    pool_wf (zw_ipc w') (zw_buf w') (case buf of None \<Rightarrow> as | Some a \<Rightarrow> a # as) \<and>
    (\<forall>x. buf \<noteq> Some x \<longrightarrow> zw_buf w' x = zw_buf w x) \<and> zw_sch w' = zw_sch w \<and>
    zw_evt w' = Some m' \<and> ev_wf m' fs' ass' \<and>
    (\<forall>j < 256. subs m' ass' j =
      (if j = 0 \<or> \<not> cl_isEventHooked cl then subs m ass j else del_first (is_sub zipc_hookevent_cb_fn c 0) (subs m ass j))) \<and>
    (\<forall>j < 256. 0 < j \<longrightarrow> 2 \<le> length (filter (is_sub zipc_hookevent_cb_fn c 0) (subs m ass j)) \<longrightarrow>
      (\<exists>s \<in> set (subs m' ass' j). ec_fn s = Some zipc_hookevent_cb_fn \<and> ec_p1 s = c))"
proof -
  let ?P = "is_sub zipc_hookevent_cb_fn c 0"
  have "\<forall>i \<in> set [1..<ZCRT_MAX_EVT]. 0 < i \<and> i < 256" by (simp add: ZCRT_MAX_EVT_def)
  then obtain m1 fs1 ass1 where u: "unhook_all zipc_hookevent_cb_fn 0 (Some m) c [1..<ZCRT_MAX_EVT] = Inr (Some m1)" "ev_wf m1 fs1 ass1"
    "\<forall>j < 256. subs m1 ass1 j = (if j \<in> set [1..<ZCRT_MAX_EVT] then del_first ?P (subs m ass j) else subs m ass j)"
    using unhook_all_spec [OF ev(2,3) _ distinct_upt] by metis
  obtain m' fs' ass' where r: "(if cl_isEventHooked cl then unhook_all zipc_hookevent_cb_fn 0 (zw_evt w) c [1..<ZCRT_MAX_EVT]
      else Inr (zw_evt w)) = Inr (Some m')" "ev_wf m' fs' ass'"
    "\<forall>j < 256. subs m' ass' j = (if j = 0 \<or> \<not> cl_isEventHooked cl then subs m ass j else del_first ?P (subs m ass j))"
  proof (cases "cl_isEventHooked cl")
    case True
    then show thesis using that [of m1 fs1 ass1] u ev(1) by (auto simp: ZCRT_MAX_EVT_def)
  next
    case False
    then show thesis using that [of m fs ass] ev by simp
  qed
  have left: "\<exists>x \<in> set (del_first ?P xs). ?P x" if "2 \<le> length (filter ?P xs)" for xs
  proof -
    have "filter ?P (del_first ?P xs) = tl (filter ?P xs)"
      by (induction xs) (auto simp: del_first_def)
    then have "filter ?P (del_first ?P xs) \<noteq> []" using that by (cases "filter ?P xs") auto
    then show ?thesis by (metis filter_False)
  qed
  have stay: "\<exists>s \<in> set (subs m' ass' j). ec_fn s = Some zipc_hookevent_cb_fn \<and> ec_p1 s = c"
    if j: "j < 256" "0 < j" "2 \<le> length (filter ?P (subs m ass j))" for j
  proof -
    have "filter ?P (subs m ass j) \<noteq> []" using j(3) by auto
    then have "\<exists>x \<in> set (subs m' ass' j). ?P x" using left [OF j(3)] r(3) j(1,2) by (auto simp: filter_empty_conv)
    then show ?thesis by (auto simp: is_sub_def)
  qed
  let ?w1 = "w\<lparr>zw_evt := Some m'\<rparr>"
  obtain ipc h where f: "(if buf \<noteq> None then pool_free buf ?w1 else Inr ?w1) = Inr (?w1\<lparr>zw_ipc := ipc, zw_buf := h\<rparr>)"
    "pool_wf ipc h (case buf of None \<Rightarrow> as | Some a \<Rightarrow> a # as)" "\<forall>x. buf \<noteq> Some x \<longrightarrow> h x = zw_buf w x"
  proof (cases buf)
    case None
    then show thesis using that [where ipc = "zw_ipc w" and h = "zw_buf w"] pool by simp
  next
    case (Some a)
    then show thesis using buf [OF Some] pool_free_spec [where w = ?w1 and as = as and a = a] pool that by auto
  qed
  let ?w2 = "?w1\<lparr>zw_ipc := ipc, zw_buf := h, zw_client := (zw_client w)(c := None)\<rparr>"
  have "client_exit c buf w = Some (Inr ?w2)"
    unfolding client_exit_def cl(1) option.case r(1) rbind.simps Let_def f(1) using cl(2) by simp
  then show ?thesis using f(2,3) r(2,3) stay by (intro exI [of _ ?w2] exI [of _ m'] exI [of _ fs'] exI [of _ ass']) simp
qed

definition client_example :: "zIPCClient" where
  "client_example = \<lparr>cl_sock = 4, cl_thr = Some 301, cl_isEventHooked = True, cl_jobcnt = 0\<rparr>"

text \<open>A server with one client and nothing else.\<close>

definition world_example :: "unit zIpcWorld" where
  "world_example = \<lparr>zw_ipc = ipc_example\<lparr>im_respondSch := Some 22\<rparr>, zw_buf = Map.empty, zw_evt = Some ev_empty, zw_sch = sample_world,
     zw_comp = served_example, zw_client = [300 \<mapsto> client_example], zw_sent = [], zw_uid = 0, zw_notprint = True, zw_ext = ()\<rparr>"

text \<open>The client of the example leaves with a buffer.\<close>

theorem client_exit_spec_witness:
  "\<exists>w' m' fs' ass'. client_exit 300 (Some 7) (world_example\<lparr>zw_buf := [7 \<mapsto> zbuf_zero]\<rparr>) = Some (Inr w') \<and> zw_client w' = Map.empty \<and>
    pool_wf (zw_ipc w') (zw_buf w') [7] \<and> zw_evt w' = Some m' \<and> ev_wf m' fs' ass'"
proof -
  let ?w = "world_example\<lparr>zw_buf := [7 \<mapsto> zbuf_zero]\<rparr>"
  have w: "zw_client ?w 300 = Some client_example" "cl_jobcnt client_example = 0"
    "zw_evt ?w = Some ev_empty" "ev_last ev_empty = 0" "pool_wf (zw_ipc ?w) (zw_buf ?w) []" "(zw_client ?w)(300 := None) = Map.empty"
    by (simp_all add: world_example_def client_example_def ev_empty_def pool_wf_def ipc_example_def)
  from client_exit_spec [OF w(1-3) ev_empty_wf(1) w(4,5), of "Some 7"] show ?thesis
    unfolding w(6) by (fastforce simp: zbuf_zero_def buf_wf_def)
qed

section \<open>Answering a message\<close>

text \<open>
  The pool and the queue of the replies, as one message is answered: \<^verbatim>\<open>as\<close> are the free buffers and
  \<^verbatim>\<open>qs\<close> the queues of the thread \<^verbatim>\<open>t\<close>; the reply schedule \<^verbatim>\<open>s\<close> has room for
  another job.
\<close>

definition can_reply :: "zAlloc \<Rightarrow> 'w zIpcWorld \<Rightarrow> addr list \<Rightarrow> addr \<Rightarrow> addr list \<Rightarrow> addr list list \<Rightarrow> addr \<Rightarrow> nat \<Rightarrow> bool" where
  "can_reply al w as t fs qs s k \<longleftrightarrow> pool_wf (zw_ipc w) (zw_buf w) as \<and>
     can_buf (al_buf al) (al_bytes al) (zw_buf w) as \<and> sch_wf t (zw_sch w) fs qs \<and> can_new t (zw_sch w) (al_job al) \<and>
     im_respondSch (zw_ipc w) = Some s \<and> k < EZCRTSchPri_num \<and>
     (\<exists>sc. sx_sch (zw_sch w) s = Some sc \<and> sc_thr sc = Some t \<and> unat (sc_pri sc) = k \<and>
        held s (queues (zw_sch w) qs ! k) < unat (sc_maxsize sc))"

text \<open>A buffer of the pool is used before a new one is made.\<close>

lemma pool_first:
  assumes pool: "pool_wf (zw_ipc w) (zw_buf w) (a # as)"
  obtains b q where "pool_malloc al w = Inr (Some a, w\<lparr>zw_ipc := (zw_ipc w)\<lparr>im_freebuf := q\<rparr>, zw_buf := (zw_buf w)(a \<mapsto> b)\<rparr>)"
    "pool_wf ((zw_ipc w)\<lparr>im_freebuf := q\<rparr>) ((zw_buf w)(a \<mapsto> b)) as" "a \<notin> set as" "buf_wf b" "zb_len b = 0" "zb_offset b = 0"
proof -
  obtain b where b: "im_freebuf (zw_ipc w) = Some a" "zw_buf w a = Some b" "chain zb_next (zw_buf w) (zb_next b) as None"
    using pool by (auto simp: pool_wf_def)
  have ch: "chain zb_next (zw_buf w) (im_freebuf (zw_ipc w)) (a # as) None" using pool by (simp add: pool_wf_def)
  have a: "a \<notin> set as" using chain_distinct [OF ch] by simp
  let ?b = "b\<lparr>zb_len := 0, zb_offset := 0, zb_next := None\<rparr>"
  have "pool_malloc al w = Inr (Some a, w\<lparr>zw_ipc := (zw_ipc w)\<lparr>im_freebuf := zb_next b\<rparr>, zw_buf := (zw_buf w)(a \<mapsto> ?b)\<rparr>)"
    using b(1,2) by (simp add: pool_malloc_def zipc_buf_malloc_def zcrt_buf_clear_def)
  moreover have "pool_wf ((zw_ipc w)\<lparr>im_freebuf := zb_next b\<rparr>) ((zw_buf w)(a \<mapsto> ?b)) as"
    using pool b(3) a by (auto simp: pool_wf_def chain_upd)
  moreover have "buf_wf b" using pool b(2) by (auto simp: pool_wf_def)
  then have "buf_wf ?b" by (simp add: buf_wf_def)
  ultimately show ?thesis using that [of ?b "zb_next b"] a by simp
qed

lemma pool_malloc_spec:
  assumes p: "pool_wf (zw_ipc w) (zw_buf w) as" and n: "can_buf (al_buf al) (al_bytes al) (zw_buf w) as"
  obtains a as1 b ipc h where "pool_malloc al w = Inr (Some a, w\<lparr>zw_ipc := ipc, zw_buf := h\<rparr>)" "pool_wf ipc h as1" "a \<notin> set as1"
    "h a = Some b" "buf_wf b" "zb_len b = 0" "\<And>x. x \<noteq> a \<Longrightarrow> h x = zw_buf w x" "set as1 \<subseteq> set as" "a \<in> set as \<or> zw_buf w a = None"
    "\<And>q. ipc\<lparr>im_freebuf := q\<rparr> = (zw_ipc w)\<lparr>im_freebuf := q\<rparr>" "as = a # as1 \<or> as = [] \<and> as1 = [] \<and> al_buf al = Some a"
proof (rule malloc_pool [OF p n])
  fix a ipc h as1 b
  assume m: "zipc_buf_malloc (al_buf al) (al_bytes al) (Some (zw_ipc w)) (zw_buf w) = Inr (Some a, Some ipc, h)"
    "pool_wf ipc h as1" "a \<notin> set as1" "h a = Some b" "buf_wf b" "zb_len b = 0" "zb_offset b = 0"
    "as = a # as1 \<or> as = [] \<and> as1 = [] \<and> al_buf al = Some a \<and> zw_buf w a = None" "\<And>x. x \<noteq> a \<Longrightarrow> h x = zw_buf w x"
  have u: "ipc\<lparr>im_freebuf := q\<rparr> = (zw_ipc w)\<lparr>im_freebuf := q\<rparr>" for q
  proof (cases "im_freebuf (zw_ipc w)")
    case None
    then have "as = []" using p by (cases as) (auto simp: pool_wf_def)
    then show ?thesis using None m(1) n by (auto simp: can_buf_def zipc_buf_malloc_def rbind_eq_Inr)
  next
    case (Some x)
    then show ?thesis using m(1) by (auto simp: zipc_buf_malloc_def rbind_eq_Inr)
  qed
  have pm: "pool_malloc al w = Inr (Some a, w\<lparr>zw_ipc := ipc, zw_buf := h\<rparr>)"
    using m(1) by (simp add: pool_malloc_def)
  have "set as1 \<subseteq> set as" "a \<in> set as \<or> zw_buf w a = None" "as = a # as1 \<or> as = [] \<and> as1 = [] \<and> al_buf al = Some a" using m(8) by auto
  then show thesis using u by (intro that [OF pm m(2-6) m(9)]) simp_all
qed

lemma served_ipc: "served st (ipc\<lparr>im_freebuf := q\<rparr>) cname aname c f = served st ipc cname aname c f"
  by (simp add: served_def)

lemma finish_reply_spec:
  assumes p: "pool_wf (zw_ipc w2) (zw_buf w2) as1" and ia: "ia \<notin> set as1" "zw_buf w2 ia = Some ib" "buf_wf ib" "ia \<noteq> oa"
    and oa: "oa \<notin> set as1" "zw_buf w2 oa = Some ob" "zb_len ob \<noteq> 0" "set_payload_size (Some ob) = Inr (Some ob1)" "buf_wf ob1"
    and cl: "zw_client w2 client = Some cl"
    and sch: "sch_wf t (zw_sch w2) fs qs" "can_new t (zw_sch w2) (al_job al)" "im_respondSch (zw_ipc w2) = Some s"
      "k < EZCRTSchPri_num" "sx_sch (zw_sch w2) s = Some sc" "sc_thr sc = Some t" "unat (sc_pri sc) = k"
      "held s (queues (zw_sch w2) qs ! k) < unat (sc_maxsize sc)"
  shows "\<exists>w' j. finish_reply al client ia oa w2 = Inr w' \<and> zw_buf w' oa = Some ob1 \<and> pool_wf (zw_ipc w') (zw_buf w') (ia # as1) \<and>
    sch_wf t (zw_sch w') (tl fs) (qs[k := qs ! k @ [j]]) \<and>
    queues (zw_sch w') (qs[k := qs ! k @ [j]]) =
      (queues (zw_sch w2) qs)[k := queues (zw_sch w2) qs ! k @ [the_job s zipc_buf_send_job_fn 2 [client, oa]]] \<and>
    zw_client w' client = Some cl \<and> zw_sent w' = zw_sent w2 \<and> zw_comp w' = zw_comp w2 \<and> zw_ext w' = zw_ext w2 \<and>
    (\<forall>q. (zw_ipc w')\<lparr>im_freebuf := q\<rparr> = (zw_ipc w2)\<lparr>im_freebuf := q\<rparr>) \<and>
    zcrt_schedule_sendjob (al_job al) (Some s) (Some zipc_buf_send_job_fn) client oa (zw_sch w2) = Inr (EZCRTErr_success, zw_sch w') \<and>
    (\<forall>x. x \<noteq> ia \<longrightarrow> x \<noteq> oa \<longrightarrow> zw_buf w' x = zw_buf w2 x)"
proof -
  obtain j sch' where j: "zcrt_schedule_sendjob (al_job al) (Some s) (Some zipc_buf_send_job_fn) client oa (zw_sch w2) = Inr (EZCRTErr_success, sch')"
    "sch_wf t sch' (tl fs) (qs[k := qs ! k @ [j]])"
    "queues sch' (qs[k := qs ! k @ [j]]) = (queues (zw_sch w2) qs)[k := queues (zw_sch w2) qs ! k @ [the_job s zipc_buf_send_job_fn 2 [client, oa]]]"
    using sendjob_ok [OF sch(1,2) sch(5,6) sch(7,4,8)] by metis
  let ?w4 = "(put_buf oa (Some ob1) w2)\<lparr>zw_sch := sch'\<rparr>"
  have p4: "pool_wf (zw_ipc ?w4) (zw_buf ?w4) as1"
    using p oa(1) by (auto simp: pool_wf_def put_buf_def chain_upd)
  have b4: "zw_buf ?w4 ia = Some ib" using ia(2,4) by (simp add: put_buf_def)
  obtain ipc h where f: "pool_free (Some ia) ?w4 = Inr (?w4\<lparr>zw_ipc := ipc, zw_buf := h\<rparr>)" "pool_wf ipc h (ia # as1)"
    "\<forall>x. x \<noteq> ia \<longrightarrow> h x = zw_buf ?w4 x" "ipc = (zw_ipc ?w4)\<lparr>im_freebuf := Some ia\<rparr>" using pool_free_spec [OF p4 ia(1) b4 ia(3)] by metis
  have o: "h oa = Some ob1" using f(3) ia(4) by (simp add: put_buf_def)
  let ?w6 = "?w4\<lparr>zw_ipc := ipc, zw_buf := h, zw_client := (zw_client w2)(client \<mapsto> cl)\<rparr>"
  have "finish_reply al client ia oa w2 = Inr ?w6"
    using oa j(1) f(1) cl sch(3)
    by (simp add: finish_reply_def sendjob_def put_buf_def Let_def zcrt_atom_dec_def)
  then show ?thesis using f(2-4) o j by (intro exI [of _ ?w6] exI [of _ j]) (simp add: put_buf_def)
qed

text \<open>What a call does to its buffers when it answers with \<^verbatim>\<open>data\<close> and succeeds.\<close>

definition answers :: "'w ipc_call \<Rightarrow> ptr \<Rightarrow> addr \<Rightarrow> u8 list \<Rightarrow> u8 list \<Rightarrow> u8 list \<Rightarrow> zIpcHeap \<times> 'w \<Rightarrow> zIpcHeap \<times> 'w \<Rightarrow> bool" where
  "answers run_call f c args pre data st st1 \<longleftrightarrow> (\<forall>ib ob. buf_wf ib \<longrightarrow> unread ib = args \<longrightarrow> buf_wf ob \<longrightarrow> contents ob = pre \<longrightarrow>
     (\<exists>ib1 ob1. run_call f c (Some ib) (Some ob) st = Inr (EZCRTErr_success, Some ib1, Some ob1, st1) \<and>
        buf_wf ib1 \<and> buf_wf ob1 \<and> contents ob1 = pre @ data))"

lemma send_job_spec:
  assumes cl: "zw_client w c = Some cl" and a: "zw_buf w a = Some b" "buf_wf b" "a \<notin> set as" and p: "pool_wf (zw_ipc w) (zw_buf w) as"
  shows "\<exists>ipc h. zipc_buf_send_job (Some c) (Some a) w =
      Inr (w\<lparr>zw_sent := zw_sent w @ [(cl_sock cl, contents b)], zw_ipc := ipc, zw_buf := h\<rparr>) \<and> pool_wf ipc h (a # as) \<and>
      (\<forall>x. x \<noteq> a \<longrightarrow> h x = zw_buf w x) \<and> ipc = (zw_ipc w)\<lparr>im_freebuf := Some a\<rparr>"
proof -
  let ?w = "w\<lparr>zw_sent := zw_sent w @ [(cl_sock cl, contents b)]\<rparr>"
  have ld: "load_n (zb_buf b, 0) (unat (zb_len b)) = Inr (contents b)"
    using load_contents [of b 0 "unat (zb_len b)"] a(2) length_contents [OF a(2)] by simp
  obtain ipc h where "pool_free (Some a) ?w = Inr (?w\<lparr>zw_ipc := ipc, zw_buf := h\<rparr>)" "pool_wf ipc h (a # as)"
    "\<forall>x. x \<noteq> a \<longrightarrow> h x = zw_buf w x" "ipc = (zw_ipc w)\<lparr>im_freebuf := Some a\<rparr>"
    using pool_free_spec [of ?w as a b] a p by auto
  then show ?thesis using cl a(1) ld by (auto simp: zipc_buf_send_job_def)
qed

text \<open>The buffer of the reply, before its size is filled in and it is queued; both servers make it this way.\<close>

lemma reply_made:
  assumes ra: "realloc_total ra" and p: "pool_wf (zw_ipc w) (zw_buf w) as" "can_buf (al_buf al) (al_bytes al) (zw_buf w) as"
    and ia: "ia \<notin> set as" "zw_buf w ia = Some ib" "buf_wf ib" "unat (zb_len ib) < 2 ^ 31"
    and i: "unread ib = enc_request hs cname aname @ args" "length hs < 2 ^ 32" "ch_req (fold apply_field hs ch_zero)"
    and nm: "is_name cname" "cname \<noteq> []" "is_name aname" "aname \<noteq> []"
    and sv: "served (zw_comp w) (zw_ipc w) cname aname c f"
    and call: "answers run_call f c args (reply_head hs) data (zw_comp w, zw_ext w) (comp1, ext1)"
  obtains oa as1 ipc h ob ib2 ob2 ob3 where "pool_malloc al w = Inr (Some oa, w\<lparr>zw_ipc := ipc, zw_buf := h\<rparr>)"
    "h ia = Some ib" "h oa = Some ob" "ia \<noteq> oa" "ia \<notin> set as1" "oa \<notin> set as1"
    "zipc_parse_payload run_call ra (Some ipc) 0 (Some ib) (Some ob) (zw_comp w, zw_ext w) =
      Inr (EZCRTErr_success, Some ib2, Some ob2, comp1, ext1)" "buf_wf ib2" "zb_len ob2 \<noteq> 0"
    "set_payload_size (Some ob2) = Inr (Some ob3)" "buf_wf ob3"
    "contents ob3 = hdr_bytes (msg_hdr ZEIPC_TYPE_DEFAULT (of_nat (length (enc_reply_ch (ch_sn (fold apply_field hs ch_zero)) True @ data)))) @
      enc_reply_ch (ch_sn (fold apply_field hs ch_zero)) True @ data"
    "\<And>x y. pool_wf ipc (h(ia := x, oa := y)) as1" "\<And>q. ipc\<lparr>im_freebuf := q\<rparr> = (zw_ipc w)\<lparr>im_freebuf := q\<rparr>"
    "as1 = tl as" "oa \<in> set as \<or> zw_buf w oa = None" "\<And>x. x \<noteq> oa \<Longrightarrow> h x = zw_buf w x"
proof -
  let ?body = "enc_reply_ch (ch_sn (fold apply_field hs ch_zero)) True @ data"
  obtain oa as1 ob ipc h where m: "pool_malloc al w = Inr (Some oa, w\<lparr>zw_ipc := ipc, zw_buf := h\<rparr>)" "pool_wf ipc h as1" "oa \<notin> set as1"
    "h oa = Some ob" "buf_wf ob" "zb_len ob = 0" "\<And>x. x \<noteq> oa \<Longrightarrow> h x = zw_buf w x" "set as1 \<subseteq> set as" "oa \<in> set as \<or> zw_buf w oa = None"
    "\<And>q. ipc\<lparr>im_freebuf := q\<rparr> = (zw_ipc w)\<lparr>im_freebuf := q\<rparr>" "as = oa # as1 \<or> as = [] \<and> as1 = [] \<and> al_buf al = Some oa"
    by (rule pool_malloc_spec [OF p]) (rule that)
  have ne: "ia \<noteq> oa" using m(9) ia(1,2) by auto
  have la: "as1 = tl as" using m(11) by auto
  have hia: "h ia = Some ib" using m(7) [OF ne] ia(2) by simp
  have same: "served (zw_comp w) ipc cname aname c f" using sv served_ipc m(10) by metis
  obtain ib1 ob1 where d: "unread ib1 = args" "buf_wf ib1" "buf_wf ob1" "contents ob1 = reply_head hs"
    "zipc_parse_payload run_call ra (Some ipc) (zeipc_code ZEIPC_TYPE_DEFAULT) (Some ib) (Some ob) (zw_comp w, zw_ext w) =
      rbind (run_call f c (Some ib1) (Some ob1) (zw_comp w, zw_ext w)) (\<lambda>(ret, b2, o3, w1).
        if ret \<noteq> EZCRTErr_success
        then rbind (zipc_parse_put_reply_errcode ra o3 ret) (\<lambda>(_, o4). Inr (ret, b2, o4, w1))
        else Inr (ret, b2, o3, w1))"
    using request_run [OF ra m(5,6) ia(3,4) i nm same, where run_call = run_call and w = "zw_ext w"] by (elim exE conjE) (rule that)
  obtain ib2 ob2 where cd: "run_call f c (Some ib1) (Some ob1) (zw_comp w, zw_ext w) = Inr (EZCRTErr_success, Some ib2, Some ob2, (comp1, ext1))"
    "buf_wf ib2" "buf_wf ob2" "contents ob2 = reply_head hs @ data"
    using call d(1-4) unfolding answers_def by metis
  have c2: "contents ob2 = hdr_bytes (msg_hdr ZEIPC_TYPE_DEFAULT 0) @ ?body" using cd(4) by (simp add: reply_head_def)
  obtain ob3 where o3: "set_payload_size (Some ob2) = Inr (Some ob3)" "buf_wf ob3"
    "contents ob3 = hdr_bytes (msg_hdr ZEIPC_TYPE_DEFAULT (of_nat (length ?body))) @ ?body"
    by (rule set_payload_spec [OF cd(3) c2])
  have "unat (zb_len ob2) \<noteq> 0" using length_contents [OF cd(3)] c2 by simp
  then have l2: "zb_len ob2 \<noteq> 0" by (simp add: unat_eq_0)
  have ia1: "ia \<notin> set as1" using ia(1) m(8) by blast
  have p2: "pool_wf ipc (h(ia := x, oa := y)) as1" for x y using m(2,3) ia1 by (auto simp: pool_wf_def chain_upd)
  have pl: "zipc_parse_payload run_call ra (Some ipc) 0 (Some ib) (Some ob) (zw_comp w, zw_ext w) =
      Inr (EZCRTErr_success, Some ib2, Some ob2, comp1, ext1)" using d(5) cd(1) by simp
  show ?thesis by (rule that [OF m(1) hia m(4) ne ia1 m(3) pl cd(2) l2 o3 p2 m(10) la m(9,7)])
qed

text \<open>The job that answers a request, up to the queueing of the reply.\<close>

lemma request_answer:
  assumes ra: "realloc_total ra" and r: "can_reply al w as t fs qs s k" and cl: "zw_client w client = Some cl"
    and ia: "ia \<notin> set as" "zw_buf w ia = Some ib" "buf_wf ib" "unat (zb_len ib) < 2 ^ 31"
    and i: "unread ib = enc_request hs cname aname @ args" "length hs < 2 ^ 32" "ch_req (fold apply_field hs ch_zero)"
    and nm: "is_name cname" "cname \<noteq> []" "is_name aname" "aname \<noteq> []"
    and sv: "served (zw_comp w) (zw_ipc w) cname aname c f"
    and call: "answers run_call f c args (reply_head hs) data (zw_comp w, zw_ext w) (comp1, ext1)"
  obtains w' oa j as1 ob where "zipc_msg_proc_job run_call ra al client ia 0 w = Inr w'"
    "zcrt_schedule_sendjob (al_job al) (Some s) (Some zipc_buf_send_job_fn) client oa (zw_sch w) = Inr (EZCRTErr_success, zw_sch w')"
    "queues (zw_sch w') (qs[k := qs ! k @ [j]]) =
      (queues (zw_sch w) qs)[k := queues (zw_sch w) qs ! k @ [the_job s zipc_buf_send_job_fn 2 [client, oa]]]"
    "sch_wf t (zw_sch w') (tl fs) (qs[k := qs ! k @ [j]])" "zw_comp w' = comp1" "zw_ext w' = ext1"
    "zw_client w' client = Some cl" "zw_sent w' = zw_sent w" "zw_buf w' oa = Some ob" "buf_wf ob"
    "contents ob = hdr_bytes (msg_hdr ZEIPC_TYPE_DEFAULT (of_nat (length (enc_reply_ch (ch_sn (fold apply_field hs ch_zero)) True @ data)))) @
      enc_reply_ch (ch_sn (fold apply_field hs ch_zero)) True @ data"
    "pool_wf (zw_ipc w') (zw_buf w') (ia # as1)" "oa \<notin> set (ia # as1)"
    "\<And>q. (zw_ipc w')\<lparr>im_freebuf := q\<rparr> = (zw_ipc w)\<lparr>im_freebuf := q\<rparr>" "as1 = tl as"
    "\<And>x. x \<noteq> ia \<Longrightarrow> x \<notin> set as \<Longrightarrow> zw_buf w x \<noteq> None \<Longrightarrow> x \<noteq> oa \<and> zw_buf w' x = zw_buf w x"
proof -
  let ?body = "enc_reply_ch (ch_sn (fold apply_field hs ch_zero)) True @ data"
  obtain sc where p: "pool_wf (zw_ipc w) (zw_buf w) as" "can_buf (al_buf al) (al_bytes al) (zw_buf w) as"
    "sch_wf t (zw_sch w) fs qs" "can_new t (zw_sch w) (al_job al)" "im_respondSch (zw_ipc w) = Some s" "k < EZCRTSchPri_num"
    "sx_sch (zw_sch w) s = Some sc" "sc_thr sc = Some t" "unat (sc_pri sc) = k" "held s (queues (zw_sch w) qs ! k) < unat (sc_maxsize sc)"
    using r by (auto simp: can_reply_def)
  obtain oa as1 ipc h ob ib2 ob2 ob3 where m: "pool_malloc al w = Inr (Some oa, w\<lparr>zw_ipc := ipc, zw_buf := h\<rparr>)"
    "h ia = Some ib" "h oa = Some ob" "ia \<noteq> oa" "ia \<notin> set as1" "oa \<notin> set as1"
    "zipc_parse_payload run_call ra (Some ipc) 0 (Some ib) (Some ob) (zw_comp w, zw_ext w) =
      Inr (EZCRTErr_success, Some ib2, Some ob2, comp1, ext1)" "buf_wf ib2" "zb_len ob2 \<noteq> 0"
    "set_payload_size (Some ob2) = Inr (Some ob3)" "buf_wf ob3" "contents ob3 = hdr_bytes (msg_hdr ZEIPC_TYPE_DEFAULT (of_nat (length ?body))) @ ?body"
    "\<And>x y. pool_wf ipc (h(ia := x, oa := y)) as1" "\<And>q. ipc\<lparr>im_freebuf := q\<rparr> = (zw_ipc w)\<lparr>im_freebuf := q\<rparr>" "as1 = tl as"
    "oa \<in> set as \<or> zw_buf w oa = None" "\<And>x. x \<noteq> oa \<Longrightarrow> h x = zw_buf w x"
    by (rule reply_made [OF ra p(1,2) ia i nm sv call]) (rule that)
  let ?w2 = "put_buf oa (Some ob2) (put_buf ia (Some ib2) (w\<lparr>zw_ipc := ipc, zw_buf := h, zw_comp := comp1, zw_ext := ext1\<rparr>))"
  have same: "im_respondSch ipc = Some s" using arg_cong [OF m(14) [of None], of im_respondSch] p(5) by simp
  have p2: "pool_wf (zw_ipc ?w2) (zw_buf ?w2) as1" using m(13) [of "Some ib2" "Some ob2"] by (simp add: put_buf_def)
  have run: "zipc_msg_proc_job run_call ra al client ia 0 w = finish_reply al client ia oa ?w2"
    using cl m(1-3,7) by (simp add: zipc_msg_proc_job_def)
  have b2: "zw_buf ?w2 ia = Some ib2" "zw_buf ?w2 oa = Some ob2" "zw_client ?w2 client = Some cl" using m(4) cl by (simp_all add: put_buf_def)
  have w2: "zw_sch ?w2 = zw_sch w" "zw_ipc ?w2 = ipc" "zw_sent ?w2 = zw_sent w" "zw_comp ?w2 = comp1" "zw_ext ?w2 = ext1"
    by (simp_all add: put_buf_def)
  obtain w' j where w': "finish_reply al client ia oa ?w2 = Inr w'" "zw_buf w' oa = Some ob3" "pool_wf (zw_ipc w') (zw_buf w') (ia # as1)"
    "sch_wf t (zw_sch w') (tl fs) (qs[k := qs ! k @ [j]])"
    "queues (zw_sch w') (qs[k := qs ! k @ [j]]) =
      (queues (zw_sch w) qs)[k := queues (zw_sch w) qs ! k @ [the_job s zipc_buf_send_job_fn 2 [client, oa]]]"
    "zw_client w' client = Some cl" "zw_sent w' = zw_sent w" "zw_comp w' = comp1" "zw_ext w' = ext1"
    "\<forall>q. (zw_ipc w')\<lparr>im_freebuf := q\<rparr> = ipc\<lparr>im_freebuf := q\<rparr>"
    "zcrt_schedule_sendjob (al_job al) (Some s) (Some zipc_buf_send_job_fn) client oa (zw_sch w) = Inr (EZCRTErr_success, zw_sch w')"
    "\<forall>x. x \<noteq> ia \<longrightarrow> x \<noteq> oa \<longrightarrow> zw_buf w' x = zw_buf ?w2 x"
    using finish_reply_spec [OF p2 m(5) b2(1) m(8,4,6) b2(2) m(9,10,11) b2(3), unfolded w2, OF p(3,4) same p(6-10)] by metis
  have out: "oa \<notin> set (ia # as1)" using m(4,6) by auto
  have "zipc_msg_proc_job run_call ra al client ia 0 w = Inr w'" using run w'(1) by simp
  moreover have "x \<noteq> oa \<and> zw_buf w' x = zw_buf w x" if "x \<noteq> ia" "x \<notin> set as" "zw_buf w x \<noteq> None" for x
    using that w'(12) m(16,17) by (auto simp: put_buf_def)
  ultimately show ?thesis by (intro that [OF _ w'(11,5,4,8,9,6,7,2) m(11,12) w'(3) out _ m(15)]) (simp_all add: w'(10) m(14))
qed

text \<open>C4. A message with a request for a registered call is answered by exactly one message: the header with the
  size of what follows, the reply's common header and the data of the call. It is queued behind the other jobs of
  the reply schedule's priority, and when that job runs it is sent on the client's socket, and both buffers
  are back in the pool.\<close>

theorem request_answered:
  assumes ra: "realloc_total ra" and r: "can_reply al w as t fs qs s k" and cl: "zw_client w client = Some cl"
    and ia: "ia \<notin> set as" "zw_buf w ia = Some ib" "buf_wf ib" "unat (zb_len ib) < 2 ^ 31"
    and i: "unread ib = enc_request hs cname aname @ args" "length hs < 2 ^ 32" "ch_req (fold apply_field hs ch_zero)"
    and nm: "is_name cname" "cname \<noteq> []" "is_name aname" "aname \<noteq> []"
    and sv: "served (zw_comp w) (zw_ipc w) cname aname c f"
    and call: "answers run_call f c args (reply_head hs) data (zw_comp w, zw_ext w) (comp1, ext1)"
  defines "body \<equiv> enc_reply_ch (ch_sn (fold apply_field hs ch_zero)) True @ data"
  shows "\<exists>w' oa j w''. zipc_msg_proc_job run_call ra al client ia 0 w = Inr w' \<and>
    queues (zw_sch w') (qs[k := qs ! k @ [j]]) =
      (queues (zw_sch w) qs)[k := queues (zw_sch w) qs ! k @ [the_job s zipc_buf_send_job_fn 2 [client, oa]]] \<and>
    sch_wf t (zw_sch w') (tl fs) (qs[k := qs ! k @ [j]]) \<and> zw_comp w' = comp1 \<and> zw_ext w' = ext1 \<and>
    zipc_buf_send_job (Some client) (Some oa) w' = Inr w'' \<and>
    zw_sent w'' = zw_sent w @ [(cl_sock cl, hdr_bytes (msg_hdr ZEIPC_TYPE_DEFAULT (of_nat (length body))) @ body)] \<and>
    (\<exists>as1. pool_wf (zw_ipc w'') (zw_buf w'') (oa # ia # as1))"
proof -
  obtain w' oa j as1 ob where a: "zipc_msg_proc_job run_call ra al client ia 0 w = Inr w'"
    "queues (zw_sch w') (qs[k := qs ! k @ [j]]) =
      (queues (zw_sch w) qs)[k := queues (zw_sch w) qs ! k @ [the_job s zipc_buf_send_job_fn 2 [client, oa]]]"
    "sch_wf t (zw_sch w') (tl fs) (qs[k := qs ! k @ [j]])" "zw_comp w' = comp1" "zw_ext w' = ext1"
    "zw_client w' client = Some cl" "zw_sent w' = zw_sent w" "zw_buf w' oa = Some ob" "buf_wf ob"
    "contents ob = hdr_bytes (msg_hdr ZEIPC_TYPE_DEFAULT (of_nat (length body))) @ body"
    "pool_wf (zw_ipc w') (zw_buf w') (ia # as1)" "oa \<notin> set (ia # as1)"
    by (rule request_answer [OF ra r cl ia i nm sv call, folded body_def]) (rule that)
  obtain ipc h where "zipc_buf_send_job (Some client) (Some oa) w' =
      Inr (w'\<lparr>zw_sent := zw_sent w' @ [(cl_sock cl, contents ob)], zw_ipc := ipc, zw_buf := h\<rparr>)" "pool_wf ipc h (oa # ia # as1)"
    using send_job_spec [OF a(6,8,9,12,11)] by blast
  then show ?thesis using a
    by (intro exI [of _ w'] exI [of _ oa] exI [of _ j] exI [of _ "w'\<lparr>zw_sent := zw_sent w' @ [(cl_sock cl, contents ob)], zw_ipc := ipc, zw_buf := h\<rparr>"]) auto
qed

definition alloc_example :: zAlloc where
  "alloc_example = \<lparr>al_buf = Some 400, al_bytes = True, al_job = Some 12, al_sub = None\<rparr>"

definition request_world :: "u8 list \<Rightarrow> unit zIpcWorld" where
  "request_world bs = world_example\<lparr>zw_buf := [401 \<mapsto> buf_of bs]\<rparr>"

lemma request_world_ready: "can_reply alloc_example (request_world bs) [] 100 [] [[10, 11], [], []] 22 0"
  unfolding can_reply_def
proof (intro conjI)
  show "pool_wf (zw_ipc (request_world bs)) (zw_buf (request_world bs)) []"
    by (simp add: pool_wf_def request_world_def world_example_def ipc_example_def)
  show "can_buf (al_buf alloc_example) (al_bytes alloc_example) (zw_buf (request_world bs)) []"
    by (simp add: can_buf_def alloc_example_def request_world_def)
  have w: "zw_sch (request_world bs) = sample_world" by (simp add: request_world_def world_example_def)
  show "sch_wf 100 (zw_sch (request_world bs)) [] [[10, 11], [], []]" unfolding w by (rule sample_wf)
  show "can_new 100 (zw_sch (request_world bs)) (al_job alloc_example)"
    unfolding w using sample_new by (simp add: alloc_example_def)
  show "im_respondSch (zw_ipc (request_world bs)) = Some 22" by (simp add: request_world_def world_example_def)
  show "(0::nat) < EZCRTSchPri_num" by (simp add: EZCRTSchPri_num_def)
  show "\<exists>sc. sx_sch (zw_sch (request_world bs)) 22 = Some sc \<and> sc_thr sc = Some 100 \<and> unat (sc_pri sc) = 0 \<and>
      held 22 (queues (zw_sch (request_world bs)) [[10, 11], [], []] ! 0) < unat (sc_maxsize sc)"
    unfolding w sample_queues by (simp add: sample_sel)
qed

theorem request_answered_witness:
  "\<exists>w' oa w''. zipc_msg_proc_job (\<lambda>f c i ob st. Inr (EZCRTErr_success, i, ob, st)) realloc_zero alloc_example 300 401 0
      (request_world (enc_request [F_sn 3, F_req True] [115] [103])) = Inr w' \<and>
    zipc_buf_send_job (Some 300) (Some oa) w' = Inr w'' \<and>
    zw_sent w'' = [(4, hdr_bytes (msg_hdr ZEIPC_TYPE_DEFAULT (of_nat (length (enc_reply_ch 3 True)))) @ enc_reply_ch 3 True)]"
proof -
  let ?x = "enc_request [F_sn 3, F_req True] [115] [103]"
  have "length ?x < 1000" using request_short [of 103] by simp
  note f = buf_of_facts [OF this]
  have u: "unread (buf_of ?x) = ?x @ []" using f(3) by simp
  have w: "zw_client (request_world ?x) 300 = Some client_example" "zw_buf (request_world ?x) 401 = Some (buf_of ?x)"
    "zw_sent (request_world ?x) = []" "cl_sock client_example = 4"
    by (simp_all add: request_world_def world_example_def client_example_def)
  have sv: "served (zw_comp (request_world ?x)) (zw_ipc (request_world ?x)) [115] [103] 100 7"
    using example_served(1) by (simp add: request_world_def world_example_def served_def)
  have an: "answers (\<lambda>f c i ob st. Inr (EZCRTErr_success, i, ob, st)) 7 100 [] (reply_head [F_sn 3, F_req True]) []
      (zw_comp (request_world ?x), zw_ext (request_world ?x)) (zw_comp (request_world ?x), zw_ext (request_world ?x))"
    by (simp add: answers_def)
  from request_answered [OF realloc_zero_total request_world_ready w(1) _ w(2) f(1,2) u _ _ example_names(1) _ example_names(2) _ sv an]
  show ?thesis using w(3,4) by (fastforce simp: ch_zero_def)
qed

text \<open>A reply without a header, as a malformed hook request gets it, is garbled when its size is filled in: the
  last three of its nine bytes are overwritten with the size -1, and a byte behind it is written.\<close>

theorem headerless_reply_garbled:
  assumes b: "buf_wf b" "contents b = enc_err e" "unat (zb_len b) = 9" "zb_buf b = Some blk" "10 \<le> length blk"
  shows "\<exists>b'. set_payload_size (Some b) = Inr (Some b') \<and> contents b' = take 6 (enc_err e) @ [0xFF, 0xFF, 0xFF] \<and>
    the (zb_buf b') ! 9 = 0xFF"
proof -
  have len: "zb_len b = 9" using b(3) by (simp add: word_unat_eq_iff)
  have "(zb_len b - ZIPC_HEAD_LEN :: u32) = 0xFFFFFFFF" by (simp add: len ZIPC_HEAD_LEN_def)
  moreover have "bytes32 (htonl 0xFFFFFFFF) = [0xFF, 0xFF, 0xFF, 0xFF]"
    by (simp add: bytes32_def htonl_def word32_def)
  ultimately have s: "bytes32 (htonl (zb_len b - ZIPC_HEAD_LEN)) = [0xFF, 0xFF, 0xFF, 0xFF]" by simp
  have tk: "take 9 blk = enc_err e" using b(2-4) by (simp add: contents_def)
  have t6: "take 6 blk = take 6 (enc_err e)" using arg_cong [OF tk, of "take 6"] by (simp add: min_def)
  have l6: "length (take 6 blk) = 6" using b(5) by simp
  let ?blk = "take 6 blk @ [0xFF, 0xFF, 0xFF, 0xFF] @ drop 10 blk"
  have "set_payload_size (Some b) = Inr (Some (b\<lparr>zb_buf := Some ?blk\<rparr>))"
    using b(4,5) by (simp add: set_payload_size_def s store_Some)
  moreover have "contents (b\<lparr>zb_buf := Some ?blk\<rparr>) = take 6 (enc_err e) @ [0xFF, 0xFF, 0xFF]"
    using l6 by (simp add: contents_def b(3) t6)
  moreover have "?blk ! 9 = 0xFF" using l6 by (simp add: nth_append)
  ultimately show ?thesis by (intro exI [of _ "b\<lparr>zb_buf := Some ?blk\<rparr>"]) simp
qed

theorem headerless_reply_garbled_witness:
  "\<exists>b'. set_payload_size (Some (buf_of (enc_err EZCRTErr_ipcBodyErr @ [0])\<lparr>zb_len := 9\<rparr>)) = Inr (Some b') \<and>
    contents b' = take 6 (enc_err EZCRTErr_ipcBodyErr) @ [0xFF, 0xFF, 0xFF]"
proof -
  have l: "length (enc_err EZCRTErr_ipcBodyErr) = 9" by (rule enc_body_err_length)
  have "buf_wf (buf_of (enc_err EZCRTErr_ipcBodyErr @ [0])\<lparr>zb_len := 9\<rparr>)" by (simp add: buf_of_def buf_wf_def zbuf_zero_def l)
  moreover have "contents (buf_of (enc_err EZCRTErr_ipcBodyErr @ [0])\<lparr>zb_len := 9\<rparr>) = enc_err EZCRTErr_ipcBodyErr"
    by (simp add: buf_of_def contents_def zbuf_zero_def l)
  ultimately show ?thesis
    using headerless_reply_garbled [of "buf_of (enc_err EZCRTErr_ipcBodyErr @ [0])\<lparr>zb_len := 9\<rparr>" EZCRTErr_ipcBodyErr] l
    by (force simp: buf_of_def)
qed

section \<open>Deleting a server\<close>

definition freed :: "addr list \<Rightarrow> 'n heap \<Rightarrow> 'n heap" where
  "freed as h a = (if a \<in> set as then None else h a)"

lemma freeall_spec: "pool_wf ipc h as \<Longrightarrow> zipc_comp_buf_freeall ipc h = Inr (freed as h)"
  using free_nodes_chain [of zb_next h "im_freebuf ipc" as]
  by (simp add: zipc_comp_buf_freeall_def pool_wf_def freed_def [abs_def])

lemma hash_freed: "hash_wf hp tb ass \<Longrightarrow> zcrt_hash_delete hp (Some tb) = Inr (freed (concat ass) hp)"
  by (simp add: hash_delete_frees freed_def [abs_def])

lemma stop_pool: "pool_wf ipc h as \<Longrightarrow> pool_wf (ipc\<lparr>im_run := False\<rparr>) h as"
  by (simp add: pool_wf_def)

text \<open>What the deletion of a server does, with the fields of the threads that it keeps.\<close>

lemma server_deletes:
  assumes pool: "pool_wf ipc bufs as" and tb: "im_modlist ipc = Some tb" "hash_wf nodes tb ass"
    and h: "im_sch ipc = Some s1" "im_respondSch ipc = Some s2" "im_evtSch ipc = Some s3"
    and ok: "thr_ok t0 S0 T0 ss0 fs0 qs0 w" "thr_ok t2 S2 T2 ss2 fs2 qs2 w" "apart t0 S0 T0 t2 S2 T2"
    and three: "three_schs s1 s2 s3 c1 c2 c3 T0 T2 qs0 qs2 w"
  obtains w' fs0' qs0' fs2' qs2' th0 th0' th2 th2' where
    "zipc_server_delete ipc bufs nodes w = Inr (ipc\<lparr>im_run := False\<rparr>, im_socket ipc, freed as bufs, freed (concat ass) nodes, w')"
    "\<forall>s \<in> {s1, s2, s3}. sx_sch w' s = None" "sch_wf t0 w' fs0' qs0'" "queues w' qs0' = without s1 c1 (queues w qs0)"
    "sch_wf t2 w' fs2' qs2'" "queues w' qs2' = without s2 c2 (without s3 c3 (queues w qs2))"
    "sx_thr w t0 = Some th0" "sx_thr w' t0 = Some th0'" "th_run th0' = th_run th0" "th_next th0' = th_next th0"
    "sx_thr w t2 = Some th2" "sx_thr w' t2 = Some th2'" "\<not> th_run th2'" "th_next th2' = th_next th2" "th_module th2' = th_module th2"
    "\<And>t. t \<noteq> t0 \<Longrightarrow> t \<noteq> t2 \<Longrightarrow> sx_thr w' t = sx_thr w t" "sx_mod w' = sx_mod w"
proof (rule delete_three_spec [OF ok three, of zcrt_atom_dec])
  fix w' fs0' qs0' fs2' qs2' th0 th0' th2 th2a th2'
  assume d: "delete_three zcrt_atom_dec (Some s3) (Some s2) (Some s1) w = Inr w'"
    "thr_ok t0 S0 T0 (filter (\<lambda>r. r \<noteq> s1) ss0) fs0' qs0' w'" "queues w' qs0' = without s1 c1 (queues w qs0)"
    "thr_ok t2 S2 T2 (filter (\<lambda>r. r \<noteq> s2) (filter (\<lambda>r. r \<noteq> s3) ss2)) fs2' qs2' w'"
    "queues w' qs2' = without s2 c2 (without s3 c3 (queues w qs2))"
    "sx_sch w' s1 = None" "sx_sch w' s2 = None" "sx_sch w' s3 = None"
    "sx_thr w t0 = Some th0" "sx_thr w' t0 = Some th0'" "run_after EZCRTSchType_zcrtThread zcrt_atom_dec th0 th0'"
    "sx_thr w t2 = Some th2" "run_after EZCRTSchType_shareThread zcrt_atom_dec th2 th2a"
    "sx_thr w' t2 = Some th2'" "run_after EZCRTSchType_selfThread zcrt_atom_dec th2a th2'"
    "\<And>t. t \<noteq> t0 \<Longrightarrow> t \<noteq> t2 \<Longrightarrow> sx_thr w' t = sx_thr w t" "sx_mod w' = sx_mod w"
  have r: "zipc_server_delete ipc bufs nodes w =
      rbind (delete_three zcrt_atom_dec (Some s3) (Some s2) (Some s1) w) (\<lambda>w3. Inr (ipc\<lparr>im_run := False\<rparr>, im_socket ipc, freed as bufs, freed (concat ass) nodes, w3))"
    by (simp add: zipc_server_delete_def delete_three_def rbind_assoc freeall_spec [OF stop_pool [OF pool]] tb(1) hash_freed [OF tb(2)] h Let_def)
  have run: "zipc_server_delete ipc bufs nodes w = Inr (ipc\<lparr>im_run := False\<rparr>, im_socket ipc, freed as bufs, freed (concat ass) nodes, w')" using r d(1) by simp
  have wf: "sch_wf t0 w' fs0' qs0'" "sch_wf t2 w' fs2' qs2'" using d(2,4) by (simp_all add: thr_ok_def)
  have f: "th_run th0' = th_run th0" "th_next th0' = th_next th0" "\<not> th_run th2'" "th_next th2' = th_next th2" "th_module th2' = th_module th2"
    using d(11,13,15) by (simp_all add: run_after_def zcrt_atom_dec_def)
  show thesis by (rule that [OF run _ wf(1) d(3) wf(2) d(5,9,10) f(1,2) d(12,14) f(3-5) d(16,17)]) (use d(6-8) in auto)
qed

text \<open>C8. Deleting a server whose schedules have no job at the end of a queue that others share clears the flag that its
  listening thread and its clients' threads look at, closes the listening socket, frees every buffer of the
  pool and every node of its table, deletes the three schedules with exactly their jobs, keeps the jobs of other schedules in
  order and both threads well formed, and tells the server's own thread to stop, but not the module's.\<close>

theorem server_delete_spec:
  assumes pool: "pool_wf ipc bufs as" and tb: "im_modlist ipc = Some tb" "hash_wf nodes tb ass"
    and h: "im_sch ipc = Some s1" "im_respondSch ipc = Some s2" "im_evtSch ipc = Some s3"
    and ok: "thr_ok t0 S0 T0 ss0 fs0 qs0 w" "thr_ok t2 S2 T2 ss2 fs2 qs2 w" "apart t0 S0 T0 t2 S2 T2"
    and three: "three_schs s1 s2 s3 c1 c2 c3 T0 T2 qs0 qs2 w"
  shows "\<exists>w' fs0' qs0' fs2' qs2' th0 th0' th2'.
    zipc_server_delete ipc bufs nodes w =
      Inr (ipc\<lparr>im_run := False\<rparr>, im_socket ipc, freed as bufs, freed (concat ass) nodes, w') \<and>
    (\<forall>s \<in> {s1, s2, s3}. sx_sch w' s = None) \<and>
    sch_wf t0 w' fs0' qs0' \<and> queues w' qs0' = without s1 c1 (queues w qs0) \<and>
    sch_wf t2 w' fs2' qs2' \<and> queues w' qs2' = without s2 c2 (without s3 c3 (queues w qs2)) \<and>
    sx_thr w t0 = Some th0 \<and> sx_thr w' t0 = Some th0' \<and> th_run th0' = th_run th0 \<and> sx_thr w' t2 = Some th2' \<and> \<not> th_run th2'"
  by (rule server_deletes [OF assms]) blast

definition idle_ipc :: zIPCModule where
  "idle_ipc = \<lparr>im_sch = Some 3, im_respondSch = Some 4, im_evtSch = Some 6, im_socket = 3, im_evt_encode = None, im_port = 1, im_run = True,
     im_modlist = Some empty_table, im_name = [], im_freebuf = Some 7\<rparr>"

lemma idle_ipc_wf: "pool_wf idle_ipc [7 \<mapsto> zbuf_zero] [7]"
  by (simp add: pool_wf_def idle_ipc_def zbuf_zero_def buf_wf_def)

theorem server_delete_spec_witness:
  "\<exists>w' th2'. zipc_server_delete idle_ipc [7 \<mapsto> zbuf_zero] Map.empty idle_world =
      Inr (idle_ipc\<lparr>im_run := False\<rparr>, 3, Map.empty, Map.empty, w') \<and>
    sx_sch w' 4 = None \<and> sx_thr w' 5 = Some th2' \<and> \<not> th_run th2'"
proof -
  have h: "im_modlist idle_ipc = Some empty_table" "im_sch idle_ipc = Some 3" "im_respondSch idle_ipc = Some 4" "im_evtSch idle_ipc = Some 6"
    by (simp_all add: idle_ipc_def)
  have "freed [7] [7 \<mapsto> zbuf_zero] = Map.empty" "freed (concat (replicate 32 [])) (Map.empty :: zcompref hheap) = Map.empty"
    by (auto simp: freed_def fun_eq_iff)
  then show ?thesis
    using server_delete_spec [OF idle_ipc_wf h(1) empty_table_wf(1) [of Map.empty] h(2-4) idle_ok idle_three] by (auto simp: idle_ipc_def)
qed

end
