(* ===== verification/Zipc_Listen.thy ===== *)
theory Zipc_Listen
  imports Zipc_Server
begin

text \<open>
  The listening thread of the server on sockets, \<^verbatim>\<open>_zipc_server_thread\<close> of
  \<^verbatim>\<open>zipc/zipc_server_os.c\<close>: it opens its socket and makes a client for every connection. What the
  calls of the socket library answer is given by arguments.
\<close>

section \<open>Operations\<close>

text \<open>
  The answers to \<^verbatim>\<open>socket\<close> (\<^verbatim>\<open>None\<close> is the invalid socket), \<^verbatim>\<open>setsockopt\<close>,
  \<^verbatim>\<open>bind\<close>, which is given the port in network order, and \<^verbatim>\<open>listen\<close>.
\<close>

record zListen =
  ls_socket :: "nat option"
  ls_setsockopt :: "nat \<Rightarrow> int"
  ls_bind :: "nat \<Rightarrow> u16 \<Rightarrow> int"
  ls_listen :: "nat \<Rightarrow> int"

text \<open>What one round meets: whether the thread should stop, the connection, the allocator, and what creating the client's
  thread gives.\<close>

record zAccept =
  ac_stop :: bool
  ac_sock :: "nat option"
  ac_new :: "addr option"
  ac_thr :: "addr option"

text \<open>\<^verbatim>\<open>None\<close> while the thread waits in \<^verbatim>\<open>accept\<close>: there is no further round.\<close>

fun accept_loop :: "zAccept list \<Rightarrow> 'w zIpcWorld \<Rightarrow> 'w zIpcWorld res option" where
  "accept_loop [] w = (if im_run (zw_ipc w) then None else Some (Inr w))"
| "accept_loop (r # rs) w =
     (if \<not> im_run (zw_ipc w) \<or> ac_stop r then Some (Inr w)
      else case ac_sock r of
        None \<Rightarrow> Some (Inr w)
      | Some clientSocket \<Rightarrow> (case accept_client (ac_new r) (ac_thr r) clientSocket w of
          Inl e \<Rightarrow> Some (Inl e)
        | Inr w1 \<Rightarrow> accept_loop rs w1))"

definition with_socket :: "nat \<Rightarrow> 'w zIpcWorld \<Rightarrow> 'w zIpcWorld" where
  "with_socket sock w = w\<lparr>zw_ipc := (zw_ipc w)\<lparr>im_socket := sock\<rparr>\<rparr>"

lemma with_socket_sel [simp]:
  "im_run (zw_ipc (with_socket sock w)) = im_run (zw_ipc w)" "im_port (zw_ipc (with_socket sock w)) = im_port (zw_ipc w)"
  "im_socket (zw_ipc (with_socket sock w)) = sock" "zw_client (with_socket sock w) = zw_client w"
  by (simp_all add: with_socket_def)

text \<open>The result of the thread, the socket it leaves open, and the state it leaves. The server's structure gets the
  socket before it is bound.\<close>

definition zipc_server_thread :: "zListen \<Rightarrow> zAccept list \<Rightarrow> 'w zIpcWorld \<Rightarrow> (int \<times> nat option \<times> 'w zIpcWorld) res option" where
  "zipc_server_thread ls rs w = (case ls_socket ls of
     None \<Rightarrow> Some (Inr (-1, None, w))
   | Some sock \<Rightarrow>
       if ls_setsockopt ls sock = -1 then Some (Inr (-1, Some sock, w))
       else let w1 = with_socket sock w in
         if ls_bind ls sock (htons (im_port (zw_ipc w1))) \<noteq> 0 then Some (Inr (-1, Some sock, w1))
         else if ls_listen ls sock \<noteq> 0 then Some (Inr (-1, Some sock, w1))
         else map_option (\<lambda>r. rbind r (\<lambda>w2. Inr (0, None, w2))) (accept_loop rs w1))"

section \<open>Connections\<close>

definition accepted :: "zAccept list \<Rightarrow> bool" where
  "accepted rs \<longleftrightarrow> (\<forall>r \<in> set rs. \<not> ac_stop r \<and> ac_sock r \<noteq> None \<and> ac_new r \<noteq> None)"

definition new_client :: "nat \<Rightarrow> addr option \<Rightarrow> zIPCClient" where
  "new_client sock thr = \<lparr>cl_sock = sock, cl_thr = thr, cl_isEventHooked = False, cl_jobcnt = 0\<rparr>"

definition with_clients :: "zAccept list \<Rightarrow> 'w zIpcWorld \<Rightarrow> 'w zIpcWorld" where
  "with_clients rs w = w\<lparr>zw_client := (zw_client w)(map (\<lambda>r. the (ac_new r)) rs [\<mapsto>] map (\<lambda>r. new_client (the (ac_sock r)) (ac_thr r)) rs)\<rparr>"

lemma accept_all:
  assumes "accepted rs" "im_run (zw_ipc w)"
  shows "accept_loop (rs @ ts) w = accept_loop ts (with_clients rs w)"
  using assms
proof (induction rs arbitrary: w)
  case Nil
  then show ?case by (simp add: with_clients_def)
next
  case (Cons r rs)
  obtain s a where r: "\<not> ac_stop r" "ac_sock r = Some s" "ac_new r = Some a" using Cons.prems(1) by (auto simp: accepted_def)
  have "accepted rs" using Cons.prems(1) by (simp add: accepted_def)
  then have "accept_loop (rs @ ts) (w\<lparr>zw_client := (zw_client w)(a \<mapsto> new_client s (ac_thr r))\<rparr>) =
      accept_loop ts (with_clients rs (w\<lparr>zw_client := (zw_client w)(a \<mapsto> new_client s (ac_thr r))\<rparr>))"
    using Cons.IH Cons.prems(2) by simp
  then show ?case using Cons.prems(2) r by (simp add: accept_client_def with_clients_def new_client_def)
qed

definition listens :: "zListen \<Rightarrow> 'w zIpcWorld \<Rightarrow> nat \<Rightarrow> bool" where
  "listens ls w sock \<longleftrightarrow> ls_socket ls = Some sock \<and> ls_setsockopt ls sock \<noteq> -1 \<and>
     ls_bind ls sock (htons (im_port (zw_ipc w))) = 0 \<and> ls_listen ls sock = 0"

lemma map_upds_in:
  assumes "distinct (map f rs)" "q \<in> set rs"
  shows "(m(map f rs [\<mapsto>] map g rs)) (f q) = Some (g q)"
  using assms
proof (induction rs arbitrary: m)
  case (Cons r rs)
  show ?case
  proof (cases "q = r")
    case True
    then show ?thesis using Cons.prems(1) by (simp add: map_upds_apply_nontin)
  next
    case False
    then have q: "q \<in> set rs" using Cons.prems(2) by simp
    moreover have "f q \<noteq> f r" using q Cons.prems(1) by (metis distinct.simps(2) image_eqI list.simps(9) list.set_map)
    ultimately show ?thesis using Cons.IH Cons.prems(1) by simp
  qed
qed simp

text \<open>C14. A server that can listen keeps its socket, for the deletion to close, and makes exactly one client for each
  connection, with the connection's socket, what creating its thread gave and nothing hooked, as long as memory for it can be had; it returns, with its socket closed, as soon as a round is told to stop or accepts
  nothing, and waits otherwise.\<close>

theorem server_thread_accepts:
  assumes l: "listens ls w sock" and run: "im_run (zw_ipc w)" and a: "accepted rs" "distinct (map (\<lambda>q. the (ac_new q)) rs)"
  shows "zipc_server_thread ls rs w = None \<and>
    (\<forall>(r :: zAccept) ts. ac_stop r \<or> ac_sock r = None \<longrightarrow> (\<exists>m. zipc_server_thread ls (rs @ r # ts) w = Some (Inr (0, None, (with_socket sock w)\<lparr>zw_client := m\<rparr>)) \<and>
      (\<forall>q \<in> set rs. m (the (ac_new q)) = Some (new_client (the (ac_sock q)) (ac_thr q))) \<and>
      (\<forall>c. c \<notin> (\<lambda>q. the (ac_new q)) ` set rs \<longrightarrow> m c = zw_client w c)))"
proof (intro conjI allI impI)
  let ?w = "with_socket sock w"
  have run0: "im_run (zw_ipc ?w)" using run by simp
  then have run': "im_run (zw_ipc (with_clients rs ?w))" by (simp add: with_clients_def)
  show "zipc_server_thread ls rs w = None"
    using l run' accept_all [OF a(1) run0, of "[]"] by (simp add: zipc_server_thread_def listens_def Let_def)
  fix r :: zAccept and ts
  assume r: "ac_stop r \<or> ac_sock r = None"
  let ?m = "(zw_client w)(map (\<lambda>q. the (ac_new q)) rs [\<mapsto>] map (\<lambda>q. new_client (the (ac_sock q)) (ac_thr q)) rs)"
  have "zipc_server_thread ls (rs @ r # ts) w = Some (Inr (0, None, with_clients rs ?w))"
    using l r run' accept_all [OF a(1) run0, of "r # ts"] by (auto simp: zipc_server_thread_def listens_def Let_def)
  moreover have "\<forall>q \<in> set rs. ?m (the (ac_new q)) = Some (new_client (the (ac_sock q)) (ac_thr q))"
    using map_upds_in [OF a(2), where g = "\<lambda>q. new_client (the (ac_sock q)) (ac_thr q)"] by blast
  moreover have "\<forall>c. c \<notin> (\<lambda>q. the (ac_new q)) ` set rs \<longrightarrow> ?m c = zw_client w c"
    by (auto simp: map_upds_apply_nontin)
  ultimately show "\<exists>m. zipc_server_thread ls (rs @ r # ts) w = Some (Inr (0, None, (with_socket sock w)\<lparr>zw_client := m\<rparr>)) \<and>
      (\<forall>q \<in> set rs. m (the (ac_new q)) = Some (new_client (the (ac_sock q)) (ac_thr q))) \<and>
      (\<forall>c. c \<notin> (\<lambda>q. the (ac_new q)) ` set rs \<longrightarrow> m c = zw_client w c)"
    by (intro exI [of _ ?m]) (simp add: with_clients_def)
qed

definition listen_example :: zListen where
  "listen_example = \<lparr>ls_socket = Some 3, ls_setsockopt = \<lambda>_. 0, ls_bind = \<lambda>_ port. if port = htons 0 then 0 else -1, ls_listen = \<lambda>_. 0\<rparr>"

definition conn :: "nat \<Rightarrow> addr \<Rightarrow> zAccept" where
  "conn sock a = \<lparr>ac_stop = False, ac_sock = Some sock, ac_new = Some a, ac_thr = Some (a + 1)\<rparr>"

theorem server_thread_accepts_witness:
  "\<exists>m. zipc_server_thread listen_example [conn 8 310, conn 9 320, \<lparr>ac_stop = False, ac_sock = None, ac_new = None, ac_thr = None\<rparr>] world_example =
      Some (Inr (0, None, (with_socket 3 world_example)\<lparr>zw_client := m\<rparr>)) \<and> m 310 = Some (new_client 8 (Some 311)) \<and> m 320 = Some (new_client 9 (Some 321)) \<and> m 300 = Some client_example"
proof -
  let ?r = "\<lparr>ac_stop = False, ac_sock = None, ac_new = None, ac_thr = None\<rparr>"
  have w: "im_run (zw_ipc world_example)" "im_port (zw_ipc world_example) = 0" "zw_client world_example 300 = Some client_example"
    by (simp_all add: world_example_def ipc_example_def)
  then have l: "listens listen_example world_example 3" by (simp add: listens_def listen_example_def)
  have a: "accepted [conn 8 310, conn 9 320]" "distinct (map (\<lambda>q. the (ac_new q)) [conn 8 310, conn 9 320])"
    by (simp_all add: accepted_def conn_def)
  have c: "ac_stop ?r \<or> ac_sock ?r = None" by simp
  from server_thread_accepts [OF l w(1) a, THEN conjunct2, rule_format, OF c, of "[]"] w(3)
  show ?thesis by (auto simp: conn_def)
qed

text \<open>Each way in which the socket cannot be made ready ends the thread with the socket still open.\<close>

lemma server_thread_leaks:
  assumes "ls_socket ls = Some sock"
    and "ls_setsockopt ls sock = -1 \<or> ls_bind ls sock (htons (im_port (zw_ipc w))) \<noteq> 0 \<or> ls_listen ls sock \<noteq> 0"
  shows "\<exists>w'. zipc_server_thread ls rs w = Some (Inr (-1, Some sock, w')) \<and> zw_client w' = zw_client w"
  using assms by (auto simp: zipc_server_thread_def Let_def)

text \<open>Without memory for a client the thread follows \<^verbatim>\<open>NULL\<close>.\<close>

lemma server_thread_nomem:
  assumes l: "listens ls w sock" and run: "im_run (zw_ipc w)" and a: "accepted rs" and r: "\<not> ac_stop r" "ac_sock r = Some s" "ac_new r = None"
  shows "zipc_server_thread ls (rs @ r # ts) w = Some (Inl NullDeref)"
proof -
  let ?w = "with_socket sock w"
  have "im_run (zw_ipc ?w)" using run by simp
  moreover from this have "im_run (zw_ipc (with_clients rs ?w))" by (simp add: with_clients_def)
  ultimately show ?thesis
    using l r accept_all [OF a, of ?w "r # ts"] by (simp add: zipc_server_thread_def listens_def accept_client_def Let_def)
qed

end
