(* ===== verification/Zipc_Flow.thy ===== *)
theory Zipc_Flow
  imports Zipc_Server
begin

text \<open>
  A message on its whole way through the server on sockets: the client's thread that receives it, the thread that
  runs its job and the thread that sends the answer, each waking up on its own queues. The operations are those of
  the other theories; this one composes them the way the worker loop of \<^verbatim>\<open>zcrtlib/zschedule.c\<close> does.
\<close>

section \<open>The worker threads of a server\<close>

text \<open>A job of the server as the worker thread calls it; what other jobs do is none of the server's.\<close>

definition ipc_job :: "'w ipc_call \<Rightarrow> realloc_fn \<Rightarrow> zAlloc \<Rightarrow> 'w zIpcWorld sch_call" where
  "ipc_job run_call ra al fn args s = (let w = (snd s)\<lparr>zw_sch := fst s\<rparr> in
     rbind (if fn = zipc_msg_proc_job_fn then zipc_msg_proc_job run_call ra al (args ! 0) (args ! 1) (args ! 2) w
            else if fn = zipc_buf_send_job_fn then zipc_buf_send_job (Some (args ! 0)) (Some (args ! 1)) w
            else Inr w) (\<lambda>w1. Inr (zw_sch w1, w1)))"

text \<open>One wake-up of a thread: it works through its queues.\<close>

definition wake_with :: "'w zIpcWorld sch_call \<Rightarrow> addr \<Rightarrow> 'w zIpcWorld \<Rightarrow> 'w zIpcWorld res" where
  "wake_with call t w = rbind (run (run_jobs call t (zw_sch w, w))) (\<lambda>(sch, w1). Inr (w1\<lparr>zw_sch := sch\<rparr>))"

definition wake :: "'w ipc_call \<Rightarrow> realloc_fn \<Rightarrow> zAlloc \<Rightarrow> addr \<Rightarrow> 'w zIpcWorld \<Rightarrow> 'w zIpcWorld res" where
  "wake run_call ra al = wake_with (ipc_job run_call ra al)"

definition no_jobs :: "zSchWorld \<Rightarrow> addr list list \<Rightarrow> bool" where
  "no_jobs w qs \<longleftrightarrow> (\<forall>k < EZCRTSchPri_num. queues w qs ! k = [])"

lemma run_jobs_idle:
  assumes wf: "sch_wf t w fs qs" and e: "no_jobs w qs"
  shows "run_jobs call t (w, x) = Some (Inr (w, x))"
proof -
  have l: "sch_lists t w fs qs" using wf by (simp add: sch_wf_def)
  have "length qs = EZCRTSchPri_num" using sch_listsE [OF l] by metis
  then have "\<forall>i < EZCRTSchPri_num. qs ! i = []" using e by (auto simp: no_jobs_def queues_def contents_of_def)
  then show ?thesis by (subst run_jobs.simps) (simp add: take_job_none [OF l])
qed

text \<open>A thread with one job takes it and, when the job leaves the thread alone, is done.\<close>

lemma run_jobs_one:
  assumes o: "owns t S T w" and wf: "sch_wf t w fs qs" and k: "k < EZCRTSchPri_num"
    and q: "queues w qs ! k = [n]" "\<forall>i < EZCRTSchPri_num. i \<noteq> k \<longrightarrow> queues w qs ! i = []"
  obtains w1 fs1 qs1 fn where "take_job t w = Inr (Some (Some fn, jb_args n), w1)" "jb_fn n = Some fn" "sch_wf t w1 fs1 qs1" "no_jobs w1 qs1"
    "fs1 \<noteq> []" "keeps t S T w w1"
    "\<And>(call :: 'w sch_call) x w2 x2. call fn (jb_args n) (w1, x) = Inr (w2, x2) \<Longrightarrow> sch_wf t w2 fs1 qs1 \<Longrightarrow> no_jobs w2 qs1 \<Longrightarrow>
      run_jobs call t (w, x) = Some (Inr (w2, x2))"
proof -
  have len: "length (queues w qs) = EZCRTSchPri_num" using wf by (simp add: sch_wf_def sch_jobs_def)
  have first: "\<forall>i < k. queues w qs ! i = []" using q(2) k by auto
  obtain w1 fs1 qs1 where t: "take_job t w = Inr (Some (jb_fn n, jb_args n), w1)" "sch_wf t w1 fs1 qs1" "jb_fn n \<noteq> None"
    "queues w1 qs1 = (queues w qs)[k := []]" "fs1 \<noteq> []" using take_job_wf [OF wf k first q(1)] by metis
  obtain fn where fn: "jb_fn n = Some fn" using t(3) by auto
  have "(queues w qs)[k := []] ! i = []" if "i < EZCRTSchPri_num" for i
    using q(2) len k that by (cases "i = k") simp_all
  then have e: "no_jobs w1 qs1" using t(4) by (simp add: no_jobs_def)
  show ?thesis
  proof (rule that)
    show "take_job t w = Inr (Some (Some fn, jb_args n), w1)" using t(1) fn by simp
    show "keeps t S T w w1" by (rule take_job_keeps [OF o t(1)])
    fix call :: "'w sch_call" and x w2 x2
    assume c: "call fn (jb_args n) (w1, x) = Inr (w2, x2)" "sch_wf t w2 fs1 qs1" "no_jobs w2 qs1"
    show "run_jobs call t (w, x) = Some (Inr (w2, x2))"
      using c(1) t(1) fn run_jobs_idle [OF c(2,3)] by (subst run_jobs.simps) simp
  qed (use t(2,5) fn e in simp_all)
qed

text \<open>A thread that owns what its jobs need, has none, and a schedule of it that can take one.\<close>

definition idle_thread :: "zSchWorld \<Rightarrow> addr \<Rightarrow> addr set \<Rightarrow> addr set \<Rightarrow> addr list \<Rightarrow> addr list list \<Rightarrow> addr \<Rightarrow> addr option \<Rightarrow> bool" where
  "idle_thread w t S T fs qs s new \<longleftrightarrow> owns t S T w \<and> sch_wf t w fs qs \<and> no_jobs w qs \<and> can_new t w new \<and> opt_in S new \<and> s \<in> T \<and>
     (\<exists>c. sx_sch w s = Some c \<and> unat (sc_pri c) < EZCRTSchPri_num \<and> 0 < unat (sc_maxsize c))"

lemma idle_threadE:
  assumes "idle_thread w t S T fs qs s new"
  obtains c where "owns t S T w" "sch_wf t w fs qs" "no_jobs w qs" "can_new t w new" "opt_in S new" "s \<in> T" "sx_sch w s = Some c"
    "sc_thr c = Some t" "unat (sc_pri c) < EZCRTSchPri_num" "held s (queues w qs ! unat (sc_pri c)) < unat (sc_maxsize c)"
proof -
  obtain c where c: "owns t S T w" "sch_wf t w fs qs" "no_jobs w qs" "can_new t w new" "opt_in S new" "s \<in> T" "sx_sch w s = Some c"
    "unat (sc_pri c) < EZCRTSchPri_num" "0 < unat (sc_maxsize c)" using assms by (auto simp: idle_thread_def)
  have "sc_thr c = Some t" using owns_sch [OF c(1,6,7)] by simp
  moreover have "held s (queues w qs ! unat (sc_pri c)) < unat (sc_maxsize c)" using c(3,8,9) by (simp add: no_jobs_def)
  ultimately show ?thesis using that c by blast
qed

lemma idle_elsewhere:
  assumes e: "elsewhere t S T w w'" and o: "owns t S T w" "owns t S T w'" and a: "apart t S T t1 S1 T1"
    and i: "idle_thread w t1 S1 T1 fs qs s new"
  shows "idle_thread w' t1 S1 T1 fs qs s new"
proof -
  obtain c where c: "owns t1 S1 T1 w" "sch_wf t1 w fs qs" "no_jobs w qs" "can_new t1 w new" "opt_in S1 new" "s \<in> T1" "sx_sch w s = Some c"
    "unat (sc_pri c) < EZCRTSchPri_num" "0 < unat (sc_maxsize c)" using i by (auto simp: idle_thread_def)
  note w = elsewhere_wf [OF e a c(1,2) o]
  show ?thesis
    unfolding idle_thread_def
    using elsewhere_owns [OF e a c(1)] w c elsewhere_new [OF e a c(5,4)] elsewhere_sch [OF e a c(6)] by (simp add: no_jobs_def)
qed

text \<open>A single job sent to an idle thread.\<close>

lemma only_job:
  assumes "sch_wf t w fs qs" "no_jobs w qs" "k < EZCRTSchPri_num" "queues w' qs' = (queues w qs)[k := queues w qs ! k @ [n]]"
  shows "queues w' qs' ! k = [n]" "\<forall>i < EZCRTSchPri_num. i \<noteq> k \<longrightarrow> queues w' qs' ! i = []"
proof -
  have "length (queues w qs) = EZCRTSchPri_num" using assms(1) by (simp add: sch_wf_def sch_jobs_def)
  then show "queues w' qs' ! k = [n]" "\<forall>i < EZCRTSchPri_num. i \<noteq> k \<longrightarrow> queues w' qs' ! i = []"
    using assms(2-4) by (simp_all add: no_jobs_def)
qed


section \<open>From the bytes of a request to those of its reply\<close>

lemma round_queued:
  assumes run: "im_run (zw_ipc w)" "\<not> rn_stop rn" and h: "zipc_client_recv_hdr (rn_hdr rn) = Some hdr"
    and x: "rn_payload rn = Some x" "length x = unat (mh_payloadSize hdr)" "x \<noteq> []" and ra: "realloc_total ra"
    and ia: "zw_buf w ia = Some ib" "buf_wf ib" "ia \<notin> set as" and p: "pool_wf (zw_ipc w) (zw_buf w) as"
    and al: "can_buf (al_buf (rn_alloc rn)) (al_bytes (rn_alloc rn)) (zw_buf w) as" and cl: "zw_client w client = Some cl"
    and th: "idle_thread (zw_sch w) t S T fs qs s (al_job (rn_alloc rn))" "im_sch (zw_ipc w) = Some s"
  obtains na b w1 fs1 qs1 k as1 where "client_round ra client rn (Some ia) w = Inr (True, Some na, w1)"
    "zw_buf w1 ia = Some b" "buf_wf b" "unread b = x" "unat (zb_len b) = length x"
    "pool_wf (zw_ipc w1) (zw_buf w1) as1" "as = na # as1 \<or> as = [] \<and> as1 = [] \<and> al_buf (rn_alloc rn) = Some na" "na \<notin> set as1" "na \<noteq> ia"
    "\<exists>nb. zw_buf w1 na = Some nb \<and> buf_wf nb"
    "zw_client w1 client = Some cl" "zw_sent w1 = zw_sent w" "zw_comp w1 = zw_comp w" "zw_ext w1 = zw_ext w"
    "\<And>q. (zw_ipc w1)\<lparr>im_freebuf := q\<rparr> = (zw_ipc w)\<lparr>im_freebuf := q\<rparr>"
    "\<And>y. y \<noteq> ia \<Longrightarrow> y \<noteq> na \<Longrightarrow> zw_buf w1 y = zw_buf w y"
    "sch_wf t (zw_sch w1) fs1 qs1" "k < EZCRTSchPri_num"
    "queues (zw_sch w1) qs1 ! k = [the_job s zipc_msg_proc_job_fn 3 [client, ia, unat (mh_appType hdr)]]"
    "\<forall>i < EZCRTSchPri_num. i \<noteq> k \<longrightarrow> queues (zw_sch w1) qs1 ! i = []" "keeps t S T (zw_sch w) (zw_sch w1)"
proof -
  let ?n = "mh_payloadSize hdr"
  have "?n < ZIPC_BUF_LEN" using h by (auto simp: zipc_client_recv_hdr_def Let_def not_le split: option.splits if_splits)
  then have "unat ?n + 1 < 2 ^ 31" by (simp add: word_less_nat_alt ZIPC_BUF_LEN_def)
  then obtain ib' where rl: "zcrt_buf_realloc ra (Some ib) ?n = Inr (?n, Some ib')" "buf_wf ib'" "?n \<le> zb_maxlen ib'"
    by (rule realloc_grow [OF ia(2) ra])
  have le: "unat ?n \<le> unat (zb_maxlen ib')" using rl(3) by (simp add: word_le_nat_alt)
  have "0 < unat ?n" using x(2,3) by (metis length_greater_0_conv)
  then obtain blk where blk: "zb_buf ib' = Some blk" "unat ?n \<le> length blk"
    using rl(2) le by (cases "zb_buf ib'") (auto simp: buf_wf_def)
  let ?blk = "x @ drop (length x) blk"
  let ?b = "ib'\<lparr>zb_buf := Some ?blk, zb_len := ?n, zb_offset := 0\<rparr>"
  have rp: "zipc_client_recv_payload (Some x) ?n (zb_buf ib') = Inr (True, Some ?blk)"
    using recv_payload_gen [OF blk(1), of ?n x] blk(2) x(2) by simp
  have "unat (zb_maxlen ib') \<le> length blk" using rl(2) blk(1) by (simp add: buf_wf_def)
  then have b: "buf_wf ?b" "unread ?b = x" "unat (zb_len ?b) = length x"
    using rl(3) blk x(2) by (simp_all add: buf_wf_def unread_def contents_def)
  let ?w1 = "put_buf ia (Some ?b) w"
  let ?args = "[client, ia, unat (mh_appType hdr)]"
  obtain c where c: "owns t S T (zw_sch w)" "sch_wf t (zw_sch w) fs qs" "no_jobs (zw_sch w) qs" "can_new t (zw_sch w) (al_job (rn_alloc rn))"
    "opt_in S (al_job (rn_alloc rn))" "s \<in> T" "sx_sch (zw_sch w) s = Some c" "sc_thr c = Some t" "unat (sc_pri c) < EZCRTSchPri_num"
    "held s (queues (zw_sch w) qs ! unat (sc_pri c)) < unat (sc_maxsize c)" by (rule idle_threadE [OF th(1)])
  let ?k = "unat (sc_pri c)"
  have ar: "(3 :: u32) \<noteq> 0" "unat (3 :: u32) \<le> ZCRT_CB_MAX_ARGS" "length ?args = unat (3 :: u32)" by (simp_all add: ZCRT_CB_MAX_ARGS_def)
  obtain j sch where j: "zcrt_schedule_sendjob_argn (al_job (rn_alloc rn)) (Some s) (Some zipc_msg_proc_job_fn) 3 ?args (zw_sch w) =
      Inr (EZCRTErr_success, sch)" "sch_wf t sch (tl fs) (qs[?k := qs ! ?k @ [j]])"
    "queues sch (qs[?k := qs ! ?k @ [j]]) = (queues (zw_sch w) qs)[?k := queues (zw_sch w) qs ! ?k @ [the_job s zipc_msg_proc_job_fn 3 ?args]]"
    using sendjob_argn_ok [OF c(2,4,7,8) refl c(9,10) ar] by metis
  note one = only_job [OF c(2,3,9) j(3)]
  have kp: "keeps t S T (zw_sch w) sch" by (rule sendjob_argn_keeps [OF c(1,6,5) j(1)])
  let ?w3 = "?w1\<lparr>zw_client := (zw_client w)(client \<mapsto> cl), zw_sch := sch\<rparr>"
  have p3: "pool_wf (zw_ipc ?w3) (zw_buf ?w3) as" using p ia(3) by (auto simp: pool_wf_def put_buf_def chain_upd)
  have n3: "can_buf (al_buf (rn_alloc rn)) (al_bytes (rn_alloc rn)) (zw_buf ?w3) as"
    using al ia(1) by (force simp: can_buf_def put_buf_def)
  obtain na as1 b2 ipc hp where m: "pool_malloc (rn_alloc rn) ?w3 = Inr (Some na, ?w3\<lparr>zw_ipc := ipc, zw_buf := hp\<rparr>)" "pool_wf ipc hp as1" "na \<notin> set as1"
    "hp na = Some b2" "buf_wf b2" "zb_len b2 = 0" "\<And>y. y \<noteq> na \<Longrightarrow> hp y = zw_buf ?w3 y" "set as1 \<subseteq> set as" "na \<in> set as \<or> zw_buf ?w3 na = None"
    "\<And>q. ipc\<lparr>im_freebuf := q\<rparr> = (zw_ipc ?w3)\<lparr>im_freebuf := q\<rparr>" "as = na # as1 \<or> as = [] \<and> as1 = [] \<and> al_buf (rn_alloc rn) = Some na"
    by (rule pool_malloc_spec [OF p3 n3]) (rule that)
  let ?w5 = "?w3\<lparr>zw_ipc := ipc, zw_buf := hp\<rparr>"
  have nia: "na \<noteq> ia" using m(9) ia(3) by (auto simp: put_buf_def)
  have clj: "cl\<lparr>cl_jobcnt := cl_jobcnt cl\<rparr> = cl" by simp
  have w1: "zw_client ?w1 client = Some cl" "zw_client ?w1 = zw_client w" "im_sch (zw_ipc ?w1) = Some s" "zw_sch ?w1 = zw_sch w"
    using cl th(2) by (simp_all add: put_buf_def)
  have "client_round ra client rn (Some ia) w = rbind (pool_malloc (rn_alloc rn) ?w3) (\<lambda>(nbuf, w5). Inr (nbuf \<noteq> None, nbuf, w5))"
    unfolding client_round_def using run h ia(1) rl(1) x(1) rp w1 j(1) by (simp add: zcrt_atom_inc_def clj)
  then have "client_round ra client rn (Some ia) w = Inr (True, Some na, ?w5)" using m(1) by simp
  moreover have "zw_buf ?w5 ia = Some ?b" using m(7) [of ia] nia by (simp add: put_buf_def)
  ultimately show ?thesis
    using that [of na ?w5 ?b as1 "tl fs" "qs[?k := qs ! ?k @ [j]]" ?k] b m(2,3,4,5,10,11) nia j(2) one kp c(9) m(7) by (simp add: put_buf_def)
qed


lemma recv_hdr_msg:
  assumes "n < ZIPC_BUF_LEN"
  shows "zipc_client_recv_hdr (Some (hdr_bytes (msg_hdr ty n))) = Some ((msg_hdr ty n)\<lparr>mh_appType := zeipc_code ty, mh_payloadSize := n\<rparr>)"
proof -
  have l: "(of_nat (length (hdr_bytes (msg_hdr ty n))) :: u32) = ZIPC_HEAD_LEN" by (simp add: ZIPC_HEAD_LEN_def)
  have "htons (mh_appType (msg_hdr ty n)) = zeipc_code ty" "htonl (mh_payloadSize (msg_hdr ty n)) = n"
    by (simp_all add: msg_hdr_def)
  then show ?thesis
    using l assms hdr_of_hdr_bytes [of "msg_hdr ty n" "[]"] check_msg_hdr [of ty n]
    by (simp add: zipc_client_recv_hdr_def not_le)
qed

lemma wake_done:
  "run_jobs call t (zw_sch w, w) = Some (Inr (zw_sch w1, w1)) \<Longrightarrow> wake_with call t w = Inr w1"
  by (simp add: wake_with_def)

text \<open>
  A thread that holds the single job \<^verbatim>\<open>n\<close>, next to an idle one.
\<close>

definition one_job :: "zSchWorld \<Rightarrow> addr \<Rightarrow> addr set \<Rightarrow> addr set \<Rightarrow> zScheduleJob \<Rightarrow> bool" where
  "one_job w t S T n \<longleftrightarrow> owns t S T w \<and> (\<exists>fs qs k. sch_wf t w fs qs \<and> k < EZCRTSchPri_num \<and> queues w qs ! k = [n] \<and>
     (\<forall>i < EZCRTSchPri_num. i \<noteq> k \<longrightarrow> queues w qs ! i = []))"

text \<open>A thread that has done its jobs: its queues are empty, and the nodes of the jobs wait to be used again.\<close>

definition at_rest :: "zSchWorld \<Rightarrow> addr \<Rightarrow> addr set \<Rightarrow> addr set \<Rightarrow> bool" where
  "at_rest w t S T \<longleftrightarrow> owns t S T w \<and> (\<exists>fs qs. sch_wf t w fs qs \<and> no_jobs w qs \<and> fs \<noteq> [])"

lemma at_rest_elsewhere:
  assumes "elsewhere t S T w w'" "owns t S T w" "owns t S T w'" "apart t S T t1 S1 T1" "at_rest w t1 S1 T1"
  shows "at_rest w' t1 S1 T1"
proof -
  obtain fs qs where a: "owns t1 S1 T1 w" "sch_wf t1 w fs qs" "no_jobs w qs" "fs \<noteq> []" using assms(5) by (auto simp: at_rest_def)
  note e = elsewhere_wf [OF assms(1,4) a(1,2) assms(2,3)]
  have "no_jobs w' qs" using a(3) e(2) by (simp add: no_jobs_def)
  then show ?thesis using e(1) elsewhere_owns [OF assms(1,4) a(1)] a(4) unfolding at_rest_def by blast
qed

text \<open>The schedule can hold at least one job; operations of the threads leave that alone.\<close>

definition room :: "zSchWorld \<Rightarrow> addr \<Rightarrow> bool" where
  "room w s \<longleftrightarrow> (\<exists>c. sx_sch w s = Some c \<and> unat (sc_pri c) < EZCRTSchPri_num \<and> 0 < unat (sc_maxsize c))"

lemma keeps_room:
  assumes "keeps t S T w w'"
  shows "room w' = room w"
proof
  fix s
  have v: "map_option sch_view (sx_sch w' s) = map_option sch_view (sx_sch w s)" using assms by (simp add: keeps_def)
  have "room w s \<longleftrightarrow> (\<exists>v. map_option sch_view (sx_sch w s) = Some v \<and> unat (fst v) < EZCRTSchPri_num \<and> 0 < unat (snd v))" for w
    by (auto simp: room_def sch_view_def)
  then show "room w' s = room w s" by (simp only: v)
qed

lemma free_new:
  assumes "sch_wf t w fs qs" "fs \<noteq> []"
  shows "can_new t w None"
proof -
  obtain th where th: "sx_thr w t = Some th" "chain jb_next (sx_job w) (th_freejobs th) fs None"
    using assms(1) by (auto simp: sch_wf_def sch_lists_def chains_def)
  then have "th_freejobs th \<noteq> None" using assms(2) by (cases fs) auto
  then show ?thesis using th(1) by (simp add: can_new_def can_alloc_def)
qed

lemma rest_idle:
  assumes "at_rest w t S T" "s \<in> T" "room w s"
  obtains fs qs where "idle_thread w t S T fs qs s None"
proof -
  obtain fs qs where a: "owns t S T w" "sch_wf t w fs qs" "no_jobs w qs" "fs \<noteq> []" using assms(1) by (auto simp: at_rest_def)
  then show ?thesis using that [of fs qs] free_new [OF a(2,4)] assms(2,3) by (auto simp: idle_thread_def room_def)
qed

lemma idle_room: "idle_thread w t S T fs qs s new \<Longrightarrow> s \<in> T \<and> room w s"
  by (auto simp: idle_thread_def room_def)

text \<open>A thread that has one job, wakes up and calls it; the job works on another thread, or on none.\<close>

lemma wake_one:
  assumes j: "one_job (zw_sch w) t S T n"
  obtains sch fn where "jb_fn n = Some fn" "at_rest sch t S T" "keeps t S T (zw_sch w) sch"
    "\<And>w1. call fn (jb_args n) (sch, w) = Inr (zw_sch w1, w1) \<Longrightarrow>
      zw_sch w1 = sch \<or> (\<exists>t2 S2 T2. elsewhere t2 S2 T2 sch (zw_sch w1) \<and> owns t2 S2 T2 sch \<and> owns t2 S2 T2 (zw_sch w1) \<and> apart t2 S2 T2 t S T) \<Longrightarrow>
      wake_with call t w = Inr w1 \<and> at_rest (zw_sch w1) t S T"
proof -
  obtain fs qs k where q: "owns t S T (zw_sch w)" "sch_wf t (zw_sch w) fs qs" "k < EZCRTSchPri_num" "queues (zw_sch w) qs ! k = [n]"
     "\<forall>i < EZCRTSchPri_num. i \<noteq> k \<longrightarrow> queues (zw_sch w) qs ! i = []" using j by (auto simp: one_job_def)
  obtain sch fs1 qs1 fn where d: "take_job t (zw_sch w) = Inr (Some (Some fn, jb_args n), sch)" "jb_fn n = Some fn" "sch_wf t sch fs1 qs1" "no_jobs sch qs1"
    "fs1 \<noteq> []" "keeps t S T (zw_sch w) sch"
    "\<And>(call :: 'a zIpcWorld sch_call) x w2 x2. call fn (jb_args n) (sch, x) = Inr (w2, x2) \<Longrightarrow> sch_wf t w2 fs1 qs1 \<Longrightarrow> no_jobs w2 qs1 \<Longrightarrow>
      run_jobs call t (zw_sch w, x :: 'a zIpcWorld) = Some (Inr (w2, x2))"
    by (rule run_jobs_one [OF q]) (rule that)
  have o: "owns t S T sch" using d(6) by (simp add: keeps_def)
  show ?thesis
  proof (rule that [OF d(2) _ d(6)])
    show "at_rest sch t S T" using o d(3,4,5) by (auto simp: at_rest_def)
    fix w1
    assume c: "call fn (jb_args n) (sch, w) = Inr (zw_sch w1, w1)"
      "zw_sch w1 = sch \<or> (\<exists>t2 S2 T2. elsewhere t2 S2 T2 sch (zw_sch w1) \<and> owns t2 S2 T2 sch \<and> owns t2 S2 T2 (zw_sch w1) \<and> apart t2 S2 T2 t S T)"
    have f: "sch_wf t (zw_sch w1) fs1 qs1 \<and> queues (zw_sch w1) qs1 = queues sch qs1 \<and> owns t S T (zw_sch w1)"
      using c(2)
    proof
      assume "\<exists>t2 S2 T2. elsewhere t2 S2 T2 sch (zw_sch w1) \<and> owns t2 S2 T2 sch \<and> owns t2 S2 T2 (zw_sch w1) \<and> apart t2 S2 T2 t S T"
      then obtain t2 S2 T2 where e: "elsewhere t2 S2 T2 sch (zw_sch w1)" "owns t2 S2 T2 sch" "owns t2 S2 T2 (zw_sch w1)" "apart t2 S2 T2 t S T" by blast
      show ?thesis using elsewhere_wf [OF e(1,4) o d(3) e(2,3)] elsewhere_owns [OF e(1,4) o] by simp
    qed (use d(3) o in simp)
    then have "no_jobs (zw_sch w1) qs1" using d(4) by (simp add: no_jobs_def)
    then show "wake_with call t w = Inr w1 \<and> at_rest (zw_sch w1) t S T"
      using wake_done [OF d(7) [where call = call, OF c(1)]] f d(5) by (auto simp: at_rest_def)
  qed
qed

lemma wake_sends:
  assumes j: "one_job (zw_sch w) t S T (the_job s zipc_buf_send_job_fn 2 [client, oa])"
    and cl: "zw_client w client = Some cl" and b: "zw_buf w oa = Some b" "buf_wf b" "oa \<notin> set as" "pool_wf (zw_ipc w) (zw_buf w) as"
  obtains w1 where "wake run_call ra al t w = Inr w1" "at_rest (zw_sch w1) t S T" "keeps t S T (zw_sch w) (zw_sch w1)"
    "zw_sent w1 = zw_sent w @ [(cl_sock cl, contents b)]" "zw_comp w1 = zw_comp w" "zw_ext w1 = zw_ext w"
    "zw_client w1 = zw_client w" "pool_wf (zw_ipc w1) (zw_buf w1) (oa # as)" "\<And>q. (zw_ipc w1)\<lparr>im_freebuf := q\<rparr> = (zw_ipc w)\<lparr>im_freebuf := q\<rparr>"
    "\<And>a. a \<noteq> oa \<Longrightarrow> zw_buf w1 a = zw_buf w a"
proof (rule wake_one [OF j, of "ipc_job run_call ra al", folded wake_def])
  fix sch fn
  let ?n = "the_job s zipc_buf_send_job_fn 2 [client, oa]" and ?v = "w\<lparr>zw_sch := sch\<rparr>"
  assume d: "jb_fn ?n = Some fn" "keeps t S T (zw_sch w) sch"
    "\<And>w1. ipc_job run_call ra al fn (jb_args ?n) (sch, w) = Inr (zw_sch w1, w1) \<Longrightarrow>
      zw_sch w1 = sch \<or> (\<exists>t2 S2 T2. elsewhere t2 S2 T2 sch (zw_sch w1) \<and> owns t2 S2 T2 sch \<and> owns t2 S2 T2 (zw_sch w1) \<and> apart t2 S2 T2 t S T) \<Longrightarrow>
      wake run_call ra al t w = Inr w1 \<and> at_rest (zw_sch w1) t S T"
  have v: "zw_client ?v client = Some cl" "zw_buf ?v oa = Some b" "pool_wf (zw_ipc ?v) (zw_buf ?v) as" using cl b by simp_all
  obtain ipc hp where s: "zipc_buf_send_job (Some client) (Some oa) ?v =
      Inr (?v\<lparr>zw_sent := zw_sent ?v @ [(cl_sock cl, contents b)], zw_ipc := ipc, zw_buf := hp\<rparr>)" "pool_wf ipc hp (oa # as)"
    "\<forall>x. x \<noteq> oa \<longrightarrow> hp x = zw_buf ?v x" "ipc = (zw_ipc ?v)\<lparr>im_freebuf := Some oa\<rparr>"
    using send_job_spec [OF v(1,2) b(2,3) v(3)] by blast
  let ?w1 = "?v\<lparr>zw_sent := zw_sent ?v @ [(cl_sock cl, contents b)], zw_ipc := ipc, zw_buf := hp\<rparr>"
  have "ipc_job run_call ra al fn (jb_args ?n) (sch, w) = Inr (zw_sch ?w1, ?w1)"
    using s(1) d(1) by (auto simp: ipc_job_def the_job_def zipc_buf_send_job_fn_def zipc_msg_proc_job_fn_def)
  from d(3) [OF this] show thesis using that [of ?w1] d(2) s(2-4) by simp
qed

lemma wake_answers:
  assumes ra: "realloc_total ra" and j: "one_job (zw_sch w) t1 S1 T1 (the_job s1 zipc_msg_proc_job_fn 3 [client, ia, 0])"
    and t2: "idle_thread (zw_sch w) t2 S2 T2 fs2 qs2 s2 (al_job al)" "im_respondSch (zw_ipc w) = Some s2" and ap: "apart t1 S1 T1 t2 S2 T2"
    and cl: "zw_client w client = Some cl" and p: "pool_wf (zw_ipc w) (zw_buf w) as"
    and al: "can_buf (al_buf al) (al_bytes al) (zw_buf w) as"
    and ia: "ia \<notin> set as" "zw_buf w ia = Some ib" "buf_wf ib" "unat (zb_len ib) < 2 ^ 31"
    and i: "unread ib = enc_request hs cname aname @ args" "length hs < 2 ^ 32" "ch_req (fold apply_field hs ch_zero)"
    and nm: "is_name cname" "cname \<noteq> []" "is_name aname" "aname \<noteq> []"
    and sv: "served (zw_comp w) (zw_ipc w) cname aname c f"
    and call: "answers run_call f c args (reply_head hs) data (zw_comp w, zw_ext w) (comp1, ext1)"
  obtains w1 oa b as1 where "wake run_call ra al t1 w = Inr w1" "at_rest (zw_sch w1) t1 S1 T1"
    "one_job (zw_sch w1) t2 S2 T2 (the_job s2 zipc_buf_send_job_fn 2 [client, oa])" "zw_comp w1 = comp1" "zw_ext w1 = ext1"
    "zw_client w1 client = Some cl" "zw_sent w1 = zw_sent w" "zw_buf w1 oa = Some b" "buf_wf b"
    "contents b = hdr_bytes (msg_hdr ZEIPC_TYPE_DEFAULT (of_nat (length (enc_reply_ch (ch_sn (fold apply_field hs ch_zero)) True @ data)))) @
      enc_reply_ch (ch_sn (fold apply_field hs ch_zero)) True @ data"
    "pool_wf (zw_ipc w1) (zw_buf w1) (ia # as1)" "oa \<notin> set (ia # as1)" "as1 = tl as" "room (zw_sch w1) = room (zw_sch w)"
    "\<And>q. (zw_ipc w1)\<lparr>im_freebuf := q\<rparr> = (zw_ipc w)\<lparr>im_freebuf := q\<rparr>"
    "\<And>a. a \<noteq> ia \<Longrightarrow> a \<notin> set as \<Longrightarrow> zw_buf w a \<noteq> None \<Longrightarrow> a \<noteq> oa \<and> zw_buf w1 a = zw_buf w a"
proof (rule wake_one [OF j, of "ipc_job run_call ra al", folded wake_def])
  fix sch fn
  let ?n = "the_job s1 zipc_msg_proc_job_fn 3 [client, ia, 0]" and ?w = "w\<lparr>zw_sch := sch\<rparr>"
  assume d: "jb_fn ?n = Some fn" "keeps t1 S1 T1 (zw_sch w) sch"
    "\<And>w1. ipc_job run_call ra al fn (jb_args ?n) (sch, w) = Inr (zw_sch w1, w1) \<Longrightarrow>
      zw_sch w1 = sch \<or> (\<exists>t2 S2 T2. elsewhere t2 S2 T2 sch (zw_sch w1) \<and> owns t2 S2 T2 sch \<and> owns t2 S2 T2 (zw_sch w1) \<and> apart t2 S2 T2 t1 S1 T1) \<Longrightarrow>
      wake run_call ra al t1 w = Inr w1 \<and> at_rest (zw_sch w1) t1 S1 T1"
  have o1: "owns t1 S1 T1 (zw_sch w)" using j by (simp add: one_job_def)
  have e: "elsewhere t1 S1 T1 (zw_sch w) sch" "owns t1 S1 T1 sch" using d(2) by (simp_all add: keeps_def)
  obtain c2 where c2: "owns t2 S2 T2 sch" "sch_wf t2 sch fs2 qs2" "no_jobs sch qs2" "can_new t2 sch (al_job al)" "opt_in S2 (al_job al)" "s2 \<in> T2"
    "sx_sch sch s2 = Some c2" "sc_thr c2 = Some t2" "unat (sc_pri c2) < EZCRTSchPri_num" "held s2 (queues sch qs2 ! unat (sc_pri c2)) < unat (sc_maxsize c2)"
    by (rule idle_threadE [OF idle_elsewhere [OF e(1) o1 e(2) ap t2(1)]])
  let ?k = "unat (sc_pri c2)" and ?body = "enc_reply_ch (ch_sn (fold apply_field hs ch_zero)) True @ data"
  have cr: "can_reply al ?w as t2 fs2 qs2 s2 ?k" using p al c2 t2(2) by (simp add: can_reply_def)
  have w: "zw_client ?w client = Some cl" "zw_buf ?w ia = Some ib" "served (zw_comp ?w) (zw_ipc ?w) cname aname c f"
    "answers run_call f c args (reply_head hs) data (zw_comp ?w, zw_ext ?w) (comp1, ext1)" using cl ia(2) sv call by simp_all
  obtain w1 oa jj as1 b where a: "zipc_msg_proc_job run_call ra al client ia 0 ?w = Inr w1"
    "zcrt_schedule_sendjob (al_job al) (Some s2) (Some zipc_buf_send_job_fn) client oa (zw_sch ?w) = Inr (EZCRTErr_success, zw_sch w1)"
    "queues (zw_sch w1) (qs2[?k := qs2 ! ?k @ [jj]]) =
      (queues (zw_sch ?w) qs2)[?k := queues (zw_sch ?w) qs2 ! ?k @ [the_job s2 zipc_buf_send_job_fn 2 [client, oa]]]"
    "sch_wf t2 (zw_sch w1) (tl fs2) (qs2[?k := qs2 ! ?k @ [jj]])" "zw_comp w1 = comp1" "zw_ext w1 = ext1"
    "zw_client w1 client = Some cl" "zw_sent w1 = zw_sent ?w" "zw_buf w1 oa = Some b" "buf_wf b"
    "contents b = hdr_bytes (msg_hdr ZEIPC_TYPE_DEFAULT (of_nat (length ?body))) @ ?body"
    "pool_wf (zw_ipc w1) (zw_buf w1) (ia # as1)" "oa \<notin> set (ia # as1)" "\<And>q. (zw_ipc w1)\<lparr>im_freebuf := q\<rparr> = (zw_ipc ?w)\<lparr>im_freebuf := q\<rparr>" "as1 = tl as"
    "\<And>x. x \<noteq> ia \<Longrightarrow> x \<notin> set as \<Longrightarrow> zw_buf ?w x \<noteq> None \<Longrightarrow> x \<noteq> oa \<and> zw_buf w1 x = zw_buf ?w x"
    by (rule request_answer [OF ra cr w(1) ia(1) w(2) ia(3,4) i nm w(3,4)]) (rule that)
  have k2: "keeps t2 S2 T2 sch (zw_sch w1)" using sendjob_keeps [OF c2(1,6,5)] a(2) by simp
  have "ipc_job run_call ra al fn (jb_args ?n) (sch, w) = Inr (zw_sch w1, w1)" using a(1) d(1) by (auto simp: ipc_job_def the_job_def)
  from d(3) [OF this] k2 c2(1) apart_sym [OF ap]
  have wk: "wake run_call ra al t1 w = Inr w1" "at_rest (zw_sch w1) t1 S1 T1" by (auto simp: keeps_def)
  have "queues (zw_sch w1) (qs2[?k := qs2 ! ?k @ [jj]]) = (queues sch qs2)[?k := queues sch qs2 ! ?k @ [the_job s2 zipc_buf_send_job_fn 2 [client, oa]]]"
    using a(3) by simp
  then have "one_job (zw_sch w1) t2 S2 T2 (the_job s2 zipc_buf_send_job_fn 2 [client, oa])"
    using only_job [OF c2(2,3,9)] keeps_owns [OF k2] a(4) c2(9) unfolding one_job_def by blast
  moreover have "room (zw_sch w1) = room (zw_sch w)" using keeps_room [OF d(2)] keeps_room [OF k2] by simp
  ultimately show thesis using a(14) by (intro that [OF wk _ a(5-7) _ a(9-13,15)]) (simp_all add: a(8,16))
qed

text \<open>The threads of the messages and of the replies are at rest, and their schedules can hold jobs.\<close>

definition threads_ready :: "'w zIpcWorld \<Rightarrow> addr \<Rightarrow> addr set \<Rightarrow> addr set \<Rightarrow> addr \<Rightarrow> addr set \<Rightarrow> addr set \<Rightarrow> bool" where
  "threads_ready w t1 S1 T1 t2 S2 T2 \<longleftrightarrow> at_rest (zw_sch w) t1 S1 T1 \<and> at_rest (zw_sch w) t2 S2 T2 \<and>
     (\<exists>s \<in> T1. im_sch (zw_ipc w) = Some s \<and> room (zw_sch w) s) \<and> (\<exists>s \<in> T2. im_respondSch (zw_ipc w) = Some s \<and> room (zw_sch w) s)"

text \<open>
  A server on sockets that has answered before: moreover the client's thread has a buffer to receive into, and two more are in the pool.
\<close>

definition warm :: "'w zIpcWorld \<Rightarrow> addr \<Rightarrow> zIPCClient \<Rightarrow> addr \<Rightarrow> addr \<Rightarrow> addr set \<Rightarrow> addr set \<Rightarrow> addr \<Rightarrow> addr set \<Rightarrow> addr set \<Rightarrow> bool" where
  "warm w client cl ia t1 S1 T1 t2 S2 T2 \<longleftrightarrow> threads_ready w t1 S1 T1 t2 S2 T2 \<and> im_run (zw_ipc w) \<and> zw_client w client = Some cl \<and>
     (\<exists>ib as. zw_buf w ia = Some ib \<and> buf_wf ib \<and> ia \<notin> set as \<and> pool_wf (zw_ipc w) (zw_buf w) as \<and> 2 \<le> length as)"

lemma threads_readyI:
  assumes "idle_thread (zw_sch w) t1 S1 T1 fs1 qs1 s1 m1" "im_sch (zw_ipc w) = Some s1"
    and "idle_thread (zw_sch w) t2 S2 T2 fs2 qs2 s2 m2" "im_respondSch (zw_ipc w) = Some s2"
    and same: "\<And>q. (zw_ipc w3)\<lparr>im_freebuf := q\<rparr> = (zw_ipc w)\<lparr>im_freebuf := q\<rparr>" "room (zw_sch w3) = room (zw_sch w)"
    and rest: "at_rest (zw_sch w3) t1 S1 T1" "at_rest (zw_sch w3) t2 S2 T2"
  shows "threads_ready w3 t1 S1 T1 t2 S2 T2"
proof -
  have "im_sch (zw_ipc w3) = Some s1" "im_respondSch (zw_ipc w3) = Some s2"
    using assms(2,4) arg_cong [OF same(1) [of None], of im_sch] arg_cong [OF same(1) [of None], of im_respondSch] by simp_all
  then show ?thesis unfolding threads_ready_def using assms(1,3) [THEN idle_room] same(2) rest by auto
qed

lemma threads_readyE:
  assumes "threads_ready w t1 S1 T1 t2 S2 T2"
  obtains fs1 qs1 s1 fs2 qs2 s2 where "idle_thread (zw_sch w) t1 S1 T1 fs1 qs1 s1 None" "im_sch (zw_ipc w) = Some s1"
    "idle_thread (zw_sch w) t2 S2 T2 fs2 qs2 s2 None" "im_respondSch (zw_ipc w) = Some s2"
proof -
  obtain s1 s2 where s: "at_rest (zw_sch w) t1 S1 T1" "at_rest (zw_sch w) t2 S2 T2" "s1 \<in> T1" "im_sch (zw_ipc w) = Some s1" "room (zw_sch w) s1"
    "s2 \<in> T2" "im_respondSch (zw_ipc w) = Some s2" "room (zw_sch w) s2" using assms by (auto simp: threads_ready_def)
  obtain fs1 qs1 where 1: "idle_thread (zw_sch w) t1 S1 T1 fs1 qs1 s1 None" by (rule rest_idle [OF s(1,3,5)])
  obtain fs2 qs2 where 2: "idle_thread (zw_sch w) t2 S2 T2 fs2 qs2 s2 None" by (rule rest_idle [OF s(2,6,8)])
  show ?thesis by (rule that [OF 1 s(4) 2 s(7)])
qed

text \<open>After one buffer was taken another can be.\<close>

lemma second_buf:
  assumes p: "pool_wf ipc h as"
    and al: "2 \<le> length as \<or> (\<exists>n. new = Some n \<and> h n = None \<and> mem \<and> new1 \<noteq> Some n)"
    and as: "as = na # as1 \<or> as = [] \<and> as1 = [] \<and> new1 = Some na"
    and ia: "ia = na \<or> h ia \<noteq> None" and h: "\<And>y. y \<noteq> ia \<Longrightarrow> y \<noteq> na \<Longrightarrow> h1 y = h y"
  shows "can_buf new mem h1 as1"
proof (cases "as1 = []")
  case True
  then obtain n where n: "new = Some n" "h n = None" "mem" "new1 \<noteq> Some n" using al as by auto
  have "n \<notin> set as" using p n(2) chain_dom [of zb_next h "im_freebuf ipc" as None n] by (auto simp: pool_wf_def)
  then have "n \<noteq> na" using n(4) as by (cases "as = []") auto
  moreover from this have "n \<noteq> ia" using n(2) ia by auto
  ultimately have "h1 n = None" using h [of n] n(2) by simp
  then show ?thesis using n by (simp add: can_buf_def)
qed (simp add: can_buf_def)

lemma enc_request_ne [simp]: "enc_request hs cname aname \<noteq> []"
  by (simp add: enc_request_def enc_ch_def)

text \<open>
  One request on its whole way. The buffers come from the pool or from malloc; afterwards the server is warm, whatever it was before.
\<close>

lemma request_round:
  assumes ra: "realloc_total ra"
    and t1: "idle_thread (zw_sch w) t1 S1 T1 fs1 qs1 s1 (al_job (rn_alloc rn))" "im_sch (zw_ipc w) = Some s1"
    and t2: "idle_thread (zw_sch w) t2 S2 T2 fs2 qs2 s2 (al_job al)" "im_respondSch (zw_ipc w) = Some s2"
    and ap: "apart t1 S1 T1 t2 S2 T2"
    and run: "im_run (zw_ipc w)" "\<not> rn_stop rn" and cl: "zw_client w client = Some cl"
    and rx: "rn_hdr rn = Some (hdr_bytes (msg_hdr ZEIPC_TYPE_DEFAULT (of_nat (length (enc_request hs cname aname @ args)))))"
      "rn_payload rn = Some (enc_request hs cname aname @ args)"
    and req: "length (enc_request hs cname aname @ args) < 8192" "length hs < 2 ^ 32" "ch_req (fold apply_field hs ch_zero)"
      "is_name cname" "cname \<noteq> []" "is_name aname" "aname \<noteq> []"
    and ia: "zw_buf w ia = Some ib" "buf_wf ib" "ia \<notin> set as" and p: "pool_wf (zw_ipc w) (zw_buf w) as"
    and al: "can_buf (al_buf (rn_alloc rn)) (al_bytes (rn_alloc rn)) (zw_buf w) as"
      "2 \<le> length as \<or> (\<exists>n. al_buf al = Some n \<and> zw_buf w n = None \<and> al_bytes al \<and> al_buf (rn_alloc rn) \<noteq> Some n)"
    and sv: "served (zw_comp w) (zw_ipc w) cname aname c f"
    and call: "answers run_call f c args (reply_head hs) data (zw_comp w, zw_ext w) (comp1, ext1)"
  defines "body \<equiv> enc_reply_ch (ch_sn (fold apply_field hs ch_zero)) True @ data"
  obtains w1 na w2 w3 where "client_round ra client rn (Some ia) w = Inr (True, Some na, w1)" "zw_sent w1 = zw_sent w"
    "wake run_call ra al t1 w1 = Inr w2" "zw_sent w2 = zw_sent w" "zw_comp w2 = comp1" "zw_ext w2 = ext1"
    "wake run_call ra al t2 w2 = Inr w3" "zw_comp w3 = comp1" "zw_ext w3 = ext1"
    "zw_sent w3 = zw_sent w @ [(cl_sock cl, hdr_bytes (msg_hdr ZEIPC_TYPE_DEFAULT (of_nat (length body))) @ body)]"
    "warm w3 client cl na t1 S1 T1 t2 S2 T2" "\<And>q. (zw_ipc w3)\<lparr>im_freebuf := q\<rparr> = (zw_ipc w)\<lparr>im_freebuf := q\<rparr>"
proof -
  let ?x = "enc_request hs cname aname @ args"
  have lx: "unat (of_nat (length ?x) :: u32) = length ?x" using req(1) by (intro unat_of_nat_u32_small) simp
  let ?hdr = "(msg_hdr ZEIPC_TYPE_DEFAULT (of_nat (length ?x)))\<lparr>mh_appType := zeipc_code ZEIPC_TYPE_DEFAULT, mh_payloadSize := of_nat (length ?x)\<rparr>"
  have "(of_nat (length ?x) :: u32) < ZIPC_BUF_LEN" using lx req(1) by (simp add: word_less_nat_alt ZIPC_BUF_LEN_def del: length_append)
  then have h: "zipc_client_recv_hdr (rn_hdr rn) = Some ?hdr" "length ?x = unat (mh_payloadSize ?hdr)" "unat (mh_appType ?hdr) = 0"
    using recv_hdr_msg [of "of_nat (length ?x)" ZEIPC_TYPE_DEFAULT] rx(1) lx by (simp_all del: length_append)
  have o: "owns t1 S1 T1 (zw_sch w)" using t1(1) by (simp add: idle_thread_def)
  obtain na b w1 fsa qsa k1 as1 where r: "client_round ra client rn (Some ia) w = Inr (True, Some na, w1)"
    "zw_buf w1 ia = Some b" "buf_wf b" "unread b = ?x" "unat (zb_len b) = length ?x"
    "pool_wf (zw_ipc w1) (zw_buf w1) as1" "as = na # as1 \<or> as = [] \<and> as1 = [] \<and> al_buf (rn_alloc rn) = Some na" "na \<notin> set as1" "na \<noteq> ia"
    "\<exists>nb. zw_buf w1 na = Some nb \<and> buf_wf nb"
    "zw_client w1 client = Some cl" "zw_sent w1 = zw_sent w" "zw_comp w1 = zw_comp w" "zw_ext w1 = zw_ext w"
    "\<And>q. (zw_ipc w1)\<lparr>im_freebuf := q\<rparr> = (zw_ipc w)\<lparr>im_freebuf := q\<rparr>"
    "\<And>y. y \<noteq> ia \<Longrightarrow> y \<noteq> na \<Longrightarrow> zw_buf w1 y = zw_buf w y"
    "sch_wf t1 (zw_sch w1) fsa qsa" "k1 < EZCRTSchPri_num"
    "queues (zw_sch w1) qsa ! k1 = [the_job s1 zipc_msg_proc_job_fn 3 [client, ia, unat (mh_appType ?hdr)]]"
    "\<forall>i < EZCRTSchPri_num. i \<noteq> k1 \<longrightarrow> queues (zw_sch w1) qsa ! i = []" "keeps t1 S1 T1 (zw_sch w) (zw_sch w1)"
    by (rule round_queued [OF run h(1) rx(2) h(2) _ ra ia p al(1) cl t1]) (simp, rule that)
  have e: "elsewhere t1 S1 T1 (zw_sch w) (zw_sch w1)" "owns t1 S1 T1 (zw_sch w1)" using r(21) by (simp_all add: keeps_def)
  have j1: "one_job (zw_sch w1) t1 S1 T1 (the_job s1 zipc_msg_proc_job_fn 3 [client, ia, 0])"
    using e(2) r(17-20) unfolding h(3) one_job_def by blast
  have i1: "im_respondSch (zw_ipc w1) = Some s2"
    using arg_cong [OF r(15) [of None], of im_respondSch] t2(2) by simp
  have ia1: "ia \<notin> set as1" "unat (zb_len b) < 2 ^ 31" using r(5,7) ia(3) req(1) by auto
  have sv1: "served (zw_comp w1) (zw_ipc w1) cname aname c f" using sv served_ipc r(13,15) by metis
  have call1: "answers run_call f c args (reply_head hs) data (zw_comp w1, zw_ext w1) (comp1, ext1)" using call r(13,14) by simp
  have n2: "can_buf (al_buf al) (al_bytes al) (zw_buf w1) as1" by (rule second_buf [OF p al(2) r(7), of ia]) (simp_all add: ia(1) r(16))
  obtain w2 oa b2 as2 where a: "wake run_call ra al t1 w1 = Inr w2" "at_rest (zw_sch w2) t1 S1 T1"
    "one_job (zw_sch w2) t2 S2 T2 (the_job s2 zipc_buf_send_job_fn 2 [client, oa])" "zw_comp w2 = comp1" "zw_ext w2 = ext1"
    "zw_client w2 client = Some cl" "zw_sent w2 = zw_sent w1" "zw_buf w2 oa = Some b2" "buf_wf b2"
    "contents b2 = hdr_bytes (msg_hdr ZEIPC_TYPE_DEFAULT (of_nat (length body))) @ body"
    "pool_wf (zw_ipc w2) (zw_buf w2) (ia # as2)" "oa \<notin> set (ia # as2)" "as2 = tl as1" "room (zw_sch w2) = room (zw_sch w1)"
    "\<And>q. (zw_ipc w2)\<lparr>im_freebuf := q\<rparr> = (zw_ipc w1)\<lparr>im_freebuf := q\<rparr>"
    "\<And>a. a \<noteq> ia \<Longrightarrow> a \<notin> set as1 \<Longrightarrow> zw_buf w1 a \<noteq> None \<Longrightarrow> a \<noteq> oa \<and> zw_buf w2 a = zw_buf w1 a"
    by (rule wake_answers [OF ra j1 idle_elsewhere [OF e(1) o e(2) ap t2(1)] i1 ap r(11,6) n2 ia1(1) r(2,3) ia1(2) r(4) req(2-7) sv1 call1,
        folded body_def]) (rule that)
  obtain w3 where s: "wake run_call ra al t2 w2 = Inr w3" "at_rest (zw_sch w3) t2 S2 T2" "keeps t2 S2 T2 (zw_sch w2) (zw_sch w3)"
    "zw_sent w3 = zw_sent w2 @ [(cl_sock cl, contents b2)]" "zw_comp w3 = zw_comp w2" "zw_ext w3 = zw_ext w2"
    "zw_client w3 = zw_client w2" "pool_wf (zw_ipc w3) (zw_buf w3) (oa # ia # as2)" "\<And>q. (zw_ipc w3)\<lparr>im_freebuf := q\<rparr> = (zw_ipc w2)\<lparr>im_freebuf := q\<rparr>"
    "\<And>a. a \<noteq> oa \<Longrightarrow> zw_buf w3 a = zw_buf w2 a"
    by (rule wake_sends [OF a(3,6,8,9,12,11), of run_call ra al]) (rule that)
  have r1: "at_rest (zw_sch w3) t1 S1 T1"
    using at_rest_elsewhere [OF _ _ _ apart_sym [OF ap] a(2), of "zw_sch w3"] s(3) a(3) by (simp add: keeps_def one_job_def)
  have ipc: "(zw_ipc w3)\<lparr>im_freebuf := q\<rparr> = (zw_ipc w)\<lparr>im_freebuf := q\<rparr>" for q using r(15) a(15) s(9) by simp
  have rm: "room (zw_sch w3) = room (zw_sch w)" using keeps_room [OF r(21)] a(14) keeps_room [OF s(3)] by simp
  have "na \<noteq> oa \<and> zw_buf w3 na = zw_buf w1 na" using a(16) [OF r(9,8)] r(10) s(10) by auto
  moreover have "na \<notin> set as2" using a(13) r(8) by (cases as1) auto
  moreover obtain nb where "zw_buf w1 na = Some nb" "buf_wf nb" using r(10) by blast
  moreover have "threads_ready w3 t1 S1 T1 t2 S2 T2" by (rule threads_readyI [OF t1 t2 ipc rm r1 s(2)])
  moreover have "im_run (zw_ipc w3)" using run(1) arg_cong [OF ipc [of None], of im_run] by simp
  ultimately have "warm w3 client cl na t1 S1 T1 t2 S2 T2"
    unfolding warm_def using s(7,8) a(6) r(9) by (intro conjI exI [of _ nb] exI [of _ "oa # ia # as2"]) simp_all
  then show ?thesis using r(1,12) a(1,4,5,7,10) s(1,4,5,6) ipc by (intro that [of na w1 w2 w3]) simp_all
qed

text \<open>C3. A request on the wire and its reply: an idle server that receives the header and the payload of a request for a registered
  call queues one job; when the thread of that schedule wakes up it runs the call once and queues the reply; when the thread of
  the replies wakes up exactly one message is sent, on the socket the request came from: header, common header and the
  data of the call. Nothing is sent before the last step. Afterwards the
  server is warm: both threads are idle, and the next request needs no memory.\<close>

theorem request_flow:
  assumes ra: "realloc_total ra"
    and t1: "idle_thread (zw_sch w) t1 S1 T1 fs1 qs1 s1 (al_job (rn_alloc rn))" "im_sch (zw_ipc w) = Some s1"
    and t2: "idle_thread (zw_sch w) t2 S2 T2 fs2 qs2 s2 (al_job al)" "im_respondSch (zw_ipc w) = Some s2"
    and ap: "apart t1 S1 T1 t2 S2 T2"
    and run: "im_run (zw_ipc w)" "\<not> rn_stop rn" and cl: "zw_client w client = Some cl"
    and rx: "rn_hdr rn = Some (hdr_bytes (msg_hdr ZEIPC_TYPE_DEFAULT (of_nat (length (enc_request hs cname aname @ args)))))"
      "rn_payload rn = Some (enc_request hs cname aname @ args)"
    and req: "length (enc_request hs cname aname @ args) < 8192" "length hs < 2 ^ 32" "ch_req (fold apply_field hs ch_zero)"
      "is_name cname" "cname \<noteq> []" "is_name aname" "aname \<noteq> []"
    and ia: "zw_buf w ia = Some ib" "buf_wf ib" "ia \<notin> set as" and p: "pool_wf (zw_ipc w) (zw_buf w) as"
    and al: "al_buf (rn_alloc rn) = Some n1" "zw_buf w n1 = None" "al_bytes (rn_alloc rn)"
      "al_buf al = Some n2" "zw_buf w n2 = None" "al_bytes al" "n1 \<noteq> n2"
    and sv: "served (zw_comp w) (zw_ipc w) cname aname c f"
    and call: "answers run_call f c args (reply_head hs) data (zw_comp w, zw_ext w) (comp1, ext1)"
  defines "body \<equiv> enc_reply_ch (ch_sn (fold apply_field hs ch_zero)) True @ data"
  shows "\<exists>w1 na w2 w3. client_round ra client rn (Some ia) w = Inr (True, Some na, w1) \<and> zw_sent w1 = zw_sent w \<and>
    wake run_call ra al t1 w1 = Inr w2 \<and> zw_sent w2 = zw_sent w \<and> zw_comp w2 = comp1 \<and> zw_ext w2 = ext1 \<and>
    wake run_call ra al t2 w2 = Inr w3 \<and> zw_comp w3 = comp1 \<and> zw_ext w3 = ext1 \<and>
    zw_sent w3 = zw_sent w @ [(cl_sock cl, hdr_bytes (msg_hdr ZEIPC_TYPE_DEFAULT (of_nat (length body))) @ body)] \<and>
    warm w3 client cl na t1 S1 T1 t2 S2 T2"
proof -
  have a: "can_buf (al_buf (rn_alloc rn)) (al_bytes (rn_alloc rn)) (zw_buf w) as"
    "2 \<le> length as \<or> (\<exists>n. al_buf al = Some n \<and> zw_buf w n = None \<and> al_bytes al \<and> al_buf (rn_alloc rn) \<noteq> Some n)"
    using al by (simp_all add: can_buf_def)
  show ?thesis by (rule request_round [OF ra t1 t2 ap run cl rx req ia p a sv call, folded body_def]) blast
qed

definition flow_world :: "unit zIpcWorld" where
  "flow_world = world_example\<lparr>zw_ipc := ipc_example\<lparr>im_sch := Some 3, im_respondSch := Some 4, im_evtSch := Some 6\<rparr>, zw_sch := idle_world,
     zw_buf := [401 \<mapsto> zbuf_zero\<lparr>zb_buf := Some (replicate 8192 0), zb_maxlen := ZIPC_BUF_LEN\<rparr>]\<rparr>"

definition flow_round :: "u8 list \<Rightarrow> zRound" where
  "flow_round x = \<lparr>rn_stop = False, rn_hdr = Some (hdr_bytes (msg_hdr ZEIPC_TYPE_DEFAULT (of_nat (length x)))), rn_payload = Some x,
     rn_alloc = \<lparr>al_buf = Some 402, al_bytes = True, al_job = Some 11, al_sub = None\<rparr>\<rparr>"

lemma idle_threads:
  "idle_thread idle_world 2 {11} {3} [] [[], [], []] 3 (Some 11)"
  "idle_thread idle_world 5 {12} {4, 6} [] [[], [], []] 4 (Some 12)" "idle_thread idle_world 5 {12} {4, 6} [] [[], [], []] 6 (Some 12)"
  "apart 2 {11} {3} 5 {12} {4, 6}"
proof -
  have o: "owns 2 {11} {3} idle_world" "owns 5 {12} {4, 6} idle_world"
    by (auto simp: owns_def idle_world_def idle_thr_def idle_sch_def new_sch_def thr_in_def que_in_def)
  have n: "no_jobs idle_world [[], [], []]" by (auto simp: no_jobs_def queues_def EZCRTSchPri_num_def three [unfolded EZCRTSchPri_num_def])
  have c: "can_new 2 idle_world (Some 11)" "can_new 5 idle_world (Some 12)" by (auto simp: can_new_def can_alloc_def idle_world_def idle_thr_def)
  have s: "sx_sch idle_world 3 = Some (idle_sch 2 100 1 EZCRTSchType_zcrtThread None)" "sx_sch idle_world 4 = Some (idle_sch 5 500 1 EZCRTSchType_selfThread None)"
    "sx_sch idle_world 6 = Some (idle_sch 5 500 2 EZCRTSchType_shareThread (Some 4))" by (simp_all add: idle_world_def)
  have f: "sc_pri (idle_sch t mx pri ty nx) = pri" "sc_maxsize (idle_sch t mx pri ty nx) = mx" for t mx pri ty nx by (simp_all add: idle_sch_def)
  show "idle_thread idle_world 2 {11} {3} [] [[], [], []] 3 (Some 11)"
    "idle_thread idle_world 5 {12} {4, 6} [] [[], [], []] 4 (Some 12)" "idle_thread idle_world 5 {12} {4, 6} [] [[], [], []] 6 (Some 12)"
    unfolding idle_thread_def using o idle_wf n c s by (simp_all add: f EZCRTSchPri_num_def)
  show "apart 2 {11} {3} 5 {12} {4, 6}" by (simp add: apart_def)
qed

theorem request_flow_witness:
  "\<exists>x w1 na w2 w3. client_round realloc_zero 300 (flow_round x) (Some 401) flow_world = Inr (True, Some na, w1) \<and>
    wake (\<lambda>f c i ob st. Inr (EZCRTErr_success, i, ob, st)) realloc_zero alloc_example 2 w1 = Inr w2 \<and>
    wake (\<lambda>f c i ob st. Inr (EZCRTErr_success, i, ob, st)) realloc_zero alloc_example 5 w2 = Inr w3 \<and>
    zw_sent w3 = [(4, hdr_bytes (msg_hdr ZEIPC_TYPE_DEFAULT (of_nat (length (enc_reply_ch 3 True)))) @ enc_reply_ch 3 True)]"
proof -
  let ?x = "enc_request [F_sn 3, F_req True] [115] [103] @ []"
  let ?call = "\<lambda>f c i ob st. Inr (EZCRTErr_success, i, ob, st)"
  let ?b = "zbuf_zero\<lparr>zb_buf := Some (replicate 8192 0), zb_maxlen := ZIPC_BUF_LEN\<rparr>"
  have w: "zw_sch flow_world = idle_world" "im_sch (zw_ipc flow_world) = Some 3" "im_respondSch (zw_ipc flow_world) = Some 4" "im_run (zw_ipc flow_world)"
    "zw_client flow_world 300 = Some client_example" "zw_buf flow_world 401 = Some ?b" "zw_buf flow_world 402 = None" "zw_buf flow_world 400 = None"
    "zw_sent flow_world = []" "cl_sock client_example = 4"
    by (simp_all add: flow_world_def world_example_def client_example_def ipc_example_def)
  have r: "\<not> rn_stop (flow_round ?x)" "rn_hdr (flow_round ?x) = Some (hdr_bytes (msg_hdr ZEIPC_TYPE_DEFAULT (of_nat (length ?x))))"
    "rn_payload (flow_round ?x) = Some ?x" "al_buf (rn_alloc (flow_round ?x)) = Some 402" "al_bytes (rn_alloc (flow_round ?x))"
    "al_job (rn_alloc (flow_round ?x)) = Some 11" by (simp_all add: flow_round_def)
  have a: "al_buf alloc_example = Some 400" "al_bytes alloc_example" "al_job alloc_example = Some 12" by (simp_all add: alloc_example_def)
  have b: "buf_wf ?b" by (simp add: buf_wf_def zbuf_zero_def ZIPC_BUF_LEN_def)
  have p: "pool_wf (zw_ipc flow_world) (zw_buf flow_world) []" by (simp add: pool_wf_def flow_world_def ipc_example_def)
  have sv: "served (zw_comp flow_world) (zw_ipc flow_world) [115] [103] 100 7"
    using example_served(1) by (simp add: flow_world_def world_example_def served_def)
  have an: "answers ?call 7 100 [] (reply_head [F_sn 3, F_req True]) [] (zw_comp flow_world, zw_ext flow_world) (zw_comp flow_world, zw_ext flow_world)"
    by (simp add: answers_def)
  have l: "length ?x < 8192" using request_short [of 103] by simp
  note t = idle_threads [folded w(1), folded r(6) a(3)]
  from request_flow [OF realloc_zero_total t(1) w(2) t(2) w(3) t(4) w(4) r(1) w(5) r(2,3) l _ _ example_names(1) _ example_names(2) _ w(6) b _ p
      r(4) w(7) r(5) a(1) w(8) a(2) _ sv an]
  show ?thesis using w(9,10) by (fastforce simp: ch_zero_def)
qed

section \<open>From an event to the client that hooked it\<close>

text \<open>An event that the application can encode reaches a client that hooked it as exactly one message: the callback queues one
  job and sends nothing; when the thread of the events wakes up, the message goes out on the client's socket, with
  the size of what follows its header, the common header of a notification, the event and its data.\<close>

theorem event_flow:
  assumes ra: "realloc_total ra" and fn: "im_evt_encode (zw_ipc w) = Some fn"
    and enc: "puts (\<lambda>v. rbind (enc fn evtid evtdata v) (\<lambda>(r, v1). Inr (r = 0, v1))) data"
    and small: "length (event_body 0 evtid data) + 26 < 2 ^ 31"
    and th: "idle_thread (zw_sch w) t S T fs qs s (al_job al)" "im_evtSch (zw_ipc w) = Some s"
    and cl: "zw_client w client = Some cl" and p: "pool_wf (zw_ipc w) (zw_buf w) as"
    and al: "al_buf al = Some n" "zw_buf w n = None" "al_bytes al"
  shows "\<exists>w1 w2. zipc_hookevent_cb enc ra al evtid evtdata client w = Inr w1 \<and> zw_sent w1 = zw_sent w \<and>
    wake run_call ra al t w1 = Inr w2 \<and> at_rest (zw_sch w2) t S T \<and>
    zw_sent w2 = zw_sent w @ [(cl_sock cl,
      hdr_bytes (msg_hdr ZEIPC_TYPE_LINK (of_nat (length (event_body 0 evtid data)))) @ event_body 0 evtid data)]"
proof -
  obtain c where c: "owns t S T (zw_sch w)" "sch_wf t (zw_sch w) fs qs" "no_jobs (zw_sch w) qs" "can_new t (zw_sch w) (al_job al)"
    "opt_in S (al_job al)" "s \<in> T" "sx_sch (zw_sch w) s = Some c" "sc_thr c = Some t" "unat (sc_pri c) < EZCRTSchPri_num"
    "held s (queues (zw_sch w) qs ! unat (sc_pri c)) < unat (sc_maxsize c)" by (rule idle_threadE [OF th(1)])
  let ?k = "unat (sc_pri c)" and ?body = "event_body 0 evtid data"
  have ca: "can_buf (al_buf al) (al_bytes al) (zw_buf w) as" using al by (simp add: can_buf_def)
  obtain a as1 b ipc h where m: "pool_malloc al w = Inr (Some a, w\<lparr>zw_ipc := ipc, zw_buf := h\<rparr>)" "pool_wf ipc h as1" "a \<notin> set as1"
    "h a = Some b" "buf_wf b" "zb_len b = 0" "\<And>q. ipc\<lparr>im_freebuf := q\<rparr> = (zw_ipc w)\<lparr>im_freebuf := q\<rparr>"
    by (rule pool_malloc_spec [OF p ca]) (rule that)
  have i: "im_evt_encode ipc = Some fn" "im_evtSch ipc = Some s"
    using arg_cong [OF m(7) [of None], of im_evt_encode] arg_cong [OF m(7) [of None], of im_evtSch] fn th(2) by simp_all
  have small': "length (event_body (fst (zcrt_atom_inc (zw_uid w))) evtid data) + 26 < 2 ^ 31" using small by (simp add: zcrt_atom_inc_def)
  obtain b' where b': "zipc_encode_event zcrt_atom_inc enc ra (Some ipc) evtid evtdata (Some b) (zw_uid w) =
      Inr (EZCRTErr_success, Some b', zw_uid w)" "buf_wf b'"
    "contents b' = hdr_bytes (msg_hdr ZEIPC_TYPE_LINK (of_nat (length ?body))) @ ?body"
    by (rule encode_event_ok [where inc = zcrt_atom_inc and uid = "zw_uid w" and enc = enc and evtid = evtid and evtdata = evtdata,
        OF ra m(5,6) i(1) enc small']) (rule that; simp add: zcrt_atom_inc_def)
  obtain j sch where j: "zcrt_schedule_sendjob (al_job al) (Some s) (Some zipc_buf_send_job_fn) client a (zw_sch w) = Inr (EZCRTErr_success, sch)"
    "sch_wf t sch (tl fs) (qs[?k := qs ! ?k @ [j]])"
    "queues sch (qs[?k := qs ! ?k @ [j]]) = (queues (zw_sch w) qs)[?k := queues (zw_sch w) qs ! ?k @ [the_job s zipc_buf_send_job_fn 2 [client, a]]]"
    using sendjob_ok [OF c(2,4,7,8) refl c(9,10)] by metis
  let ?w3 = "(put_buf a (Some b') (w\<lparr>zw_ipc := ipc, zw_buf := h\<rparr>))\<lparr>zw_sch := sch, zw_uid := zw_uid w\<rparr>"
  let ?w1 = "if \<not> zw_notprint w then ?w3\<lparr>zw_notprint := True\<rparr> else ?w3"
  have "zipc_hookevent_cb enc ra al evtid evtdata client w = Inr ?w1"
    using cl m(1,4) b'(1) j(1) i(2) by (simp add: zipc_hookevent_cb_def sendjob_def put_buf_def Let_def)
  moreover have s1: "zw_sch ?w1 = sch" "zw_client ?w1 client = Some cl" "zw_buf ?w1 a = Some b'" "zw_sent ?w1 = zw_sent w"
    using cl by (simp_all add: put_buf_def)
  moreover have p1: "pool_wf (zw_ipc ?w1) (zw_buf ?w1) as1" using m(2,3) by (auto simp: pool_wf_def put_buf_def chain_upd)
  have "one_job (zw_sch ?w1) t S T (the_job s zipc_buf_send_job_fn 2 [client, a])"
    unfolding s1(1) using only_job [OF c(2,3,9) j(3)] sendjob_keeps [OF c(1,6,5) j(1)] j(2) c(9) unfolding one_job_def keeps_def by blast
  from wake_sends [OF this s1(2,3) b'(2) m(3) p1, of run_call ra al]
  obtain w2 where "wake run_call ra al t ?w1 = Inr w2" "at_rest (zw_sch w2) t S T" "zw_sent w2 = zw_sent ?w1 @ [(cl_sock cl, contents b')]" by metis
  ultimately show ?thesis using b'(3) by (intro exI [of _ ?w1] exI [of _ w2]) simp
qed

theorem event_flow_witness:
  "\<exists>w1 w2. zipc_hookevent_cb int_encoder realloc_zero alloc_example 5 0 300 (flow_world\<lparr>zw_ipc := (zw_ipc flow_world)\<lparr>im_evt_encode := Some 9\<rparr>\<rparr>) = Inr w1 \<and>
    wake (\<lambda>f c i ob st. Inr (EZCRTErr_success, i, ob, st)) realloc_zero alloc_example 5 w1 = Inr w2 \<and>
    zw_sent w2 = [(4, hdr_bytes (msg_hdr ZEIPC_TYPE_LINK (of_nat (length (event_body 0 5 (enc_int 7))))) @ event_body 0 5 (enc_int 7))]"
proof -
  let ?w = "flow_world\<lparr>zw_ipc := (zw_ipc flow_world)\<lparr>im_evt_encode := Some 9\<rparr>\<rparr>"
  have w: "zw_sch ?w = idle_world" "im_evtSch (zw_ipc ?w) = Some 6" "im_evt_encode (zw_ipc ?w) = Some 9" "zw_client ?w 300 = Some client_example"
    "zw_buf ?w 400 = None" "zw_sent ?w = []" "cl_sock client_example = 4" "al_job alloc_example = Some 12" "al_buf alloc_example = Some 400" "al_bytes alloc_example"
    by (simp_all add: flow_world_def world_example_def client_example_def ipc_example_def alloc_example_def)
  have p: "pool_wf (zw_ipc ?w) (zw_buf ?w) []" by (simp add: pool_wf_def flow_world_def ipc_example_def)
  from event_flow [where enc = int_encoder and evtid = 5 and evtdata = 0, OF realloc_zero_total w(3) int_encoder_puts event_body_short
      idle_threads(3) [folded w(1,8)] w(2,4) p w(9,5,10)]
  show ?thesis using w(6,7) by fastforce
qed

end
