(* ===== verification/Zcrt_Handle.thy ===== *)
theory Zcrt_Handle
  imports Zcrt_Macro Zcrt_Chain
begin

text \<open>
  What the three ports of the operating system layer share: handles of objects of the operating system, and what its
  documentation says of semaphores and of the events that Windows has in their place.
\<close>

text \<open>A handle is the address of an object; \<^verbatim>\<open>'o objs\<close> are those that exist.\<close>

type_synonym 'o objs = "addr \<Rightarrow> 'o option"

definition ZCRT_WAIT_FOREVER :: u32 where "ZCRT_WAIT_FOREVER = 0xFFFFFFFF"

section \<open>Semaphores\<close>

text \<open>
  A semaphore with the count \<^verbatim>\<open>cnt\<close>: \<^verbatim>\<open>down\<close> has no result, that is, it waits, while the count is 0 and
  takes one from it otherwise; \<^verbatim>\<open>up\<close> adds one.
\<close>

definition sem_laws :: "('s \<Rightarrow> 's option) \<Rightarrow> ('s \<Rightarrow> 's) \<Rightarrow> ('s \<Rightarrow> nat) \<Rightarrow> bool" where
  "sem_laws down up cnt \<longleftrightarrow> (\<forall>s. (down s = None) = (cnt s = 0)) \<and>
     (\<forall>s s1. down s = Some s1 \<longrightarrow> cnt s = Suc (cnt s1)) \<and> (\<forall>s. cnt (up s) = Suc (cnt s))"

lemma sem_lawsD:
  assumes "sem_laws down up cnt"
  shows "down s = None \<longleftrightarrow> cnt s = 0" "down s = Some s1 \<Longrightarrow> cnt s = Suc (cnt s1)" "cnt (up s) = Suc (cnt s)"
  using assms by (simp_all add: sem_laws_def)

lemma sem_laws_take: "sem_laws down up cnt \<Longrightarrow> 0 < cnt s \<Longrightarrow> \<exists>s1. down s = Some s1 \<and> cnt s1 = cnt s - 1"
  using sem_lawsD(1,2) [of down up cnt s] by (cases "down s") fastforce+

text \<open>A counter is a semaphore.\<close>

definition nat_down :: "nat \<Rightarrow> nat option" where
  "nat_down n = (if n = 0 then None else Some (n - 1))"

lemma nat_sem_laws: "sem_laws nat_down Suc (\<lambda>n. n)"
  by (auto simp: sem_laws_def nat_down_def)

section \<open>Events\<close>

text \<open>An event made without manual reset: \<^verbatim>\<open>on\<close> tells whether it is set.\<close>

definition event_laws :: "(bool \<Rightarrow> bool \<Rightarrow> 'e) \<Rightarrow> ('e \<Rightarrow> 'e) \<Rightarrow> ('e \<Rightarrow> 'e option) \<Rightarrow> ('e \<Rightarrow> bool) \<Rightarrow> bool" where
  "event_laws create give wait on \<longleftrightarrow> (\<forall>b. on (create False b) = b) \<and> (\<forall>e. on (give e)) \<and>
     (\<forall>e. (wait e = None) = (\<not> on e)) \<and> (\<forall>e e1. wait e = Some e1 \<longrightarrow> \<not> on e1)"

lemma event_lawsD:
  assumes "event_laws create give wait on"
  shows "on (create False b) = b" "on (give e)" "wait e = None \<longleftrightarrow> \<not> on e" "wait e = Some e1 \<Longrightarrow> \<not> on e1"
  using assms unfolding event_laws_def by blast+

lemma event_laws_bool: "event_laws (\<lambda>_ b. b) (\<lambda>_. True) (\<lambda>e. if e then Some False else None) (\<lambda>e. e)"
  by (simp add: event_laws_def)

end
