(* ===== verification/Zcrt_Os_Kernal.thy ===== *)
theory Zcrt_Os_Kernal
  imports Zcrt_Handle
begin

text \<open>
  The operating system layer of the kernel port, \<^verbatim>\<open>zcrtlib/zcrt_os_kernal.c\<close>: the counters, the
  semaphore's time limit, and the mutex built from a semaphore, an owner and a count of nested locks. The kernel's
  semaphore is not part of the program; what it does is given by the arguments \<^verbatim>\<open>down\<close>,
  which has no result while the caller has to wait, and \<^verbatim>\<open>up\<close>. Threads are told apart by
  their process ids. Between two accesses to the mutex any other thread may run, so locking and unlocking are
  executed one statement at a time.
\<close>

section \<open>Counters and semaphores\<close>

definition kern_atom_inc :: "s32 \<Rightarrow> s32 \<times> s32" where
  "kern_atom_inc cnt = (cnt + 1, cnt + 1)"

definition kern_atom_dec :: "s32 \<Rightarrow> s32 \<times> s32" where
  "kern_atom_dec cnt = (cnt - 1, cnt - 1)"

text \<open>
  The result for what \<^verbatim>\<open>down_timeout\<close> returns: 0, \<^verbatim>\<open>-EINTR\<close> or
  \<^verbatim>\<open>-ETIME\<close>. A failed \<^verbatim>\<open>ZCRT_ASSERT\<close> only prints in the kernel.
\<close>

definition EINTR :: int where "EINTR = 4"
definition ETIME :: int where "ETIME = 62"

definition kern_sem_create :: "(u16 \<Rightarrow> 's) \<Rightarrow> addr option \<Rightarrow> u16 \<Rightarrow> 's objs \<Rightarrow> (addr option \<times> 's objs) res" where
  "kern_sem_create sema_init new initial os = rbind (deref new) (\<lambda>sem. Inr (Some sem, os(sem \<mapsto> sema_init initial)))"

definition kern_sem_delete :: "addr option \<Rightarrow> 's objs \<Rightarrow> 's objs res" where
  "kern_sem_delete h os = (case h of None \<Rightarrow> Inr os | Some p \<Rightarrow> rbind (deref (os p)) (\<lambda>_. Inr (os(p := None))))"

definition kern_sem_take :: "(u32 \<Rightarrow> 's \<Rightarrow> int \<times> 's) \<Rightarrow> addr \<Rightarrow> u32 \<Rightarrow> 's objs \<Rightarrow> (EZCRTErr \<times> 's objs) res" where
  "kern_sem_take down_timeout p timeout os = rbind (deref (os p)) (\<lambda>sem.
     let (r, sem1) = down_timeout timeout sem in
     Inr (if r = - EINTR then EZCRTErr_timeout else EZCRTErr_success, os(p \<mapsto> sem1)))"

definition kern_sem_give :: "('s \<Rightarrow> 's) \<Rightarrow> addr \<Rightarrow> 's objs \<Rightarrow> 's objs res" where
  "kern_sem_give up p os = rbind (deref (os p)) (\<lambda>sem. Inr (os(p \<mapsto> up sem)))"

section \<open>Threads and time\<close>

text \<open>What \<^verbatim>\<open>kthread_run\<close> gives is never NULL; \<^verbatim>\<open>stopped\<close> are the
  threads that were told to stop. A thread asks about itself, whatever the handle.\<close>

definition kern_thread_create :: "('a \<Rightarrow> addr) \<Rightarrow> 'a \<Rightarrow> addr option" where
  "kern_thread_create kthread_run arg = Some (kthread_run arg)"

definition kern_thread_stop :: "addr option \<Rightarrow> addr set \<Rightarrow> addr set" where
  "kern_thread_stop h stopped = (case h of None \<Rightarrow> stopped | Some t \<Rightarrow> insert t stopped)"

definition kern_thread_should_stop :: "addr \<Rightarrow> addr option \<Rightarrow> addr set \<Rightarrow> bool" where
  "kern_thread_should_stop current h stopped \<longleftrightarrow> current \<in> stopped"

text \<open>\<^verbatim>\<open>msleep\<close> takes an unsigned number of milliseconds; \<^verbatim>\<open>jiffies\<close> is an unsigned
  \<^verbatim>\<open>long\<close>.\<close>

definition kern_sleep :: "s32 \<Rightarrow> u32" where
  "kern_sleep msec = msec"

definition kern_get_time_freq :: u32 where "kern_get_time_freq = 1000000"

definition kern_cpu_clock :: "'l::len word \<Rightarrow> u32" where
  "kern_cpu_clock jiffies = ucast jiffies"

lemma kern_stop_told: "kern_thread_should_stop t h (kern_thread_stop (Some u) ts) \<longleftrightarrow> t = u \<or> kern_thread_should_stop t h ts"
  by (simp add: kern_thread_should_stop_def kern_thread_stop_def)

section \<open>Interrupts\<close>

text \<open>
  The processor's flags and the static variable they are saved in. \<^verbatim>\<open>disable\<close> is what switching the interrupts
  off makes of the flags.
\<close>

record 'f irqs =
  irq_cpu :: 'f
  s_irqflags :: 'f

definition zcrt_irq_lock :: "('f \<Rightarrow> 'f) \<Rightarrow> 'f irqs \<Rightarrow> 'f irqs" where
  "zcrt_irq_lock disable st = st\<lparr>irq_cpu := disable (irq_cpu st), s_irqflags := irq_cpu st\<rparr>"

definition zcrt_irq_unlock :: "'f irqs \<Rightarrow> 'f irqs" where
  "zcrt_irq_unlock st = st\<lparr>irq_cpu := s_irqflags st\<rparr>"

text \<open>Sections under the lock, and those inside them.\<close>

datatype sect = Sect "sect list"

fun run_sect :: "('f \<Rightarrow> 'f) \<Rightarrow> sect \<Rightarrow> 'f irqs \<Rightarrow> 'f irqs" where
  "run_sect disable (Sect ts) st = zcrt_irq_unlock (fold (run_sect disable) ts (zcrt_irq_lock disable st))"

lemma run_flat: "irq_cpu (run_sect disable (Sect []) st) = irq_cpu st"
  by (simp add: zcrt_irq_lock_def zcrt_irq_unlock_def)

lemma run_off:
  assumes idem: "\<And>f. disable (disable f) = disable f"
  shows "irq_cpu st = disable f \<Longrightarrow> irq_cpu (run_sect disable t st) = disable f \<and> s_irqflags (run_sect disable t st) = disable f"
proof (induction t arbitrary: st)
  case (Sect ts)
  let ?st = "zcrt_irq_lock disable st"
  have st: "irq_cpu ?st = disable f" "s_irqflags ?st = disable f" using Sect.prems idem by (simp_all add: zcrt_irq_lock_def)
  have "irq_cpu (fold (run_sect disable) us st1) = disable f \<and> s_irqflags (fold (run_sect disable) us st1) = disable f"
    if "set us \<subseteq> set ts" "irq_cpu st1 = disable f" "s_irqflags st1 = disable f" for us st1
    using that
  proof (induction us arbitrary: st1)
    case (Cons u us)
    then show ?case using Sect.IH [of u st1] by simp
  qed simp
  from this [OF subset_refl st] show ?case by (simp add: zcrt_irq_unlock_def)
qed

lemma run_nested:
  assumes idem: "\<And>f. disable (disable f) = disable f" and ts: "ts \<noteq> []"
  shows "irq_cpu (run_sect disable (Sect ts) st) = disable (irq_cpu st)"
proof -
  let ?f = "irq_cpu st"
  have "irq_cpu (fold (run_sect disable) us st1) = disable ?f \<and> s_irqflags (fold (run_sect disable) us st1) = disable ?f"
    if "us \<noteq> []" "irq_cpu st1 = disable ?f" for us st1
    using that
  proof (induction us arbitrary: st1 rule: list_nonempty_induct)
    case (single u)
    then show ?case using run_off [of disable st1 ?f u, OF idem] by simp
  next
    case (cons u us)
    then show ?case using run_off [of disable st1 ?f u, OF idem] by simp
  qed
  from this [OF ts, of "zcrt_irq_lock disable st"] show ?thesis by (simp add: zcrt_irq_lock_def zcrt_irq_unlock_def)
qed

text \<open>C27. There is one variable for the saved flags: after any sequence of sections under the lock the interrupts are as they were
  before it if no section had another inside, and switched off for good otherwise.\<close>

theorem irq_sections:
  assumes idem: "\<And>f. disable (disable f) = disable f"
  shows "irq_cpu (fold (run_sect disable) ts st) = (if \<forall>t \<in> set ts. t = Sect [] then irq_cpu st else disable (irq_cpu st))"
proof (induction ts arbitrary: st)
  case (Cons t ts)
  show ?case
  proof (cases "t = Sect []")
    case True
    then show ?thesis using Cons.IH run_flat [of disable st] by (simp del: run_sect.simps)
  next
    case False
    then obtain us where "t = Sect us" "us \<noteq> []" by (cases t) auto
    then have "irq_cpu (run_sect disable t st) = disable (irq_cpu st)" using run_nested [of disable us st, OF idem] by blast
    then show ?thesis using Cons.IH False idem by (simp del: run_sect.simps)
  qed
qed simp

theorem irq_sections_witness:
  "irq_cpu (fold (run_sect (\<lambda>_. False)) [Sect [], Sect [Sect []], Sect []] \<lparr>irq_cpu = True, s_irqflags = False\<rparr>) = False"
  using irq_sections [of "\<lambda>_. False" "[Sect [], Sect [Sect []], Sect []]"] by simp

section \<open>The mutex\<close>

record 's zcrtMutex =
  mx_sem :: 's
  mx_owner :: u32
  mx_recurse :: s32

text \<open>\<^verbatim>\<open>sem1\<close> is the semaphore that \<^verbatim>\<open>sema_init\<close> makes with count 1.\<close>

definition kern_mutex_create :: "'s \<Rightarrow> 's zcrtMutex" where
  "kern_mutex_create sem1 = \<lparr>mx_sem = sem1, mx_owner = 0, mx_recurse = 0\<rparr>"

text \<open>Where a thread is: outside, or in front of the named statement of one of the two functions.\<close>

datatype mxpc = Outside | LockCount | LockOwner | LockDown | UnlockCount | UnlockOwner | UnlockUp

fun mutex_lock_stmt :: "('s \<Rightarrow> 's option) \<Rightarrow> u32 \<Rightarrow> mxpc \<Rightarrow> 's zcrtMutex \<Rightarrow> (mxpc \<times> 's zcrtMutex) option" where
  "mutex_lock_stmt down selfid Outside m = Some (if mx_owner m = selfid then LockCount else LockOwner, m)"
| "mutex_lock_stmt down selfid LockCount m = Some (Outside, m\<lparr>mx_recurse := mx_recurse m + 1\<rparr>)"
| "mutex_lock_stmt down selfid LockOwner m = Some (LockDown, m\<lparr>mx_owner := selfid\<rparr>)"
| "mutex_lock_stmt down selfid LockDown m = (case down (mx_sem m) of
     None \<Rightarrow> None
   | Some s \<Rightarrow> Some (Outside, m\<lparr>mx_sem := s\<rparr>))"
| "mutex_lock_stmt down selfid _ m = None"

fun mutex_unlock_stmt :: "('s \<Rightarrow> 's) \<Rightarrow> mxpc \<Rightarrow> 's zcrtMutex \<Rightarrow> (mxpc \<times> 's zcrtMutex) option" where
  "mutex_unlock_stmt up Outside m = Some (if 0 < sint (mx_recurse m) then UnlockCount else UnlockOwner, m)"
| "mutex_unlock_stmt up UnlockCount m = Some (Outside, m\<lparr>mx_recurse := mx_recurse m - 1\<rparr>)"
| "mutex_unlock_stmt up UnlockOwner m = Some (UnlockUp, m\<lparr>mx_owner := 0\<rparr>)"
| "mutex_unlock_stmt up UnlockUp m = Some (Outside, m\<lparr>mx_sem := up (mx_sem m)\<rparr>)"
| "mutex_unlock_stmt up _ m = None"

definition kern_mutex_delete :: "addr option \<Rightarrow> 's zcrtMutex objs \<Rightarrow> 's zcrtMutex objs res" where
  "kern_mutex_delete h os = (case h of None \<Rightarrow> Inr os | Some p \<Rightarrow> rbind (deref (os p)) (\<lambda>_. Inr (os(p := None))))"

definition kern_mutex_trylock :: "('s \<Rightarrow> 's option) \<Rightarrow> 's zcrtMutex \<Rightarrow> EZCRTErr \<times> 's zcrtMutex" where
  "kern_mutex_trylock down m = (case down (mx_sem m) of
     Some s \<Rightarrow> (EZCRTErr_success, m\<lparr>mx_sem := s\<rparr>)
   | None \<Rightarrow> (EZCRTErr_timeout, m))"

section \<open>Threads that lock and unlock\<close>

text \<open>
  A thread's place in the code and how many locks it holds. It unlocks only what it has locked, and its stack
  bounds the nesting; process ids are not 0.
\<close>

record locker =
  lk_pc :: mxpc
  lk_depth :: nat

type_synonym 's mxstate = "'s zcrtMutex \<times> (u32 \<Rightarrow> locker)"

definition locked_to :: "mxpc \<Rightarrow> locker \<Rightarrow> locker" where
  "locked_to pc l = \<lparr>lk_pc = pc, lk_depth = (if pc = Outside then lk_depth l + 1 else lk_depth l)\<rparr>"

definition unlocked_to :: "mxpc \<Rightarrow> locker \<Rightarrow> locker" where
  "unlocked_to pc l = \<lparr>lk_pc = pc, lk_depth = (if pc = Outside then lk_depth l - 1 else lk_depth l)\<rparr>"

inductive mx_step :: "('s \<Rightarrow> 's option) \<Rightarrow> ('s \<Rightarrow> 's) \<Rightarrow> 's mxstate \<Rightarrow> 's mxstate \<Rightarrow> bool"
  for down :: "'s \<Rightarrow> 's option" and up :: "'s \<Rightarrow> 's" where
  locking: "t \<noteq> 0 \<Longrightarrow> lk_depth (th t) < 2 ^ 31 - 1 \<Longrightarrow> mutex_lock_stmt down t (lk_pc (th t)) m = Some (pc, m1) \<Longrightarrow>
    mx_step down up (m, th) (m1, th(t := locked_to pc (th t)))"
| unlocking: "t \<noteq> 0 \<Longrightarrow> 0 < lk_depth (th t) \<Longrightarrow> mutex_unlock_stmt up (lk_pc (th t)) m = Some (pc, m1) \<Longrightarrow>
    mx_step down up (m, th) (m1, th(t := unlocked_to pc (th t)))"

inductive_cases mx_stepE: "mx_step down up s s1"

abbreviation mx_steps :: "('s \<Rightarrow> 's option) \<Rightarrow> ('s \<Rightarrow> 's) \<Rightarrow> 's mxstate \<Rightarrow> 's mxstate \<Rightarrow> bool" where
  "mx_steps down up \<equiv> (mx_step down up)\<^sup>*\<^sup>*"

definition mx_init :: "'s \<Rightarrow> 's mxstate" where
  "mx_init sem1 = (kern_mutex_create sem1, \<lambda>_. \<lparr>lk_pc = Outside, lk_depth = 0\<rparr>)"

section \<open>The invariant\<close>

text \<open>
  Either nobody holds a lock and the semaphore is free, or exactly the thread \<^verbatim>\<open>h\<close> does and the count
  of nested locks is one less than it holds.
\<close>

definition mx_free :: "('s \<Rightarrow> nat) \<Rightarrow> 's mxstate \<Rightarrow> bool" where
  "mx_free cnt s \<longleftrightarrow> cnt (mx_sem (fst s)) = 1 \<and> mx_recurse (fst s) = 0 \<and> (\<forall>t. lk_depth (snd s t) = 0)"

definition mx_held :: "('s \<Rightarrow> nat) \<Rightarrow> u32 \<Rightarrow> 's mxstate \<Rightarrow> bool" where
  "mx_held cnt h s \<longleftrightarrow> cnt (mx_sem (fst s)) = 0 \<and> 0 < lk_depth (snd s h) \<and> lk_depth (snd s h) < 2 ^ 31 \<and>
     mx_recurse (fst s) = of_nat (lk_depth (snd s h) - 1) \<and> (\<forall>t. t \<noteq> h \<longrightarrow> lk_depth (snd s t) = 0)"

text \<open>What a thread's place in the code says about its locks and the owner.\<close>

definition pc_ok :: "u32 \<Rightarrow> u32 \<Rightarrow> locker \<Rightarrow> bool" where
  "pc_ok owner t l \<longleftrightarrow> (case lk_pc l of
     Outside \<Rightarrow> owner = t \<longrightarrow> 0 < lk_depth l
   | LockCount \<Rightarrow> 0 < lk_depth l
   | LockOwner \<Rightarrow> owner = t \<longrightarrow> 0 < lk_depth l
   | LockDown \<Rightarrow> True
   | UnlockCount \<Rightarrow> 1 < lk_depth l
   | UnlockOwner \<Rightarrow> lk_depth l = 1
   | UnlockUp \<Rightarrow> lk_depth l = 1 \<and> owner \<noteq> t)"

definition mx_inv :: "('s \<Rightarrow> nat) \<Rightarrow> 's mxstate \<Rightarrow> bool" where
  "mx_inv cnt s \<longleftrightarrow> (mx_free cnt s \<or> (\<exists>h. mx_held cnt h s)) \<and>
     (\<forall>t. t \<noteq> 0 \<longrightarrow> pc_ok (mx_owner (fst s)) t (snd s t))"

lemma mx_inv_init: "cnt sem1 = 1 \<Longrightarrow> mx_inv cnt (mx_init sem1)"
  by (simp add: mx_inv_def mx_init_def mx_free_def kern_mutex_create_def pc_ok_def)

lemma sint_depth: "n < 2 ^ 31 \<Longrightarrow> sint (of_nat n :: s32) = int n"
  by (simp add: signed_of_nat signed_take_bit_int_eq_self)

lemma mx_holder: "mx_held cnt h s \<Longrightarrow> 0 < lk_depth (snd s t) \<Longrightarrow> mx_held cnt t s"
  by (cases "t = h") (simp_all add: mx_held_def)

lemma pc_ok_owner: "pc_ok ow t l \<Longrightarrow> ow1 \<noteq> t \<Longrightarrow> pc_ok ow1 t l"
  by (auto simp: pc_ok_def split: mxpc.splits)

lemma mx_same:
  assumes "mx_sem m1 = mx_sem m" "mx_recurse m1 = mx_recurse m" "lk_depth l = lk_depth (th t)"
  shows "mx_free cnt (m1, th(t := l)) = mx_free cnt (m, th)" "mx_held cnt h (m1, th(t := l)) = mx_held cnt h (m, th)"
proof -
  have "lk_depth ((th(t := l)) u) = lk_depth (th u)" for u using assms(3) by simp
  then show "mx_free cnt (m1, th(t := l)) = mx_free cnt (m, th)" "mx_held cnt h (m1, th(t := l)) = mx_held cnt h (m, th)"
    using assms(1,2) by (simp_all only: mx_free_def mx_held_def fst_conv snd_conv)
qed

lemma mx_inv_locking:
  assumes laws: "sem_laws down up cnt" and inv: "mx_inv cnt (m, th)" and t: "t \<noteq> 0" "lk_depth (th t) < 2 ^ 31 - 1"
    and st: "mutex_lock_stmt down t (lk_pc (th t)) m = Some (pc, m1)"
  shows "mx_inv cnt (m1, th(t := locked_to pc (th t)))"
proof -
  have ok: "\<forall>u. u \<noteq> 0 \<longrightarrow> pc_ok (mx_owner m) u (th u)" using inv by (simp add: mx_inv_def)
  have w: "mx_free cnt (m, th) \<or> (\<exists>h. mx_held cnt h (m, th))" using inv by (simp add: mx_inv_def)
  show ?thesis
  proof (cases "lk_pc (th t)")
    case LockDown
    then obtain s where s: "down (mx_sem m) = Some s" "pc = Outside" "m1 = m\<lparr>mx_sem := s\<rparr>" using st by (auto split: option.splits)
    then have f: "mx_free cnt (m, th)" "cnt s = 0" using w sem_lawsD(2) [OF laws s(1)] by (auto simp: mx_held_def mx_free_def)
    then have "mx_held cnt t (m1, th(t := locked_to pc (th t)))" using s by (auto simp: mx_held_def mx_free_def locked_to_def)
    then show ?thesis using ok s by (auto simp: mx_inv_def locked_to_def pc_ok_def)
  next
    case LockCount
    then have s: "pc = Outside" "m1 = m\<lparr>mx_recurse := mx_recurse m + 1\<rparr>" using st by auto
    have d: "0 < lk_depth (th t)" using ok t LockCount by (auto simp: pc_ok_def)
    then have "mx_held cnt t (m, th)" using w mx_holder [of cnt _ "(m, th)" t] by (auto simp: mx_free_def)
    then have "mx_held cnt t (m1, th(t := locked_to pc (th t)))"
      using s t d by (auto simp: mx_held_def locked_to_def of_nat_diff)
    then show ?thesis using ok s by (auto simp: mx_inv_def locked_to_def pc_ok_def)
  next
    case Outside
    have "mx_free cnt (m1, th(t := locked_to pc (th t))) \<or> (\<exists>h. mx_held cnt h (m1, th(t := locked_to pc (th t))))"
      using w mx_same [of m1 m "locked_to pc (th t)" th t] st Outside by (auto simp: locked_to_def split: if_splits)
    moreover have "\<forall>u. u \<noteq> 0 \<longrightarrow> pc_ok (mx_owner m1) u ((th(t := locked_to pc (th t))) u)"
      using ok st Outside t by (auto simp: locked_to_def pc_ok_def split: if_splits)
    ultimately show ?thesis by (simp add: mx_inv_def)
  next
    case LockOwner
    have "mx_free cnt (m1, th(t := locked_to pc (th t))) \<or> (\<exists>h. mx_held cnt h (m1, th(t := locked_to pc (th t))))"
      using w mx_same [of m1 m "locked_to pc (th t)" th t] st LockOwner by (auto simp: locked_to_def split: if_splits)
    moreover have "\<forall>u. u \<noteq> 0 \<longrightarrow> pc_ok (mx_owner m1) u ((th(t := locked_to pc (th t))) u)"
      using ok st LockOwner t by (auto simp: locked_to_def intro: pc_ok_owner) (simp add: pc_ok_def)
    ultimately show ?thesis by (simp add: mx_inv_def)
  qed (use st in auto)
qed

lemma mx_inv_unlocking:
  assumes laws: "sem_laws down up cnt" and inv: "mx_inv cnt (m, th)" and t: "t \<noteq> 0" "0 < lk_depth (th t)"
    and st: "mutex_unlock_stmt up (lk_pc (th t)) m = Some (pc, m1)"
  shows "mx_inv cnt (m1, th(t := unlocked_to pc (th t)))"
proof -
  have ok: "\<forall>u. u \<noteq> 0 \<longrightarrow> pc_ok (mx_owner m) u (th u)" using inv by (simp add: mx_inv_def)
  have h: "mx_held cnt t (m, th)" using inv t(2) mx_holder [of cnt _ "(m, th)" t] by (auto simp: mx_inv_def mx_free_def)
  have r: "sint (mx_recurse m) = int (lk_depth (th t) - 1)"
    using h sint_depth [of "lk_depth (th t) - 1"] by (auto simp: mx_held_def)
  show ?thesis
  proof (cases "lk_pc (th t)")
    case Outside
    have "mx_held cnt t (m1, th(t := unlocked_to pc (th t)))"
      using h mx_same [of m1 m "unlocked_to pc (th t)" th t] st Outside by (auto simp: unlocked_to_def split: if_splits)
    moreover have "\<forall>u. u \<noteq> 0 \<longrightarrow> pc_ok (mx_owner m1) u ((th(t := unlocked_to pc (th t))) u)"
      using ok st Outside t r by (auto simp: unlocked_to_def pc_ok_def split: if_splits)
    ultimately show ?thesis by (auto simp: mx_inv_def)
  next
    case UnlockCount
    have d: "1 < lk_depth (th t)" using ok t UnlockCount by (auto simp: pc_ok_def)
    have "mx_held cnt t (m1, th(t := unlocked_to pc (th t)))"
      using h st UnlockCount d by (auto simp: mx_held_def unlocked_to_def of_nat_diff)
    moreover have "\<forall>u. u \<noteq> 0 \<longrightarrow> pc_ok (mx_owner m1) u ((th(t := unlocked_to pc (th t))) u)"
      using ok st UnlockCount d by (auto simp: unlocked_to_def) (auto simp: pc_ok_def)
    ultimately show ?thesis by (auto simp: mx_inv_def)
  next
    case UnlockOwner
    have "mx_held cnt t (m1, th(t := unlocked_to pc (th t)))"
      using h st UnlockOwner by (auto simp: mx_held_def unlocked_to_def)
    moreover have "\<forall>u. u \<noteq> 0 \<longrightarrow> pc_ok (mx_owner m1) u ((th(t := unlocked_to pc (th t))) u)"
      using ok st UnlockOwner t by (auto simp: unlocked_to_def intro: pc_ok_owner) (auto simp: pc_ok_def)
    ultimately show ?thesis by (auto simp: mx_inv_def)
  next
    case UnlockUp
    have d: "lk_depth (th t) = 1" "mx_owner m \<noteq> t" using ok t UnlockUp by (auto simp: pc_ok_def)
    have "mx_free cnt (m1, th(t := unlocked_to pc (th t)))"
      using h st UnlockUp d sem_lawsD(3) [OF laws] by (auto simp: mx_held_def mx_free_def unlocked_to_def)
    moreover have "\<forall>u. u \<noteq> 0 \<longrightarrow> pc_ok (mx_owner m1) u ((th(t := unlocked_to pc (th t))) u)"
      using ok st UnlockUp d by (auto simp: unlocked_to_def) (auto simp: pc_ok_def)
    ultimately show ?thesis by (auto simp: mx_inv_def)
  qed (use st in auto)
qed

lemma mx_inv_step: "sem_laws down up cnt \<Longrightarrow> mx_step down up s s1 \<Longrightarrow> mx_inv cnt s \<Longrightarrow> mx_inv cnt s1"
  by (erule mx_stepE) (simp_all add: mx_inv_locking mx_inv_unlocking)

lemma mx_inv_steps: "mx_steps down up s s1 \<Longrightarrow> sem_laws down up cnt \<Longrightarrow> mx_inv cnt s \<Longrightarrow> mx_inv cnt s1"
  by (induction rule: rtranclp_induct) (auto intro: mx_inv_step)


section \<open>Properties\<close>

text \<open>C25. However threads interleave between two statements of zcrt_mutex_lock and zcrt_mutex_unlock, at most one of
  them holds the mutex; while it does, the semaphore is taken and the count of nested locks is right.\<close>

theorem mutex_exclusion:
  assumes "sem_laws down up cnt" "cnt sem1 = 1" "mx_steps down up (mx_init sem1) (m, th)" "0 < lk_depth (th t)"
  shows "(\<forall>u. 0 < lk_depth (th u) \<longrightarrow> u = t) \<and> cnt (mx_sem m) = 0 \<and> sint (mx_recurse m) = int (lk_depth (th t)) - 1"
proof -
  have "mx_inv cnt (m, th)" by (rule mx_inv_steps [OF assms(3,1) mx_inv_init [of cnt sem1, OF assms(2)]])
  then have "mx_held cnt t (m, th)" using assms(4) mx_holder [of cnt _ "(m, th)" t] by (auto simp: mx_inv_def mx_free_def)
  then show ?thesis using sint_depth [of "lk_depth (th t) - 1"] by (auto simp: mx_held_def)
qed

lemma locking_step:
  assumes "lk_pc (th t) = pc0" "mutex_lock_stmt down t pc0 m = Some (pc, m1)" "t \<noteq> 0" "lk_depth (th t) < 2 ^ 31 - 1"
  shows "mx_step down up (m, th) (m1, th(t := locked_to pc (th t)))"
  using assms by (auto intro: mx_step.locking)

text \<open>A whole call of zcrt_mutex_lock by a thread that nothing interrupts: waiting for the semaphore, or nested.\<close>

lemma lock_reaches_down:
  assumes "lk_pc (th t) = Outside" "mx_owner m \<noteq> t" "t \<noteq> 0" "lk_depth (th t) < 2 ^ 31 - 1"
  shows "mx_steps down up (m, th) (m\<lparr>mx_owner := t\<rparr>, th(t := \<lparr>lk_pc = LockDown, lk_depth = lk_depth (th t)\<rparr>))"
proof -
  let ?th1 = "th(t := locked_to LockOwner (th t))"
  have "mx_step down up (m, th) (m, ?th1)" by (rule locking_step [of th t Outside]) (use assms in simp_all)
  moreover have "mx_step down up (m, ?th1) (m\<lparr>mx_owner := t\<rparr>, ?th1(t := locked_to LockDown (?th1 t)))"
    by (rule locking_step [of ?th1 t LockOwner]) (use assms(3,4) in \<open>auto simp: locked_to_def\<close>)
  ultimately show ?thesis by (simp add: locked_to_def)
qed

lemma lock_free:
  assumes "lk_pc (th t) = Outside" "mx_owner m \<noteq> t" "t \<noteq> 0" "lk_depth (th t) < 2 ^ 31 - 1" "down (mx_sem m) = Some s"
  shows "mx_steps down up (m, th) (m\<lparr>mx_owner := t, mx_sem := s\<rparr>, th(t := \<lparr>lk_pc = Outside, lk_depth = lk_depth (th t) + 1\<rparr>))"
proof -
  let ?th1 = "th(t := \<lparr>lk_pc = LockDown, lk_depth = lk_depth (th t)\<rparr>)"
  have "mx_step down up (m\<lparr>mx_owner := t\<rparr>, ?th1) (m\<lparr>mx_owner := t, mx_sem := s\<rparr>, ?th1(t := locked_to Outside (?th1 t)))"
    by (rule locking_step [of ?th1 t LockDown]) (use assms(3-5) in auto)
  with lock_reaches_down [of th t m, OF assms(1-4), of down up] show ?thesis by (simp add: locked_to_def)
qed

lemma lock_nested:
  assumes "lk_pc (th t) = Outside" "mx_owner m = t" "t \<noteq> 0" "lk_depth (th t) < 2 ^ 31 - 1"
  shows "mx_steps down up (m, th)
    (m\<lparr>mx_recurse := mx_recurse m + 1\<rparr>, th(t := \<lparr>lk_pc = Outside, lk_depth = lk_depth (th t) + 1\<rparr>))"
proof -
  let ?th1 = "th(t := locked_to LockCount (th t))"
  have "mx_step down up (m, th) (m, ?th1)" by (rule locking_step [of th t Outside]) (use assms in simp_all)
  moreover have "mx_step down up (m, ?th1) (m\<lparr>mx_recurse := mx_recurse m + 1\<rparr>, ?th1(t := locked_to Outside (?th1 t)))"
    by (rule locking_step [of ?th1 t LockCount]) (use assms(3,4) in \<open>auto simp: locked_to_def\<close>)
  ultimately show ?thesis by (simp add: locked_to_def)
qed

theorem mutex_exclusion_witness:
  "\<exists>m th. mx_steps nat_down Suc (mx_init 1) (m, th) \<and> lk_depth (th 7) = 2 \<and> sint (mx_recurse m) = 1 \<and>
    (\<forall>u. 0 < lk_depth (th u) \<longrightarrow> u = 7)"
proof -
  let ?m = "\<lparr>mx_sem = (0::nat), mx_owner = 7, mx_recurse = 0\<rparr>"
  let ?th = "(\<lambda>_::u32. \<lparr>lk_pc = Outside, lk_depth = 0\<rparr>)(7 := \<lparr>lk_pc = Outside, lk_depth = 1\<rparr>)"
  let ?m1 = "?m\<lparr>mx_recurse := 1\<rparr>" and ?th1 = "?th(7 := \<lparr>lk_pc = Outside, lk_depth = Suc (Suc 0)\<rparr>)"
  have "mx_steps nat_down Suc (mx_init 1) (?m, ?th)"
    using lock_free [of "\<lambda>_. \<lparr>lk_pc = Outside, lk_depth = 0\<rparr>" 7 "kern_mutex_create 1" nat_down 0 Suc]
    by (simp add: mx_init_def kern_mutex_create_def nat_down_def)
  also have "mx_steps nat_down Suc (?m, ?th) (?m1, ?th1)"
    using lock_nested [of ?th 7 ?m nat_down Suc] by simp
  finally have s: "mx_steps nat_down Suc (mx_init 1) (?m1, ?th1)" .
  have d: "0 < lk_depth (?th1 7)" "lk_depth (?th1 7) = 2" by simp_all
  have e: "(\<forall>u. 0 < lk_depth (?th1 u) \<longrightarrow> u = 7) \<and> (\<lambda>n. n) (mx_sem ?m1) = 0 \<and>
      sint (mx_recurse ?m1) = int (lk_depth (?th1 7)) - 1"
    by (rule mutex_exclusion [OF nat_sem_laws refl s d(1)])
  have r: "sint (mx_recurse ?m1) = 1" by simp
  show ?thesis by (intro exI conjI) (rule s, rule d(2), rule r, rule conjunct1 [OF e])
qed

section \<open>A thread that waits for itself\<close>

lemma stuck_step:
  assumes laws: "sem_laws down up cnt" and st: "mx_step down up s s1"
    and inv: "mx_inv cnt s" and a: "lk_pc (snd s a) = LockDown" "0 < lk_depth (snd s a)"
  shows "snd s1 a = snd s a"
proof -
  have "mx_held cnt a s" using inv a(2) mx_holder [of cnt _ s a] by (auto simp: mx_inv_def mx_free_def)
  then have "down (mx_sem (fst s)) = None" using sem_lawsD(1) [OF laws] by (simp add: mx_held_def)
  then show ?thesis using st a(1) by (cases rule: mx_stepE) (auto simp: fun_upd_def)
qed

lemma stuck_forever:
  assumes "mx_steps down up s s1" "sem_laws down up cnt" "mx_inv cnt s" "lk_pc (snd s a) = LockDown" "0 < lk_depth (snd s a)"
  shows "snd s1 a = snd s a"
  using assms
proof (induction rule: rtranclp_induct)
  case (step s1 s2)
  have "mx_inv cnt s1" by (rule mx_inv_steps [OF step.hyps(1) step.prems(1,2)])
  then show ?case using stuck_step [OF step.prems(1) step.hyps(2)] step by simp
qed simp

text \<open>What a thread does of a call of zcrt_mutex_lock while no other thread runs: \<^verbatim>\<open>n\<close> statements.\<close>

fun lock_run :: "('s \<Rightarrow> 's option) \<Rightarrow> u32 \<Rightarrow> nat \<Rightarrow> mxpc \<Rightarrow> 's zcrtMutex \<Rightarrow> (mxpc \<times> 's zcrtMutex) option" where
  "lock_run down t 0 pc m = Some (pc, m)"
| "lock_run down t (Suc n) pc m = (case mutex_lock_stmt down t pc m of
     None \<Rightarrow> None
   | Some (pc1, m1) \<Rightarrow> lock_run down t n pc1 m1)"

text \<open>C26. While a thread holds the mutex and is known as its owner, it can lock once more, as the runtime's callbacks do:
  the call only counts and returns. A second thread that begins to lock meanwhile overwrites the owner before it waits.
  From then on the holder is not recognised: the same call of it, alone, goes on to wait for the semaphore it holds
  itself, and whatever any thread does afterwards, it waits there and no other thread ever gets the mutex.\<close>

theorem mutex_self_deadlock:
  assumes laws: "sem_laws down up cnt" "cnt sem1 = 1" and ab: "a \<noteq> 0" "b \<noteq> 0" "a \<noteq> b"
    and st: "mx_steps down up (mx_init sem1) (m, th)"
    and a: "lk_pc (th a) = Outside" "0 < lk_depth (th a)" "lk_depth (th a) < 2 ^ 31 - 1" "mx_owner m = a"
    and b: "lk_pc (th b) = Outside"
  shows "lock_run down a 2 Outside m = Some (Outside, m\<lparr>mx_recurse := mx_recurse m + 1\<rparr>) \<and>
    lock_run down b 2 Outside m = Some (LockDown, m\<lparr>mx_owner := b\<rparr>) \<and>
    lock_run down a 2 Outside (m\<lparr>mx_owner := b\<rparr>) = Some (LockDown, m) \<and>
    (\<exists>th1. th1 = th(b := (th b)\<lparr>lk_pc := LockDown\<rparr>, a := (th a)\<lparr>lk_pc := LockDown\<rparr>) \<and> mx_steps down up (m, th) (m, th1) \<and>
      (\<forall>s. mx_steps down up (m, th1) s \<longrightarrow> snd s a = th1 a \<and> (\<forall>u. u \<noteq> a \<longrightarrow> lk_depth (snd s u) = 0)))"
proof -
  let ?th1 = "th(b := (th b)\<lparr>lk_pc := LockDown\<rparr>)"
  let ?th2 = "?th1(a := (th a)\<lparr>lk_pc := LockDown\<rparr>)"
  have held: "mx_held cnt a (m, th)"
    using mx_inv_steps [OF st laws(1) mx_inv_init [of cnt sem1, OF laws(2)]] a(2) mx_holder [of cnt _ "(m, th)" a]
    by (auto simp: mx_inv_def mx_free_def)
  have d: "lk_depth (th b) = 0" using held ab(3) by (simp add: mx_held_def)
  have owner: "m\<lparr>mx_owner := a\<rparr> = m" using a(4) by (cases m) simp
  have pc: "l\<lparr>lk_pc := LockDown\<rparr> = \<lparr>lk_pc = LockDown, lk_depth = lk_depth l\<rparr>" for l :: locker by simp
  have r1: "mx_steps down up (m, th) (m\<lparr>mx_owner := b\<rparr>, ?th1)"
    using lock_reaches_down [of th b m down up] ab a(4) b d unfolding pc by simp
  have "mx_steps down up (m\<lparr>mx_owner := b\<rparr>, ?th1) (m\<lparr>mx_owner := b, mx_owner := a\<rparr>, ?th2)"
    using lock_reaches_down [of ?th1 a "m\<lparr>mx_owner := b\<rparr>" down up] ab a unfolding pc [of "th a"] by simp
  then have r2: "mx_steps down up (m\<lparr>mx_owner := b\<rparr>, ?th1) (m, ?th2)" using owner by simp
  note r = rtranclp_trans [OF r1 r2]
  have inv: "mx_inv cnt (m, ?th2)"
    by (rule mx_inv_steps [OF rtranclp_trans [OF st r] laws(1) mx_inv_init [of cnt sem1, OF laws(2)]])
  have "snd s a = ?th2 a \<and> (\<forall>u. u \<noteq> a \<longrightarrow> lk_depth (snd s u) = 0)" if s: "mx_steps down up (m, ?th2) s" for s
  proof -
    have e: "snd s a = ?th2 a" using stuck_forever [OF s laws(1) inv, of a] a(2) by simp
    have "mx_inv cnt s" by (rule mx_inv_steps [OF s laws(1) inv])
    moreover have "\<not> mx_free cnt s" using e a(2) by (auto simp: mx_free_def intro!: exI [of _ a])
    ultimately have "mx_held cnt a s" using e a(2) mx_holder [of cnt _ s a] by (auto simp: mx_inv_def)
    then show ?thesis using e by (simp add: mx_held_def)
  qed
  with r have "\<exists>th1. th1 = ?th2 \<and> mx_steps down up (m, th) (m, th1) \<and>
      (\<forall>s. mx_steps down up (m, th1) s \<longrightarrow> snd s a = th1 a \<and> (\<forall>u. u \<noteq> a \<longrightarrow> lk_depth (snd s u) = 0))" by blast
  then show ?thesis using owner a(4) ab(3) by (simp add: eval_nat_numeral)
qed

text \<open>Thread 7 has the mutex and thread 9 begins to lock.\<close>

theorem mutex_self_deadlock_witness:
  "\<exists>m th. mx_steps nat_down Suc (mx_init 1) (m, th) \<and> lk_depth (th 7) = 1 \<and>
    lock_run nat_down 7 2 Outside m = Some (Outside, m\<lparr>mx_recurse := 1\<rparr>) \<and>
    lock_run nat_down 7 2 Outside (m\<lparr>mx_owner := 9\<rparr>) = Some (LockDown, m) \<and>
    (\<exists>th1. th1 7 = \<lparr>lk_pc = LockDown, lk_depth = 1\<rparr> \<and> mx_steps nat_down Suc (m, th) (m, th1) \<and>
      (\<forall>s. mx_steps nat_down Suc (m, th1) s \<longrightarrow> snd s 7 = th1 7 \<and> (\<forall>u. u \<noteq> 7 \<longrightarrow> lk_depth (snd s u) = 0)))"
proof -
  let ?m = "\<lparr>mx_sem = (0::nat), mx_owner = 7, mx_recurse = 0\<rparr>"
  let ?th = "(\<lambda>_::u32. \<lparr>lk_pc = Outside, lk_depth = 0\<rparr>)(7 := \<lparr>lk_pc = Outside, lk_depth = 1\<rparr>)"
  have s: "mx_steps nat_down Suc (mx_init 1) (?m, ?th)"
    using lock_free [of "\<lambda>_. \<lparr>lk_pc = Outside, lk_depth = 0\<rparr>" 7 "kern_mutex_create 1" nat_down 0 Suc]
    by (simp add: mx_init_def kern_mutex_create_def nat_down_def)
  note d = mutex_self_deadlock [OF nat_sem_laws _ _ _ _ s, of 7 9]
  let ?th1 = "?th(9 := \<lparr>lk_pc = LockDown, lk_depth = 0\<rparr>, 7 := \<lparr>lk_pc = LockDown, lk_depth = 1\<rparr>)"
  have "?th1 7 = \<lparr>lk_pc = LockDown, lk_depth = 1\<rparr> \<and> mx_steps nat_down Suc (?m, ?th) (?m, ?th1) \<and>
      (\<forall>s. mx_steps nat_down Suc (?m, ?th1) s \<longrightarrow> snd s 7 = ?th1 7 \<and> (\<forall>u. u \<noteq> 7 \<longrightarrow> lk_depth (snd s u) = 0))"
    using d by (simp del: lock_run.simps)
  moreover have "lock_run nat_down 7 2 Outside ?m = Some (Outside, ?m\<lparr>mx_recurse := 1\<rparr>) \<and>
      lock_run nat_down 7 2 Outside (?m\<lparr>mx_owner := 9\<rparr>) = Some (LockDown, ?m)" using d by (simp del: lock_run.simps)
  moreover have "lk_depth (?th 7) = 1" by simp
  ultimately show ?thesis using s by blast
qed

text \<open>zcrt_mutex_trylock does not store the owner: a thread that got the mutex from it and locks again waits for
  itself at once.\<close>

lemma trylock_then_lock_waits:
  assumes "sem_laws down up cnt" "cnt (mx_sem m) = 1" "mx_owner m \<noteq> t"
  shows "\<exists>m1. kern_mutex_trylock down m = (EZCRTErr_success, m1) \<and> mutex_lock_stmt down t Outside m1 = Some (LockOwner, m1) \<and>
    mutex_lock_stmt down t LockOwner m1 = Some (LockDown, m1\<lparr>mx_owner := t\<rparr>) \<and>
    mutex_lock_stmt down t LockDown (m1\<lparr>mx_owner := t\<rparr>) = None"
proof -
  obtain s where s: "down (mx_sem m) = Some s" using sem_lawsD(1) [OF assms(1)] assms(2) by (cases "down (mx_sem m)") auto
  then have "down s = None" using sem_lawsD(1,2) [OF assms(1)] assms(2) by fastforce
  then show ?thesis using s assms(3) by (simp add: kern_mutex_trylock_def)
qed

text \<open>Only an interrupted wait counts as a timeout; one whose time is over is answered with success.\<close>

lemma sem_take_timeout_succeeds:
  "os p = Some sem \<Longrightarrow> down_timeout n sem = (- ETIME, sem) \<Longrightarrow> kern_sem_take down_timeout p n os = Inr (EZCRTErr_success, os(p \<mapsto> sem))"
  by (simp add: kern_sem_take_def EINTR_def ETIME_def)

end
