(* ===== verification/Zipc_Server_Kernal.thy ===== *)
theory Zipc_Server_Kernal
  imports Zipc_Server Zcrt_Os_Kernal
begin

text \<open>
  The server of the kernel port, \<^verbatim>\<open>zipc/zipc_server_kernal.c\<close>: one netlink datagram is one
  message; it is checked, copied into a buffer of the pool and queued as a job. A client is the process id it sends
  from. The datagram is an argument, and what is given to \<^verbatim>\<open>netlink_unicast\<close> is recorded with its
  process id. The world is that of the socket server; it has no clients here.
\<close>

section \<open>State\<close>

text \<open>
  A datagram: the length of the socket buffer, the length and the process id that the sender wrote into its netlink
  header, and the bytes there are from \<^verbatim>\<open>NLMSG_DATA\<close> on. The kernel's header sizes
  \<^verbatim>\<open>NLMSG_LENGTH(0)\<close> and \<^verbatim>\<open>NLMSG_SPACE(ZIPC_HEAD_LEN)\<close> are arguments.
\<close>

record zNlMsg =
  nl_skb_len :: u32
  nl_msg_len :: u32
  nl_msg_pid :: u32
  nl_data :: "u8 list"

text \<open>The variables \<^verbatim>\<open>s_kipc\<close>, 0 without a server, and \<^verbatim>\<open>s_pid\<close>.\<close>

record 'w zNlWorld =
  nw_kipc :: ptr
  nw_pid :: u32
  nw_ipc :: "'w zIpcWorld"

definition zipc_netlink_send_fn :: ptr where "zipc_netlink_send_fn = 4"
definition nl_hookevent_cb_fn :: ptr where "nl_hookevent_cb_fn = 5"
definition nl_msg_proc_job_fn :: ptr where "nl_msg_proc_job_fn = 6"

section \<open>Receiving\<close>

text \<open>The ten bytes are copied before anything is tested; the last comparison is made in 32 unsigned bits.\<close>

definition nl_client_recv_hdr :: "u8 list \<Rightarrow> s32 \<Rightarrow> zIPCMsgHdr option res" where
  "nl_client_recv_hdr data datalen =
     rbind (load_n (Some data, 0) (unat ZIPC_HEAD_LEN)) (\<lambda>bytes.
     rbind (deref (hdr_of_bytes bytes)) (\<lambda>hdr.
       if \<not> zipc_parse_check_hdr hdr then Inr None
       else let hdr1 = hdr\<lparr>mh_appType := htons (mh_appType hdr), mh_payloadSize := htonl (mh_payloadSize hdr)\<rparr> in
         if mh_payloadSize hdr1 \<ge> ZIPC_BUF_LEN then Inr None
         else Inr (if datalen \<ge> mh_payloadSize hdr1 + ZIPC_HEAD_LEN then Some hdr1 else None)))"

definition nl_sendjob_argn :: "zAlloc \<Rightarrow> addr option \<Rightarrow> ptr \<Rightarrow> ptr list \<Rightarrow> 'w zIpcWorld \<Rightarrow> (EZCRTErr \<times> 'w zIpcWorld) res" where
  "nl_sendjob_argn al h fn args w =
     rbind (zcrt_schedule_sendjob_argn (al_job al) h (Some fn) (of_nat (length args)) args (zw_sch w)) (\<lambda>(e, sch).
       Inr (e, w\<lparr>zw_sch := sch\<rparr>))"

text \<open>A datagram that is refused leaves the buffer out of the pool.\<close>

definition nl_data_recv ::
  "realloc_fn \<Rightarrow> zAlloc \<Rightarrow> u32 \<Rightarrow> u32 \<Rightarrow> zNlMsg \<Rightarrow> 'w zNlWorld \<Rightarrow> 'w zNlWorld res" where
  "nl_data_recv ra al hdrlen space skb nw =
     rbind (if nw_kipc nw = 0 then Inr (None, nw_ipc nw) else pool_malloc al (nw_ipc nw)) (\<lambda>(buf, w). (case buf of
       None \<Rightarrow> Inr (nw\<lparr>nw_ipc := w\<rparr>)
     | Some a \<Rightarrow>
         if nl_skb_len skb < space \<or> nw_kipc nw = 0 then Inr (nw\<lparr>nw_ipc := w\<rparr>)
         else let nw1 = nw\<lparr>nw_ipc := w, nw_pid := nl_msg_pid skb\<rparr> in
           rbind (nl_client_recv_hdr (nl_data skb) (nl_msg_len skb - hdrlen)) (\<lambda>h. (case h of
             None \<Rightarrow> Inr nw1
           | Some hdr \<Rightarrow>
               rbind (deref (zw_buf w a)) (\<lambda>b.
               rbind (zcrt_buf_append ra (Some (b\<lparr>zb_len := 0, zb_offset := 0\<rparr>)) (Some (nl_data skb), unat ZIPC_HEAD_LEN)
                        (mh_payloadSize hdr)) (\<lambda>(_, b1).
               rbind (nl_sendjob_argn al (im_sch (zw_ipc w)) nl_msg_proc_job_fn
                        [nw_kipc nw, a, unat (mh_appType hdr), unat (nl_msg_pid skb)] (put_buf a b1 w)) (\<lambda>(e, w1).
               rbind (if e \<noteq> EZCRTErr_success then pool_free (Some a) w1 else Inr w1) (\<lambda>w2.
                 Inr (nw1\<lparr>nw_ipc := w2\<rparr>)))))))))"

section \<open>Jobs\<close>

text \<open>
  \<^verbatim>\<open>ok\<close>: \<^verbatim>\<open>nlmsg_new\<close> gave a socket buffer; without one the message is dropped. A process cannot
  receive 64000 bytes or more, which is asserted. A failed assertion is a fault here, as in the other theories: user
  programs abort; the kernel's \<^verbatim>\<open>ZCRT_ASSERT\<close> prints a line and the code goes on beyond what it says it supports.
\<close>

definition zipc_netlink_send :: "bool \<Rightarrow> addr \<Rightarrow> u32 \<Rightarrow> 'w zIpcWorld \<Rightarrow> 'w zIpcWorld res" where
  "zipc_netlink_send ok a pid w =
     rbind (deref (zw_buf w a)) (\<lambda>buf.
       if \<not> ok then pool_free (Some a) w
       else rbind (zassert (zb_len buf < 64000)) (\<lambda>_.
         rbind (load_n (zb_buf buf, 0) (unat (zb_len buf))) (\<lambda>bytes.
         pool_free (Some a) (w\<lparr>zw_sent := zw_sent w @ [(unat pid, bytes)]\<rparr>))))"

text \<open>An empty reply's buffer is not given back.\<close>

definition nl_msg_proc_job ::
  "'w ipc_call \<Rightarrow> realloc_fn \<Rightarrow> zAlloc \<Rightarrow> ptr \<Rightarrow> addr \<Rightarrow> u16 \<Rightarrow> u32 \<Rightarrow> 'w zIpcWorld \<Rightarrow> 'w zIpcWorld res" where
  "nl_msg_proc_job run_call ra al ipcp ia appType pid w =
     rbind (pool_malloc al w) (\<lambda>(obuf, w1). (case obuf of
       None \<Rightarrow> pool_free (Some ia) w1
     | Some oa \<Rightarrow>
         rbind (if appType = zeipc_code ZEIPC_TYPE_LINK then
             rbind (zipc_parse_app_link (al_sub al) ra (Some (zw_ipc w1)) (zw_evt w1) (zw_buf w1 ia) (zw_buf w1 oa)
                      (Some nl_hookevent_cb_fn) ipcp (unat pid)) (\<lambda>(_, ib, ob, mng).
               Inr (put_buf oa ob (put_buf ia ib (w1\<lparr>zw_evt := mng\<rparr>))))
           else
             rbind (zipc_parse_payload run_call ra (Some (zw_ipc w1)) appType (zw_buf w1 ia) (zw_buf w1 oa)
                      (zw_comp w1, zw_ext w1)) (\<lambda>(_, ib, ob, comp1, ext).
               Inr (put_buf oa ob (put_buf ia ib (w1\<lparr>zw_comp := comp1, zw_ext := ext\<rparr>))))) (\<lambda>w2.
         rbind (deref (zw_buf w2 oa)) (\<lambda>ob.
         rbind (if zb_len ob \<noteq> 0 then
             rbind (set_payload_size (Some ob)) (\<lambda>ob1. let w3 = put_buf oa ob1 w2 in
             rbind (nl_sendjob_argn al (im_respondSch (zw_ipc w3)) zipc_netlink_send_fn [ipcp, oa, unat pid] w3) (\<lambda>(e, w4).
               if e \<noteq> EZCRTErr_success then pool_free (Some oa) w4 else Inr w4))
           else Inr w2) (\<lambda>w5.
         pool_free (Some ia) w5)))))"

section \<open>The header\<close>

text \<open>Both servers accept the same headers; this one compares the announced payload with the datagram as well.\<close>

lemma hdr_of_ten: "length xs = 10 \<Longrightarrow> \<exists>h. hdr_of_bytes xs = Some h"
  by (cases xs rule: hdr_of_bytes.cases) auto

lemma nl_hdr_eq:
  assumes "10 \<le> length data"
  shows "nl_client_recv_hdr data datalen = Inr (case zipc_client_recv_hdr (Some (take 10 data)) of
     None \<Rightarrow> None
   | Some hdr \<Rightarrow> if mh_payloadSize hdr + ZIPC_HEAD_LEN \<le> datalen then Some hdr else None)"
proof -
  obtain h where h: "hdr_of_bytes (take 10 data) = Some h"
    using hdr_of_ten [of "take 10 data"] assms by auto
  have l: "load_n (Some data, 0) (unat ZIPC_HEAD_LEN) = Inr (take 10 data)"
    using assms by (simp add: load_n_def ZIPC_HEAD_LEN_def)
  have "of_nat (length (take 10 data)) = ZIPC_HEAD_LEN" using assms by (simp add: ZIPC_HEAD_LEN_def min_def)
  then show ?thesis
    using h l by (auto simp: nl_client_recv_hdr_def zipc_client_recv_hdr_def Let_def)
qed

lemma recv_hdr_small: "zipc_client_recv_hdr rx = Some hdr \<Longrightarrow> unat (mh_payloadSize hdr) < 8192"
  by (auto simp: zipc_client_recv_hdr_def Let_def not_le ZIPC_BUF_LEN_def word_less_nat_alt split: option.splits if_splits)

text \<open>The test is exact when the sender's length is true, and void when it is below the header's: then it wraps.\<close>

lemma payload_fits_iff:
  assumes "zipc_client_recv_hdr rx = Some hdr" "unat datalen = n"
  shows "mh_payloadSize hdr + ZIPC_HEAD_LEN \<le> datalen \<longleftrightarrow> unat (mh_payloadSize hdr) + 10 \<le> n"
  using recv_hdr_small [OF assms(1)] assms(2)
  by (simp add: word_le_nat_alt ZIPC_HEAD_LEN_def unat_word_ariths)

lemma payload_wraps:
  assumes "zipc_client_recv_hdr rx = Some hdr" "msglen < hdrlen" "unat hdrlen < 2 ^ 16"
  shows "mh_payloadSize hdr + ZIPC_HEAD_LEN \<le> msglen - (hdrlen :: u32)"
proof -
  have lt: "unat msglen < unat hdrlen" using assms(2) by (simp add: word_less_nat_alt)
  have "unat (msglen - hdrlen) = 2 ^ 32 + unat msglen - unat hdrlen"
    using lt by (subst unat_sub_if') (simp add: not_le)
  then have "unat (mh_payloadSize hdr) + 10 \<le> unat (msglen - hdrlen)"
    using recv_hdr_small [OF assms(1)] lt assms(3) by simp
  then show ?thesis using payload_fits_iff [OF assms(1) refl, of "msglen - hdrlen"] by simp
qed

lemma append_overread:
  assumes wf: "buf_wf b" and ra: "realloc_total ra" and n: "n \<noteq> 0" "unat (zb_len b) + unat n + 1 < 2 ^ 31"
    and out: "length data < i + unat n"
  shows "zcrt_buf_append ra (Some b) (Some data, i) n = Inl OutOfBounds"
proof -
  have "unat (zb_len b + n) + 1 < 2 ^ 31" using n(2) by (simp add: wsimps)
  then obtain b1 where "zcrt_buf_realloc ra (Some b) (zb_len b + n) = Inr (zb_len b + n, Some b1)"
    using realloc_grow [OF wf ra] by blast
  then show ?thesis using n(1) out by (simp add: zcrt_buf_append_def load_n_def unat_eq_0)
qed

section \<open>Receiving a datagram\<close>

text \<open>The pool can give a buffer, and the schedule of the server's jobs has room for another.\<close>

definition can_recv :: "zAlloc \<Rightarrow> 'w zIpcWorld \<Rightarrow> addr list \<Rightarrow> addr \<Rightarrow> addr list \<Rightarrow> addr list list \<Rightarrow> addr \<Rightarrow> nat \<Rightarrow> bool" where
  "can_recv al w as t fs qs s k \<longleftrightarrow> pool_wf (zw_ipc w) (zw_buf w) as \<and>
     can_buf (al_buf al) (al_bytes al) (zw_buf w) as \<and> sch_wf t (zw_sch w) fs qs \<and> can_new t (zw_sch w) (al_job al) \<and>
     im_sch (zw_ipc w) = Some s \<and> k < EZCRTSchPri_num \<and>
     (\<exists>sc. sx_sch (zw_sch w) s = Some sc \<and> sc_thr sc = Some t \<and> unat (sc_pri sc) = k \<and>
        held s (queues (zw_sch w) qs ! k) < unat (sc_maxsize sc))"

lemma same_ipc: "(\<And>q. ipc\<lparr>im_freebuf := q\<rparr> = ipc0\<lparr>im_freebuf := q\<rparr>) \<Longrightarrow> im_sch ipc = im_sch ipc0"
proof -
  assume a: "\<And>q. ipc\<lparr>im_freebuf := q\<rparr> = ipc0\<lparr>im_freebuf := q\<rparr>"
  have "im_sch ipc = im_sch (ipc\<lparr>im_freebuf := None\<rparr>)" by simp
  also have "\<dots> = im_sch ipc0" by (simp only: a) simp
  finally show ?thesis .
qed

text \<open>What receiving a complete datagram does.\<close>

lemma nl_recv_job:
  assumes ra: "realloc_total ra" and r: "can_recv al (nw_ipc nw) as t fs qs s k" and live: "nw_kipc nw \<noteq> 0"
    and skb: "space \<le> nl_skb_len skb" "unat (nl_msg_len skb - hdrlen) = length (nl_data skb)"
    and h: "zipc_client_recv_hdr (Some (take 10 (nl_data skb))) = Some hdr"
    and fits: "10 + unat (mh_payloadSize hdr) \<le> length (nl_data skb)"
  obtains w' a j b as1 where "nl_data_recv ra al hdrlen space skb nw = Inr (nw\<lparr>nw_pid := nl_msg_pid skb, nw_ipc := w'\<rparr>)"
    "zcrt_schedule_sendjob_argn (al_job al) (Some s) (Some nl_msg_proc_job_fn) 4
      [nw_kipc nw, a, unat (mh_appType hdr), unat (nl_msg_pid skb)] (zw_sch (nw_ipc nw)) = Inr (EZCRTErr_success, zw_sch w')"
    "queues (zw_sch w') (qs[k := qs ! k @ [j]]) = (queues (zw_sch (nw_ipc nw)) qs)[k := queues (zw_sch (nw_ipc nw)) qs ! k @
      [the_job s nl_msg_proc_job_fn 4 [nw_kipc nw, a, unat (mh_appType hdr), unat (nl_msg_pid skb)]]]"
    "sch_wf t (zw_sch w') (tl fs) (qs[k := qs ! k @ [j]])"
    "zw_buf w' a = Some b" "buf_wf b" "unread b = take (unat (mh_payloadSize hdr)) (drop 10 (nl_data skb))"
    "unat (zb_len b) = unat (mh_payloadSize hdr)" "pool_wf (zw_ipc w') (zw_buf w') as1" "a \<notin> set as1" "set as1 \<subseteq> set as"
    "a \<in> set as \<or> zw_buf (nw_ipc nw) a = None" "\<And>x. x \<noteq> a \<Longrightarrow> zw_buf w' x = zw_buf (nw_ipc nw) x"
    "\<And>q. (zw_ipc w')\<lparr>im_freebuf := q\<rparr> = (zw_ipc (nw_ipc nw))\<lparr>im_freebuf := q\<rparr>"
    "zw_comp w' = zw_comp (nw_ipc nw)" "zw_ext w' = zw_ext (nw_ipc nw)" "zw_sent w' = zw_sent (nw_ipc nw)"
    "as = a # as1 \<or> as = [] \<and> as1 = [] \<and> al_buf al = Some a"
proof -
  let ?w = "nw_ipc nw" and ?n = "mh_payloadSize hdr" and ?data = "nl_data skb"
  obtain sc where p: "pool_wf (zw_ipc ?w) (zw_buf ?w) as" "can_buf (al_buf al) (al_bytes al) (zw_buf ?w) as"
    "sch_wf t (zw_sch ?w) fs qs" "can_new t (zw_sch ?w) (al_job al)" "im_sch (zw_ipc ?w) = Some s" "k < EZCRTSchPri_num"
    "sx_sch (zw_sch ?w) s = Some sc" "sc_thr sc = Some t" "unat (sc_pri sc) = k" "held s (queues (zw_sch ?w) qs ! k) < unat (sc_maxsize sc)"
    using r by (auto simp: can_recv_def)
  obtain a as1 b ipc hp where m: "pool_malloc al ?w = Inr (Some a, ?w\<lparr>zw_ipc := ipc, zw_buf := hp\<rparr>)" "pool_wf ipc hp as1" "a \<notin> set as1"
    "hp a = Some b" "buf_wf b" "zb_len b = 0" "set as1 \<subseteq> set as" "a \<in> set as \<or> zw_buf ?w a = None" "\<And>x. x \<noteq> a \<Longrightarrow> hp x = zw_buf ?w x" "\<And>q. ipc\<lparr>im_freebuf := q\<rparr> = (zw_ipc ?w)\<lparr>im_freebuf := q\<rparr>"
    "as = a # as1 \<or> as = [] \<and> as1 = [] \<and> al_buf al = Some a"
    by (rule pool_malloc_spec [OF p(1,2)]) (rule that)
  have sch: "im_sch ipc = Some s" using same_ipc [OF m(10)] p(5) by simp
  have hd: "nl_client_recv_hdr ?data (nl_msg_len skb - hdrlen) = Inr (Some hdr)"
    using nl_hdr_eq [of ?data] h fits payload_fits_iff [OF h skb(2)] by simp
  let ?b = "b\<lparr>zb_len := 0, zb_offset := 0\<rparr>"
  have wf: "buf_wf ?b" using m(5) by (simp add: buf_wf_def)
  have load: "load_n (Some ?data, 10) (unat ?n) = Inr (take (unat ?n) (drop 10 ?data))"
    using fits by (simp add: load_n_def)
  have "unat (zb_len ?b) + unat ?n + 1 < 2 ^ 31" using recv_hdr_small [OF h] by simp
  then obtain b1 where b1: "zcrt_buf_append ra (Some ?b) (Some ?data, 10) ?n = Inr (?n, Some b1)" "buf_wf b1"
    "contents b1 = contents ?b @ take (unat ?n) (drop 10 ?data)" "zb_offset b1 = zb_offset ?b"
    using append_spec [OF wf ra load] by metis
  have u: "unread b1 = take (unat ?n) (drop 10 ?data)" using b1(3,4) by (simp add: unread_def contents_def)
  let ?w1 = "?w\<lparr>zw_ipc := ipc, zw_buf := hp\<rparr>"
  let ?args = "[nw_kipc nw, a, unat (mh_appType hdr), unat (nl_msg_pid skb)]"
  have ar: "(4 :: u32) \<noteq> 0" "unat (4 :: u32) \<le> ZCRT_CB_MAX_ARGS" "length ?args = unat (4 :: u32)"
    by (simp_all add: ZCRT_CB_MAX_ARGS_def)
  obtain j sch' where j: "zcrt_schedule_sendjob_argn (al_job al) (Some s) (Some nl_msg_proc_job_fn) 4 ?args (zw_sch ?w) =
      Inr (EZCRTErr_success, sch')" "sch_wf t sch' (tl fs) (qs[k := qs ! k @ [j]])"
    "queues sch' (qs[k := qs ! k @ [j]]) = (queues (zw_sch ?w) qs)[k := queues (zw_sch ?w) qs ! k @ [the_job s nl_msg_proc_job_fn 4 ?args]]"
    using sendjob_argn_ok [OF p(3,4,7,8,9,6,10) ar] by metis
  let ?w2 = "(put_buf a (Some b1) ?w1)\<lparr>zw_sch := sch'\<rparr>"
  have "nl_data_recv ra al hdrlen space skb nw = Inr (nw\<lparr>nw_pid := nl_msg_pid skb, nw_ipc := ?w2\<rparr>)"
    using live skb(1) hd m(1,4) b1(1) j(1) sch
    by (simp add: nl_data_recv_def nl_sendjob_argn_def put_buf_def ZIPC_HEAD_LEN_def not_less)
  moreover have "pool_wf (zw_ipc ?w2) (zw_buf ?w2) as1" using m(2,3) by (auto simp: pool_wf_def put_buf_def chain_upd)
  moreover have "unat (zb_len b1) = unat ?n"
  proof -
    have "contents ?b = []" by (simp add: contents_def)
    then show ?thesis using arg_cong [OF b1(3), of length] length_contents [OF b1(2)] fits by simp
  qed
  ultimately show ?thesis using j b1(2) u m(3,7-11)
    by (intro that [of ?w2 a j b1 as1]) (auto simp: put_buf_def)
qed

text \<open>A datagram whose netlink header tells its true length and whose message is complete is queued as exactly
  one job, behind the others, with the type of the message and the process id of the sender, on a buffer that holds
  the payload and nothing else and has left the pool.\<close>

theorem nl_recv_queued:
  assumes ra: "realloc_total ra" and r: "can_recv al (nw_ipc nw) as t fs qs s k" and live: "nw_kipc nw \<noteq> 0"
    and skb: "space \<le> nl_skb_len skb" "unat (nl_msg_len skb - hdrlen) = length (nl_data skb)"
    and h: "zipc_client_recv_hdr (Some (take 10 (nl_data skb))) = Some hdr"
    and fits: "10 + unat (mh_payloadSize hdr) \<le> length (nl_data skb)"
  shows "\<exists>w' a j b as1. nl_data_recv ra al hdrlen space skb nw = Inr (nw\<lparr>nw_pid := nl_msg_pid skb, nw_ipc := w'\<rparr>) \<and>
    queues (zw_sch w') (qs[k := qs ! k @ [j]]) = (queues (zw_sch (nw_ipc nw)) qs)[k := queues (zw_sch (nw_ipc nw)) qs ! k @
      [the_job s nl_msg_proc_job_fn 4 [nw_kipc nw, a, unat (mh_appType hdr), unat (nl_msg_pid skb)]]] \<and>
    sch_wf t (zw_sch w') (tl fs) (qs[k := qs ! k @ [j]]) \<and>
    zw_buf w' a = Some b \<and> buf_wf b \<and> unread b = take (unat (mh_payloadSize hdr)) (drop 10 (nl_data skb)) \<and>
    pool_wf (zw_ipc w') (zw_buf w') as1 \<and> a \<notin> set as1 \<and> set as1 \<subseteq> set as"
  by (rule nl_recv_job [OF assms]) blast

text \<open>A datagram that is too short, has a wrong header, announces too much or is not complete queues nothing,
  but the buffer taken for it is not given back: every such datagram takes one buffer out of the pool for good.\<close>

theorem nl_recv_refused_leaks:
  assumes live: "nw_kipc nw \<noteq> 0" and pool: "pool_wf (zw_ipc (nw_ipc nw)) (zw_buf (nw_ipc nw)) (a # as)"
    and len: "10 \<le> length (nl_data skb)" "unat (nl_msg_len skb - hdrlen) = length (nl_data skb)"
    and bad: "nl_skb_len skb < space \<or> (case zipc_client_recv_hdr (Some (take 10 (nl_data skb))) of
      None \<Rightarrow> True | Some hdr \<Rightarrow> length (nl_data skb) < 10 + unat (mh_payloadSize hdr))"
  shows "\<exists>nw'. nl_data_recv ra al hdrlen space skb nw = Inr nw' \<and> zw_sch (nw_ipc nw') = zw_sch (nw_ipc nw) \<and>
    a \<notin> set as \<and> pool_wf (zw_ipc (nw_ipc nw')) (zw_buf (nw_ipc nw')) as"
proof -
  let ?w = "nw_ipc nw"
  obtain b q where m: "pool_malloc al ?w = Inr (Some a, ?w\<lparr>zw_ipc := (zw_ipc ?w)\<lparr>im_freebuf := q\<rparr>, zw_buf := (zw_buf ?w)(a \<mapsto> b)\<rparr>)"
    and p: "pool_wf ((zw_ipc ?w)\<lparr>im_freebuf := q\<rparr>) ((zw_buf ?w)(a \<mapsto> b)) as" and a: "a \<notin> set as"
    by (rule pool_first [OF pool])
  let ?w1 = "?w\<lparr>zw_ipc := (zw_ipc ?w)\<lparr>im_freebuf := q\<rparr>, zw_buf := (zw_buf ?w)(a \<mapsto> b)\<rparr>"
  show ?thesis
  proof (cases "nl_skb_len skb < space")
    case True
    then have "nl_data_recv ra al hdrlen space skb nw = Inr (nw\<lparr>nw_ipc := ?w1\<rparr>)"
      using live m by (simp add: nl_data_recv_def)
    then show ?thesis using a p by auto
  next
    case False
    have "nl_client_recv_hdr (nl_data skb) (nl_msg_len skb - hdrlen) = Inr None"
      using nl_hdr_eq [OF len(1)] bad False payload_fits_iff [OF _ len(2)] by (auto split: option.splits)
    then have "nl_data_recv ra al hdrlen space skb nw = Inr (nw\<lparr>nw_ipc := ?w1, nw_pid := nl_msg_pid skb\<rparr>)"
      using live m False by (simp add: nl_data_recv_def)
    then show ?thesis using a p by auto
  qed
qed

text \<open>C28. The length in the netlink header is the sender's word for it. One below the size of that header wraps
  around, passes the test for a complete message, and the announced payload is copied from behind the end of the
  datagram.\<close>

theorem nl_recv_overread:
  assumes ra: "realloc_total ra" and r: "can_recv al (nw_ipc nw) as t fs qs s k" and live: "nw_kipc nw \<noteq> 0"
    and skb: "space \<le> nl_skb_len skb" "nl_msg_len skb < hdrlen" "unat hdrlen < 2 ^ 16"
    and h: "zipc_client_recv_hdr (Some (take 10 (nl_data skb))) = Some hdr"
    and len: "10 \<le> length (nl_data skb)" "length (nl_data skb) < 10 + unat (mh_payloadSize hdr)"
  shows "nl_data_recv ra al hdrlen space skb nw = Inl OutOfBounds"
proof -
  let ?w = "nw_ipc nw" and ?n = "mh_payloadSize hdr" and ?data = "nl_data skb"
  have p: "pool_wf (zw_ipc ?w) (zw_buf ?w) as" "can_buf (al_buf al) (al_bytes al) (zw_buf ?w) as"
    using r by (auto simp: can_recv_def)
  obtain a b ipc hp where m: "pool_malloc al ?w = Inr (Some a, ?w\<lparr>zw_ipc := ipc, zw_buf := hp\<rparr>)" "hp a = Some b" "buf_wf b"
    by (rule pool_malloc_spec [OF p]) (rule that)
  have hd: "nl_client_recv_hdr ?data (nl_msg_len skb - hdrlen) = Inr (Some hdr)"
    using nl_hdr_eq [OF len(1)] h payload_wraps [OF h skb(2,3)] by simp
  let ?b = "b\<lparr>zb_len := 0, zb_offset := 0\<rparr>"
  have "buf_wf ?b" using m(3) by (simp add: buf_wf_def)
  moreover have "?n \<noteq> 0" using len by auto
  ultimately have "zcrt_buf_append ra (Some ?b) (Some ?data, 10) ?n = Inl OutOfBounds"
    using recv_hdr_small [OF h] len(2) by (intro append_overread [OF _ ra]) simp_all
  then show ?thesis using live skb(1) hd m(1,2) by (simp add: nl_data_recv_def ZIPC_HEAD_LEN_def not_less)
qed


section \<open>Examples\<close>

text \<open>A server with one free buffer whose jobs go to the schedule 22 of the sample, and a datagram with the two bytes
  5 and 6; 16 and 28 are the kernel's sizes.\<close>

definition nl_world :: "unit zNlWorld" where
  "nl_world = \<lparr>nw_kipc = 700, nw_pid = 0, nw_ipc = world_example\<lparr>zw_ipc := (zw_ipc world_example)\<lparr>im_sch := Some 22, im_freebuf := Some 401\<rparr>,
     zw_buf := [401 \<mapsto> zbuf_zero]\<rparr>\<rparr>"

definition nl_msg :: "u32 \<Rightarrow> u32 \<Rightarrow> u8 list \<Rightarrow> zNlMsg" where
  "nl_msg msglen n rest = \<lparr>nl_skb_len = 28, nl_msg_len = msglen, nl_msg_pid = 77, nl_data = hdr_bytes (msg_hdr ZEIPC_TYPE_DEFAULT n) @ rest\<rparr>"

lemma nl_world_ready: "can_recv alloc_example (nw_ipc nl_world) [401] 100 [] [[10, 11], [], []] 22 0"
  unfolding can_recv_def
proof (intro conjI)
  have "buf_wf zbuf_zero" by (simp add: buf_wf_def zbuf_zero_def)
  then show "pool_wf (zw_ipc (nw_ipc nl_world)) (zw_buf (nw_ipc nl_world)) [401]"
    by (simp add: pool_wf_def nl_world_def zbuf_zero_def)
  show "can_buf (al_buf alloc_example) (al_bytes alloc_example) (zw_buf (nw_ipc nl_world)) [401]"
    by (simp add: can_buf_def)
  have w: "zw_sch (nw_ipc nl_world) = sample_world" by (simp add: nl_world_def world_example_def)
  show "sch_wf 100 (zw_sch (nw_ipc nl_world)) [] [[10, 11], [], []]" unfolding w by (rule sample_wf)
  show "can_new 100 (zw_sch (nw_ipc nl_world)) (al_job alloc_example)"
    unfolding w using sample_new by (simp add: alloc_example_def)
  show "im_sch (zw_ipc (nw_ipc nl_world)) = Some 22" by (simp add: nl_world_def)
  show "(0::nat) < EZCRTSchPri_num" by (simp add: EZCRTSchPri_num_def)
  show "\<exists>sc. sx_sch (zw_sch (nw_ipc nl_world)) 22 = Some sc \<and> sc_thr sc = Some 100 \<and> unat (sc_pri sc) = 0 \<and>
      held 22 (queues (zw_sch (nw_ipc nl_world)) [[10, 11], [], []] ! 0) < unat (sc_maxsize sc)"
    unfolding w sample_queues by (simp add: sample_sel)
qed

lemma nl_msg_hdr:
  assumes "n < ZIPC_BUF_LEN"
  shows "\<exists>hdr. zipc_client_recv_hdr (Some (take 10 (nl_data (nl_msg msglen n rest)))) = Some hdr \<and> mh_payloadSize hdr = n"
proof -
  have "take 10 (nl_data (nl_msg msglen n rest)) = hdr_bytes (msg_hdr ZEIPC_TYPE_DEFAULT n)"
    by (simp add: nl_msg_def)
  then show ?thesis
    using hdr_of_hdr_bytes [of "msg_hdr ZEIPC_TYPE_DEFAULT n" "[]"] check_msg_hdr [of ZEIPC_TYPE_DEFAULT n] assms
    by (simp add: zipc_client_recv_hdr_def ZIPC_HEAD_LEN_def) (simp add: msg_hdr_def)
qed

lemma nl_msg_length: "length (nl_data (nl_msg msglen n rest)) = 10 + length rest"
  by (simp add: nl_msg_def)

theorem nl_recv_queued_witness:
  "\<exists>w' a b. nl_data_recv realloc_zero alloc_example 16 28 (nl_msg 28 2 [5, 6]) nl_world =
      Inr (nl_world\<lparr>nw_pid := 77, nw_ipc := w'\<rparr>) \<and> zw_buf w' a = Some b \<and> unread b = [5, 6]"
proof -
  let ?m = "nl_msg 28 2 [5, 6]"
  obtain hdr where h: "zipc_client_recv_hdr (Some (take 10 (nl_data ?m))) = Some hdr" "mh_payloadSize hdr = 2"
    using nl_msg_hdr [of 2 28 "[5, 6]"] by (auto simp: ZIPC_BUF_LEN_def)
  have l: "28 \<le> nl_skb_len ?m" "unat (nl_msg_len ?m - 16) = length (nl_data ?m)"
    "10 + unat (mh_payloadSize hdr) \<le> length (nl_data ?m)" "nw_kipc nl_world \<noteq> 0"
    using h(2) by (simp_all add: nl_msg_length) (simp_all add: nl_msg_def nl_world_def)
  have u: "take (unat (mh_payloadSize hdr)) (drop 10 (nl_data ?m)) = [5, 6]" "nl_msg_pid ?m = 77"
    using h(2) by (simp_all add: nl_msg_def)
  from nl_recv_queued [OF realloc_zero_total nl_world_ready l(4,1,2) h(1) l(3), unfolded u] show ?thesis by blast
qed

theorem nl_recv_refused_leaks_witness:
  "\<exists>nw'. nl_data_recv realloc_zero alloc_example 16 28 (nl_msg 28 3 [5, 6]) nl_world = Inr nw' \<and>
    pool_wf (zw_ipc (nw_ipc nw')) (zw_buf (nw_ipc nw')) []"
proof -
  let ?m = "nl_msg 28 3 [5, 6]"
  obtain hdr where h: "zipc_client_recv_hdr (Some (take 10 (nl_data ?m))) = Some hdr" "mh_payloadSize hdr = 3"
    using nl_msg_hdr [of 3 28 "[5, 6]"] by (auto simp: ZIPC_BUF_LEN_def)
  have p: "pool_wf (zw_ipc (nw_ipc nl_world)) (zw_buf (nw_ipc nl_world)) [401]"
    using nl_world_ready by (simp add: can_recv_def)
  have l: "10 \<le> length (nl_data ?m)" "nw_kipc nl_world \<noteq> 0" "unat (nl_msg_len ?m - 16) = length (nl_data ?m)"
    by (simp_all add: nl_msg_length) (simp_all add: nl_msg_def nl_world_def)
  have b: "nl_skb_len ?m < 28 \<or> (case zipc_client_recv_hdr (Some (take 10 (nl_data ?m))) of
      None \<Rightarrow> True | Some hdr \<Rightarrow> length (nl_data ?m) < 10 + unat (mh_payloadSize hdr))"
    using h by (simp add: nl_msg_length)
  from nl_recv_refused_leaks [OF l(2) p l(1,3) b] show ?thesis by blast
qed

theorem nl_recv_overread_witness:
  "nl_data_recv realloc_zero alloc_example 16 28 (nl_msg 0 3 [5, 6]) nl_world = Inl OutOfBounds"
proof -
  let ?m = "nl_msg 0 3 [5, 6]"
  obtain hdr where h: "zipc_client_recv_hdr (Some (take 10 (nl_data ?m))) = Some hdr" "mh_payloadSize hdr = 3"
    using nl_msg_hdr [of 3 0 "[5, 6]"] by (auto simp: ZIPC_BUF_LEN_def)
  have l: "28 \<le> nl_skb_len ?m" "nl_msg_len ?m < 16" "nw_kipc nl_world \<noteq> 0"
    by (simp_all add: nl_msg_def nl_world_def)
  show ?thesis
    using h by (intro nl_recv_overread [OF realloc_zero_total nl_world_ready l(3,1,2) _ h(1)]) (simp_all add: nl_msg_length)
qed

section \<open>Answering\<close>

text \<open>A message of a type that is neither a request nor a hook request is not answered; its buffer goes back to the
  pool, the one taken for the answer does not.\<close>

lemma nl_unknown_type_leaks:
  assumes pool: "pool_wf (zw_ipc w) (zw_buf w) (oa # as)" and ia: "ia \<notin> set (oa # as)" "zw_buf w ia = Some ib" "buf_wf ib"
    and ty: "appType \<noteq> zeipc_code ZEIPC_TYPE_LINK" "appType \<noteq> zeipc_code ZEIPC_TYPE_DEFAULT"
  shows "\<exists>w'. nl_msg_proc_job run_call ra al ipcp ia appType pid w = Inr w' \<and> zw_sch w' = zw_sch w \<and> oa \<notin> set (ia # as) \<and>
    pool_wf (zw_ipc w') (zw_buf w') (ia # as)"
proof -
  obtain b q where m: "pool_malloc al w = Inr (Some oa, w\<lparr>zw_ipc := (zw_ipc w)\<lparr>im_freebuf := q\<rparr>, zw_buf := (zw_buf w)(oa \<mapsto> b)\<rparr>)"
    and p0: "pool_wf ((zw_ipc w)\<lparr>im_freebuf := q\<rparr>) ((zw_buf w)(oa \<mapsto> b)) as" and o: "oa \<notin> set as" and b0: "zb_len b = 0"
    by (rule pool_first [OF pool])
  let ?w2 = "w\<lparr>zw_ipc := (zw_ipc w)\<lparr>im_freebuf := q\<rparr>, zw_buf := (zw_buf w)(oa \<mapsto> b)\<rparr>"
  have p: "pool_wf (zw_ipc ?w2) (zw_buf ?w2) as" using p0 by simp
  have i2: "zw_buf ?w2 ia = Some ib" "ia \<notin> set as" using ia(1,2) by (auto simp: put_buf_def)
  obtain ipc h where f: "pool_free (Some ia) ?w2 = Inr (?w2\<lparr>zw_ipc := ipc, zw_buf := h\<rparr>)" "pool_wf ipc h (ia # as)"
    using pool_free_spec [OF p i2(2,1) ia(3)] by metis
  have "nl_msg_proc_job run_call ra al ipcp ia appType pid w = Inr (?w2\<lparr>zw_ipc := ipc, zw_buf := h\<rparr>)"
    using m f(1) ia(1,2) ty b0 by (simp add: nl_msg_proc_job_def zipc_parse_payload_def put_buf_def)
  then show ?thesis using f(2) o ia(1) by (auto simp: put_buf_def)
qed

end
