(* ===== verification/Zipc_Kernal_Life.thy ===== *)
theory Zipc_Kernal_Life
  imports Zipc_Server_Kernal Zipc_Flow
begin

text \<open>
  Making and deleting the server of the kernel port, and the callback that forwards events to its clients, from
  \<^verbatim>\<open>zipc/zipc_server_kernal.c\<close>. The counters are those of \<^verbatim>\<open>zcrt_os_kernal.c\<close>,
  which count: what deleting a schedule does to its thread is not what it does on Linux.
\<close>

section \<open>Operations\<close>

lemma kern_counting: "counting kern_atom_inc kern_atom_dec"
  by (simp add: counting_def kern_atom_inc_def kern_atom_dec_def)

text \<open>An event that cannot be encoded leaves the buffer out of the pool.\<close>

definition nl_hookevent_cb ::
  "encode_fn \<Rightarrow> realloc_fn \<Rightarrow> zAlloc \<Rightarrow> u32 \<Rightarrow> ptr \<Rightarrow> ptr \<Rightarrow> u32 \<Rightarrow> 'w zIpcWorld \<Rightarrow> 'w zIpcWorld res" where
  "nl_hookevent_cb enc ra al evtid evtdata ipcp pid w =
     rbind (pool_malloc al w) (\<lambda>(buf, w1). (case buf of
       None \<Rightarrow> Inr w1
     | Some a \<Rightarrow>
         rbind (zipc_encode_event kern_atom_inc enc ra (Some (zw_ipc w1)) evtid evtdata (zw_buf w1 a) (zw_uid w1)) (\<lambda>(r, b, uid).
         let w2 = put_buf a b (w1\<lparr>zw_uid := uid\<rparr>) in
         if r = EZCRTErr_success then
           rbind (nl_sendjob_argn al (im_evtSch (zw_ipc w2)) zipc_netlink_send_fn [ipcp, a, unat pid] w2) (\<lambda>(e, w3).
             if e \<noteq> EZCRTErr_success then pool_free (Some a) w3 else Inr w3)
         else Inr w2)))"

text \<open>
  \<^verbatim>\<open>new\<close> is the address \<^verbatim>\<open>zcrt_malloc\<close> gives for the server, \<^verbatim>\<open>sock\<close> the socket
  \<^verbatim>\<open>netlink_kernel_create\<close> gives, 0 for none; the other arguments are those of the server on sockets. The
  result is the handle, \<^verbatim>\<open>NULL\<close> without a socket.
\<close>

definition nl_server_create ::
  "ptr option \<Rightarrow> bool \<Rightarrow> bool \<Rightarrow> addr option \<Rightarrow> addr option \<Rightarrow> addr option \<Rightarrow> addr option \<Rightarrow> nat \<Rightarrow> addr option \<Rightarrow> u16 \<Rightarrow> bptr \<Rightarrow>
     'w zNlWorld \<Rightarrow> (ptr option \<times> 'w zNlWorld) res" where
  "nl_server_create new mok iok s1 s2 newt s3 sock module port name nw =
     rbind (deref new) (\<lambda>p.
     rbind (strlen_c name) (\<lambda>len.
     let n = (if len \<ge> ZCRT_NAME_LEN then ZCRT_NAME_LEN - 1 else len) in
     rbind (load_n name n) (\<lambda>bs.
     rbind (zcrt_hash_new mok iok 128 (Some zipc_component_hash_key) (Some zipc_component_hash_cmp)) (\<lambda>ml.
     rbind (zcrt_schedule_create kern_atom_inc s1 None module zipc_name EZCRTSchType_zcrtThread 1 100 (zw_sch (nw_ipc nw))) (\<lambda>(sch, w1).
     rbind (zcrt_schedule_create kern_atom_inc s2 newt module zipc_name EZCRTSchType_selfThread 1 500 w1) (\<lambda>(rsch, w2).
     rbind (zcrt_schedule_create_share kern_atom_inc s3 module rsch zipc_name 2 1500 w2) (\<lambda>(esch, w3).
       let ipc = \<lparr>im_sch = sch, im_respondSch = rsch, im_evtSch = esch, im_socket = sock, im_evt_encode = None, im_port = port, im_run = (sock \<noteq> 0),
             im_modlist = ml, im_name = bs @ replicate (ZCRT_NAME_LEN - n) 0, im_freebuf = None\<rparr> in
       Inr (if sock \<noteq> 0 then Some p else None, nw\<lparr>nw_kipc := p, nw_ipc := (nw_ipc nw)\<lparr>zw_ipc := ipc, zw_sch := w3\<rparr>\<rparr>))))))))"

definition nl_comp_buf_freeall :: "zIPCModule \<Rightarrow> zbuf heap \<Rightarrow> zbuf heap res" where
  "nl_comp_buf_freeall ipc h = run (free_nodes zb_next h (im_freebuf ipc))"

definition nl_server_delete :: "ptr option \<Rightarrow> 'w zNlWorld \<Rightarrow> 'w zNlWorld res" where
  "nl_server_delete h nw = (case h of
     None \<Rightarrow> Inr nw
   | Some p \<Rightarrow> (let w = nw_ipc nw; ipc = zw_ipc w in
     rbind (unhook_all nl_hookevent_cb_fn (unat (nw_pid nw)) (zw_evt w) p [1..<ZCRT_MAX_EVT]) (\<lambda>mng.
     rbind (nl_comp_buf_freeall ipc (zw_buf w)) (\<lambda>bufs.
     rbind (zcrt_hash_delete (ix_node (zw_comp w)) (im_modlist ipc)) (\<lambda>nodes.
     rbind (zcrt_schedule_delete kern_atom_dec (im_evtSch ipc) (zw_sch w)) (\<lambda>w1.
     rbind (zcrt_schedule_delete kern_atom_dec (im_respondSch ipc) w1) (\<lambda>w2.
     rbind (zcrt_schedule_delete kern_atom_dec (im_sch ipc) w2) (\<lambda>w3.
       Inr (nw\<lparr>nw_kipc := 0, nw_ipc := w\<lparr>zw_evt := mng, zw_ipc := ipc\<lparr>im_run := False\<rparr>, zw_buf := bufs,
              zw_comp := (zw_comp w)\<lparr>ix_node := nodes\<rparr>, zw_sch := w3\<rparr>\<rparr>)))))))))"

section \<open>Creating\<close>

text \<open>The three ways a server makes a schedule: on the module's thread, with a thread of its own, on the thread of another.\<close>

lemma create_on_module:
  assumes "sx_mod w m = Some md" "md_zcrtthr md = Some t" "sx_thr w t = Some th"
  obtains w' c where "zcrt_schedule_create inc (Some s) newt (Some m) nm EZCRTSchType_zcrtThread pri maxsize w = Inr (Some s, w')"
    "sx_sch w' = (sx_sch w)(s \<mapsto> c)" "sc_thr c = Some t" "sc_type c = EZCRTSchType_zcrtThread"
    "\<And>t1. t1 \<noteq> t \<Longrightarrow> sx_thr w' t1 = sx_thr w t1" "sx_mod w' = sx_mod w"
  using assms
  by (cases "th_sch_list th")
    (auto simp: zcrt_schedule_create_def zcrt_s_thr_add_sch_def set_thr_def set_sch_def new_sch_def Let_def fun_eq_iff)

lemma create_with_thread:
  assumes "sx_mod w m = Some md"
  obtains w' c th where "zcrt_schedule_create inc (Some s) (Some t) (Some m) nm EZCRTSchType_selfThread pri maxsize w = Inr (Some s, w')"
    "sx_sch w' = (sx_sch w)(s \<mapsto> c)" "sc_thr c = Some t" "sc_type c = EZCRTSchType_selfThread"
    "sx_thr w' = (sx_thr w)(t \<mapsto> th)" "th_refCnt th = snd (inc 0)" "th_run th" "th_module th = Some m" "th_sch_list th = Some s"
  using assms
  by (simp add: zcrt_schedule_create_def zcrt_s_thr_new_def zcrt_s_thr_add_sch_def set_thr_def set_sch_def set_mod_def new_sch_def Let_def)

lemma create_shared:
  assumes "sx_sch w s1 = Some c1" "sc_type c1 = EZCRTSchType_selfThread" "sc_thr c1 = Some t" "sx_thr w t = Some th"
  obtains w' c th' where "zcrt_schedule_create_share inc (Some s) module (Some s1) nm pri maxsize w = Inr (Some s, w')"
    "sx_sch w' = (sx_sch w)(s \<mapsto> c)" "sc_thr c = Some t" "sc_type c = EZCRTSchType_shareThread" "sc_maxsize c = ucast maxsize"
    "sx_thr w' = (sx_thr w)(t \<mapsto> th')" "th_refCnt th' = snd (inc (th_refCnt th))" "th_run th' = th_run th" "th_module th' = th_module th"
  using assms
  by (cases "th_sch_list th")
    (simp_all add: zcrt_schedule_create_share_def zcrt_s_thr_add_sch_def set_thr_def set_sch_def new_sch_def Let_def)


text \<open>The schedules of a new server, with the counters of the kernel: the thread of the replies is shared by two, and
  its counter says so. Without a netlink socket the caller gets \<^verbatim>\<open>NULL\<close>, but the variable
  \<^verbatim>\<open>s_kipc\<close> keeps the server, which is not run, and nothing of it is freed.\<close>

theorem nl_server_create_spec:
  assumes ne: "s1 \<noteq> s2" "s1 \<noteq> s3" "s2 \<noteq> s3" "t0 \<noteq> t2"
    and w: "schs_of t2 (zw_sch (nw_ipc nw)) = {}" "sx_mod (zw_sch (nw_ipc nw)) m = Some md" "md_zcrtthr md = Some t0"
      "sx_thr (zw_sch (nw_ipc nw)) t0 = Some th0"
    and name: "strlen_c name = Inr len" "len < ZCRT_NAME_LEN" "load_n name len = Inr bs"
  shows "\<exists>nw' th. nl_server_create (Some p) True True (Some s1) (Some s2) (Some t2) (Some s3) sock (Some m) port name nw =
      Inr (if sock \<noteq> 0 then Some p else None, nw') \<and>
    nw_kipc nw' = p \<and> (im_run (zw_ipc (nw_ipc nw')) \<longleftrightarrow> sock \<noteq> 0) \<and> im_freebuf (zw_ipc (nw_ipc nw')) = None \<and>
    im_sch (zw_ipc (nw_ipc nw')) = Some s1 \<and> im_respondSch (zw_ipc (nw_ipc nw')) = Some s2 \<and> im_evtSch (zw_ipc (nw_ipc nw')) = Some s3 \<and>
    s1 \<in> schs_of t0 (zw_sch (nw_ipc nw')) \<and> schs_of t2 (zw_sch (nw_ipc nw')) = {s2, s3} \<and> counted t2 (zw_sch (nw_ipc nw')) \<and>
    sx_thr (zw_sch (nw_ipc nw')) t2 = Some th \<and> th_run th \<and> th_refCnt th = 2 \<and> th_module th = Some m"
proof -
  obtain w1 c1 where a: "zcrt_schedule_create kern_atom_inc (Some s1) None (Some m) zipc_name EZCRTSchType_zcrtThread 1 100 (zw_sch (nw_ipc nw)) =
      Inr (Some s1, w1)" "sx_sch w1 = (sx_sch (zw_sch (nw_ipc nw)))(s1 \<mapsto> c1)" "sc_thr c1 = Some t0"
    "sx_mod w1 = sx_mod (zw_sch (nw_ipc nw))"
    by (rule create_on_module [OF w(2-4)])
  have m1: "sx_mod w1 m = Some md" using a(4) w(2) by simp
  obtain w2 c2 th2 where b: "zcrt_schedule_create kern_atom_inc (Some s2) (Some t2) (Some m) zipc_name EZCRTSchType_selfThread 1 500 w1 =
      Inr (Some s2, w2)" "sx_sch w2 = (sx_sch w1)(s2 \<mapsto> c2)" "sc_thr c2 = Some t2" "sc_type c2 = EZCRTSchType_selfThread"
    "sx_thr w2 = (sx_thr w1)(t2 \<mapsto> th2)" "th_refCnt th2 = snd (kern_atom_inc 0)" "th_run th2" "th_module th2 = Some m"
    by (rule create_with_thread [OF m1])
  have s2: "sx_sch w2 s2 = Some c2" "sx_thr w2 t2 = Some th2" using b(2,5) by simp_all
  obtain w3 c3 th3 where c: "zcrt_schedule_create_share kern_atom_inc (Some s3) (Some m) (Some s2) zipc_name 2 1500 w2 = Inr (Some s3, w3)"
    "sx_sch w3 = (sx_sch w2)(s3 \<mapsto> c3)" "sc_thr c3 = Some t2" "sx_thr w3 = (sx_thr w2)(t2 \<mapsto> th3)"
    "th_refCnt th3 = snd (kern_atom_inc (th_refCnt th2))" "th_run th3 = th_run th2" "th_module th3 = th_module th2"
    by (rule create_shared [OF s2(1) b(4,3) s2(2)])
  have maps: "sx_sch w3 = (sx_sch (zw_sch (nw_ipc nw)))(s1 \<mapsto> c1, s2 \<mapsto> c2, s3 \<mapsto> c3)" using a(2) b(2) c(2) by simp
  have so: "schs_of t2 w3 = {s2, s3}"
  proof (intro set_eqI)
    fix r
    have "r \<notin> schs_of t2 (zw_sch (nw_ipc nw))" using w(1) by simp
    then show "r \<in> schs_of t2 w3 \<longleftrightarrow> r \<in> {s2, s3}"
      using maps a(3) b(3) c(3) ne by (simp add: schs_of_def)
  qed
  have r2: "th_refCnt th3 = 2" using b(6) c(5) by (simp add: kern_atom_inc_def)
  have thr: "sx_thr w3 t2 = Some th3" using c(4) by simp
  have ct: "counted t2 w3" using thr r2 ne(3) unfolding counted_def so by simp
  have s1: "s1 \<in> schs_of t0 w3" using maps a(3) ne by (simp add: schs_of_def)
  have "\<not> ZCRT_NAME_LEN \<le> len" using name(2) by simp
  then show ?thesis
    using a(1) b(1) c(1) so ct s1 thr r2 c(6,7) b(7,8)
    by (simp add: nl_server_create_def name zcrt_hash_new_def Let_def)
qed


theorem nl_server_create_spec_witness:
  "\<exists>nw' th. nl_server_create (Some 700) True True (Some 30) (Some 31) (Some 32) (Some 33) 1 (Some 1) 5 (Some [90, 0], 0)
      (nl_world\<lparr>nw_ipc := (nw_ipc nl_world)\<lparr>zw_sch := idle_world\<rparr>\<rparr>) = Inr (Some 700, nw') \<and>
    schs_of 32 (zw_sch (nw_ipc nw')) = {31, 33} \<and> sx_thr (zw_sch (nw_ipc nw')) 32 = Some th \<and> th_refCnt th = 2"
proof -
  let ?nw = "nl_world\<lparr>nw_ipc := (nw_ipc nl_world)\<lparr>zw_sch := idle_world\<rparr>\<rparr>"
  have w: "schs_of 32 (zw_sch (nw_ipc ?nw)) = {}" "sx_mod (zw_sch (nw_ipc ?nw)) 1 = Some \<lparr>md_zcrtthr = Some 2, md_schthr_list = Some 5\<rparr>"
    "sx_thr (zw_sch (nw_ipc ?nw)) 2 = Some (idle_thr None 3)"
    by (simp_all add: idle_world_def) (auto simp: schs_of_def idle_sch_def new_sch_def)
  have n: "strlen_c (Some [90, 0], 0) = Inr 1" "load_n (Some [90, 0], 0) 1 = Inr [90 :: u8]"
    by (simp_all add: strlen_c_def load_n_def)
  show ?thesis
    using nl_server_create_spec [where nw = ?nw and sock = 1, OF _ _ _ _ w(1,2) _ w(3) n(1) _ n(2), of 30 31 33 700 5]
    by (auto simp: ZCRT_NAME_LEN_def)
qed


section \<open>Deleting\<close>

lemma del_first_keeps: "x \<in> set xs \<Longrightarrow> \<not> P x \<Longrightarrow> x \<in> set (del_first P xs)"
  by (induction xs) (auto simp: del_first_def)

text \<open>C9. Deleting the server of the kernel port frees its buffers, its table and its schedules, and its thread is told to
  stop, since the counter of the kernel reaches 0 with the second of the two schedules. Of the subscriptions only the
  first one of the process that sent the last datagram is removed from each event: those of every other process stay, with the
  address of the freed server.\<close>

theorem nl_server_delete_spec:
  fixes nw :: "'w zNlWorld"
  defines "w \<equiv> nw_ipc nw"
  assumes ev: "zw_evt w = Some m" "ev_wf m fs ass" "ev_last m = 0"
    and pool: "pool_wf (zw_ipc w) (zw_buf w) as" and tb: "im_modlist (zw_ipc w) = Some tb" "hash_wf (ix_node (zw_comp w)) tb bss"
    and h: "im_sch (zw_ipc w) = Some s1" "im_respondSch (zw_ipc w) = Some s2" "im_evtSch (zw_ipc w) = Some s3"
    and ok: "thr_ok t0 S0 T0 ss0 fs0 qs0 (zw_sch w)" "thr_ok t2 S2 T2 ss2 fs2 qs2 (zw_sch w)" "apart t0 S0 T0 t2 S2 T2"
    and three: "three_schs s1 s2 s3 c1 c2 c3 T0 T2 qs0 qs2 (zw_sch w)"
    and ref: "sx_thr (zw_sch w) t2 = Some th2" "th_refCnt th2 = 2"
  shows "\<exists>nw' m' fs' ass' th2'. nl_server_delete (Some p) nw = Inr nw' \<and> nw_kipc nw' = 0 \<and>
    zw_buf (nw_ipc nw') = freed as (zw_buf w) \<and> ix_node (zw_comp (nw_ipc nw')) = freed (concat bss) (ix_node (zw_comp w)) \<and>
    (\<forall>s \<in> {s1, s2, s3}. sx_sch (zw_sch (nw_ipc nw')) s = None) \<and>
    sx_thr (zw_sch (nw_ipc nw')) t2 = Some th2' \<and> \<not> th_run th2' \<and>
    zw_evt (nw_ipc nw') = Some m' \<and> ev_wf m' fs' ass' \<and>
    (\<forall>j < 256. subs m' ass' j =
      (if j = 0 then subs m ass j else del_first (is_sub nl_hookevent_cb_fn p (unat (nw_pid nw))) (subs m ass j))) \<and>
    (\<forall>j < 256. \<forall>s \<in> set (subs m ass j). ec_p1 s = p \<longrightarrow> ec_p2 s \<noteq> unat (nw_pid nw) \<longrightarrow> s \<in> set (subs m' ass' j))"
proof -
  let ?P = "is_sub nl_hookevent_cb_fn p (unat (nw_pid nw))"
  have "\<forall>i \<in> set [1..<ZCRT_MAX_EVT]. 0 < i \<and> i < 256" by (simp add: ZCRT_MAX_EVT_def)
  then obtain m' fs' ass' where e: "unhook_all nl_hookevent_cb_fn (unat (nw_pid nw)) (Some m) p [1..<ZCRT_MAX_EVT] = Inr (Some m')"
    "ev_wf m' fs' ass'" "\<forall>j < 256. subs m' ass' j = (if j \<in> set [1..<ZCRT_MAX_EVT] then del_first ?P (subs m ass j) else subs m ass j)"
    using unhook_all_spec [OF ev(2,3) _ distinct_upt] by metis
  have sub: "\<forall>j < 256. subs m' ass' j = (if j = 0 then subs m ass j else del_first ?P (subs m ass j))"
    using e(3) by (auto simp: ZCRT_MAX_EVT_def)
  have kept: "\<forall>j < 256. \<forall>s \<in> set (subs m ass j). ec_p1 s = p \<longrightarrow> ec_p2 s \<noteq> unat (nw_pid nw) \<longrightarrow> s \<in> set (subs m' ass' j)"
    using sub by (auto simp: is_sub_def intro!: del_first_keeps)
  obtain sch th2a th2' where d: "delete_three kern_atom_dec (Some s3) (Some s2) (Some s1) (zw_sch w) = Inr sch"
    "sx_sch sch s1 = None" "sx_sch sch s2 = None" "sx_sch sch s3 = None" "run_after EZCRTSchType_shareThread kern_atom_dec th2 th2a"
    "sx_thr sch t2 = Some th2'" "run_after EZCRTSchType_selfThread kern_atom_dec th2a th2'"
  proof (rule delete_three_spec [OF ok three, of kern_atom_dec])
    fix w' fs0' qs0' fs2' qs2' th0 th0' x th2a th2'
    assume a: "delete_three kern_atom_dec (Some s3) (Some s2) (Some s1) (zw_sch w) = Inr w'"
      "sx_sch w' s1 = None" "sx_sch w' s2 = None" "sx_sch w' s3 = None" "sx_thr (zw_sch w) t2 = Some x"
      "run_after EZCRTSchType_shareThread kern_atom_dec x th2a" "sx_thr w' t2 = Some th2'"
      "run_after EZCRTSchType_selfThread kern_atom_dec th2a th2'"
    have "x = th2" using a(5) ref(1) by simp
    then show thesis using that [OF a(1-4) _ a(7,8)] a(6) by simp
  qed
  have stop: "\<not> th_run th2'" using d(5,7) ref(2) by (simp add: run_after_def kern_atom_dec_def)
  let ?w = "w\<lparr>zw_evt := Some m', zw_ipc := (zw_ipc w)\<lparr>im_run := False\<rparr>, zw_buf := freed as (zw_buf w),
      zw_comp := (zw_comp w)\<lparr>ix_node := freed (concat bss) (ix_node (zw_comp w))\<rparr>, zw_sch := sch\<rparr>"
  have "nl_comp_buf_freeall (zw_ipc w) (zw_buf w) = Inr (freed as (zw_buf w))"
    using freeall_spec [OF pool] by (simp add: nl_comp_buf_freeall_def zipc_comp_buf_freeall_def)
  then have "nl_server_delete (Some p) nw =
      rbind (delete_three kern_atom_dec (Some s3) (Some s2) (Some s1) (zw_sch w)) (\<lambda>x. Inr (nw\<lparr>nw_kipc := 0, nw_ipc := ?w\<lparr>zw_sch := x\<rparr>\<rparr>))"
    using tb(1) hash_freed [OF tb(2)] h ev(1) e(1)
    by (simp add: nl_server_delete_def delete_three_def rbind_assoc w_def Let_def)
  then have "nl_server_delete (Some p) nw = Inr (nw\<lparr>nw_kipc := 0, nw_ipc := ?w\<rparr>)" using d(1) by simp
  then show ?thesis using d(2-4,6) stop e(2) sub kept
    by (intro exI [of _ "nw\<lparr>nw_kipc := 0, nw_ipc := ?w\<rparr>"] exI [of _ m'] exI [of _ fs'] exI [of _ ass'] exI [of _ th2']) simp
qed

section \<open>Forwarding events\<close>

text \<open>An event whose encoder fails, or that has none, is not sent, but the buffer taken for it is not
  given back either: every such event takes one buffer out of the pool for good.\<close>

theorem nl_event_refused_leaks:
  assumes pool: "pool_wf (zw_ipc w) (zw_buf w) (a # as)" and ra: "realloc_total ra"
    and bad: "im_evt_encode (zw_ipc w) = None \<or> (\<exists>fn. im_evt_encode (zw_ipc w) = Some fn \<and> (\<forall>v. \<exists>r v1. enc fn evtid evtdata v = Inr (r, v1) \<and> r \<noteq> 0))"
  shows "\<exists>w'. nl_hookevent_cb enc ra al evtid evtdata ipcp pid w = Inr w' \<and> zw_sch w' = zw_sch w \<and> zw_sent w' = zw_sent w \<and>
    a \<notin> set as \<and> pool_wf (zw_ipc w') (zw_buf w') as"
proof -
  obtain b q where m: "pool_malloc al w = Inr (Some a, w\<lparr>zw_ipc := (zw_ipc w)\<lparr>im_freebuf := q\<rparr>, zw_buf := (zw_buf w)(a \<mapsto> b)\<rparr>)"
    "pool_wf ((zw_ipc w)\<lparr>im_freebuf := q\<rparr>) ((zw_buf w)(a \<mapsto> b)) as" "a \<notin> set as" "buf_wf b" "zb_len b = 0" "zb_offset b = 0"
    by (rule pool_first [OF pool])
  let ?ipc = "(zw_ipc w)\<lparr>im_freebuf := q\<rparr>"
  have "\<exists>r b' uid. zipc_encode_event kern_atom_inc enc ra (Some ?ipc) evtid evtdata (Some b) (zw_uid w) = Inr (r, b', uid) \<and> r \<noteq> EZCRTErr_success"
  proof (cases "im_evt_encode (zw_ipc w)")
    case None
    then show ?thesis by (simp add: zipc_encode_event_def zipc_server_get_event_encode_def)
  next
    case (Some fn)
    then have fn: "im_evt_encode ?ipc = Some fn" by simp
    obtain b' where "zipc_encode_event kern_atom_inc enc ra (Some ?ipc) evtid evtdata (Some b) (zw_uid w) =
        rbind (enc fn evtid evtdata (Some b')) (\<lambda>(r, b7).
          if r = 0 then rbind (set_payload_size b7) (\<lambda>b8. Inr (EZCRTErr_success, b8, snd (kern_atom_inc (zw_uid w))))
          else Inr (EZCRTErr_ipcNotSupport, b7, snd (kern_atom_inc (zw_uid w))))"
      by (rule encode_event_until [where inc = kern_atom_inc and uid = "zw_uid w" and enc = enc and evtid = evtid and evtdata = evtdata,
            OF ra m(4,5) fn event_head_short])
    moreover obtain r v1 where "enc fn evtid evtdata (Some b') = Inr (r, v1)" "r \<noteq> 0"
      using bad Some by fastforce
    ultimately show ?thesis by simp
  qed
  then obtain r b' uid where e: "zipc_encode_event kern_atom_inc enc ra (Some ?ipc) evtid evtdata (Some b) (zw_uid w) = Inr (r, b', uid)"
    "r \<noteq> EZCRTErr_success" by blast
  have p: "pool_wf ?ipc (((zw_buf w)(a \<mapsto> b))(a := b')) as" for b'
    using m(2,3) by (auto simp: pool_wf_def chain_upd)
  show ?thesis using m(1,3) e p
    by (simp add: nl_hookevent_cb_def Let_def put_buf_def)
qed

section \<open>Examples\<close>

theorem nl_event_refused_leaks_witness:
  "\<exists>w'. nl_hookevent_cb (\<lambda>fn evtid evtdata v. Inr (1, v)) realloc_zero alloc_example 5 0 700 77 (nw_ipc nl_world) = Inr w' \<and> pool_wf (zw_ipc w') (zw_buf w') []"
proof -
  have p: "pool_wf (zw_ipc (nw_ipc nl_world)) (zw_buf (nw_ipc nl_world)) [401]" using nl_world_ready by (simp add: can_recv_def)
  have "im_evt_encode (zw_ipc (nw_ipc nl_world)) = Some 9" by (simp add: nl_world_def world_example_def ipc_example_def)
  then show ?thesis
    using nl_event_refused_leaks [OF p realloc_zero_total, of "\<lambda>fn evtid evtdata v. Inr (1, v)" 5 0 alloc_example 700 77] by auto
qed

text \<open>The idle threads of the other server, the second of them counted.\<close>

definition counted_world :: zSchWorld where
  "counted_world = idle_world\<lparr>sx_thr := (sx_thr idle_world)(5 \<mapsto> (idle_thr (Some 1) 6)\<lparr>th_refCnt := 2\<rparr>)\<rparr>"

lemma counted_thr: "sx_thr counted_world 5 = Some ((idle_thr (Some 1) 6)\<lparr>th_refCnt := 2\<rparr>)" "sx_thr counted_world 2 = Some (idle_thr None 3)"
  by (simp_all add: counted_world_def idle_world_def)

lemma counted_ok: "thr_ok 2 {} {3} [3] [] [[], [], []] counted_world" "thr_ok 5 {12} {4, 6} [6, 4] [] [[], [], []] counted_world"
proof -
  have c: "sx_sch counted_world s = Some sc \<Longrightarrow> sc_cursize sc = 0 \<and> unat (sc_maxsize sc) < 65536" for s sc
    by (auto simp: counted_world_def idle_world_def idle_sch_def new_sch_def split: if_splits)
  have wf: "sch_wf 2 counted_world [] [[], [], []]" "sch_wf 5 counted_world [] [[], [], []]"
    by (rule fresh_thread_wf [OF counted_thr(2) _ _ c]; simp add: idle_thr_def) (rule fresh_thread_wf [OF counted_thr(1) _ _ c]; simp add: idle_thr_def)
  show "thr_ok 2 {} {3} [3] [] [[], [], []] counted_world" "thr_ok 5 {12} {4, 6} [6, 4] [] [[], [], []] counted_world"
    by (auto simp: thr_ok_def wf)
      (auto simp: owns_def sch_chain_def counted_world_def idle_world_def idle_thr_def idle_sch_def new_sch_def thr_in_def que_in_def)
qed

lemma counted_three: "three_schs 3 4 6 (idle_sch 2 100 1 EZCRTSchType_zcrtThread None) (idle_sch 5 500 1 EZCRTSchType_selfThread None)
    (idle_sch 5 500 2 EZCRTSchType_shareThread (Some 4)) {3} {4, 6} [[], [], []] [[], [], []] counted_world"
proof -
  have "queues counted_world q = queues idle_world q" for q by (simp add: queues_def counted_world_def)
  then show ?thesis using idle_three by (simp add: three_schs_def) (simp add: counted_world_def)
qed

definition nl_idle :: "unit zNlWorld" where
  "nl_idle = \<lparr>nw_kipc = 700, nw_pid = 77, nw_ipc = flow_world\<lparr>zw_ipc := idle_ipc, zw_buf := [7 \<mapsto> zbuf_zero], zw_sch := counted_world\<rparr>\<rparr>"

theorem nl_server_delete_spec_witness:
  "\<exists>nw' th2'. nl_server_delete (Some 700) nl_idle = Inr nw' \<and> nw_kipc nw' = 0 \<and> sx_thr (zw_sch (nw_ipc nw')) 5 = Some th2' \<and> \<not> th_run th2'"
proof -
  let ?w = "nw_ipc nl_idle"
  have h: "zw_evt ?w = Some ev_empty" "pool_wf (zw_ipc ?w) (zw_buf ?w) [7]" "im_modlist (zw_ipc ?w) = Some empty_table"
    "im_sch (zw_ipc ?w) = Some 3" "im_respondSch (zw_ipc ?w) = Some 4" "im_evtSch (zw_ipc ?w) = Some 6" "zw_sch ?w = counted_world"
    using idle_ipc_wf by (simp_all add: nl_idle_def flow_world_def world_example_def idle_ipc_def)
  have ev: "ev_last ev_empty = 0" by (simp add: ev_empty_def)
  show ?thesis
    using nl_server_delete_spec [where nw = nl_idle and p = 700, OF h(1) ev_empty_wf(1) ev h(2,3) empty_table_wf(1) h(4-6)
        counted_ok [folded h(7)] idle_ok(3) counted_three [folded h(7)] counted_thr(1) [folded h(7)]]
    by fastforce
qed

end
