(* ===== verification/Zipc_Kernal_Flow.thy ===== *)
theory Zipc_Kernal_Flow
  imports Zipc_Kernal_Life
begin

text \<open>
  A message on its whole way through the server of the kernel port: the datagram that is received, the thread that
  runs its job and the thread that sends the answer, and the same for an event. It composes the operations of the
  other theories the way the worker loop of \<^verbatim>\<open>zcrtlib/zschedule.c\<close> does.
\<close>

section \<open>From a datagram to the datagram that answers it\<close>

text \<open>A job of this server as the worker thread calls it; \<^verbatim>\<open>ok\<close> is whether the kernel gives a socket buffer.\<close>

definition nl_job :: "bool \<Rightarrow> 'w ipc_call \<Rightarrow> realloc_fn \<Rightarrow> zAlloc \<Rightarrow> 'w zIpcWorld sch_call" where
  "nl_job ok run_call ra al fn args s = (let w = (snd s)\<lparr>zw_sch := fst s\<rparr> in
     rbind (if fn = nl_msg_proc_job_fn then nl_msg_proc_job run_call ra al (args ! 0) (args ! 1) (of_nat (args ! 2)) (of_nat (args ! 3)) w
            else if fn = zipc_netlink_send_fn then zipc_netlink_send ok (args ! 1) (of_nat (args ! 2)) w
            else Inr w) (\<lambda>w1. Inr (zw_sch w1, w1)))"

lemma nl_job_fns: "nl_msg_proc_job_fn \<noteq> zipc_netlink_send_fn"
  by (simp add: nl_msg_proc_job_fn_def zipc_netlink_send_fn_def)

text \<open>What comes out of the sending of a message: nothing without a socket buffer, one datagram otherwise.\<close>

definition datagrams :: "bool \<Rightarrow> u32 \<Rightarrow> u8 list \<Rightarrow> (nat \<times> u8 list) list" where
  "datagrams ok pid bytes = (if ok then [(unat pid, bytes)] else [])"

text \<open>The message asks for a socket buffer, gets it, and is too long for a process to receive.\<close>

definition too_long :: "bool \<Rightarrow> u8 list \<Rightarrow> bool" where
  "too_long ok bytes \<longleftrightarrow> ok \<and> 64000 \<le> length bytes"

lemma send_len: "buf_wf b \<Longrightarrow> zb_len b < 64000 \<longleftrightarrow> length (contents b) < 64000"
  by (simp add: length_contents word_less_nat_alt)

lemma nl_send_too_long:
  "zw_buf w oa = Some b \<Longrightarrow> buf_wf b \<Longrightarrow> too_long ok (contents b) \<Longrightarrow> zipc_netlink_send ok oa pid w = Inl AssertFailed"
  by (simp add: zipc_netlink_send_def too_long_def send_len)

lemma nl_send_spec:
  assumes b: "zw_buf w oa = Some b" "buf_wf b" "oa \<notin> set as" "pool_wf (zw_ipc w) (zw_buf w) as" and l: "\<not> too_long ok (contents b)"
  obtains ipc h where "zipc_netlink_send ok oa pid w = Inr (w\<lparr>zw_sent := zw_sent w @ datagrams ok pid (contents b), zw_ipc := ipc, zw_buf := h\<rparr>)"
    "pool_wf ipc h (oa # as)" "ipc = (zw_ipc w)\<lparr>im_freebuf := Some oa\<rparr>"
proof -
  let ?w = "w\<lparr>zw_sent := zw_sent w @ datagrams ok pid (contents b)\<rparr>"
  have p: "pool_wf (zw_ipc ?w) (zw_buf ?w) as" "zw_buf ?w oa = Some b" using b by simp_all
  obtain ipc h where f: "pool_free (Some oa) ?w = Inr (?w\<lparr>zw_ipc := ipc, zw_buf := h\<rparr>)" "pool_wf ipc h (oa # as)"
    "ipc = (zw_ipc ?w)\<lparr>im_freebuf := Some oa\<rparr>" using pool_free_spec [OF p(1) b(3) p(2) b(2)] by metis
  have "load_n (zb_buf b, 0) (unat (zb_len b)) = Inr (contents b)"
    using load_contents [of b 0 "unat (zb_len b)"] b(2) length_contents [OF b(2)] by simp
  then have "zipc_netlink_send ok oa pid w = pool_free (Some oa) ?w"
    using b(1) l send_len [OF b(2)] by (simp add: zipc_netlink_send_def datagrams_def too_long_def not_le)
  then show ?thesis using that f by simp
qed

text \<open>The thread with the one job that sends: a job that fails fails the thread.\<close>

lemma wake_fails:
  assumes j: "one_job (zw_sch w) t S T n"
  obtains sch fn where "jb_fn n = Some fn" "\<And>e. call fn (jb_args n) (sch, w) = Inl e \<Longrightarrow> wake_with call t w = Inl e"
proof -
  obtain fs qs k where q: "owns t S T (zw_sch w)" "sch_wf t (zw_sch w) fs qs" "k < EZCRTSchPri_num" "queues (zw_sch w) qs ! k = [n]"
     "\<forall>i < EZCRTSchPri_num. i \<noteq> k \<longrightarrow> queues (zw_sch w) qs ! i = []" using j by (auto simp: one_job_def)
  obtain sch fn where d: "take_job t (zw_sch w) = Inr (Some (Some fn, jb_args n), sch)" "jb_fn n = Some fn"
    by (rule run_jobs_one [OF q]) (rule that)
  have "wake_with call t w = Inl e" if "call fn (jb_args n) (sch, w) = Inl e" for e
    using that d(1) by (simp add: wake_with_def run_jobs.simps)
  then show ?thesis using that d(2) by blast
qed

lemma nl_wake_too_long:
  fixes pid :: u32
  assumes j: "one_job (zw_sch w) t S T (the_job s zipc_netlink_send_fn 3 [ipcp, oa, unat pid])"
    and b: "zw_buf w oa = Some b" "buf_wf b" and l: "too_long ok (contents b)"
  shows "wake_with (nl_job ok run_call ra al) t w = Inl AssertFailed"
proof (rule wake_fails [OF j, of "nl_job ok run_call ra al"])
  fix sch fn
  assume d: "jb_fn (the_job s zipc_netlink_send_fn 3 [ipcp, oa, unat pid]) = Some fn"
    "\<And>e. nl_job ok run_call ra al fn (jb_args (the_job s zipc_netlink_send_fn 3 [ipcp, oa, unat pid])) (sch, w) = Inl e \<Longrightarrow>
      wake_with (nl_job ok run_call ra al) t w = Inl e"
  have "zipc_netlink_send ok oa pid (w\<lparr>zw_sch := sch\<rparr>) = Inl AssertFailed" by (rule nl_send_too_long [OF _ b(2) l]) (simp add: b(1))
  then show ?thesis using d nl_job_fns by (auto simp: nl_job_def the_job_def)
qed

lemma nl_wake_sends:
  fixes pid :: u32
  assumes j: "one_job (zw_sch w) t S T (the_job s zipc_netlink_send_fn 3 [ipcp, oa, unat pid])"
    and b: "zw_buf w oa = Some b" "buf_wf b" "oa \<notin> set as" "pool_wf (zw_ipc w) (zw_buf w) as" and l: "\<not> too_long ok (contents b)"
  obtains w1 where "wake_with (nl_job ok run_call ra al) t w = Inr w1" "at_rest (zw_sch w1) t S T" "keeps t S T (zw_sch w) (zw_sch w1)"
    "zw_sent w1 = zw_sent w @ datagrams ok pid (contents b)" "zw_comp w1 = zw_comp w" "zw_ext w1 = zw_ext w"
    "pool_wf (zw_ipc w1) (zw_buf w1) (oa # as)" "\<And>q. (zw_ipc w1)\<lparr>im_freebuf := q\<rparr> = (zw_ipc w)\<lparr>im_freebuf := q\<rparr>"
proof (rule wake_one [OF j, of "nl_job ok run_call ra al"])
  fix sch fn
  let ?n = "the_job s zipc_netlink_send_fn 3 [ipcp, oa, unat pid]" and ?v = "w\<lparr>zw_sch := sch\<rparr>"
  assume d: "jb_fn ?n = Some fn" "keeps t S T (zw_sch w) sch"
    "\<And>w1. nl_job ok run_call ra al fn (jb_args ?n) (sch, w) = Inr (zw_sch w1, w1) \<Longrightarrow>
      zw_sch w1 = sch \<or> (\<exists>t2 S2 T2. elsewhere t2 S2 T2 sch (zw_sch w1) \<and> owns t2 S2 T2 sch \<and> owns t2 S2 T2 (zw_sch w1) \<and> apart t2 S2 T2 t S T) \<Longrightarrow>
      wake_with (nl_job ok run_call ra al) t w = Inr w1 \<and> at_rest (zw_sch w1) t S T"
  have v: "zw_buf ?v oa = Some b" "pool_wf (zw_ipc ?v) (zw_buf ?v) as" using b by simp_all
  obtain ipc h where s: "zipc_netlink_send ok oa pid ?v =
      Inr (?v\<lparr>zw_sent := zw_sent ?v @ datagrams ok pid (contents b), zw_ipc := ipc, zw_buf := h\<rparr>)" "pool_wf ipc h (oa # as)"
      "ipc = (zw_ipc ?v)\<lparr>im_freebuf := Some oa\<rparr>"
    by (rule nl_send_spec [OF v(1) b(2,3) v(2) l])
  let ?w1 = "?v\<lparr>zw_sent := zw_sent ?v @ datagrams ok pid (contents b), zw_ipc := ipc, zw_buf := h\<rparr>"
  have "nl_job ok run_call ra al fn (jb_args ?n) (sch, w) = Inr (zw_sch ?w1, ?w1)"
    using s(1) d(1) nl_job_fns by (auto simp: nl_job_def the_job_def)
  from d(3) [OF this] show thesis using that [of ?w1] d(2) s(2,3) by simp
qed


text \<open>The job that answers a request, on the thread of the messages, next to the idle thread of the replies.\<close>

lemma nl_wake_answers:
  fixes pid :: u32
  assumes ra: "realloc_total ra" and j: "one_job (zw_sch w) t1 S1 T1 (the_job s1 nl_msg_proc_job_fn 4 [ipcp, ia, 0, unat pid])"
    and t2: "idle_thread (zw_sch w) t2 S2 T2 fs2 qs2 s2 (al_job al)" "im_respondSch (zw_ipc w) = Some s2" and ap: "apart t1 S1 T1 t2 S2 T2"
    and p: "pool_wf (zw_ipc w) (zw_buf w) as"
    and al: "can_buf (al_buf al) (al_bytes al) (zw_buf w) as"
    and ia: "ia \<notin> set as" "zw_buf w ia = Some ib" "buf_wf ib" "unat (zb_len ib) < 2 ^ 31"
    and i: "unread ib = enc_request hs cname aname @ args" "length hs < 2 ^ 32" "ch_req (fold apply_field hs ch_zero)"
    and nm: "is_name cname" "cname \<noteq> []" "is_name aname" "aname \<noteq> []"
    and sv: "served (zw_comp w) (zw_ipc w) cname aname c f"
    and call: "answers run_call f c args (reply_head hs) data (zw_comp w, zw_ext w) (comp1, ext1)"
  obtains w1 oa b as1 where "wake_with (nl_job ok run_call ra al) t1 w = Inr w1" "at_rest (zw_sch w1) t1 S1 T1"
    "one_job (zw_sch w1) t2 S2 T2 (the_job s2 zipc_netlink_send_fn 3 [ipcp, oa, unat pid])" "zw_comp w1 = comp1" "zw_ext w1 = ext1"
    "zw_sent w1 = zw_sent w" "zw_buf w1 oa = Some b" "buf_wf b"
    "contents b = hdr_bytes (msg_hdr ZEIPC_TYPE_DEFAULT (of_nat (length (enc_reply_ch (ch_sn (fold apply_field hs ch_zero)) True @ data)))) @
      enc_reply_ch (ch_sn (fold apply_field hs ch_zero)) True @ data"
    "pool_wf (zw_ipc w1) (zw_buf w1) (ia # as1)" "oa \<notin> set (ia # as1)" "room (zw_sch w1) = room (zw_sch w)"
    "\<And>q. (zw_ipc w1)\<lparr>im_freebuf := q\<rparr> = (zw_ipc w)\<lparr>im_freebuf := q\<rparr>"
proof (rule wake_one [OF j, of "nl_job ok run_call ra al"])
  fix sch fn
  let ?n = "the_job s1 nl_msg_proc_job_fn 4 [ipcp, ia, 0, unat pid]" and ?w = "w\<lparr>zw_sch := sch\<rparr>"
  assume d: "jb_fn ?n = Some fn" "keeps t1 S1 T1 (zw_sch w) sch"
    "\<And>w1. nl_job ok run_call ra al fn (jb_args ?n) (sch, w) = Inr (zw_sch w1, w1) \<Longrightarrow>
      zw_sch w1 = sch \<or> (\<exists>t2 S2 T2. elsewhere t2 S2 T2 sch (zw_sch w1) \<and> owns t2 S2 T2 sch \<and> owns t2 S2 T2 (zw_sch w1) \<and> apart t2 S2 T2 t1 S1 T1) \<Longrightarrow>
      wake_with (nl_job ok run_call ra al) t1 w = Inr w1 \<and> at_rest (zw_sch w1) t1 S1 T1"
  let ?body = "enc_reply_ch (ch_sn (fold apply_field hs ch_zero)) True @ data"
  have o1: "owns t1 S1 T1 (zw_sch w)" using j by (simp add: one_job_def)
  have e: "elsewhere t1 S1 T1 (zw_sch w) sch" "owns t1 S1 T1 sch" using d(2) by (simp_all add: keeps_def)
  obtain c2 where c2: "owns t2 S2 T2 sch" "sch_wf t2 sch fs2 qs2" "no_jobs sch qs2" "can_new t2 sch (al_job al)" "opt_in S2 (al_job al)" "s2 \<in> T2"
    "sx_sch sch s2 = Some c2" "sc_thr c2 = Some t2" "unat (sc_pri c2) < EZCRTSchPri_num" "held s2 (queues sch qs2 ! unat (sc_pri c2)) < unat (sc_maxsize c2)"
    by (rule idle_threadE [OF idle_elsewhere [OF e(1) o1 e(2) ap t2(1)]])
  have q: "pool_wf (zw_ipc ?w) (zw_buf ?w) as" "can_buf (al_buf al) (al_bytes al) (zw_buf ?w) as" "zw_buf ?w ia = Some ib" "served (zw_comp ?w) (zw_ipc ?w) cname aname c f"
    "answers run_call f c args (reply_head hs) data (zw_comp ?w, zw_ext ?w) (comp1, ext1)" using p al ia(2) sv call by simp_all
  obtain oa as1 ipc h ob ib2 ob2 b where m: "pool_malloc al ?w = Inr (Some oa, ?w\<lparr>zw_ipc := ipc, zw_buf := h\<rparr>)"
    "h ia = Some ib" "h oa = Some ob" "ia \<noteq> oa" "ia \<notin> set as1" "oa \<notin> set as1"
    "zipc_parse_payload run_call ra (Some ipc) 0 (Some ib) (Some ob) (zw_comp ?w, zw_ext ?w) =
      Inr (EZCRTErr_success, Some ib2, Some ob2, comp1, ext1)" "buf_wf ib2" "zb_len ob2 \<noteq> 0"
    "set_payload_size (Some ob2) = Inr (Some b)" "buf_wf b" "contents b = hdr_bytes (msg_hdr ZEIPC_TYPE_DEFAULT (of_nat (length ?body))) @ ?body"
    "\<And>x y. pool_wf ipc (h(ia := x, oa := y)) as1" "\<And>q. ipc\<lparr>im_freebuf := q\<rparr> = (zw_ipc ?w)\<lparr>im_freebuf := q\<rparr>"
    by (rule reply_made [OF ra q(1,2) ia(1) q(3) ia(3,4) i nm q(4,5)]) (rule that)
  have rs: "im_respondSch ipc = Some s2" using arg_cong [OF m(14) [of None], of im_respondSch] t2(2) by simp
  let ?k = "unat (sc_pri c2)" and ?args = "[ipcp, oa, unat pid]"
  have ar: "(3 :: u32) \<noteq> 0" "unat (3 :: u32) \<le> ZCRT_CB_MAX_ARGS" "length ?args = unat (3 :: u32)" by (simp_all add: ZCRT_CB_MAX_ARGS_def)
  obtain jj sch2 where s: "zcrt_schedule_sendjob_argn (al_job al) (Some s2) (Some zipc_netlink_send_fn) 3 ?args sch = Inr (EZCRTErr_success, sch2)"
    "sch_wf t2 sch2 (tl fs2) (qs2[?k := qs2 ! ?k @ [jj]])"
    "queues sch2 (qs2[?k := qs2 ! ?k @ [jj]]) = (queues sch qs2)[?k := queues sch qs2 ! ?k @ [the_job s2 zipc_netlink_send_fn 3 ?args]]"
    using sendjob_argn_ok [OF c2(2,4,7,8) refl c2(9,10) ar] by metis
  have k2: "keeps t2 S2 T2 sch sch2" by (rule sendjob_argn_keeps [OF c2(1,6,5) s(1)])
  let ?w3 = "(put_buf oa (Some b) (put_buf ia (Some ib2) (?w\<lparr>zw_ipc := ipc, zw_buf := h, zw_comp := comp1, zw_ext := ext1\<rparr>)))\<lparr>zw_sch := sch2\<rparr>"
  have p3: "pool_wf (zw_ipc ?w3) (zw_buf ?w3) as1" "zw_buf ?w3 ia = Some ib2" using m(4,13) by (simp_all add: put_buf_def)
  obtain ipc4 h4 where f: "pool_free (Some ia) ?w3 = Inr (?w3\<lparr>zw_ipc := ipc4, zw_buf := h4\<rparr>)" "pool_wf ipc4 h4 (ia # as1)"
    "\<forall>x. x \<noteq> ia \<longrightarrow> h4 x = zw_buf ?w3 x" "ipc4 = (zw_ipc ?w3)\<lparr>im_freebuf := Some ia\<rparr>" using pool_free_spec [OF p3(1) m(5) p3(2) m(8)] by metis
  let ?w4 = "?w3\<lparr>zw_ipc := ipc4, zw_buf := h4\<rparr>"
  have "nl_msg_proc_job run_call ra al ipcp ia 0 pid ?w = Inr ?w4"
    using m(1-4,7,9,10) s(1) f(1) rs by (simp add: nl_msg_proc_job_def nl_sendjob_argn_def put_buf_def Let_def)
  then have "nl_job ok run_call ra al fn (jb_args ?n) (sch, w) = Inr (zw_sch ?w4, ?w4)" using d(1) by (auto simp: nl_job_def the_job_def)
  from d(3) [OF this] k2 c2(1) apart_sym [OF ap]
  have wk: "wake_with (nl_job ok run_call ra al) t1 w = Inr ?w4" "at_rest (zw_sch ?w4) t1 S1 T1" by (auto simp: keeps_def put_buf_def)
  have "one_job (zw_sch ?w4) t2 S2 T2 (the_job s2 zipc_netlink_send_fn 3 ?args)"
    using only_job [OF c2(2,3,9) s(3)] keeps_owns [OF k2] s(2) c2(9) unfolding one_job_def by (auto simp: put_buf_def)
  moreover have "zw_buf ?w4 oa = Some b" using f(3) m(4) by (simp add: put_buf_def)
  moreover have "room (zw_sch ?w4) = room (zw_sch w)" using keeps_room [OF d(2)] keeps_room [OF k2] by (simp add: put_buf_def)
  moreover have "(zw_ipc ?w4)\<lparr>im_freebuf := q\<rparr> = (zw_ipc w)\<lparr>im_freebuf := q\<rparr>" for q using f(4) m(14) by (simp add: put_buf_def)
  ultimately show thesis using wk f(2) m(4,6,11,12)
    by (intro that [of ?w4 oa b as1]) (simp_all add: put_buf_def)
qed


text \<open>A datagram with a request, received by an idle server: one job on the thread of the messages.\<close>

lemma nl_round_queued:
  assumes ra: "realloc_total ra" and live: "nw_kipc nw \<noteq> 0"
    and t1: "idle_thread (zw_sch (nw_ipc nw)) t S T fs qs s (al_job al)" "im_sch (zw_ipc (nw_ipc nw)) = Some s"
    and skb: "space \<le> nl_skb_len skb" "unat (nl_msg_len skb - hdrlen) = length (nl_data skb)"
    and d: "nl_data skb = hdr_bytes (msg_hdr ZEIPC_TYPE_DEFAULT (of_nat (length x))) @ x @ rest" and lx: "length x < 8192"
    and p: "pool_wf (zw_ipc (nw_ipc nw)) (zw_buf (nw_ipc nw)) as"
    and al: "can_buf (al_buf al) (al_bytes al) (zw_buf (nw_ipc nw)) as"
  obtains w1 ia b as1 where "nl_data_recv ra al hdrlen space skb nw = Inr (nw\<lparr>nw_pid := nl_msg_pid skb, nw_ipc := w1\<rparr>)"
    "one_job (zw_sch w1) t S T (the_job s nl_msg_proc_job_fn 4 [nw_kipc nw, ia, 0, unat (nl_msg_pid skb)])"
    "keeps t S T (zw_sch (nw_ipc nw)) (zw_sch w1)" "zw_buf w1 ia = Some b" "buf_wf b" "unread b = x" "unat (zb_len b) = length x"
    "pool_wf (zw_ipc w1) (zw_buf w1) as1" "ia \<notin> set as1" "as = ia # as1 \<or> as = [] \<and> as1 = [] \<and> al_buf al = Some ia" "\<And>a. a \<noteq> ia \<Longrightarrow> zw_buf w1 a = zw_buf (nw_ipc nw) a"
    "\<And>q. (zw_ipc w1)\<lparr>im_freebuf := q\<rparr> = (zw_ipc (nw_ipc nw))\<lparr>im_freebuf := q\<rparr>"
    "zw_comp w1 = zw_comp (nw_ipc nw)" "zw_ext w1 = zw_ext (nw_ipc nw)" "zw_sent w1 = zw_sent (nw_ipc nw)"
proof -
  let ?w = "nw_ipc nw"
  have ux: "unat (of_nat (length x) :: u32) = length x" using lx by (intro unat_of_nat_u32_small) simp
  let ?hdr = "(msg_hdr ZEIPC_TYPE_DEFAULT (of_nat (length x)))\<lparr>mh_appType := zeipc_code ZEIPC_TYPE_DEFAULT, mh_payloadSize := of_nat (length x)\<rparr>"
  have "(of_nat (length x) :: u32) < ZIPC_BUF_LEN" using ux lx by (simp add: word_less_nat_alt ZIPC_BUF_LEN_def)
  from recv_hdr_msg [OF this, of ZEIPC_TYPE_DEFAULT]
  have h: "zipc_client_recv_hdr (Some (take 10 (nl_data skb))) = Some ?hdr" unfolding d by simp
  have pl: "unat (mh_payloadSize ?hdr) = length x" "unat (mh_appType ?hdr) = 0" using ux by simp_all
  have fits: "10 + unat (mh_payloadSize ?hdr) \<le> length (nl_data skb)" "take (unat (mh_payloadSize ?hdr)) (drop 10 (nl_data skb)) = x"
    unfolding d pl(1) by simp_all
  obtain c where c: "owns t S T (zw_sch ?w)" "sch_wf t (zw_sch ?w) fs qs" "no_jobs (zw_sch ?w) qs" "can_new t (zw_sch ?w) (al_job al)"
    "opt_in S (al_job al)" "s \<in> T" "sx_sch (zw_sch ?w) s = Some c" "sc_thr c = Some t" "unat (sc_pri c) < EZCRTSchPri_num"
    "held s (queues (zw_sch ?w) qs ! unat (sc_pri c)) < unat (sc_maxsize c)" by (rule idle_threadE [OF t1(1)])
  let ?k = "unat (sc_pri c)"
  have cr: "can_recv al ?w as t fs qs s ?k" using p al c t1(2) by (simp add: can_recv_def)
  obtain w1 ia jj b as1 where r: "nl_data_recv ra al hdrlen space skb nw = Inr (nw\<lparr>nw_pid := nl_msg_pid skb, nw_ipc := w1\<rparr>)"
    "zcrt_schedule_sendjob_argn (al_job al) (Some s) (Some nl_msg_proc_job_fn) 4
      [nw_kipc nw, ia, 0, unat (nl_msg_pid skb)] (zw_sch ?w) = Inr (EZCRTErr_success, zw_sch w1)"
    "queues (zw_sch w1) (qs[?k := qs ! ?k @ [jj]]) = (queues (zw_sch ?w) qs)[?k := queues (zw_sch ?w) qs ! ?k @
      [the_job s nl_msg_proc_job_fn 4 [nw_kipc nw, ia, 0, unat (nl_msg_pid skb)]]]"
    "sch_wf t (zw_sch w1) (tl fs) (qs[?k := qs ! ?k @ [jj]])"
    "zw_buf w1 ia = Some b" "buf_wf b" "unread b = x" "unat (zb_len b) = length x" "pool_wf (zw_ipc w1) (zw_buf w1) as1" "ia \<notin> set as1" "set as1 \<subseteq> set as"
    "ia \<in> set as \<or> zw_buf ?w ia = None" "\<And>y. y \<noteq> ia \<Longrightarrow> zw_buf w1 y = zw_buf ?w y" "\<And>q. (zw_ipc w1)\<lparr>im_freebuf := q\<rparr> = (zw_ipc ?w)\<lparr>im_freebuf := q\<rparr>"
    "zw_comp w1 = zw_comp ?w" "zw_ext w1 = zw_ext ?w" "zw_sent w1 = zw_sent ?w" "as = ia # as1 \<or> as = [] \<and> as1 = [] \<and> al_buf al = Some ia"
    by (rule nl_recv_job [OF ra cr live skb h fits(1), unfolded pl fits(2) [unfolded pl]]) (rule that)
  have kp: "keeps t S T (zw_sch ?w) (zw_sch w1)" by (rule sendjob_argn_keeps [OF c(1,6,5) r(2)])
  then have "one_job (zw_sch w1) t S T (the_job s nl_msg_proc_job_fn 4 [nw_kipc nw, ia, 0, unat (nl_msg_pid skb)])"
    using only_job [OF c(2,3,9) r(3)] r(4) c(9) unfolding one_job_def keeps_def by blast
  then show ?thesis by (rule that [OF r(1) _ kp r(5-10,18,13-17)])
qed

text \<open>
  A server that has answered before: its threads are ready and two buffers are in the pool.
\<close>

definition nl_warm :: "'w zNlWorld \<Rightarrow> addr \<Rightarrow> addr set \<Rightarrow> addr set \<Rightarrow> addr \<Rightarrow> addr set \<Rightarrow> addr set \<Rightarrow> bool" where
  "nl_warm nw t1 S1 T1 t2 S2 T2 \<longleftrightarrow> nw_kipc nw \<noteq> 0 \<and> threads_ready (nw_ipc nw) t1 S1 T1 t2 S2 T2 \<and>
     (\<exists>as. pool_wf (zw_ipc (nw_ipc nw)) (zw_buf (nw_ipc nw)) as \<and> 2 \<le> length as)"

lemma nl_request_round:
  fixes nw :: "'w zNlWorld"
  defines "w \<equiv> nw_ipc nw"
  assumes ra: "realloc_total ra" and live: "nw_kipc nw \<noteq> 0"
    and t1: "idle_thread (zw_sch w) t1 S1 T1 fs1 qs1 s1 (al_job al1)" "im_sch (zw_ipc w) = Some s1"
    and t2: "idle_thread (zw_sch w) t2 S2 T2 fs2 qs2 s2 (al_job al2)" "im_respondSch (zw_ipc w) = Some s2"
    and ap: "apart t1 S1 T1 t2 S2 T2"
    and skb: "space \<le> nl_skb_len skb" "unat (nl_msg_len skb - hdrlen) = length (nl_data skb)"
    and rx: "nl_data skb = hdr_bytes (msg_hdr ZEIPC_TYPE_DEFAULT (of_nat (length (enc_request hs cname aname @ args)))) @
      enc_request hs cname aname @ args @ rest"
    and req: "length (enc_request hs cname aname @ args) < 8192" "length hs < 2 ^ 32" "ch_req (fold apply_field hs ch_zero)"
      "is_name cname" "cname \<noteq> []" "is_name aname" "aname \<noteq> []"
    and p: "pool_wf (zw_ipc w) (zw_buf w) as"
    and al: "can_buf (al_buf al1) (al_bytes al1) (zw_buf w) as"
      "2 \<le> length as \<or> (\<exists>n. al_buf al2 = Some n \<and> zw_buf w n = None \<and> al_bytes al2 \<and> al_buf al1 \<noteq> Some n)"
    and sv: "served (zw_comp w) (zw_ipc w) cname aname c f"
    and call: "answers run_call f c args (reply_head hs) data (zw_comp w, zw_ext w) (comp1, ext1)"
  defines "body \<equiv> enc_reply_ch (ch_sn (fold apply_field hs ch_zero)) True @ data"
  defines "reply \<equiv> hdr_bytes (msg_hdr ZEIPC_TYPE_DEFAULT (of_nat (length body))) @ body"
  obtains w1 w2 w3 where "nl_data_recv ra al1 hdrlen space skb nw = Inr (nw\<lparr>nw_pid := nl_msg_pid skb, nw_ipc := w1\<rparr>)" "zw_sent w1 = zw_sent w"
    "wake_with (nl_job ok run_call ra al2) t1 w1 = Inr w2" "zw_sent w2 = zw_sent w" "zw_comp w2 = comp1" "zw_ext w2 = ext1"
    "if too_long ok reply then wake_with (nl_job ok run_call ra al2) t2 w2 = Inl AssertFailed
     else wake_with (nl_job ok run_call ra al2) t2 w2 = Inr w3 \<and> zw_comp w3 = comp1 \<and> zw_ext w3 = ext1 \<and>
       zw_sent w3 = zw_sent w @ datagrams ok (nl_msg_pid skb) reply \<and>
       nl_warm (nw\<lparr>nw_pid := nl_msg_pid skb, nw_ipc := w3\<rparr>) t1 S1 T1 t2 S2 T2 \<and>
       (\<forall>q. (zw_ipc w3)\<lparr>im_freebuf := q\<rparr> = (zw_ipc w)\<lparr>im_freebuf := q\<rparr>)"
proof -
  let ?x = "enc_request hs cname aname @ args" 
  have d: "nl_data skb = hdr_bytes (msg_hdr ZEIPC_TYPE_DEFAULT (of_nat (length ?x))) @ ?x @ rest" using rx by simp
  obtain w1 ia b as1 where r: "nl_data_recv ra al1 hdrlen space skb nw = Inr (nw\<lparr>nw_pid := nl_msg_pid skb, nw_ipc := w1\<rparr>)"
    "one_job (zw_sch w1) t1 S1 T1 (the_job s1 nl_msg_proc_job_fn 4 [nw_kipc nw, ia, 0, unat (nl_msg_pid skb)])"
    "keeps t1 S1 T1 (zw_sch w) (zw_sch w1)" "zw_buf w1 ia = Some b" "buf_wf b" "unread b = ?x" "unat (zb_len b) = length ?x"
    "pool_wf (zw_ipc w1) (zw_buf w1) as1" "ia \<notin> set as1" "as = ia # as1 \<or> as = [] \<and> as1 = [] \<and> al_buf al1 = Some ia" "\<And>a. a \<noteq> ia \<Longrightarrow> zw_buf w1 a = zw_buf w a"
    "\<And>q. (zw_ipc w1)\<lparr>im_freebuf := q\<rparr> = (zw_ipc w)\<lparr>im_freebuf := q\<rparr>"
    "zw_comp w1 = zw_comp w" "zw_ext w1 = zw_ext w" "zw_sent w1 = zw_sent w"
    by (rule nl_round_queued [OF ra live t1 [unfolded w_def] skb d req(1) p [unfolded w_def] al(1) [unfolded w_def], folded w_def]) (rule that)
  have o1: "owns t1 S1 T1 (zw_sch w)" using t1(1) by (simp add: idle_thread_def)
  have e: "elsewhere t1 S1 T1 (zw_sch w) (zw_sch w1)" "owns t1 S1 T1 (zw_sch w1)" using r(3) by (simp_all add: keeps_def)
  have n2: "can_buf (al_buf al2) (al_bytes al2) (zw_buf w1) as1"
    by (rule second_buf [OF p al(2) r(10), of ia]) (simp_all add: r(11))
  have rs: "im_respondSch (zw_ipc w1) = Some s2" using arg_cong [OF r(12) [of None], of im_respondSch] t2(2) by simp
  have sv1: "served (zw_comp w1) (zw_ipc w1) cname aname c f" using sv served_ipc r(12,13) by metis
  have call1: "answers run_call f c args (reply_head hs) data (zw_comp w1, zw_ext w1) (comp1, ext1)" using call r(13,14) by simp
  have lb: "unat (zb_len b) < 2 ^ 31" using r(7) req(1) by simp
  obtain w2 oa b2 as2 where a: "wake_with (nl_job ok run_call ra al2) t1 w1 = Inr w2" "at_rest (zw_sch w2) t1 S1 T1"
    "one_job (zw_sch w2) t2 S2 T2 (the_job s2 zipc_netlink_send_fn 3 [nw_kipc nw, oa, unat (nl_msg_pid skb)])" "zw_comp w2 = comp1" "zw_ext w2 = ext1"
    "zw_sent w2 = zw_sent w1" "zw_buf w2 oa = Some b2" "buf_wf b2"
    "contents b2 = reply"
    "pool_wf (zw_ipc w2) (zw_buf w2) (ia # as2)" "oa \<notin> set (ia # as2)" "room (zw_sch w2) = room (zw_sch w1)"
    "\<And>q. (zw_ipc w2)\<lparr>im_freebuf := q\<rparr> = (zw_ipc w1)\<lparr>im_freebuf := q\<rparr>"
    by (rule nl_wake_answers [where ok = ok, OF ra r(2) idle_elsewhere [OF e(1) o1 e(2) ap t2(1)] rs ap r(8) n2 r(9,4,5) lb r(6) req(2-7) sv1 call1,
        folded body_def reply_def])
      (rule that)
  show ?thesis
  proof (cases "too_long ok reply")
    case True
    have "wake_with (nl_job ok run_call ra al2) t2 w2 = Inl AssertFailed"
      by (rule nl_wake_too_long [OF a(3,7,8)]) (simp add: a(9) True)
    then show ?thesis using True r(1,15) a(1,4,5,6) by (intro that [of w1 w2]) simp_all
  next
    case False
    then have short: "\<not> too_long ok (contents b2)" using a(9) by simp
    obtain w3 where s: "wake_with (nl_job ok run_call ra al2) t2 w2 = Inr w3" "at_rest (zw_sch w3) t2 S2 T2" "keeps t2 S2 T2 (zw_sch w2) (zw_sch w3)"
      "zw_sent w3 = zw_sent w2 @ datagrams ok (nl_msg_pid skb) (contents b2)" "zw_comp w3 = zw_comp w2" "zw_ext w3 = zw_ext w2"
      "pool_wf (zw_ipc w3) (zw_buf w3) (oa # ia # as2)" "\<And>q. (zw_ipc w3)\<lparr>im_freebuf := q\<rparr> = (zw_ipc w2)\<lparr>im_freebuf := q\<rparr>"
      by (rule nl_wake_sends [OF a(3,7,8,11,10) short, of run_call ra al2]) (rule that)
    have r1: "at_rest (zw_sch w3) t1 S1 T1"
      using at_rest_elsewhere [OF _ _ _ apart_sym [OF ap] a(2), of "zw_sch w3"] s(3) a(3) by (simp add: keeps_def one_job_def)
    have ipc: "(zw_ipc w3)\<lparr>im_freebuf := q\<rparr> = (zw_ipc w)\<lparr>im_freebuf := q\<rparr>" for q using r(12) a(13) s(8) by simp
    have "room (zw_sch w3) = room (zw_sch w)" using keeps_room [OF r(3)] a(12) keeps_room [OF s(3)] by simp
    then have "threads_ready w3 t1 S1 T1 t2 S2 T2" by (rule threads_readyI [OF t1 t2 ipc _ r1 s(2)])
    then have "nl_warm (nw\<lparr>nw_pid := nl_msg_pid skb, nw_ipc := w3\<rparr>) t1 S1 T1 t2 S2 T2"
      unfolding nl_warm_def using live s(7) by (auto intro!: exI [of _ "oa # ia # as2"])
    then show ?thesis using False r(1,15) a(1,4,5,6,9) s(1,4,5,6) ipc by (intro that [of w1 w2 w3]) simp_all
  qed
qed

text \<open>C5. A datagram with a request for a registered call is answered by one datagram: receiving it queues one job and
  sends nothing; the thread of the messages runs the call once and queues the reply; the thread of the replies sends the
  header, the common header and the data of the call to the process that asked. Without a socket buffer from the kernel the
  reply is dropped instead. Either way the server is warm afterwards: both threads are idle, the buffers are back in the
  pool, and the next request needs no memory. Only a reply of 64000 bytes or more, for which there is a socket buffer,
  fails the assertion of the sending.\<close>

theorem nl_request_flow:
  fixes nw :: "'w zNlWorld"
  defines "w \<equiv> nw_ipc nw"
  assumes ra: "realloc_total ra" and live: "nw_kipc nw \<noteq> 0"
    and t1: "idle_thread (zw_sch w) t1 S1 T1 fs1 qs1 s1 (al_job al1)" "im_sch (zw_ipc w) = Some s1"
    and t2: "idle_thread (zw_sch w) t2 S2 T2 fs2 qs2 s2 (al_job al2)" "im_respondSch (zw_ipc w) = Some s2"
    and ap: "apart t1 S1 T1 t2 S2 T2"
    and skb: "space \<le> nl_skb_len skb" "unat (nl_msg_len skb - hdrlen) = length (nl_data skb)"
    and rx: "nl_data skb = hdr_bytes (msg_hdr ZEIPC_TYPE_DEFAULT (of_nat (length (enc_request hs cname aname @ args)))) @
      enc_request hs cname aname @ args @ rest"
    and req: "length (enc_request hs cname aname @ args) < 8192" "length hs < 2 ^ 32" "ch_req (fold apply_field hs ch_zero)"
      "is_name cname" "cname \<noteq> []" "is_name aname" "aname \<noteq> []"
    and p: "pool_wf (zw_ipc w) (zw_buf w) as"
    and al: "al_buf al1 = Some n1" "zw_buf w n1 = None" "al_bytes al1" "al_buf al2 = Some n2" "zw_buf w n2 = None" "al_bytes al2" "n1 \<noteq> n2"
    and sv: "served (zw_comp w) (zw_ipc w) cname aname c f"
    and call: "answers run_call f c args (reply_head hs) data (zw_comp w, zw_ext w) (comp1, ext1)"
  shows "\<exists>w1 w2. nl_data_recv ra al1 hdrlen space skb nw = Inr (nw\<lparr>nw_pid := nl_msg_pid skb, nw_ipc := w1\<rparr>) \<and> zw_sent w1 = zw_sent w \<and>
    wake_with (nl_job ok run_call ra al2) t1 w1 = Inr w2 \<and> zw_sent w2 = zw_sent w \<and> zw_comp w2 = comp1 \<and> zw_ext w2 = ext1 \<and>
    (let body = enc_reply_ch (ch_sn (fold apply_field hs ch_zero)) True @ data;
         reply = hdr_bytes (msg_hdr ZEIPC_TYPE_DEFAULT (of_nat (length body))) @ body
     in if ok \<and> 64000 \<le> length reply then wake_with (nl_job ok run_call ra al2) t2 w2 = Inl AssertFailed
        else \<exists>w3. wake_with (nl_job ok run_call ra al2) t2 w2 = Inr w3 \<and> zw_comp w3 = comp1 \<and> zw_ext w3 = ext1 \<and>
          zw_sent w3 = zw_sent w @ (if ok then [(unat (nl_msg_pid skb), reply)] else []) \<and>
          nl_warm (nw\<lparr>nw_pid := nl_msg_pid skb, nw_ipc := w3\<rparr>) t1 S1 T1 t2 S2 T2)"
proof -
  have a: "can_buf (al_buf al1) (al_bytes al1) (zw_buf w) as"
    "2 \<le> length as \<or> (\<exists>n. al_buf al2 = Some n \<and> zw_buf w n = None \<and> al_bytes al2 \<and> al_buf al1 \<noteq> Some n)"
    using al by (simp_all add: can_buf_def)
  define body where "body = enc_reply_ch (ch_sn (fold apply_field hs ch_zero)) True @ data"
  define reply where "reply = hdr_bytes (msg_hdr ZEIPC_TYPE_DEFAULT (of_nat (length body))) @ body"
  show ?thesis
    unfolding Let_def w_def body_def [symmetric] reply_def [symmetric] too_long_def [symmetric] datagrams_def [symmetric]
    by (rule nl_request_round [where ok = ok, OF ra live t1 [unfolded w_def] t2 [unfolded w_def] ap skb rx req p [unfolded w_def] a [unfolded w_def]
        sv [unfolded w_def] call [unfolded w_def], folded body_def reply_def])
      (auto split: if_splits)
qed

definition nl_flow_world :: "unit zNlWorld" where
  "nl_flow_world = \<lparr>nw_kipc = 700, nw_pid = 0, nw_ipc = flow_world\<rparr>"

definition nl_datagram :: "u8 list \<Rightarrow> zNlMsg" where
  "nl_datagram x = \<lparr>nl_skb_len = 28, nl_msg_len = of_nat (26 + length x), nl_msg_pid = 77,
     nl_data = hdr_bytes (msg_hdr ZEIPC_TYPE_DEFAULT (of_nat (length x))) @ x\<rparr>"

text \<open>The reply of the example is short: a socket buffer sends it, and none drops it.\<close>

lemma short_reply: "\<not> 64000 \<le> length (hdr_bytes (msg_hdr ty n) @ enc_reply_ch sn True)"
  using enc_reply_ch_short [of sn True] by simp

theorem nl_request_flow_witness:
  "\<exists>x w1 w2 w3. nl_data_recv realloc_zero (rn_alloc (flow_round [])) 16 28 (nl_datagram x) nl_flow_world =
      Inr (nl_flow_world\<lparr>nw_pid := 77, nw_ipc := w1\<rparr>) \<and>
    wake_with (nl_job True (\<lambda>f c i ob st. Inr (EZCRTErr_success, i, ob, st)) realloc_zero alloc_example) 2 w1 = Inr w2 \<and>
    wake_with (nl_job True (\<lambda>f c i ob st. Inr (EZCRTErr_success, i, ob, st)) realloc_zero alloc_example) 5 w2 = Inr w3 \<and>
    zw_sent w3 = [(77, hdr_bytes (msg_hdr ZEIPC_TYPE_DEFAULT (of_nat (length (enc_reply_ch 3 True)))) @ enc_reply_ch 3 True)]"
proof -
  let ?x = "enc_request [F_sn 3, F_req True] [115] [103] @ []"
  let ?call = "\<lambda>f c i ob st. Inr (EZCRTErr_success, i, ob, st)"
  let ?al = "rn_alloc (flow_round [])" and ?w = "nw_ipc nl_flow_world"
  have w: "zw_sch ?w = idle_world" "im_sch (zw_ipc ?w) = Some 3" "im_respondSch (zw_ipc ?w) = Some 4" "nw_kipc nl_flow_world \<noteq> 0"
    "zw_buf ?w 402 = None" "zw_buf ?w 400 = None" "zw_sent ?w = []"
    by (simp_all add: nl_flow_world_def flow_world_def world_example_def ipc_example_def)
  have a: "al_buf ?al = Some 402" "al_bytes ?al" "al_job ?al = Some 11" "al_buf alloc_example = Some 400" "al_bytes alloc_example" "al_job alloc_example = Some 12"
    by (simp_all add: flow_round_def alloc_example_def)
  have l: "length ?x < 8192" using request_short [of 103] by simp
  have "unat (of_nat (10 + length ?x) :: u32) = 10 + length ?x" using l by (intro unat_of_nat_u32_small) (simp del: length_append)
  then have k: "(28 :: u32) \<le> nl_skb_len (nl_datagram ?x)" "unat (nl_msg_len (nl_datagram ?x) - 16) = length (nl_data (nl_datagram ?x))"
    "nl_data (nl_datagram ?x) = hdr_bytes (msg_hdr ZEIPC_TYPE_DEFAULT (of_nat (length ?x))) @ enc_request [F_sn 3, F_req True] [115] [103] @ [] @ []"
    by (simp_all add: nl_datagram_def)
  have p: "pool_wf (zw_ipc ?w) (zw_buf ?w) []" by (simp add: pool_wf_def nl_flow_world_def flow_world_def ipc_example_def)
  have sv: "served (zw_comp ?w) (zw_ipc ?w) [115] [103] 100 7"
    using example_served(1) by (simp add: nl_flow_world_def flow_world_def world_example_def served_def)
  have an: "answers ?call 7 100 [] (reply_head [F_sn 3, F_req True]) [] (zw_comp ?w, zw_ext ?w) (zw_comp ?w, zw_ext ?w)"
    by (simp add: answers_def)
  note t = idle_threads [folded w(1), folded a(3,6)]
  from nl_request_flow [where ok = True, OF realloc_zero_total w(4) t(1) w(2) t(2) w(3) t(4) k l _ _ example_names(1) _ example_names(2) _ p
      a(1) w(5) a(2,4) w(6) a(5) _ sv an]
  show ?thesis using w(7) short_reply by (fastforce simp: ch_zero_def nl_datagram_def Let_def)
qed


section \<open>From an event to the process that hooked it\<close>

text \<open>C7. An event that the application can encode reaches the process that hooked it as one datagram: the callback
  queues one job and sends nothing; the thread of the events sends the notification, which carries the next number of the
  kernel's counter, so that two events in a row have different serial numbers. Without a socket buffer from the kernel the
  notification is dropped and the thread is idle again; a notification of 64000 bytes or more, for which there is a socket
  buffer, fails the assertion of the sending.\<close>

theorem nl_event_flow:
  fixes pid :: u32
  assumes ra: "realloc_total ra" and fn: "im_evt_encode (zw_ipc w) = Some fn"
    and enc: "puts (\<lambda>v. rbind (enc fn evtid evtdata v) (\<lambda>(r, v1). Inr (r = 0, v1))) data"
    and small: "length (event_body (zw_uid w + 1) evtid data) + 26 < 2 ^ 31"
    and th: "idle_thread (zw_sch w) t S T fs qs s (al_job al)" "im_evtSch (zw_ipc w) = Some s" and p: "pool_wf (zw_ipc w) (zw_buf w) as"
    and al: "al_buf al = Some n" "zw_buf w n = None" "al_bytes al"
  shows "\<exists>w1. nl_hookevent_cb enc ra al evtid evtdata ipcp pid w = Inr w1 \<and> zw_sent w1 = zw_sent w \<and> zw_uid w1 = zw_uid w + 1 \<and>
    (let body = event_body (zw_uid w + 1) evtid data;
         msg = hdr_bytes (msg_hdr ZEIPC_TYPE_LINK (of_nat (length body))) @ body
     in if ok \<and> 64000 \<le> length msg then wake_with (nl_job ok run_call ra al) t w1 = Inl AssertFailed
        else \<exists>w2. wake_with (nl_job ok run_call ra al) t w1 = Inr w2 \<and> at_rest (zw_sch w2) t S T \<and>
          zw_sent w2 = zw_sent w @ (if ok then [(unat pid, msg)] else []))"
proof -
  obtain c where c: "owns t S T (zw_sch w)" "sch_wf t (zw_sch w) fs qs" "no_jobs (zw_sch w) qs" "can_new t (zw_sch w) (al_job al)"
    "opt_in S (al_job al)" "s \<in> T" "sx_sch (zw_sch w) s = Some c" "sc_thr c = Some t" "unat (sc_pri c) < EZCRTSchPri_num"
    "held s (queues (zw_sch w) qs ! unat (sc_pri c)) < unat (sc_maxsize c)" by (rule idle_threadE [OF th(1)])
  let ?k = "unat (sc_pri c)" and ?body = "event_body (zw_uid w + 1) evtid data"
  have ca: "can_buf (al_buf al) (al_bytes al) (zw_buf w) as" using al by (simp add: can_buf_def)
  obtain a as1 b ipc h where m: "pool_malloc al w = Inr (Some a, w\<lparr>zw_ipc := ipc, zw_buf := h\<rparr>)" "pool_wf ipc h as1" "a \<notin> set as1"
    "h a = Some b" "buf_wf b" "zb_len b = 0" "\<And>q. ipc\<lparr>im_freebuf := q\<rparr> = (zw_ipc w)\<lparr>im_freebuf := q\<rparr>"
    by (rule pool_malloc_spec [OF p ca]) (rule that)
  have i: "im_evt_encode ipc = Some fn" "im_evtSch ipc = Some s"
    using arg_cong [OF m(7) [of None], of im_evt_encode] arg_cong [OF m(7) [of None], of im_evtSch] fn th(2) by simp_all
  have small': "length (event_body (fst (kern_atom_inc (zw_uid w))) evtid data) + 26 < 2 ^ 31" using small by (simp add: kern_atom_inc_def)
  obtain b' where b': "zipc_encode_event kern_atom_inc enc ra (Some ipc) evtid evtdata (Some b) (zw_uid w) =
      Inr (EZCRTErr_success, Some b', zw_uid w + 1)" "buf_wf b'"
    "contents b' = hdr_bytes (msg_hdr ZEIPC_TYPE_LINK (of_nat (length ?body))) @ ?body"
    by (rule encode_event_ok [where inc = kern_atom_inc and uid = "zw_uid w" and enc = enc and evtid = evtid and evtdata = evtdata,
        OF ra m(5,6) i(1) enc small']) (rule that; simp add: kern_atom_inc_def)
  let ?args = "[ipcp, a, unat pid]"
  have ar: "(3 :: u32) \<noteq> 0" "unat (3 :: u32) \<le> ZCRT_CB_MAX_ARGS" "length ?args = unat (3 :: u32)" by (simp_all add: ZCRT_CB_MAX_ARGS_def)
  obtain j sch where j: "zcrt_schedule_sendjob_argn (al_job al) (Some s) (Some zipc_netlink_send_fn) 3 ?args (zw_sch w) = Inr (EZCRTErr_success, sch)"
    "sch_wf t sch (tl fs) (qs[?k := qs ! ?k @ [j]])"
    "queues sch (qs[?k := qs ! ?k @ [j]]) = (queues (zw_sch w) qs)[?k := queues (zw_sch w) qs ! ?k @ [the_job s zipc_netlink_send_fn 3 ?args]]"
    using sendjob_argn_ok [OF c(2,4,7,8) refl c(9,10) ar] by metis
  let ?w1 = "(put_buf a (Some b') (w\<lparr>zw_ipc := ipc, zw_buf := h, zw_uid := zw_uid w + 1\<rparr>))\<lparr>zw_sch := sch\<rparr>"
  have hk: "nl_hookevent_cb enc ra al evtid evtdata ipcp pid w = Inr ?w1"
    using m(1,4) b'(1) j(1) i(2) by (simp add: nl_hookevent_cb_def nl_sendjob_argn_def put_buf_def Let_def)
  have s1: "zw_sch ?w1 = sch" "zw_buf ?w1 a = Some b'" "zw_sent ?w1 = zw_sent w" "zw_uid ?w1 = zw_uid w + 1" by (simp_all add: put_buf_def)
  have p1: "pool_wf (zw_ipc ?w1) (zw_buf ?w1) as1" using m(2,3) by (auto simp: pool_wf_def put_buf_def chain_upd)
  have j1: "one_job (zw_sch ?w1) t S T (the_job s zipc_netlink_send_fn 3 ?args)"
    unfolding s1(1) using only_job [OF c(2,3,9) j(3)] sendjob_argn_keeps [OF c(1,6,5) j(1)] j(2) c(9) unfolding one_job_def keeps_def by blast
  have fin: "if too_long ok (contents b') then wake_with (nl_job ok run_call ra al) t ?w1 = Inl AssertFailed
    else \<exists>w2. wake_with (nl_job ok run_call ra al) t ?w1 = Inr w2 \<and> at_rest (zw_sch w2) t S T \<and>
      zw_sent w2 = zw_sent w @ datagrams ok pid (contents b')"
    using nl_wake_too_long [OF j1 s1(2) b'(2), of ok run_call ra al] nl_wake_sends [OF j1 s1(2) b'(2) m(3) p1, of ok run_call ra al]
    unfolding s1(3) by (metis (full_types))
  show ?thesis
    by (rule exI [of _ ?w1], intro conjI, rule hk, rule s1(3), rule s1(4), unfold Let_def)
      (rule fin [unfolded b'(3) too_long_def datagrams_def])
qed

lemma short_event: "\<not> 64000 \<le> length (hdr_bytes (msg_hdr ty m) @ event_body n 5 (enc_int 7))"
  using enc_uint32_short [of n] enc_uint32_short [of 5] enc_int_short [of 1] enc_int_short [of 2] enc_int_short [of 7]
  by (simp add: event_body_def enc_ch_def enc_fields_def enc_str_def ch_names small_count)

theorem nl_event_flow_witness:
  "\<exists>w1 w2. nl_hookevent_cb int_encoder realloc_zero alloc_example 5 0 700 77 (flow_world\<lparr>zw_ipc := (zw_ipc flow_world)\<lparr>im_evt_encode := Some 9\<rparr>\<rparr>) = Inr w1 \<and>
    wake_with (nl_job True (\<lambda>f c i ob st. Inr (EZCRTErr_success, i, ob, st)) realloc_zero alloc_example) 5 w1 = Inr w2 \<and>
    zw_sent w2 = [(77, hdr_bytes (msg_hdr ZEIPC_TYPE_LINK (of_nat (length (event_body 1 5 (enc_int 7))))) @ event_body 1 5 (enc_int 7))]"
proof -
  let ?w = "flow_world\<lparr>zw_ipc := (zw_ipc flow_world)\<lparr>im_evt_encode := Some 9\<rparr>\<rparr>"
  have w: "zw_sch ?w = idle_world" "im_evtSch (zw_ipc ?w) = Some 6" "im_evt_encode (zw_ipc ?w) = Some 9" "zw_uid ?w + 1 = 1"
    "zw_buf ?w 400 = None" "zw_sent ?w = []" "al_job alloc_example = Some 12" "al_buf alloc_example = Some 400" "al_bytes alloc_example"
    by (simp_all add: flow_world_def world_example_def ipc_example_def alloc_example_def)
  have p: "pool_wf (zw_ipc ?w) (zw_buf ?w) []" by (simp add: pool_wf_def flow_world_def ipc_example_def)
  from nl_event_flow [where ok = True and enc = int_encoder and evtid = 5 and evtdata = 0, OF realloc_zero_total w(3) int_encoder_puts event_body_short
      idle_threads(3) [folded w(1,7)] w(2) p w(8,5,9), of 700 77]
  show ?thesis using w(4,6) short_event by (fastforce simp: Let_def)
qed

end
