(* ===== verification/Zipc_Session.thy ===== *)
theory Zipc_Session
  imports Zipc_Flow
begin

text \<open>
  A client that talks to the server on sockets: it sends a request, waits for the reply and sends the next. Every
  request goes its whole way through the three threads, as in \<^verbatim>\<open>Zipc_Flow\<close>; here the rounds are put one
  behind the other. What makes that possible is that a round leaves the server warm.
\<close>

section \<open>Requests and their rounds\<close>

text \<open>A request with the data its call answers.\<close>

record zRequest =
  rq_head :: "ch_field list"
  rq_comp :: "u8 list"
  rq_action :: "u8 list"
  rq_args :: "u8 list"
  rq_data :: "u8 list"

definition rq_bytes :: "zRequest \<Rightarrow> u8 list" where
  "rq_bytes r = enc_request (rq_head r) (rq_comp r) (rq_action r) @ rq_args r"

definition rq_ok :: "zRequest \<Rightarrow> bool" where
  "rq_ok r \<longleftrightarrow> length (rq_bytes r) < 8192 \<and> length (rq_head r) < 2 ^ 32 \<and> ch_req (fold apply_field (rq_head r) ch_zero) \<and>
     is_name (rq_comp r) \<and> rq_comp r \<noteq> [] \<and> is_name (rq_action r) \<and> rq_action r \<noteq> []"

definition rq_body :: "zRequest \<Rightarrow> u8 list" where
  "rq_body r = enc_reply_ch (ch_sn (fold apply_field (rq_head r) ch_zero)) True @ rq_data r"

definition rq_reply :: "zRequest \<Rightarrow> u8 list" where
  "rq_reply r = hdr_bytes (msg_hdr ZEIPC_TYPE_DEFAULT (of_nat (length (rq_body r)))) @ rq_body r"

text \<open>What the client's thread receives for it, when malloc gives \<^verbatim>\<open>al\<close>.\<close>

definition rq_round :: "zAlloc \<Rightarrow> zRequest \<Rightarrow> zRound" where
  "rq_round al r = \<lparr>rn_stop = False, rn_hdr = Some (hdr_bytes (msg_hdr ZEIPC_TYPE_DEFAULT (of_nat (length (rq_bytes r))))),
     rn_payload = Some (rq_bytes r), rn_alloc = al\<rparr>"

text \<open>Malloc without any memory left.\<close>

definition no_mem :: zAlloc where
  "no_mem = \<lparr>al_buf = None, al_bytes = False, al_job = None, al_sub = None\<rparr>"

lemma no_mem_simps [simp]: "al_buf no_mem = None" "al_job no_mem = None" "\<not> al_bytes no_mem"
  by (simp_all add: no_mem_def)

lemma rq_round_simps [simp]:
  "\<not> rn_stop (rq_round al r)" "rn_hdr (rq_round al r) = Some (hdr_bytes (msg_hdr ZEIPC_TYPE_DEFAULT (of_nat (length (rq_bytes r)))))"
  "rn_payload (rq_round al r) = Some (rq_bytes r)" "rn_alloc (rq_round al r) = al"
  by (simp_all add: rq_round_def)

section \<open>A session\<close>

text \<open>
  The rounds of the client's thread, with the threads of the messages and of the replies waking up behind each. The
  buffer for the next request and the world at the end; a round that ends the thread ends the session.
\<close>

fun session :: "'w ipc_call \<Rightarrow> realloc_fn \<Rightarrow> zAlloc \<Rightarrow> addr \<Rightarrow> addr \<Rightarrow> addr \<Rightarrow> zRound list \<Rightarrow> addr option \<Rightarrow> 'w zIpcWorld \<Rightarrow>
    (addr option \<times> 'w zIpcWorld) res" where
  "session run_call ra al client t1 t2 [] buf w = Inr (buf, w)"
| "session run_call ra al client t1 t2 (rn # rns) buf w =
     rbind (client_round ra client rn buf w) (\<lambda>(go, buf1, w1).
       if \<not> go then Inr (buf1, w1)
       else rbind (wake run_call ra al t1 w1) (\<lambda>w2. rbind (wake run_call ra al t2 w2) (\<lambda>w3.
         session run_call ra al client t1 t2 rns buf1 w3)))"

text \<open>The calls behind a list of requests, and what each does to the components and the world outside.\<close>

inductive calls :: "'w ipc_call \<Rightarrow> zIPCModule \<Rightarrow> zIpcHeap \<times> 'w \<Rightarrow> zRequest list \<Rightarrow> zIpcHeap \<times> 'w \<Rightarrow> bool"
  for run_call :: "'w ipc_call" and ipc :: zIPCModule where
  no_call: "calls run_call ipc st [] st"
| call: "served (fst st) ipc (rq_comp r) (rq_action r) c f \<Longrightarrow> answers run_call f c (rq_args r) (reply_head (rq_head r)) (rq_data r) st st1 \<Longrightarrow>
    calls run_call ipc st1 rs st2 \<Longrightarrow> calls run_call ipc st (r # rs) st2"

inductive_cases calls_NilE: "calls run_call ipc st [] st1"
inductive_cases calls_ConsE: "calls run_call ipc st (r # rs) st1"

lemma calls_ipc:
  assumes "calls run_call ipc st rs st1" "\<And>q. ipc'\<lparr>im_freebuf := q\<rparr> = ipc\<lparr>im_freebuf := q\<rparr>"
  shows "calls run_call ipc' st rs st1"
  using assms
proof (induction rule: calls.induct)
  case (call st r c f st1 rs st2)
  have "served (fst st) ipc' (rq_comp r) (rq_action r) c f" using call.hyps(1) served_ipc call.prems by metis
  then show ?case using call by (intro calls.call) simp_all
qed (rule calls.no_call)

lemma session_round:
  assumes ra: "realloc_total ra" and w: "warm w client cl ia t1 S1 T1 t2 S2 T2" and ap: "apart t1 S1 T1 t2 S2 T2" and r: "rq_ok r"
    and sv: "served (zw_comp w) (zw_ipc w) (rq_comp r) (rq_action r) c f"
    and call: "answers run_call f c (rq_args r) (reply_head (rq_head r)) (rq_data r) (zw_comp w, zw_ext w) st1"
  obtains w1 na w2 w3 where "client_round ra client (rq_round no_mem r) (Some ia) w = Inr (True, Some na, w1)"
    "wake run_call ra no_mem t1 w1 = Inr w2" "wake run_call ra no_mem t2 w2 = Inr w3" "(zw_comp w3, zw_ext w3) = st1"
    "zw_sent w3 = zw_sent w @ [(cl_sock cl, rq_reply r)]"
    "warm w3 client cl na t1 S1 T1 t2 S2 T2" "\<And>q. (zw_ipc w3)\<lparr>im_freebuf := q\<rparr> = (zw_ipc w)\<lparr>im_freebuf := q\<rparr>"
proof -
  obtain ib as where b: "threads_ready w t1 S1 T1 t2 S2 T2" "im_run (zw_ipc w)" "zw_client w client = Some cl"
    "zw_buf w ia = Some ib" "buf_wf ib" "ia \<notin> set as" "pool_wf (zw_ipc w) (zw_buf w) as" "2 \<le> length as"
    using w by (auto simp: warm_def)
  obtain fs1 qs1 s1 fs2 qs2 s2 where t: "idle_thread (zw_sch w) t1 S1 T1 fs1 qs1 s1 None" "im_sch (zw_ipc w) = Some s1"
    "idle_thread (zw_sch w) t2 S2 T2 fs2 qs2 s2 None" "im_respondSch (zw_ipc w) = Some s2" by (rule threads_readyE [OF b(1)])
  obtain comp1 ext1 where st: "st1 = (comp1, ext1)" by (cases st1)
  have q: "length (enc_request (rq_head r) (rq_comp r) (rq_action r) @ rq_args r) < 8192" "length (rq_head r) < 2 ^ 32"
    "ch_req (fold apply_field (rq_head r) ch_zero)" "is_name (rq_comp r)" "rq_comp r \<noteq> []" "is_name (rq_action r)" "rq_action r \<noteq> []"
    using r by (simp_all add: rq_ok_def rq_bytes_def)
  have al: "can_buf (al_buf no_mem) (al_bytes no_mem) (zw_buf w) as" using b(8) by (auto simp: can_buf_def)
  obtain w1 na w2 w3 where f: "client_round ra client (rq_round no_mem r) (Some ia) w = Inr (True, Some na, w1)" "zw_sent w1 = zw_sent w"
    "wake run_call ra no_mem t1 w1 = Inr w2" "zw_sent w2 = zw_sent w" "zw_comp w2 = comp1" "zw_ext w2 = ext1"
    "wake run_call ra no_mem t2 w2 = Inr w3" "zw_comp w3 = comp1" "zw_ext w3 = ext1" "zw_sent w3 = zw_sent w @ [(cl_sock cl, rq_reply r)]"
    "warm w3 client cl na t1 S1 T1 t2 S2 T2" "\<And>q. (zw_ipc w3)\<lparr>im_freebuf := q\<rparr> = (zw_ipc w)\<lparr>im_freebuf := q\<rparr>"
    by (rule request_round [where rn = "rq_round no_mem r" and al = no_mem and w = w, unfolded rq_round_simps no_mem_simps, OF ra t ap b(2) _ b(3) _ _ q b(4-7)
        al [unfolded no_mem_simps] _ sv call [unfolded st], folded rq_body_def, folded rq_reply_def])
      (simp, simp add: rq_bytes_def, simp add: rq_bytes_def, simp add: b(8), rule that)
  show ?thesis by (rule that [OF f(1,3,7) _ f(10-12)]) (simp add: st f(8,9))
qed

text \<open>C1. However many requests a client sends to a warm server, waiting for each reply before it sends the next, each is answered
  by exactly one message, in order, on the client's socket: header, common header and the data of its call. The calls run once each, in that
  order, each on what the one before left. The server is warm again, and malloc is not needed: it may fail all the time.\<close>

theorem server_session:
  assumes ra: "realloc_total ra" and w: "warm w client cl ia t1 S1 T1 t2 S2 T2" and ap: "apart t1 S1 T1 t2 S2 T2"
    and rs: "\<forall>r \<in> set rs. rq_ok r" and calls: "calls run_call (zw_ipc w) (zw_comp w, zw_ext w) rs st1"
  shows "\<exists>na w1. session run_call ra no_mem client t1 t2 (map (rq_round no_mem) rs) (Some ia) w = Inr (Some na, w1) \<and>
    zw_sent w1 = zw_sent w @ map (\<lambda>r. (cl_sock cl, rq_reply r)) rs \<and> (zw_comp w1, zw_ext w1) = st1 \<and>
    warm w1 client cl na t1 S1 T1 t2 S2 T2"
  using w rs calls
proof (induction rs arbitrary: w ia)
  case Nil
  then show ?case by (auto elim: calls_NilE)
next
  case (Cons r rs)
  obtain c f st where c: "served (zw_comp w) (zw_ipc w) (rq_comp r) (rq_action r) c f"
    "answers run_call f c (rq_args r) (reply_head (rq_head r)) (rq_data r) (zw_comp w, zw_ext w) st" "calls run_call (zw_ipc w) st rs st1"
    using Cons.prems(3) by (auto elim: calls_ConsE)
  have r: "rq_ok r" "\<forall>r \<in> set rs. rq_ok r" using Cons.prems(2) by simp_all
  obtain wa na wb w1 where s: "client_round ra client (rq_round no_mem r) (Some ia) w = Inr (True, Some na, wa)"
    "wake run_call ra no_mem t1 wa = Inr wb" "wake run_call ra no_mem t2 wb = Inr w1" "(zw_comp w1, zw_ext w1) = st"
    "zw_sent w1 = zw_sent w @ [(cl_sock cl, rq_reply r)]"
    "warm w1 client cl na t1 S1 T1 t2 S2 T2" "\<And>q. (zw_ipc w1)\<lparr>im_freebuf := q\<rparr> = (zw_ipc w)\<lparr>im_freebuf := q\<rparr>"
    by (rule session_round [OF ra Cons.prems(1) ap r(1) c(1,2)]) (rule that)
  have "calls run_call (zw_ipc w1) (zw_comp w1, zw_ext w1) rs st1" using calls_ipc [OF c(3) s(7)] s(4) by simp
  from Cons.IH [OF s(6) r(2) this] show ?case using s(1-3,5) by auto
qed

text \<open>A server that has just answered its first request answers two more.\<close>

definition rq_example :: zRequest where
  "rq_example = \<lparr>rq_head = [F_sn 3, F_req True], rq_comp = [115], rq_action = [103], rq_args = [], rq_data = []\<rparr>"

definition no_op_call :: "unit ipc_call" where
  "no_op_call f c i ob st = Inr (EZCRTErr_success, i, ob, st)"

lemma rq_example_ok: "rq_ok rq_example"
  using request_short [of 103] example_names by (simp add: rq_ok_def rq_example_def rq_bytes_def ch_zero_def)

lemma no_op_answers: "answers no_op_call f c [] pre [] st st"
  by (simp add: answers_def no_op_call_def)

lemma flow_world_warms:
  obtains w :: "unit zIpcWorld" and na where "warm w 300 client_example na 2 {11} {3} 5 {12} {4, 6}" "zw_sent w = [(4, rq_reply rq_example)]"
    "zw_comp w = zw_comp flow_world" "\<And>q. (zw_ipc w)\<lparr>im_freebuf := q\<rparr> = (zw_ipc flow_world)\<lparr>im_freebuf := q\<rparr>"
proof -
  let ?b = "zbuf_zero\<lparr>zb_buf := Some (replicate 8192 0), zb_maxlen := ZIPC_BUF_LEN\<rparr>"
  let ?rn = "rq_round \<lparr>al_buf = Some 402, al_bytes = True, al_job = Some 11, al_sub = None\<rparr> rq_example"
  have w: "zw_sch flow_world = idle_world" "im_sch (zw_ipc flow_world) = Some 3" "im_respondSch (zw_ipc flow_world) = Some 4" "im_run (zw_ipc flow_world)"
    "zw_client flow_world 300 = Some client_example" "zw_buf flow_world 401 = Some ?b" "zw_buf flow_world 402 = None" "zw_buf flow_world 400 = None"
    "zw_sent flow_world = []" "cl_sock client_example = 4"
    by (simp_all add: flow_world_def world_example_def client_example_def ipc_example_def)
  have b: "buf_wf ?b" by (simp add: buf_wf_def zbuf_zero_def ZIPC_BUF_LEN_def)
  have p: "pool_wf (zw_ipc flow_world) (zw_buf flow_world) []" by (simp add: pool_wf_def flow_world_def ipc_example_def)
  have al: "can_buf (al_buf (rn_alloc ?rn)) (al_bytes (rn_alloc ?rn)) (zw_buf flow_world) []"
    "2 \<le> length ([] :: addr list) \<or> (\<exists>n. al_buf alloc_example = Some n \<and> zw_buf flow_world n = None \<and> al_bytes alloc_example \<and> al_buf (rn_alloc ?rn) \<noteq> Some n)"
    using w(7,8) by (simp_all add: can_buf_def alloc_example_def)
  have t: "idle_thread (zw_sch flow_world) 2 {11} {3} [] [[], [], []] 3 (al_job (rn_alloc ?rn))"
    "idle_thread (zw_sch flow_world) 5 {12} {4, 6} [] [[], [], []] 4 (al_job alloc_example)"
    using idle_threads(1,2) w(1) by (simp_all add: alloc_example_def)
  have sv: "served (zw_comp flow_world) (zw_ipc flow_world) (rq_comp rq_example) (rq_action rq_example) 100 7"
    using example_served(1) by (simp add: rq_example_def flow_world_def world_example_def served_def)
  have q: "length (enc_request (rq_head rq_example) (rq_comp rq_example) (rq_action rq_example) @ rq_args rq_example) < 8192" "length (rq_head rq_example) < 2 ^ 32"
    "ch_req (fold apply_field (rq_head rq_example) ch_zero)" "is_name (rq_comp rq_example)" "rq_comp rq_example \<noteq> []"
    "is_name (rq_action rq_example)" "rq_action rq_example \<noteq> []" using rq_example_ok by (simp_all add: rq_ok_def rq_bytes_def)
  have an: "answers no_op_call 7 100 (rq_args rq_example) (reply_head (rq_head rq_example)) (rq_data rq_example)
      (zw_comp flow_world, zw_ext flow_world) (zw_comp flow_world, zw_ext flow_world)"
    using no_op_answers by (simp add: rq_example_def)
  have rx: "rn_hdr ?rn = Some (hdr_bytes (msg_hdr ZEIPC_TYPE_DEFAULT (of_nat (length (enc_request (rq_head rq_example) (rq_comp rq_example) (rq_action rq_example) @ rq_args rq_example)))))"
    "rn_payload ?rn = Some (enc_request (rq_head rq_example) (rq_comp rq_example) (rq_action rq_example) @ rq_args rq_example)" by (simp_all add: rq_bytes_def)
  have i: "401 \<notin> set ([] :: addr list)" and st: "\<not> rn_stop ?rn" by simp_all
  show ?thesis
    by (rule request_round [OF realloc_zero_total t(1) w(2) t(2) w(3) idle_threads(4) w(4) st w(5) rx q w(6) b i p al sv an, folded rq_body_def, folded rq_reply_def, unfolded w(9,10) append_Nil])
      (rule that)
qed

theorem server_session_witness:
  "\<exists>w na na1 w1. zw_sent w = [(4, rq_reply rq_example)] \<and>
    session no_op_call realloc_zero no_mem 300 2 5 (map (rq_round no_mem) [rq_example, rq_example]) (Some na) w = Inr (Some na1, w1) \<and>
    zw_sent w1 = [(4, rq_reply rq_example), (4, rq_reply rq_example), (4, rq_reply rq_example)]"
proof -
  obtain w :: "unit zIpcWorld" and na where w: "warm w 300 client_example na 2 {11} {3} 5 {12} {4, 6}" "zw_sent w = [(4, rq_reply rq_example)]"
    "zw_comp w = zw_comp flow_world" "\<And>q. (zw_ipc w)\<lparr>im_freebuf := q\<rparr> = (zw_ipc flow_world)\<lparr>im_freebuf := q\<rparr>"
    by (rule flow_world_warms) (rule that)
  have "served (zw_comp flow_world) (zw_ipc flow_world) (rq_comp rq_example) (rq_action rq_example) 100 7"
    using example_served(1) by (simp add: rq_example_def flow_world_def world_example_def served_def)
  then have sv: "served (zw_comp w) (zw_ipc w) (rq_comp rq_example) (rq_action rq_example) 100 7" using served_ipc w(3,4) by metis
  have an: "answers no_op_call 7 100 (rq_args rq_example) (reply_head (rq_head rq_example)) (rq_data rq_example) (zw_comp w, zw_ext w) (zw_comp w, zw_ext w)"
    using no_op_answers by (simp add: rq_example_def)
  have c: "calls no_op_call (zw_ipc w) (zw_comp w, zw_ext w) [rq_example, rq_example] (zw_comp w, zw_ext w)"
    using sv an by (intro calls.call [of _ _ _ 100 7 _ "(zw_comp w, zw_ext w)"] calls.no_call) simp_all
  have r: "\<forall>r \<in> set [rq_example, rq_example]. rq_ok r" using rq_example_ok by simp
  from server_session [OF realloc_zero_total w(1) idle_threads(4) r c] w(2) show ?thesis by (fastforce simp: client_example_def)
qed

end
