(* ===== verification/Zipc_Broadcast.thy ===== *)
theory Zipc_Broadcast
  imports Zipc_Session
begin

text \<open>
  Events on their way to all clients that hooked them: the event manager calls the subscribers one after the other, each
  hook puts a message into a buffer of the pool and a job into the queue of the events, and the thread of
  the events sends them when it wakes up. The operations are those of \<^verbatim>\<open>zcrtlib/zevent.c\<close>,
  \<^verbatim>\<open>zcrtlib/zschedule.c\<close> and \<^verbatim>\<open>zipc/zipc_server_os.c\<close>; here the server's side of events is shown to be a bounded mailbox.
\<close>

section \<open>Jobs of one schedule that wait\<close>

text \<open>
  The thread's only jobs are \<^verbatim>\<open>js\<close>, all of the schedule \<^verbatim>\<open>s\<close>, and without malloc it can take exactly
  \<^verbatim>\<open>k\<close> more: as many as it has free nodes, and no more than the size of the schedule allows.
\<close>

definition pending :: "zSchWorld \<Rightarrow> addr \<Rightarrow> addr set \<Rightarrow> addr set \<Rightarrow> addr \<Rightarrow> nat \<Rightarrow> zScheduleJob list \<Rightarrow> bool" where
  "pending w t S T s k js \<longleftrightarrow> s \<in> T \<and> owns t S T w \<and> (\<forall>n \<in> set js. jb_sch n = Some s) \<and>
     (\<exists>fs qs c. sch_wf t w fs qs \<and> sx_sch w s = Some c \<and> unat (sc_pri c) < EZCRTSchPri_num \<and> length js \<le> unat (sc_maxsize c) \<and>
     k = min (length fs) (unat (sc_maxsize c) - length js) \<and> queues w qs ! unat (sc_pri c) = js \<and>
     (\<forall>i < EZCRTSchPri_num. i \<noteq> unat (sc_pri c) \<longrightarrow> queues w qs ! i = []))"

lemma pendingE:
  assumes "pending w t S T s k js"
  obtains fs qs c where "s \<in> T" "owns t S T w" "sch_wf t w fs qs" "sx_sch w s = Some c" "sc_thr c = Some t"
    "unat (sc_pri c) < EZCRTSchPri_num" "length js \<le> unat (sc_maxsize c)" "k = min (length fs) (unat (sc_maxsize c) - length js)"
    "queues w qs ! unat (sc_pri c) = js" "\<forall>i < EZCRTSchPri_num. i \<noteq> unat (sc_pri c) \<longrightarrow> queues w qs ! i = []"
    "length (queues w qs) = EZCRTSchPri_num" "held s js = length js" "\<forall>n \<in> set js. jb_sch n = Some s"
proof -
  obtain fs qs c where a: "s \<in> T" "owns t S T w" "sch_wf t w fs qs" "sx_sch w s = Some c"
    "unat (sc_pri c) < EZCRTSchPri_num" "length js \<le> unat (sc_maxsize c)" "k = min (length fs) (unat (sc_maxsize c) - length js)"
    "queues w qs ! unat (sc_pri c) = js" "\<forall>i < EZCRTSchPri_num. i \<noteq> unat (sc_pri c) \<longrightarrow> queues w qs ! i = []"
    "\<forall>n \<in> set js. jb_sch n = Some s" using assms by (auto simp: pending_def)
  have "length (queues w qs) = EZCRTSchPri_num" using a(3) by (simp add: sch_wf_def sch_jobs_def)
  moreover have "held s js = length js" using a(10) by (induction js) auto
  ultimately show ?thesis using that a owns_sch [OF a(2,1,4)] by blast
qed

text \<open>After an operation on the thread that leaves the queue of the schedule at \<^verbatim>\<open>js\<close>.\<close>

lemma pendingI:
  assumes c: "sx_sch w s = Some c" "unat (sc_pri c) < EZCRTSchPri_num" "length js \<le> unat (sc_maxsize c)"
      "k = min (length fs) (unat (sc_maxsize c) - length js)" and s: "s \<in> T" "\<forall>n \<in> set js. jb_sch n = Some s"
    and kp: "keeps t S T w w'" and wf: "sch_wf t w' fs qs"
    and q: "queues w' qs = q0[unat (sc_pri c) := js]" "length q0 = EZCRTSchPri_num" "\<forall>i < EZCRTSchPri_num. i \<noteq> unat (sc_pri c) \<longrightarrow> q0 ! i = []"
  shows "pending w' t S T s k js"
proof -
  have "map_option sch_view (sx_sch w' s) = map_option sch_view (sx_sch w s)" using kp by (simp add: keeps_def)
  then obtain c' where "sx_sch w' s = Some c'" "sc_pri c' = sc_pri c" "sc_maxsize c' = sc_maxsize c" using c(1) by (auto simp: sch_view_def)
  moreover have "owns t S T w'" using kp by (simp add: keeps_def)
  ultimately show ?thesis unfolding pending_def using s wf c(2,3,4) q by (intro conjI exI [of _ fs] exI [of _ qs] exI [of _ c']) simp_all
qed

lemma pending_send:
  assumes p: "pending w t S T s (Suc k) js"
  obtains w' where "zcrt_schedule_sendjob None (Some s) (Some fn) p1 p2 w = Inr (EZCRTErr_success, w')"
    "pending w' t S T s k (js @ [the_job s fn 2 [p1, p2]])"
proof -
  obtain fs qs c where a: "s \<in> T" "owns t S T w" "sch_wf t w fs qs" "sx_sch w s = Some c" "sc_thr c = Some t"
    "unat (sc_pri c) < EZCRTSchPri_num" "length js \<le> unat (sc_maxsize c)" "Suc k = min (length fs) (unat (sc_maxsize c) - length js)"
    "queues w qs ! unat (sc_pri c) = js" "\<forall>i < EZCRTSchPri_num. i \<noteq> unat (sc_pri c) \<longrightarrow> queues w qs ! i = []"
    "length (queues w qs) = EZCRTSchPri_num" "held s js = length js" "\<forall>n \<in> set js. jb_sch n = Some s"
    by (rule pendingE [OF p])
  have n: "can_new t w None" by (rule free_new [OF a(3)]) (use a(8) in auto)
  have h: "held s (queues w qs ! unat (sc_pri c)) < unat (sc_maxsize c)" using a(8,9,12) by simp
  obtain j w' where r: "zcrt_schedule_sendjob None (Some s) (Some fn) p1 p2 w = Inr (EZCRTErr_success, w')"
    "sch_wf t w' (tl fs) (qs[unat (sc_pri c) := qs ! unat (sc_pri c) @ [j]])"
    "queues w' (qs[unat (sc_pri c) := qs ! unat (sc_pri c) @ [j]]) = (queues w qs)[unat (sc_pri c) := js @ [the_job s fn 2 [p1, p2]]]"
    using sendjob_ok [OF a(3) n a(4,5) refl a(6) h] a(9) by metis
  have kp: "keeps t S T w w'" by (rule sendjob_keeps [OF a(2,1) _ r(1)]) simp
  have "pending w' t S T s k (js @ [the_job s fn 2 [p1, p2]])"
    by (rule pendingI [OF a(4,6) _ _ a(1) _ kp r(2,3) a(11,10)]) (use a(8,13) in \<open>auto simp: the_job_def\<close>)
  then show ?thesis using that r(1) by blast
qed

text \<open>Without room the job is not sent: the schedule is full, or there is no node for the job.\<close>

lemma sendjob_no_mem:
  assumes wf: "sch_wf t w [] qs" and sc: "sx_sch w s = Some sc" "sc_thr sc = Some t"
    and k: "unat (sc_pri sc) < EZCRTSchPri_num" "held s (queues w qs ! unat (sc_pri sc)) < unat (sc_maxsize sc)"
  obtains w' where "zcrt_schedule_sendjob None (Some s) (Some fn) p1 p2 w = Inr (EZCRTErr_noMem, w')" "sch_wf t w' [] qs" "queues w' qs = queues w qs"
proof -
  have j: "sch_jobs t (sx_sch w) (queues w qs)" and l: "sch_lists t w [] qs" using wf by (simp_all add: sch_wf_def)
  obtain th where th: "sx_thr w t = Some th" "length (th_que th) = EZCRTSchPri_num"
     "chains jb_next (sx_job w) (th_freejobs th # map pl_jobs (th_que th)) ([] # qs)"
     "\<forall>k < EZCRTSchPri_num. pl_tail (th_que th ! k) = last_of (qs ! k)" using l by (auto simp: sch_lists_def)
  then have f: "th_freejobs th = None" by (auto simp: chains_def)
  let ?w = "set_thr t (th\<lparr>th_jobadded := th_jobadded th + 1, th_joballoced := th_joballoced th + 1\<rparr>) w"
  have "\<not> sint (sc_maxsize sc) \<le> sint (sc_cursize sc)" using full_iff(1) [OF j sc refl k(1)] k(2) by simp
  then have "zcrt_schedule_sendjob None (Some s) (Some fn) p1 p2 w = Inr (EZCRTErr_noMem, ?w)"
    using sc k(1) th(1) f by (simp add: zcrt_schedule_sendjob_def zcrt_s_job_new_def Let_def)
  moreover have "sch_wf t ?w [] qs" using th j by (simp add: sch_wf_def sch_lists_def queues_def)
  ultimately show ?thesis using that by (simp add: queues_def)
qed

lemma pending_full:
  assumes p: "pending w t S T s 0 js"
  obtains e w' where "zcrt_schedule_sendjob None (Some s) (Some fn) p1 p2 w = Inr (e, w')" "e \<noteq> EZCRTErr_success" "pending w' t S T s 0 js"
proof -
  obtain fs qs c where a: "s \<in> T" "owns t S T w" "sch_wf t w fs qs" "sx_sch w s = Some c" "sc_thr c = Some t"
    "unat (sc_pri c) < EZCRTSchPri_num" "length js \<le> unat (sc_maxsize c)" "0 = min (length fs) (unat (sc_maxsize c) - length js)"
    "queues w qs ! unat (sc_pri c) = js" "\<forall>i < EZCRTSchPri_num. i \<noteq> unat (sc_pri c) \<longrightarrow> queues w qs ! i = []"
    "length (queues w qs) = EZCRTSchPri_num" "held s js = length js" "\<forall>n \<in> set js. jb_sch n = Some s"
    by (rule pendingE [OF p])
  show ?thesis
  proof (cases "length js = unat (sc_maxsize c)")
    case True
    then have "held s (queues w qs ! unat (sc_pri c)) = unat (sc_maxsize c)" using a(9,12) by simp
    then show ?thesis using that sendjob_full [OF a(3,4,5) refl a(6)] p by simp
  next
    case False
    then have fs: "fs = []" and h: "held s (queues w qs ! unat (sc_pri c)) < unat (sc_maxsize c)" using a(7,8,9,12) by (auto simp: min_def split: if_splits)
    obtain w' where r: "zcrt_schedule_sendjob None (Some s) (Some fn) p1 p2 w = Inr (EZCRTErr_noMem, w')" "sch_wf t w' [] qs" "queues w' qs = queues w qs"
      by (rule sendjob_no_mem [OF a(3) [unfolded fs] a(4,5,6) h])
    have kp: "keeps t S T w w'" by (rule sendjob_keeps [OF a(2,1) _ r(1)]) simp
    have q: "queues w' qs = (queues w qs)[unat (sc_pri c) := js]" using r(3) a(9) list_update_id by metis
    have "pending w' t S T s 0 js" by (rule pendingI [OF a(4,6,7) _ a(1,13) kp r(2) q a(11,10)]) simp
    then show ?thesis using that r(1) by simp
  qed
qed

lemma pending_take:
  assumes p: "pending w t S T s k (n # js)"
  obtains w' fn where "take_job t w = Inr (Some (Some fn, jb_args n), w')" "jb_fn n = Some fn" "pending w' t S T s (Suc k) js"
proof -
  obtain fs qs c where a: "s \<in> T" "owns t S T w" "sch_wf t w fs qs" "sx_sch w s = Some c" "sc_thr c = Some t"
    "unat (sc_pri c) < EZCRTSchPri_num" "length (n # js) \<le> unat (sc_maxsize c)" "k = min (length fs) (unat (sc_maxsize c) - length (n # js))"
    "queues w qs ! unat (sc_pri c) = n # js" "\<forall>i < EZCRTSchPri_num. i \<noteq> unat (sc_pri c) \<longrightarrow> queues w qs ! i = []"
    "length (queues w qs) = EZCRTSchPri_num" "held s (n # js) = length (n # js)" "\<forall>n \<in> set (n # js). jb_sch n = Some s"
    by (rule pendingE [OF p])
  have first: "\<forall>i < unat (sc_pri c). queues w qs ! i = []" using a(6,10) by auto
  obtain w' fs' qs' where r: "take_job t w = Inr (Some (jb_fn n, jb_args n), w')" "sch_wf t w' fs' qs'" "jb_fn n \<noteq> None"
    "queues w' qs' = (queues w qs)[unat (sc_pri c) := js]" "length fs' = Suc (length fs)"
    using take_job_wf [OF a(3,6) first a(9)] by metis
  have "pending w' t S T s (Suc k) js"
    by (rule pendingI [OF a(4,6) _ _ a(1) _ take_job_keeps [OF a(2) r(1)] r(2,4) a(11,10)]) (use a(7,8,13) r(5) in auto)
  then show ?thesis using that r(1,3) by fastforce
qed

lemma pending_idle:
  assumes "pending w t S T s k []"
  shows "run_jobs call t (w, x) = Some (Inr (w, x))"
proof -
  obtain fs qs and c :: zSchedule where a: "sch_wf t w fs qs" "queues w qs ! unat (sc_pri c) = []"
    "\<forall>i < EZCRTSchPri_num. i \<noteq> unat (sc_pri c) \<longrightarrow> queues w qs ! i = []"
    using assms by (auto simp: pending_def)
  show ?thesis by (rule run_jobs_idle [OF a(1)]) (use a(2,3) in \<open>auto simp: no_jobs_def\<close>)
qed

section \<open>Messages that wait to be sent\<close>

text \<open>A message for a client, in a buffer, and the job that sends it.\<close>

type_synonym zPost = "addr \<times> addr \<times> u8 list"

fun post_job :: "addr \<Rightarrow> zPost \<Rightarrow> zScheduleJob" where
  "post_job s (c, a, x) = the_job s zipc_buf_send_job_fn 2 [c, a]"

fun post_addr :: "zPost \<Rightarrow> addr" where
  "post_addr (c, a, x) = a"

fun post_msg :: "zPost \<Rightarrow> addr \<times> u8 list" where
  "post_msg (c, a, x) = (c, x)"

fun post_in :: "'w zIpcWorld \<Rightarrow> addr list \<Rightarrow> zPost \<Rightarrow> bool" where
  "post_in w as (c, a, x) \<longleftrightarrow> zw_client w c \<noteq> None \<and> a \<notin> set as \<and> (\<exists>b. zw_buf w a = Some b \<and> buf_wf b \<and> contents b = x)"

text \<open>The server's thread of the events has the messages \<^verbatim>\<open>ms\<close> to send and room for exactly \<^verbatim>\<open>k\<close>
  more: jobs, and buffers of the pool.\<close>

definition outbox :: "'w zIpcWorld \<Rightarrow> addr \<Rightarrow> addr set \<Rightarrow> addr set \<Rightarrow> nat \<Rightarrow> zPost list \<Rightarrow> bool" where
  "outbox w t S T k ms \<longleftrightarrow> (\<exists>s as k1. im_evtSch (zw_ipc w) = Some s \<and> pending (zw_sch w) t S T s k1 (map (post_job s) ms) \<and>
     pool_wf (zw_ipc w) (zw_buf w) as \<and> k = min k1 (length as) \<and> distinct (map post_addr ms) \<and> (\<forall>m \<in> set ms. post_in w as m))"

definition same_server :: "'w zIpcWorld \<Rightarrow> 'w zIpcWorld \<Rightarrow> bool" where
  "same_server w w' \<longleftrightarrow> zw_client w' = zw_client w \<and> zw_evt w' = zw_evt w \<and> zw_comp w' = zw_comp w \<and>
     (\<forall>q. (zw_ipc w')\<lparr>im_freebuf := q\<rparr> = (zw_ipc w)\<lparr>im_freebuf := q\<rparr>)"

lemma same_server_refl [simp]: "same_server w w"
  by (simp add: same_server_def)

lemma same_server_trans: "same_server w w1 \<Longrightarrow> same_server w1 w2 \<Longrightarrow> same_server w w2"
  by (simp add: same_server_def)

lemma same_server_ipc:
  assumes "same_server w w'"
  shows "im_evtSch (zw_ipc w') = im_evtSch (zw_ipc w)" "im_evt_encode (zw_ipc w') = im_evt_encode (zw_ipc w)"
proof -
  have "(zw_ipc w')\<lparr>im_freebuf := None\<rparr> = (zw_ipc w)\<lparr>im_freebuf := None\<rparr>" using assms by (simp add: same_server_def)
  from arg_cong [OF this, of im_evtSch] arg_cong [OF this, of im_evt_encode]
  show "im_evtSch (zw_ipc w') = im_evtSch (zw_ipc w)" "im_evt_encode (zw_ipc w') = im_evt_encode (zw_ipc w)" by simp_all
qed

text \<open>What a client gets for an event.\<close>

definition evt_msg :: "u32 \<Rightarrow> u8 list \<Rightarrow> u8 list" where
  "evt_msg evtid data = hdr_bytes (msg_hdr ZEIPC_TYPE_LINK (of_nat (length (event_body 0 evtid data)))) @ event_body 0 evtid data"

definition encodes :: "encode_fn \<Rightarrow> ptr \<Rightarrow> u32 \<Rightarrow> ptr \<Rightarrow> u8 list \<Rightarrow> bool" where
  "encodes enc fn evtid evtdata data \<longleftrightarrow> puts (\<lambda>v. rbind (enc fn evtid evtdata v) (\<lambda>(r, v1). Inr (r = 0, v1))) data \<and>
     length (event_body 0 evtid data) + 26 < 2 ^ 31"

text \<open>The callback of a hook with a buffer at hand: the message is encoded, and a job for it goes to the schedule of the events.\<close>

lemma hook_encodes:
  assumes ra: "realloc_total ra" and fn: "im_evt_encode (zw_ipc w) = Some fn" and enc: "encodes enc fn evtid evtdata data"
    and cl: "zw_client w client \<noteq> None" and s: "im_evtSch (zw_ipc w) = Some s" and p: "pool_wf (zw_ipc w) (zw_buf w) as" "as \<noteq> []"
  obtains a as1 b ipc h where "as = a # as1" "a \<notin> set as1" "pool_wf ipc h as1" "h a = Some b" "buf_wf b" "contents b = evt_msg evtid data"
    "\<And>x. x \<noteq> a \<Longrightarrow> h x = zw_buf w x" "\<And>q. ipc\<lparr>im_freebuf := q\<rparr> = (zw_ipc w)\<lparr>im_freebuf := q\<rparr>"
    "zipc_hookevent_cb enc ra no_mem evtid evtdata client w =
      rbind (zcrt_schedule_sendjob None (Some s) (Some zipc_buf_send_job_fn) client a (zw_sch w)) (\<lambda>(e, sch).
        let w3 = w\<lparr>zw_ipc := ipc, zw_buf := h, zw_sch := sch\<rparr> in
        if e \<noteq> EZCRTErr_success
        then rbind (pool_free (Some a) w3) (\<lambda>w4. Inr (if zw_notprint w4 then w4\<lparr>zw_notprint := False\<rparr> else w4))
        else Inr (if \<not> zw_notprint w3 then w3\<lparr>zw_notprint := True\<rparr> else w3))"
proof -
  let ?body = "event_body 0 evtid data"
  have ca: "can_buf (al_buf no_mem) (al_bytes no_mem) (zw_buf w) as" using p(2) by (simp add: can_buf_def)
  obtain a as1 ob ipc h where m: "pool_malloc no_mem w = Inr (Some a, w\<lparr>zw_ipc := ipc, zw_buf := h\<rparr>)" "pool_wf ipc h as1" "a \<notin> set as1"
    "h a = Some ob" "buf_wf ob" "zb_len ob = 0" "\<And>x. x \<noteq> a \<Longrightarrow> h x = zw_buf w x" "as = a # as1"
    "\<And>q. ipc\<lparr>im_freebuf := q\<rparr> = (zw_ipc w)\<lparr>im_freebuf := q\<rparr>"
    by (rule pool_malloc_spec [OF p(1) ca]) (use that in auto)
  have i: "im_evt_encode ipc = Some fn" "im_evtSch ipc = Some s"
    using arg_cong [OF m(9) [of None], of im_evt_encode] arg_cong [OF m(9) [of None], of im_evtSch] fn s by simp_all
  have pu: "puts (\<lambda>v. rbind (enc fn evtid evtdata v) (\<lambda>(r, v1). Inr (r = 0, v1))) data"
    and small: "length (event_body (fst (zcrt_atom_inc (zw_uid w))) evtid data) + 26 < 2 ^ 31"
    using enc by (simp_all add: encodes_def zcrt_atom_inc_def)
  obtain b' where b': "zipc_encode_event zcrt_atom_inc enc ra (Some ipc) evtid evtdata (Some ob) (zw_uid w) =
      Inr (EZCRTErr_success, Some b', zw_uid w)" "buf_wf b'" "contents b' = evt_msg evtid data"
    by (rule encode_event_ok [where inc = zcrt_atom_inc and uid = "zw_uid w" and enc = enc and evtid = evtid and evtdata = evtdata,
        OF ra m(5,6) i(1) pu small]) (rule that; simp add: zcrt_atom_inc_def evt_msg_def)
  have w2: "put_buf a (Some b') ((w\<lparr>zw_ipc := ipc, zw_buf := h\<rparr>)\<lparr>zw_uid := zw_uid w\<rparr>) = w\<lparr>zw_ipc := ipc, zw_buf := h(a \<mapsto> b')\<rparr>"
    by (simp add: put_buf_def)
  obtain cl' where cl': "zw_client w client = Some cl'" using cl by blast
  have "zipc_hookevent_cb enc ra no_mem evtid evtdata client w =
      rbind (zcrt_schedule_sendjob None (Some s) (Some zipc_buf_send_job_fn) client a (zw_sch w)) (\<lambda>(e, sch).
        let w3 = w\<lparr>zw_ipc := ipc, zw_buf := h(a \<mapsto> b'), zw_sch := sch\<rparr> in
        if e \<noteq> EZCRTErr_success
        then rbind (pool_free (Some a) w3) (\<lambda>w4. Inr (if zw_notprint w4 then w4\<lparr>zw_notprint := False\<rparr> else w4))
        else Inr (if \<not> zw_notprint w3 then w3\<lparr>zw_notprint := True\<rparr> else w3))"
    using m(4) i(2) w2
    by (simp add: zipc_hookevent_cb_def cl' m(1) b'(1) sendjob_def Let_def rbind_assoc split_def cong: if_cong)
  moreover have "pool_wf ipc (h(a \<mapsto> b')) as1" using m(2,3) by (auto simp: pool_wf_def chain_upd)
  ultimately show ?thesis using that [of a as1 ipc "h(a \<mapsto> b')" b'] m(3,7,8,9) b'(2,3) by simp
qed

lemma post_in_keep: "post_in w as p \<Longrightarrow> set as' \<subseteq> set as \<Longrightarrow> zw_client w' = zw_client w \<Longrightarrow>
    (\<And>x. x \<notin> set as \<Longrightarrow> zw_buf w' x = zw_buf w x) \<Longrightarrow> post_in w' as' p"
  by (cases p) auto

text \<open>With room the message waits behind the others; without, it is dropped and its buffer goes back.\<close>

lemma hook_posts:
  assumes ra: "realloc_total ra" and fn: "im_evt_encode (zw_ipc w) = Some fn" and enc: "encodes enc fn evtid evtdata data"
    and cl: "zw_client w client \<noteq> None" and o: "outbox w t S T (Suc k) ms"
  obtains w1 a where "zipc_hookevent_cb enc ra no_mem evtid evtdata client w = Inr w1"
    "outbox w1 t S T k (ms @ [(client, a, evt_msg evtid data)])" "zw_sent w1 = zw_sent w" "zw_ext w1 = zw_ext w" "same_server w w1"
proof -
  obtain s as k1 where b: "im_evtSch (zw_ipc w) = Some s" "pending (zw_sch w) t S T s k1 (map (post_job s) ms)"
    "pool_wf (zw_ipc w) (zw_buf w) as" "Suc k = min k1 (length as)" "distinct (map post_addr ms)" "\<forall>m \<in> set ms. post_in w as m"
    using o by (auto simp: outbox_def)
  obtain k2 where k2: "k1 = Suc k2" using b(4) by (cases k1) auto
  have "as \<noteq> []" using b(4) by auto
  then obtain a as1 bb ipc h where m: "as = a # as1" "a \<notin> set as1" "pool_wf ipc h as1" "h a = Some bb" "buf_wf bb" "contents bb = evt_msg evtid data"
    "\<And>x. x \<noteq> a \<Longrightarrow> h x = zw_buf w x" "\<And>q. ipc\<lparr>im_freebuf := q\<rparr> = (zw_ipc w)\<lparr>im_freebuf := q\<rparr>"
    "zipc_hookevent_cb enc ra no_mem evtid evtdata client w =
      rbind (zcrt_schedule_sendjob None (Some s) (Some zipc_buf_send_job_fn) client a (zw_sch w)) (\<lambda>(e, sch).
        let w3 = w\<lparr>zw_ipc := ipc, zw_buf := h, zw_sch := sch\<rparr> in
        if e \<noteq> EZCRTErr_success
        then rbind (pool_free (Some a) w3) (\<lambda>w4. Inr (if zw_notprint w4 then w4\<lparr>zw_notprint := False\<rparr> else w4))
        else Inr (if \<not> zw_notprint w3 then w3\<lparr>zw_notprint := True\<rparr> else w3))"
    by (rule hook_encodes [OF ra fn enc cl b(1,3)]) (rule that)
  obtain sch where j: "zcrt_schedule_sendjob None (Some s) (Some zipc_buf_send_job_fn) client a (zw_sch w) = Inr (EZCRTErr_success, sch)"
    "pending sch t S T s k2 (map (post_job s) ms @ [the_job s zipc_buf_send_job_fn 2 [client, a]])"
    by (rule pending_send [OF b(2) [unfolded k2]])
  let ?w3 = "w\<lparr>zw_ipc := ipc, zw_buf := h, zw_sch := sch\<rparr>"
  let ?w1 = "if \<not> zw_notprint w then ?w3\<lparr>zw_notprint := True\<rparr> else ?w3"
  have r: "zipc_hookevent_cb enc ra no_mem evtid evtdata client w = Inr ?w1" using m(9) j(1) by (simp add: Let_def)
  have f: "zw_sch ?w1 = sch" "zw_ipc ?w1 = ipc" "zw_buf ?w1 = h" "zw_client ?w1 = zw_client w" "zw_sent ?w1 = zw_sent w"
    "zw_ext ?w1 = zw_ext w" "zw_evt ?w1 = zw_evt w" "zw_comp ?w1 = zw_comp w"
    by simp_all
  have i: "im_evtSch ipc = Some s" using arg_cong [OF m(8) [of None], of im_evtSch] b(1) by simp
  have old: "post_addr p \<noteq> a \<and> post_in ?w1 as1 p" if "p \<in> set ms" for p
  proof -
    have q: "post_in w as p" using b(6) that by simp
    then have "post_addr p \<noteq> a" by (cases p) (auto simp: m(1))
    moreover have "post_in ?w1 as1 p" by (rule post_in_keep [OF q]) (auto simp: f m(1,7))
    ultimately show ?thesis by simp
  qed
  have new: "post_in ?w1 as1 (client, a, evt_msg evtid data)" using cl m(2,4,5,6) by (auto simp: f)
  have "outbox ?w1 t S T k (ms @ [(client, a, evt_msg evtid data)])"
    unfolding outbox_def f using j(2) i m(3) b(4,5) old new by (intro exI [of _ s] exI [of _ as1] exI [of _ k2]) (auto simp: k2 m(1))
  moreover have "same_server w ?w1" using m(8) by (simp add: same_server_def f)
  ultimately show ?thesis using that r f(5,6) by blast
qed

lemma hook_drops:
  assumes ra: "realloc_total ra" and fn: "im_evt_encode (zw_ipc w) = Some fn" and enc: "encodes enc fn evtid evtdata data"
    and cl: "zw_client w client \<noteq> None" and o: "outbox w t S T 0 ms"
  obtains w1 where "zipc_hookevent_cb enc ra no_mem evtid evtdata client w = Inr w1"
    "outbox w1 t S T 0 ms" "zw_sent w1 = zw_sent w" "zw_ext w1 = zw_ext w" "same_server w w1"
proof -
  obtain s as k1 where b: "im_evtSch (zw_ipc w) = Some s" "pending (zw_sch w) t S T s k1 (map (post_job s) ms)"
    "pool_wf (zw_ipc w) (zw_buf w) as" "0 = min k1 (length as)" "distinct (map post_addr ms)" "\<forall>m \<in> set ms. post_in w as m"
    using o by (auto simp: outbox_def)
  show ?thesis
  proof (cases "as = []")
    case True
    then have "im_freebuf (zw_ipc w) = None" using b(3) by (simp add: pool_wf_def)
    then have "zipc_hookevent_cb enc ra no_mem evtid evtdata client w = Inr w"
      using cl by (auto simp: zipc_hookevent_cb_def pool_malloc_def zipc_buf_malloc_def)
    then show ?thesis using that o by simp
  next
    case False
    then have k1: "k1 = 0" using b(4) by (auto simp: min_def split: if_splits)
    obtain a as1 bb ipc h where m: "as = a # as1" "a \<notin> set as1" "pool_wf ipc h as1" "h a = Some bb" "buf_wf bb" "contents bb = evt_msg evtid data"
      "\<And>x. x \<noteq> a \<Longrightarrow> h x = zw_buf w x" "\<And>q. ipc\<lparr>im_freebuf := q\<rparr> = (zw_ipc w)\<lparr>im_freebuf := q\<rparr>"
      "zipc_hookevent_cb enc ra no_mem evtid evtdata client w =
        rbind (zcrt_schedule_sendjob None (Some s) (Some zipc_buf_send_job_fn) client a (zw_sch w)) (\<lambda>(e, sch).
          let w3 = w\<lparr>zw_ipc := ipc, zw_buf := h, zw_sch := sch\<rparr> in
          if e \<noteq> EZCRTErr_success
          then rbind (pool_free (Some a) w3) (\<lambda>w4. Inr (if zw_notprint w4 then w4\<lparr>zw_notprint := False\<rparr> else w4))
          else Inr (if \<not> zw_notprint w3 then w3\<lparr>zw_notprint := True\<rparr> else w3))"
      by (rule hook_encodes [OF ra fn enc cl b(1,3) False]) (rule that)
    obtain e sch where j: "zcrt_schedule_sendjob None (Some s) (Some zipc_buf_send_job_fn) client a (zw_sch w) = Inr (e, sch)"
      "e \<noteq> EZCRTErr_success" "pending sch t S T s 0 (map (post_job s) ms)" by (rule pending_full [OF b(2) [unfolded k1]])
    let ?w3 = "w\<lparr>zw_ipc := ipc, zw_buf := h, zw_sch := sch\<rparr>"
    have p3: "pool_wf (zw_ipc ?w3) (zw_buf ?w3) as1" "zw_buf ?w3 a = Some bb" using m(3,4) by simp_all
    obtain ipc' h' where f: "pool_free (Some a) ?w3 = Inr (?w3\<lparr>zw_ipc := ipc', zw_buf := h'\<rparr>)" "pool_wf ipc' h' as"
      "\<forall>x. x \<noteq> a \<longrightarrow> h' x = h x" "ipc' = ipc\<lparr>im_freebuf := Some a\<rparr>"
      using pool_free_spec [OF p3(1) m(2) p3(2) m(5)] by (auto simp: m(1))
    let ?w4 = "w\<lparr>zw_ipc := ipc', zw_buf := h', zw_sch := sch\<rparr>"
    let ?w1 = "if zw_notprint w then ?w4\<lparr>zw_notprint := False\<rparr> else ?w4"
    have r: "zipc_hookevent_cb enc ra no_mem evtid evtdata client w = Inr ?w1" using m(9) j(1,2) f(1) by (simp add: Let_def)
    have g: "zw_sch ?w1 = sch" "zw_ipc ?w1 = ipc'" "zw_buf ?w1 = h'" "zw_client ?w1 = zw_client w" "zw_sent ?w1 = zw_sent w"
      "zw_ext ?w1 = zw_ext w" "zw_evt ?w1 = zw_evt w" "zw_comp ?w1 = zw_comp w"
      by simp_all
    have u: "ipc'\<lparr>im_freebuf := q\<rparr> = (zw_ipc w)\<lparr>im_freebuf := q\<rparr>" for q using m(8) by (simp add: f(4))
    have i: "im_evtSch ipc' = Some s" using arg_cong [OF u [of None], of im_evtSch] b(1) by simp
    have "post_in ?w1 as p" if "p \<in> set ms" for p
      by (rule post_in_keep [OF b(6) [rule_format, OF that]]) (auto simp: g m(1,7) f(3))
    then have "outbox ?w1 t S T 0 ms"
      unfolding outbox_def g using j(3) i f(2) b(5) by (intro exI [of _ s] exI [of _ as] exI [of _ 0]) auto
    moreover have "same_server w ?w1" using u by (simp add: same_server_def g)
    ultimately show ?thesis using that r g(5,6) by blast
  qed
qed

lemma deliver_one:
  assumes o: "outbox w t S T k ((c, a, x) # ms)"
  obtains w1 where "run_jobs (ipc_job run_call ra al) t (zw_sch w, w) = run_jobs (ipc_job run_call ra al) t (zw_sch w1, w1)"
    "outbox w1 t S T (Suc k) ms" "zw_sent w1 = zw_sent w @ [(cl_sock (the (zw_client w c)), x)]" "zw_ext w1 = zw_ext w" "same_server w w1"
proof -
  obtain s as k1 where b: "im_evtSch (zw_ipc w) = Some s" "pending (zw_sch w) t S T s k1 (post_job s (c, a, x) # map (post_job s) ms)"
    "pool_wf (zw_ipc w) (zw_buf w) as" "k = min k1 (length as)" "distinct (map post_addr ((c, a, x) # ms))" "\<forall>m \<in> set ((c, a, x) # ms). post_in w as m"
    using o by (auto simp: outbox_def)
  let ?n = "the_job s zipc_buf_send_job_fn 2 [c, a]"
  obtain sch fn where t: "take_job t (zw_sch w) = Inr (Some (Some fn, jb_args ?n), sch)" "jb_fn ?n = Some fn"
    "pending sch t S T s (Suc k1) (map (post_job s) ms)" by (rule pending_take [OF b(2) [unfolded post_job.simps]])
  have "post_in w as (c, a, x)" using b(6) by simp
  then obtain cl bb where v: "zw_client (w\<lparr>zw_sch := sch\<rparr>) c = Some cl" "zw_buf (w\<lparr>zw_sch := sch\<rparr>) a = Some bb" "buf_wf bb" "a \<notin> set as"
    "contents bb = x" by auto
  have p: "pool_wf (zw_ipc (w\<lparr>zw_sch := sch\<rparr>)) (zw_buf (w\<lparr>zw_sch := sch\<rparr>)) as" using b(3) by simp
  obtain ipc hp where s: "zipc_buf_send_job (Some c) (Some a) (w\<lparr>zw_sch := sch\<rparr>) =
      Inr (w\<lparr>zw_sch := sch, zw_sent := zw_sent w @ [(cl_sock cl, x)], zw_ipc := ipc, zw_buf := hp\<rparr>)" "pool_wf ipc hp (a # as)"
    "\<forall>y. y \<noteq> a \<longrightarrow> hp y = zw_buf w y" "ipc = (zw_ipc w)\<lparr>im_freebuf := Some a\<rparr>"
    using send_job_spec [OF v(1-4) p] v(5) by auto
  let ?w1 = "w\<lparr>zw_sch := sch, zw_sent := zw_sent w @ [(cl_sock cl, x)], zw_ipc := ipc, zw_buf := hp\<rparr>"
  have "ipc_job run_call ra al fn (jb_args ?n) (sch, w) = Inr (zw_sch ?w1, ?w1)"
    using s(1) t(2) by (auto simp: ipc_job_def the_job_def zipc_buf_send_job_fn_def zipc_msg_proc_job_fn_def)
  then have "run_jobs (ipc_job run_call ra al) t (zw_sch w, w) = run_jobs (ipc_job run_call ra al) t (zw_sch ?w1, ?w1)"
    using t(1) by (subst run_jobs.simps) simp
  moreover have "post_in ?w1 (a # as) p" if "p \<in> set ms" for p
  proof -
    obtain c' a' x' where q: "p = (c', a', x')" by (cases p)
    have "a' \<noteq> a" using b(5) that q by force
    then show ?thesis using b(6) that q s(3) by auto
  qed
  then have "outbox ?w1 t S T (Suc k) ms"
    unfolding outbox_def using b(1,4,5) t(3) s(2,4) by (intro exI [of _ s] exI [of _ "a # as"] exI [of _ "Suc k1"]) auto
  ultimately show ?thesis using that [of ?w1] v(1) s(4) by (simp add: same_server_def)
qed

lemma deliver_all:
  assumes "outbox w t S T k ms"
  shows "\<exists>w1. run_jobs (ipc_job run_call ra al) t (zw_sch w, w) = Some (Inr (zw_sch w1, w1)) \<and> outbox w1 t S T (k + length ms) [] \<and>
    zw_sent w1 = zw_sent w @ map (\<lambda>m. (cl_sock (the (zw_client w (fst (post_msg m)))), snd (post_msg m))) ms \<and> zw_ext w1 = zw_ext w \<and> same_server w w1"
  using assms
proof (induction ms arbitrary: w k)
  case Nil
  then obtain s k1 where "pending (zw_sch w) t S T s k1 []" by (auto simp: outbox_def)
  from pending_idle [OF this] show ?case using Nil by (intro exI [of _ w]) simp
next
  case (Cons m ms)
  obtain c a x where m: "m = (c, a, x)" by (cases m)
  obtain w1 where o: "run_jobs (ipc_job run_call ra al) t (zw_sch w, w) = run_jobs (ipc_job run_call ra al) t (zw_sch w1, w1)"
    "outbox w1 t S T (Suc k) ms" "zw_sent w1 = zw_sent w @ [(cl_sock (the (zw_client w c)), x)]" "zw_ext w1 = zw_ext w" "same_server w w1"
    by (rule deliver_one [OF Cons.prems [unfolded m]]) (rule that)
  obtain w2 where i: "run_jobs (ipc_job run_call ra al) t (zw_sch w1, w1) = Some (Inr (zw_sch w2, w2))" "outbox w2 t S T (Suc k + length ms) []"
    "zw_sent w2 = zw_sent w1 @ map (\<lambda>m. (cl_sock (the (zw_client w1 (fst (post_msg m)))), snd (post_msg m))) ms" "zw_ext w2 = zw_ext w1" "same_server w1 w2"
    using Cons.IH [OF o(2)] by blast
  have "zw_client w1 = zw_client w" using o(5) by (simp add: same_server_def)
  then show ?case using o(1,3,4) i same_server_trans [OF o(5) i(5)] by (intro exI [of _ w2]) (simp add: m)
qed

section \<open>The subscribers of an event\<close>

text \<open>
  The event manager calls its subscribers: the callback of a hook is the server's, the others belong to the
  application and work on its own state.
\<close>

type_synonym 'w app_call = "ptr \<Rightarrow> u32 \<Rightarrow> ptr \<Rightarrow> ptr \<Rightarrow> ptr \<Rightarrow> 'w \<Rightarrow> 'w"

definition is_hook :: "zEventCB \<Rightarrow> bool" where
  "is_hook n \<longleftrightarrow> ec_fn n = Some zipc_hookevent_cb_fn"

definition hook_call :: "encode_fn \<Rightarrow> realloc_fn \<Rightarrow> zAlloc \<Rightarrow> 'w app_call \<Rightarrow> 'w zIpcWorld ev_call" where
  "hook_call enc ra al app f evtid d p1 p2 s =
     (if f = zipc_hookevent_cb_fn then map_sum id (Pair (fst s)) (zipc_hookevent_cb enc ra al evtid d p1 (snd s))
      else Inr (fst s, (snd s)\<lparr>zw_ext := app f evtid d p1 p2 (zw_ext (snd s))\<rparr>))"

definition raise_event :: "encode_fn \<Rightarrow> realloc_fn \<Rightarrow> zAlloc \<Rightarrow> 'w app_call \<Rightarrow> u32 \<Rightarrow> ptr \<Rightarrow> 'w zIpcWorld \<Rightarrow> 'w zIpcWorld res" where
  "raise_event enc ra al app evtid d w =
     rbind (zcrt_event_send (hook_call enc ra al app) (zw_evt w) w evtid d) (\<lambda>(m, w1). Inr (w1\<lparr>zw_evt := m\<rparr>))"

text \<open>What the application's subscribers do to its state, and what the hooks have to send.\<close>

definition app_calls :: "'w app_call \<Rightarrow> u32 \<Rightarrow> ptr \<Rightarrow> zEventCB list \<Rightarrow> 'w \<Rightarrow> 'w" where
  "app_calls app evtid d = fold (\<lambda>n. if is_hook n then id else app (the (ec_fn n)) evtid d (ec_p1 n) (ec_p2 n))"

definition hook_msgs :: "u32 \<Rightarrow> u8 list \<Rightarrow> zEventCB list \<Rightarrow> (addr \<times> u8 list) list" where
  "hook_msgs evtid data ns = map (\<lambda>n. (ec_p1 n, evt_msg evtid data)) (filter is_hook ns)"

lemma hook_msgs_simps [simp]:
  "hook_msgs evtid data [] = []"
  "hook_msgs evtid data (n # ns) = (if is_hook n then [(ec_p1 n, evt_msg evtid data)] else []) @ hook_msgs evtid data ns"
  by (simp_all add: hook_msgs_def)

lemma hook_any:
  assumes ra: "realloc_total ra" and fn: "im_evt_encode (zw_ipc w) = Some fn" and enc: "encodes enc fn evtid d data"
    and cl: "zw_client w client \<noteq> None" and o: "outbox w t S T k ms"
  obtains w1 ps where "zipc_hookevent_cb enc ra no_mem evtid d client w = Inr w1" "outbox w1 t S T (k - length ps) (ms @ ps)"
    "map post_msg ps = take k [(client, evt_msg evtid data)]" "zw_sent w1 = zw_sent w" "zw_ext w1 = zw_ext w" "same_server w w1"
proof (cases k)
  case 0
  obtain w1 where "zipc_hookevent_cb enc ra no_mem evtid d client w = Inr w1" "outbox w1 t S T 0 ms" "zw_sent w1 = zw_sent w"
    "zw_ext w1 = zw_ext w" "same_server w w1" by (rule hook_drops [OF ra fn enc cl o [unfolded 0]])
  then show ?thesis using that [of w1 "[]"] 0 by simp
next
  case (Suc k')
  obtain w1 a where "zipc_hookevent_cb enc ra no_mem evtid d client w = Inr w1" "outbox w1 t S T k' (ms @ [(client, a, evt_msg evtid data)])"
    "zw_sent w1 = zw_sent w" "zw_ext w1 = zw_ext w" "same_server w w1" by (rule hook_posts [OF ra fn enc cl o [unfolded Suc]])
  then show ?thesis using that [of w1 "[(client, a, evt_msg evtid data)]"] Suc by simp
qed

lemma outbox_ext: "outbox (w\<lparr>zw_ext := x\<rparr>) t S T k ms = outbox w t S T k ms"
proof -
  have "post_in (w\<lparr>zw_ext := x\<rparr>) as p = post_in w as p" for as p by (cases p) simp
  then show ?thesis by (simp add: outbox_def)
qed

lemma hooks_post:
  assumes ra: "realloc_total ra" and enc: "encodes enc fn evtid d data" and fn: "im_evt_encode (zw_ipc w) = Some fn"
    and ns: "\<forall>n \<in> set ns. ec_fn n \<noteq> None \<and> (is_hook n \<longrightarrow> zw_client w (ec_p1 n) \<noteq> None)" and o: "outbox w t S T k ms"
  shows "\<exists>w1 ps. acts (hook_call enc ra no_mem app) m evtid d ns w w1 \<and> outbox w1 t S T (k - length ps) (ms @ ps) \<and>
    map post_msg ps = take k (hook_msgs evtid data ns) \<and> zw_sent w1 = zw_sent w \<and> zw_ext w1 = app_calls app evtid d ns (zw_ext w) \<and> same_server w w1"
  using fn ns o
proof (induction ns arbitrary: w k ms)
  case Nil
  then show ?case by (intro exI [of _ w] exI [of _ "[]"]) (simp add: acts.no_act app_calls_def)
next
  case (Cons n ns)
  obtain f where f: "ec_fn n = Some f" using Cons.prems(2) by auto
  show ?case
  proof (cases "is_hook n")
    case True
    then have h: "f = zipc_hookevent_cb_fn" "zw_client w (ec_p1 n) \<noteq> None" using f Cons.prems(2) by (simp_all add: is_hook_def)
    obtain w1 ps where s: "zipc_hookevent_cb enc ra no_mem evtid d (ec_p1 n) w = Inr w1" "outbox w1 t S T (k - length ps) (ms @ ps)"
      "map post_msg ps = take k [(ec_p1 n, evt_msg evtid data)]" "zw_sent w1 = zw_sent w" "zw_ext w1 = zw_ext w" "same_server w w1"
      by (rule hook_any [OF ra Cons.prems(1) enc h(2) Cons.prems(3)])
    have c: "hook_call enc ra no_mem app f evtid d (ec_p1 n) (ec_p2 n) (m, w) = Inr (m, w1)" using s(1) h(1) by (simp add: hook_call_def)
    have e: "im_evt_encode (zw_ipc w1) = Some fn" "zw_client w1 = zw_client w"
      using same_server_ipc(2) [OF s(6)] Cons.prems(1) s(6) by (simp_all add: same_server_def)
    obtain w2 ps2 where i: "acts (hook_call enc ra no_mem app) m evtid d ns w1 w2" "outbox w2 t S T (k - length ps - length ps2) ((ms @ ps) @ ps2)"
      "map post_msg ps2 = take (k - length ps) (hook_msgs evtid data ns)" "zw_sent w2 = zw_sent w1" "zw_ext w2 = app_calls app evtid d ns (zw_ext w1)"
      "same_server w1 w2" using Cons.IH [OF e(1) _ s(2)] Cons.prems(2) e(2) by auto
    have "length ps = min k 1" using arg_cong [OF s(3), of length] by simp
    then have "map post_msg (ps @ ps2) = take k (hook_msgs evtid data (n # ns))" using s(3) i(3) True by (cases k) simp_all
    then show ?thesis
      using acts.act [OF f c i(1)] i(2,4,5) s(4,5) same_server_trans [OF s(6) i(6)] True
      by (intro exI [of _ w2] exI [of _ "ps @ ps2"]) (simp add: app_calls_def)
  next
    case False
    let ?w1 = "w\<lparr>zw_ext := app f evtid d (ec_p1 n) (ec_p2 n) (zw_ext w)\<rparr>"
    have c: "hook_call enc ra no_mem app f evtid d (ec_p1 n) (ec_p2 n) (m, w) = Inr (m, ?w1)" using False f by (simp add: hook_call_def is_hook_def)
    have o1: "outbox ?w1 t S T k ms" using Cons.prems(3) by (simp add: outbox_ext)
    have "im_evt_encode (zw_ipc ?w1) = Some fn" "\<forall>n \<in> set ns. ec_fn n \<noteq> None \<and> (is_hook n \<longrightarrow> zw_client ?w1 (ec_p1 n) \<noteq> None)"
      using Cons.prems(1,2) by simp_all
    then obtain w2 ps where i: "acts (hook_call enc ra no_mem app) m evtid d ns ?w1 w2" "outbox w2 t S T (k - length ps) (ms @ ps)"
      "map post_msg ps = take k (hook_msgs evtid data ns)" "zw_sent w2 = zw_sent ?w1" "zw_ext w2 = app_calls app evtid d ns (zw_ext ?w1)"
      "same_server ?w1 w2" using Cons.IH [OF _ _ o1] by blast
    have "same_server w w2" using i(6) by (simp add: same_server_def)
    then show ?thesis
      using acts.act [OF f c i(1)] i(2-5) False f by (intro exI [of _ w2] exI [of _ ps]) (simp add: app_calls_def)
  qed
qed

section \<open>The server as a mailbox of events\<close>

text \<open>Events are raised, and the thread of the events wakes up, in any order.\<close>

datatype zEvtStep = Raise u32 ptr | Wakeup

fun evt_steps :: "'w ipc_call \<Rightarrow> encode_fn \<Rightarrow> realloc_fn \<Rightarrow> zAlloc \<Rightarrow> 'w app_call \<Rightarrow> addr \<Rightarrow> zEvtStep list \<Rightarrow> 'w zIpcWorld \<Rightarrow> 'w zIpcWorld res" where
  "evt_steps run_call enc ra al app t [] w = Inr w"
| "evt_steps run_call enc ra al app t (Raise evtid d # ss) w =
     rbind (raise_event enc ra al app evtid d w) (evt_steps run_call enc ra al app t ss)"
| "evt_steps run_call enc ra al app t (Wakeup # ss) w =
     rbind (wake run_call ra al t w) (evt_steps run_call enc ra al app t ss)"

text \<open>
  What that comes to: a mailbox of \<^verbatim>\<open>K\<close> messages and what has been sent. A message that finds no place is lost.
\<close>

fun mailbox :: "nat \<Rightarrow> (u32 \<Rightarrow> ptr \<Rightarrow> 'm list) \<Rightarrow> zEvtStep list \<Rightarrow> 'm list \<times> 'm list \<Rightarrow> 'm list \<times> 'm list" where
  "mailbox K msgs [] st = st"
| "mailbox K msgs (Raise evtid d # ss) (q, out) = mailbox K msgs ss (take K (q @ msgs evtid d), out)"
| "mailbox K msgs (Wakeup # ss) (q, out) = mailbox K msgs ss ([], out @ q)"

definition subs_at :: "zEvent \<Rightarrow> addr list list \<Rightarrow> u32 \<Rightarrow> zEventCB list" where
  "subs_at m ass evtid = (if unat evtid < 256 then subs m ass (unat evtid) else [])"

lemma subs_at_fn: "ev_wf m fs ass \<Longrightarrow> n \<in> set (subs_at m ass evtid) \<Longrightarrow> ec_fn n \<noteq> None"
  using ev_wfD(3,5) [of m fs ass] concat_nth [of "unat evtid" ass]
  by (auto simp: subs_at_def subs_def contents_of_def ec_set_next_def split: if_splits)

lemma raise_spec:
  assumes ev: "zw_evt w = Some m" "ev_wf m fs ass" "ev_last m = 0" and ra: "realloc_total ra" and fn: "im_evt_encode (zw_ipc w) = Some fn"
    and enc: "encodes enc fn evtid d data" and o: "outbox w t S T k ms"
    and cl: "\<forall>n \<in> set (subs_at m ass evtid). is_hook n \<longrightarrow> zw_client w (ec_p1 n) \<noteq> None"
  obtains w1 ps where "raise_event enc ra no_mem app evtid d w = Inr w1" "outbox w1 t S T (k - length ps) (ms @ ps)"
    "map post_msg ps = take k (hook_msgs evtid data (subs_at m ass evtid))" "zw_sent w1 = zw_sent w"
    "zw_ext w1 = app_calls app evtid d (subs_at m ass evtid) (zw_ext w)" "same_server w w1"
proof (cases "unat evtid < 256")
  case False
  then have "zcrt_event_send (hook_call enc ra no_mem app) (zw_evt w) w evtid d = Inr (zw_evt w, w)"
    using ev(1) by (simp add: zcrt_event_send_def zcrt_event_send_ex_def ZCRT_MAX_EVT_def)
  then show ?thesis using that [of w "[]"] o False ev(1) by (simp add: raise_event_def subs_at_def app_calls_def)
next
  case True
  have ns: "\<forall>n \<in> set (subs_at m ass evtid). ec_fn n \<noteq> None \<and> (is_hook n \<longrightarrow> zw_client w (ec_p1 n) \<noteq> None)"
    using subs_at_fn [OF ev(2)] cl by blast
  obtain w1 ps where h: "acts (hook_call enc ra no_mem app) (m\<lparr>ev_last := evtid\<rparr>) evtid d (subs_at m ass evtid) w w1"
    "outbox w1 t S T (k - length ps) (ms @ ps)" "map post_msg ps = take k (hook_msgs evtid data (subs_at m ass evtid))"
    "zw_sent w1 = zw_sent w" "zw_ext w1 = app_calls app evtid d (subs_at m ass evtid) (zw_ext w)" "same_server w w1"
    using hooks_post [OF ra enc fn ns o] by blast
  have "filter (wants EZCRTEvtType_all) ns = ns" for ns by (simp add: wants_def)
  then have "zcrt_event_send (hook_call enc ra no_mem app) (zw_evt w) w evtid d = Inr (Some (m\<lparr>ev_last := 0\<rparr>), w1)"
    using send_acts [OF ev(2) True, where ty = EZCRTEvtType_all] h(1) ev(1) True by (simp add: zcrt_event_send_def subs_at_def)
  moreover have "m\<lparr>ev_last := 0\<rparr> = m" using ev(3) by simp
  moreover have "w1\<lparr>zw_evt := Some m\<rparr> = w1" using h(6) ev(1) by (simp add: same_server_def)
  ultimately show ?thesis using that h(2-6) by (simp add: raise_event_def)
qed

text \<open>What the clients get, on their sockets.\<close>

definition on_socks :: "zIPCClient heap \<Rightarrow> (addr \<times> u8 list) list \<Rightarrow> (nat \<times> u8 list) list" where
  "on_socks cs = map (\<lambda>(c, x). (cl_sock (the (cs c)), x))"

lemma on_socks_simps [simp]: "on_socks cs [] = []" "on_socks cs (xs @ ys) = on_socks cs xs @ on_socks cs ys"
  by (simp_all add: on_socks_def)

lemma on_socks_posts: "map (\<lambda>m. (cl_sock (the (cs (fst (post_msg m)))), snd (post_msg m))) ms = on_socks cs (map post_msg ms)"
  by (simp add: on_socks_def split_def comp_def)

lemma wakeup_spec:
  assumes "outbox w t S T (K - length ms) ms" "length ms \<le> K"
  obtains w1 where "wake run_call ra al t w = Inr w1" "outbox w1 t S T K []" "zw_sent w1 = zw_sent w @ on_socks (zw_client w) (map post_msg ms)"
    "zw_ext w1 = zw_ext w" "same_server w w1"
proof -
  obtain w1 where d: "run_jobs (ipc_job run_call ra al) t (zw_sch w, w) = Some (Inr (zw_sch w1, w1))" "outbox w1 t S T (K - length ms + length ms) []"
    "zw_sent w1 = zw_sent w @ map (\<lambda>m. (cl_sock (the (zw_client w (fst (post_msg m)))), snd (post_msg m))) ms" "zw_ext w1 = zw_ext w" "same_server w w1"
    using deliver_all [OF assms(1)] by blast
  show ?thesis by (rule that [OF _ _ _ d(4,5)]) (use d(1-3) assms(2) in \<open>simp_all add: wake_def wake_done on_socks_posts\<close>)
qed

text \<open>What the steps do to the application's own state.\<close>

definition app_steps :: "'w app_call \<Rightarrow> (u32 \<Rightarrow> zEventCB list) \<Rightarrow> zEvtStep list \<Rightarrow> 'w \<Rightarrow> 'w" where
  "app_steps app at = fold (\<lambda>st. case st of Raise evtid d \<Rightarrow> app_calls app evtid d (at evtid) | Wakeup \<Rightarrow> id)"

lemma app_steps_simps [simp]: "app_steps app at [] x = x"
  "app_steps app at (Raise evtid d # ss) x = app_steps app at ss (app_calls app evtid d (at evtid) x)"
  "app_steps app at (Wakeup # ss) x = app_steps app at ss x"
  by (simp_all add: app_steps_def)

lemma mailbox_steps:
  assumes ra: "realloc_total ra" and ev: "ev_wf m fs ass" "ev_last m = 0"
    and cl: "\<forall>evtid. \<forall>n \<in> set (subs_at m ass evtid). is_hook n \<longrightarrow> cs (ec_p1 n) \<noteq> None"
  shows "im_evt_encode (zw_ipc w) = Some fn \<Longrightarrow> zw_evt w = Some m \<Longrightarrow> zw_client w = cs \<Longrightarrow>
    \<forall>evtid d. Raise evtid d \<in> set ss \<longrightarrow> encodes enc fn evtid d (dat evtid d) \<Longrightarrow> outbox w t S T (K - length ms) ms \<Longrightarrow> length ms \<le> K \<Longrightarrow>
    zw_sent w = sent @ on_socks cs out0 \<Longrightarrow>
    mailbox K (\<lambda>evtid d. hook_msgs evtid (dat evtid d) (subs_at m ass evtid)) ss (map post_msg ms, out0) = (q, out) \<Longrightarrow>
    \<exists>w1 ps. evt_steps run_call enc ra no_mem app t ss w = Inr w1 \<and> outbox w1 t S T (K - length ps) ps \<and> length ps \<le> K \<and> map post_msg ps = q \<and>
      zw_sent w1 = sent @ on_socks cs out \<and> same_server w w1 \<and> zw_ext w1 = app_steps app (subs_at m ass) ss (zw_ext w)"
proof (induction ss arbitrary: w ms out0)
  case Nil
  then show ?case by (intro exI [of _ w] exI [of _ ms]) simp
next
  case (Cons st ss)
  show ?case
  proof (cases st)
    case (Raise evtid d)
    have enc: "encodes enc fn evtid d (dat evtid d)" "\<forall>evtid d. Raise evtid d \<in> set ss \<longrightarrow> encodes enc fn evtid d (dat evtid d)"
      using Cons.prems(4) Raise by simp_all
    have c: "\<forall>n \<in> set (subs_at m ass evtid). is_hook n \<longrightarrow> zw_client w (ec_p1 n) \<noteq> None" using cl Cons.prems(3) by simp
    obtain w1 ps where r: "raise_event enc ra no_mem app evtid d w = Inr w1" "outbox w1 t S T (K - length ms - length ps) (ms @ ps)"
      "map post_msg ps = take (K - length ms) (hook_msgs evtid (dat evtid d) (subs_at m ass evtid))" "zw_sent w1 = zw_sent w"
      "zw_ext w1 = app_calls app evtid d (subs_at m ass evtid) (zw_ext w)" "same_server w w1"
      by (rule raise_spec [OF Cons.prems(2) ev ra Cons.prems(1) enc(1) Cons.prems(5) c])
    have p: "im_evt_encode (zw_ipc w1) = Some fn" "zw_evt w1 = Some m" "zw_client w1 = cs"
      using same_server_ipc(2) [OF r(6)] Cons.prems(1-3) r(6) by (simp_all add: same_server_def)
    have l: "outbox w1 t S T (K - length (ms @ ps)) (ms @ ps)" "length (ms @ ps) \<le> K" "zw_sent w1 = sent @ on_socks cs out0"
      using r(2,4) arg_cong [OF r(3), of length] Cons.prems(6,7) by simp_all
    have "take K (map post_msg ms @ hook_msgs evtid (dat evtid d) (subs_at m ass evtid)) = map post_msg (ms @ ps)"
      using r(3) Cons.prems(6) by simp
    then have "mailbox K (\<lambda>evtid d. hook_msgs evtid (dat evtid d) (subs_at m ass evtid)) ss (map post_msg (ms @ ps), out0) = (q, out)"
      using Cons.prems(8) Raise by simp
    from Cons.IH [OF p enc(2) l this] show ?thesis
      using r(1,5) same_server_trans [OF r(6)] by (fastforce simp: Raise)
  next
    case Wakeup
    obtain w1 where r: "wake run_call ra no_mem t w = Inr w1" "outbox w1 t S T K []" "zw_sent w1 = zw_sent w @ on_socks (zw_client w) (map post_msg ms)"
      "zw_ext w1 = zw_ext w" "same_server w w1" by (rule wakeup_spec [OF Cons.prems(5,6)])
    have p: "im_evt_encode (zw_ipc w1) = Some fn" "zw_evt w1 = Some m" "zw_client w1 = cs"
      using same_server_ipc(2) [OF r(5)] Cons.prems(1-3) r(5) by (simp_all add: same_server_def)
    have l: "outbox w1 t S T (K - length ([] :: zPost list)) []" "length ([] :: zPost list) \<le> K" "zw_sent w1 = sent @ on_socks cs (out0 @ map post_msg ms)"
      "\<forall>evtid d. Raise evtid d \<in> set ss \<longrightarrow> encodes enc fn evtid d (dat evtid d)"
      using r(2,3) Cons.prems(3,4,7) by simp_all
    have "mailbox K (\<lambda>evtid d. hook_msgs evtid (dat evtid d) (subs_at m ass evtid)) ss (map post_msg [], out0 @ map post_msg ms) = (q, out)"
      using Cons.prems(8) Wakeup by simp
    from Cons.IH [OF p l(4,1,2,3) this] show ?thesis
      using r(1,4) same_server_trans [OF r(5)] by (fastforce simp: Wakeup)
  qed
qed

text \<open>C6. Events reach the clients that hooked them through a mailbox. However events are raised and the
  thread of the events wakes up, what the server sends is what a mailbox of K places gives: one message for each
  hook of an event, in the order of the subscriptions, all that waits sent in order at the next wake-up, and the newest
  lost when K messages already wait. K is the least of the schedule's size, the free job nodes and the buffers
  of the pool; malloc may fail all the time. Subscribers of the application are called in between, each on what
  the one before left.\<close>

theorem event_mailbox:
  assumes ra: "realloc_total ra" and fn: "im_evt_encode (zw_ipc w) = Some fn"
    and ev: "zw_evt w = Some m" "ev_wf m fs ass" "ev_last m = 0"
    and cl: "\<forall>evtid. \<forall>n \<in> set (subs_at m ass evtid). is_hook n \<longrightarrow> zw_client w (ec_p1 n) \<noteq> None"
    and enc: "\<forall>evtid d. Raise evtid d \<in> set ss \<longrightarrow> encodes enc fn evtid d (dat evtid d)"
    and o: "outbox w t S T K []"
    and box: "mailbox K (\<lambda>evtid d. hook_msgs evtid (dat evtid d) (subs_at m ass evtid)) ss ([], []) = (q, out)"
  shows "\<exists>w1 ps. evt_steps run_call enc ra no_mem app t ss w = Inr w1 \<and> outbox w1 t S T (K - length ps) ps \<and> map post_msg ps = q \<and>
    zw_sent w1 = zw_sent w @ map (\<lambda>(c, x). (cl_sock (the (zw_client w c)), x)) out \<and>
    zw_ext w1 = app_steps app (subs_at m ass) ss (zw_ext w) \<and> same_server w w1"
proof -
  have i: "outbox w t S T (K - length ([] :: zPost list)) []" "length ([] :: zPost list) \<le> K" "zw_sent w = zw_sent w @ on_socks (zw_client w) []"
    "mailbox K (\<lambda>evtid d. hook_msgs evtid (dat evtid d) (subs_at m ass evtid)) ss (map post_msg [], []) = (q, out)"
    using o box by simp_all
  show ?thesis using mailbox_steps [OF ra ev(2,3) cl fn ev(1) refl enc i] unfolding on_socks_def by blast
qed

text \<open>Two clients hook the same event, on a server with two job nodes and two buffers: of the first two events only one is
  sent, to both; the third waits.\<close>

definition box_sch :: zSchWorld where
  "box_sch = idle_world\<lparr>sx_job := [12 \<mapsto> (blank_job 0)\<lparr>jb_fn := None, jb_next := Some 13\<rparr>, 13 \<mapsto> (blank_job 0)\<lparr>jb_fn := None\<rparr>],
     sx_thr := (sx_thr idle_world)(5 \<mapsto> (idle_thr (Some 1) 6)\<lparr>th_freejobs := Some 12\<rparr>)\<rparr>"

definition box_world :: "zEvent \<Rightarrow> unit zIpcWorld" where
  "box_world m = (let b = zbuf_zero\<lparr>zb_buf := Some (replicate 8192 0), zb_maxlen := ZIPC_BUF_LEN\<rparr> in
     world_example\<lparr>zw_ipc := ipc_example\<lparr>im_evt_encode := Some 9, im_evtSch := Some 6, im_freebuf := Some 401\<rparr>, zw_evt := Some m, zw_sch := box_sch,
       zw_buf := [401 \<mapsto> b\<lparr>zb_next := Some 402\<rparr>, 402 \<mapsto> b], zw_client := [300 \<mapsto> client_example, 301 \<mapsto> client_example\<lparr>cl_sock := 6\<rparr>]\<rparr>)"

lemma box_pending: "pending box_sch 5 {12, 13} {4, 6} 6 2 []"
proof -
  have o: "owns 5 {12, 13} {4, 6} box_sch"
    by (auto simp: owns_def box_sch_def idle_world_def idle_thr_def idle_sch_def new_sch_def thr_in_def que_in_def blank_job_def)
  have bl: "jb_next (blank_job 0) = None" by (simp add: blank_job_def)
  have l: "sch_lists 5 box_sch [12, 13] [[], [], []]"
    by (auto simp: bl sch_lists_def box_sch_def idle_thr_def chains_def EZCRTSchPri_num_def eval_nat_numeral less_Suc_eq)
  have j: "sch_jobs 5 (sx_sch box_sch) (queues box_sch [[], [], []])"
    using idle_wf [of 5] by (simp add: sch_wf_def queues_def box_sch_def)
  have s: "sx_sch box_sch 6 = Some (idle_sch 5 500 2 EZCRTSchType_shareThread (Some 4))" by (simp add: box_sch_def idle_world_def)
  have q: "i < EZCRTSchPri_num \<Longrightarrow> queues box_sch [[], [], []] ! i = []" for i
    by (auto simp: queues_def EZCRTSchPri_num_def less_Suc_eq eval_nat_numeral)
  show ?thesis
    unfolding pending_def
    by (intro conjI exI [of _ "[12, 13]"] exI [of _ "[[], [], []]"] exI [of _ "idle_sch 5 500 2 EZCRTSchType_shareThread (Some 4)"])
      (use o l j s q in \<open>auto simp: sch_wf_def idle_sch_def EZCRTSchPri_num_def\<close>)
qed

lemma box_outbox: "outbox (box_world m) 5 {12, 13} {4, 6} 2 []"
proof -
  have "pool_wf (zw_ipc (box_world m)) (zw_buf (box_world m)) [401, 402]"
    by (auto simp: pool_wf_def box_world_def Let_def buf_wf_def zbuf_zero_def ZIPC_BUF_LEN_def)
  then show ?thesis
    unfolding outbox_def using box_pending
    by (intro exI [of _ 6] exI [of _ "[401, 402]"] exI [of _ 2]) (simp_all add: box_world_def Let_def)
qed

lemma box_manager:
  obtains m1 m2 fs ass where
    "zcrt_event_register (Some 1) (Some ev_empty) 5 5 (Some zipc_hookevent_cb_fn) 300 0 = Inr (EZCRTErr_success, Some m1)"
    "zcrt_event_register (Some 2) (Some m1) 5 5 (Some zipc_hookevent_cb_fn) 301 0 = Inr (EZCRTErr_success, Some m2)"
    "ev_wf m2 fs ass" "ev_last m2 = 0"
    "\<And>evtid. subs_at m2 ass evtid = (if evtid = 5 then map (\<lambda>c. new_sub 5 EZCRTEvtType_all zipc_hookevent_cb_fn c 0) [300, 301] else [])"
proof -
  let ?n = "new_sub 5 EZCRTEvtType_all zipc_hookevent_cb_fn"
  have c: "can_alloc (ev_heap ev_empty) (ev_freelist ev_empty) (Some 1)" by (simp add: can_alloc_def ev_empty_def)
  obtain m1 fs1 ass1 where r: "zcrt_event_register_ex (Some 1) (Some ev_empty) 5 5 EZCRTEvtType_all (Some zipc_hookevent_cb_fn) 300 0 =
      Inr (EZCRTErr_success, Some m1)" "ev_wf m1 fs1 ass1" "ev_last m1 = ev_last ev_empty"
    "subs m1 ass1 5 = insert_sub (?n 300 0) (subs ev_empty (replicate 256 []) 5)"
    "\<And>j. j \<noteq> 5 \<Longrightarrow> j < 256 \<Longrightarrow> subs m1 ass1 j = subs ev_empty (replicate 256 []) j"
    using register_spec [OF ev_empty_wf(1) c, of 5 5 EZCRTEvtType_all zipc_hookevent_cb_fn 300 0] by auto
  have "ev_heap m1 2 = None"
    using r(1) by (simp add: zcrt_event_register_ex_def zcrt_Event_malloc_cb_def ev_empty_def ZCRT_MAX_EVT_def Let_def) auto
  then have c1: "can_alloc (ev_heap m1) (ev_freelist m1) (Some 2)" by (simp add: can_alloc_def)
  obtain m2 fs2 ass2 where r2: "zcrt_event_register_ex (Some 2) (Some m1) 5 5 EZCRTEvtType_all (Some zipc_hookevent_cb_fn) 301 0 =
      Inr (EZCRTErr_success, Some m2)" "ev_wf m2 fs2 ass2" "ev_last m2 = ev_last m1"
    "subs m2 ass2 5 = insert_sub (?n 301 0) (subs m1 ass1 5)"
    "\<And>j. j \<noteq> 5 \<Longrightarrow> j < 256 \<Longrightarrow> subs m2 ass2 j = subs m1 ass1 j"
    using register_spec [OF r(2) c1, of 5 5 EZCRTEvtType_all zipc_hookevent_cb_fn 301 0] by auto
  have "subs_at m2 ass2 evtid = (if evtid = 5 then map (\<lambda>c. ?n c 0) [300, 301] else [])" for evtid
  proof (cases "evtid = 5")
    case True
    then show ?thesis using r(4) r2(4) ev_empty_wf(2) [of 5] by (simp add: subs_at_def insert_sub_def new_sub_def)
  next
    case False
    then have "unat evtid \<noteq> 5" using word_unat_eq_iff [of evtid 5] by simp
    then show ?thesis using False r(5) r2(5) ev_empty_wf(2) by (simp add: subs_at_def)
  qed
  moreover have "ev_last m2 = 0" using r(3) r2(3) by (simp add: ev_empty_def)
  ultimately show ?thesis using that r(1) r2(1,2) by (simp add: zcrt_event_register_def)
qed

theorem event_mailbox_witness:
  "\<exists>m1 m2 w1. zcrt_event_register (Some 1) (Some ev_empty) 5 5 (Some zipc_hookevent_cb_fn) 300 0 = Inr (EZCRTErr_success, Some m1) \<and>
    zcrt_event_register (Some 2) (Some m1) 5 5 (Some zipc_hookevent_cb_fn) 301 0 = Inr (EZCRTErr_success, Some m2) \<and>
    evt_steps (\<lambda>f c i ob st. Inr (EZCRTErr_success, i, ob, st)) int_encoder realloc_zero no_mem (\<lambda>f e d p1 p2 x. x) 5
      [Raise 5 0, Raise 5 1, Wakeup, Raise 5 2] (box_world m2) = Inr w1 \<and>
    zw_sent w1 = [(4, evt_msg 5 (enc_int 7)), (6, evt_msg 5 (enc_int 7))]"
proof -
  obtain m1 m2 fs ass where m:
    "zcrt_event_register (Some 1) (Some ev_empty) 5 5 (Some zipc_hookevent_cb_fn) 300 0 = Inr (EZCRTErr_success, Some m1)"
    "zcrt_event_register (Some 2) (Some m1) 5 5 (Some zipc_hookevent_cb_fn) 301 0 = Inr (EZCRTErr_success, Some m2)"
    "ev_wf m2 fs ass" "ev_last m2 = 0"
    "\<And>evtid. subs_at m2 ass evtid = (if evtid = 5 then map (\<lambda>c. new_sub 5 EZCRTEvtType_all zipc_hookevent_cb_fn c 0) [300, 301] else [])"
    by (rule box_manager) (rule that)
  let ?ss = "[Raise 5 0, Raise 5 1, Wakeup, Raise 5 2]" and ?x = "evt_msg 5 (enc_int 7)"
  have w: "im_evt_encode (zw_ipc (box_world m2)) = Some 9" "zw_evt (box_world m2) = Some m2" "zw_sent (box_world m2) = []"
    "zw_client (box_world m2) = [300 \<mapsto> client_example, 301 \<mapsto> client_example\<lparr>cl_sock := 6\<rparr>]" "cl_sock client_example = 4"
    by (simp_all add: box_world_def Let_def world_example_def client_example_def)
  have h: "is_hook (new_sub 5 EZCRTEvtType_all zipc_hookevent_cb_fn c 0)" "ec_p1 (new_sub 5 EZCRTEvtType_all zipc_hookevent_cb_fn c 0) = c" for c
    by (simp_all add: is_hook_def new_sub_def)
  have cl: "\<forall>evtid. \<forall>n \<in> set (subs_at m2 ass evtid). is_hook n \<longrightarrow> zw_client (box_world m2) (ec_p1 n) \<noteq> None"
    by (auto simp: m(5) h w(4))
  have enc: "\<forall>evtid d. Raise evtid d \<in> set ?ss \<longrightarrow> encodes int_encoder 9 evtid d (enc_int 7)"
    using int_encoder_puts event_body_short by (auto simp: encodes_def)
  have box: "mailbox 2 (\<lambda>evtid d. hook_msgs evtid (enc_int 7) (subs_at m2 ass evtid)) ?ss ([], []) =
      ([(300, ?x), (301, ?x)], [(300, ?x), (301, ?x)])" by (simp add: m(5) h)
  from event_mailbox [where run_call = "\<lambda>f c i ob st. Inr (EZCRTErr_success, i, ob, st)" and app = "\<lambda>f e d p1 p2 x. x",
      OF realloc_zero_total w(1,2) m(3,4) cl enc box_outbox box]
  show ?thesis using m(1,2) w(3,4,5) by auto
qed

end
