(* ===== verification/Zipc_Kernal_Session.thy ===== *)
theory Zipc_Kernal_Session
  imports Zipc_Session Zipc_Kernal_Flow
begin

text \<open>
  Processes that talk to the server of the kernel port, one request at a time, as \<^verbatim>\<open>Zipc_Session\<close> has it for
  sockets. The requests may come from different processes; each datagram carries the process id it is answered to.
  With every datagram comes whether the kernel has a socket buffer for its answer.
\<close>

fun nl_session ::
  "'w ipc_call \<Rightarrow> realloc_fn \<Rightarrow> zAlloc \<Rightarrow> u32 \<Rightarrow> u32 \<Rightarrow> addr \<Rightarrow> addr \<Rightarrow> (bool \<times> zNlMsg) list \<Rightarrow> 'w zNlWorld \<Rightarrow> 'w zNlWorld res" where
  "nl_session run_call ra al hdrlen space t1 t2 [] nw = Inr nw"
| "nl_session run_call ra al hdrlen space t1 t2 ((ok, skb) # rounds) nw =
     rbind (nl_data_recv ra al hdrlen space skb nw) (\<lambda>nw1.
     rbind (wake_with (nl_job ok run_call ra al) t1 (nw_ipc nw1)) (\<lambda>w2.
     rbind (wake_with (nl_job ok run_call ra al) t2 w2) (\<lambda>w3.
       nl_session run_call ra al hdrlen space t1 t2 rounds (nw1\<lparr>nw_ipc := w3\<rparr>))))"

text \<open>The datagrams that answer the requests of the rounds: none where there is no socket buffer.\<close>

definition nl_replies :: "(bool \<times> zNlMsg) list \<Rightarrow> zRequest list \<Rightarrow> (nat \<times> u8 list) list" where
  "nl_replies rounds rs = concat (map2 (\<lambda>(ok, skb) r. datagrams ok (nl_msg_pid skb) (rq_reply r)) rounds rs)"

text \<open>The datagram is complete and carries the request.\<close>

definition carries :: "u32 \<Rightarrow> u32 \<Rightarrow> zNlMsg \<Rightarrow> zRequest \<Rightarrow> bool" where
  "carries hdrlen space skb r \<longleftrightarrow> space \<le> nl_skb_len skb \<and> unat (nl_msg_len skb - hdrlen) = length (nl_data skb) \<and>
     take (10 + length (rq_bytes r)) (nl_data skb) = hdr_bytes (msg_hdr ZEIPC_TYPE_DEFAULT (of_nat (length (rq_bytes r)))) @ rq_bytes r"

lemma carriesE:
  assumes "carries hdrlen space skb r"
  obtains rest where "space \<le> nl_skb_len skb" "unat (nl_msg_len skb - hdrlen) = length (nl_data skb)"
    "nl_data skb = hdr_bytes (msg_hdr ZEIPC_TYPE_DEFAULT (of_nat (length (rq_bytes r)))) @
      enc_request (rq_head r) (rq_comp r) (rq_action r) @ rq_args r @ rest"
  using assms append_take_drop_id [of "10 + length (rq_bytes r)" "nl_data skb"]
  by (metis append_assoc carries_def rq_bytes_def)

lemma nl_session_round:
  assumes ra: "realloc_total ra" and w: "nl_warm nw t1 S1 T1 t2 S2 T2" and ap: "apart t1 S1 T1 t2 S2 T2" and r: "rq_ok r" "carries hdrlen space skb r"
    and short: "length (rq_reply r) < 64000"
    and sv: "served (zw_comp (nw_ipc nw)) (zw_ipc (nw_ipc nw)) (rq_comp r) (rq_action r) c f"
    and call: "answers run_call f c (rq_args r) (reply_head (rq_head r)) (rq_data r) (zw_comp (nw_ipc nw), zw_ext (nw_ipc nw)) st1"
  obtains w1 w2 w3 where "nl_data_recv ra no_mem hdrlen space skb nw = Inr (nw\<lparr>nw_pid := nl_msg_pid skb, nw_ipc := w1\<rparr>)"
    "wake_with (nl_job ok run_call ra no_mem) t1 w1 = Inr w2" "wake_with (nl_job ok run_call ra no_mem) t2 w2 = Inr w3" "(zw_comp w3, zw_ext w3) = st1"
    "zw_sent w3 = zw_sent (nw_ipc nw) @ datagrams ok (nl_msg_pid skb) (rq_reply r)" "nl_warm (nw\<lparr>nw_pid := nl_msg_pid skb, nw_ipc := w3\<rparr>) t1 S1 T1 t2 S2 T2"
    "\<And>q. (zw_ipc w3)\<lparr>im_freebuf := q\<rparr> = (zw_ipc (nw_ipc nw))\<lparr>im_freebuf := q\<rparr>"
proof -
  obtain as where b: "nw_kipc nw \<noteq> 0" "threads_ready (nw_ipc nw) t1 S1 T1 t2 S2 T2"
    "pool_wf (zw_ipc (nw_ipc nw)) (zw_buf (nw_ipc nw)) as" "2 \<le> length as" using w by (auto simp: nl_warm_def)
  obtain fs1 qs1 s1 fs2 qs2 s2 where t: "idle_thread (zw_sch (nw_ipc nw)) t1 S1 T1 fs1 qs1 s1 None" "im_sch (zw_ipc (nw_ipc nw)) = Some s1"
    "idle_thread (zw_sch (nw_ipc nw)) t2 S2 T2 fs2 qs2 s2 None" "im_respondSch (zw_ipc (nw_ipc nw)) = Some s2" by (rule threads_readyE [OF b(2)])
  obtain rest where d: "space \<le> nl_skb_len skb" "unat (nl_msg_len skb - hdrlen) = length (nl_data skb)"
    "nl_data skb = hdr_bytes (msg_hdr ZEIPC_TYPE_DEFAULT (of_nat (length (rq_bytes r)))) @
      enc_request (rq_head r) (rq_comp r) (rq_action r) @ rq_args r @ rest" by (rule carriesE [OF r(2)])
  obtain comp1 ext1 where st: "st1 = (comp1, ext1)" by (cases st1)
  have q: "length (enc_request (rq_head r) (rq_comp r) (rq_action r) @ rq_args r) < 8192" "length (rq_head r) < 2 ^ 32"
    "ch_req (fold apply_field (rq_head r) ch_zero)" "is_name (rq_comp r)" "rq_comp r \<noteq> []" "is_name (rq_action r)" "rq_action r \<noteq> []"
    using r(1) by (simp_all add: rq_ok_def rq_bytes_def)
  have al: "can_buf (al_buf no_mem) (al_bytes no_mem) (zw_buf (nw_ipc nw)) as" using b(4) by (auto simp: can_buf_def)
  obtain w1 w2 w3 where f: "nl_data_recv ra no_mem hdrlen space skb nw = Inr (nw\<lparr>nw_pid := nl_msg_pid skb, nw_ipc := w1\<rparr>)" "zw_sent w1 = zw_sent (nw_ipc nw)"
    "wake_with (nl_job ok run_call ra no_mem) t1 w1 = Inr w2" "zw_sent w2 = zw_sent (nw_ipc nw)" "zw_comp w2 = comp1" "zw_ext w2 = ext1"
    "if too_long ok (rq_reply r) then wake_with (nl_job ok run_call ra no_mem) t2 w2 = Inl AssertFailed
     else wake_with (nl_job ok run_call ra no_mem) t2 w2 = Inr w3 \<and> zw_comp w3 = comp1 \<and> zw_ext w3 = ext1 \<and>
       zw_sent w3 = zw_sent (nw_ipc nw) @ datagrams ok (nl_msg_pid skb) (rq_reply r) \<and>
       nl_warm (nw\<lparr>nw_pid := nl_msg_pid skb, nw_ipc := w3\<rparr>) t1 S1 T1 t2 S2 T2 \<and>
       (\<forall>q. (zw_ipc w3)\<lparr>im_freebuf := q\<rparr> = (zw_ipc (nw_ipc nw))\<lparr>im_freebuf := q\<rparr>)"
    by (rule nl_request_round [where ok = ok and ?al1.0 = no_mem and ?al2.0 = no_mem and nw = nw, unfolded no_mem_simps, OF ra b(1) t ap d [unfolded rq_bytes_def] q b(3)
        al [unfolded no_mem_simps] _ sv call [unfolded st], folded rq_body_def, folded rq_reply_def]) (simp add: b(4), rule that)
  have "\<not> too_long ok (rq_reply r)" using short by (simp add: too_long_def)
  then have g: "wake_with (nl_job ok run_call ra no_mem) t2 w2 = Inr w3" "zw_comp w3 = comp1" "zw_ext w3 = ext1"
    "zw_sent w3 = zw_sent (nw_ipc nw) @ datagrams ok (nl_msg_pid skb) (rq_reply r)"
    "nl_warm (nw\<lparr>nw_pid := nl_msg_pid skb, nw_ipc := w3\<rparr>) t1 S1 T1 t2 S2 T2"
    "\<And>q. (zw_ipc w3)\<lparr>im_freebuf := q\<rparr> = (zw_ipc (nw_ipc nw))\<lparr>im_freebuf := q\<rparr>" using f(7) by simp_all
  show ?thesis by (rule that [OF f(1,3) g(1) _ g(4-6)]) (simp add: st g(2,3))
qed

text \<open>C2. The same for the kernel's server: however many datagrams with requests arrive, one at a time and from any processes, each is answered by
  exactly one datagram to the process that sent it, in order, but for those for whose answer the kernel has no socket buffer: these
  answers are dropped. The calls run once each, in that order, whether answered or not, and malloc is not needed. The replies are
  those a process can receive, shorter than 64000 bytes.\<close>

theorem nl_server_session:
  assumes ra: "realloc_total ra" and w: "nl_warm nw t1 S1 T1 t2 S2 T2" and ap: "apart t1 S1 T1 t2 S2 T2"
    and rs: "list_all2 (\<lambda>(ok, skb) r. rq_ok r \<and> carries hdrlen space skb r \<and> length (rq_reply r) < 64000) rounds rs"
    and calls: "calls run_call (zw_ipc (nw_ipc nw)) (zw_comp (nw_ipc nw), zw_ext (nw_ipc nw)) rs st1"
  shows "\<exists>nw1. nl_session run_call ra no_mem hdrlen space t1 t2 rounds nw = Inr nw1 \<and>
    zw_sent (nw_ipc nw1) = zw_sent (nw_ipc nw) @
      concat (map2 (\<lambda>(ok, skb) r. if ok then [(unat (nl_msg_pid skb), rq_reply r)] else []) rounds rs) \<and>
    (zw_comp (nw_ipc nw1), zw_ext (nw_ipc nw1)) = st1 \<and> nl_warm nw1 t1 S1 T1 t2 S2 T2"
  unfolding datagrams_def [symmetric] nl_replies_def [symmetric]
  using rs w calls
proof (induction rounds rs arbitrary: nw rule: list_all2_induct)
  case Nil
  then show ?case by (auto simp: nl_replies_def elim: calls_NilE)
next
  case (Cons round rounds r rs)
  obtain ok skb where round: "round = (ok, skb)" by (cases round)
  obtain c f st where c: "served (zw_comp (nw_ipc nw)) (zw_ipc (nw_ipc nw)) (rq_comp r) (rq_action r) c f"
    "answers run_call f c (rq_args r) (reply_head (rq_head r)) (rq_data r) (zw_comp (nw_ipc nw), zw_ext (nw_ipc nw)) st"
    "calls run_call (zw_ipc (nw_ipc nw)) st rs st1"
    using Cons.prems(2) by (auto elim: calls_ConsE)
  have r: "rq_ok r" "carries hdrlen space skb r" "length (rq_reply r) < 64000" using Cons.hyps(1) by (simp_all add: round)
  obtain wa wb w1 where s: "nl_data_recv ra no_mem hdrlen space skb nw = Inr (nw\<lparr>nw_pid := nl_msg_pid skb, nw_ipc := wa\<rparr>)"
    "wake_with (nl_job ok run_call ra no_mem) t1 wa = Inr wb" "wake_with (nl_job ok run_call ra no_mem) t2 wb = Inr w1" "(zw_comp w1, zw_ext w1) = st"
    "zw_sent w1 = zw_sent (nw_ipc nw) @ datagrams ok (nl_msg_pid skb) (rq_reply r)" "nl_warm (nw\<lparr>nw_pid := nl_msg_pid skb, nw_ipc := w1\<rparr>) t1 S1 T1 t2 S2 T2"
    "\<And>q. (zw_ipc w1)\<lparr>im_freebuf := q\<rparr> = (zw_ipc (nw_ipc nw))\<lparr>im_freebuf := q\<rparr>"
    by (rule nl_session_round [OF ra Cons.prems(1) ap r c(1,2)]) (rule that)
  have "calls run_call (zw_ipc w1) (zw_comp w1, zw_ext w1) rs st1" using calls_ipc [OF c(3) s(7)] s(4) by simp
  with Cons.IH [OF s(6)] show ?case using s(1-3,5) by (auto simp: round nl_replies_def)
qed

text \<open>A server that has just answered its first request gets three more, of other processes; for the second of them there
  is no socket buffer.\<close>

definition rq_datagram :: "u32 \<Rightarrow> zNlMsg" where
  "rq_datagram pid = (nl_datagram (rq_bytes rq_example))\<lparr>nl_msg_pid := pid\<rparr>"

lemma rq_datagram_simps [simp]:
  "nl_skb_len (rq_datagram pid) = 28" "nl_msg_pid (rq_datagram pid) = pid" "nl_msg_len (rq_datagram pid) = of_nat (26 + length (rq_bytes rq_example))"
  "nl_data (rq_datagram pid) = hdr_bytes (msg_hdr ZEIPC_TYPE_DEFAULT (of_nat (length (rq_bytes rq_example)))) @ rq_bytes rq_example"
  by (simp_all add: rq_datagram_def nl_datagram_def)

lemma rq_datagram_len: "unat (nl_msg_len (rq_datagram pid) - 16) = length (nl_data (rq_datagram pid))"
proof -
  have "unat (of_nat (10 + length (rq_bytes rq_example)) :: u32) = 10 + length (rq_bytes rq_example)"
    using rq_example_ok by (intro unat_of_nat_u32_small) (simp add: rq_ok_def)
  then show ?thesis by simp
qed

lemma rq_example_short: "length (rq_reply rq_example) < 64000"
  using enc_reply_ch_short [of 3 True] by (simp add: rq_reply_def rq_body_def rq_example_def)

lemma nl_flow_world_warms:
  obtains nw :: "unit zNlWorld" where "nl_warm nw 2 {11} {3} 5 {12} {4, 6}" "zw_sent (nw_ipc nw) = [(7, rq_reply rq_example)]"
    "zw_comp (nw_ipc nw) = zw_comp flow_world" "\<And>q. (zw_ipc (nw_ipc nw))\<lparr>im_freebuf := q\<rparr> = (zw_ipc flow_world)\<lparr>im_freebuf := q\<rparr>"
proof -
  let ?al = "rn_alloc (flow_round [])" and ?w = "nw_ipc nl_flow_world"
  have w: "zw_sch ?w = idle_world" "im_sch (zw_ipc ?w) = Some 3" "im_respondSch (zw_ipc ?w) = Some 4" "nw_kipc nl_flow_world \<noteq> 0" "zw_sent ?w = []"
    "?w = flow_world" by (simp_all add: nl_flow_world_def flow_world_def world_example_def ipc_example_def)
  have p: "pool_wf (zw_ipc ?w) (zw_buf ?w) []" by (simp add: pool_wf_def nl_flow_world_def flow_world_def ipc_example_def)
  have al: "can_buf (al_buf ?al) (al_bytes ?al) (zw_buf ?w) []"
    "2 \<le> length ([] :: addr list) \<or> (\<exists>n. al_buf alloc_example = Some n \<and> zw_buf ?w n = None \<and> al_bytes alloc_example \<and> al_buf ?al \<noteq> Some n)"
    by (simp_all add: can_buf_def alloc_example_def flow_round_def nl_flow_world_def flow_world_def world_example_def)
  have t: "idle_thread (zw_sch ?w) 2 {11} {3} [] [[], [], []] 3 (al_job ?al)" "idle_thread (zw_sch ?w) 5 {12} {4, 6} [] [[], [], []] 4 (al_job alloc_example)"
    using idle_threads(1,2) w(1) by (simp_all add: alloc_example_def flow_round_def)
  have sv: "served (zw_comp ?w) (zw_ipc ?w) (rq_comp rq_example) (rq_action rq_example) 100 7"
    using example_served(1) by (simp add: rq_example_def nl_flow_world_def flow_world_def world_example_def served_def)
  have q: "length (enc_request (rq_head rq_example) (rq_comp rq_example) (rq_action rq_example) @ rq_args rq_example) < 8192" "length (rq_head rq_example) < 2 ^ 32"
    "ch_req (fold apply_field (rq_head rq_example) ch_zero)" "is_name (rq_comp rq_example)" "rq_comp rq_example \<noteq> []"
    "is_name (rq_action rq_example)" "rq_action rq_example \<noteq> []" using rq_example_ok by (simp_all add: rq_ok_def rq_bytes_def)
  have an: "answers no_op_call 7 100 (rq_args rq_example) (reply_head (rq_head rq_example)) (rq_data rq_example) (zw_comp ?w, zw_ext ?w) (zw_comp ?w, zw_ext ?w)"
    using no_op_answers by (simp add: rq_example_def)
  have rx: "nl_data (rq_datagram 7) = hdr_bytes (msg_hdr ZEIPC_TYPE_DEFAULT (of_nat (length (enc_request (rq_head rq_example) (rq_comp rq_example) (rq_action rq_example) @ rq_args rq_example)))) @
      enc_request (rq_head rq_example) (rq_comp rq_example) (rq_action rq_example) @ rq_args rq_example @ []" by (simp add: rq_bytes_def)
  have sp: "(28 :: u32) \<le> nl_skb_len (rq_datagram 7)" and pid: "unat (nl_msg_pid (rq_datagram 7)) = 7" by simp_all
  have sh: "\<not> too_long True (rq_reply rq_example)" using rq_example_short by (simp add: too_long_def)
  show ?thesis
    by (rule nl_request_round [where ok = True, OF realloc_zero_total w(4) t(1) w(2) t(2) w(3) idle_threads(4) sp rq_datagram_len rx q p al sv an, folded rq_body_def, folded rq_reply_def,
        unfolded w(5) pid append_Nil])
      (simp add: sh w(6) datagrams_def, elim conjE, rule that, assumption, simp_all add: w(6))
qed

theorem nl_server_session_witness:
  "\<exists>nw nw1. zw_sent (nw_ipc nw) = [(7, rq_reply rq_example)] \<and>
    nl_session no_op_call realloc_zero no_mem 16 28 2 5 [(True, rq_datagram 8), (False, rq_datagram 6), (True, rq_datagram 9)] nw = Inr nw1 \<and>
    zw_sent (nw_ipc nw1) = [(7, rq_reply rq_example), (8, rq_reply rq_example), (9, rq_reply rq_example)]"
proof -
  obtain nw :: "unit zNlWorld" where w: "nl_warm nw 2 {11} {3} 5 {12} {4, 6}" "zw_sent (nw_ipc nw) = [(7, rq_reply rq_example)]"
    "zw_comp (nw_ipc nw) = zw_comp flow_world" "\<And>q. (zw_ipc (nw_ipc nw))\<lparr>im_freebuf := q\<rparr> = (zw_ipc flow_world)\<lparr>im_freebuf := q\<rparr>"
    by (rule nl_flow_world_warms) (rule that)
  let ?st = "(zw_comp (nw_ipc nw), zw_ext (nw_ipc nw))"
  have "served (zw_comp flow_world) (zw_ipc flow_world) (rq_comp rq_example) (rq_action rq_example) 100 7"
    using example_served(1) by (simp add: rq_example_def flow_world_def world_example_def served_def)
  then have sv: "served (fst ?st) (zw_ipc (nw_ipc nw)) (rq_comp rq_example) (rq_action rq_example) 100 7" using served_ipc w(3,4) by (metis fst_conv)
  have an: "answers no_op_call 7 100 (rq_args rq_example) (reply_head (rq_head rq_example)) (rq_data rq_example) ?st ?st"
    using no_op_answers by (simp add: rq_example_def)
  have c: "calls no_op_call (zw_ipc (nw_ipc nw)) ?st [rq_example, rq_example, rq_example] ?st"
    by (rule calls.call [OF sv an calls.call [OF sv an calls.call [OF sv an calls.no_call]]])
  have d: "list_all2 (\<lambda>(ok, skb) r. rq_ok r \<and> carries 16 28 skb r \<and> length (rq_reply r) < 64000)
      [(True, rq_datagram 8), (False, rq_datagram 6), (True, rq_datagram 9)] [rq_example, rq_example, rq_example]"
    using rq_example_ok rq_datagram_len rq_example_short by (simp add: carries_def)
  from nl_server_session [OF realloc_zero_total w(1) idle_threads(4) d c] w(2) show ?thesis by fastforce
qed

end
