(* ===== verification/Zcrt_Os.thy ===== *)
theory Zcrt_Os
  imports Zcrt_Handle Zcrt_Buf Zcrt_Sch_Frame "HOL-Library.Signed_Division"
begin

text \<open>
  The user-space ports of the operating system layer, \<^verbatim>\<open>zcrtlib/zcrt_os_linux.c\<close> and
  \<^verbatim>\<open>zcrtlib/zcrt_os_win32.c\<close>: what they make of the results of the calls they wrap. Each such
  call is an argument. The allocator and the Linux counters are modelled where they are used.
\<close>

section \<open>Linux\<close>

text \<open>\<^verbatim>\<open>free\<close>, of the memory of an object.\<close>

definition linux_free :: "addr option \<Rightarrow> 'o objs \<Rightarrow> 'o objs" where
  "linux_free p os = (case p of None \<Rightarrow> os | Some a \<Rightarrow> os(a := None))"

text \<open>\<^verbatim>\<open>new\<close> is what \<^verbatim>\<open>malloc\<close> gives; \<^verbatim>\<open>memset\<close> follows before any test.\<close>

definition linux_sem_create :: "(u16 \<Rightarrow> 's option) \<Rightarrow> addr option \<Rightarrow> u16 \<Rightarrow> 's objs \<Rightarrow> (addr option \<times> 's objs) res" where
  "linux_sem_create sem_init new initial os = rbind (deref new) (\<lambda>sem. case sem_init initial of
     None \<Rightarrow> Inr (None, linux_free (Some sem) os)
   | Some s \<Rightarrow> Inr (Some sem, os(sem \<mapsto> s)))"

definition linux_sem_delete :: "addr option \<Rightarrow> 's objs \<Rightarrow> 's objs res" where
  "linux_sem_delete h os = (case h of None \<Rightarrow> Inr os | Some p \<Rightarrow> rbind (deref (os p)) (\<lambda>_. Inr (linux_free h os)))"

text \<open>
  \<^verbatim>\<open>timedwait\<close> has no result when the deadline passes, \<^verbatim>\<open>wait\<close> none while the thread has to wait,
  and otherwise the semaphore as it leaves it, also when a signal ends the wait. The deadline is the time in seconds plus the
  timeout; its nanoseconds are whatever was on the stack.
\<close>

definition linux_sem_take ::
  "('s \<Rightarrow> 's option) \<Rightarrow> (int \<times> int \<Rightarrow> 's \<Rightarrow> 's option) \<Rightarrow> int \<Rightarrow> int \<Rightarrow> addr \<Rightarrow> u32 \<Rightarrow> 's objs \<Rightarrow> (EZCRTErr \<times> 's objs) res option" where
  "linux_sem_take wait timedwait now nsec p timeout os = (case os p of
     None \<Rightarrow> Some (Inl NullDeref)
   | Some s \<Rightarrow>
       if timeout \<noteq> ZCRT_WAIT_FOREVER then (case timedwait (now + uint timeout, nsec) s of
         None \<Rightarrow> Some (Inr (EZCRTErr_timeout, os))
       | Some s1 \<Rightarrow> Some (Inr (EZCRTErr_success, os(p \<mapsto> s1))))
       else map_option (\<lambda>s1. Inr (EZCRTErr_success, os(p \<mapsto> s1))) (wait s))"

definition linux_sem_give :: "('s \<Rightarrow> 's) \<Rightarrow> addr \<Rightarrow> 's objs \<Rightarrow> 's objs res" where
  "linux_sem_give post p os = rbind (deref (os p)) (\<lambda>s. Inr (os(p \<mapsto> post s)))"

definition linux_mutex_delete :: "addr option \<Rightarrow> 'm objs \<Rightarrow> 'm objs res" where
  "linux_mutex_delete h os = (case h of None \<Rightarrow> Inr os | Some p \<Rightarrow> rbind (deref (os p)) (\<lambda>_. Inr (linux_free h os)))"

text \<open>\<^verbatim>\<open>lock\<close> is locking by the calling thread, with no result while it has to wait.\<close>

definition linux_mutex_lock :: "('m \<Rightarrow> 'm option) \<Rightarrow> addr \<Rightarrow> 'm objs \<Rightarrow> 'm objs res option" where
  "linux_mutex_lock lock p os = (case os p of
     None \<Rightarrow> Some (Inl NullDeref)
   | Some m \<Rightarrow> map_option (\<lambda>m1. Inr (os(p \<mapsto> m1))) (lock m))"

definition linux_mutex_unlock :: "('m \<Rightarrow> 'm) \<Rightarrow> addr \<Rightarrow> 'm objs \<Rightarrow> 'm objs res" where
  "linux_mutex_unlock unlock p os = rbind (deref (os p)) (\<lambda>m. Inr (os(p \<mapsto> unlock m)))"

definition linux_mutex_trylock :: "('m \<Rightarrow> 'm option) \<Rightarrow> addr \<Rightarrow> 'm objs \<Rightarrow> (EZCRTErr \<times> 'm objs) res" where
  "linux_mutex_trylock lock p os = rbind (deref (os p)) (\<lambda>m. case lock m of
     Some m1 \<Rightarrow> Inr (EZCRTErr_success, os(p \<mapsto> m1))
   | None \<Rightarrow> Inr (EZCRTErr_timeout, os))"

definition linux_thread_create :: "bool \<Rightarrow> s32 \<Rightarrow> (s32 \<Rightarrow> int) \<Rightarrow> int \<Rightarrow> nat \<Rightarrow> nat option" where
  "linux_thread_create f_given ss setstacksize create mythread =
     (if \<not> f_given then None
      else if ss \<noteq> 0 \<and> setstacksize ss \<noteq> 0 then None
      else if create \<noteq> 0 then None
      else Some mythread)"

text \<open>\<^verbatim>\<open>cancelled\<close> are the threads that were asked to end; no thread is told so when it asks.\<close>

definition linux_thread_stop :: "addr option \<Rightarrow> addr set \<Rightarrow> addr set" where
  "linux_thread_stop h cancelled = (case h of None \<Rightarrow> cancelled | Some t \<Rightarrow> insert t cancelled)"

definition linux_thread_should_stop :: "addr \<Rightarrow> addr set \<Rightarrow> bool" where
  "linux_thread_should_stop h cancelled = False"

text \<open>The seconds and microseconds given to \<^verbatim>\<open>select\<close>; \<^verbatim>\<open>None\<close> is \<^verbatim>\<open>sched_yield\<close>.\<close>

definition linux_sleep :: "s32 \<Rightarrow> (int \<times> int) option" where
  "linux_sleep msec = (if msec = 0 then None else Some (sint msec sdiv 1000, (sint msec smod 1000) * 1000))"

text \<open>
  \<^verbatim>\<open>sem_timedwait\<close> as written for Mac OS on a counter with a mutex and a condition:
  \<^verbatim>\<open>lock\<close>, \<^verbatim>\<open>wait\<close> and \<^verbatim>\<open>unlock\<close> are what the calls return, and \<^verbatim>\<open>woken\<close>
  is the count found after waiting. The result, the count left, and \<^verbatim>\<open>errno\<close> when it is set.
\<close>

definition mac_sem_timedwait :: "bool \<Rightarrow> int \<Rightarrow> int \<Rightarrow> int \<Rightarrow> u32 \<Rightarrow> u32 \<Rightarrow> int \<times> u32 \<times> int option" where
  "mac_sem_timedwait psem lock wait unlock cnt woken =
     (if \<not> psem then (22, cnt, None)
      else if lock \<noteq> 0 then (lock, cnt, None)
      else
        let (xresult, c) = (if cnt = 0 then (wait, woken) else (0, cnt));
            c1 = (if xresult = 0 \<and> c > 0 then c - 1 else c)
        in if unlock \<noteq> 0 then (unlock, c1, None)
           else if xresult \<noteq> 0 then (-1, c1, Some xresult)
           else (0, c1, None))"

text \<open>A sleep of a positive time asks \<^verbatim>\<open>select\<close> for exactly that time; one of a negative time has
  negative microseconds or seconds.\<close>

lemma linux_sleep_exact:
  assumes "0 <s msec"
  shows "\<exists>s us. linux_sleep msec = Some (s, us) \<and> 0 \<le> s \<and> 0 \<le> us \<and> us < 1000000 \<and> s * 1000000 + us = sint msec * 1000"
proof -
  have p: "0 < sint msec" using assms by (simp add: word_sless_alt)
  then have "msec \<noteq> 0" by auto
  moreover have "sint msec sdiv 1000 = sint msec div 1000" "sint msec smod 1000 = sint msec mod 1000"
    using p by (simp_all add: signed_divide_int_def signed_modulo_int_def sgn_if)
  moreover have "0 \<le> sint msec div 1000" using p by (simp add: pos_imp_zdiv_nonneg_iff)
  moreover have "sint msec div 1000 * 1000000 + sint msec mod 1000 * 1000 = sint msec * 1000"
    using div_mult_mod_eq [of "sint msec" 1000] by linarith
  ultimately show ?thesis by (simp add: linux_sleep_def)
qed

text \<open>A semaphore of Linux is a counter: created with its initial count, it is taken while the count is positive, and times out at once
  the deadline passes otherwise. After deletion it does not exist.\<close>

lemma linux_sem_counts:
  assumes laws: "sem_laws (timedwait (now + uint timeout, nsec)) post cnt" and t: "timeout \<noteq> ZCRT_WAIT_FOREVER"
  shows "sem_init n = Some s0 \<Longrightarrow> cnt s0 = unat n \<Longrightarrow>
      \<exists>os1. linux_sem_create sem_init (Some p) n os = Inr (Some p, os1) \<and> map_option cnt (os1 p) = Some (unat n)"
    and "os p = Some s \<Longrightarrow> \<exists>os1. linux_sem_give post p os = Inr os1 \<and> map_option cnt (os1 p) = Some (Suc (cnt s))"
    and "os p = Some s \<Longrightarrow> 0 < cnt s \<Longrightarrow>
      \<exists>os1. linux_sem_take wait timedwait now nsec p timeout os = Some (Inr (EZCRTErr_success, os1)) \<and> map_option cnt (os1 p) = Some (cnt s - 1)"
    and "os p = Some s \<Longrightarrow> cnt s = 0 \<Longrightarrow> linux_sem_take wait timedwait now nsec p timeout os = Some (Inr (EZCRTErr_timeout, os))"
    and "os p = Some s \<Longrightarrow> \<exists>os1. linux_sem_delete (Some p) os = Inr os1 \<and> linux_sem_give post p os1 = Inl NullDeref \<and>
      linux_sem_take wait timedwait now nsec p timeout os1 = Some (Inl NullDeref)"
proof -
  note law = sem_lawsD [OF laws]
  show "\<exists>os1. linux_sem_take wait timedwait now nsec p timeout os = Some (Inr (EZCRTErr_success, os1)) \<and> map_option cnt (os1 p) = Some (cnt s - 1)"
    if c: "os p = Some s" "0 < cnt s"
  proof -
    obtain s1 where "timedwait (now + uint timeout, nsec) s = Some s1" using law(1) [of s] c(2) by (cases "timedwait (now + uint timeout, nsec) s") auto
    then show ?thesis using c t law(2) by (simp add: linux_sem_take_def)
  qed
  show "linux_sem_take wait timedwait now nsec p timeout os = Some (Inr (EZCRTErr_timeout, os))" if "os p = Some s" "cnt s = 0"
    using that t law(1) [of s] by (simp add: linux_sem_take_def)
qed (simp_all add: linux_sem_create_def linux_sem_give_def linux_sem_delete_def linux_free_def linux_sem_take_def sem_lawsD [OF laws])

lemma mac_sem_spurious:
  "mac_sem_timedwait True 0 0 0 0 0 = (0, 0, None)"
  by (simp add: mac_sem_timedwait_def)

section \<open>Windows\<close>

definition WAIT_OBJECT_0 :: u32 where "WAIT_OBJECT_0 = 0"
definition WAIT_TIMEOUT :: u32 where "WAIT_TIMEOUT = 258"

text \<open>
  \<^verbatim>\<open>wait\<close> is \<^verbatim>\<open>WaitForSingleObject\<close>, with its answer and the object after it. \<^verbatim>\<open>dw\<close> holds the
  result of the comparison, 1 or 0, and not that of waiting.
\<close>

definition INFINITE_MS :: u32 where "INFINITE_MS = 0xFFFFFFFF"

definition win_sem_take :: "(u32 \<Rightarrow> 'e \<Rightarrow> u32 \<times> 'e) \<Rightarrow> u32 \<Rightarrow> 'e \<Rightarrow> EZCRTErr \<times> 'e" where
  "win_sem_take wait timeout h =
     (let (dw, h1) = (if timeout = ZCRT_WAIT_FOREVER
        then (let (r, h1) = wait INFINITE_MS h in (of_bool (r = WAIT_OBJECT_0) :: u32, h1))
        else (let (r, h1) = wait timeout h in (of_bool (r = WAIT_OBJECT_0), h1))) in
      (if dw = WAIT_OBJECT_0 then EZCRTErr_success
       else if dw = WAIT_TIMEOUT then EZCRTErr_timeout
       else EZCRTErr_badObject, h1))"

text \<open>The memory of Windows is not cleared: the block holds what \<^verbatim>\<open>malloc\<close> found there.\<close>

definition win_malloc :: "(nat \<Rightarrow> block option) \<Rightarrow> u32 \<Rightarrow> u32 \<Rightarrow> block option" where
  "win_malloc malloc n tag = malloc (unat n)"

definition win_realloc :: "realloc_fn \<Rightarrow> block option \<Rightarrow> u32 \<Rightarrow> u32 \<Rightarrow> block option" where
  "win_realloc realloc p n tag = realloc p (unat n)"

definition win_free :: "addr option \<Rightarrow> 'o objs \<Rightarrow> 'o objs" where
  "win_free p os = (case p of None \<Rightarrow> os | Some a \<Rightarrow> os(a := None))"

text \<open>Critical sections; the memory of a new one is not tested before it is initialised.\<close>

definition win_mutex_create :: "'m \<Rightarrow> addr option \<Rightarrow> 'm objs \<Rightarrow> (addr option \<times> 'm objs) res" where
  "win_mutex_create init new os = rbind (deref new) (\<lambda>m. Inr (Some m, os(m \<mapsto> init)))"

definition win_mutex_delete :: "addr option \<Rightarrow> 'm objs \<Rightarrow> 'm objs res" where
  "win_mutex_delete h os = (if h \<noteq> None then rbind (deref (os (the h))) (\<lambda>_. Inr (win_free h os)) else Inr os)"

definition win_mutex_lock :: "('m \<Rightarrow> 'm option) \<Rightarrow> addr \<Rightarrow> 'm objs \<Rightarrow> 'm objs res option" where
  "win_mutex_lock enter p os = (case os p of
     None \<Rightarrow> Some (Inl NullDeref)
   | Some m \<Rightarrow> map_option (\<lambda>m1. Inr (os(p \<mapsto> m1))) (enter m))"

definition win_mutex_unlock :: "('m \<Rightarrow> 'm) \<Rightarrow> addr \<Rightarrow> 'm objs \<Rightarrow> 'm objs res" where
  "win_mutex_unlock leave p os = rbind (deref (os p)) (\<lambda>m. Inr (os(p \<mapsto> leave m)))"

definition win_mutex_trylock :: "('m \<Rightarrow> 'm option) \<Rightarrow> addr \<Rightarrow> 'm objs \<Rightarrow> (EZCRTErr \<times> 'm objs) res" where
  "win_mutex_trylock enter p os = rbind (deref (os p)) (\<lambda>m. case enter m of
     Some m1 \<Rightarrow> Inr (EZCRTErr_success, os(p \<mapsto> m1))
   | None \<Rightarrow> Inr (EZCRTErr_timeout, os))"

text \<open>\<^verbatim>\<open>begin\<close> is what \<^verbatim>\<open>_beginthreadex\<close> gives. Stopping does nothing, and no thread is
  ever told to stop.\<close>

definition win_thread_create :: "('a \<Rightarrow> addr option) \<Rightarrow> 'a \<Rightarrow> addr option" where
  "win_thread_create begin arg = begin arg"

definition win_thread_stop :: "addr option \<Rightarrow> addr set \<Rightarrow> addr set" where
  "win_thread_stop h stopped = stopped"

definition win_thread_should_stop :: "addr \<Rightarrow> addr set \<Rightarrow> bool" where
  "win_thread_should_stop h stopped = False"

text \<open>\<^verbatim>\<open>Sleep\<close> takes an unsigned number of milliseconds.\<close>

definition win_sleep :: "s32 \<Rightarrow> u32" where
  "win_sleep msec = msec"

definition win_get_time64 :: "s64 \<Rightarrow> s64" where
  "win_get_time64 counter = counter"

text \<open>The frequency is asked for once and kept.\<close>

definition win_get_time_freq :: "u32 \<Rightarrow> u32 \<Rightarrow> u32 \<times> u32" where
  "win_get_time_freq s_time_freq query =
     (let f = (if s_time_freq = 0xffffffff then query else s_time_freq) in (f, f))"

text \<open>On Windows the result of taking a semaphore is inverted: a semaphore that was taken is answered with the
  error of a bad object, and a timeout or a failure with success.\<close>

lemma win_sem_take_inverted:
  "wait timeout h = (r, h1) \<Longrightarrow>
    win_sem_take wait timeout h = (if r = WAIT_OBJECT_0 then EZCRTErr_badObject else EZCRTErr_success, h1)"
  by (cases "timeout = 0xFFFFFFFF") (auto simp: win_sem_take_def WAIT_OBJECT_0_def WAIT_TIMEOUT_def ZCRT_WAIT_FOREVER_def INFINITE_MS_def)

text \<open>A sleep of a negative time: \<^verbatim>\<open>select\<close> is given negative microseconds, which it refuses, so Linux does not
  sleep; Windows sleeps for ever.\<close>

lemma sleep_negative: "linux_sleep (- 1) = Some (0, - 1000)" "win_sleep (- 1) = 0xFFFFFFFF"
  by (simp_all add: linux_sleep_def win_sleep_def signed_divide_int_def signed_modulo_int_def)

text \<open>On no user-space port is a thread that was asked to stop told so; on Linux it is cancelled wherever it is, on Windows it
  runs on.\<close>

lemma stop_not_told:
  "\<not> linux_thread_should_stop t (linux_thread_stop (Some t) ts)" "\<not> win_thread_should_stop t (win_thread_stop (Some t) ts)"
  "t \<in> linux_thread_stop (Some t) ts" "win_thread_stop (Some t) ts = ts"
  by (simp_all add: linux_thread_should_stop_def win_thread_should_stop_def linux_thread_stop_def win_thread_stop_def)

section \<open>Clocks\<close>

text \<open>
  The seconds and microseconds that \<^verbatim>\<open>gettimeofday\<close> gives are numbers of type
  \<^verbatim>\<open>long\<close>, whose width \<^verbatim>\<open>'l\<close> depends on the machine; the sum is made at that width
  and extended afterwards. The kernel port writes the same expression.
\<close>

definition zcrt_get_time_freq :: u32 where "zcrt_get_time_freq = 1000000"

definition linux_get_time64 :: "'l::len word \<Rightarrow> 'l word \<Rightarrow> s64" where
  "linux_get_time64 tv_sec tv_usec = scast (tv_sec * 1000000 + tv_usec)"

definition kern_get_time64 :: "'l::len word \<Rightarrow> 'l word \<Rightarrow> s64" where
  "kern_get_time64 tv_sec tv_usec = scast (tv_sec * 1000000 + tv_usec)"

definition kern_current_time :: "'l::len word \<Rightarrow> u32" where
  "kern_current_time tv_sec = ucast tv_sec"

text \<open>With a \<^verbatim>\<open>long\<close> of 64 bits the time stamp is exact for the next 290 000 years.\<close>

lemma time64_exact:
  fixes sec usec :: "64 word"
  assumes "uint sec < 2 ^ 43" "uint usec < 1000000"
  shows "sint (linux_get_time64 sec usec) = uint sec * 1000000 + uint usec"
proof -
  have "uint (sec * 1000000 + usec) = uint sec * 1000000 + uint usec"
    using assms by (simp add: uint_word_ariths uint_nat [symmetric] mod_mult_left_eq)
  moreover have "sint (sec * 1000000 + usec) = uint (sec * 1000000 + usec)"
  proof -
    have "0 \<le> uint sec * 1000000 + uint usec" by simp
    then have "- (2 ^ 63) \<le> uint sec * 1000000 + uint usec" by (rule order_trans [rotated]) simp
    then show ?thesis using calculation assms by (simp add: sint_uint, intro signed_take_bit_int_eq_self) simp_all
  qed
  ultimately show ?thesis by (simp add: linux_get_time64_def)
qed

text \<open>With 32 bits it wraps: it has gone backwards between the seconds 2147 and 2148 of 1970, and ever after 4295 seconds.\<close>

lemma time64_wraps:
  "linux_get_time64 (2148 :: 32 word) 0 = linux_get_time64 (2147 :: 32 word) 0 - 4293967296"
  "linux_get_time64 (2147 :: 32 word) 0 = 2147000000"
  by (simp_all add: linux_get_time64_def)

section \<open>The mutexes of Linux\<close>

text \<open>
  The attribute is made once, when the first mutex is; \<^verbatim>\<open>init\<close> and \<^verbatim>\<open>settype\<close> are
  \<^verbatim>\<open>pthread_mutexattr_init\<close> and setting the type to recursive. The result is the mutex with the attribute it
  is initialised with.
\<close>

definition linux_mutex_create ::
  "'a \<Rightarrow> ('a \<Rightarrow> 'a) \<Rightarrow> nat option \<Rightarrow> bool \<times> 'a \<Rightarrow> ((nat \<times> 'a) \<times> bool \<times> 'a) res" where
  "linux_mutex_create init settype new st = rbind (deref new) (\<lambda>m.
     let st1 = (if \<not> fst st then (True, settype init) else st) in Inr ((m, snd st1), st1))"

fun linux_mutexes :: "'a \<Rightarrow> ('a \<Rightarrow> 'a) \<Rightarrow> nat list \<Rightarrow> bool \<times> 'a \<Rightarrow> (nat \<times> 'a) list res" where
  "linux_mutexes init settype [] st = Inr []"
| "linux_mutexes init settype (m # ms) st =
     rbind (linux_mutex_create init settype (Some m) st) (\<lambda>(h, st1).
     rbind (linux_mutexes init settype ms st1) (\<lambda>hs. Inr (h # hs)))"

text \<open>Whatever is in the static variable before, every mutex the program makes is recursive.\<close>

lemma linux_mutexes_recursive:
  "linux_mutexes init settype ms (False, a) = Inr (map (\<lambda>m. (m, settype init)) ms)"
proof -
  have "linux_mutexes init settype ms (True, settype init) = Inr (map (\<lambda>m. (m, settype init)) ms)" for ms
    by (induction ms) (simp_all add: linux_mutex_create_def)
  then show ?thesis by (cases ms) (simp_all add: linux_mutex_create_def)
qed

section \<open>The semaphores of Windows\<close>

text \<open>
  A semaphore is an event that resets itself. \<^verbatim>\<open>create\<close>, \<^verbatim>\<open>set\<close> and
  \<^verbatim>\<open>wait\<close> are the calls of Windows; the first is given whether the event is reset by hand and whether it is
  set at first, the last has no result while the caller has to wait.
\<close>

definition win_sem_create :: "(bool \<Rightarrow> bool \<Rightarrow> 'e) \<Rightarrow> u16 \<Rightarrow> 'e" where
  "win_sem_create CreateEvent initial = CreateEvent False (initial > 0)"

definition win_sem_give :: "('e \<Rightarrow> 'e) \<Rightarrow> 'e \<Rightarrow> 'e" where
  "win_sem_give SetEvent h = SetEvent h"

definition win_sem_delete :: "addr \<Rightarrow> 'e objs \<Rightarrow> 'e objs" where
  "win_sem_delete h os = os(h := None)"

text \<open>However high it starts and however often it is given, such a semaphore is taken once and not a second time.\<close>

lemma win_sem_counts_to_one:
  assumes ev: "event_laws create give wait on" and n: "0 < initial"
  shows "\<exists>e. wait ((win_sem_give give ^^ k) (win_sem_create create initial)) = Some e \<and> wait e = None"
proof -
  note law = event_lawsD [OF ev]
  have "on ((win_sem_give give ^^ k) (win_sem_create create initial))"
    using n by (cases k) (simp_all only: funpow.simps comp_apply id_apply win_sem_create_def win_sem_give_def law)
  then obtain e where e: "wait ((win_sem_give give ^^ k) (win_sem_create create initial)) = Some e"
    using law(3) by (metis not_None_eq)
  show ?thesis using e law(3) [of e] law(4) [OF e] by blast
qed

section \<open>The counters of Windows\<close>

text \<open>\<^verbatim>\<open>InterlockedIncrement\<close> and \<^verbatim>\<open>InterlockedDecrement\<close> return the new value.\<close>

definition win_atom_inc :: "s32 \<Rightarrow> s32 \<times> s32" where
  "win_atom_inc cnt = (cnt + 1, cnt + 1)"

definition win_atom_dec :: "s32 \<Rightarrow> s32 \<times> s32" where
  "win_atom_dec cnt = (cnt - 1, cnt - 1)"

text \<open>They count, as those of the kernel do, so \<^verbatim>\<open>delete_counted\<close> is about this port, too.\<close>

lemma win_counting: "counting win_atom_inc win_atom_dec"
  by (simp add: counting_def win_atom_inc_def win_atom_dec_def)

end
