(* ===== verification/Zcrt_Wakeup.thy ===== *)
theory Zcrt_Wakeup
  imports Zcrt_Sch_Frame Zcrt_Handle
begin

text \<open>
  Sleeping and waking up in \<^verbatim>\<open>zcrtlib/zschedule.c\<close>. A sender first queues its job under the mutex and then
  gives the semaphore; the worker takes the semaphore and then takes one job after the other until it finds none. These are
  separate steps here, between which every other thread may run; the tests of a sender are part of its queueing
  (\<^verbatim>\<open>Zcrt_Race\<close> has them apart), since only jobs queued count for the wake-up. The semaphore is an object of the operating system, to which the ports'
  \<^verbatim>\<open>zcrt_sem_give\<close> and \<^verbatim>\<open>zcrt_sem_take\<close> hand the calls on; the worker looks at no result of taking.
\<close>

section \<open>What the schedule needs of a semaphore\<close>

text \<open>A semaphore that was given can be taken without waiting.\<close>

definition wake_laws :: "('s \<Rightarrow> 's) \<Rightarrow> ('s \<Rightarrow> 's option) \<Rightarrow> ('s \<Rightarrow> bool) \<Rightarrow> bool" where
  "wake_laws give wait ready \<longleftrightarrow> (\<forall>s. ready (give s)) \<and> (\<forall>s. ready s \<longrightarrow> wait s \<noteq> None)"

text \<open>So it is with the semaphores of Linux and of the kernel, and with the events of Windows, although they do not count.\<close>

lemma sem_wakes: "sem_laws down up cnt \<Longrightarrow> wake_laws up down (\<lambda>s. 0 < cnt s)"
  by (auto simp: wake_laws_def sem_lawsD)

lemma event_wakes: "event_laws create give wait on \<Longrightarrow> wake_laws give wait on"
  by (simp add: wake_laws_def event_lawsD(2,3) [of create give wait on])

section \<open>The steps\<close>

datatype wkpc = Asleep | Working

text \<open>The thread's queues, its semaphore, the senders between the mutex and the semaphore, and where the worker is.\<close>

record 's zWorker =
  wk_sch :: zSchWorld
  wk_sem :: 's
  wk_pend :: nat
  wk_pc :: wkpc

definition queued :: "EZCRTErr \<Rightarrow> zSchWorld \<Rightarrow> 's zWorker \<Rightarrow> 's zWorker" where
  "queued e w st = st\<lparr>wk_sch := w, wk_pend := (if e = EZCRTErr_success then Suc (wk_pend st) else wk_pend st)\<rparr>"

text \<open>The worker also goes on when its time is over.\<close>

inductive wk_step :: "('s \<Rightarrow> 's) \<Rightarrow> ('s \<Rightarrow> 's option) \<Rightarrow> addr \<Rightarrow> 's zWorker \<Rightarrow> 's zWorker \<Rightarrow> bool" for give wait t where
  queue: "can_new t (wk_sch st) new \<Longrightarrow> sx_sch (wk_sch st) s = Some sc \<Longrightarrow> sc_thr sc = Some t \<Longrightarrow>
    zcrt_schedule_sendjob new (Some s) cb p1 p2 (wk_sch st) = Inr (e, w) \<Longrightarrow> wk_step give wait t st (queued e w st)"
| queue_argn: "can_new t (wk_sch st) new \<Longrightarrow> sx_sch (wk_sch st) s = Some sc \<Longrightarrow> sc_thr sc = Some t \<Longrightarrow> length args = unat argn \<Longrightarrow>
    zcrt_schedule_sendjob_argn new (Some s) cb argn args (wk_sch st) = Inr (e, w) \<Longrightarrow> wk_step give wait t st (queued e w st)"
| wake_up: "0 < wk_pend st \<Longrightarrow> wk_step give wait t st (st\<lparr>wk_sem := give (wk_sem st), wk_pend := wk_pend st - 1\<rparr>)"
| woken: "wk_pc st = Asleep \<Longrightarrow> wait (wk_sem st) = Some sem \<Longrightarrow> wk_step give wait t st (st\<lparr>wk_sem := sem, wk_pc := Working\<rparr>)"
| timed_out: "wk_pc st = Asleep \<Longrightarrow> wk_step give wait t st (st\<lparr>wk_pc := Working\<rparr>)"
| run_job: "wk_pc st = Working \<Longrightarrow> take_job t (wk_sch st) = Inr (Some job, w) \<Longrightarrow> wk_step give wait t st (st\<lparr>wk_sch := w\<rparr>)"
| no_job: "wk_pc st = Working \<Longrightarrow> take_job t (wk_sch st) = Inr (None, w) \<Longrightarrow> wk_step give wait t st (st\<lparr>wk_sch := w, wk_pc := Asleep\<rparr>)"

abbreviation wk_steps :: "('s \<Rightarrow> 's) \<Rightarrow> ('s \<Rightarrow> 's option) \<Rightarrow> addr \<Rightarrow> 's zWorker \<Rightarrow> 's zWorker \<Rightarrow> bool" where
  "wk_steps give wait t \<equiv> (wk_step give wait t)\<^sup>*\<^sup>*"

section \<open>The invariant\<close>

definition jobs_left :: "addr \<Rightarrow> zSchWorld \<Rightarrow> bool" where
  "jobs_left t w \<longleftrightarrow> (\<exists>fs qs. sch_wf t w fs qs \<and> concat (queues w qs) \<noteq> [])"

text \<open>While the worker sleeps on a job, some sender has still to give the semaphore or it was given.\<close>

definition wk_inv :: "('s \<Rightarrow> bool) \<Rightarrow> addr \<Rightarrow> 's zWorker \<Rightarrow> bool" where
  "wk_inv ready t st \<longleftrightarrow> (\<exists>fs qs. sch_wf t (wk_sch st) fs qs) \<and>
     (wk_pc st = Asleep \<and> jobs_left t (wk_sch st) \<longrightarrow> 0 < wk_pend st \<or> ready (wk_sem st))"

lemma jobs_left_take:
  assumes "sch_wf t w fs qs"
  shows "(\<exists>job w1 fs1 qs1. take_job t w = Inr (Some job, w1) \<and> sch_wf t w1 fs1 qs1 \<and> jobs_left t w) \<or>
    (take_job t w = Inr (None, w) \<and> \<not> jobs_left t w)"
proof (cases "jobs_left t w")
  case True
  then obtain fs1 qs1 where "sch_wf t w fs1 qs1" "concat (queues w qs1) \<noteq> []" by (auto simp: jobs_left_def)
  then obtain job w1 fs2 qs2 where "take_job t w = Inr (Some job, w1)" "sch_wf t w1 fs2 qs2" using take_job_total [of t w fs1 qs1] by (auto simp del: concat_eq_Nil_conv)
  then show ?thesis using True by blast
next
  case False
  then have "concat (queues w qs) = []" using assms unfolding jobs_left_def by blast
  then show ?thesis using take_job_total [OF assms] False by (auto simp del: concat_eq_Nil_conv)
qed

lemma queued_inv:
  assumes inv: "wk_inv ready t st" and w: "sch_wf t w fs qs" "e = EZCRTErr_success \<or> w = wk_sch st"
  shows "wk_inv ready t (queued e w st)"
  using assms by (auto simp: wk_inv_def queued_def)

lemma wk_inv_step:
  assumes laws: "wake_laws give wait ready" and st: "wk_step give wait t st st1" and inv: "wk_inv ready t st"
  shows "wk_inv ready t st1"
proof -
  obtain fs qs where wf: "sch_wf t (wk_sch st) fs qs" using inv by (auto simp: wk_inv_def)
  show ?thesis
    using st
  proof cases
    case (queue new s sc cb p1 p2 e w)
    then show ?thesis using sendjob_cases [OF wf queue(2-4), of cb p1 p2] queued_inv [OF inv] by auto
  next
    case (queue_argn new s sc args argn cb e w)
    then show ?thesis using sendjob_argn_cases [OF wf queue_argn(2-5), of cb] queued_inv [OF inv] by auto
  next
    case wake_up
    then show ?thesis using laws wf by (auto simp: wk_inv_def wake_laws_def)
  next
    case (woken sem)
    then show ?thesis using wf by (auto simp: wk_inv_def)
  next
    case timed_out
    then show ?thesis using wf by (auto simp: wk_inv_def)
  next
    case (run_job job w)
    then show ?thesis using jobs_left_take [OF wf] by (auto simp: wk_inv_def)
  next
    case (no_job w)
    then show ?thesis using jobs_left_take [OF wf] wf by (auto simp: wk_inv_def)
  qed
qed

lemma wk_inv_steps: "wk_steps give wait t st st1 \<Longrightarrow> wake_laws give wait ready \<Longrightarrow> wk_inv ready t st \<Longrightarrow> wk_inv ready t st1"
  by (induction rule: rtranclp_induct) (simp_all add: wk_inv_step)

text \<open>C17. No wake-up is lost: however senders and the worker interleave, also between queueing a job and giving the semaphore and between finding
  no job and waiting, a worker that is about to wait while a job is queued and no sender is on its way to the semaphore gets it
  without waiting, and then takes a job.\<close>

theorem no_lost_wakeup:
  assumes laws: "wake_laws give wait ready" and init: "sch_wf t (wk_sch st0) fs0 qs0" "wk_pc st0 = Working"
    and steps: "wk_steps give wait t st0 st" and sleep: "wk_pc st = Asleep" "wk_pend st = 0"
    and job: "sch_wf t (wk_sch st) fs qs" "concat (queues (wk_sch st) qs) \<noteq> []"
  shows "\<exists>sem job w. wait (wk_sem st) = Some sem \<and> wk_step give wait t st (st\<lparr>wk_sem := sem, wk_pc := Working\<rparr>) \<and>
    take_job t (wk_sch st) = Inr (Some job, w)"
proof -
  have "wk_inv ready t st0" using init by (auto simp: wk_inv_def)
  then have inv: "wk_inv ready t st" by (rule wk_inv_steps [OF steps laws])
  have l: "jobs_left t (wk_sch st)" using job unfolding jobs_left_def by blast
  then have "ready (wk_sem st)" using inv sleep by (simp add: wk_inv_def)
  then obtain sem where sem: "wait (wk_sem st) = Some sem" using laws by (auto simp: wake_laws_def)
  obtain j w where "take_job t (wk_sch st) = Inr (Some j, w)" using jobs_left_take [OF job(1)] l by blast
  then show ?thesis using sem wk_step.woken [where st = st and wait = wait and sem = sem and give = give and t = t, OF sleep(1) sem] by blast
qed

theorem no_lost_wakeup_witness:
  "\<exists>st job w. wk_steps Suc nat_down 2 \<lparr>wk_sch = idle_world, wk_sem = 0, wk_pend = 0, wk_pc = Working\<rparr> st \<and>
    wk_pc st = Asleep \<and> nat_down (wk_sem st) = Some 0 \<and> take_job 2 (wk_sch st) = Inr (Some job, w)"
proof -
  let ?st0 = "\<lparr>wk_sch = idle_world, wk_sem = 0 :: nat, wk_pend = 0, wk_pc = Working\<rparr>"
  let ?st1 = "?st0\<lparr>wk_pc := Asleep\<rparr>"
  have wf: "sch_wf 2 idle_world [] [[], [], []]" using idle_wf by simp
  have new: "can_new 2 idle_world (Some 11)" by (simp add: can_new_def can_alloc_def idle_world_def)
  define sc where "sc = idle_sch 2 100 1 EZCRTSchType_zcrtThread None"
  have sc: "sx_sch idle_world 3 = Some sc" "sc_thr sc = Some 2" "unat (sc_pri sc) = 1" "unat (sc_maxsize sc) = 100"
    by (simp_all add: sc_def idle_world_def idle_sch_def)
  have q0: "queues idle_world [[], [], []] = [[], [], []]" by (simp add: queues_def contents_of_def)
  then have q: "concat (queues idle_world [[], [], []]) = []" "held 3 (queues idle_world [[], [], []] ! 1) < unat (sc_maxsize sc)"
    using sc(4) by simp_all
  have "take_job 2 idle_world = Inr (None, idle_world)" using take_job_total [OF wf] q(1) by auto
  then have s1: "wk_step Suc nat_down 2 ?st0 ?st1"
    using wk_step.no_job [where st = ?st0 and t = 2 and w = idle_world and give = Suc and wait = nat_down] by simp
  obtain a w where w: "zcrt_schedule_sendjob (Some 11) (Some 3) (Some 9) 1 2 idle_world = Inr (EZCRTErr_success, w)"
    "sch_wf 2 w [] [[], [a], []]" "queues w [[], [a], []] = [[], [the_job 3 9 2 [1, 2]], []]"
    using sendjob_ok [OF wf new sc(1,2) sc(3) _ q(2), of 9 1 2] unfolding q0 by (simp add: EZCRTSchPri_num_def) metis
  let ?st2 = "\<lparr>wk_sch = w, wk_sem = 0 :: nat, wk_pend = 1, wk_pc = Asleep\<rparr>" and ?st3 = "\<lparr>wk_sch = w, wk_sem = 1 :: nat, wk_pend = 0, wk_pc = Asleep\<rparr>"
  have s2: "wk_step Suc nat_down 2 ?st1 ?st2"
    using wk_step.queue [where st = ?st1 and t = 2 and new = "Some 11" and s = 3 and sc = sc and cb = "Some 9" and w = w and e = EZCRTErr_success] new sc(1,2) w(1)
    by (simp add: queued_def)
  have s3: "wk_step Suc nat_down 2 ?st2 ?st3" using wk_step.wake_up [where st = ?st2 and t = 2 and give = Suc] by simp
  have r: "wk_steps Suc nat_down 2 ?st0 ?st3" using s1 s2 s3 by (meson converse_rtranclp_into_rtranclp rtranclp.rtrancl_refl)
  have i: "sch_wf 2 (wk_sch ?st0) [] [[], [], []]" "wk_pc ?st0 = Working" "wk_pc ?st3 = Asleep" "wk_pend ?st3 = 0" using wf by simp_all
  have j: "sch_wf 2 (wk_sch ?st3) [] [[], [a], []]" "concat (queues (wk_sch ?st3) [[], [a], []]) \<noteq> []" using w(2,3) by simp_all
  obtain job w1 where "take_job 2 (wk_sch ?st3) = Inr (Some job, w1)"
    using no_lost_wakeup [OF sem_wakes [OF nat_sem_laws] i(1,2) r i(3,4) j] by blast
  then show ?thesis using r by (intro exI [of _ ?st3]) (auto simp: nat_down_def)
qed

end
