(* ===== verification/Zipc_Tlv_Array.thy ===== *)
theory Zipc_Tlv_Array
  imports Zipc_Tlv
begin

text \<open>
  The macros of \<^verbatim>\<open>zipc/zipc_tlv.h\<close> that generated code is written with: those that check a type or read
  one value and leave the function when that fails, and those that transfer whole arrays. Leaving with
  \<^verbatim>\<open>return ret\<close> is the result \<^verbatim>\<open>False\<close>. They are compared with the functions for arrays
  in \<^verbatim>\<open>Zipc_Tlv\<close>.
\<close>

section \<open>Reading one value\<close>

definition ZTLV_CHECK_TYPE :: "zbufp \<Rightarrow> u8 \<Rightarrow> (bool \<times> zbufp) res" where
  "ZTLV_CHECK_TYPE ptr t = rbind (ztlv_get_type ptr) (\<lambda>(ty, ptr1). Inr (t = ty, ptr1))"

text \<open>\<^verbatim>\<open>v\<close> is the variable before; a getter that fails leaves it.\<close>

definition check_get :: "'a getter \<Rightarrow> zbufp \<Rightarrow> 'a \<Rightarrow> (bool \<times> 'a \<times> zbufp) res" where
  "check_get get ptr v = rbind (get ptr) (\<lambda>(x, ptr1). case x of
     None \<Rightarrow> Inr (False, v, ptr1) | Some y \<Rightarrow> Inr (True, y, ptr1))"

definition ZTLV_CHECK_GET_LEN :: "zbufp \<Rightarrow> u32 \<Rightarrow> (bool \<times> u32 \<times> zbufp) res" where
  "ZTLV_CHECK_GET_LEN ptr v = ztlv_get_len ptr"

definition ZTLV_CHECK_GET_BOOL :: "zbufp \<Rightarrow> bool \<Rightarrow> (bool \<times> bool \<times> zbufp) res" where
  "ZTLV_CHECK_GET_BOOL = check_get (ztlv_get_bool True)"

definition ZTLV_CHECK_GET_INT :: "zbufp \<Rightarrow> s32 \<Rightarrow> (bool \<times> s32 \<times> zbufp) res" where
  "ZTLV_CHECK_GET_INT = check_get ztlv_get_int"

definition ZTLV_CHECK_GET_STR :: "zbufp \<Rightarrow> zstr \<Rightarrow> (bool \<times> zstr \<times> zbufp) res" where
  "ZTLV_CHECK_GET_STR ptr v = ztlv_get_string ptr v"

definition ZTLV_CHECK_GET_INT64 :: "zbufp \<Rightarrow> s64 \<Rightarrow> (bool \<times> s64 \<times> zbufp) res" where
  "ZTLV_CHECK_GET_INT64 = check_get ztlv_get_int64"

text \<open>The value is cast to the narrow signed type and then stored in a variable of any type.\<close>

definition ZTLV_CHECK_GET_INT8 :: "zbufp \<Rightarrow> 'v::len word \<Rightarrow> (bool \<times> 'v word \<times> zbufp) res" where
  "ZTLV_CHECK_GET_INT8 ptr v = rbind (ztlv_get_int ptr) (\<lambda>(nv, ptr1). case nv of
     None \<Rightarrow> Inr (False, v, ptr1) | Some n \<Rightarrow> Inr (True, scast (ucast n :: 8 word), ptr1))"

definition ZTLV_CHECK_GET_INT16 :: "zbufp \<Rightarrow> 'v::len word \<Rightarrow> (bool \<times> 'v word \<times> zbufp) res" where
  "ZTLV_CHECK_GET_INT16 ptr v = rbind (ztlv_get_int ptr) (\<lambda>(nv, ptr1). case nv of
     None \<Rightarrow> Inr (False, v, ptr1) | Some n \<Rightarrow> Inr (True, scast (ucast n :: 16 word), ptr1))"

definition ZTLV_CHECK_GET_UINT8 :: "zbufp \<Rightarrow> 'v::len word \<Rightarrow> (bool \<times> 'v word \<times> zbufp) res" where
  "ZTLV_CHECK_GET_UINT8 = ZTLV_CHECK_GET_INT8"

definition ZTLV_CHECK_GET_UINT16 :: "zbufp \<Rightarrow> 'v::len word \<Rightarrow> (bool \<times> 'v word \<times> zbufp) res" where
  "ZTLV_CHECK_GET_UINT16 = ZTLV_CHECK_GET_INT16"

definition ZTLV_CHECK_GET_INT32 :: "zbufp \<Rightarrow> s32 \<Rightarrow> (bool \<times> s32 \<times> zbufp) res" where
  "ZTLV_CHECK_GET_INT32 = ZTLV_CHECK_GET_INT"

definition ZTLV_CHECK_GET_UINT32 :: "zbufp \<Rightarrow> u32 \<Rightarrow> (bool \<times> u32 \<times> zbufp) res" where
  "ZTLV_CHECK_GET_UINT32 = ZTLV_CHECK_GET_INT"

text \<open>Any integer a peer wrote is read whole, or as its low bits in a variable of the width the macro is named for; a macro
  for unsigned values extends the sign when the variable is wider.\<close>

lemma check_get_int_whole:
  assumes "buf_wf b" "unat (zb_len b) < 2 ^ 31" "unread b = enc_int x @ rest"
  shows "ZTLV_CHECK_GET_INT32 (Some b) v = Inr (True, x, Some (adv b (length (enc_int x))))"
    "ZTLV_CHECK_GET_UINT8 (Some b) v8 = Inr (True, ucast x :: 8 word, Some (adv b (length (enc_int x))))"
    "ZTLV_CHECK_GET_UINT16 (Some b) v16 = Inr (True, ucast x :: 16 word, Some (adv b (length (enc_int x))))"
    "ZTLV_CHECK_GET_UINT8 (Some b) v32 = Inr (True, scast (ucast x :: 8 word) :: 32 word, Some (adv b (length (enc_int x))))"
  using getsD [OF int_codec.get_law assms]
  by (simp_all add: ZTLV_CHECK_GET_INT32_def ZTLV_CHECK_GET_INT_def check_get_def ZTLV_CHECK_GET_UINT8_def ZTLV_CHECK_GET_UINT16_def
      ZTLV_CHECK_GET_INT8_def ZTLV_CHECK_GET_INT16_def)

lemma uint8_in_wide_variable: "(scast (ucast (200 :: s32) :: 8 word) :: u32) = 0xFFFFFFC8"
  by simp

section \<open>Arrays\<close>

text \<open>
  The loop of the first macro: a value that was read is cast to the element type and stored, as the bytes
  \<^verbatim>\<open>wr\<close>.
\<close>

fun base_get_items :: "'a getter \<Rightarrow> ('a \<Rightarrow> u8 list) \<Rightarrow> u32 list \<Rightarrow> zarray \<Rightarrow> zbufp \<Rightarrow> (bool \<times> zarray \<times> zbufp) res" where
  "base_get_items get wr [] arrv buf = Inr (True, arrv, buf)"
| "base_get_items get wr (i # is) arrv buf =
     rbind (ztlv_get_int buf) (\<lambda>(idx, buf1). case idx of
       None \<Rightarrow> Inr (False, arrv, buf1)
     | Some _ \<Rightarrow>
         rbind (get buf1) (\<lambda>(v, buf2). case v of
           None \<Rightarrow> Inr (False, arrv, buf2)
         | Some x \<Rightarrow> rbind (zarray_put arrv i (wr x)) (\<lambda>arr1. base_get_items get wr is arr1 buf2)))"

text \<open>\<^verbatim>\<open>mok\<close> and \<^verbatim>\<open>dok\<close> are the two allocations of \<^verbatim>\<open>zarray_new\<close>,
  \<^verbatim>\<open>sz\<close> is \<^verbatim>\<open>sizeof(bty)\<close>, \<^verbatim>\<open>arrv\<close> the variable before.\<close>

definition ZTLV_GET_ARRAY_BASETYPE ::
  "bool \<Rightarrow> bool \<Rightarrow> realloc_fn \<Rightarrow> u32 \<Rightarrow> u32 \<Rightarrow> 'a getter \<Rightarrow> ('a \<Rightarrow> u8 list) \<Rightarrow> zbufp \<Rightarrow> zarray option \<Rightarrow>
    (bool \<times> zarray option \<times> zbufp) res" where
  "ZTLV_GET_ARRAY_BASETYPE mok dok ra tag sz get wr buf arrv =
     rbind (ztlv_get_table_cnt buf 0) (\<lambda>(ok, cnt, buf1).
       if \<not> ok then Inr (False, arrv, buf1)
       else rbind (zarray_new mok dok cnt sz 5 tag) (\<lambda>a.
         rbind (zarray_setlength ra a cnt) (\<lambda>a1.
         rbind (base_get_items get wr (indices cnt) a1 buf1) (\<lambda>(ret, a2, buf2). Inr (ret, Some a2, buf2)))))"

text \<open>The second macro looks at no result of a write.\<close>

fun base_put_items :: "realloc_fn \<Rightarrow> 'a putter \<Rightarrow> (u8 list \<Rightarrow> 'a) \<Rightarrow> nat \<Rightarrow> u32 list \<Rightarrow> zarray option \<Rightarrow> zbufp \<Rightarrow> zbufp res" where
  "base_put_items ra put rd sz [] arrv buf = Inr buf"
| "base_put_items ra put rd sz (i # is) arrv buf =
     rbind (ztlv_put_int ra buf (i + 1)) (\<lambda>(_, buf1).
     rbind (deref arrv) (\<lambda>a.
     rbind (load_n (zarray_get a i) sz) (\<lambda>val.
     rbind (put ra buf1 (rd val)) (\<lambda>(_, buf2). base_put_items ra put rd sz is arrv buf2))))"

definition ZTLV_PUT_ARRAY_BASETYPE ::
  "realloc_fn \<Rightarrow> u32 \<Rightarrow> 'a putter \<Rightarrow> (u8 list \<Rightarrow> 'a) \<Rightarrow> zbufp \<Rightarrow> zarray option \<Rightarrow> zbufp res" where
  "ZTLV_PUT_ARRAY_BASETYPE ra sz put rd buf arrv =
     rbind (ztlv_put_table_cnt ra buf (zarray_getlength arrv)) (\<lambda>(_, buf1).
       base_put_items ra put rd (unat sz) (indices (zarray_getlength arrv)) arrv buf1)"

text \<open>
  The element types. A \<^verbatim>\<open>bool_t\<close> is a \<^verbatim>\<open>char\<close>. The integer macro serves every type
  \<^verbatim>\<open>bty\<close> of up to 32 bits: a value is truncated to it, and an element is extended by \<^verbatim>\<open>ext\<close>,
  with its sign or with zeros.
\<close>

definition ZTLV_GET_ARRAY_BOOL :: "bool \<Rightarrow> bool \<Rightarrow> realloc_fn \<Rightarrow> u32 \<Rightarrow> zbufp \<Rightarrow> zarray option \<Rightarrow> (bool \<times> zarray option \<times> zbufp) res" where
  "ZTLV_GET_ARRAY_BOOL mok dok ra tag = ZTLV_GET_ARRAY_BASETYPE mok dok ra tag 1 (ztlv_get_bool True) (\<lambda>v. [if v then 1 else 0])"

definition ZTLV_PUT_ARRAY_BOOL :: "realloc_fn \<Rightarrow> zbufp \<Rightarrow> zarray option \<Rightarrow> zbufp res" where
  "ZTLV_PUT_ARRAY_BOOL ra = ZTLV_PUT_ARRAY_BASETYPE ra 1 ztlv_put_bool (\<lambda>bs. hd bs \<noteq> 0)"

definition ZTLV_GET_ARRAY_INT :: "'b::len itself \<Rightarrow> bool \<Rightarrow> bool \<Rightarrow> realloc_fn \<Rightarrow> u32 \<Rightarrow> zbufp \<Rightarrow> zarray option \<Rightarrow> (bool \<times> zarray option \<times> zbufp) res" where
  "ZTLV_GET_ARRAY_INT bty mok dok ra tag =
     ZTLV_GET_ARRAY_BASETYPE mok dok ra tag (of_nat (LENGTH('b) div 8)) ztlv_get_int (\<lambda>v. bytes_of (ucast v :: 'b word))"

definition ZTLV_PUT_ARRAY_INT :: "('b::len word \<Rightarrow> s32) \<Rightarrow> realloc_fn \<Rightarrow> zbufp \<Rightarrow> zarray option \<Rightarrow> zbufp res" where
  "ZTLV_PUT_ARRAY_INT ext ra = ZTLV_PUT_ARRAY_BASETYPE ra (of_nat (LENGTH('b) div 8)) ztlv_put_int (\<lambda>bs. ext (of_bytes bs))"

definition ZTLV_GET_ARRAY_UINT32 :: "bool \<Rightarrow> bool \<Rightarrow> realloc_fn \<Rightarrow> u32 \<Rightarrow> zbufp \<Rightarrow> zarray option \<Rightarrow> (bool \<times> zarray option \<times> zbufp) res" where
  "ZTLV_GET_ARRAY_UINT32 mok dok ra tag = ZTLV_GET_ARRAY_BASETYPE mok dok ra tag 4 ztlv_get_uint32 bytes_of"

definition ZTLV_PUT_ARRAY_UINT32 :: "realloc_fn \<Rightarrow> zbufp \<Rightarrow> zarray option \<Rightarrow> zbufp res" where
  "ZTLV_PUT_ARRAY_UINT32 ra = ZTLV_PUT_ARRAY_BASETYPE ra 4 ztlv_put_uint32 of_bytes"

section \<open>The macros and the functions\<close>

lemma zarray_put_same:
  assumes wf: "arr_wf a" and i: "i < za_len a" and ld: "load_n (zarray_get a i) (unat (za_unitsize a)) = Inr old"
  shows "zarray_put a i old = Inr a"
proof -
  obtain blk where blk: "za_data a = Some blk" "length blk = unat (za_unitsize a) * unat (za_alloced a)"
    "unat (za_unitsize a) * unat (za_alloced a) < 4294967296" "unat (za_len a) \<le> unat (za_alloced a)" using wf by (rule arr_wfE)
  let ?k = "unat (i * za_unitsize a)" and ?u = "unat (za_unitsize a)"
  have p: "zarray_get a i = (Some blk, ?k)" using i blk(1) by (simp add: zarray_get_def padd_def)
  have "unat i < unat (za_alloced a)" using i blk(4) by (simp add: word_less_nat_alt)
  then have fit: "unat i * ?u + ?u \<le> length blk" using blk(2) by (metis Suc_leI add.commute mult.commute mult_Suc mult_le_mono2)
  then have k: "?k = unat i * ?u" using blk(2,3) by (intro unat_mult_small) linarith
  have old: "old = take ?u (drop ?k blk)" using ld p fit k by (cases "?u = 0") (simp_all add: load_n_def)
  have len: "?k + length old = ?k + ?u" using old fit k by simp
  have "take ?k blk @ take ?u (drop ?k blk) @ drop ?u (drop ?k blk) = blk" by (simp del: drop_drop)
  then have "take ?k blk @ old @ drop (?k + length old) blk = blk" by (simp only: len old [symmetric] drop_drop add.commute [of ?u ?k])
  then have "store (Some blk) ?k old = Inr blk" using fit k len by (simp add: store_def)
  then show ?thesis using p blk(1) by (simp add: zarray_put_def)
qed

lemma base_get_items_eq:
  assumes "arr_wf a" "\<forall>i \<in> set is. i < za_len a" "\<And>x. length (wr x) = unat (za_unitsize a)"
  shows "base_get_items get wr is a buf = get_items (elem_get get wr) is a buf"
  using assms
proof (induction "is" arbitrary: a buf)
  case (Cons i "is")
  have i: "i < za_len a" using Cons.prems(2) by simp
  obtain old where old: "load_n (zarray_get a i) (unat (za_unitsize a)) = Inr old" using zarray_get_elem [OF Cons.prems(1) i] by metis
  have same: "zarray_put a i old = Inr a" by (rule zarray_put_same [OF Cons.prems(1) i old])
  have next_eq: "rbind (zarray_put a i (wr x)) (\<lambda>a1. base_get_items get wr is a1 buf2) =
      rbind (zarray_put a i (wr x)) (\<lambda>a1. get_items (elem_get get wr) is a1 buf2)" for x buf2
  proof -
    obtain a1 where a1: "zarray_put a i (wr x) = Inr a1" "arr_wf a1" "za_unitsize a1 = za_unitsize a" "za_len a1 = za_len a"
      using elems_put [OF Cons.prems(1) i Cons.prems(3)] by metis
    then show ?thesis using Cons.IH [of a1 buf2] Cons.prems(2,3) by simp
  qed
  have step: "rbind (get b) (\<lambda>(v, buf2). case v of None \<Rightarrow> Inr (False, a, buf2)
      | Some x \<Rightarrow> rbind (zarray_put a i (wr x)) (\<lambda>arr1. base_get_items get wr is arr1 buf2)) =
    rbind (elem_get get wr b old) (\<lambda>(ok, new, buf2). rbind (zarray_put a i new) (\<lambda>arr1.
      if \<not> ok then Inr (False, arr1, buf2) else get_items (elem_get get wr) is arr1 buf2))" for b
    unfolding elem_get_def [of get wr b old] rbind_assoc
    by (rule rbind_cong [OF refl]) (simp add: same next_eq split: option.split prod.split)
  show ?case
    by (simp only: base_get_items.simps get_items.simps old step rbind.simps)
qed simp

text \<open>The macro that reads an array is ztlv_get_array on a new array of as many elements as are announced: the same array, the same
  place in the buffer, the same success or failure and the same faults.\<close>

lemma get_array_macro_eq:
  assumes ra: "realloc_total ra" and cnt: "ztlv_get_table_cnt buf 0 = Inr (True, cnt, buf1)"
    and sz: "unat sz * (unat cnt + 5) < 2 ^ 32" "\<And>x. length (wr x) = unat sz"
  shows "\<exists>a. zarray_new True True cnt sz 5 tag = Inr a \<and>
    ZTLV_GET_ARRAY_BASETYPE True True ra tag sz get wr buf arrv = ztlv_get_array ra buf (Some a) (Some (elem_get get wr))"
proof -
  have "unat sz * (if cnt = 0 then 1 else unat cnt) \<le> unat sz * (unat cnt + 5)" by simp
  from le_less_trans [OF this sz(1)] obtain a where a: "zarray_new True True cnt sz 5 tag = Inr a" "arr_wf a"
    using new_wf [of sz cnt 5 tag] by auto
  have a': "za_unitsize a = sz" "za_step a = 5" "za_alloced a = (if cnt = 0 then 1 else cnt)" using a(1) by (auto simp: zarray_new_def Let_def)
  have loop: "base_get_items get wr (indices cnt) a1 buf1 = get_items (elem_get get wr) (indices cnt) a1 buf1" if s: "zarray_setlength ra a cnt = Inr a1" for a1
  proof -
    have l: "cnt < 0xfffff" using s by (auto simp: zarray_setlength_def Let_def rbind_eq_Inr)
    then have n: "unat cnt < 0xfffff" by (simp add: word_less_nat_alt)
    have "new_cap a cnt \<le> unat cnt + 5" by (auto simp: new_cap_def a' word_less_nat_alt)
    then have c: "unat (za_unitsize a) * new_cap a cnt < 2 ^ 32" "new_cap a cnt < 2 ^ 32"
      using sz(1) n le_less_trans [OF mult_le_mono2] by (auto simp: a')
    obtain a2 where a2: "zarray_setlength ra a cnt = Inr a2" "arr_wf a2" "za_len a2 = cnt" "za_unitsize a2 = za_unitsize a"
      using setlength_elems [OF a(2) ra l c] by metis
    have "i < cnt" if "i \<in> set (indices cnt)" for i
      using that n by (auto simp: indices_def word_less_nat_alt unat_of_nat_u32_small)
    then show ?thesis using base_get_items_eq [of a1 "indices cnt" wr get buf1] s a2 sz(2) a' by simp
  qed
  have "rbind (zarray_setlength ra a cnt) (\<lambda>a1. rbind (base_get_items get wr (indices cnt) a1 buf1) (\<lambda>(ret, a2, buf2). Inr (ret, Some a2, buf2))) =
      rbind (zarray_setlength ra a cnt) (\<lambda>a1. rbind (get_items (elem_get get wr) (indices cnt) a1 buf1) (\<lambda>(ret, a2, buf2). Inr (ret, Some a2, buf2)))"
    by (rule rbind_cong [OF refl]) (simp add: loop)
  then have "ZTLV_GET_ARRAY_BASETYPE True True ra tag sz get wr buf arrv = ztlv_get_array ra buf (Some a) (Some (elem_get get wr))"
    by (simp add: ZTLV_GET_ARRAY_BASETYPE_def ztlv_get_array_def cnt a(1))
  with a(1) show ?thesis by blast
qed

text \<open>What ztlv_put_array writes, the macro writes; where the function stops at a failed element, the macro goes on.\<close>

lemma base_put_items_eq:
  "put_items ra (elem_put put rd) is (Some a) buf = Inr (True, b) \<Longrightarrow> base_put_items ra put rd (unat (za_unitsize a)) is (Some a) buf = Inr b"
proof (induction "is" arbitrary: buf)
  case (Cons i "is")
  then show ?case by (auto simp: rbind_eq_Inr elem_put_def split: if_splits)
qed simp

lemma put_array_macro:
  assumes "ztlv_put_array ra buf (Some a) (Some (elem_put put rd)) = Inr (True, b)" "za_unitsize a = sz"
  shows "ZTLV_PUT_ARRAY_BASETYPE ra sz put rd buf (Some a) = Inr b"
  using assms base_put_items_eq [of ra put rd _ a] by (auto simp: ztlv_put_array_def ZTLV_PUT_ARRAY_BASETYPE_def rbind_eq_Inr)

section \<open>Round trips\<close>

context elem_codec begin

lemma macro_roundtrip:
  assumes ra: "realloc_total ra" and b: "buf_wf b" "zb_offset b = zb_len b"
    and src: "arr_wf src" "za_unitsize src = sz" "unat sz = width" "elems src = map wr xs"
    and room: "unat (zb_len b) + length (enc_array enc xs) + 16 < 2 ^ 31"
    and n: "length xs < 0xfffff" "width * (length xs + 5) < 2 ^ 32"
  obtains b1 b2 dst where "ZTLV_PUT_ARRAY_BASETYPE ra sz put rd (Some b) (Some src) = Inr (Some b1)" "contents b1 = contents b @ enc_array enc xs"
    "ZTLV_GET_ARRAY_BASETYPE True True ra tag sz get wr (Some b1) arrv = Inr (True, Some dst, Some b2)"
    "arr_wf dst" "elems dst = map wr xs" "zb_offset b2 = zb_len b1"
proof -
  have w: "unat (za_unitsize src) = width" using src(2,3) by simp
  obtain b1 where b1: "ztlv_put_array ra (Some b) (Some src) (Some (elem_put put rd)) = Inr (True, Some b1)"
    "buf_wf b1" "contents b1 = contents b @ enc_array enc xs" "zb_offset b1 = zb_offset b"
    "unat (zb_len b1) = unat (zb_len b) + length (enc_array enc xs)"
    using putsD [OF put_array_puts [OF ra src(1) w src(4)] b(1) room] by metis
  have u: "unread b1 = enc_array enc xs @ []" using b1(3,4) b by (simp add: unread_def length_contents)
  have small: "unat (zb_len b1) < 2 ^ 31" using b1(5) room by simp
  let ?n = "of_nat (length xs) :: u32"
  have un: "unat ?n = length xs" using n(1) by (intro unat_of_nat_u32_small) simp
  have ut: "unread b1 = ZTLV_TABLE # varint_bytes (unat ?n) @ enc_items enc 0 xs @ []" using u un by (simp add: enc_array_def)
  note v = table_cnt_unread [OF b1(2) small ut, of 0]
  obtain a where a: "zarray_new True True ?n sz 5 tag = Inr a"
    "ZTLV_GET_ARRAY_BASETYPE True True ra tag sz get wr (Some b1) arrv = ztlv_get_array ra (Some b1) (Some a) (Some (elem_get get wr))"
    using get_array_macro_eq [OF ra v, of sz wr tag get arrv] n(2) un src(3) wr_width by auto
  have "unat sz * (if ?n = 0 then 1 else unat ?n) \<le> unat sz * (unat ?n + 5)" by simp
  then have wf: "arr_wf a" using new_wf [of sz ?n 5 tag] a(1) n(2) un src(3) by (metis (no_types, lifting) Inr_inject le_less_trans)
  have a': "za_unitsize a = sz" "za_step a = 5" "za_alloced a = (if ?n = 0 then 1 else ?n)" using a(1) by (auto simp: zarray_new_def Let_def)
  have "new_cap a ?n \<le> length xs + 5" using un by (auto simp: new_cap_def a' word_less_nat_alt)
  then have c: "width * new_cap a ?n < 2 ^ 32" "new_cap a ?n < 2 ^ 32"
    using n le_less_trans [OF mult_le_mono2] by auto
  have wa: "unat (za_unitsize a) = width" using a'(1) src(3) by simp
  obtain dst where d: "ztlv_get_array ra (Some b1) (Some a) (Some (elem_get get wr)) = Inr (True, Some dst, Some (adv b1 (length (enc_array enc xs))))"
    "arr_wf dst" "elems dst = map wr xs" using get_array_unread [OF ra wf wa b1(2) small u n(1) c] by auto
  have "zb_offset (adv b1 (length (enc_array enc xs))) = zb_len b1"
    using unat_adv [OF b1(2) u] b1(4,5) b(2) by (simp add: word_unat_eq_iff)
  with d a(2) put_array_macro [OF b1(1) src(2)] b1(3) show ?thesis by (intro that) simp_all
qed

end

section \<open>Elements of fewer bits\<close>

text \<open>A reader and a writer of one type serve another that is cast to it and back.\<close>

definition map_get :: "('a \<Rightarrow> 'b) \<Rightarrow> 'a getter \<Rightarrow> 'b getter" where
  "map_get f get buf = rbind (get buf) (\<lambda>(v, buf1). Inr (map_option f v, buf1))"

definition map_put :: "('b \<Rightarrow> 'a) \<Rightarrow> 'a putter \<Rightarrow> 'b putter" where
  "map_put g put ra buf x = put ra buf (g x)"

context codec begin

lemma codec_map:
  assumes "\<And>x. f (g x) = x"
  shows "codec (\<lambda>x. enc (g x)) (map_put g put) (map_get f get)"
proof
  show "puts (\<lambda>v. map_put g put ra v x) (enc (g x))" if "realloc_total ra" for ra x
    using put_law [OF that] by (simp add: map_put_def)
  show "gets (map_get f get) x (enc (g x))" for x
    using get_law [of "g x"] assms [of x] by (auto simp: gets_def map_get_def)
qed

end

lemma get_macro_map:
  "ZTLV_GET_ARRAY_BASETYPE mok dok ra tag sz (map_get f get) wr = ZTLV_GET_ARRAY_BASETYPE mok dok ra tag sz get (\<lambda>v. wr (f v))"
proof -
  have "base_get_items (map_get f get) wr is a buf = base_get_items get (\<lambda>v. wr (f v)) is a buf" for "is" a buf
    by (induction "is" arbitrary: a buf) (auto simp: map_get_def rbind_assoc split: option.split intro!: rbind_cong)
  then have "base_get_items (map_get f get) wr = base_get_items get (\<lambda>v. wr (f v))" by (intro ext)
  then show ?thesis unfolding ZTLV_GET_ARRAY_BASETYPE_def [abs_def] by (rule arg_cong)
qed

lemma put_macro_map: "ZTLV_PUT_ARRAY_BASETYPE ra sz (map_put g put) rd = ZTLV_PUT_ARRAY_BASETYPE ra sz put (\<lambda>bs. g (rd bs))"
proof -
  have "base_put_items ra (map_put g put) rd n is a buf = base_put_items ra put (\<lambda>bs. g (rd bs)) n is a buf" for n "is" a buf
    by (induction "is" arbitrary: buf) (auto simp: map_put_def intro!: rbind_cong)
  then have "base_put_items ra (map_put g put) rd = base_put_items ra put (\<lambda>bs. g (rd bs))" by (intro ext)
  then show ?thesis unfolding ZTLV_PUT_ARRAY_BASETYPE_def [abs_def] by (rule arg_cong)
qed

lemma bytes_of_length [simp]: "length (bytes_of (x :: 'b::len word)) = LENGTH('b) div 8"
  by (simp add: bytes_of_def)

lemma word_elems:
  fixes g :: "'b::len word \<Rightarrow> s32"
  assumes "\<And>x. ucast (g x) = x" "8 dvd LENGTH('b)"
  shows "elem_codec (\<lambda>x. enc_int (g x)) (map_put g ztlv_put_int) (map_get ucast ztlv_get_int) of_bytes (bytes_of :: 'b word \<Rightarrow> u8 list) (LENGTH('b) div 8)"
  by (intro elem_codec.intro elem_codec_axioms.intro int_codec.codec_map assms(1)) (simp_all add: of_bytes_bytes_of [OF assms(2)])

text \<open>C30. An array of integers of 8, 16 or 32 bits, signed or unsigned, that ZTLV_PUT_ARRAY_INT writes is read back by
  ZTLV_GET_ARRAY_INT into a new array, element by element and in order, and exactly the bytes written are read.\<close>

theorem array_int_roundtrip:
  fixes xs :: "'b::len word list" and ext :: "'b word \<Rightarrow> s32"
  assumes ra: "realloc_total ra" and b: "buf_wf b" "zb_offset b = zb_len b"
    and ty: "8 dvd LENGTH('b)" "LENGTH('b) \<le> 32" "\<And>x. ucast (ext x) = x"
    and src: "arr_wf src" "za_unitsize src = of_nat (LENGTH('b) div 8)" "elems src = map bytes_of xs"
    and room: "unat (zb_len b) + length (enc_array (\<lambda>x. enc_int (ext x)) xs) + 16 < 2 ^ 31" and n: "length xs < 0xfffff"
  shows "\<exists>b1 b2 dst. ZTLV_PUT_ARRAY_INT ext ra (Some b) (Some src) = Inr (Some b1) \<and>
    contents b1 = contents b @ enc_array (\<lambda>x. enc_int (ext x)) xs \<and>
    ZTLV_GET_ARRAY_INT TYPE('b) True True ra tag (Some b1) arrv = Inr (True, Some dst, Some b2) \<and>
    elems dst = map bytes_of xs \<and> zb_offset b2 = zb_len b1"
proof -
  let ?sz = "of_nat (LENGTH('b) div 8) :: u32"
  have w: "unat ?sz = LENGTH('b) div 8" "LENGTH('b) div 8 \<le> 4" using ty(2) by (simp_all add: unat_of_nat_u32_small)
  have "LENGTH('b) div 8 * (length xs + 5) \<le> 4 * (length xs + 5)" using w(2) by (rule mult_le_mono1)
  then have m: "LENGTH('b) div 8 * (length xs + 5) < 2 ^ 32" using n by simp
  show ?thesis
    by (rule elem_codec.macro_roundtrip [OF word_elems [OF ty(3,1)] ra b src(1,2) w(1) src(3) room n m, of tag arrv])
      (auto simp: ZTLV_PUT_ARRAY_INT_def ZTLV_GET_ARRAY_INT_def put_macro_map get_macro_map)
qed

definition byte_array :: zarray where
  "byte_array = \<lparr>za_len = 2, za_unitsize = 1, za_alloced = 2, za_memtag = 0, za_step = 5, za_data = Some [255, 7]\<rparr>"

theorem array_int_roundtrip_witness:
  "\<exists>b1 b2 dst. ZTLV_PUT_ARRAY_INT (scast :: 8 word \<Rightarrow> s32) realloc_zero (Some zbuf_zero) (Some byte_array) = Inr (Some b1) \<and>
    contents b1 = [18, 2, 4, 2, 4, 1, 4, 4, 4, 14] \<and>
    ZTLV_GET_ARRAY_INT TYPE(8) True True realloc_zero 0 (Some b1) None = Inr (True, Some dst, Some b2) \<and> elems dst = [[255], [7]]"
proof -
  let ?xs = "[- 1, 7] :: 8 word list"
  have el: "elems byte_array = [[255], [7]]" by (simp add: elems_def elem_def byte_array_def upt_conv_Cons)
  have im: "map bytes_of ?xs = [[255], [7]]" by code_simp
  have enc: "enc_array (\<lambda>x. enc_int (scast x)) ?xs = [18, 2, 4, 2, 4, 1, 4, 4, 4, 14]" by code_simp
  have narrow: "ucast (scast x :: s32) = x" for x :: "8 word" by (rule bit_word_eqI) (auto simp: bit_simps)
  have "\<exists>b1 b2 dst. ZTLV_PUT_ARRAY_INT (scast :: 8 word \<Rightarrow> s32) realloc_zero (Some zbuf_zero) (Some byte_array) = Inr (Some b1) \<and>
    contents b1 = contents zbuf_zero @ enc_array (\<lambda>x. enc_int (scast x)) ?xs \<and>
    ZTLV_GET_ARRAY_INT TYPE(8) True True realloc_zero 0 (Some b1) None = Inr (True, Some dst, Some b2) \<and>
    elems dst = map bytes_of ?xs \<and> zb_offset b2 = zb_len b1"
  proof (rule array_int_roundtrip [OF realloc_zero_total zbuf_zero_facts(1,2)])
    show "elems byte_array = map bytes_of ?xs" unfolding el im ..
  qed (simp_all add: enc zbuf_zero_facts arr_wf_def byte_array_def narrow)
  then show ?thesis unfolding enc im by (fastforce simp: zbuf_zero_facts)
qed

section \<open>What the macros do not do\<close>

text \<open>An integer array is read at any width: of an element that does not fit, the low bits are stored.\<close>

lemma array_int_truncates: "map_get ucast ztlv_get_int buf = Inr (Some (y :: 'b::len word), buf1) \<Longrightarrow>
    \<exists>x. ztlv_get_int buf = Inr (Some x, buf1) \<and> uint y = take_bit LENGTH('b) (uint x)"
  by (auto simp: map_get_def rbind_eq_Inr unsigned_ucast_eq)

text \<open>The test for NULL behind zarray_new is never reached: without memory the new array is written to through NULL.\<close>

lemma get_array_nomem:
  "ztlv_get_table_cnt buf 0 = Inr (True, cnt, buf1) \<Longrightarrow> ZTLV_GET_ARRAY_BASETYPE False dok ra tag sz get wr buf arrv = Inl NullDeref"
  by (simp add: ZTLV_GET_ARRAY_BASETYPE_def zarray_new_def)

section \<open>The macro and the function\<close>

text \<open>C31. The macro that reads an array is ztlv_get_array on a new array of as many elements as are announced: the same array, the same
  place in the buffer, the same success or failure and the same faults.\<close>

theorem get_array_macro:
  assumes "realloc_total ra" "ztlv_get_table_cnt buf 0 = Inr (True, cnt, buf1)"
    "unat sz * (unat cnt + 5) < 2 ^ 32" "\<And>x. length (wr x) = unat sz"
  shows "\<exists>a. zarray_new True True cnt sz 5 tag = Inr a \<and>
    ZTLV_GET_ARRAY_BASETYPE True True ra tag sz get wr buf arrv = ztlv_get_array ra buf (Some a) (Some (elem_get get wr))"
  by (rule get_array_macro_eq [OF assms])

theorem get_array_macro_witness:
  "\<exists>a. zarray_new True True 2 4 5 0 = Inr a \<and>
    ZTLV_GET_ARRAY_BASETYPE True True realloc_zero 0 4 ztlv_get_int bytes_of
      (Some (zbuf_zero\<lparr>zb_buf := Some [18, 2, 4, 2, 4, 1], zb_maxlen := 6, zb_len := 6\<rparr>)) None =
    ztlv_get_array realloc_zero (Some (zbuf_zero\<lparr>zb_buf := Some [18, 2, 4, 2, 4, 1], zb_maxlen := 6, zb_len := 6\<rparr>)) (Some a)
      (Some (elem_get ztlv_get_int bytes_of))"
proof -
  let ?b = "zbuf_zero\<lparr>zb_buf := Some [18, 2, 4, 2, 4, 1], zb_maxlen := 6, zb_len := 6\<rparr>"
  have c: "ztlv_get_table_cnt (Some ?b) 0 = Inr (True, 2, Some (?b\<lparr>zb_offset := 2\<rparr>))" by code_simp
  show ?thesis by (rule get_array_macro [OF realloc_zero_total c]) simp_all
qed

end
