(* ===== verification/Zcrt_Log.thy ===== *)
theory Zcrt_Log
  imports Zcrt_Macro
begin

text \<open>
  The log, \<^verbatim>\<open>zcrtlib/zlog.c\<close> and \<^verbatim>\<open>zcrt/zlog.h\<close>. The text a call of \<^verbatim>\<open>printf\<close> writes
  is a list of characters; a call writes its text in one piece, but another thread may write between two calls. What
  \<^verbatim>\<open>localtime_r\<close> gives for the present time and what \<^verbatim>\<open>vprintf\<close> makes of the caller's format are arguments.
\<close>

section \<open>Levels\<close>

datatype ZELogLvl =
    ZELogLvl_FATAL | ZELogLvl_ALERT | ZELogLvl_CRITICAL | ZELogLvl_ERROR | ZELogLvl_WARNING | ZELogLvl_NOTICE
  | ZELogLvl_INFO | ZELogLvl_DEBUG | ZELogLvl_TOP

fun lvl_code :: "ZELogLvl \<Rightarrow> s32" where
  "lvl_code ZELogLvl_FATAL = 0"
| "lvl_code ZELogLvl_ALERT = 1"
| "lvl_code ZELogLvl_CRITICAL = 2"
| "lvl_code ZELogLvl_ERROR = 3"
| "lvl_code ZELogLvl_WARNING = 4"
| "lvl_code ZELogLvl_NOTICE = 5"
| "lvl_code ZELogLvl_INFO = 6"
| "lvl_code ZELogLvl_DEBUG = 7"
| "lvl_code ZELogLvl_TOP = 8"

definition s_lvlname :: "string list" where
  "s_lvlname = [''FATAL'', ''ALERT'', ''CRITICAL'', ''ERROR'', ''WARNING'', ''NOTICE'', ''INFO'', ''DEBUG'', ''TOP'']"

section \<open>What printf makes of integers\<close>

fun digits :: "nat \<Rightarrow> string" where
  "digits n = (if n < 10 then [char_of (48 + n)] else digits (n div 10) @ [char_of (48 + n mod 10)])"

declare digits.simps [simp del]

definition fmt_d :: "s32 \<Rightarrow> string" where
  "fmt_d i = (if sint i < 0 then ''-'' @ digits (nat (- sint i)) else digits (nat (sint i)))"

text \<open>With a width and leading zeros, which go between the sign and the digits.\<close>

definition fmt_0d :: "nat \<Rightarrow> s32 \<Rightarrow> string" where
  "fmt_0d w i = (let s = fmt_d i; z = replicate (w - length s) (CHR ''0'') in
     if sint i < 0 then ''-'' @ z @ tl s else z @ s)"

section \<open>The two functions\<close>

record tm =
  tm_year :: s32
  tm_mon :: s32
  tm_mday :: s32
  tm_hour :: s32
  tm_min :: s32
  tm_sec :: s32

text \<open>Both begin a line in the same way; a pointer of \<^verbatim>\<open>'p\<close> bits is cast to an integer of 32.\<close>

definition log_stamp :: "tm \<Rightarrow> string" where
  "log_stamp p = fmt_0d 4 (1900 + tm_year p) @ ''-'' @ fmt_0d 2 (1 + tm_mon p) @ ''-'' @ fmt_0d 2 (tm_mday p) @ '' '' @
     fmt_0d 2 (tm_hour p) @ '':'' @ fmt_0d 2 (tm_min p) @ '':'' @ fmt_0d 2 (tm_sec p)"

definition log_level :: "s32 \<Rightarrow> string" where
  "log_level lvl = (if 0 \<le>s lvl \<and> lvl \<le>s lvl_code ZELogLvl_TOP then s_lvlname ! nat (sint lvl) else fmt_d lvl)"

definition log_head :: "tm \<Rightarrow> 'p::len word \<Rightarrow> s32 \<Rightarrow> string" where
  "log_head p pid lvl = log_stamp p @ ''  ZCRT:['' @ log_level lvl @ ''] '' @ fmt_d (ucast pid) @ '' ''"

text \<open>Three calls: the head, what the format of the caller makes, and the end of the line.\<close>

definition zcrt_logger :: "tm \<Rightarrow> 'p::len word \<Rightarrow> s32 \<Rightarrow> string \<Rightarrow> string list" where
  "zcrt_logger p pid lvl body = [log_head p pid lvl, body, [CHR 0x0A]]"

text \<open>One call. \<^verbatim>\<open>None\<close> is NULL, for which \<^verbatim>\<open>%s\<close> is undefined.\<close>

definition zcrt_logger_str :: "tm \<Rightarrow> 'p::len word \<Rightarrow> s32 \<Rightarrow> string option \<Rightarrow> string list res" where
  "zcrt_logger_str p pid lvl info = rbind (deref info) (\<lambda>s. Inr [log_head p pid lvl @ s @ [CHR 0x0A]])"

text \<open>The kernel's versions do nothing.\<close>

definition kern_logger :: "tm \<Rightarrow> 'p::len word \<Rightarrow> s32 \<Rightarrow> string \<Rightarrow> string list" where
  "kern_logger p pid lvl body = []"

definition kern_logger_str :: "tm \<Rightarrow> 'p::len word \<Rightarrow> s32 \<Rightarrow> string option \<Rightarrow> string list res" where
  "kern_logger_str p pid lvl info = Inr []"

text \<open>The macros of \<^verbatim>\<open>zlog.h\<close> for programs outside the kernel; the thread is 0.\<close>

definition ZLOG_DEBUG :: "tm \<Rightarrow> string \<Rightarrow> string list" where
  "ZLOG_DEBUG p body = zcrt_logger p (0 :: 64 word) (lvl_code ZELogLvl_DEBUG) body"

definition ZLOG_INFO :: "tm \<Rightarrow> string \<Rightarrow> string list" where
  "ZLOG_INFO p body = zcrt_logger p (0 :: 64 word) (lvl_code ZELogLvl_INFO) body"

definition ZLOG_WARN :: "tm \<Rightarrow> string \<Rightarrow> string list" where
  "ZLOG_WARN p body = zcrt_logger p (0 :: 64 word) (lvl_code ZELogLvl_WARNING) body"

definition ZLOG_ERROR :: "tm \<Rightarrow> string \<Rightarrow> string list" where
  "ZLOG_ERROR p body = zcrt_logger p (0 :: 64 word) (lvl_code ZELogLvl_ERROR) body"

definition ZLOG_CRITICAL :: "tm \<Rightarrow> string \<Rightarrow> string list" where
  "ZLOG_CRITICAL p body = zcrt_logger p (0 :: 64 word) (lvl_code ZELogLvl_CRITICAL) body"

text \<open>The table has the name of every level at the level's place.\<close>

lemma log_level_names:
  "map (\<lambda>l. log_level (lvl_code l)) [ZELogLvl_FATAL, ZELogLvl_ALERT, ZELogLvl_CRITICAL, ZELogLvl_ERROR, ZELogLvl_WARNING,
     ZELogLvl_NOTICE, ZELogLvl_INFO, ZELogLvl_DEBUG, ZELogLvl_TOP] = s_lvlname"
  by code_simp

lemma level_in_bounds: "0 \<le>s lvl \<Longrightarrow> lvl \<le>s lvl_code ZELogLvl_TOP \<Longrightarrow> nat (sint lvl) < length s_lvlname"
  by (simp add: word_sle_eq s_lvlname_def)

lemma logger_str_same_text: "zcrt_logger_str p pid lvl (Some s) = Inr [concat (zcrt_logger p pid lvl s)]"
  by (simp add: zcrt_logger_str_def zcrt_logger_def)

section \<open>Decimals\<close>

lemma digit_byte: "k < 10 \<Longrightarrow> take_bit 8 (48 + k :: nat) = 48 + k"
  by (simp add: take_bit_nat_eq_self)

lemma digit_inj: "m < 10 \<Longrightarrow> n < 10 \<Longrightarrow> char_of (48 + m :: nat) = char_of (48 + n) \<longleftrightarrow> m = n"
  by (auto simp: char_of_eq_iff digit_byte)

lemma digits_neq_Nil [simp]: "digits n \<noteq> []"
  by (subst digits.simps) simp

lemma digits_set: "c \<in> set (digits n) \<Longrightarrow> \<exists>k < 10. c = char_of (48 + k :: nat)"
proof (induction n rule: digits.induct)
  case (1 n)
  show ?case
  proof (cases "n < 10")
    case True
    then show ?thesis using 1(2) by (auto simp: digits.simps [of n])
  next
    case False
    have "c \<in> set (digits (n div 10)) \<or> c = char_of (48 + n mod 10)" using 1(2) False by (subst (asm) digits.simps) auto
    then show ?thesis using 1(1) [OF False] by (auto intro: exI [of _ "n mod 10"])
  qed
qed

definition from_digits :: "string \<Rightarrow> nat" where
  "from_digits = foldl (\<lambda>n c. 10 * n + (of_char c - 48)) 0"

lemma from_digits_snoc [simp]: "from_digits (s @ [c]) = 10 * from_digits s + (of_char c - 48)"
  by (simp add: from_digits_def)

lemma digits_value [simp]: "from_digits (digits n) = n"
proof (induction n rule: digits.induct)
  case (1 n)
  show ?case
  proof (cases "n < 10")
    case True
    then show ?thesis by (simp add: digits.simps [of n] from_digits_def)
  next
    case False
    then show ?thesis using 1 [OF False] by (simp add: digits.simps [of n])
  qed
qed

lemma digits_inj [simp]: "digits m = digits n \<longleftrightarrow> m = n"
  by (metis digits_value)

lemma digit_not: "k < 10 \<Longrightarrow> char_of (48 + k :: nat) \<notin> {CHR '' '', CHR ''-'', CHR '']''}"
  by (auto simp: char_of_eq_iff digit_byte)

lemma digits_no: "CHR '' '' \<notin> set (digits n)" "CHR ''-'' \<notin> set (digits n)" "CHR '']'' \<notin> set (digits n)"
  using digits_set digit_not by fastforce+

lemma fmt_d_no: "CHR '' '' \<notin> set (fmt_d i)" "CHR '']'' \<notin> set (fmt_d i)"
  by (simp_all add: fmt_d_def digits_no)

lemma minus_neq_digits: "''-'' @ s \<noteq> digits n"
  using digits_no(2) [of n] by (cases "digits n") auto

lemma fmt_d_inj [simp]: "fmt_d i = fmt_d j \<longleftrightarrow> i = j"
proof
  assume "fmt_d i = fmt_d j"
  then have "sint i = sint j" using minus_neq_digits [of "digits (nat (- sint i))"] minus_neq_digits [of "digits (nat (- sint j))"]
    by (auto simp: fmt_d_def split: if_splits) (metis append_Cons append_Nil)+
  then show "i = j" by (rule signed_word_eqI)
qed simp

text \<open>Leading zeros: the width is exact when the digits fit, and the number can be read back.\<close>

lemma digits_length:
  assumes "n < 10 ^ k" "0 < k"
  shows "length (digits n) \<le> k"
  using assms
proof (induction k arbitrary: n)
  case (Suc k)
  then show ?case
  proof (cases "n < 10")
    case False
    then have "n div 10 < 10 ^ k" "0 < k" using Suc.prems by (auto intro: less_mult_imp_div_less simp: mult.commute) (cases k; simp)
    then show ?thesis using Suc.IH [of "n div 10"] False by (simp add: digits.simps [of n])
  qed (simp add: digits.simps [of n])
qed simp

lemma from_zeros [simp]: "from_digits (replicate k (CHR ''0'') @ s) = from_digits s"
  by (induction k) (simp_all add: from_digits_def)

definition fits :: "nat \<Rightarrow> s32 \<Rightarrow> bool" where
  "fits w i \<longleftrightarrow> 0 \<le> sint i \<and> sint i < 10 ^ w"

lemma fmt_0d_fits:
  assumes "fits w i" "0 < w"
  shows "length (fmt_0d w i) = w" "from_digits (fmt_0d w i) = nat (sint i)"
proof -
  have "nat (sint i) < 10 ^ w" using assms by (simp add: fits_def nat_less_iff)
  then show "length (fmt_0d w i) = w" "from_digits (fmt_0d w i) = nat (sint i)"
    using assms digits_length [of "nat (sint i)" w] by (simp_all add: fits_def fmt_0d_def fmt_d_def Let_def)
qed

lemma fmt_0d_inj:
  assumes "fits w i" "fits w j" "0 < w"
  shows "fmt_0d w i = fmt_0d w j \<longleftrightarrow> i = j"
proof
  assume "fmt_0d w i = fmt_0d w j"
  then have "nat (sint i) = nat (sint j)" using fmt_0d_fits(2) assms by metis
  then have "sint i = sint j" using assms by (auto simp: fits_def nat_eq_iff2)
  then show "i = j" by (rule signed_word_eqI)
qed simp

section \<open>Lines\<close>

text \<open>The times that \<^verbatim>\<open>localtime_r\<close> gives up to the year 9999.\<close>

definition tm_ok :: "tm \<Rightarrow> bool" where
  "tm_ok p \<longleftrightarrow> fits 4 (1900 + tm_year p) \<and> fits 2 (1 + tm_mon p) \<and> fits 2 (tm_mday p) \<and> fits 2 (tm_hour p) \<and>
     fits 2 (tm_min p) \<and> fits 2 (tm_sec p)"

lemma log_stamp_length: "tm_ok p \<Longrightarrow> length (log_stamp p) = 19"
  by (simp add: tm_ok_def log_stamp_def fmt_0d_fits)

lemma log_stamp_inj:
  assumes "tm_ok p" "tm_ok q"
  shows "log_stamp p = log_stamp q \<longleftrightarrow> p = q"
  using assms by (auto simp: tm_ok_def log_stamp_def fmt_0d_fits fmt_0d_inj intro: tm.equality)

lemma log_level_no: "CHR '']'' \<notin> set (log_level lvl)"
proof -
  have "\<forall>s \<in> set s_lvlname. CHR '']'' \<notin> set s" by (simp add: s_lvlname_def)
  then show ?thesis using level_in_bounds [of lvl] by (auto simp: log_level_def fmt_d_no)
qed

lemma fmt_d_not_name: "fmt_d i \<notin> set s_lvlname"
proof -
  have "of_char c < (58 :: nat)" if "c \<in> set (fmt_d i)" for c
    using that by (auto simp: fmt_d_def digit_byte split: if_splits dest!: digits_set)
  moreover have "\<forall>s \<in> set s_lvlname. \<exists>c \<in> set s. \<not> of_char c < (58 :: nat)" by (simp add: s_lvlname_def)
  ultimately show ?thesis by blast
qed

lemma log_level_inj [simp]: "log_level lvl = log_level lvl' \<longleftrightarrow> lvl = lvl'"
proof
  assume a: "log_level lvl = log_level lvl'"
  have d: "distinct s_lvlname" by (simp add: s_lvlname_def)
  have m: "s_lvlname ! nat (sint l) \<in> set s_lvlname" if "0 \<le>s l" "l \<le>s lvl_code ZELogLvl_TOP" for l
    using level_in_bounds [OF that] by simp
  show "lvl = lvl'"
  proof (cases "0 \<le>s lvl \<and> lvl \<le>s lvl_code ZELogLvl_TOP")
    case True
    then have t: "0 \<le>s lvl' \<and> lvl' \<le>s lvl_code ZELogLvl_TOP" using a m [of lvl] fmt_d_not_name [of lvl'] by (auto simp: log_level_def split: if_splits)
    then have "nat (sint lvl) = nat (sint lvl')"
      using a True level_in_bounds by (simp add: log_level_def nth_eq_iff_index_eq [OF d])
    then have "sint lvl = sint lvl'" using t True by (auto simp: word_sle_eq nat_eq_iff2)
    then show ?thesis by (rule signed_word_eqI)
  next
    case False
    then show ?thesis using a m [of lvl'] fmt_d_not_name [of lvl] by (auto simp: log_level_def split: if_splits)
  qed
qed simp

lemma split_at: "x \<notin> set xs \<Longrightarrow> x \<notin> set ys \<Longrightarrow> xs @ x # zs = ys @ x # zs' \<longleftrightarrow> xs = ys \<and> zs = zs'"
  by (induction xs arbitrary: ys) (case_tac ys; auto)+

text \<open>C40. A line tells when it was written, at which level, the lower 32 bits of the thread, and what: two calls write the same
  line only if they agree in all of these.\<close>

theorem logger_str_inj:
  assumes "tm_ok p" "tm_ok q"
  shows "zcrt_logger_str p pid lvl (Some s) = zcrt_logger_str q pid' lvl' (Some s') \<longleftrightarrow>
    p = q \<and> lvl = lvl' \<and> (ucast pid :: s32) = ucast pid' \<and> s = s'"
proof -
  have "zcrt_logger_str p pid lvl (Some s) = zcrt_logger_str q pid' lvl' (Some s') \<longleftrightarrow>
      p = q \<and> log_level lvl @ CHR '']'' # '' '' @ fmt_d (ucast pid) @ CHR '' '' # s = log_level lvl' @ CHR '']'' # '' '' @ fmt_d (ucast pid') @ CHR '' '' # s'"
    using assms by (simp add: zcrt_logger_str_def log_head_def log_stamp_inj log_stamp_length)
  also have "\<dots> \<longleftrightarrow> p = q \<and> lvl = lvl' \<and> (ucast pid :: s32) = ucast pid' \<and> s = s'"
    by (simp only: split_at [OF log_level_no log_level_no] split_at [OF fmt_d_no(1) fmt_d_no(1)] log_level_inj append_Cons append_Nil list.inject fmt_d_inj simp_thms)
  finally show ?thesis .
qed

text \<open>A witness on the last second of 2014 and its successor.\<close>

theorem logger_str_inj_witness:
  "zcrt_logger_str \<lparr>tm_year = 114, tm_mon = 11, tm_mday = 31, tm_hour = 23, tm_min = 59, tm_sec = 59\<rparr> (7 :: 64 word) 3 (Some ''x'') \<noteq>
   zcrt_logger_str \<lparr>tm_year = 115, tm_mon = 0, tm_mday = 1, tm_hour = 0, tm_min = 0, tm_sec = 0\<rparr> (7 :: 64 word) 3 (Some ''x'')"
proof -
  have "tm_ok \<lparr>tm_year = 114, tm_mon = 11, tm_mday = 31, tm_hour = 23, tm_min = 59, tm_sec = 59\<rparr>"
    "tm_ok \<lparr>tm_year = 115, tm_mon = 0, tm_mday = 1, tm_hour = 0, tm_min = 0, tm_sec = 0\<rparr>" by (simp_all add: tm_ok_def fits_def)
  from logger_str_inj [OF this, of 7 3 "''x''" 7 3 "''x''"] show ?thesis by simp
qed

lemma logger_example:
  "zcrt_logger_str \<lparr>tm_year = 114, tm_mon = 0, tm_mday = 9, tm_hour = 8, tm_min = 5, tm_sec = 59\<rparr> (0x100000007 :: 64 word) 3 (Some ''x'') =
    Inr [''2014-01-09 08:05:59  ZCRT:[ERROR] 7 x'' @ [CHR 0x0A]]"
  by code_simp

section \<open>Several threads\<close>

text \<open>Two threads that log through zcrt_logger_str: whatever the interleaving of their writes, each is one whole line of one call.\<close>

type_synonym 'p log_call = "tm \<times> 'p word \<times> s32 \<times> string"

definition str_call :: "'p::len log_call \<Rightarrow> string list res" where
  "str_call c = (case c of (p, pid, lvl, s) \<Rightarrow> zcrt_logger_str p pid lvl (Some s))"

lemma str_call_line: "str_call c = Inr ws \<Longrightarrow> \<exists>line. ws = [line @ [CHR 0x0A]]"
  by (auto simp: str_call_def zcrt_logger_str_def split: prod.splits)

lemma str_calls_writes:
  "list_all2 (\<lambda>c ws. str_call c = Inr ws) cs wss \<Longrightarrow> length (concat wss) = length cs \<and> (\<forall>z \<in> set (concat wss). \<exists>c \<in> set cs. str_call c = Inr [z])"
proof (induction rule: list_all2_induct)
  case (Cons c cs ws wss)
  then show ?case using str_call_line [of c ws] by auto
qed simp

lemma logger_str_lines_whole:
  assumes "list_all2 (\<lambda>c ws. str_call c = Inr ws) cs wss" "list_all2 (\<lambda>c ws. str_call c = Inr ws) cs' wss'"
    "zs \<in> shuffles (concat wss) (concat wss')"
  shows "length zs = length cs + length cs' \<and> (\<forall>z \<in> set zs. \<exists>c \<in> set cs \<union> set cs'. str_call c = Inr [z])"
  using str_calls_writes [OF assms(1)] str_calls_writes [OF assms(2)] length_shuffles [OF assms(3)] set_shuffles [OF assms(3)] by fastforce

text \<open>Lines written through zcrt_logger can be torn: here two heads stand in one line, and both bodies behind them.\<close>

lemma logger_lines_mix:
  "\<exists>zs \<in> shuffles (zcrt_logger p pid lvl x) (zcrt_logger q pid' lvl' y).
    concat zs = log_head p pid lvl @ log_head q pid' lvl' @ x @ y @ [CHR 0x0A, CHR 0x0A]"
proof
  show "[log_head p pid lvl, log_head q pid' lvl', x, y, [CHR 0x0A], [CHR 0x0A]] \<in> shuffles (zcrt_logger p pid lvl x) (zcrt_logger q pid' lvl' y)"
    by (auto simp: zcrt_logger_def Cons_in_shuffles_iff)
qed simp

end
