(* ===== verification/Zcrt_Module.thy ===== *)
theory Zcrt_Module
  imports Zcrt_Timer Zipc_Listen
begin

text \<open>
  Modules, \<^verbatim>\<open>zcrtlib/zmodule.c\<close>: how the timer manager, the event manager, the scheduler's own thread and the
  IPC server of a module are created together and torn down. The lock of a module is the mutex its users
  take; it is not part of the state.
\<close>

section \<open>State\<close>

text \<open>
  A module as its parts, each in the state type of its own theory; \<^verbatim>\<open>mo_addr\<close> is its address,
  under which the scheduler keeps its threads. Clocks are those of \<^verbatim>\<open>zcmm.c\<close>.
\<close>

record zCRTModule =
  mo_addr :: addr
  mo_timer :: "zTimer option"
  mo_evt :: "zEvent option"
  mo_zipc :: "zIPCModule option"

record zRunWorld =
  rw_sch :: zSchWorld
  rw_buf :: "zbuf heap"
  rw_node :: "zcompref hheap"
  rw_starttime :: u32
  rw_start_cpu_clock :: u32
  rw_global :: "addr option"

text \<open>What \<^verbatim>\<open>malloc\<close> gives while a module is created.\<close>

record zModAlloc =
  ma_module :: "addr option"
  ma_timer :: bool
  ma_evt :: bool
  ma_thr :: "addr option"
  ma_ipc :: bool
  ma_list :: bool
  ma_index :: bool
  ma_sch :: "addr option"
  ma_rsch :: "addr option"
  ma_rthr :: "addr option"
  ma_esch :: "addr option"

section \<open>Operations\<close>

definition zcrt_set_global_module :: "addr option \<Rightarrow> zRunWorld \<Rightarrow> zRunWorld" where
  "zcrt_set_global_module m w = w\<lparr>rw_global := m\<rparr>"

definition zcrt_get_global_module :: "zRunWorld \<Rightarrow> addr option" where
  "zcrt_get_global_module w = rw_global w"

text \<open>
  The fields of a new module are zero until they are set, so the server is created in a module that has its
  scheduler thread but no server. \<^verbatim>\<open>now\<close> and \<^verbatim>\<open>cpu\<close> are the clocks.
\<close>

definition zcrt_module_new ::
  "zModAlloc \<Rightarrow> zTimerCB heap \<Rightarrow> zEventCB heap \<Rightarrow> u32 \<Rightarrow> u32 \<Rightarrow> u16 \<Rightarrow> zRunWorld \<Rightarrow> (zCRTModule \<times> zRunWorld) res" where
  "zcrt_module_new al th eh now cpu port w =
     rbind (deref (ma_module al)) (\<lambda>m.
     let w1 = set_mod m \<lparr>md_zcrtthr = None, md_schthr_list = None\<rparr> (rw_sch w);
         tmg = zcrt_timer_manage_init (ma_timer al) th;
         evt = zcrt_event_manage_init (ma_evt al) eh in
     rbind (zcrt_schedule_module_init (ma_thr al) w1) (\<lambda>(thr, w2).
     rbind (deref (sx_mod w2 m)) (\<lambda>md.
     let w3 = set_mod m (md\<lparr>md_zcrtthr := thr\<rparr>) w2 in
     rbind (zipc_server_create (ma_ipc al) (ma_list al) (ma_index al) (ma_sch al) (ma_rsch al) (ma_rthr al) (ma_esch al)
              (Some m) port (cstr (str_u8 ''ZIPC'')) w3) (\<lambda>(ipc, w4).
       Inr (\<lparr>mo_addr = m, mo_timer = tmg, mo_evt = evt, mo_zipc = Some ipc\<rparr>,
            w\<lparr>rw_sch := w4, rw_starttime := now, rw_start_cpu_clock := cpu\<rparr>)))))"

text \<open>
  The parts in the order they are deleted; afterwards the module's own memory is freed, which leaves the
  scheduler's threads with the address of a module that is gone. The result holds the server's structure as its threads
  see it until it is freed, the socket that was closed, and the event manager's heap.
\<close>

definition zcrt_module_delete :: "zCRTModule \<Rightarrow> zRunWorld \<Rightarrow> (zIPCModule \<times> nat \<times> zTimer option \<times> zEventCB heap option \<times> zRunWorld) res" where
  "zcrt_module_delete mo w =
     rbind (deref (mo_zipc mo)) (\<lambda>ipc.
     rbind (zipc_server_delete ipc (rw_buf w) (rw_node w) (rw_sch w)) (\<lambda>(ipc1, closed, bufs, nodes, w1).
     rbind (zcrt_event_manage_delete (mo_evt mo)) (\<lambda>eh.
     let tmg = zcrt_timer_manage_delete (mo_timer mo) in
     rbind (zcrt_schedule_module_delete (mo_addr mo) w1) (\<lambda>w2.
       Inr (ipc1, closed, tmg, eh, w\<lparr>rw_sch := w2\<lparr>sx_mod := (sx_mod w2)(mo_addr mo := None)\<rparr>, rw_buf := bufs, rw_node := nodes\<rparr>)))))"

definition zcrt_start_time :: "zRunWorld \<Rightarrow> u32" where
  "zcrt_start_time w = rw_starttime w"

definition zcrt_running_clock :: "u32 \<Rightarrow> zRunWorld \<Rightarrow> u32" where
  "zcrt_running_clock cpu w = cpu - rw_start_cpu_clock w"

section \<open>A new module\<close>

definition all_given :: "zModAlloc \<Rightarrow> addr \<Rightarrow> addr \<Rightarrow> addr \<Rightarrow> addr \<Rightarrow> addr \<Rightarrow> addr \<Rightarrow> bool" where
  "all_given al m t0 s1 s2 t2 s3 \<longleftrightarrow> ma_module al = Some m \<and> ma_timer al \<and> ma_evt al \<and> ma_thr al = Some t0 \<and> ma_ipc al \<and> ma_list al \<and>
     ma_index al \<and> ma_sch al = Some s1 \<and> ma_rsch al = Some s2 \<and> ma_rthr al = Some t2 \<and> ma_esch al = Some s3 \<and>
     t0 \<noteq> t2 \<and> s1 \<noteq> s2 \<and> s1 \<noteq> s3 \<and> s2 \<noteq> s3"

definition serves :: "zSchWorld \<Rightarrow> addr option \<Rightarrow> addr \<Rightarrow> addr \<Rightarrow> nat \<Rightarrow> nat \<Rightarrow> bool" where
  "serves w h s t pri maxsize \<longleftrightarrow> h = Some s \<and> (\<exists>sc. sx_sch w s = Some sc \<and> sc_thr sc = Some t \<and> unat (sc_pri sc) = pri \<and>
     unat (sc_maxsize sc) = maxsize)"

lemma empty_table128:
  fixes t :: "zcompref zhash"
  assumes "t = \<lparr>ht_size = 128, ht_count = 0, ht_index = replicate 128 None, ht_key = zipc_component_hash_key, ht_cmp = zipc_component_hash_cmp\<rparr>"
  shows "hash_wf hp t (replicate 128 [])" "comp_table t"
  by (simp_all add: hash_wf_def comp_table_def assms)

text \<open>C32. When all memory can be had, a new module is ready: its event manager has no subscription, its server has an
  empty table and an empty pool and three schedules, one for messages on the scheduler's own thread with
  room for 100 jobs, and one each for replies and for events with room for 500 on one thread of the server's own, replies
  before events; both threads are well formed and idle.\<close>

theorem module_new_spec:
  assumes al: "all_given al m t0 s1 s2 t2 s3" and w: "sx_sch (rw_sch w) = Map.empty" "sx_thr (rw_sch w) = Map.empty"
  shows "\<exists>mo w' ipc t ev. zcrt_module_new al th eh now cpu port w = Inr (mo, w') \<and>
    mo_zipc mo = Some ipc \<and> im_run ipc \<and> im_port ipc = port \<and> im_modlist ipc = Some t \<and> hash_wf (rw_node w') t (replicate 128 []) \<and> comp_table t \<and>
    pool_wf ipc (rw_buf w') [] \<and> mo_evt mo = Some ev \<and> ev_wf ev [] (replicate 256 []) \<and> mo_timer mo \<noteq> None \<and>
    sch_wf t0 (rw_sch w') [] [[], [], []] \<and> sch_wf t2 (rw_sch w') [] [[], [], []] \<and>
    serves (rw_sch w') (im_sch ipc) s1 t0 1 100 \<and> serves (rw_sch w') (im_respondSch ipc) s2 t2 1 500 \<and>
    serves (rw_sch w') (im_evtSch ipc) s3 t2 2 500 \<and> rw_starttime w' = now"
proof -
  let ?q = "replicate EZCRTSchPri_num \<lparr>pl_jobs = None, pl_tail = None\<rparr>"
  let ?t = "\<lparr>ht_size = 128, ht_count = 0, ht_index = replicate 128 None, ht_key = zipc_component_hash_key, ht_cmp = zipc_component_hash_cmp\<rparr>"
  have nm: "strlen_c (cstr (str_u8 ''ZIPC'')) = Inr 4" "load_n (cstr (str_u8 ''ZIPC'')) 4 = Inr (str_u8 ''ZIPC'')"
    by (simp_all add: strlen_c_def cstr_def str_u8_def load_n_def)
  have ht: "zcrt_hash_new True True 128 (Some zipc_component_hash_key) (Some zipc_component_hash_cmp) = Inr (Some ?t)"
    by (simp add: zcrt_hash_new_def)
  have a: "ma_module al = Some m" "ma_timer al" "ma_evt al" "ma_thr al = Some t0" "ma_ipc al" "ma_list al" "ma_index al"
    "ma_sch al = Some s1" "ma_rsch al = Some s2" "ma_rthr al = Some t2" "ma_esch al = Some s3"
    "t0 \<noteq> t2" "s1 \<noteq> s2" "s1 \<noteq> s3" "s2 \<noteq> s3" "t2 \<noteq> t0" "s2 \<noteq> s1" "s3 \<noteq> s1" "s3 \<noteq> s2" using al by (auto simp: all_given_def)
  note defs = zcrt_schedule_module_init_def zcrt_s_thr_new_def zcrt_schedule_create_def zcrt_schedule_create_share_def
    zcrt_s_thr_add_sch_def zcrt_atom_inc_def set_thr_def set_sch_def set_mod_def new_sch_def
  let ?sc = "\<lambda>t mx pri ty nxt. (new_sch zipc_name)\<lparr>sc_thr := Some t, sc_maxsize := mx, sc_pri := pri, sc_type := ty, sc_module := Some m, sc_next := nxt\<rparr>"
  let ?sch = "[s1 \<mapsto> ?sc t0 100 1 EZCRTSchType_zcrtThread None, s2 \<mapsto> ?sc t2 500 1 EZCRTSchType_selfThread None,
      s3 \<mapsto> ?sc t2 500 2 EZCRTSchType_shareThread (Some s2)]"
  obtain mo w' ipc where r: "zcrt_module_new al th eh now cpu port w = Inr (mo, w')" "mo_zipc mo = Some ipc"
    "ipc = \<lparr>im_sch = Some s1, im_respondSch = Some s2, im_evtSch = Some s3, im_socket = 0, im_evt_encode = None, im_port = port, im_run = True,
       im_modlist = Some ?t, im_name = str_u8 ''ZIPC'' @ replicate 60 0, im_freebuf = None\<rparr>"
    "mo_evt mo = zcrt_event_manage_init True eh" "mo_timer mo = zcrt_timer_manage_init True th" "rw_starttime w' = now"
    "sx_sch (rw_sch w') = ?sch"
    "\<exists>th. sx_thr (rw_sch w') t0 = Some th \<and> th_que th = ?q \<and> th_freejobs th = None"
    "\<exists>th. sx_thr (rw_sch w') t2 = Some th \<and> th_que th = ?q \<and> th_freejobs th = None"
    by (simp add: zcrt_module_new_def zipc_server_create_def a nm ht defs w ZCRT_NAME_LEN_def)
  have idle: "sx_sch (rw_sch w') s = Some sc \<Longrightarrow> sc_cursize sc = 0 \<and> unat (sc_maxsize sc) < 65536" for s sc
    unfolding r(7) by (auto simp: new_sch_def split: if_splits)
  obtain ev where ev: "zcrt_event_manage_init True eh = Some ev" "ev_wf ev [] (replicate 256 [])"
    using init_wf [of eh] by (auto simp: zcrt_event_manage_init_def)
  have wfs: "sch_wf t0 (rw_sch w') [] [[], [], []]" "sch_wf t2 (rw_sch w') [] [[], [], []]"
    using r(8,9) idle fresh_thread_wf by blast+
  have sv: "serves (rw_sch w') (im_sch ipc) s1 t0 1 100" "serves (rw_sch w') (im_respondSch ipc) s2 t2 1 500"
    "serves (rw_sch w') (im_evtSch ipc) s3 t2 2 500"
    using a(12-) by (simp_all add: serves_def r(3,7))
  have "pool_wf ipc (rw_buf w') []" "im_run ipc" "im_port ipc = port" "im_modlist ipc = Some ?t" by (simp_all add: r(3) pool_wf_def)
  then show ?thesis
    using r(1,2,4,5,6) ev wfs sv empty_table128 [OF refl]
    by (intro exI [of _ mo] exI [of _ w'] exI [of _ ipc] exI [of _ ?t] exI [of _ ev]) (simp add: zcrt_timer_manage_init_def)
qed

definition given_example :: zModAlloc where
  "given_example = \<lparr>ma_module = Some 1, ma_timer = True, ma_evt = True, ma_thr = Some 2, ma_ipc = True, ma_list = True,
     ma_index = True, ma_sch = Some 3, ma_rsch = Some 4, ma_rthr = Some 5, ma_esch = Some 6\<rparr>"

theorem module_new_spec_witness:
  "\<exists>w mo w' ipc. zcrt_module_new given_example Map.empty Map.empty 7 8 1234 w = Inr (mo, w') \<and> mo_zipc mo = Some ipc \<and>
    serves (rw_sch w') (im_respondSch ipc) 4 5 1 500"
proof -
  have "all_given given_example 1 2 3 4 5 6" by (simp add: all_given_def given_example_def)
  then show ?thesis
    using module_new_spec [of given_example 1 2 3 4 5 6
        "\<lparr>rw_sch = empty_world, rw_buf = Map.empty, rw_node = Map.empty, rw_starttime = 0, rw_start_cpu_clock = 0, rw_global = None\<rparr>"
        Map.empty Map.empty 7 8 1234]
    by (simp add: empty_world_def) blast
qed

section \<open>Deleting a module\<close>

lemma event_manage_deletes:
  assumes "ev_wf m fs ass"
  shows "zcrt_event_manage_delete (Some m) = Inr (Some (freed (concat (fs # ass)) (ev_heap m)))"
proof -
  note c = ev_wfD(1) [OF assms]
  have cl: "chains ec_next (ev_heap m) (ev_list m) ass" using c by (simp add: chains_def)
  have "chain ec_next (ev_heap m) (ev_freelist m) fs None" by (rule ev_wfD(7) [OF assms])
  moreover have "set fs \<inter> set (concat ass) = {}" using c by (auto simp: chains_def)
  ultimately have "chain ec_next (freed (concat ass) (ev_heap m)) (ev_freelist m) fs None"
    by (subst chain_frame [where h = "ev_heap m"]) (auto simp: freed_def)
  note fn = free_nodes_chain [OF this]
  have fl: "free_lists ec_next (ev_heap m) (ev_list m) = Inr (freed (concat ass) (ev_heap m))"
    using free_lists_chains [OF cl] by (simp add: freed_def [abs_def])
  have "(\<lambda>a. if a \<in> set fs then None else freed (concat ass) (ev_heap m) a) = freed (concat (fs # ass)) (ev_heap m)"
    by (simp add: freed_def fun_eq_iff)
  then show ?thesis by (simp only: zcrt_event_manage_delete_def option.case fl rbind.simps fn run_simps map_sum.simps)
qed

definition stopped :: "zSchThr \<Rightarrow> zSchThr" where
  "stopped th = th\<lparr>th_run := False, th_sem := th_sem th + 1\<rparr>"

lemma stop_all_chain:
  assumes "chain th_next h p ts None"
  shows "stop_all h p = Some (Inr (\<lambda>t. if t \<in> set ts then map_option stopped (h t) else h t))"
  using assms
proof (induction ts arbitrary: p h)
  case Nil
  then show ?case by (subst stop_all.simps) simp
next
  case (Cons a ts)
  then obtain n where n: "p = Some a" "h a = Some n" "chain th_next h (th_next n) ts None" by auto
  have a: "a \<notin> set ts" using chain_distinct [OF Cons.prems] by simp
  then have "chain th_next (h(a \<mapsto> stopped n)) (th_next n) ts None" using n(3) by (simp add: chain_simps)
  from Cons.IH [OF this] have "stop_all (h(a \<mapsto> stopped n)) (th_next n) =
      Some (Inr (\<lambda>t. if t \<in> set ts then map_option stopped ((h(a \<mapsto> stopped n)) t) else (h(a \<mapsto> stopped n)) t))" .
  moreover have "(\<lambda>t. if t \<in> set ts then map_option stopped ((h(a \<mapsto> stopped n)) t) else (h(a \<mapsto> stopped n)) t) =
      (\<lambda>t. if t \<in> set (a # ts) then map_option stopped (h t) else h t)"
    using a n(2) by (auto simp: fun_eq_iff)
  ultimately show ?case using n(1,2) by (subst stop_all.simps) (simp add: stopped_def)
qed

text \<open>What the listening thread and a client's thread do when the server's flag is cleared: they leave their loops without
  accepting or receiving anything more.\<close>

lemma server_threads_leave:
  "\<not> im_run (zw_ipc v) \<Longrightarrow> accept_loop rs v = Some (Inr v)"
  "\<not> im_run (zw_ipc v) \<Longrightarrow> client_round ra c rn buf v = Inr (False, buf, v)"
  by (cases rs) (simp_all add: client_round_def)

text \<open>C10. Deleting a module frees the server's pool and table and every subscription and deletes the server's schedules. The
  server's flag is cleared and its socket closed, so that its listening thread and every client's thread leave their loops
  when they next look at the flag (the record that holds it is freed at the end of the deletion; the statement is about what
  they find in it, and a thread that looks later reads freed memory); the timer's flag is cleared; the server's own worker, the module's worker and every worker of
  the module's list are told to stop, and the last two kinds woken. The module itself is gone then: a worker of the server that
  has not left its loop by that time follows the freed module when it does.\<close>

theorem module_delete_spec:
  assumes mo: "mo_zipc mo = Some ipc" "mo_evt mo = Some ev" "ev_wf ev efs eass" "mo_timer mo = Some tm"
    and pool: "pool_wf ipc (rw_buf w) as" and tb: "im_modlist ipc = Some tb" "hash_wf (rw_node w) tb ass"
    and h: "im_sch ipc = Some s1" "im_respondSch ipc = Some s2" "im_evtSch ipc = Some s3"
    and ok: "thr_ok t0 S0 T0 ss0 fs0 qs0 (rw_sch w)" "thr_ok t2 S2 T2 ss2 fs2 qs2 (rw_sch w)" "apart t0 S0 T0 t2 S2 T2"
    and three: "three_schs s1 s2 s3 c1 c2 c3 T0 T2 qs0 qs2 (rw_sch w)"
    and md: "sx_mod (rw_sch w) (mo_addr mo) = Some md" "md_zcrtthr md = Some t0"
      "chain th_next (sx_thr (rw_sch w)) (md_schthr_list md) ts None"
    and t2: "sx_thr (rw_sch w) t2 = Some th2" "th_module th2 = Some (mo_addr mo)"
  shows "\<exists>w'. zcrt_module_delete mo w =
      Inr (ipc\<lparr>im_run := False\<rparr>, im_socket ipc, Some (tm\<lparr>tq_run := False\<rparr>), Some (freed (concat (efs # eass)) (ev_heap ev)), w') \<and>
    (\<forall>(v :: 'w zIpcWorld) rs ra c rn buf. zw_ipc v = ipc\<lparr>im_run := False\<rparr> \<longrightarrow>
       accept_loop rs v = Some (Inr v) \<and> client_round ra c rn buf v = Inr (False, buf, v)) \<and>
    rw_buf w' = freed as (rw_buf w) \<and> rw_node w' = freed (concat ass) (rw_node w) \<and>
    (\<forall>s \<in> {s1, s2, s3}. sx_sch (rw_sch w') s = None) \<and>
    (\<forall>t \<in> insert t0 (set ts). \<exists>th. sx_thr (rw_sch w') t = Some th \<and> \<not> th_run th \<and> 0 < th_sem th) \<and>
    (\<exists>th. sx_thr (rw_sch w') t2 = Some th \<and> \<not> th_run th) \<and>
    sx_mod (rw_sch w') (mo_addr mo) = None \<and> zcrt_s_thr_remove_from_module t2 (rw_sch w') = Inl NullDeref"
proof (rule server_deletes [OF pool tb h ok three])
  fix v fs0' qs0' fs2' qs2' th0 th0' th2a th2'
  assume d: "zipc_server_delete ipc (rw_buf w) (rw_node w) (rw_sch w) =
      Inr (ipc\<lparr>im_run := False\<rparr>, im_socket ipc, freed as (rw_buf w), freed (concat ass) (rw_node w), v)"
    "\<forall>s \<in> {s1, s2, s3}. sx_sch v s = None" "sch_wf t0 v fs0' qs0'" "queues v qs0' = without s1 c1 (queues (rw_sch w) qs0)"
    "sch_wf t2 v fs2' qs2'" "queues v qs2' = without s2 c2 (without s3 c3 (queues (rw_sch w) qs2))"
    "sx_thr (rw_sch w) t0 = Some th0" "sx_thr v t0 = Some th0'" "th_run th0' = th_run th0" "th_next th0' = th_next th0"
    "sx_thr (rw_sch w) t2 = Some th2a" "sx_thr v t2 = Some th2'" "\<not> th_run th2'" "th_next th2' = th_next th2a" "th_module th2' = th_module th2a"
    "\<And>t. t \<noteq> t0 \<Longrightarrow> t \<noteq> t2 \<Longrightarrow> sx_thr v t = sx_thr (rw_sch w) t" "sx_mod v = sx_mod (rw_sch w)"
  have ne: "t0 \<noteq> t2" using ok(3) by (simp add: apart_def)
  have nx: "map_option th_next (((sx_thr v)(t0 \<mapsto> stopped th0')) t) = map_option th_next (sx_thr (rw_sch w) t)" for t
    using d(7,10-12,14,16) by (cases "t = t0"; cases "t = t2") (simp_all add: stopped_def)
  have ch: "chain th_next ((sx_thr v)(t0 \<mapsto> stopped th0')) (md_schthr_list md) ts None"
    using md(3) nx by (subst chain_frame [where h = "sx_thr (rw_sch w)"]) simp_all
  let ?h = "\<lambda>t. if t \<in> set ts then map_option stopped (((sx_thr v)(t0 \<mapsto> stopped th0')) t) else ((sx_thr v)(t0 \<mapsto> stopped th0')) t"
  have th0: "th0'\<lparr>th_run := False, th_sem := Suc (th_sem th0')\<rparr> = stopped th0'" by (simp add: stopped_def)
  have m: "zcrt_schedule_module_delete (mo_addr mo) v = Inr ((set_thr t0 (stopped th0') v)\<lparr>sx_thr := ?h\<rparr>)"
    using md(1,2) d(8,17) stop_all_chain [OF ch] by (simp add: zcrt_schedule_module_delete_def Let_def th0)
  let ?w = "w\<lparr>rw_sch := ((set_thr t0 (stopped th0') v)\<lparr>sx_thr := ?h\<rparr>)\<lparr>sx_mod := (sx_mod v)(mo_addr mo := None)\<rparr>,
    rw_buf := freed as (rw_buf w), rw_node := freed (concat ass) (rw_node w)\<rparr>"
  have run: "zcrt_module_delete mo w = Inr (ipc\<lparr>im_run := False\<rparr>, im_socket ipc, Some (tm\<lparr>tq_run := False\<rparr>), Some (freed (concat (efs # eass)) (ev_heap ev)), ?w)"
    using mo d(1) m event_manage_deletes [OF mo(3)] by (simp add: zcrt_module_delete_def zcrt_timer_manage_delete_def Let_def set_thr_def)
  have st: "\<exists>th. ?h t = Some th \<and> \<not> th_run th \<and> 0 < th_sem th" if t: "t \<in> insert t0 (set ts)" for t
  proof (cases "t \<in> set ts")
    case True
    then obtain n where "((sx_thr v)(t0 \<mapsto> stopped th0')) t = Some n" using chain_dom [OF ch] by blast
    then show ?thesis using True by (simp add: stopped_def)
  next
    case False
    then have "t = t0" using t by simp
    then show ?thesis using False by (simp add: stopped_def)
  qed
  have t2m: "\<exists>th. ?h t2 = Some th \<and> th_module th = Some (mo_addr mo) \<and> \<not> th_run th"
    using d(11-13,15) t2 ne by (auto simp: stopped_def)
  have "zcrt_s_thr_remove_from_module t2 (rw_sch ?w) = Inl NullDeref"
    using t2m by (auto simp: zcrt_s_thr_remove_from_module_def)
  moreover have "accept_loop rs v1 = Some (Inr v1) \<and> client_round ra c rn buf v1 = Inr (False, buf, v1)"
    if "zw_ipc v1 = ipc\<lparr>im_run := False\<rparr>" for v1 :: "'w zIpcWorld" and rs ra c rn buf
    using that by (simp add: server_threads_leave)
  ultimately show ?thesis using run st d(2) t2m by (intro exI [of _ ?w]) auto
qed

definition idle_module :: zCRTModule where
  "idle_module = \<lparr>mo_addr = 1, mo_timer = zcrt_timer_manage_init True Map.empty, mo_evt = Some ev_empty, mo_zipc = Some idle_ipc\<rparr>"

definition idle_run :: zRunWorld where
  "idle_run = \<lparr>rw_sch = idle_world, rw_buf = [7 \<mapsto> zbuf_zero], rw_node = Map.empty, rw_starttime = 0, rw_start_cpu_clock = 0, rw_global = None\<rparr>"

theorem module_delete_spec_witness:
  "\<exists>tm eh w'. zcrt_module_delete idle_module idle_run = Inr (idle_ipc\<lparr>im_run := False\<rparr>, 3, tm, eh, w') \<and> rw_buf w' = Map.empty \<and>
    (\<exists>th. sx_thr (rw_sch w') 5 = Some th \<and> \<not> th_run th)"
proof -
  have h: "im_modlist idle_ipc = Some empty_table" "im_sch idle_ipc = Some 3" "im_respondSch idle_ipc = Some 4" "im_evtSch idle_ipc = Some 6"
    by (simp_all add: idle_ipc_def)
  have m: "mo_zipc idle_module = Some idle_ipc" "mo_evt idle_module = Some ev_empty" "mo_timer idle_module = zcrt_timer_manage_init True Map.empty"
    "mo_addr idle_module = 1" by (simp_all add: idle_module_def)
  obtain tm where tm: "mo_timer idle_module = Some tm" using m(3) by (simp add: zcrt_timer_manage_init_def)
  have w: "rw_sch idle_run = idle_world" "rw_buf idle_run = [7 \<mapsto> zbuf_zero]" "rw_node idle_run = Map.empty" by (simp_all add: idle_run_def)
  have md: "sx_mod (rw_sch idle_run) (mo_addr idle_module) = Some \<lparr>md_zcrtthr = Some 2, md_schthr_list = Some 5\<rparr>"
    "sx_thr (rw_sch idle_run) 5 = Some (idle_thr (Some 1) 6)" "th_module (idle_thr (Some 1) 6) = Some (mo_addr idle_module)"
    "chain th_next (sx_thr (rw_sch idle_run)) (Some 5) [5] None"
    by (simp_all add: w m(4) idle_world_def idle_thr_def)
  have s: "im_socket idle_ipc = 3" by (simp add: idle_ipc_def)
  have "freed [7] [7 \<mapsto> zbuf_zero] = Map.empty" by (auto simp: freed_def fun_eq_iff)
  then show ?thesis
    using module_delete_spec [OF m(1,2) ev_empty_wf(1) tm idle_ipc_wf [folded w(2)] h(1) empty_table_wf(1) h(2-4)
        idle_ok [folded w(1)] idle_three [folded w(1)] md(1) _ _ md(2,3), of "[5]"] md(4) w(2) s by fastforce
qed

section \<open>The module's mutex and its clocks\<close>

text \<open>
  A module is given as \<^verbatim>\<open>None\<close> or with its mutex, which may be missing; \<^verbatim>\<open>lock\<close> and
  \<^verbatim>\<open>unlock\<close> are those of the port.
\<close>

definition zcrt_module_lock :: "('m \<Rightarrow> 's \<Rightarrow> 's) \<Rightarrow> 'm option option \<Rightarrow> 's \<Rightarrow> 's" where
  "zcrt_module_lock lock m st = (case m of Some (Some mutex) \<Rightarrow> lock mutex st | _ \<Rightarrow> st)"

definition zcrt_module_unlock :: "('m \<Rightarrow> 's \<Rightarrow> 's) \<Rightarrow> 'm option option \<Rightarrow> 's \<Rightarrow> 's" where
  "zcrt_module_unlock unlock m st = (case m of Some (Some mutex) \<Rightarrow> unlock mutex st | _ \<Rightarrow> st)"

text \<open>What \<^verbatim>\<open>time\<close> and \<^verbatim>\<open>clock\<close> give is cut to 32 bits.\<close>

definition zcrt_current_time :: "'l::len word \<Rightarrow> u32" where
  "zcrt_current_time t = ucast t"

definition zcrt_cpu_clock :: "'l::len word \<Rightarrow> u32" where
  "zcrt_cpu_clock c = ucast c"

text \<open>The running clock is the time that has passed since the last module was made, modulo 32 bits, whatever the clock was then.\<close>

lemma running_clock_elapsed:
  fixes start d :: "64 word"
  assumes "rw_start_cpu_clock w = zcrt_cpu_clock start"
  shows "zcrt_running_clock (zcrt_cpu_clock (start + d)) w = ucast d"
proof -
  have "(ucast (start + d) :: u32) = ucast start + ucast d"
    by (rule word_unat_eq_iff [THEN iffD2])
      (simp add: unsigned_ucast_eq unsigned_take_bit_eq take_bit_eq_mod unat_word_ariths mod_mod_cancel mod_add_eq)
  then show ?thesis using assms by (simp add: zcrt_running_clock_def zcrt_cpu_clock_def)
qed

end
