(* ===== verification/Spec2Isabelle.thy ===== *)
theory Spec2Isabelle
  imports Zcrt_Buf Zcrt_Str Zcrt_Array Zcrt_Hash Zcrt_Event Zcrt_Timer Zcrt_Schedule Zcrt_Race Zcrt_Mem_Kernal Zipc_Tlv Zipc_Comp Zipc_Dir Zipc_Parse Zcrt_Sch_Frame Zipc_Server Zipc_Listen Zipc_Flow Zipc_Server_Kernal Zipc_Kernal_Life
    Zipc_Kernal_Flow Zipc_Session Zipc_Broadcast Zipc_Kernal_Session Zcrt_Os Zcrt_Os_Kernal Zcrt_Wakeup Zipc_Tlv_Array Zcrt_Log Zcrt_Module
begin

text \<open>
  A model of zcrt, a small C runtime for embedded software, with the theorems about it. The sources are under
  \<^verbatim>\<open>src/\<close>: the headers in \<^verbatim>\<open>zcrt/\<close>, the library in \<^verbatim>\<open>zcrtlib/\<close>, the server for inter-process calls in \<^verbatim>\<open>zipc/\<close>.

  \<^bold>\<open>The program.\<close> A module (\<^verbatim>\<open>zcrtlib/zmodule.c\<close>) holds a timer manager, an event manager, a worker
  thread and a server. Timers call back from the timer thread, events call back in the thread that sends them, jobs
  are queued on schedules and run by worker threads. The server receives messages, queues each as a job, lets the
  job look up the called component and action in a table, run the call and queue the reply for another schedule;
  clients can also hook events, which are then encoded as messages. Everything is built on growing byte buffers,
  counted strings, growing arrays, hash tables and lists threaded through the nodes themselves.

  \<^bold>\<open>The theories\<close>, in the order they build on one another.
  \<^item> \<^verbatim>\<open>Zcrt_Prelude\<close>: machine integers, faults, results with faults, byte pointers into blocks, and the rewrite
    rules all others use; \<^verbatim>\<open>Zcrt_Macro\<close>: constants and error codes (\<^verbatim>\<open>zmacro.h\<close>, \<^verbatim>\<open>zerrcode.h\<close>).
  \<^item> \<^verbatim>\<open>Zcrt_Chain\<close>: lists through link fields in a heap of nodes; the locale \<^verbatim>\<open>linked\<close> states what the list code
    needs of a node type and is interpreted for timers, subscriptions and jobs.
  \<^item> \<^verbatim>\<open>Zcrt_Buf\<close> (\<^verbatim>\<open>zbuf.c\<close>), \<^verbatim>\<open>Zcrt_Str\<close> (\<^verbatim>\<open>zstr.c\<close>), \<^verbatim>\<open>Zcrt_Array\<close> (\<^verbatim>\<open>zarraylist.c\<close>), \<^verbatim>\<open>Zcrt_Hash\<close> (\<^verbatim>\<open>zhash.c\<close>;
    the locale \<^verbatim>\<open>hash_laws\<close> is interpreted for the server's components in \<^verbatim>\<open>Zipc_Comp\<close>).
  \<^item> \<^verbatim>\<open>Zcrt_Event\<close> (\<^verbatim>\<open>zevent.c\<close>), \<^verbatim>\<open>Zcrt_Timer\<close> (\<^verbatim>\<open>ztimer.c\<close>), \<^verbatim>\<open>Zcrt_Schedule\<close> (\<^verbatim>\<open>zschedule.c\<close>), \<^verbatim>\<open>Zcrt_Sch_Frame\<close>: what
    each operation on one thread's schedules leaves alone, counters that count, and deleting the three schedules of a server;
    \<^verbatim>\<open>Zcrt_Race\<close>: any number of senders to the schedules of a thread, interleaved with each other and with the worker.
  \<^item> \<^verbatim>\<open>Zipc_Varint\<close> and \<^verbatim>\<open>Zipc_Tlv\<close> (\<^verbatim>\<open>zipc_tlv.c\<close>): variable-length integers and tagged values; the locales \<^verbatim>\<open>codec\<close>
    and \<^verbatim>\<open>elem_codec\<close> state a reader and a writer that fit and are interpreted for every kind of value.
  \<^item> \<^verbatim>\<open>Zipc_Comp\<close> (\<^verbatim>\<open>zipc_server.c\<close> and the component functions of \<^verbatim>\<open>zipc_parse.c\<close>), \<^verbatim>\<open>Zipc_Dir\<close> (the server's table of
    components implements a directory), \<^verbatim>\<open>Zipc_Parse\<close> (the messages of
    \<^verbatim>\<open>zipc_parse.c\<close>), \<^verbatim>\<open>Zipc_Server\<close> (\<^verbatim>\<open>zipc_server_os.c\<close>), \<^verbatim>\<open>Zipc_Listen\<close> (its listening thread), \<^verbatim>\<open>Zcrt_Module\<close> (\<^verbatim>\<open>zmodule.c\<close>, \<^verbatim>\<open>zcmm.c\<close>), and \<^verbatim>\<open>Zipc_Flow\<close>: a request and an
    event on their whole way through the threads of a server.
  \<^item> \<^verbatim>\<open>Zipc_Tlv_Array\<close>: the macros of \<^verbatim>\<open>zipc_tlv.h\<close> that generated code is written with, compared with the functions.
  \<^item> \<^verbatim>\<open>Zcrt_Handle\<close>: handles of objects of the operating system and the laws of its semaphores; \<^verbatim>\<open>Zcrt_Os\<close>
    (\<^verbatim>\<open>zcrt_os_linux.c\<close>, \<^verbatim>\<open>zcrt_os_win32.c\<close>): what the user-space ports make of the calls they wrap; \<^verbatim>\<open>Zcrt_Wakeup\<close>: the worker's sleep
    and the senders' wake-up with such a semaphore, for every port. \<^verbatim>\<open>Zcrt_Log\<close> (\<^verbatim>\<open>zlog.c\<close>, \<^verbatim>\<open>zlog.h\<close>): the lines of the log.
  \<^item> The kernel port: \<^verbatim>\<open>Zcrt_Mem_Kernal\<close> (\<^verbatim>\<open>zcrt_mem_kernal.c\<close>), \<^verbatim>\<open>Zcrt_Os_Kernal\<close> (\<^verbatim>\<open>zcrt_os_kernal.c\<close>),
    \<^verbatim>\<open>Zipc_Server_Kernal\<close> (receiving and answering, \<^verbatim>\<open>zipc_server_kernal.c\<close>), \<^verbatim>\<open>Zipc_Kernal_Life\<close> (its creation, deletion and
    event callback), \<^verbatim>\<open>Zipc_Kernal_Flow\<close>: a request and an event on their whole way through that server.
  \<^item> \<^verbatim>\<open>Zipc_Session\<close> and \<^verbatim>\<open>Zipc_Kernal_Session\<close>: any number of requests, one behind the other, on sockets and on
    netlink. A server that is \<^verbatim>\<open>warm\<close> has idle threads, unused nodes for its jobs and two buffers in its pool; one request
    leaves it so, which is what lets the rounds be put together.
  \<^item> \<^verbatim>\<open>Zipc_Broadcast\<close>: events raised and sent in any order. What the server keeps of them (\<^verbatim>\<open>outbox\<close>: jobs of one schedule, each with
    a buffer of the pool) implements a bounded \<^verbatim>\<open>mailbox\<close>, full queue and empty pool included.

  \<^bold>\<open>How code becomes definitions.\<close> A function keeps its name, without a leading underscore; where two
  ports define the same name the kernel's has the prefix \<^verbatim>\<open>kern_\<close>, \<^verbatim>\<open>mutex_\<close> or \<^verbatim>\<open>nl_\<close>. A structure is a record with
  the fields of the source, less those that only hold handles of the operating system. A 32-bit integer is a word of
  32 bits, unsigned where it is compared plainly and signed where its signed value is taken. A pointer to a byte
  is a block with an index; a pointer to a node is an address in a heap, a map from addresses to nodes; NULL is
  \<^verbatim>\<open>None\<close>. A function returns \<^verbatim>\<open>Inl\<close> a fault where C has no defined outcome (NULL
  or a freed node is followed, a block is left, an assertion fails, a loop never ends) and \<^verbatim>\<open>Inr\<close> its
  result otherwise; the error codes of the runtime are ordinary results. Loops over nodes and the doubling loop of
  \<^verbatim>\<open>zcrt_buf_realloc\<close> are partial functions into options, with no result exactly when they never end, so that
  termination is proved and never assumed. The only fuel is that of \<^verbatim>\<open>zipc_component_delete\<close>, which frees a component
  and those registered in it; \<^verbatim>\<open>ct_fuel\<close> of the tree of components is enough, and \<^verbatim>\<open>component_delete_frees\<close> holds for
  every larger fuel.

  \<^bold>\<open>Parameters.\<close> What is not under \<^verbatim>\<open>src/\<close> is an argument: what malloc and realloc give (a new
  address, a block, or nothing), the callbacks of timers, events and jobs, the registered calls, the event encoder, what
  recv delivers, the calls of the operating system and the sizes of netlink headers. The two counter functions of the port are
  arguments of what schedules and messages share (\<^verbatim>\<open>counter_fn\<close>); the server on sockets uses those of the Linux port, which do
  not count, and the kernel's server those of the kernel port, which do. The hypotheses about them, such as
  \<^verbatim>\<open>realloc_total\<close>, \<^verbatim>\<open>sch_outside\<close>, \<^verbatim>\<open>answers\<close> and \<^verbatim>\<open>sem_laws\<close>, say only what their documentation says or what the theorem
  is about, and each theorem with one has an instance with concrete functions.

  \<^bold>\<open>What is shown.\<close> Each component has an invariant of its state that its operations keep (\<^verbatim>\<open>buf_wf\<close>,
  \<^verbatim>\<open>arr_wf\<close>, \<^verbatim>\<open>hash_wf\<close>, \<^verbatim>\<open>ev_wf\<close>, \<^verbatim>\<open>tm_wf\<close>, \<^verbatim>\<open>sch_wf\<close>, \<^verbatim>\<open>pool_wf\<close>, \<^verbatim>\<open>mx_inv\<close>) and the behaviour of each operation on
  the data that the heap represents. The numbered properties are the main ones. The server: a request is answered by
  exactly one message with the reply of the registered call, from the bytes received to the bytes sent through both threads, and
  an event reaches whoever hooked it as one message, on sockets and on netlink; on netlink the message is dropped when the kernel
  has no socket buffer, and one of 64000 bytes or more fails the assertion of the sending; on sockets the clients get their events in order
  through a bounded mailbox that loses the newest when it is full; any number of requests in a row is
  answered so, in order, without malloc once the server is warm; deleting a server or a module frees exactly what is stated, clears
  the flag the listening and client threads leave by, and stops the workers that are stated; a header that is accepted fits the buffers; a client that
  leaves is unsubscribed; every connection becomes one client; the table of components implements a directory under every
  sequence of registrations. Timers: a scan of the linked list implements a function on lists; with callbacks that leave the
  timers alone every timer expires in time and is called once if its container exists. Schedules: however the steps of the senders
  and the worker interleave, the lists stay well formed, nothing faults, and a maximum is passed by at most one job for every
  sender but the first (the size is tested outside the mutexes, so two senders do pass it: \<^verbatim>\<open>two_senders_exceed\<close>); jobs run by
  priority and in order; deleting a schedule takes out its jobs and no others; no wake-up of the worker is lost, on any port. Events: lists stay ordered by priority and every fitting subscription is called. Buffers: after
  any operations, refused memory and wrapping lengths included, the fields are consistent with the block up to one stated
  exception, and fully so without refusals. Tagged values: contents, bounds and round trips. A line of the log is written the same only by calls that agree in all it tells. The kernel's mutex excludes, at the granularity of statements.

  Some properties state what the code does where it does not do what it should: a nested section under the kernel's interrupt lock leaves the interrupts off, a timer behind others makes them
  count down twice, a timer added with arguments never fires, deleting a schedule can break a queue or stop a shared
  thread, a full container table can hang the search, the
  kernel's mutex can wait for itself, a netlink message can make the server read behind its end, and a refused one
  costs a buffer. They are exact statements, with the inputs for which they hold.

  \<^bold>\<open>Concurrency.\<close> Code that runs under one mutex is one step. In \<^verbatim>\<open>race_step\<close> a call of a sender is three steps, as the mutexes
  of \<^verbatim>\<open>zschedule.c\<close> divide it, and other senders and the worker run in between; in \<^verbatim>\<open>wk_step\<close> a call's queueing is one step and giving the
  semaphore another, as are the worker's finding nothing and its waiting; \<^verbatim>\<open>mx_step\<close> interleaves the statements of locking and
  unlocking themselves. The rounds of the timer thread and of a client thread are separate definitions, between which other
  threads may run. Coarser on purpose: in \<^verbatim>\<open>evt_steps\<close> (\<^verbatim>\<open>Zipc_Broadcast\<close>) sending an event to all its hooks is one step and a whole
  wake-up of the worker another, although the worker may wake between two hooks of one event; and in the flows and sessions each
  thread runs its wake-up to the end before the next one runs.

  \<^bold>\<open>Not modelled.\<close> The calls of the operating system, the C library and the kernel themselves: they are arguments, and what
  the log writes is a list of texts, one for each call of printf. What the socket library answers is an argument; that the listening thread and the thread that deletes its server
  close the same socket is not represented, since sockets are numbers here. The record of a server that has been deleted stays
  readable in the model, while the code frees it. A failed assertion is a fault everywhere, as in user programs; the kernel's
  \<^verbatim>\<open>ZCRT_ASSERT\<close> only prints a line and goes on. Memory that the kernel's malloc leaves
  uninitialised is zero in the model; no theorem reads it. \<^verbatim>\<open>zlinklist.c\<close> and the test programs hold no code of the
  runtime.
\<close>

end
